(* ===== verification/Lcq_Prelude.thy ===== *)
theory Lcq_Prelude
  imports Main "HOL-Library.Word" "HOL-Library.List_Lexorder" "HOL-Library.Char_ord"
begin

text \<open>
  What the component theories share: the names of Rust's integer types, saturating
  arithmetic on them, big- and little-endian byte strings, sums as results, and the
  ordered maps and sets (\<open>BTreeMap\<close>, \<open>BTreeSet\<close>) of Rust's standard library.

  A machine integer is a word of its width, so that plain \<open>+\<close>, \<open>-\<close>, \<open>*\<close>
  wrap as they do in a release build. A collection's length (\<open>usize\<close>) is a \<open>nat\<close>;
  where the code narrows or multiplies one, the model writes the narrowing out.
\<close>

unbundle bit_operations_syntax

section \<open>Integer types and saturating arithmetic\<close>

type_synonym u8 = "8 word"
type_synonym u16 = "16 word"
type_synonym u32 = "32 word"
type_synonym u64 = "64 word"
type_synonym bytes = "8 word list"

text \<open>A Rust \<open>Result<'a, 'e>\<close>: \<open>Inl\<close> is \<open>Err\<close>, \<open>Inr\<close> is \<open>Ok\<close>.\<close>

type_synonym ('e, 'a) result = "'e + 'a"

named_theorems sat_simps \<open>saturating word arithmetic read as arithmetic on \<open>nat\<close>\<close>

definition sat_add :: "'a::len word \<Rightarrow> 'a word \<Rightarrow> 'a word" where
  "sat_add a b = (if unat a + unat b < 2 ^ LENGTH('a) then a + b else - 1)"

definition sat_sub :: "'a::len word \<Rightarrow> 'a word \<Rightarrow> 'a word" where
  "sat_sub a b = (if b \<le> a then a - b else 0)"

definition sat_mul :: "'a::len word \<Rightarrow> 'a word \<Rightarrow> 'a word" where
  "sat_mul a b = (if unat a * unat b < 2 ^ LENGTH('a) then a * b else - 1)"

lemma unat_max_word: "unat (- 1 :: 'a::len word) = 2 ^ LENGTH('a) - 1"
  by transfer (simp add: nat_mask_eq mask_eq_exp_minus_1 take_bit_minus_one_eq_mask nat_diff_distrib nat_power_eq)

lemma unat_sat_add [sat_simps]:
  "unat (sat_add a b) = min (unat a + unat b) (2 ^ LENGTH('a) - 1)"
  for a b :: "'a::len word"
proof (cases "unat a + unat b < 2 ^ LENGTH('a)")
  case True
  then have "unat (a + b) = unat a + unat b"
    by (simp add: unat_word_ariths)
  with True show ?thesis by (simp add: sat_add_def)
next
  case False
  then show ?thesis by (simp add: sat_add_def unat_max_word)
qed

lemma unat_sat_sub [sat_simps]: "unat (sat_sub a b) = unat a - unat b"
  by (simp add: sat_sub_def unat_sub word_le_nat_alt)

lemma unat_sat_mul [sat_simps]:
  "unat (sat_mul a b) = min (unat a * unat b) (2 ^ LENGTH('a) - 1)"
  for a b :: "'a::len word"
proof (cases "unat a * unat b < 2 ^ LENGTH('a)")
  case True
  then have "unat (a * b) = unat a * unat b"
    by (simp add: unat_word_ariths)
  with True show ?thesis by (simp add: sat_mul_def)
next
  case False
  then show ?thesis by (simp add: sat_mul_def unat_max_word)
qed

lemma unat_ucast_up:
  "LENGTH('a) \<le> LENGTH('b) \<Longrightarrow> unat (ucast (w :: 'a::len word) :: 'b::len word) = unat w"
proof -
  assume le: "LENGTH('a) \<le> LENGTH('b)"
  have "unat w < 2 ^ LENGTH('a)" by (rule unsigned_less)
  also have "\<dots> \<le> 2 ^ LENGTH('b)" using le by simp
  finally show ?thesis by (simp add: unsigned_ucast_eq take_bit_nat_eq_self)
qed

lemma unat_ucast_8_16 [simp]: "unat (ucast (w :: u8) :: u16) = unat w"
  by (rule unat_ucast_up) simp

lemma unat_ucast_8_32 [simp]: "unat (ucast (w :: u8) :: u32) = unat w"
  by (rule unat_ucast_up) simp

lemma unat_ucast_8_64 [simp]: "unat (ucast (w :: u8) :: u64) = unat w"
  by (rule unat_ucast_up) simp

lemma unat_ucast_16_64 [simp]: "unat (ucast (w :: u16) :: u64) = unat w"
  by (rule unat_ucast_up) simp

lemma unat_ucast_32_64 [simp]: "unat (ucast (w :: u32) :: u64) = unat w"
  by (rule unat_ucast_up) simp

lemma unat_lt_u64: "unat (a :: u64) < 18446744073709551616"
  using unsigned_less [of a] by simp

lemma unat_le_u64: "unat (a :: u64) \<le> 18446744073709551615"
  using unat_lt_u64 [of a] by simp

text \<open>Code equations that stay in binary arithmetic, for evaluation.\<close>

lemma sat_add_code [code]: "sat_add a b = (let s = a + b in if s < a then - 1 else s)"
proof -
  have "a + b < a \<longleftrightarrow> \<not> unat a + unat b < 2 ^ LENGTH('a)" for a b :: "'a::len word"
  proof (cases "unat a + unat b < 2 ^ LENGTH('a)")
    case True
    then show ?thesis by (simp add: word_less_nat_alt unat_word_ariths)
  next
    case False
    have "unat a < 2 ^ LENGTH('a)" "unat b < 2 ^ LENGTH('a)" by (rule unsigned_less)+
    then have "unat a + unat b - 2 ^ LENGTH('a) < 2 ^ LENGTH('a)" by linarith
    with False have "(unat a + unat b) mod 2 ^ LENGTH('a) = unat a + unat b - 2 ^ LENGTH('a)"
      by (simp add: le_mod_geq)
    moreover have "unat a + unat b - 2 ^ LENGTH('a) < unat a"
      using False \<open>unat b < _\<close> by linarith
    ultimately show ?thesis using False by (simp add: word_less_nat_alt unat_word_ariths)
  qed
  then show ?thesis by (simp add: sat_add_def Let_def)
qed

lemma sat_mul_code [code]:
  "sat_mul a b = (if uint a * uint b < 2 ^ LENGTH('a) then a * b else - 1)" for a b :: "'a::len word"
proof -
  have "uint a * uint b < 2 ^ LENGTH('a) \<longleftrightarrow> unat a * unat b < 2 ^ LENGTH('a)"
  proof -
    have "int (unat a * unat b) < int (2 ^ LENGTH('a)) \<longleftrightarrow> unat a * unat b < 2 ^ LENGTH('a)"
      by (rule of_nat_less_iff)
    then show ?thesis by simp
  qed
  then show ?thesis by (simp add: sat_mul_def)
qed

lemma sat_add_ge: "a \<le> sat_add a b"
proof -
  have "unat a < 2 ^ LENGTH('a)" for a :: "'a::len word"
    by (rule unsigned_less)
  then have "unat a \<le> unat (sat_add a b)"
    by (simp add: sat_simps le_diff_conv2 Suc_leI)
  then show ?thesis by (simp add: word_le_nat_alt)
qed

lemma sat_add_mono: "a \<le> b \<Longrightarrow> sat_add a c \<le> sat_add b c"
  by (simp add: word_le_nat_alt sat_simps)

lemma sat_add_0 [simp]: "sat_add a 0 = a"
  using unsigned_less [of a] by (simp add: sat_add_def)

section \<open>Byte strings\<close>

text \<open>
  \<open>to_be_bytes\<close> and \<open>to_le_bytes\<close> of the integer types: \<open>n\<close> bytes, most or least
  significant first; \<open>from_be_bytes\<close> reads them back.
\<close>

fun le_bytes :: "nat \<Rightarrow> 'a::len word \<Rightarrow> bytes" where
  "le_bytes 0 w = []"
| "le_bytes (Suc n) w = ucast w # le_bytes n (drop_bit 8 w)"

definition be_bytes :: "nat \<Rightarrow> 'a::len word \<Rightarrow> bytes" where
  "be_bytes n w = rev (le_bytes n w)"

fun of_le_bytes :: "bytes \<Rightarrow> 'a::len word" where
  "of_le_bytes [] = 0"
| "of_le_bytes (b # bs) = (ucast b :: 'a word) + push_bit 8 (of_le_bytes bs)"

definition of_be_bytes :: "bytes \<Rightarrow> 'a::len word" where
  "of_be_bytes bs = of_le_bytes (rev bs)"

lemma length_le_bytes [simp]: "length (le_bytes n w) = n"
  by (induction n arbitrary: w) auto

lemma length_be_bytes [simp]: "length (be_bytes n w) = n"
  by (simp add: be_bytes_def)

lemma ucast_split_low: "(ucast (ucast w :: u8) :: 'a::len word) + push_bit 8 (drop_bit 8 w) = w"
  if "8 \<le> LENGTH('a)" for w :: "'a::len word"
proof -
  have "(ucast (ucast w :: u8) :: 'a word) = take_bit 8 w"
    by (rule bit_word_eqI) (auto simp: bit_simps that)
  then have "(ucast (ucast w :: u8) :: 'a word) + push_bit 8 (drop_bit 8 w)
      = take_bit 8 w + push_bit 8 (drop_bit 8 w)" by simp
  also have "\<dots> = w" using bits_ident [of 8 w] by (simp only: add.commute)
  finally show ?thesis .
qed

lemma of_le_bytes_le_bytes:
  assumes "8 \<le> LENGTH('a)" and "w = take_bit (8 * n) w"
  shows "of_le_bytes (le_bytes n w) = (w :: 'a::len word)"
  using assms(2)
proof (induction n arbitrary: w)
  case 0
  then show ?case by simp
next
  case (Suc n)
  have "drop_bit 8 w = take_bit (8 * n) (drop_bit 8 w)"
    by (subst Suc.prems) (simp add: drop_bit_take_bit)
  then have "of_le_bytes (le_bytes n (drop_bit 8 w)) = drop_bit 8 w"
    by (rule Suc.IH)
  then show ?case by (simp add: ucast_split_low assms(1))
qed

lemma of_be_bytes_be_bytes:
  assumes "8 \<le> LENGTH('a)" and "LENGTH('a) \<le> 8 * n"
  shows "of_be_bytes (be_bytes n w) = (w :: 'a::len word)"
proof -
  have "w = take_bit (8 * n) w"
    using assms(2) by (simp add: take_bit_word_eq_self)
  then show ?thesis
    using assms(1) by (simp add: of_be_bytes_def be_bytes_def of_le_bytes_le_bytes)
qed

lemma of_le_bytes_of_le_bytes_full:
  assumes "8 \<le> LENGTH('a)" and "LENGTH('a) \<le> 8 * n"
  shows "of_le_bytes (le_bytes n w) = (w :: 'a::len word)"
  using assms by (simp add: of_le_bytes_le_bytes take_bit_word_eq_self)

lemma be_bytes_16 [simp]: "of_be_bytes (be_bytes 2 w) = (w :: u16)"
  by (rule of_be_bytes_be_bytes) simp_all

lemma be_bytes_32 [simp]: "of_be_bytes (be_bytes 4 w) = (w :: u32)"
  by (rule of_be_bytes_be_bytes) simp_all

lemma be_bytes_64 [simp]: "of_be_bytes (be_bytes 8 w) = (w :: u64)"
  by (rule of_be_bytes_be_bytes) simp_all

lemma le_bytes_32 [simp]: "of_le_bytes (le_bytes 4 w) = (w :: u32)"
  by (rule of_le_bytes_of_le_bytes_full) simp_all

lemma be_bytes_inj_16 [simp]: "be_bytes 2 a = be_bytes 2 (b :: u16) \<longleftrightarrow> a = b"
  by (metis be_bytes_16)

lemma be_bytes_inj_32 [simp]: "be_bytes 4 a = be_bytes 4 (b :: u32) \<longleftrightarrow> a = b"
  by (metis be_bytes_32)

lemma be_bytes_inj_64 [simp]: "be_bytes 8 a = be_bytes 8 (b :: u64) \<longleftrightarrow> a = b"
  by (metis be_bytes_64)

text \<open>
  Bytes read back as a fixed-width integer can be written out again: the other half of
  the round trip.
\<close>

lemma le_bytes_of_le_bytes:
  assumes "8 * length bs \<le> LENGTH('a)"
  shows "le_bytes (length bs) (of_le_bytes bs :: 'a::len word) = bs"
  using assms
proof (induction bs)
  case Nil
  then show ?case by simp
next
  case (Cons b bs)
  let ?r = "of_le_bytes bs :: 'a word"
  have len: "8 \<le> LENGTH('a)" using Cons.prems by simp
  have disj: "(ucast b :: 'a word) + push_bit 8 ?r = ucast b OR push_bit 8 ?r"
    by (rule disjunctive_add) (auto simp: bit_simps dest: bit_imp_le_length)
  have low: "(ucast ((ucast b :: 'a word) OR push_bit 8 ?r) :: u8) = b"
    by (rule bit_word_eqI) (use len in \<open>auto simp: bit_simps\<close>)
  have rtake: "take_bit (8 * length bs) ?r = ?r"
  proof -
    have bound: "\<And>n. bit ?r n \<Longrightarrow> n < 8 * length bs"
    proof -
      fix n assume "bit ?r n"
      then show "n < 8 * length bs"
      proof (induction bs arbitrary: n)
        case Nil
        then show ?case by simp
      next
        case (Cons c cs)
        have dd: "(ucast c :: 'a word) + push_bit 8 (of_le_bytes cs) = ucast c OR push_bit 8 (of_le_bytes cs)"
          by (rule disjunctive_add) (auto simp: bit_simps dest: bit_imp_le_length)
        from Cons.prems have "bit ((ucast c :: 'a word) OR push_bit 8 (of_le_bytes cs)) n"
          by (simp add: dd)
        then consider "n < 8" | "8 \<le> n" "bit (of_le_bytes cs :: 'a word) (n - 8)"
          by (auto simp: bit_simps dest: bit_imp_le_length)
        then show ?case
        proof cases
          case 2
          from Cons.IH [OF 2(2)] 2(1) show ?thesis by simp
        qed simp
      qed
    qed
    show ?thesis by (rule bit_word_eqI) (auto simp: bit_simps dest: bound)
  qed
  have high: "drop_bit 8 ((ucast b :: 'a word) OR push_bit 8 ?r) = ?r"
  proof (rule bit_word_eqI)
    fix n assume "n < LENGTH('a)"
    have "bit ?r n \<Longrightarrow> n + 8 < LENGTH('a)"
      using rtake Cons.prems by (metis add.commute add_less_mono1 bit_take_bit_iff length_Cons
        mult_Suc_right order_less_le_trans)
    then show "bit (drop_bit 8 ((ucast b :: 'a word) OR push_bit 8 ?r)) n = bit ?r n"
      by (auto simp: bit_simps ac_simps dest: bit_imp_le_length)
  qed
  from Cons show ?case by (simp only: of_le_bytes.simps list.size add_0 add_Suc_right le_bytes.simps disj low high) simp
qed

lemma be_bytes_of_be_bytes:
  "8 * length bs \<le> LENGTH('a) \<Longrightarrow> length bs = n
    \<Longrightarrow> be_bytes n (of_be_bytes bs :: 'a::len word) = bs"
  using le_bytes_of_le_bytes [of "rev bs", where 'a = 'a]
  by (simp add: be_bytes_def of_be_bytes_def)

section \<open>Results\<close>

text \<open>Iterating a fallible step over a list, stopping at the first error (\<open>for .. ?\<close>).\<close>

fun try_fold :: "('s \<Rightarrow> 'x \<Rightarrow> ('e, 's) result) \<Rightarrow> 's \<Rightarrow> 'x list \<Rightarrow> ('e, 's) result" where
  "try_fold f s [] = Inr s"
| "try_fold f s (x # xs) = (case f s x of Inl e \<Rightarrow> Inl e | Inr s' \<Rightarrow> try_fold f s' xs)"

lemma try_fold_append:
  "try_fold f s (xs @ ys) = (case try_fold f s xs of Inl e \<Rightarrow> Inl e | Inr t \<Rightarrow> try_fold f t ys)"
  by (induction xs arbitrary: s) (auto split: sum.splits)

lemma try_fold_invariant:
  assumes "try_fold f s xs = Inr t" and "P s"
    and "\<And>s x t. P s \<Longrightarrow> x \<in> set xs \<Longrightarrow> f s x = Inr t \<Longrightarrow> P t"
  shows "P t"
  using assms
proof (induction xs arbitrary: s)
  case Nil
  then show ?case by simp
next
  case (Cons x xs)
  from Cons.prems(1) obtain u where u: "f s x = Inr u" "try_fold f u xs = Inr t"
    by (auto split: sum.splits)
  have "P u" by (rule Cons.prems(3) [OF Cons.prems(2) _ u(1)]) simp
  show ?case
    by (rule Cons.IH [OF u(2) \<open>P u\<close>]) (auto intro: Cons.prems(3))
qed

end
