(* ===== verification/Lcq_Btree.thy ===== *)
theory Lcq_Btree
  imports Lcq_Prelude
begin

text \<open>
  Rust's \<open>BTreeMap\<close> and \<open>BTreeSet\<close>, which the policy, the journals and the queue
  hold their state in. A map is the list of its entries in strictly ascending key order,
  which is what its iterators (\<open>iter\<close>, \<open>keys\<close>, \<open>values\<close>) give; a set is a map
  to \<open>unit\<close>, as in the standard library. Equal contents are equal lists
  (\<open>bt_eqI\<close>), as \<open>==\<close> on the Rust types says.
\<close>

type_synonym ('k, 'v) btree = "('k \<times> 'v) list"
type_synonym 'k bset = "('k \<times> unit) list"

named_theorems bt_simps \<open>lookup and key laws of the ordered maps\<close>

definition bt_inv :: "('k::linorder, 'v) btree \<Rightarrow> bool" where
  "bt_inv m \<longleftrightarrow> sorted_wrt (<) (map fst m)"

definition bt_get :: "('k, 'v) btree \<Rightarrow> 'k \<Rightarrow> 'v option" where
  "bt_get m k = map_of m k"

fun bt_insert :: "'k::linorder \<Rightarrow> 'v \<Rightarrow> ('k, 'v) btree \<Rightarrow> ('k, 'v) btree" where
  "bt_insert k v [] = [(k, v)]"
| "bt_insert k v ((a, b) # m) =
     (if k < a then (k, v) # (a, b) # m
      else if k = a then (k, v) # m
      else (a, b) # bt_insert k v m)"

definition bt_remove :: "'k \<Rightarrow> ('k, 'v) btree \<Rightarrow> ('k, 'v) btree" where
  "bt_remove k m = filter (\<lambda>e. fst e \<noteq> k) m"

definition bt_retain :: "('k \<Rightarrow> 'v \<Rightarrow> bool) \<Rightarrow> ('k, 'v) btree \<Rightarrow> ('k, 'v) btree" where
  "bt_retain p m = filter (\<lambda>e. p (fst e) (snd e)) m"

definition bt_contains :: "('k, 'v) btree \<Rightarrow> 'k \<Rightarrow> bool" where
  "bt_contains m k \<longleftrightarrow> k \<in> set (map fst m)"

definition bt_keys :: "('k, 'v) btree \<Rightarrow> 'k list" where
  "bt_keys m = map fst m"

definition bt_values :: "('k, 'v) btree \<Rightarrow> 'v list" where
  "bt_values m = map snd m"

definition bt_collect :: "('k::linorder \<times> 'v) list \<Rightarrow> ('k, 'v) btree" where
  "bt_collect es = fold (\<lambda>(k, v) m. bt_insert k v m) es []"

definition bs_collect :: "'k::linorder list \<Rightarrow> 'k bset" where
  "bs_collect ks = bt_collect (map (\<lambda>k. (k, ())) ks)"

lemma bt_inv_Nil [simp]: "bt_inv []"
  by (simp add: bt_inv_def)

lemma bt_inv_Cons [simp]:
  "bt_inv ((k, v) # m) \<longleftrightarrow> (\<forall>a \<in> set (map fst m). k < a) \<and> bt_inv m"
  by (simp add: bt_inv_def)

lemma bt_inv_distinct: "bt_inv m \<Longrightarrow> distinct (map fst m)"
  by (simp add: bt_inv_def strict_sorted_iff)

lemma set_keys_bt_insert [bt_simps]:
  "set (map fst (bt_insert k v m)) = insert k (set (map fst m))"
  by (induction k v m rule: bt_insert.induct) auto

lemma bt_inv_insert [simp]: "bt_inv m \<Longrightarrow> bt_inv (bt_insert k v m)"
proof (induction k v m rule: bt_insert.induct)
  case (1 k v)
  then show ?case by simp
next
  case (2 k v a b m)
  then show ?case by (auto simp: set_keys_bt_insert [unfolded set_map])
qed

lemma bt_get_Nil [simp]: "bt_get [] k = None"
  by (simp add: bt_get_def)

lemma bt_get_None: "bt_get m k = None \<longleftrightarrow> k \<notin> set (map fst m)"
  by (simp add: bt_get_def map_of_eq_None_iff)

lemma bt_contains_get [bt_simps]: "bt_contains m k \<longleftrightarrow> bt_get m k \<noteq> None"
  by (simp add: bt_contains_def bt_get_def map_of_eq_None_iff)

lemma bt_get_insert [bt_simps]:
  "bt_inv m \<Longrightarrow> bt_get (bt_insert k v m) a = (if a = k then Some v else bt_get m a)"
  by (induction k v m rule: bt_insert.induct)
    (auto simp: bt_get_def dest: order_less_asym split: if_splits)

lemma bt_inv_filter: "bt_inv m \<Longrightarrow> bt_inv (filter p m)"
  unfolding bt_inv_def by (induction m) auto

lemma bt_inv_remove [simp]: "bt_inv m \<Longrightarrow> bt_inv (bt_remove k m)"
  by (simp add: bt_remove_def bt_inv_filter)

lemma bt_inv_retain [simp]: "bt_inv m \<Longrightarrow> bt_inv (bt_retain p m)"
  by (simp add: bt_retain_def bt_inv_filter)

lemma bt_get_remove [bt_simps]:
  "bt_get (bt_remove k m) a = (if a = k then None else bt_get m a)"
  by (induction m) (auto simp: bt_get_def bt_remove_def)

lemma bt_get_retain [bt_simps]:
  assumes "bt_inv m"
  shows "bt_get (bt_retain p m) a =
    (case bt_get m a of None \<Rightarrow> None | Some v \<Rightarrow> if p a v then Some v else None)"
  using assms
proof (induction m)
  case Nil
  then show ?case by (simp add: bt_retain_def)
next
  case (Cons e m)
  obtain k v where e: "e = (k, v)" by (cases e)
  have "bt_get m k = None"
    using Cons.prems e by (force simp: bt_get_None)
  then show ?case
    using Cons e by (auto simp: bt_get_def bt_retain_def map_of_eq_None_iff split: option.splits)
qed

lemma bt_get_mem: "bt_inv m \<Longrightarrow> (k, v) \<in> set m \<longleftrightarrow> bt_get m k = Some v"
  by (simp add: bt_get_def bt_inv_distinct)

lemma bt_values_get: "bt_inv m \<Longrightarrow> v \<in> set (bt_values m) \<longleftrightarrow> (\<exists>k. bt_get m k = Some v)"
  by (force simp: bt_values_def simp flip: bt_get_mem)

text \<open>Two ordered maps that answer every lookup alike are the same map.\<close>

lemma bt_eqI:
  assumes "bt_inv m" and "bt_inv n" and "\<And>k. bt_get m k = bt_get n k"
  shows "m = n"
proof -
  have eq: "set m = set n"
    using assms by (auto simp: bt_get_mem)
  have "set (map fst m) = set (map fst n)" using eq by simp
  then have keys: "map fst m = map fst n"
    using assms(1,2) unfolding bt_inv_def by (intro strict_sorted_equal) auto
  have vals: "map (\<lambda>k. the (map_of m k)) (map fst m) = map snd m"
    if "bt_inv m" for m :: "('a, 'b) btree"
    using bt_inv_distinct [OF that] by (induction m) (auto simp: rev_image_eqI)
  have "map_of m = map_of n" using assms(3) by (auto simp: bt_get_def)
  then have "map snd m = map snd n"
    using vals [OF assms(1)] vals [OF assms(2)] keys by simp
  with keys show ?thesis by (metis zip_map_fst_snd)
qed

lemma bt_insert_absorb: "bt_inv m \<Longrightarrow> bt_get m k = Some v \<Longrightarrow> bt_insert k v m = m"
  by (rule bt_eqI) (auto simp: bt_simps)

lemma bt_inv_fold_insert: "bt_inv m \<Longrightarrow> bt_inv (fold (\<lambda>(k, v) m. bt_insert k v m) es m)"
  by (induction es arbitrary: m) auto

lemma bt_inv_collect [simp]: "bt_inv (bt_collect es)"
  by (simp add: bt_collect_def bt_inv_fold_insert)

lemma bt_inv_bs_collect [simp]: "bt_inv (bs_collect ks)"
  by (simp add: bs_collect_def)

lemma bt_get_fold_insert:
  "bt_inv m \<Longrightarrow> bt_get (fold (\<lambda>(k, v) m. bt_insert k v m) es m) a =
     (case map_of (rev es) a of Some v \<Rightarrow> Some v | None \<Rightarrow> bt_get m a)"
proof (induction es arbitrary: m)
  case Nil
  then show ?case by simp
next
  case (Cons e es)
  obtain k v where e: "e = (k, v)" by (cases e)
  show ?case
    using Cons by (auto simp: e bt_simps map_add_def split: option.splits)
qed

text \<open>Collecting the entries of a map in any order that keeps keys apart rebuilds it.\<close>

lemma bt_collect_entries: "bt_inv m \<Longrightarrow> bt_collect m = m"
proof (rule bt_eqI)
  fix k
  assume m: "bt_inv m"
  have "map_of (rev m) = map_of m"
    using bt_inv_distinct [OF m] by (simp add: map_of_inject_set rev_map [symmetric])
  then show "bt_get (bt_collect m) k = bt_get m k"
    by (simp add: bt_collect_def bt_get_fold_insert) (simp add: bt_get_def split: option.splits)
qed auto

lemma set_bt_keys_collect: "set (map fst (bt_collect es)) = set (map fst es)"
proof -
  have "set (map fst (fold (\<lambda>(k, v) m. bt_insert k v m) es m)) = set (map fst m) \<union> set (map fst es)"
    for m :: "('a, 'b) btree"
    by (induction es arbitrary: m) (auto simp: bt_simps simp del: set_map)
  then show ?thesis by (simp add: bt_collect_def)
qed

lemma set_keys_bs_collect [simp]: "fst ` set (bs_collect ks) = set ks"
  using set_bt_keys_collect [of "map (\<lambda>k. (k, ())) ks"] by (simp add: bs_collect_def image_image)

lemma length_bs_collect: "length (bs_collect ks) = card (set ks)"
proof -
  have "distinct (map fst (bs_collect ks))" by (simp add: bt_inv_distinct)
  then have "length (map fst (bs_collect ks)) = card (set (map fst (bs_collect ks)))"
    by (simp only: distinct_card)
  then show ?thesis by simp
qed

section \<open>The interface the clients use\<close>

text \<open>
  The laws of an ordered map that the rest of the development relies on, with the
  facts every client needs derived once: membership after a run of insertions, and the
  effect of \<open>entry(k).or_insert(v)\<close>.
\<close>

locale ordered_map =
  fixes inv :: "'m \<Rightarrow> bool"
    and get :: "'m \<Rightarrow> 'k \<Rightarrow> 'v option"
    and ins :: "'k \<Rightarrow> 'v \<Rightarrow> 'm \<Rightarrow> 'm"
    and rem :: "'k \<Rightarrow> 'm \<Rightarrow> 'm"
  assumes get_ins: "inv m \<Longrightarrow> get (ins k v m) a = (if a = k then Some v else get m a)"
    and get_rem: "inv m \<Longrightarrow> get (rem k m) a = (if a = k then None else get m a)"
    and inv_ins: "inv m \<Longrightarrow> inv (ins k v m)"
    and inv_rem: "inv m \<Longrightarrow> inv (rem k m)"
    and extensional: "inv m \<Longrightarrow> inv n \<Longrightarrow> (\<And>k. get m k = get n k) \<Longrightarrow> m = n"
begin

lemma ins_absorb: "inv m \<Longrightarrow> get m k = Some v \<Longrightarrow> ins k v m = m"
  by (rule extensional) (auto simp: get_ins inv_ins)

lemma ins_twice: "inv m \<Longrightarrow> ins k v (ins k u m) = ins k v m"
  by (rule extensional) (auto simp: get_ins inv_ins)

lemma ins_commute: "inv m \<Longrightarrow> k \<noteq> j \<Longrightarrow> ins k v (ins j u m) = ins j u (ins k v m)"
  by (rule extensional) (auto simp: get_ins inv_ins)

lemma rem_absent: "inv m \<Longrightarrow> get m k = None \<Longrightarrow> rem k m = m"
  by (rule extensional) (auto simp: get_rem inv_rem)

lemma rem_ins: "inv m \<Longrightarrow> get m k = None \<Longrightarrow> rem k (ins k v m) = m"
  by (rule extensional) (auto simp: get_ins get_rem inv_ins inv_rem)

end

interpretation bt: ordered_map bt_inv bt_get bt_insert bt_remove
  by unfold_locales (auto simp: bt_simps intro: bt_eqI)

end
