(* ===== verification/Lcq_Policy.thy ===== *)
theory Lcq_Policy
  imports Lcq_Btree
begin

text \<open>
  \<open>src/domain/quorum/policy.rs\<close>: the competence scale, the fleet policy and the two
  thresholds derived from it. \<open>with_settings\<close> keeps every check of the source in its
  order. \<open>usize\<close> quantities are \<open>nat\<close>; the products of \<open>max_faulty\<close> are taken
  modulo \<open>2 ^ 64\<close>, as \<open>u64\<close> arithmetic takes them, and \<open>max_faulty_small\<close>
  says for which fleets nothing wraps.
\<close>

datatype PolicyError =
    EmptyFleet
  | BlankMemberId
  | DuplicateMemberId
  | CompetenceOutOfRange
  | CompetenceRatioExceeded
  | FaultBudgetOutOfRange
  | NonPositiveCompetenceRatio

datatype Competence = Competence (competence_value: u8)

definition SCALE :: u8 where
  "SCALE = 100"

definition FULL :: Competence where
  "FULL = Competence 100"

definition try_new :: "u8 \<Rightarrow> (PolicyError, Competence) result" where
  "try_new v = (if v = 0 \<or> v > SCALE then Inl CompetenceOutOfRange else Inr (Competence v))"

text \<open>\<open>u32::div_ceil\<close> rounds up without the overflow of \<open>(a + b - 1) / b\<close>.\<close>

definition div_ceil :: "u32 \<Rightarrow> u32 \<Rightarrow> u32" where
  "div_ceil a b = (if a mod b > 0 then a div b + 1 else a div b)"

definition band :: "u32 \<Rightarrow> u8 \<times> u8" where
  "band max_ratio =
     (if max_ratio = 0 then (SCALE, SCALE)
      else let floor = div_ceil (ucast SCALE) max_ratio;
               floor = (if floor = 0 then 1 else floor)
           in (ucast floor, SCALE))"

definition DEFAULT_BYZANTINE_BPS :: u32 where
  "DEFAULT_BYZANTINE_BPS = 4000"

definition DEFAULT_MAX_COMPETENCE_RATIO :: u32 where
  "DEFAULT_MAX_COMPETENCE_RATIO = 3"

record Policy =
  competences :: "(string, Competence) btree"
  byzantine_bps :: u32
  max_competence_ratio :: u32
  total_competence :: u64

text \<open>One turn of the loop over the members: blank, off the scale, or already named.\<close>

definition add_competence ::
  "(string, Competence) btree \<Rightarrow> string \<times> u8 \<Rightarrow> (PolicyError, (string, Competence) btree) result" where
  "add_competence m e =
     (case e of (i, score) \<Rightarrow>
        if i = [] then Inl BlankMemberId
        else case try_new score of
               Inl err \<Rightarrow> Inl err
             | Inr c \<Rightarrow>
                 if bt_contains m i then Inl DuplicateMemberId else Inr (bt_insert i c m))"

definition high_low :: "Competence list \<Rightarrow> u8 \<times> u8" where
  "high_low cs =
     fold (\<lambda>c (hi, lo). (max hi (competence_value c), min lo (competence_value c))) cs (0, 255)"

definition sum_competence :: "Competence list \<Rightarrow> u64" where
  "sum_competence cs = sum_list (map (\<lambda>c. ucast (competence_value c)) cs)"

definition with_settings ::
  "(string \<times> u8) list \<Rightarrow> u32 \<Rightarrow> u32 \<Rightarrow> (PolicyError, Policy) result" where
  "with_settings members bps ratio =
     (if bps \<ge> 10000 then Inl FaultBudgetOutOfRange
      else if ratio < 1 then Inl NonPositiveCompetenceRatio
      else case try_fold add_competence [] members of
             Inl e \<Rightarrow> Inl e
           | Inr cs \<Rightarrow>
               if cs = [] then Inl EmptyFleet
               else case high_low (bt_values cs) of (highest, lowest) \<Rightarrow>
                 if (ucast highest :: u64) > ucast ratio * ucast lowest
                 then Inl CompetenceRatioExceeded
                 else Inr \<lparr>competences = cs, byzantine_bps = bps, max_competence_ratio = ratio,
                          total_competence = sum_competence (bt_values cs)\<rparr>)"

definition policy_new :: "(string \<times> u8) list \<Rightarrow> (PolicyError, Policy) result" where
  "policy_new members = with_settings members DEFAULT_BYZANTINE_BPS DEFAULT_MAX_COMPETENCE_RATIO"

definition policy_size :: "Policy \<Rightarrow> nat" where
  "policy_size p = length (competences p)"

definition max_faulty :: "Policy \<Rightarrow> nat" where
  "max_faulty p = unat ((ucast (byzantine_bps p) :: u64) * of_nat (policy_size p) div 10000)"

definition min_signers :: "Policy \<Rightarrow> nat" where
  "min_signers p = (policy_size p + max_faulty p) div 2 + 1"

definition competence_of :: "Policy \<Rightarrow> string \<Rightarrow> Competence option" where
  "competence_of p m = bt_get (competences p) m"

definition policy_members :: "Policy \<Rightarrow> string list" where
  "policy_members p = bt_keys (competences p)"

section \<open>What every policy satisfies\<close>

definition on_scale :: "Competence \<Rightarrow> bool" where
  "on_scale c \<longleftrightarrow> 1 \<le> unat (competence_value c) \<and> unat (competence_value c) \<le> 100"

text \<open>The well-formedness every successfully built policy has.\<close>

definition policy_wf :: "Policy \<Rightarrow> bool" where
  "policy_wf p \<longleftrightarrow>
     bt_inv (competences p) \<and> competences p \<noteq> []
     \<and> (\<forall>(i, c) \<in> set (competences p). i \<noteq> [] \<and> on_scale c)
     \<and> unat (byzantine_bps p) < 10000 \<and> 1 \<le> unat (max_competence_ratio p)
     \<and> (\<forall>c \<in> set (bt_values (competences p)). \<forall>d \<in> set (bt_values (competences p)).
          unat (competence_value c) \<le> unat (max_competence_ratio p) * unat (competence_value d))
     \<and> total_competence p = sum_competence (bt_values (competences p))"

lemma try_new_on_scale: "try_new v = Inr c \<longleftrightarrow> on_scale c \<and> v = competence_value c"
  by (cases c)
    (auto simp: try_new_def on_scale_def SCALE_def word_less_nat_alt unat_eq_zero not_less Suc_le_eq
      unat_gt_0)

lemma add_competence_Inr:
  "add_competence m (i, s) = Inr m' \<longleftrightarrow>
     i \<noteq> [] \<and> on_scale (Competence s) \<and> i \<notin> fst ` set m \<and> m' = bt_insert i (Competence s) m"
proof (cases "try_new s")
  case (Inl e)
  then have "\<not> on_scale (Competence s)"
    using try_new_on_scale [of s "Competence s"] by auto
  with Inl show ?thesis by (simp add: add_competence_def)
next
  case (Inr c)
  then have "on_scale c" "c = Competence s"
    by (auto simp: try_new_on_scale)
  with Inr show ?thesis by (auto simp: add_competence_def bt_contains_def)
qed

lemma set_bt_insert_fresh:
  "i \<notin> fst ` set m \<Longrightarrow> set (bt_insert i c m) = insert (i, c) (set m)"
  by (induction i c m rule: bt_insert.induct) auto

lemma try_fold_add_competence:
  "try_fold add_competence m es = Inr m' \<Longrightarrow> bt_inv m \<Longrightarrow>
     bt_inv m' \<and> set m' = set m \<union> (\<lambda>(i, s). (i, Competence s)) ` set es
     \<and> (\<forall>(i, s) \<in> set es. i \<noteq> [] \<and> on_scale (Competence s))
     \<and> distinct (map fst es) \<and> fst ` set es \<inter> fst ` set m = {}"
proof (induction es arbitrary: m)
  case Nil
  then show ?case by simp
next
  case (Cons e es)
  obtain i s where e: "e = (i, s)" by (cases e)
  with Cons.prems obtain n where n: "add_competence m (i, s) = Inr n"
      and rest: "try_fold add_competence n es = Inr m'"
    by (auto split: sum.splits)
  from n have fresh: "i \<notin> fst ` set m" and N: "n = bt_insert i (Competence s) m"
    by (auto simp: add_competence_Inr)
  have "bt_inv n" using Cons.prems N by simp
  from Cons.IH [OF rest this] n show ?case
    by (auto simp: e N set_bt_insert_fresh [OF fresh] add_competence_Inr)
qed

lemma fold_high_low:
  "fold (\<lambda>c (hi, lo). (max hi (competence_value c), min lo (competence_value c))) cs (h, l) = (h', l')
   \<Longrightarrow> h \<le> h' \<and> l' \<le> l \<and> (\<forall>c \<in> set cs. competence_value c \<le> h' \<and> l' \<le> competence_value c)
      \<and> (h' = h \<or> h' \<in> competence_value ` set cs) \<and> (l' = l \<or> l' \<in> competence_value ` set cs)"
proof (induction cs arbitrary: h l)
  case Nil
  then show ?case by simp
next
  case (Cons c cs)
  from Cons.prems Cons.IH [of "max h (competence_value c)" "min l (competence_value c)"]
  show ?case by (auto simp: max_def min_def split: if_splits)
qed

lemma high_low_bounds:
  "high_low cs = (h, l) \<Longrightarrow> c \<in> set cs \<Longrightarrow> competence_value c \<le> h \<and> l \<le> competence_value c"
  using fold_high_low [of cs 0 255 h l] by (simp add: high_low_def)

lemma high_low_attained:
  "high_low cs = (h, l) \<Longrightarrow> cs \<noteq> [] \<Longrightarrow> \<forall>c \<in> set cs. on_scale c \<Longrightarrow>
     h \<in> competence_value ` set cs \<and> l \<in> competence_value ` set cs"
proof -
  assume hl: "high_low cs = (h, l)" and ne: "cs \<noteq> []" and sc: "\<forall>c \<in> set cs. on_scale c"
  from ne obtain c where c: "c \<in> set cs" by (cases cs) auto
  from sc c have v: "1 \<le> unat (competence_value c)" "unat (competence_value c) \<le> 100"
    by (auto simp: on_scale_def)
  have "competence_value c \<le> h" "l \<le> competence_value c"
    using high_low_bounds [OF hl c] by auto
  with v have "h \<noteq> 0" "l \<noteq> 255"
    by (auto simp: word_le_nat_alt)
  then show ?thesis
    using hl fold_high_low [of cs 0 255 h l] by (auto simp: high_low_def)
qed

lemma unat_ratio_mul:
  "unat ((ucast (r :: u32) :: u64) * ucast (v :: u8)) = unat r * unat v"
proof -
  have "unat r < 2 ^ 32" "unat v < 2 ^ 8"
    using unsigned_less [of r] unsigned_less [of v] by simp_all
  then have "unat r * unat v < 2 ^ 32 * 2 ^ 8"
    by (intro mult_strict_mono) auto
  then show ?thesis by (simp add: unat_word_ariths)
qed

lemma ratio_check:
  assumes "high_low cs = (h, l)" and "cs \<noteq> []" and "\<forall>c \<in> set cs. on_scale c"
  shows "(ucast h :: u64) > ucast (r :: u32) * ucast l \<longleftrightarrow>
     (\<exists>c \<in> set cs. \<exists>d \<in> set cs. unat (competence_value c) > unat r * unat (competence_value d))"
    (is "?L \<longleftrightarrow> ?R")
proof -
  have L: "?L \<longleftrightarrow> unat r * unat l < unat h"
    by (simp add: word_less_nat_alt unat_ratio_mul)
  show ?thesis
  proof
    assume ?L
    then show ?R using L high_low_attained [OF assms] by fastforce
  next
    assume ?R
    then obtain c d where cd: "c \<in> set cs" "d \<in> set cs"
        "unat r * unat (competence_value d) < unat (competence_value c)" by auto
    have "unat (competence_value c) \<le> unat h" "unat l \<le> unat (competence_value d)"
      using high_low_bounds [OF assms(1)] cd by (auto simp: word_le_nat_alt)
    moreover from this have "unat r * unat l \<le> unat r * unat (competence_value d)" by simp
    ultimately show ?L using cd L by linarith
  qed
qed

lemma with_settings_wf: "with_settings ms bps ratio = Inr p \<Longrightarrow> policy_wf p"
proof -
  assume ok: "with_settings ms bps ratio = Inr p"
  then obtain cs h l where cs: "try_fold add_competence [] ms = Inr cs" and ne: "cs \<noteq> []"
      and hl: "high_low (bt_values cs) = (h, l)"
      and nr: "\<not> (ucast h :: u64) > ucast ratio * ucast l"
      and bps: "bps < 10000" and ratio: "1 \<le> ratio"
      and p: "p = \<lparr>competences = cs, byzantine_bps = bps, max_competence_ratio = ratio,
                   total_competence = sum_competence (bt_values cs)\<rparr>"
    by (auto simp: with_settings_def not_le not_less word_le_nat_alt word_less_nat_alt unat_gt_0 Suc_le_eq
        split: if_splits sum.splits prod.splits)
  from try_fold_add_competence [OF cs] have inv: "bt_inv cs"
      and set: "set cs = (\<lambda>(i, s). (i, Competence s)) ` set ms"
      and sc: "\<forall>(i, s) \<in> set ms. i \<noteq> [] \<and> on_scale (Competence s)" by auto
  have scale: "\<forall>c \<in> set (bt_values cs). on_scale c"
    using sc by (auto simp: bt_values_def set)
  have "unat bps < 10000" "1 \<le> unat ratio"
    using bps ratio by (auto simp: word_less_nat_alt word_le_nat_alt)
  moreover have "bt_values cs \<noteq> []" using ne by (simp add: bt_values_def)
  ultimately show ?thesis
    using inv ne sc nr ratio_check [OF hl _ scale, of ratio]
    by (auto simp: policy_wf_def p set not_less)
qed

section \<open>The count threshold\<close>

lemma max_faulty_small:
  assumes "policy_size p < 2 ^ 32"
  shows "max_faulty p = unat (byzantine_bps p) * policy_size p div 10000"
proof -
  have "unat (byzantine_bps p) * policy_size p < 2 ^ 32 * 2 ^ 32"
    using assms unsigned_less [of "byzantine_bps p"] by (intro mult_strict_mono) auto
  then have lt: "unat (byzantine_bps p) * policy_size p < 18446744073709551616" by simp
  have sz: "unat (of_nat (policy_size p) :: u64) = policy_size p"
    using assms by (simp add: unat_of_nat)
  have "unat ((ucast (byzantine_bps p) :: u64) * of_nat (policy_size p))
      = unat (byzantine_bps p) * policy_size p"
    using lt sz by (simp add: unat_word_ariths)
  then show ?thesis by (simp add: max_faulty_def unat_div)
qed

lemma max_faulty_less_size:
  assumes "policy_wf p" and "policy_size p < 2 ^ 32"
  shows "max_faulty p < policy_size p"
proof -
  have n: "0 < policy_size p" "unat (byzantine_bps p) < 10000"
    using assms(1) by (auto simp: policy_wf_def policy_size_def)
  then have "unat (byzantine_bps p) * policy_size p < 10000 * policy_size p"
    by (intro mult_strict_right_mono) auto
  then show ?thesis
    using assms(2) by (simp add: max_faulty_small less_mult_imp_div_less mult.commute)
qed

lemma min_signers_le_size:
  "policy_wf p \<Longrightarrow> policy_size p < 2 ^ 32 \<Longrightarrow> min_signers p \<le> policy_size p"
  using max_faulty_less_size [of p] by (simp add: min_signers_def)

lemma min_signers_gt: "policy_size p + max_faulty p < 2 * min_signers p"
  by (simp add: min_signers_def)

lemma policy_size_card:
  "policy_wf p \<Longrightarrow> policy_size p = card (set (policy_members p))"
  using distinct_card [of "map fst (competences p)"]
  by (simp add: policy_wf_def policy_size_def policy_members_def bt_keys_def bt_inv_distinct)

text \<open>The pigeonhole behind the count rule: two quorums share more than the fault budget.\<close>

lemma quorum_overlap:
  assumes "A \<subseteq> U" and "B \<subseteq> U" and "finite U" and "card U + f < card A + card B"
  shows "f < card (A \<inter> B)"
proof -
  have fin: "finite A" "finite B" using assms finite_subset by blast+
  have "card A + card B = card (A \<union> B) + card (A \<inter> B)"
    by (rule card_Un_Int [OF fin])
  moreover have "card (A \<union> B) \<le> card U"
    using assms by (intro card_mono) auto
  ultimately show ?thesis using assms(4) by simp
qed

end
