(* ===== verification/Lcq_Evaluation.thy ===== *)
theory Lcq_Evaluation
  imports Lcq_Policy
begin

text \<open>
  \<open>src/domain/quorum/evaluation.rs\<close>: deciding whether a set of endorsements clears
  both thresholds. The lemmas read the two \<open>u64\<close> comparisons back as arithmetic on
  \<open>nat\<close> for every fleet of fewer than \<open>2 ^ 32\<close> members (a manifest holds at most
  64), and the properties are the ones the thresholds exist for: two approving quorums
  share more members than the fault budget, and more than a third of the competence.
\<close>

datatype EvaluationError = UnknownSigner

record QuorumResult =
  signer_count :: nat
  support_competence :: u64
  count_met :: bool
  competence_met :: bool

definition approved :: "QuorumResult \<Rightarrow> bool" where
  "approved r \<longleftrightarrow> count_met r \<and> competence_met r"

definition add_support :: "Policy \<Rightarrow> u64 \<Rightarrow> string \<Rightarrow> (EvaluationError, u64) result" where
  "add_support p acc signer =
     (case competence_of p signer of
        None \<Rightarrow> Inl UnknownSigner
      | Some c \<Rightarrow> Inr (acc + ucast (competence_value c)))"

definition evaluate :: "Policy \<Rightarrow> string list \<Rightarrow> (EvaluationError, QuorumResult) result" where
  "evaluate p signers =
     (let unique = bs_collect signers
      in case try_fold (add_support p) 0 (bt_keys unique) of
           Inl e \<Rightarrow> Inl e
         | Inr support \<Rightarrow>
             Inr \<lparr>signer_count = length unique, support_competence = support,
                  count_met = (length unique \<ge> min_signers p),
                  competence_met = (3 * support > 2 * total_competence p)\<rparr>)"

section \<open>Support as a sum over the signers\<close>

definition competence_nat :: "Policy \<Rightarrow> string \<Rightarrow> nat" where
  "competence_nat p m = (case competence_of p m of None \<Rightarrow> 0 | Some c \<Rightarrow> unat (competence_value c))"

lemma competence_of_None: "competence_of p m = None \<longleftrightarrow> m \<notin> set (policy_members p)"
  by (simp add: competence_of_def policy_members_def bt_keys_def bt_get_None)

lemma competence_nat_le: "policy_wf p \<Longrightarrow> competence_nat p m \<le> 100"
  by (auto simp: competence_nat_def competence_of_def policy_wf_def on_scale_def
      simp flip: bt_get_mem split: option.splits)

lemma competence_nat_pos: "policy_wf p \<Longrightarrow> m \<in> set (policy_members p) \<Longrightarrow> 0 < competence_nat p m"
proof -
  assume wf: "policy_wf p" and m: "m \<in> set (policy_members p)"
  then obtain c where c: "competence_of p m = Some c"
    using competence_of_None [of p m] by auto
  then have "(m, c) \<in> set (competences p)"
    using wf by (simp add: competence_of_def policy_wf_def bt_get_mem)
  then show ?thesis
    using wf c by (auto simp: policy_wf_def on_scale_def competence_nat_def)
qed

lemma add_support_ok:
  "s \<in> set (policy_members p) \<Longrightarrow> add_support p acc s = Inr (acc + of_nat (competence_nat p s))"
  using competence_of_None [of p s]
  by (auto simp: add_support_def competence_nat_def word_of_nat_eq_iff split: option.splits)

lemma add_support_unknown:
  "s \<notin> set (policy_members p) \<Longrightarrow> add_support p acc s = Inl UnknownSigner"
  using competence_of_None [of p s] by (simp add: add_support_def)

lemma try_fold_support:
  "try_fold (add_support p) acc ss =
     (if set ss \<subseteq> set (policy_members p)
      then Inr (acc + of_nat (sum_list (map (competence_nat p) ss))) else Inl UnknownSigner)"
proof (induction ss arbitrary: acc)
  case Nil
  then show ?case by simp
next
  case (Cons s ss)
  then show ?case
    by (cases "s \<in> set (policy_members p)") (simp_all add: add_support_ok add_support_unknown)
qed

lemma keys_bs_collect: "set (bt_keys (bs_collect ss)) = set ss" "distinct (bt_keys (bs_collect ss))"
  by (simp_all add: bt_keys_def bt_inv_distinct)

text \<open>The support of a set of signers, in unbounded arithmetic.\<close>

definition support_of :: "Policy \<Rightarrow> string set \<Rightarrow> nat" where
  "support_of p S = (\<Sum>s \<in> S. competence_nat p s)"

lemma evaluate_unfold:
  "evaluate p ss =
     (if set ss \<subseteq> set (policy_members p)
      then let support = of_nat (support_of p (set ss)) :: u64 in
           Inr \<lparr>signer_count = card (set ss), support_competence = support,
                count_met = (card (set ss) \<ge> min_signers p),
                competence_met = (3 * support > 2 * total_competence p)\<rparr>
      else Inl UnknownSigner)"
proof -
  have "sum_list (map (competence_nat p) (bt_keys (bs_collect ss))) = support_of p (set ss)"
    using keys_bs_collect [of ss] by (simp add: support_of_def sum_list_distinct_conv_sum_set)
  then show ?thesis
    by (simp add: evaluate_def try_fold_support keys_bs_collect length_bs_collect Let_def)
qed

lemma total_competence_nat:
  assumes "policy_wf p"
  shows "total_competence p = of_nat (support_of p (set (policy_members p)))"
proof -
  have inv: "bt_inv (competences p)" using assms by (simp add: policy_wf_def)
  have "map (competence_nat p) (map fst (competences p))
      = map (\<lambda>c. unat (competence_value c)) (map snd (competences p))"
    using inv by (auto simp: competence_nat_def competence_of_def bt_get_mem split: option.splits)
  moreover have "support_of p (set (policy_members p))
      = sum_list (map (competence_nat p) (map fst (competences p)))"
    using inv by (simp add: support_of_def policy_members_def bt_keys_def bt_inv_distinct
        sum_list_distinct_conv_sum_set del: map_map)
  ultimately have "support_of p (set (policy_members p))
      = sum_list (map (\<lambda>c. unat (competence_value c)) (bt_values (competences p)))"
    by (simp only: bt_values_def)
  moreover have "(of_nat (sum_list (map (\<lambda>c. unat (competence_value c)) cs)) :: u64) = sum_competence cs"
    for cs by (induction cs) (auto simp: sum_competence_def word_of_nat_eq_iff)
  ultimately show ?thesis using assms by (simp add: policy_wf_def)
qed

lemma support_bound:
  assumes "policy_wf p" and "policy_size p < 2 ^ 32" and "S \<subseteq> set (policy_members p)"
  shows "support_of p S < 2 ^ 40"
proof -
  have "support_of p S \<le> card S * 100"
    unfolding support_of_def using sum_bounded_above [of S "competence_nat p" 100]
    by (simp add: competence_nat_le [OF assms(1)])
  also have "\<dots> \<le> policy_size p * 100"
    using assms by (simp add: policy_size_card card_mono)
  also have "\<dots> < 2 ^ 32 * 128" using assms(2) by simp
  finally show ?thesis by simp
qed

lemma evaluate_ok:
  assumes "policy_wf p" and "policy_size p < 2 ^ 32" and "set ss \<subseteq> set (policy_members p)"
  shows "evaluate p ss = Inr \<lparr>signer_count = card (set ss),
            support_competence = of_nat (support_of p (set ss)),
            count_met = (card (set ss) \<ge> min_signers p),
            competence_met =
              (3 * support_of p (set ss) > 2 * support_of p (set (policy_members p)))\<rparr>"
proof -
  have b: "support_of p (set ss) < 2 ^ 40" "support_of p (set (policy_members p)) < 2 ^ 40"
    using support_bound [OF assms(1,2)] assms(3) by auto
  have "unat (3 * of_nat (support_of p (set ss)) :: u64) = 3 * support_of p (set ss)"
    "unat (2 * of_nat (support_of p (set (policy_members p))) :: u64)
       = 2 * support_of p (set (policy_members p))"
    using b by (simp_all add: unat_word_ariths unat_of_nat)
  then show ?thesis
    using assms(3) by (simp add: evaluate_unfold total_competence_nat [OF assms(1)]
        word_less_nat_alt Let_def)
qed

text \<open>What an approval means, in numbers.\<close>

lemma evaluate_approved:
  assumes "policy_wf p" and "policy_size p < 2 ^ 32"
  shows "(\<exists>r. evaluate p ss = Inr r \<and> approved r) \<longleftrightarrow>
     set ss \<subseteq> set (policy_members p) \<and> min_signers p \<le> card (set ss)
     \<and> 2 * support_of p (set (policy_members p)) < 3 * support_of p (set ss)"
proof (cases "set ss \<subseteq> set (policy_members p)")
  case True
  then show ?thesis by (simp add: evaluate_ok [OF assms True] approved_def)
next
  case False
  then show ?thesis by (simp add: evaluate_unfold)
qed

lemma support_of_inter:
  assumes "finite A" and "finite B"
  shows "support_of p (A \<union> B) + support_of p (A \<inter> B) = support_of p A + support_of p B"
  unfolding support_of_def by (rule sum.union_inter [OF assms])

lemma support_of_mono: "finite B \<Longrightarrow> A \<subseteq> B \<Longrightarrow> support_of p A \<le> support_of p B"
  unfolding support_of_def by (rule sum_mono2) auto

section \<open>Properties of the policy and of the evaluation\<close>

lemma wf_of: "with_settings ms bps ratio = Inr p \<Longrightarrow> policy_wf p"
  by (rule with_settings_wf)

lemma size_of:
  assumes "with_settings ms bps ratio = Inr p"
  shows "policy_size p = length ms \<and> set (policy_members p) = fst ` set ms"
proof -
  from assms obtain cs where cs: "try_fold add_competence [] ms = Inr cs" and p: "competences p = cs"
    by (auto simp: with_settings_def split: if_splits sum.splits prod.splits)
  from try_fold_add_competence [OF cs] have inv: "bt_inv cs" and d: "distinct (map fst ms)"
      and set: "set cs = (\<lambda>(i, s). (i, Competence s)) ` set ms" by auto
  have keys: "fst ` set cs = fst ` set ms"
    by (simp add: set image_image case_prod_beta)
  have "length cs = card (fst ` set cs)"
    using distinct_card [OF bt_inv_distinct [OF inv]] by simp
  also have "\<dots> = length ms" using keys distinct_card [OF d] by simp
  finally show ?thesis using keys by (simp add: policy_size_def policy_members_def bt_keys_def p)
qed

lemma approved_overlap:
  assumes "with_settings ms bps ratio = Inr p" and "length ms < 2 ^ 32"
    and "evaluate p A = Inr ra" and "approved ra"
    and "evaluate p B = Inr rb" and "approved rb"
  shows "max_faulty p < card (set A \<inter> set B)
    \<and> support_of p (set (policy_members p)) < 3 * support_of p (set A \<inter> set B)"
proof -
  let ?U = "set (policy_members p)"
  have wf: "policy_wf p" and sz: "policy_size p < 2 ^ 32"
    using assms size_of [of ms bps ratio p] by (auto intro: wf_of)
  have A: "set A \<subseteq> ?U" "min_signers p \<le> card (set A)" "2 * support_of p ?U < 3 * support_of p (set A)"
    using evaluate_approved [OF wf sz, of A] assms(3,4) by auto
  have B: "set B \<subseteq> ?U" "min_signers p \<le> card (set B)" "2 * support_of p ?U < 3 * support_of p (set B)"
    using evaluate_approved [OF wf sz, of B] assms(5,6) by auto
  have "max_faulty p < card (set A \<inter> set B)"
  proof (rule quorum_overlap [OF A(1) B(1)])
    show "card ?U + max_faulty p < card (set A) + card (set B)"
      using A(2) B(2) min_signers_gt [of p] policy_size_card [OF wf] by simp
  qed simp
  moreover have "support_of p (set A \<union> set B) \<le> support_of p ?U"
    using A(1) B(1) by (intro support_of_mono) auto
  then have "support_of p ?U < 3 * support_of p (set A \<inter> set B)"
    using support_of_inter [of "set A" "set B" p] A(3) B(3) by simp
  ultimately show ?thesis by simp
qed

text \<open>
  (C4) Quorum intersection, the argument the count threshold rests on: in every fleet the
  policy constructor accepts, two endorsement sets that are both approved share more
  members than the fault budget allows to be compromised, and the members they share
  hold more than a third of the fleet's competence.
\<close>

theorem quorum_intersection:
  assumes "with_settings ms bps ratio = Inr p" and "length ms < 2 ^ 32"
    and "evaluate p A = Inr ra" and "approved ra"
    and "evaluate p B = Inr rb" and "approved rb"
  shows "max_faulty p < card (set A \<inter> set B)
    \<and> support_of p (set (policy_members p)) < 3 * support_of p (set A \<inter> set B)"
  by (rule approved_overlap [OF assms])

definition five :: "(string \<times> u8) list" where
  "five = [(''a'', 100), (''b'', 100), (''c'', 100), (''d'', 100), (''e'', 100)]"

definition five_policy :: Policy where
  "five_policy = \<lparr>competences = map (\<lambda>(i, s). (i, Competence s)) five,
     byzantine_bps = 4000, max_competence_ratio = 3, total_competence = 500\<rparr>"

lemma five_ok: "with_settings five 4000 3 = Inr five_policy"
  by code_simp

lemma five_quorums:
  "evaluate five_policy [''a'', ''b'', ''c'', ''d''] = Inr \<lparr>signer_count = 4,
     support_competence = 400, count_met = True, competence_met = True\<rparr>"
  "evaluate five_policy [''e'', ''d'', ''c'', ''b''] = Inr \<lparr>signer_count = 4,
     support_competence = 400, count_met = True, competence_met = True\<rparr>"
  by code_simp+

theorem quorum_intersection_witness:
  "max_faulty five_policy < card (set [''a'', ''b'', ''c'', ''d''] \<inter> set [''e'', ''d'', ''c'', ''b''])"
  using quorum_intersection [OF five_ok _ five_quorums(1) _ five_quorums(2)]
  by (simp add: five_def approved_def)

text \<open>
  (C16) \<open>evaluate\<close> in full: it refuses exactly when some identifier is not in the
  manifest, and otherwise reports the number of distinct signers, their summed
  competence, and both threshold answers with no wrap-around in either comparison,
  whatever order and however often the identifiers appear.
\<close>

theorem evaluate_correct:
  assumes "with_settings ms bps ratio = Inr p" and "length ms < 2 ^ 32"
  shows "evaluate p ss =
    (if set ss \<subseteq> fst ` set ms
     then Inr \<lparr>signer_count = card (set ss), support_competence = of_nat (support_of p (set ss)),
               count_met = (card (set ss) \<ge> min_signers p),
               competence_met =
                 (3 * support_of p (set ss) > 2 * support_of p (set (policy_members p)))\<rparr>
     else Inl UnknownSigner)"
proof (cases "set ss \<subseteq> fst ` set ms")
  case True
  with assms show ?thesis
    using evaluate_ok [OF wf_of [OF assms(1)], of ss] size_of [OF assms(1)] by simp
next
  case False
  then show ?thesis using size_of [OF assms(1)] by (simp add: evaluate_unfold)
qed

theorem evaluate_correct_witness:
  "evaluate five_policy [''a'', ''z''] = Inl UnknownSigner"
  using evaluate_correct [OF five_ok, of "[''a'', ''z'']"] by (simp add: five_def)

lemma try_fold_add_competence_ok:
  assumes "distinct (map fst es)" and "\<forall>(i, s) \<in> set es. i \<noteq> [] \<and> on_scale (Competence s)"
    and "fst ` set es \<inter> fst ` set m = {}"
  shows "\<exists>cs. try_fold add_competence m es = Inr cs"
  using assms
proof (induction es arbitrary: m)
  case Nil
  then show ?case by simp
next
  case (Cons e es)
  obtain i s where e: "e = (i, s)" by (cases e)
  have "add_competence m (i, s) = Inr (bt_insert i (Competence s) m)"
    using Cons.prems e by (auto simp: add_competence_Inr)
  moreover have "\<exists>cs. try_fold add_competence (bt_insert i (Competence s) m) es = Inr cs"
    by (rule Cons.IH) (use Cons.prems e in \<open>auto simp: set_keys_bt_insert [unfolded set_map]\<close>)
  ultimately show ?case by (simp add: e)
qed

text \<open>
  A policy is built exactly for a lawful manifest: a fault budget below 10000 basis
  points, a ratio cap of at least one, at least one member, no blank and no repeated
  identifier, every competence on the 1 to 100 scale, and no member more than the cap
  times as competent as another.
\<close>

theorem with_settings_accepts:
  "(\<exists>p. with_settings ms bps ratio = Inr p) \<longleftrightarrow>
     unat bps < 10000 \<and> 1 \<le> unat ratio \<and> ms \<noteq> [] \<and> distinct (map fst ms)
     \<and> (\<forall>(i, s) \<in> set ms. i \<noteq> [] \<and> 1 \<le> unat s \<and> unat s \<le> 100)
     \<and> (\<forall>(i, s) \<in> set ms. \<forall>(j, t) \<in> set ms. unat s \<le> unat ratio * unat t)"
  (is "?L \<longleftrightarrow> ?R")
proof
  assume ?L
  then obtain p where ok: "with_settings ms bps ratio = Inr p" by blast
  then obtain cs where cs: "try_fold add_competence [] ms = Inr cs"
      and p: "competences p = cs" "byzantine_bps p = bps" "max_competence_ratio p = ratio"
    by (auto simp: with_settings_def split: if_splits sum.splits prod.splits)
  have vals: "competence_value ` set (bt_values cs) = snd ` set ms"
    using try_fold_add_competence [OF cs] by (simp add: bt_values_def image_image case_prod_beta)
  have "policy_wf p" by (rule with_settings_wf [OF ok])
  then have "\<forall>c \<in> competence_value ` set (bt_values cs). \<forall>d \<in> competence_value ` set (bt_values cs).
      unat c \<le> unat ratio * unat d"
    by (simp add: policy_wf_def p)
  then have "\<forall>c \<in> snd ` set ms. \<forall>d \<in> snd ` set ms. unat c \<le> unat ratio * unat d"
    by (simp only: vals)
  then have "\<forall>(i, s) \<in> set ms. \<forall>(j, t) \<in> set ms. unat s \<le> unat ratio * unat t"
    by fastforce
  moreover have "ms \<noteq> []" "unat bps < 10000" "1 \<le> unat ratio"
    using \<open>policy_wf p\<close> cs by (auto simp: policy_wf_def p)
  ultimately show ?R
    using try_fold_add_competence [OF cs] by (auto simp: on_scale_def)
next
  assume R: ?R
  from R try_fold_add_competence_ok [of ms "[]"] obtain cs where cs: "try_fold add_competence [] ms = Inr cs"
    by (auto simp: on_scale_def)
  from try_fold_add_competence [OF cs] have set: "set cs = (\<lambda>(i, s). (i, Competence s)) ` set ms"
    by simp
  obtain h l where hl: "high_low (bt_values cs) = (h, l)" by (cases "high_low (bt_values cs)")
  have ne: "bt_values cs \<noteq> []" "cs \<noteq> []"
    using R set by (auto simp: bt_values_def)
  have "\<forall>c \<in> set (bt_values cs). on_scale c"
    using R by (auto simp: bt_values_def set on_scale_def)
  from ratio_check [OF hl ne(1) this, of ratio]
  have "\<not> (ucast h :: u64) > ucast ratio * ucast l"
    using R by (fastforce simp: bt_values_def set not_less)
  then show ?L
    using R cs ne hl by (auto simp: with_settings_def not_le word_less_nat_alt word_le_nat_alt)
qed

theorem with_settings_accepts_witness:
  "(\<exists>p. with_settings [(''a'', 90), (''b'', 40)] 3333 3 = Inr p)
   \<and> \<not> (\<exists>p. with_settings [(''a'', 90), (''b'', 20)] 3333 3 = Inr p)"
  using with_settings_accepts [of "[(''a'', 90), (''b'', 40)]" 3333 3]
    with_settings_accepts [of "[(''a'', 90), (''b'', 20)]" 3333 3] by simp

text \<open>
  The count threshold is reachable and never trivial: in every accepted fleet at
  least one signer is needed, more than half the fleet is needed, and the whole fleet
  signing is approved.
\<close>

theorem whole_fleet_approves:
  assumes "with_settings ms bps ratio = Inr p" and "length ms < 2 ^ 32"
  shows "(\<exists>r. evaluate p (policy_members p) = Inr r \<and> approved r)
    \<and> policy_size p < 2 * min_signers p \<and> min_signers p \<le> policy_size p"
proof -
  let ?U = "set (policy_members p)"
  have wf: "policy_wf p" and sz: "policy_size p < 2 ^ 32"
    using assms size_of [of ms bps ratio p] by (auto intro: wf_of)
  have "?U \<noteq> {}" using wf by (simp add: policy_wf_def policy_members_def bt_keys_def)
  then obtain m where m: "m \<in> ?U" by (cases "policy_members p") auto
  have "0 < support_of p ?U"
    using competence_nat_pos [OF wf m] m by (auto simp: support_of_def intro: sum_pos2)
  moreover have "min_signers p \<le> card ?U"
    using min_signers_le_size [OF wf sz] policy_size_card [OF wf] by simp
  ultimately show ?thesis
    using evaluate_approved [OF wf sz, of "policy_members p"] min_signers_gt [of p]
      min_signers_le_size [OF wf sz] by simp
qed

theorem whole_fleet_approves_witness: "min_signers five_policy \<le> policy_size five_policy"
  using whole_fleet_approves [OF five_ok] by (simp add: five_def)

text \<open>
  The price of the default 40 percent budget: in a fleet of eight or more, as many
  silent members as the budget allows to be compromised are enough to block every
  approval. A false result means "not endorsed"; safety is kept and liveness is not.
\<close>

theorem silent_budget_blocks:
  assumes "policy_new ms = Inr p" and "8 \<le> length ms" and "length ms < 2 ^ 32"
    and "set ss \<subseteq> set (policy_members p) - silent" and "silent \<subseteq> set (policy_members p)"
    and "card silent = max_faulty p" and "evaluate p ss = Inr r"
  shows "\<not> approved r"
proof
  assume "approved r"
  have ws: "with_settings ms 4000 3 = Inr p"
    using assms(1) by (simp add: policy_new_def DEFAULT_BYZANTINE_BPS_def DEFAULT_MAX_COMPETENCE_RATIO_def)
  have wf: "policy_wf p" and n: "policy_size p = length ms" and sz: "policy_size p < 2 ^ 32"
    using size_of [OF ws] wf_of [OF ws] assms(3) by auto
  have "byzantine_bps p = 4000"
    using ws by (auto simp: with_settings_def split: if_splits sum.splits prod.splits)
  then have f: "max_faulty p = 4000 * length ms div 10000"
    using max_faulty_small [OF sz] n by simp
  have "card (set ss) \<le> card (set (policy_members p) - silent)"
    using assms(4) by (intro card_mono) auto
  also have "\<dots> = length ms - max_faulty p"
    using assms(5,6) n policy_size_card [OF wf] by (simp add: card_Diff_subset finite_subset)
  finally have "card (set ss) \<le> length ms - max_faulty p" .
  moreover have "length ms \<le> 3 * max_faulty p"
  proof -
    have "max_faulty p = 2 * length ms div 5"
      using div_mult_mult1 [of 2000 "2 * length ms" 5] by (simp add: f)
    with assms(2) show ?thesis by presburger
  qed
  ultimately have "card (set ss) < min_signers p"
    unfolding min_signers_def n by linarith
  then show False
    using evaluate_approved [OF wf sz, of ss] assms(7) \<open>approved r\<close> by auto
qed

definition eight :: "(string \<times> u8) list" where
  "eight = map (\<lambda>c. ([c], 100)) ''abcdefgh''"

definition eight_policy :: Policy where
  "eight_policy = \<lparr>competences = map (\<lambda>(i, s). (i, Competence s)) eight,
     byzantine_bps = 4000, max_competence_ratio = 3, total_competence = 800\<rparr>"

theorem silent_budget_blocks_witness:
  "\<not> approved \<lparr>signer_count = 5, support_competence = 500, count_met = False, competence_met = False\<rparr>"
proof (rule silent_budget_blocks [where ms = eight and p = eight_policy
      and ss = "[''a'', ''b'', ''c'', ''d'', ''e'']" and silent = "{''f'', ''g'', ''h''}"])
  show "policy_new eight = Inr eight_policy" by code_simp
  show "evaluate eight_policy [''a'', ''b'', ''c'', ''d'', ''e''] = Inr \<lparr>signer_count = 5,
      support_competence = 500, count_met = False, competence_met = False\<rparr>"
    by code_simp
  have "policy_members eight_policy = [''a'', ''b'', ''c'', ''d'', ''e'', ''f'', ''g'', ''h'']"
    by code_simp
  then show "set [''a'', ''b'', ''c'', ''d'', ''e''] \<subseteq> set (policy_members eight_policy) - {''f'', ''g'', ''h''}"
      "{''f'', ''g'', ''h''} \<subseteq> set (policy_members eight_policy)" by simp_all
  have "max_faulty eight_policy = 3" by code_simp
  then show "card {''f'', ''g'', ''h''} = max_faulty eight_policy" by simp
qed (simp_all add: eight_def)

text \<open>
  Scoring into the band makes a manifest legal by construction: for a ratio cap of
  at least one, the band lies on the scale and any two scores in it respect the cap.
\<close>

theorem band_respects_cap:
  assumes "1 \<le> unat r" and "band r = (lo, hi)" and "lo \<le> c" and "c \<le> hi" and "lo \<le> d" and "d \<le> hi"
  shows "unat c \<le> unat r * unat d \<and> 1 \<le> unat lo \<and> unat hi \<le> 100"
proof -
  let ?q = "100 div unat r" and ?m = "100 mod unat r"
  have r0: "r \<noteq> 0" using assms(1) by auto
  have q: "?q * unat r + ?m = 100" by (rule div_mult_mod_eq)
  have qb: "?q \<le> 100" by (rule div_le_dividend)
  have "Suc ?q mod 4294967296 = Suc ?q" using qb by (intro mod_less) linarith
  then have dc: "unat (div_ceil 100 r) = (if ?m > 0 then ?q + 1 else ?q)"
    by (auto simp: div_ceil_def word_less_nat_alt unat_mod unat_div unat_word_ariths)
  have pos: "0 < unat (div_ceil 100 r)"
  proof (cases "?m > 0")
    case False
    then have "?q * unat r = 100" using q by simp
    then have "?q > 0" by (cases "?q") auto
    with dc show ?thesis by simp
  qed (simp add: dc)
  then have "div_ceil 100 r \<noteq> 0" by auto
  then have lohi: "lo = ucast (div_ceil 100 r)" "hi = 100"
    using assms(2) r0 by (auto simp: band_def SCALE_def Let_def)
  have "unat (div_ceil 100 r) \<le> ?q + 1" using dc by simp
  also have "\<dots> \<le> 101" using qb by linarith
  finally have "unat (div_ceil 100 r) \<le> 101" .
  then have lo: "unat lo = unat (div_ceil 100 r)"
    by (simp add: lohi unsigned_ucast_eq take_bit_nat_eq_self)
  have "100 \<le> unat r * unat lo"
  proof (cases "?m > 0")
    case True
    have "?m < unat r" using assms(1) by simp
    moreover have "unat r * unat lo = ?q * unat r + unat r"
      using True lo dc by (simp add: algebra_simps)
    ultimately show ?thesis using q by linarith
  next
    case False
    then have "unat r * unat lo = ?q * unat r" using lo dc by (simp add: algebra_simps)
    with False q show ?thesis by linarith
  qed
  also have "\<dots> \<le> unat r * unat d" using assms(5) by (simp add: word_le_nat_alt)
  finally have "100 \<le> unat r * unat d" .
  moreover have "unat c \<le> 100" using assms(4) lohi by (simp add: word_le_nat_alt)
  ultimately show ?thesis using pos lo lohi by simp
qed

theorem band_respects_cap_witness:
  "unat (100 :: u8) \<le> unat (3 :: u32) * unat (34 :: u8) \<and> 1 \<le> unat (34 :: u8) \<and> unat (100 :: u8) \<le> 100"
proof -
  have "band 3 = (34, 100)" by code_simp
  then show ?thesis using band_respects_cap [of 3 34 100 100 34] by simp
qed

end
