(* ===== verification/Lcq_Time.thy ===== *)
theory Lcq_Time
  imports Lcq_Prelude
begin

text \<open>
  \<open>src/domain/time/mod.rs\<close>: instants in whole seconds and the three-valued deadline
  questions of the \<open>Clock\<close> trait. A clock enters every rule only through its reading
  \<open>now\<close>, so a \<open>&impl Clock\<close> is the reading it returns for the call; the trait's
  provided methods are functions of that reading.

  The lemmas show that the three answers exclude each other and cover every case, that
  a certain answer is right for every clock within the pairwise skew budget, and that a
  deadline near the end of the representable range is never folded into the past.
\<close>

type_synonym timestamp = u64

definition MAX_CLOCK_SKEW_SECONDS :: u64 where
  "MAX_CLOCK_SKEW_SECONDS = 30"

definition REQUIRED_SOURCE_ACCURACY_SECONDS :: u64 where
  "REQUIRED_SOURCE_ACCURACY_SECONDS = MAX_CLOCK_SKEW_SECONDS div 2"

definition plus_secs :: "timestamp \<Rightarrow> u64 \<Rightarrow> timestamp" where
  "plus_secs t seconds = sat_add t seconds"

definition secs_until :: "timestamp \<Rightarrow> timestamp \<Rightarrow> u64" where
  "secs_until t later = sat_sub later t"

definition certainly_after :: "timestamp \<Rightarrow> timestamp \<Rightarrow> bool" where
  "certainly_after now deadline \<longleftrightarrow> now > sat_add deadline MAX_CLOCK_SKEW_SECONDS"

definition certainly_before :: "timestamp \<Rightarrow> timestamp \<Rightarrow> bool" where
  "certainly_before now deadline \<longleftrightarrow> sat_add now MAX_CLOCK_SKEW_SECONDS < deadline"

definition uncertain_about :: "timestamp \<Rightarrow> timestamp \<Rightarrow> bool" where
  "uncertain_about now deadline \<longleftrightarrow>
     \<not> certainly_after now deadline \<and> \<not> certainly_before now deadline"

text \<open>\<open>FixedClock\<close> is its reading; \<open>advanced_by\<close> moves it.\<close>

definition advanced_by :: "timestamp \<Rightarrow> u64 \<Rightarrow> timestamp" where
  "advanced_by now seconds = plus_secs now seconds"

lemmas clock_defs = certainly_after_def certainly_before_def uncertain_about_def

lemma unat_skew [simp]: "unat MAX_CLOCK_SKEW_SECONDS = 30"
  by (simp add: MAX_CLOCK_SKEW_SECONDS_def)

lemma certainly_after_nat:
  "certainly_after now d \<longleftrightarrow> unat d + 30 < unat now"
proof -
  have "unat now < 2 ^ 64" using unsigned_less [of now] by simp
  then show ?thesis
    by (auto simp: certainly_after_def word_less_nat_alt sat_simps)
qed

lemma certainly_before_nat:
  "certainly_before now d \<longleftrightarrow> unat now + 30 < unat d"
proof -
  have "unat d < 2 ^ 64" using unsigned_less [of d] by simp
  then show ?thesis
    by (auto simp: certainly_before_def word_less_nat_alt sat_simps)
qed

lemmas clock_nat = certainly_after_nat certainly_before_nat

text \<open>Two clocks are within the skew budget of each other.\<close>

definition within_skew :: "timestamp \<Rightarrow> timestamp \<Rightarrow> bool" where
  "within_skew a b \<longleftrightarrow>
     unat a \<le> unat b + unat MAX_CLOCK_SKEW_SECONDS \<and> unat b \<le> unat a + unat MAX_CLOCK_SKEW_SECONDS"

lemma certainly_after_skew: "certainly_after now d \<Longrightarrow> within_skew now other \<Longrightarrow> d < other"
  by (simp add: clock_nat within_skew_def word_less_nat_alt)

lemma certainly_before_skew: "certainly_before now d \<Longrightarrow> within_skew now other \<Longrightarrow> other < d"
  by (simp add: clock_nat within_skew_def word_less_nat_alt)

lemma certainly_after_mono: "certainly_after now d \<Longrightarrow> now \<le> later \<Longrightarrow> certainly_after later d"
  by (simp add: clock_nat word_le_nat_alt)

lemma not_after_and_before: "certainly_after now d \<Longrightarrow> \<not> certainly_before now d"
  by (simp add: clock_nat)

lemma source_accuracy_suffices:
  assumes "unat a \<le> unat r + unat REQUIRED_SOURCE_ACCURACY_SECONDS"
    and "unat r \<le> unat a + unat REQUIRED_SOURCE_ACCURACY_SECONDS"
    and "unat b \<le> unat r + unat REQUIRED_SOURCE_ACCURACY_SECONDS"
    and "unat r \<le> unat b + unat REQUIRED_SOURCE_ACCURACY_SECONDS"
  shows "within_skew a b"
proof -
  have "unat REQUIRED_SOURCE_ACCURACY_SECONDS = 15"
    by (simp add: REQUIRED_SOURCE_ACCURACY_SECONDS_def MAX_CLOCK_SKEW_SECONDS_def)
  with assms show ?thesis by (simp add: within_skew_def)
qed

lemma plus_secs_not_past: "t \<le> plus_secs t s"
  by (simp add: plus_secs_def sat_add_ge)

lemma secs_until_plus: "unat t + unat s < 2 ^ 64 \<Longrightarrow> secs_until t (plus_secs t s) = s"
  by (simp add: secs_until_def plus_secs_def sat_add_def sat_sub_def word_le_nat_alt unat_word_ariths)

end
