(* ===== verification/Lcq_Contracts.thy ===== *)
theory Lcq_Contracts
  imports Lcq_Time
begin

text \<open>
  \<open>src/domain/contracts/mod.rs\<close>: what a node says, and about which claim. A
  \<open>Subject\<close> is compared as a whole value, the start instant included.
\<close>

definition CONSULTATION_CUTOFF_SECONDS :: u64 where
  "CONSULTATION_CUTOFF_SECONDS = 300"

definition ENDORSEMENT_TARGET_SECONDS :: u64 where
  "ENDORSEMENT_TARGET_SECONDS = 600"

definition PHASE_SETTLE_SECONDS :: u64 where
  "PHASE_SETTLE_SECONDS = 2"

definition BINDING_STAGE_OPENS_SECONDS :: u64 where
  "BINDING_STAGE_OPENS_SECONDS =
     CONSULTATION_CUTOFF_SECONDS + 2 * MAX_CLOCK_SKEW_SECONDS + PHASE_SETTLE_SECONDS"

definition DEFAULT_VALIDITY_SECONDS :: u64 where
  "DEFAULT_VALIDITY_SECONDS = 1800"

datatype SubjectError = BlankIdentifier

record Subject =
  mission :: string
  event :: string
  revision :: u32
  content_hash :: bytes
  started_at :: timestamp

definition subject_new ::
  "string \<Rightarrow> string \<Rightarrow> u32 \<Rightarrow> bytes \<Rightarrow> timestamp \<Rightarrow> (SubjectError, Subject) result" where
  "subject_new m e r h t =
     (if m = [] \<or> e = [] then Inl BlankIdentifier
      else Inr \<lparr>mission = m, event = e, revision = r, content_hash = h, started_at = t\<rparr>)"

definition consultation_cutoff :: "Subject \<Rightarrow> timestamp" where
  "consultation_cutoff s = plus_secs (started_at s) CONSULTATION_CUTOFF_SECONDS"

definition endorsement_target :: "Subject \<Rightarrow> timestamp" where
  "endorsement_target s = plus_secs (started_at s) ENDORSEMENT_TARGET_SECONDS"

definition default_expiry :: "Subject \<Rightarrow> timestamp" where
  "default_expiry s = plus_secs (started_at s) DEFAULT_VALIDITY_SECONDS"

definition same_logical_case_and_revision :: "Subject \<Rightarrow> Subject \<Rightarrow> bool" where
  "same_logical_case_and_revision a b \<longleftrightarrow> a = b"

datatype Verdict = Support | Dispute | InsufficientData

definition can_support_approval :: "Verdict \<Rightarrow> bool" where
  "can_support_approval v = (case v of Support \<Rightarrow> True | _ \<Rightarrow> False)"

datatype Stage = Independent | Consultation | BindingSupport

definition stage_is_binding :: "Stage \<Rightarrow> bool" where
  "stage_is_binding s = (case s of BindingSupport \<Rightarrow> True | _ \<Rightarrow> False)"

record Opinion =
  author :: string
  opinion_subject :: Subject
  stage :: Stage
  verdict :: Verdict

definition opinion_is_binding :: "Opinion \<Rightarrow> bool" where
  "opinion_is_binding o1 = stage_is_binding (stage o1)"

definition counts_with :: "Opinion \<Rightarrow> Opinion \<Rightarrow> bool" where
  "counts_with a b \<longleftrightarrow>
     stage a = stage b \<and> same_logical_case_and_revision (opinion_subject a) (opinion_subject b)"

lemma can_support_approval_iff [simp]: "can_support_approval v \<longleftrightarrow> v = Support"
  by (simp add: can_support_approval_def split: Verdict.splits)

lemma counts_with_equiv:
  "counts_with a a" "counts_with a b \<Longrightarrow> counts_with b a"
  "counts_with a b \<Longrightarrow> counts_with b c \<Longrightarrow> counts_with a c"
  by (auto simp: counts_with_def same_logical_case_and_revision_def)

lemma deadline_nat:
  assumes "unat (started_at s) + 2000 < 2 ^ 64"
  shows "unat (consultation_cutoff s) = unat (started_at s) + 300"
    "unat (endorsement_target s) = unat (started_at s) + 600"
    "unat (default_expiry s) = unat (started_at s) + 1800"
  using assms
  by (simp_all add: consultation_cutoff_def endorsement_target_def default_expiry_def plus_secs_def
      sat_simps CONSULTATION_CUTOFF_SECONDS_def ENDORSEMENT_TARGET_SECONDS_def
      DEFAULT_VALIDITY_SECONDS_def)

lemma deadlines_ordered:
  "started_at s \<le> consultation_cutoff s" "consultation_cutoff s \<le> endorsement_target s"
  "endorsement_target s \<le> default_expiry s"
  by (simp_all add: consultation_cutoff_def endorsement_target_def default_expiry_def plus_secs_def
      sat_simps word_le_nat_alt sat_add_ge CONSULTATION_CUTOFF_SECONDS_def
      ENDORSEMENT_TARGET_SECONDS_def DEFAULT_VALIDITY_SECONDS_def)
    (use unat_le_u64 [of "started_at s"] in simp)

text \<open>
  The binding stage opens late enough: once the shared schedule has reached the
  opening of the binding stage, every clock within the skew budget of the schedule is
  certain that consultation has closed, so no honest member is still consulting when the
  first binding slot comes round.
\<close>

theorem binding_stage_after_consultation:
  assumes "unat (started_at s) + 2000 < 2 ^ 64"
    and "unat schedule \<ge> unat (started_at s) + unat BINDING_STAGE_OPENS_SECONDS"
    and "within_skew schedule local"
  shows "certainly_after local (consultation_cutoff s)
    \<and> unat BINDING_STAGE_OPENS_SECONDS + 60 \<le> unat ENDORSEMENT_TARGET_SECONDS"
proof -
  have "unat BINDING_STAGE_OPENS_SECONDS = 362"
    by (simp add: BINDING_STAGE_OPENS_SECONDS_def CONSULTATION_CUTOFF_SECONDS_def
        MAX_CLOCK_SKEW_SECONDS_def PHASE_SETTLE_SECONDS_def)
  then show ?thesis
    using assms by (simp add: clock_nat deadline_nat within_skew_def ENDORSEMENT_TARGET_SECONDS_def)
qed

definition sample_subject :: Subject where
  "sample_subject = \<lparr>mission = ''m'', event = ''e'', revision = 1, content_hash = replicate 32 7,
     started_at = 1000\<rparr>"

theorem binding_stage_after_consultation_witness:
  "certainly_after 1332 (consultation_cutoff sample_subject)"
  using binding_stage_after_consultation [of sample_subject 1362 1332]
  by (simp add: sample_subject_def within_skew_def BINDING_STAGE_OPENS_SECONDS_def
      CONSULTATION_CUTOFF_SECONDS_def MAX_CLOCK_SKEW_SECONDS_def PHASE_SETTLE_SECONDS_def)

text \<open>
  Every deadline question has exactly one of three answers, and a certain answer is
  right for every clock in the fleet: a deadline certainly past here is past on every
  clock within the skew budget, and one certainly ahead here is ahead on all of them.
\<close>

theorem deadline_trichotomy:
  "(certainly_after now d \<and> \<not> certainly_before now d \<and> \<not> uncertain_about now d
    \<or> \<not> certainly_after now d \<and> certainly_before now d \<and> \<not> uncertain_about now d
    \<or> \<not> certainly_after now d \<and> \<not> certainly_before now d \<and> uncertain_about now d)
   \<and> (\<forall>other. within_skew now other \<longrightarrow>
        (certainly_after now d \<longrightarrow> d < other) \<and> (certainly_before now d \<longrightarrow> other < d))"
  by (auto simp: uncertain_about_def certainly_after_skew certainly_before_skew
      dest: not_after_and_before)

theorem deadline_trichotomy_witness: "(100 :: u64) < 111"
proof -
  have "certainly_after 140 100" "within_skew 140 111"
    by (simp_all add: clock_nat within_skew_def)
  then show ?thesis using deadline_trichotomy [of 140 100] by blast
qed

end
