(* ===== verification/Lcq_Case.thy ===== *)
theory Lcq_Case
  imports Lcq_Contracts Lcq_Btree
begin

text \<open>
  \<open>src/domain/state/mod.rs\<close>: the stage machine of one claim. Each transition takes the
  reading of the injected clock and returns what the source returns beside the new state;
  a refusal leaves the state as it was. The step relation \<open>case_step\<close> closes the
  operations under every clock reading, and the properties are invariants of its
  reachable states: one binding vote per author, a consultation set that stays frozen,
  and votes only while the claim is certainly valid.
\<close>

datatype TransitionError =
    DifferentSubject
  | WrongStageForPhase
  | ConsultationClosed
  | CutoffNotReached
  | Expired
  | TimeUncertain
  | AlreadyVoted

record TransitionErrorCount =
  different_subject :: nat
  wrong_stage_for_phase :: nat
  consultation_closed :: nat
  cutoff_not_reached :: nat
  expired :: nat
  time_uncertain :: nat
  already_voted :: nat

fun record_error :: "TransitionErrorCount \<Rightarrow> TransitionError \<Rightarrow> TransitionErrorCount" where
  "record_error c DifferentSubject = c\<lparr>different_subject := different_subject c + 1\<rparr>"
| "record_error c WrongStageForPhase = c\<lparr>wrong_stage_for_phase := wrong_stage_for_phase c + 1\<rparr>"
| "record_error c ConsultationClosed = c\<lparr>consultation_closed := consultation_closed c + 1\<rparr>"
| "record_error c CutoffNotReached = c\<lparr>cutoff_not_reached := cutoff_not_reached c + 1\<rparr>"
| "record_error c Expired = c\<lparr>expired := expired c + 1\<rparr>"
| "record_error c TimeUncertain = c\<lparr>time_uncertain := time_uncertain c + 1\<rparr>"
| "record_error c AlreadyVoted = c\<lparr>already_voted := already_voted c + 1\<rparr>"

definition total_errors :: "TransitionErrorCount \<Rightarrow> nat" where
  "total_errors c =
     different_subject c + wrong_stage_for_phase c + consultation_closed c
     + cutoff_not_reached c + expired c + time_uncertain c + already_voted c"

datatype Phase = Consulting | CollectingVotes

record Case =
  case_subject :: Subject
  expires_at :: timestamp
  phase :: Phase
  independent :: "Opinion list"
  binding :: "Opinion list"
  voted :: "string bset"

definition open_until :: "Subject \<Rightarrow> timestamp \<Rightarrow> Case" where
  "open_until s t = \<lparr>case_subject = s, expires_at = t, phase = Consulting, independent = [],
     binding = [], voted = []\<rparr>"

definition case_open :: "Subject \<Rightarrow> Case" where
  "case_open s = open_until s (default_expiry s)"

definition binding_supporters :: "Case \<Rightarrow> string list" where
  "binding_supporters c = map author (filter (\<lambda>v. can_support_approval (verdict v)) (binding c))"

definition close_consultation :: "Case \<Rightarrow> timestamp \<Rightarrow> (TransitionError, unit) result \<times> Case" where
  "close_consultation c now =
     (if phase c = CollectingVotes then (Inl ConsultationClosed, c)
      else if \<not> certainly_after now (consultation_cutoff (case_subject c))
      then (Inl CutoffNotReached, c)
      else (Inr (), c\<lparr>phase := CollectingVotes\<rparr>))"

definition accept_opinion :: "Case \<Rightarrow> Opinion \<Rightarrow> (TransitionError, unit) result \<times> Case" where
  "accept_opinion c v =
     (if \<exists>w \<in> set (independent c). author w = author v \<and> stage w = stage v then (Inr (), c)
      else (Inr (), c\<lparr>independent := independent c @ [v]\<rparr>))"

definition accept_vote :: "Case \<Rightarrow> Opinion \<Rightarrow> timestamp \<Rightarrow> (TransitionError, unit) result \<times> Case" where
  "accept_vote c v now =
     (if uncertain_about now (expires_at c) then (Inl TimeUncertain, c)
      else if bt_contains (voted c) (author v) then (Inl AlreadyVoted, c)
      else let c = c\<lparr>voted := bt_insert (author v) () (voted c)\<rparr>;
               counts = (verdict v = Support)
           in if counts \<or> verdict v \<noteq> Support
              then (Inr (), c\<lparr>binding := binding c @ [v]\<rparr>) else (Inr (), c))"

definition accept :: "Case \<Rightarrow> Opinion \<Rightarrow> timestamp \<Rightarrow> (TransitionError, unit) result \<times> Case" where
  "accept c v now =
     (if \<not> same_logical_case_and_revision (opinion_subject v) (case_subject c)
      then (Inl DifferentSubject, c)
      else if certainly_after now (expires_at c) then (Inl Expired, c)
      else case (phase c, stage v) of
             (Consulting, Independent) \<Rightarrow> accept_opinion c v
           | (Consulting, Consultation) \<Rightarrow> accept_opinion c v
           | (Consulting, BindingSupport) \<Rightarrow> (Inl WrongStageForPhase, c)
           | (CollectingVotes, Independent) \<Rightarrow> (Inl ConsultationClosed, c)
           | (CollectingVotes, Consultation) \<Rightarrow> (Inl ConsultationClosed, c)
           | (CollectingVotes, BindingSupport) \<Rightarrow> accept_vote c v now)"

section \<open>Reachable states\<close>

inductive case_step :: "Case \<Rightarrow> Case \<Rightarrow> bool" where
  step_accept: "accept c v now = (r, c') \<Longrightarrow> case_step c c'"
| step_close: "close_consultation c now = (r, c') \<Longrightarrow> case_step c c'"

inductive case_reachable :: "Case \<Rightarrow> bool" where
  reach_open: "case_reachable (open_until s t)"
| reach_step: "case_reachable c \<Longrightarrow> case_step c c' \<Longrightarrow> case_reachable c'"

inductive_cases case_stepE: "case_step c c'"

definition case_inv :: "Case \<Rightarrow> bool" where
  "case_inv c \<longleftrightarrow>
     bt_inv (voted c) \<and> fst ` set (voted c) = author ` set (binding c)
     \<and> distinct (map author (binding c))
     \<and> distinct (map (\<lambda>w. (author w, stage w)) (independent c))
     \<and> (\<forall>v \<in> set (binding c). stage v = BindingSupport \<and> opinion_subject v = case_subject c)
     \<and> (\<forall>v \<in> set (independent c). stage v \<noteq> BindingSupport \<and> opinion_subject v = case_subject c)
     \<and> (phase c = Consulting \<longrightarrow> binding c = [])"

lemma accept_vote_eq:
  "accept_vote c v now =
     (if uncertain_about now (expires_at c) then (Inl TimeUncertain, c)
      else if author v \<in> fst ` set (voted c) then (Inl AlreadyVoted, c)
      else (Inr (), c\<lparr>voted := bt_insert (author v) () (voted c), binding := binding c @ [v]\<rparr>))"
  by (simp add: accept_vote_def Let_def bt_contains_def)

lemma accept_opinion_eq:
  "accept_opinion c v =
     (Inr (), if (author v, stage v) \<in> (\<lambda>w. (author w, stage w)) ` set (independent c) then c
              else c\<lparr>independent := independent c @ [v]\<rparr>)"
  by (force simp: accept_opinion_def image_iff)

lemma accept_unfold:
  "accept c v now =
     (if opinion_subject v \<noteq> case_subject c then (Inl DifferentSubject, c)
      else if unat (expires_at c) + 30 < unat now then (Inl Expired, c)
      else if phase c = Consulting \<and> stage v = BindingSupport then (Inl WrongStageForPhase, c)
      else if phase c = CollectingVotes \<and> stage v \<noteq> BindingSupport then (Inl ConsultationClosed, c)
      else if phase c = Consulting then
        (Inr (), if (author v, stage v) \<in> (\<lambda>w. (author w, stage w)) ` set (independent c) then c
                 else c\<lparr>independent := independent c @ [v]\<rparr>)
      else if unat (expires_at c) \<le> unat now + 30 then (Inl TimeUncertain, c)
      else if author v \<in> set (bt_keys (voted c)) then (Inl AlreadyVoted, c)
      else (Inr (), c\<lparr>voted := bt_insert (author v) () (voted c), binding := binding c @ [v]\<rparr>))"
  by (cases "phase c"; cases "stage v")
    (simp_all add: accept_def same_logical_case_and_revision_def accept_opinion_eq accept_vote_eq
      uncertain_about_def clock_nat bt_keys_def not_less)

text \<open>The possible outcomes of \<open>accept\<close>, one case per branch of the source.\<close>

lemma accept_cases:
  assumes "accept c v now = (r, c')"
  obtains (refused) "c' = c" "r \<noteq> Inr ()"
  | (repeat) "r = Inr ()" "c' = c" "phase c = Consulting" "stage v \<noteq> BindingSupport"
      "(author v, stage v) \<in> (\<lambda>w. (author w, stage w)) ` set (independent c)"
  | (opinion) "r = Inr ()" "c' = c\<lparr>independent := independent c @ [v]\<rparr>" "phase c = Consulting"
      "stage v \<noteq> BindingSupport" "opinion_subject v = case_subject c"
      "(author v, stage v) \<notin> (\<lambda>w. (author w, stage w)) ` set (independent c)"
  | (vote) "r = Inr ()" "phase c = CollectingVotes" "stage v = BindingSupport"
      "opinion_subject v = case_subject c" "author v \<notin> fst ` set (voted c)"
      "certainly_before now (expires_at c)"
      "c' = c\<lparr>voted := bt_insert (author v) () (voted c), binding := binding c @ [v]\<rparr>"
proof (cases "r = Inr ()")
  case False
  then have "c' = c"
    using assms unfolding accept_unfold by (simp only: prod.inject split: if_splits) blast+
  then show thesis using False by (rule refused)
next
  case True
  with assms have subj: "opinion_subject v = case_subject c"
      and ph: "phase c = Consulting \<and> stage v \<noteq> BindingSupport
        \<or> phase c = CollectingVotes \<and> stage v = BindingSupport"
    unfolding accept_unfold by (cases "phase c"; simp split: if_splits)+
  from ph show thesis
  proof
    assume p: "phase c = Consulting \<and> stage v \<noteq> BindingSupport"
    show thesis
    proof (cases "(author v, stage v) \<in> (\<lambda>w. (author w, stage w)) ` set (independent c)")
      case dup: True
      from assms True p subj dup have "c' = c" unfolding accept_unfold by (simp only: if_True) (simp split: if_splits)
      with True p dup show thesis using repeat by blast
    next
      case new: False
      from assms True p subj new have "c' = c\<lparr>independent := independent c @ [v]\<rparr>"
        unfolding accept_unfold by (simp only: if_False) (simp split: if_splits)
      with True p subj new show thesis using opinion by blast
    qed
  next
    assume p: "phase c = CollectingVotes \<and> stage v = BindingSupport"
    with assms True subj have "author v \<notin> fst ` set (voted c) \<and> certainly_before now (expires_at c)
        \<and> c' = c\<lparr>voted := bt_insert (author v) () (voted c), binding := binding c @ [v]\<rparr>"
      unfolding accept_unfold by (simp add: bt_keys_def certainly_before_nat split: if_splits)
    with True p subj show thesis using vote by blast
  qed
qed

lemma case_inv_open: "case_inv (open_until s t)"
  by (simp add: case_inv_def open_until_def)

lemma accept_inv: "accept c v now = (r, c') \<Longrightarrow> case_inv c \<Longrightarrow> case_inv c'"
  by (erule accept_cases)
    (auto simp: case_inv_def set_keys_bt_insert [unfolded set_map])

lemma close_inv: "close_consultation c now = (r, c') \<Longrightarrow> case_inv c \<Longrightarrow> case_inv c'"
  by (cases "phase c") (auto simp: close_consultation_def case_inv_def split: if_splits)

lemma case_step_inv: "case_step c c' \<Longrightarrow> case_inv c \<Longrightarrow> case_inv c'"
  by (induction rule: case_step.induct) (auto intro: accept_inv close_inv)

lemma case_reachable_inv: "case_reachable c \<Longrightarrow> case_inv c"
  by (induction rule: case_reachable.induct) (auto intro: case_inv_open case_step_inv)

text \<open>What a step never touches, and what only grows.\<close>

definition case_grows :: "Case \<Rightarrow> Case \<Rightarrow> bool" where
  "case_grows c c' \<longleftrightarrow>
     case_subject c' = case_subject c \<and> expires_at c' = expires_at c
     \<and> (\<exists>vs. binding c' = binding c @ vs)
     \<and> (\<exists>vs. independent c' = independent c @ vs)
     \<and> (phase c = CollectingVotes \<longrightarrow> phase c' = CollectingVotes \<and> independent c' = independent c)"

lemma case_grows_refl: "case_grows c c"
  by (simp add: case_grows_def)

lemma case_grows_trans: "case_grows a b \<Longrightarrow> case_grows b c \<Longrightarrow> case_grows a c"
  by (auto simp: case_grows_def)

lemma case_step_grows: "case_step c c' \<Longrightarrow> case_grows c c'"
proof (induction rule: case_step.induct)
  case (step_accept c v now r c')
  then show ?case by (rule accept_cases) (auto simp: case_grows_def)
next
  case (step_close c now r c')
  then show ?case by (auto simp: close_consultation_def case_grows_def split: if_splits)
qed

lemma case_steps_grow: "case_step\<^sup>*\<^sup>* c c' \<Longrightarrow> case_grows c c'"
  by (induction rule: rtranclp_induct) (auto intro: case_grows_refl case_grows_trans case_step_grows)

section \<open>Properties\<close>


definition sample_vote :: "string \<Rightarrow> Opinion" where
  "sample_vote a = \<lparr>author = a, opinion_subject = sample_subject, stage = BindingSupport, verdict = Support\<rparr>"

definition sample_voting :: Case where
  "sample_voting = snd (close_consultation (case_open sample_subject) 1400)"

definition sample_voted :: Case where
  "sample_voted = snd (accept (snd (accept sample_voting (sample_vote ''a'') 1401)) (sample_vote ''b'') 1402)"

lemma sample_voting_reachable: "case_reachable sample_voting"
  unfolding sample_voting_def case_open_def
  by (rule reach_step [OF reach_open]) (rule step_close, rule prod.collapse [symmetric])

lemma sample_voted_reachable: "case_reachable sample_voted"
  unfolding sample_voted_def
  by (rule reach_step [OF reach_step [OF sample_voting_reachable]])
    (rule step_accept, rule prod.collapse [symmetric])+


text \<open>
  Freezing is final: once consultation has closed, no sequence of further
  transitions reopens it or changes the collected opinions, and recorded votes are never
  dropped, replaced or reordered.
\<close>

theorem frozen_consultation:
  assumes "phase c = CollectingVotes" and "case_step\<^sup>*\<^sup>* c c'"
  shows "phase c' = CollectingVotes \<and> independent c' = independent c
    \<and> case_subject c' = case_subject c \<and> expires_at c' = expires_at c
    \<and> (\<exists>later. binding c' = binding c @ later)"
  using case_steps_grow [OF assms(2)] assms(1) by (auto simp: case_grows_def)

theorem frozen_consultation_witness:
  "phase sample_voted = CollectingVotes \<and> independent sample_voted = independent sample_voting"
proof -
  have "case_step sample_voting (snd (accept sample_voting (sample_vote ''a'') 1401))"
    by (rule step_accept, rule prod.collapse [symmetric])
  moreover have "case_step (snd (accept sample_voting (sample_vote ''a'') 1401)) sample_voted"
    unfolding sample_voted_def by (rule step_accept, rule prod.collapse [symmetric])
  ultimately have "case_step\<^sup>*\<^sup>* sample_voting sample_voted" by simp
  moreover have "phase sample_voting = CollectingVotes" by code_simp
  ultimately show ?thesis using frozen_consultation by blast
qed

text \<open>
  A binding vote is admitted exactly when it is about this claim, consultation has
  closed, its author has not voted, and the claim's expiry is certainly ahead of the
  clock; it is then recorded last and nothing else changes. In particular no vote is
  admitted inside the uncertainty band around the expiry.
\<close>

theorem vote_admitted_iff:
  assumes "stage v = BindingSupport"
  shows "accept c v now =
      (if opinion_subject v = case_subject c \<and> phase c = CollectingVotes
          \<and> author v \<notin> set (bt_keys (voted c)) \<and> certainly_before now (expires_at c)
       then (Inr (), c\<lparr>voted := bt_insert (author v) () (voted c), binding := binding c @ [v]\<rparr>)
       else (fst (accept c v now), c))
    \<and> (fst (accept c v now) = Inr () \<longleftrightarrow>
          opinion_subject v = case_subject c \<and> phase c = CollectingVotes
          \<and> author v \<notin> set (bt_keys (voted c)) \<and> certainly_before now (expires_at c))"
  using assms by (cases "phase c") (simp_all add: accept_unfold certainly_before_nat)

theorem vote_admitted_iff_witness:
  "snd (accept sample_voting (sample_vote ''a'') 2780) = sample_voting"
proof -
  have "\<not> certainly_before 2780 (expires_at sample_voting)" by code_simp
  then show ?thesis using vote_admitted_iff [of "sample_vote ''a''" sample_voting 2780]
    by (simp add: sample_vote_def prod_eq_iff)
qed

text \<open>
  Refusals in the source's order of precedence: a different claim first, then
  expiry, then the phase, then time uncertainty, then a second vote; an admitted opinion
  is stored once per author and stage, and a repeat is accepted without effect.
\<close>

theorem accept_outcome:
  "accept c v now =
     (if opinion_subject v \<noteq> case_subject c then (Inl DifferentSubject, c)
      else if unat (expires_at c) + 30 < unat now then (Inl Expired, c)
      else if phase c = Consulting \<and> stage v = BindingSupport then (Inl WrongStageForPhase, c)
      else if phase c = CollectingVotes \<and> stage v \<noteq> BindingSupport then (Inl ConsultationClosed, c)
      else if phase c = Consulting then
        (Inr (), if (author v, stage v) \<in> (\<lambda>w. (author w, stage w)) ` set (independent c) then c
                 else c\<lparr>independent := independent c @ [v]\<rparr>)
      else if unat (expires_at c) \<le> unat now + 30 then (Inl TimeUncertain, c)
      else if author v \<in> set (bt_keys (voted c)) then (Inl AlreadyVoted, c)
      else (Inr (), c\<lparr>voted := bt_insert (author v) () (voted c), binding := binding c @ [v]\<rparr>))"
  by (rule accept_unfold)

text \<open>
  Every refusal is counted exactly once: tallying one more error raises the total by
  one, and the total is the number of errors tallied.
\<close>

theorem refusals_all_counted:
  "total_errors (foldl record_error c es) = total_errors c + length es"
proof (induction es arbitrary: c)
  case Nil
  then show ?case by simp
next
  case (Cons e es)
  have "total_errors (record_error c e) = total_errors c + 1"
    by (cases e) (simp_all add: total_errors_def)
  with Cons.IH [of "record_error c e"] show ?case by simp
qed

end
