(* ===== verification/Lcq_Lock_Key.thy ===== *)
theory Lcq_Lock_Key
  imports Lcq_Contracts
begin

text \<open>
  \<open>src/infrastructure/lock_key.rs\<close>: the string a vote lock is stored under. The digit
  loop fills its buffer from the right; the list accumulator is the filled part of it.
\<close>

unbundle bit_operations_syntax

definition HEX :: string where
  "HEX = ''0123456789abcdef''"

definition SEP :: char where
  "SEP = CHR 0x1F"

definition push_hex_lower :: "u8 \<Rightarrow> string" where
  "push_hex_lower b = [HEX ! unat (drop_bit 4 b), HEX ! unat (b AND 0x0F)]"

lemma unat_div_10: "unat (r div 10) = unat r div 10" for r :: u32
  by (simp add: unat_div)

lemma div_10_eq_0: "r div 10 = 0 \<longleftrightarrow> unat r div 10 = 0" for r :: u32
  by (metis unat_div_10 unat_eq_zero)

function revision_digits :: "u32 \<Rightarrow> string \<Rightarrow> string" where
  "revision_digits number digits =
     (let digits = char_of (48 + unat (number mod 10)) # digits;
          number = number div 10
      in if number = 0 then digits else revision_digits number digits)"
  by pat_completeness auto
termination
proof (relation "measure (\<lambda>(r, d). unat r)")
  fix r :: u32 and d x y
  assume "x = char_of (48 + unat (r mod 10)) # d" and y: "y = r div 10" and "y \<noteq> 0"
  then have "0 < unat r div 10" using div_10_eq_0 [of r] by auto
  then show "((y, x), r, d) \<in> measure (\<lambda>(r, d). unat r)"
    by (simp add: y unat_div div_less_dividend)
qed simp

declare revision_digits.simps [simp del]

definition lock_key :: "Subject \<Rightarrow> string \<Rightarrow> string" where
  "lock_key s voter =
     mission s @ [SEP] @ event s @ [SEP] @ concat (map push_hex_lower (content_hash s)) @ [SEP]
     @ revision_digits (revision s) [] @ [SEP] @ voter"

section \<open>The fields can be read back\<close>

fun undigits :: "nat \<Rightarrow> string \<Rightarrow> nat" where
  "undigits n [] = n"
| "undigits n (c # cs) = undigits (10 * n + (of_char c - 48)) cs"

lemma undigits_digits: "undigits 0 (revision_digits r ds) = undigits (unat r) ds"
proof (induction r ds rule: revision_digits.induct)
  case (1 r ds)
  let ?c = "char_of (48 + unat (r mod 10)) :: char"
  have m: "unat (r mod 10) < 10" by (simp add: unat_mod)
  then have c: "(of_char ?c :: nat) = 48 + unat (r mod 10)" by simp
  show ?case
  proof (cases "r div 10 = 0")
    case True
    then have "unat r div 10 = 0" by (simp only: div_10_eq_0)
    then have "unat (r mod 10) = unat r" by (simp add: unat_mod div_eq_0_iff)
    with True c show ?thesis by (subst revision_digits.simps) (simp add: Let_def)
  next
    case False
    have "undigits 0 (revision_digits (r div 10) (?c # ds)) = undigits (unat (r div 10)) (?c # ds)"
      using 1 False by simp
    moreover have "10 * unat (r div 10) + unat (r mod 10) = unat r"
      by (simp add: unat_div unat_mod)
    ultimately show ?thesis
      using False c by (subst revision_digits.simps) (simp add: Let_def)
  qed
qed

lemma revision_digits_inj: "revision_digits a [] = revision_digits b [] \<Longrightarrow> a = b"
  by (metis undigits_digits undigits.simps(1) word_unat_eq_iff)

lemma revision_digits_range:
  "set ds \<subseteq> {c. 48 \<le> (of_char c :: nat) \<and> of_char c \<le> (57 :: nat)} \<Longrightarrow>
   set (revision_digits r ds) \<subseteq> {c. 48 \<le> (of_char c :: nat) \<and> of_char c \<le> (57 :: nat)}"
proof (induction r ds rule: revision_digits.induct)
  case (1 r ds)
  have m: "unat (r mod 10) < 10" by (simp add: unat_mod)
  then have c: "(of_char (char_of (48 + unat (r mod 10)) :: char) :: nat) = 48 + unat (r mod 10)"
    by simp
  show ?case
    using 1 c m by (subst revision_digits.simps) (auto simp: Let_def simp del: of_char_of)
qed

lemma SEP_not_digit: "SEP \<notin> set (revision_digits r [])"
  using revision_digits_range [of "[]" r] by (force simp: SEP_def)

lemma nibble_bounds: "unat (drop_bit 4 b) < 16" "unat (b AND 0x0F) < 16" for b :: u8
proof -
  have "unat b < 256" using unsigned_less [of b] by simp
  then show "unat (drop_bit 4 b) < 16" by (simp add: drop_bit_eq_div unat_div)
  have "unat (b AND 0x0F) \<le> unat (0x0F :: u8)"
    by (rule word_and_le1 [THEN word_le_nat_alt [THEN iffD1]])
  then show "unat (b AND 0x0F) < 16" by simp
qed

lemma HEX_props: "distinct HEX" "length HEX = 16" "SEP \<notin> set HEX"
  by (simp_all add: HEX_def SEP_def)

lemma push_hex_lower_inj: "push_hex_lower a = push_hex_lower b \<Longrightarrow> a = b"
proof -
  assume "push_hex_lower a = push_hex_lower b"
  then have "unat (drop_bit 4 a) = unat (drop_bit 4 b)" "unat (a AND 0x0F) = unat (b AND 0x0F)"
    using nibble_bounds HEX_props by (auto simp: push_hex_lower_def nth_eq_iff_index_eq)
  then have h: "drop_bit 4 a = drop_bit 4 b" and l: "a AND 0x0F = b AND 0x0F"
    by (simp_all add: word_unat_eq_iff)
  have split: "v = (v AND 0x0F) OR push_bit 4 (drop_bit 4 v)" for v :: u8
  proof -
    have ff: "(0x0F :: u8) = mask 4" by (simp add: mask_eq_exp_minus_1)
    show ?thesis
    proof (rule bit_word_eqI)
      fix n
      show "bit v n = bit ((v AND 0x0F) OR push_bit 4 (drop_bit 4 v)) n"
        by (cases "n < 4") (auto simp: ff bit_simps dest: bit_imp_le_length)
    qed
  qed
  show "a = b" using split [of a] split [of b] h l by simp
qed

lemma length_push_hex_lower [simp]: "length (push_hex_lower b) = 2"
  by (simp add: push_hex_lower_def)

lemma SEP_not_hex: "SEP \<notin> set (concat (map push_hex_lower bs))"
  using HEX_props nibble_bounds by (auto simp: push_hex_lower_def) (metis nth_mem)+

lemma concat_hex_inj:
  "concat (map push_hex_lower as) = concat (map push_hex_lower bs) \<Longrightarrow> as = bs"
proof (induction as arbitrary: bs)
  case Nil
  then show ?case by (cases bs) (auto simp: push_hex_lower_def)
next
  case (Cons a as)
  then show ?case
  proof (cases bs)
    case (Cons b bs')
    with Cons.prems have "push_hex_lower a = push_hex_lower b"
      "concat (map push_hex_lower as) = concat (map push_hex_lower bs')"
      by (auto simp: append_eq_append_conv)
    then show ?thesis using Cons.IH Cons push_hex_lower_inj by simp
  qed (auto simp: push_hex_lower_def)
qed

lemma sep_split:
  assumes "c \<notin> set xs" and "c \<notin> set us" and "xs @ c # ys = us @ c # vs"
  shows "xs = us \<and> ys = vs"
  using assms
proof (induction xs arbitrary: us)
  case Nil
  then show ?case by (cases us) auto
next
  case (Cons x xs)
  then show ?case by (cases us) auto
qed

text \<open>
  Where neither mission nor event contains the unit separator, a lock key names its
  case: equal keys come from the same mission, event, content hash, revision and voter.
  The voter may be any string. The start instant is not part of the key.
\<close>

theorem lock_key_injective:
  assumes "SEP \<notin> set (mission a)" and "SEP \<notin> set (event a)"
    and "SEP \<notin> set (mission b)" and "SEP \<notin> set (event b)"
    and "lock_key a v = lock_key b w"
  shows "mission a = mission b \<and> event a = event b \<and> content_hash a = content_hash b
    \<and> revision a = revision b \<and> v = w"
proof -
  have m: "mission a = mission b" and r1: "event a @ SEP # concat (map push_hex_lower (content_hash a))
      @ SEP # revision_digits (revision a) [] @ SEP # v = event b
      @ SEP # concat (map push_hex_lower (content_hash b)) @ SEP # revision_digits (revision b) [] @ SEP # w"
    using sep_split [OF assms(1,3)] assms(5) by (auto simp: lock_key_def)
  have e: "event a = event b" and r2: "concat (map push_hex_lower (content_hash a))
      @ SEP # revision_digits (revision a) [] @ SEP # v
      = concat (map push_hex_lower (content_hash b)) @ SEP # revision_digits (revision b) [] @ SEP # w"
    using sep_split [OF assms(2,4) r1] by auto
  have h: "content_hash a = content_hash b"
    and r3: "revision_digits (revision a) [] @ SEP # v = revision_digits (revision b) [] @ SEP # w"
    using sep_split [OF SEP_not_hex SEP_not_hex r2] concat_hex_inj by auto
  show ?thesis
    using m e h sep_split [OF SEP_not_digit SEP_not_digit r3] revision_digits_inj by auto
qed

theorem lock_key_injective_witness:
  "lock_key sample_subject ''v'' \<noteq> lock_key (sample_subject\<lparr>revision := 2\<rparr>) ''v''"
  using lock_key_injective [of sample_subject "sample_subject\<lparr>revision := 2\<rparr>" "''v''" "''v''"]
  by (auto simp: sample_subject_def SEP_def)

text \<open>
  Nothing enforces that condition: \<open>Subject::new\<close> checks only that the identifiers
  are not empty, and there are subjects it accepts, with different missions and events,
  that share one lock key; so do any two subjects that differ only in their start
  instant.
\<close>

theorem lock_key_collision:
  "(\<exists>a b. subject_new (mission a) (event a) (revision a) (content_hash a) (started_at a) = Inr a
       \<and> subject_new (mission b) (event b) (revision b) (content_hash b) (started_at b) = Inr b
       \<and> length (content_hash a) = 32 \<and> length (content_hash b) = 32
       \<and> mission a \<noteq> mission b \<and> event a \<noteq> event b \<and> lock_key a v = lock_key b v)
   \<and> lock_key (s\<lparr>started_at := t\<rparr>) v = lock_key s v"
proof
  let ?a = "\<lparr>mission = [CHR ''a'', SEP, CHR ''b''], event = ''c'', revision = 1, content_hash = replicate 32 0,
    started_at = 0\<rparr>"
  let ?b = "\<lparr>mission = ''a'', event = [CHR ''b'', SEP, CHR ''c''], revision = 1, content_hash = replicate 32 0,
    started_at = 0\<rparr>"
  have "lock_key ?a v = lock_key ?b v" by (simp add: lock_key_def)
  then show "\<exists>a b. subject_new (mission a) (event a) (revision a) (content_hash a) (started_at a) = Inr a
       \<and> subject_new (mission b) (event b) (revision b) (content_hash b) (started_at b) = Inr b
       \<and> length (content_hash a) = 32 \<and> length (content_hash b) = 32
       \<and> mission a \<noteq> mission b \<and> event a \<noteq> event b \<and> lock_key a v = lock_key b v"
    by (intro exI [of _ ?a] exI [of _ ?b]) (simp add: subject_new_def)
  show "lock_key (s\<lparr>started_at := t\<rparr>) v = lock_key s v" by (simp add: lock_key_def)
qed

end
