(* ===== verification/Lcq_Journal.thy ===== *)
theory Lcq_Journal
  imports Lcq_Lock_Key Lcq_Btree
begin

text \<open>
  \<open>src/application/journal.rs\<close> and \<open>src/infrastructure/memory.rs\<close>: outgoing frames,
  snapshots, the \<open>Journal\<close> trait as a locale, and the in-memory journal. The trait's
  contract (a vote lock is taken once and never released, a sequence number is handed out
  once and the counter never moves back, the epoch never moves back) is what the locale
  assumes; the client's guarantees over whole runs are proved inside it, and both
  journals interpret it.
\<close>

datatype JournalError = JAlreadyVoted | NotDurable

record OutgoingFrame =
  frame_bytes :: bytes
  frame_sequence :: u64
  frame_expires_at :: "timestamp option"

definition frame_new :: "bytes \<Rightarrow> u64 \<Rightarrow> OutgoingFrame" where
  "frame_new bs q = \<lparr>frame_bytes = bs, frame_sequence = q, frame_expires_at = None\<rparr>"

definition expiring_at :: "OutgoingFrame \<Rightarrow> timestamp \<Rightarrow> OutgoingFrame" where
  "expiring_at f t = f\<lparr>frame_expires_at := Some t\<rparr>"

definition frame_expired :: "timestamp \<Rightarrow> OutgoingFrame \<Rightarrow> bool" where
  "frame_expired now f = (case frame_expires_at f of None \<Rightarrow> False | Some t \<Rightarrow> t < now)"

record JournalSnapshot =
  snap_epoch :: "u16 option"
  snap_seen :: "(u16 \<times> u64) list"
  snap_vote_locks :: "(string \<times> u64) list"
  snap_pending :: "OutgoingFrame list"
  snap_next_sequence :: u64
  snap_witnessed :: "(string \<times> bytes) list"

text \<open>
  The live state. \<open>MemoryJournal\<close> and the \<open>State\<close> of the log journal declare the same
  fields; one record stands for both.
\<close>

record JState =
  j_epoch :: "u16 option"
  j_seen :: "(u16, u64) btree"
  j_locks :: "string bset"
  j_pending :: "(u64, OutgoingFrame) btree"
  j_next_sequence :: u64
  j_witnessed :: "(string, bytes) btree"

definition default_state :: JState where
  "default_state = \<lparr>j_epoch = None, j_seen = [], j_locks = [], j_pending = [],
     j_next_sequence = 0, j_witnessed = []\<rparr>"

section \<open>The in-memory journal\<close>

definition mem_commit_vote ::
  "JState \<Rightarrow> Subject \<Rightarrow> string \<Rightarrow> OutgoingFrame \<Rightarrow> (JournalError, unit) result \<times> JState" where
  "mem_commit_vote j s voter f =
     (let key = lock_key s voter
      in if bt_contains (j_locks j) key then (Inl JAlreadyVoted, j)
         else (Inr (), j\<lparr>j_locks := bt_insert key () (j_locks j),
                        j_next_sequence := max (j_next_sequence j) (sat_add (frame_sequence f) 1),
                        j_pending := bt_insert (frame_sequence f) f (j_pending j)\<rparr>))"

definition mem_has_voted :: "JState \<Rightarrow> Subject \<Rightarrow> string \<Rightarrow> bool" where
  "mem_has_voted j s voter = bt_contains (j_locks j) (lock_key s voter)"

definition mem_reserve_sequence :: "JState \<Rightarrow> (JournalError, u64) result \<times> JState" where
  "mem_reserve_sequence j =
     (Inr (j_next_sequence j), j\<lparr>j_next_sequence := sat_add (j_next_sequence j) 1\<rparr>)"

definition mem_acknowledge :: "JState \<Rightarrow> u64 \<Rightarrow> bool \<times> JState" where
  "mem_acknowledge j q = (bt_contains (j_pending j) q, j\<lparr>j_pending := bt_remove q (j_pending j)\<rparr>)"

definition mem_drop_expired :: "JState \<Rightarrow> timestamp \<Rightarrow> JState" where
  "mem_drop_expired j now = j\<lparr>j_pending := bt_retain
     (\<lambda>_ f. case frame_expires_at f of None \<Rightarrow> True | Some t \<Rightarrow> t \<ge> now) (j_pending j)\<rparr>"

definition mem_witness :: "JState \<Rightarrow> string \<Rightarrow> bytes \<Rightarrow> (JournalError, unit) result \<times> JState" where
  "mem_witness j a f =
     (Inr (), j\<lparr>j_witnessed := (case bt_get (j_witnessed j) a of
        Some _ \<Rightarrow> j_witnessed j | None \<Rightarrow> bt_insert a f (j_witnessed j))\<rparr>)"

definition mem_enter_epoch :: "JState \<Rightarrow> u16 \<Rightarrow> (JournalError, unit) result \<times> JState" where
  "mem_enter_epoch j e =
     (if (case j_epoch j of None \<Rightarrow> False | Some held \<Rightarrow> held \<ge> e) then (Inr (), j)
      else (Inr (), j\<lparr>j_seen := [], j_epoch := Some e\<rparr>))"

definition mem_highest_seen :: "JState \<Rightarrow> u16 \<Rightarrow> u64 option" where
  "mem_highest_seen j sender = bt_get (j_seen j) sender"

definition mem_mark_seen :: "JState \<Rightarrow> u16 \<Rightarrow> u64 \<Rightarrow> (JournalError, unit) result \<times> JState" where
  "mem_mark_seen j sender q =
     (let held = (case bt_get (j_seen j) sender of None \<Rightarrow> 0 | Some h \<Rightarrow> h)
      in (Inr (), j\<lparr>j_seen := bt_insert sender (max held q) (j_seen j)\<rparr>))"

definition mem_snapshot :: "JState \<Rightarrow> JournalSnapshot" where
  "mem_snapshot j = \<lparr>snap_epoch = j_epoch j, snap_seen = j_seen j,
     snap_vote_locks = map (\<lambda>k. (k, 0)) (bt_keys (j_locks j)), snap_pending = bt_values (j_pending j),
     snap_next_sequence = j_next_sequence j, snap_witnessed = j_witnessed j\<rparr>"

definition mem_restored :: "JournalSnapshot \<Rightarrow> JState" where
  "mem_restored s = \<lparr>j_epoch = snap_epoch s, j_seen = bt_collect (snap_seen s),
     j_locks = bs_collect (map fst (snap_vote_locks s)),
     j_pending = bt_collect (map (\<lambda>f. (frame_sequence f, f)) (snap_pending s)),
     j_next_sequence = snap_next_sequence s, j_witnessed = bt_collect (snap_witnessed s)\<rparr>"

section \<open>Well-formed states\<close>

definition jwf :: "JState \<Rightarrow> bool" where
  "jwf j \<longleftrightarrow> bt_inv (j_seen j) \<and> bt_inv (j_locks j) \<and> bt_inv (j_pending j) \<and> bt_inv (j_witnessed j)
     \<and> (\<forall>q f. bt_get (j_pending j) q = Some f \<longrightarrow>
          frame_sequence f = q \<and> sat_add q 1 \<le> j_next_sequence j)"

lemma jwf_default [simp]: "jwf default_state"
  by (simp add: jwf_def default_state_def)

lemma jwf_commit: "jwf j \<Longrightarrow> jwf (snd (mem_commit_vote j s v f))"
  by (auto simp: mem_commit_vote_def Let_def jwf_def bt_simps max_def)
    (meson order_trans linear)+

lemma sat_add_1_ge: "q \<le> sat_add q 1"
  by (rule sat_add_ge)

lemma jwf_reserve: "jwf j \<Longrightarrow> jwf (snd (mem_reserve_sequence j))"
  by (auto simp: mem_reserve_sequence_def jwf_def intro!: order_trans [OF _ sat_add_1_ge])

lemma jwf_ack: "jwf j \<Longrightarrow> jwf (snd (mem_acknowledge j q))"
  by (auto simp: mem_acknowledge_def jwf_def bt_simps split: if_splits)

lemma jwf_drop: "jwf j \<Longrightarrow> jwf (mem_drop_expired j now)"
  by (auto simp: mem_drop_expired_def jwf_def bt_get_retain split: option.splits if_splits)

lemma jwf_witness: "jwf j \<Longrightarrow> jwf (snd (mem_witness j a f))"
  by (auto simp: mem_witness_def jwf_def split: option.splits)

lemma jwf_epoch: "jwf j \<Longrightarrow> jwf (snd (mem_enter_epoch j e))"
  by (auto simp: mem_enter_epoch_def jwf_def)

lemma jwf_mark: "jwf j \<Longrightarrow> jwf (snd (mem_mark_seen j a q))"
  by (auto simp: mem_mark_seen_def jwf_def Let_def)

lemmas jwf_ops = jwf_commit jwf_reserve jwf_ack jwf_drop jwf_witness jwf_epoch jwf_mark

section \<open>The trait\<close>

text \<open>What one call may do to a journal, whichever implementation backs it.\<close>

datatype journal_op =
    OpCommit Subject string OutgoingFrame
  | OpReserve
  | OpAck u64
  | OpDrop timestamp
  | OpWitness string bytes
  | OpEpoch u16
  | OpSeen u16 u64

locale journal =
  fixes inv :: "'j \<Rightarrow> bool"
    and view :: "'j \<Rightarrow> JState"
    and exec :: "'j \<Rightarrow> journal_op \<Rightarrow> 'j"
    and commit :: "'j \<Rightarrow> Subject \<Rightarrow> string \<Rightarrow> OutgoingFrame \<Rightarrow> (JournalError, unit) result \<times> 'j"
    and reserve :: "'j \<Rightarrow> (JournalError, u64) result \<times> 'j"
  assumes inv_exec: "inv j \<Longrightarrow> inv (exec j oper)"
    and exec_commit: "exec j (OpCommit s v f) = snd (commit j s v f)"
    and exec_reserve: "exec j OpReserve = snd (reserve j)"
    and locks_kept: "inv j \<Longrightarrow> bt_contains (j_locks (view j)) k
      \<Longrightarrow> bt_contains (j_locks (view (exec j oper))) k"
    and counter_kept: "inv j \<Longrightarrow> j_next_sequence (view j) \<le> j_next_sequence (view (exec j oper))"
    and epoch_kept: "inv j \<Longrightarrow> j_epoch (view j) = Some e
      \<Longrightarrow> \<exists>e'. j_epoch (view (exec j oper)) = Some e' \<and> e \<le> e'"
    and commit_ok: "inv j \<Longrightarrow> commit j s v f = (Inr (), j') \<Longrightarrow>
      \<not> mem_has_voted (view j) s v \<and> mem_has_voted (view j') s v
      \<and> bt_get (j_pending (view j')) (frame_sequence f) = Some f"
    and commit_err: "inv j \<Longrightarrow> commit j s v f = (Inl err, j') \<Longrightarrow> view j' = view j"
    and reserve_ok: "inv j \<Longrightarrow> reserve j = (Inr q, j') \<Longrightarrow>
      q = j_next_sequence (view j) \<and> j_next_sequence (view j') = sat_add q 1"
begin

lemma inv_run: "inv j \<Longrightarrow> inv (foldl exec j ops)"
  by (induction ops arbitrary: j) (auto intro: inv_exec)

lemma run_locks: "inv j \<Longrightarrow> bt_contains (j_locks (view j)) k
    \<Longrightarrow> bt_contains (j_locks (view (foldl exec j ops))) k"
  by (induction ops arbitrary: j) (auto intro: inv_exec locks_kept)

lemma run_counter: "inv j \<Longrightarrow> j_next_sequence (view j) \<le> j_next_sequence (view (foldl exec j ops))"
proof (induction ops arbitrary: j)
  case Nil
  then show ?case by simp
next
  case (Cons x xs)
  have "j_next_sequence (view j) \<le> j_next_sequence (view (exec j x))"
    by (rule counter_kept) (rule Cons.prems)
  also have "\<dots> \<le> j_next_sequence (view (foldl exec (exec j x) xs))"
    by (rule Cons.IH) (rule inv_exec [OF Cons.prems])
  finally show ?case by simp
qed

lemma run_epoch: "inv j \<Longrightarrow> j_epoch (view j) = Some e
    \<Longrightarrow> \<exists>e'. j_epoch (view (foldl exec j ops)) = Some e' \<and> e \<le> e'"
proof (induction ops arbitrary: j e)
  case Nil
  then show ?case by simp
next
  case (Cons x xs)
  obtain e1 where e1: "j_epoch (view (exec j x)) = Some e1" "e \<le> e1"
    using epoch_kept [OF Cons.prems] by blast
  obtain e2 where "j_epoch (view (foldl exec (exec j x) xs)) = Some e2" "e1 \<le> e2"
    using Cons.IH [OF inv_exec [OF Cons.prems(1)] e1(1)] by blast
  then show ?case using e1 by (auto intro: order_trans)
qed

text \<open>A vote committed once is refused ever after, whatever happens in between.\<close>

lemma no_second_vote:
  assumes "inv j" and "commit j s v f = (Inr (), j1)"
  shows "commit (foldl exec j1 ops) s v g \<noteq> (Inr (), j2)"
proof
  assume again: "commit (foldl exec j1 ops) s v g = (Inr (), j2)"
  have "j1 = exec j (OpCommit s v f)" using assms(2) by (simp add: exec_commit)
  then have j1: "inv j1" using assms(1) by (simp add: inv_exec)
  have "mem_has_voted (view j1) s v" using commit_ok [OF assms] by simp
  then have "mem_has_voted (view (foldl exec j1 ops)) s v"
    unfolding mem_has_voted_def by (rule run_locks [OF j1])
  then show False using commit_ok [OF inv_run [OF j1] again] by simp
qed

text \<open>A sequence number handed out is never handed out again.\<close>

lemma no_sequence_reuse:
  assumes "inv j" and "reserve j = (Inr q, j1)" and "q < - 1"
    and "reserve (foldl exec j1 ops) = (Inr r, j2)"
  shows "q < r"
proof -
  have j1: "inv j1" using inv_exec [OF assms(1), of OpReserve] assms(2) by (simp add: exec_reserve)
  have "j_next_sequence (view j1) = sat_add q 1" using reserve_ok [OF assms(1,2)] by simp
  then have "sat_add q 1 \<le> r"
    using run_counter [OF j1, of ops] reserve_ok [OF inv_run [OF j1] assms(4)] by simp
  moreover have "q < sat_add q 1"
    using assms(3) unat_max_word [where 'a = 64] by (simp add: word_less_nat_alt sat_simps)
  ultimately show ?thesis by simp
qed

end

fun mem_exec :: "JState \<Rightarrow> journal_op \<Rightarrow> JState" where
  "mem_exec j (OpCommit s v f) = snd (mem_commit_vote j s v f)"
| "mem_exec j OpReserve = snd (mem_reserve_sequence j)"
| "mem_exec j (OpAck q) = snd (mem_acknowledge j q)"
| "mem_exec j (OpDrop now) = mem_drop_expired j now"
| "mem_exec j (OpWitness a f) = snd (mem_witness j a f)"
| "mem_exec j (OpEpoch e) = snd (mem_enter_epoch j e)"
| "mem_exec j (OpSeen a q) = snd (mem_mark_seen j a q)"

lemma jwf_exec: "jwf j \<Longrightarrow> jwf (mem_exec j x)"
  by (cases x) (simp_all add: jwf_ops)

lemma mem_exec_locks:
  "jwf j \<Longrightarrow> bt_contains (j_locks j) k \<Longrightarrow> bt_contains (j_locks (mem_exec j x)) k"
  by (cases x) (auto simp: mem_commit_vote_def mem_reserve_sequence_def mem_acknowledge_def
      mem_drop_expired_def mem_witness_def mem_enter_epoch_def mem_mark_seen_def Let_def jwf_def bt_simps)

lemma mem_exec_counter: "j_next_sequence j \<le> j_next_sequence (mem_exec j x)"
  by (cases x) (auto simp: mem_commit_vote_def mem_reserve_sequence_def mem_acknowledge_def
      mem_drop_expired_def mem_witness_def mem_enter_epoch_def mem_mark_seen_def Let_def sat_add_ge)

lemma mem_exec_epoch:
  "j_epoch j = Some e \<Longrightarrow> \<exists>e'. j_epoch (mem_exec j x) = Some e' \<and> e \<le> e'"
  by (cases x) (auto simp: mem_commit_vote_def mem_reserve_sequence_def mem_acknowledge_def
      mem_drop_expired_def mem_witness_def mem_enter_epoch_def mem_mark_seen_def Let_def)

lemma mem_commit_ok: "jwf j \<Longrightarrow> mem_commit_vote j s v f = (Inr (), j') \<Longrightarrow>
    \<not> mem_has_voted j s v \<and> mem_has_voted j' s v
    \<and> bt_get (j_pending j') (frame_sequence f) = Some f"
  by (auto simp: mem_commit_vote_def mem_has_voted_def Let_def jwf_def bt_simps split: if_splits)

interpretation mem: journal jwf "\<lambda>j. j" mem_exec mem_commit_vote mem_reserve_sequence
  by unfold_locales
    (auto simp: jwf_exec mem_exec_locks mem_exec_counter mem_exec_epoch dest: mem_commit_ok,
      auto simp: mem_commit_vote_def mem_reserve_sequence_def Let_def split: if_splits)

text \<open>
  Restoring the snapshot of an in-memory journal gives the same journal back:
  epoch, seen sequences, vote locks, pending frames, counter and witnessed votes.
\<close>

theorem snapshot_roundtrip:
  assumes "jwf j"
  shows "mem_restored (mem_snapshot j) = j"
proof -
  have inv: "bt_inv (j_seen j)" "bt_inv (j_locks j)" "bt_inv (j_pending j)" "bt_inv (j_witnessed j)"
    and p: "\<And>q f. (q, f) \<in> set (j_pending j) \<Longrightarrow> frame_sequence f = q"
    using assms by (auto simp: jwf_def bt_get_mem)
  have "map (\<lambda>f. (frame_sequence f, f)) (bt_values (j_pending j)) = j_pending j"
    by (auto simp: bt_values_def comp_def p intro!: map_idI)
  moreover have "bs_collect (bt_keys (j_locks j)) = j_locks j"
  proof -
    have "map (\<lambda>k. (k, ())) (bt_keys (j_locks j)) = j_locks j"
      by (auto simp: bt_keys_def comp_def intro!: map_idI)
    then show ?thesis using bt_collect_entries [OF inv(2)] by (simp add: bs_collect_def)
  qed
  ultimately show ?thesis
    using inv by (simp add: mem_restored_def mem_snapshot_def bt_collect_entries comp_def)
qed

definition sample_journal :: JState where
  "sample_journal = mem_exec (mem_exec (mem_exec default_state (OpEpoch 7))
     (OpCommit sample_subject ''a'' (frame_new [1, 2, 3] 4))) (OpSeen 1 9)"

lemma sample_journal_wf: "jwf sample_journal"
  unfolding sample_journal_def by (intro jwf_exec jwf_default)

theorem snapshot_roundtrip_witness: "mem_restored (mem_snapshot sample_journal) = sample_journal"
  by (rule snapshot_roundtrip [OF sample_journal_wf])

end
