(* ===== verification/Lcq_Crc.thy ===== *)
theory Lcq_Crc
  imports Lcq_Prelude
begin

text \<open>
  \<open>src/infrastructure/crc.rs\<close>: the table-driven CRC-32 that guards a journal record.
  The reference \<open>crc32_bitwise\<close> shifts one bit at a time; the table is shown to
  compute the same function, and a step to be injective in the register and in the byte,
  so that a record with one altered byte never keeps its checksum.
\<close>

unbundle bit_operations_syntax

definition POLYNOMIAL :: u32 where
  "POLYNOMIAL = 0xEDB88320"

text \<open>One turn of the inner \<open>while bit < 8\<close> loop.\<close>

definition crc_bit :: "u32 \<Rightarrow> u32" where
  "crc_bit value =
     (if value AND 1 = 1 then drop_bit 1 value XOR POLYNOMIAL else drop_bit 1 value)"

definition crc_entry :: "nat \<Rightarrow> u32" where
  "crc_entry index = (crc_bit ^^ 8) (of_nat index)"

definition TABLE :: "u32 list" where
  "TABLE = map crc_entry [0..<256]"

definition crc_step :: "u32 \<Rightarrow> u8 \<Rightarrow> u32" where
  "crc_step crc byte =
     (let index = unat ((crc XOR ucast byte) AND 0xFF) in drop_bit 8 crc XOR TABLE ! index)"

definition crc32 :: "bytes \<Rightarrow> u32" where
  "crc32 bs = NOT (foldl crc_step 0xFFFFFFFF bs)"

section \<open>The bit-at-a-time reference\<close>

definition crc_byte :: "u32 \<Rightarrow> u8 \<Rightarrow> u32" where
  "crc_byte crc byte = (crc_bit ^^ 8) (crc XOR ucast byte)"

definition crc32_bitwise :: "bytes \<Rightarrow> u32" where
  "crc32_bitwise bs = NOT (foldl crc_byte 0xFFFFFFFF bs)"

lemma crc_bit_odd: "crc_bit v = drop_bit 1 v XOR (if odd v then POLYNOMIAL else 0)"
proof -
  have "v AND 1 = (if odd v then 1 else 0)"
    by (simp add: and_one_eq mod_2_eq_odd)
  then show ?thesis by (simp add: crc_bit_def)
qed

lemma xor_cancel: "a XOR (a XOR b) = b" for a b :: "'a::len word"
  by (simp add: xor.assoc [symmetric])

lemma xor_left_cancel: "a XOR b = a XOR c \<longleftrightarrow> b = c" for a b c :: "'a::len word"
  by (metis xor.assoc xor_self_eq xor.left_neutral)

lemma xor_right_cancel: "b XOR a = c XOR a \<longleftrightarrow> b = c" for a b c :: "'a::len word"
  by (simp add: xor.commute [of _ a] xor_left_cancel)

lemma crc_bit_xor: "crc_bit (a XOR b) = crc_bit a XOR crc_bit b"
proof -
  have "odd (a XOR b) \<longleftrightarrow> odd a \<noteq> odd b"
    using bit_xor_iff [of a b 0] by (simp add: bit_0)
  then show ?thesis
    by (cases "odd a"; cases "odd b") (simp_all add: crc_bit_odd ac_simps xor_cancel)
qed

lemma crc_bits_xor: "(crc_bit ^^ n) (a XOR b) = (crc_bit ^^ n) a XOR (crc_bit ^^ n) b"
  by (induction n) (simp_all add: crc_bit_xor)

lemma crc_bits_aligned:
  "(\<forall>k < n. \<not> bit v k) \<Longrightarrow> (crc_bit ^^ n) v = drop_bit n v"
proof (induction n)
  case 0
  then show ?case by simp
next
  case (Suc n)
  then have "(crc_bit ^^ n) v = drop_bit n v" by simp
  moreover have "even (drop_bit n v)"
    using Suc.prems bit_drop_bit_eq [of n v] by (simp add: even_drop_bit_iff_not_bit)
  ultimately show ?case by (simp add: crc_bit_odd [of "drop_bit n v"])
qed

lemma crc_split: "v = (v AND 0xFF) XOR push_bit 8 (drop_bit 8 v)" for v :: u32
proof -
  have ff: "(0xFF :: u32) = mask 8" by (simp add: mask_eq_exp_minus_1)
  show ?thesis
    by (rule bit_word_eqI) (auto simp: ff bit_simps)
qed

lemma crc_bits_8: "(crc_bit ^^ 8) v = (crc_bit ^^ 8) (v AND 0xFF) XOR drop_bit 8 v"
proof -
  have "(crc_bit ^^ 8) v = (crc_bit ^^ 8) (v AND 0xFF) XOR (crc_bit ^^ 8) (push_bit 8 (drop_bit 8 v))"
    by (subst crc_split [of v]) (rule crc_bits_xor)
  also have "(crc_bit ^^ 8) (push_bit 8 (drop_bit 8 v)) = drop_bit 8 (push_bit 8 (drop_bit 8 v))"
    by (rule crc_bits_aligned) (simp add: bit_simps)
  also have "\<dots> = drop_bit 8 v"
    by (rule bit_word_eqI) (auto simp: bit_simps dest: bit_imp_le_length)
  finally show ?thesis .
qed

lemma crc_step_byte: "crc_step crc byte = crc_byte crc byte"
proof -
  let ?v = "crc XOR ucast byte" and ?i = "unat ((crc XOR ucast byte) AND 0xFF)"
  have "unat (?v AND 0xFF) \<le> unat (0xFF :: u32)"
    by (rule word_and_le1 [THEN word_le_nat_alt [THEN iffD1]])
  then have i: "?i < 256" by simp
  have "TABLE ! ?i = crc_entry ?i" using i by (simp add: TABLE_def)
  then have t: "TABLE ! ?i = (crc_bit ^^ 8) (?v AND 0xFF)" by (simp add: crc_entry_def)
  have "drop_bit 8 ?v = drop_bit 8 crc"
    by (rule bit_word_eqI) (auto simp: bit_simps dest: bit_imp_le_length)
  then show ?thesis
    unfolding crc_step_def crc_byte_def Let_def t by (subst crc_bits_8 [of ?v]) (simp add: xor.commute)
qed

lemma crc_bit_inj: "crc_bit a = crc_bit b \<Longrightarrow> a = b"
proof -
  assume eq: "crc_bit a = crc_bit b"
  have top: "bit (crc_bit v) 31 \<longleftrightarrow> odd v" for v
  proof -
    have "bit POLYNOMIAL 31" by (simp add: POLYNOMIAL_def)
    moreover have "\<not> bit v 32" using bit_imp_le_length [of v 32] by auto
    ultimately show ?thesis by (simp add: crc_bit_odd bit_simps)
  qed
  then have odd: "odd a \<longleftrightarrow> odd b" using eq by metis
  then have "drop_bit 1 a = drop_bit 1 b"
    using eq by (auto simp: crc_bit_odd xor_right_cancel split: if_splits)
  then have "\<And>n. bit a (Suc n) = bit b (Suc n)"
    by (metis bit_drop_bit_eq comp_apply plus_1_eq_Suc)
  moreover have "bit a 0 = bit b 0" using odd by (simp add: bit_0)
  ultimately show "a = b"
    by (intro bit_word_eqI) (metis not0_implies_Suc)
qed

lemma crc_bits_inj: "(crc_bit ^^ n) a = (crc_bit ^^ n) b \<Longrightarrow> a = b"
  by (induction n) (auto dest: crc_bit_inj)

lemma crc_byte_inj_reg: "crc_byte c b = crc_byte d b \<Longrightarrow> c = d"
  unfolding crc_byte_def by (drule crc_bits_inj) (metis xor.commute xor_left_cancel)

lemma crc_byte_inj_byte: "crc_byte c a = crc_byte c b \<Longrightarrow> a = b"
proof -
  assume "crc_byte c a = crc_byte c b"
  then have "(ucast a :: u32) = ucast b"
    unfolding crc_byte_def by (auto dest: crc_bits_inj simp: xor_left_cancel)
  then show "a = b" by (metis unat_ucast_8_32 word_unat_eq_iff)
qed

lemma crc_fold_inj: "foldl crc_byte c bs = foldl crc_byte d bs \<Longrightarrow> c = d"
  by (induction bs arbitrary: c d) (auto dest: crc_byte_inj_reg)

lemma foldl_crc_step: "foldl crc_step c bs = foldl crc_byte c bs"
  by (induction bs arbitrary: c) (simp_all add: crc_step_byte)

lemma crc32_table: "crc32 bs = crc32_bitwise bs"
  by (simp add: crc32_def crc32_bitwise_def foldl_crc_step)

text \<open>
  The table-driven checksum is CRC-32: it equals the reference that shifts one bit
  at a time through the reflected polynomial, on every byte string.
\<close>

theorem crc32_table_correct: "crc32 bs = crc32_bitwise bs"
  by (rule crc32_table)

lemma crc_byte_unrolled:
  "crc_byte c b = crc_bit (crc_bit (crc_bit (crc_bit (crc_bit (crc_bit (crc_bit (crc_bit (c XOR ucast b))))))))"
  by (simp add: crc_byte_def eval_nat_numeral)

lemma crc32_check_value: "crc32 [49, 50, 51, 52, 53, 54, 55, 56, 57] = 0xCBF43926"
  unfolding crc32_def foldl_crc_step
  by (simp add: crc_byte_unrolled crc_bit_def POLYNOMIAL_def)

text \<open>
  An altered byte is always detected: two records of equal length that differ in
  exactly one byte have different checksums.
\<close>

theorem crc32_detects_byte_change: "a \<noteq> b \<Longrightarrow> crc32 (pre @ a # suf) \<noteq> crc32 (pre @ b # suf)"
proof
  assume ab: "a \<noteq> b" and eq: "crc32 (pre @ a # suf) = crc32 (pre @ b # suf)"
  let ?c = "foldl crc_byte 0xFFFFFFFF pre"
  have "NOT (foldl crc_byte (crc_byte ?c a) suf) = NOT (foldl crc_byte (crc_byte ?c b) suf)"
    using eq by (simp add: crc32_table crc32_bitwise_def)
  then have "foldl crc_byte (crc_byte ?c a) suf = foldl crc_byte (crc_byte ?c b) suf"
    by (metis bit.double_compl)
  then have "crc_byte ?c a = crc_byte ?c b" by (rule crc_fold_inj)
  then have "a = b" by (rule crc_byte_inj_byte)
  with ab show False by simp
qed

theorem crc32_detects_byte_change_witness: "crc32 [1, 2, 3] \<noteq> crc32 [1, 9, 3]"
  using crc32_detects_byte_change [of 2 9 "[1]" "[3]"] by simp

end
