(* ===== verification/Lcq_Log.thy ===== *)
theory Lcq_Log
  imports Lcq_Journal Lcq_Crc
begin

text \<open>
  \<open>src/infrastructure/log.rs\<close>: the append-only journal on disk, byte for byte: the
  record framing, replay, the append with its failures, compaction, and every operation
  of the \<open>Journal\<close> trait.

  The serializer (the \<open>postcard\<close> crate) is a parameter \<open>pc\<close>; what the code relies on
  is \<open>postcard_ok\<close>: decoding an encoded entry gives it back. The file system enters
  through two scripts in the journal's state: \<open>writes\<close> says how the next appends fare
  and \<open>compactions\<close> how the next compactions do; an exhausted script means success.
  \<open>IoFail n\<close> is a \<open>write_all\<close> or \<open>sync_all\<close> that fails after \<open>n\<close> bytes of the
  record have reached the file. \<open>CompactDetached\<close> is a failure after the rename, which
  leaves the handle on the replaced file.
\<close>

datatype Entry =
    EVote string u64 bytes "u64 option"
  | ESequence u64
  | ESeen u16 u64
  | EEpoch u16
  | ERetired u64
  | EWitnessed string bytes
  | ELock string
  | EFrame u64 bytes "u64 option"

record postcard =
  to_allocvec :: "Entry \<Rightarrow> bytes option"
  from_bytes :: "bytes \<Rightarrow> Entry option"

definition postcard_ok :: "postcard \<Rightarrow> bool" where
  "postcard_ok pc \<longleftrightarrow> (\<forall>e bs. to_allocvec pc e = Some bs \<longrightarrow> from_bytes pc bs = Some e)"

datatype OpenError = Io

definition MAX_RECORD_BYTES :: nat where
  "MAX_RECORD_BYTES = 64 * 1024"

definition COMPACT_THRESHOLD_BYTES :: u64 where
  "COMPACT_THRESHOLD_BYTES = 256 * 1024"

section \<open>Replaying entries into a state\<close>

definition add_frame :: "JState \<Rightarrow> u64 \<Rightarrow> bytes \<Rightarrow> u64 option \<Rightarrow> JState" where
  "add_frame st q bs expiry =
     (let frame = frame_new bs q;
          frame = (case expiry of None \<Rightarrow> frame | Some secs \<Rightarrow> expiring_at frame secs)
      in st\<lparr>j_pending := bt_insert q frame (j_pending st),
            j_next_sequence := max (j_next_sequence st) (sat_add q 1)\<rparr>)"

fun apply_entry :: "JState \<Rightarrow> Entry \<Rightarrow> JState" where
  "apply_entry st (EVote key q bs expiry) =
     add_frame (st\<lparr>j_locks := bt_insert key () (j_locks st)\<rparr>) q bs expiry"
| "apply_entry st (ELock key) = st\<lparr>j_locks := bt_insert key () (j_locks st)\<rparr>"
| "apply_entry st (EFrame q bs expiry) = add_frame st q bs expiry"
| "apply_entry st (ESequence n) = st\<lparr>j_next_sequence := max (j_next_sequence st) n\<rparr>"
| "apply_entry st (EEpoch e) =
     (let st = (if (case j_epoch st of None \<Rightarrow> True | Some held \<Rightarrow> e > held)
                then st\<lparr>j_seen := []\<rparr> else st)
      in st\<lparr>j_epoch := Some (case j_epoch st of None \<Rightarrow> e | Some held \<Rightarrow> max held e)\<rparr>)"
| "apply_entry st (ESeen sender q) =
     (let held = (case bt_get (j_seen st) sender of None \<Rightarrow> 0 | Some h \<Rightarrow> h)
      in st\<lparr>j_seen := bt_insert sender (max held q) (j_seen st)\<rparr>)"
| "apply_entry st (ERetired q) = st\<lparr>j_pending := bt_remove q (j_pending st)\<rparr>"
| "apply_entry st (EWitnessed a bs) =
     st\<lparr>j_witnessed := (case bt_get (j_witnessed st) a of
        Some _ \<Rightarrow> j_witnessed st | None \<Rightarrow> bt_insert a bs (j_witnessed st))\<rparr>"

section \<open>Records\<close>

definition encode_record :: "postcard \<Rightarrow> Entry \<Rightarrow> bytes option" where
  "encode_record pc e =
     (case to_allocvec pc e of
        None \<Rightarrow> None
      | Some payload \<Rightarrow>
          if length payload > MAX_RECORD_BYTES then None
          else if length payload \<ge> 2 ^ 32 then None
          else Some (le_bytes 4 (of_nat (length payload) :: u32) @ payload @ le_bytes 4 (crc32 payload)))"

function replay_from :: "postcard \<Rightarrow> bytes \<Rightarrow> JState \<Rightarrow> nat \<Rightarrow> JState \<times> nat" where
  "replay_from pc bs st at =
     (if at + 4 \<le> length bs then
        let len = unat (of_le_bytes (take 4 (drop at bs)) :: u32)
        in if len > MAX_RECORD_BYTES then (st, at)
           else let payload_at = at + 4; crc_at = payload_at + len
                in if crc_at + 4 > length bs then (st, at)
                   else let payload = take len (drop payload_at bs);
                            stored = (of_le_bytes (take 4 (drop crc_at bs)) :: u32)
                        in if stored \<noteq> crc32 payload then (st, at)
                           else case from_bytes pc payload of
                                  None \<Rightarrow> (st, at)
                                | Some e \<Rightarrow> replay_from pc bs (apply_entry st e) (crc_at + 4)
      else (st, at))"
  by pat_completeness auto
termination
  by (relation "measure (\<lambda>(pc, bs, st, at). length bs - at)") auto

declare replay_from.simps [simp del]

definition replay :: "postcard \<Rightarrow> bytes \<Rightarrow> JState \<times> nat" where
  "replay pc bs = replay_from pc bs default_state 0"

section \<open>The journal and its disk\<close>

datatype io = IoOk | IoFail nat

datatype compact_io = CompactOk | CompactAborted | CompactDetached

record LogJournal =
  log_file :: bytes
  detached :: bool
  log_state :: JState
  bytes_on_disk :: u64
  last_io_error :: bool
  writes :: "io list"
  compactions :: "compact_io list"

definition put :: "LogJournal \<Rightarrow> bytes \<Rightarrow> LogJournal" where
  "put j bs = (if detached j then j else j\<lparr>log_file := log_file j @ bs\<rparr>)"

definition try_append :: "postcard \<Rightarrow> LogJournal \<Rightarrow> Entry \<Rightarrow> bool \<times> LogJournal" where
  "try_append pc j e =
     (case encode_record pc e of
        None \<Rightarrow> (False, j)
      | Some rec \<Rightarrow>
          (case writes j of
             IoFail n # later \<Rightarrow> (False, put (j\<lparr>writes := later\<rparr>) (take n rec))
           | IoOk # later \<Rightarrow>
               (True, (put (j\<lparr>writes := later\<rparr>) rec)\<lparr>bytes_on_disk := bytes_on_disk j + of_nat (length rec)\<rparr>)
           | [] \<Rightarrow> (True, (put j rec)\<lparr>bytes_on_disk := bytes_on_disk j + of_nat (length rec)\<rparr>)))"

definition log_append :: "postcard \<Rightarrow> LogJournal \<Rightarrow> Entry \<Rightarrow> (JournalError, unit) result \<times> LogJournal" where
  "log_append pc j e =
     (case try_append pc j e of
        (True, j') \<Rightarrow> (Inr (), j')
      | (False, j') \<Rightarrow> (Inl NotDurable, j'\<lparr>last_io_error := True\<rparr>))"

definition compact_entries :: "JState \<Rightarrow> Entry list" where
  "compact_entries st =
     [ESequence (j_next_sequence st)]
     @ (case j_epoch st of None \<Rightarrow> [] | Some e \<Rightarrow> [EEpoch e])
     @ map (\<lambda>(sender, q). ESeen sender q) (j_seen st)
     @ map ELock (bt_keys (j_locks st))
     @ map (\<lambda>f. EFrame (frame_sequence f) (frame_bytes f) (frame_expires_at f)) (bt_values (j_pending st))
     @ map (\<lambda>(a, bs). EWitnessed a bs) (j_witnessed st)"

fun encode_all :: "postcard \<Rightarrow> Entry list \<Rightarrow> bytes option" where
  "encode_all pc [] = Some []"
| "encode_all pc (e # es) =
     (case encode_record pc e of
        None \<Rightarrow> None
      | Some rec \<Rightarrow> (case encode_all pc es of None \<Rightarrow> None | Some bs \<Rightarrow> Some (rec @ bs)))"

definition compact :: "postcard \<Rightarrow> LogJournal \<Rightarrow> bool \<times> LogJournal" where
  "compact pc j =
     (case encode_all pc (compact_entries (log_state j)) of
        None \<Rightarrow> (False, j)
      | Some fresh \<Rightarrow>
          (case compactions j of
             CompactAborted # later \<Rightarrow> (False, j\<lparr>compactions := later\<rparr>)
           | CompactDetached # later \<Rightarrow> (False, j\<lparr>compactions := later, log_file := fresh, detached := True\<rparr>)
           | CompactOk # later \<Rightarrow>
               (True, j\<lparr>compactions := later, log_file := fresh, detached := False, bytes_on_disk := of_nat (length fresh)\<rparr>)
           | [] \<Rightarrow> (True, j\<lparr>log_file := fresh, detached := False, bytes_on_disk := of_nat (length fresh)\<rparr>)))"

definition compact_if_large :: "postcard \<Rightarrow> LogJournal \<Rightarrow> LogJournal" where
  "compact_if_large pc j =
     (if bytes_on_disk j \<le> COMPACT_THRESHOLD_BYTES then j
      else case compact pc j of (True, j') \<Rightarrow> j' | (False, j') \<Rightarrow> j'\<lparr>last_io_error := True\<rparr>)"

definition log_open :: "postcard \<Rightarrow> bytes \<Rightarrow> bool \<Rightarrow> (OpenError, LogJournal) result" where
  "log_open pc bs io_ok =
     (if \<not> io_ok then Inl Io
      else case replay pc bs of (st, valid_len) \<Rightarrow>
        Inr \<lparr>log_file = take valid_len bs, detached = False, log_state = st,
             bytes_on_disk = of_nat valid_len, last_io_error = False, writes = [], compactions = []\<rparr>)"

text \<open>\<open>entropy\<close> is the value the operating system's hasher seed gives.\<close>

definition random_start :: "u64 \<Rightarrow> u64" where
  "random_start entropy =
     (let lo = 2 ^ 24; hi = 2 ^ 31 in lo + entropy mod (hi - lo))"

definition open_with_entropy ::
  "postcard \<Rightarrow> bytes \<Rightarrow> bool \<Rightarrow> u64 \<Rightarrow> (OpenError, LogJournal) result" where
  "open_with_entropy pc bs io_ok entropy =
     (case log_open pc bs io_ok of
        Inl e \<Rightarrow> Inl e
      | Inr j \<Rightarrow>
          if bytes_on_disk j = 0 \<and> j_next_sequence (log_state j) = 0
          then let start = random_start entropy
               in case try_append pc j (ESequence start) of
                    (False, _) \<Rightarrow> Inl Io
                  | (True, j') \<Rightarrow> Inr (j'\<lparr>log_state := (log_state j')\<lparr>j_next_sequence := start\<rparr>\<rparr>)
          else Inr j)"

section \<open>The operations of the trait\<close>

definition log_commit_vote ::
  "postcard \<Rightarrow> LogJournal \<Rightarrow> Subject \<Rightarrow> string \<Rightarrow> OutgoingFrame
    \<Rightarrow> (JournalError, unit) result \<times> LogJournal" where
  "log_commit_vote pc j s voter f =
     (let key = lock_key s voter
      in if bt_contains (j_locks (log_state j)) key then (Inl JAlreadyVoted, j)
         else case log_append pc j (EVote key (frame_sequence f) (frame_bytes f) (frame_expires_at f)) of
                (Inl e, j') \<Rightarrow> (Inl e, j')
              | (Inr _, j') \<Rightarrow>
                  let st = log_state j';
                      st = st\<lparr>j_locks := bt_insert key () (j_locks st)\<rparr>;
                      st = st\<lparr>j_next_sequence := max (j_next_sequence st) (sat_add (frame_sequence f) 1)\<rparr>;
                      st = st\<lparr>j_pending := bt_insert (frame_sequence f) f (j_pending st)\<rparr>
                  in (Inr (), compact_if_large pc (j'\<lparr>log_state := st\<rparr>)))"

definition log_has_voted :: "LogJournal \<Rightarrow> Subject \<Rightarrow> string \<Rightarrow> bool" where
  "log_has_voted j s voter = bt_contains (j_locks (log_state j)) (lock_key s voter)"

definition log_reserve_sequence :: "postcard \<Rightarrow> LogJournal \<Rightarrow> (JournalError, u64) result \<times> LogJournal" where
  "log_reserve_sequence pc j =
     (let reserved = j_next_sequence (log_state j); n = sat_add reserved 1
      in case log_append pc j (ESequence n) of
           (Inl e, j') \<Rightarrow> (Inl e, j')
         | (Inr _, j') \<Rightarrow>
             (Inr reserved, compact_if_large pc (j'\<lparr>log_state := (log_state j')\<lparr>j_next_sequence := n\<rparr>\<rparr>)))"

definition retire :: "postcard \<Rightarrow> LogJournal \<Rightarrow> u64 \<Rightarrow> bool \<times> LogJournal" where
  "retire pc j q =
     (case log_append pc j (ERetired q) of
        (Inl _, j') \<Rightarrow> (False, j')
      | (Inr _, j') \<Rightarrow>
          (True, j'\<lparr>log_state := (log_state j')\<lparr>j_pending := bt_remove q (j_pending (log_state j'))\<rparr>\<rparr>))"

definition log_acknowledge :: "postcard \<Rightarrow> LogJournal \<Rightarrow> u64 \<Rightarrow> bool \<times> LogJournal" where
  "log_acknowledge pc j q =
     (if \<not> bt_contains (j_pending (log_state j)) q then (False, j)
      else case retire pc j q of
             (False, j') \<Rightarrow> (False, j')
           | (True, j') \<Rightarrow> (True, compact_if_large pc j'))"

definition log_drop_expired :: "postcard \<Rightarrow> LogJournal \<Rightarrow> timestamp \<Rightarrow> LogJournal" where
  "log_drop_expired pc j now =
     (let expired = map frame_sequence (filter (frame_expired now) (bt_values (j_pending (log_state j))))
      in compact_if_large pc (foldl (\<lambda>j q. snd (retire pc j q)) j expired))"

definition log_witness ::
  "postcard \<Rightarrow> LogJournal \<Rightarrow> string \<Rightarrow> bytes \<Rightarrow> (JournalError, unit) result \<times> LogJournal" where
  "log_witness pc j a bs =
     (if bt_contains (j_witnessed (log_state j)) a then (Inr (), j)
      else case log_append pc j (EWitnessed a bs) of
             (Inl e, j') \<Rightarrow> (Inl e, j')
           | (Inr _, j') \<Rightarrow>
               (Inr (), compact_if_large pc (j'\<lparr>log_state := (log_state j')
                  \<lparr>j_witnessed := bt_insert a bs (j_witnessed (log_state j'))\<rparr>\<rparr>)))"

definition log_enter_epoch :: "postcard \<Rightarrow> LogJournal \<Rightarrow> u16 \<Rightarrow> (JournalError, unit) result \<times> LogJournal" where
  "log_enter_epoch pc j e =
     (if (case j_epoch (log_state j) of None \<Rightarrow> False | Some held \<Rightarrow> held \<ge> e) then (Inr (), j)
      else case log_append pc j (EEpoch e) of
             (Inl err, j') \<Rightarrow> (Inl err, j')
           | (Inr _, j') \<Rightarrow>
               (Inr (), compact_if_large pc (j'\<lparr>log_state := (log_state j')\<lparr>j_seen := [], j_epoch := Some e\<rparr>\<rparr>)))"

definition log_mark_seen ::
  "postcard \<Rightarrow> LogJournal \<Rightarrow> u16 \<Rightarrow> u64 \<Rightarrow> (JournalError, unit) result \<times> LogJournal" where
  "log_mark_seen pc j sender q =
     (if (case bt_get (j_seen (log_state j)) sender of None \<Rightarrow> False | Some held \<Rightarrow> held \<ge> q)
      then (Inr (), j)
      else case log_append pc j (ESeen sender q) of
             (Inl err, j') \<Rightarrow> (Inl err, j')
           | (Inr _, j') \<Rightarrow>
               (Inr (), compact_if_large pc (j'\<lparr>log_state := (log_state j')
                  \<lparr>j_seen := bt_insert sender q (j_seen (log_state j'))\<rparr>\<rparr>)))"

definition log_snapshot :: "LogJournal \<Rightarrow> JournalSnapshot" where
  "log_snapshot j = mem_snapshot (log_state j)"

fun log_exec :: "postcard \<Rightarrow> LogJournal \<Rightarrow> journal_op \<Rightarrow> LogJournal" where
  "log_exec pc j (OpCommit s v f) = snd (log_commit_vote pc j s v f)"
| "log_exec pc j OpReserve = snd (log_reserve_sequence pc j)"
| "log_exec pc j (OpAck q) = snd (log_acknowledge pc j q)"
| "log_exec pc j (OpDrop now) = log_drop_expired pc j now"
| "log_exec pc j (OpWitness a f) = snd (log_witness pc j a f)"
| "log_exec pc j (OpEpoch e) = snd (log_enter_epoch pc j e)"
| "log_exec pc j (OpSeen a q) = snd (log_mark_seen pc j a q)"

end
