(* ===== verification/Lcq_Log_Correct.thy ===== *)
theory Lcq_Log_Correct
  imports Lcq_Log
begin

text \<open>
  Correctness of the log journal: whatever the log holds replays to the live state,
  through every operation and every compaction; a torn tail is cut off and nothing else
  is; the journal refines the in-memory one and interprets the \<open>Journal\<close> trait. The last
  section shows what a partial write that is followed by a successful one loses.
\<close>

section \<open>Records replay to their entries\<close>

lemma encode_recordD:
  assumes "encode_record pc e = Some r"
  obtains payload where "to_allocvec pc e = Some payload" "length payload \<le> 65536"
    "r = le_bytes 4 (of_nat (length payload) :: u32) @ payload @ le_bytes 4 (crc32 payload)"
  using assms by (auto simp: encode_record_def MAX_RECORD_BYTES_def split: option.splits if_splits)

lemma unat_of_nat_len: "n \<le> 65536 \<Longrightarrow> unat (of_nat n :: u32) = n"
  by (simp add: unat_of_nat)

lemma replay_record:
  assumes "postcard_ok pc" and "encode_record pc e = Some r"
  shows "replay_from pc (pre @ r @ rest) st (length pre)
    = replay_from pc (pre @ r @ rest) (apply_entry st e) (length pre + length r)"
proof -
  obtain payload where p: "to_allocvec pc e = Some payload" "length payload \<le> 65536"
    and r: "r = le_bytes 4 (of_nat (length payload) :: u32) @ payload @ le_bytes 4 (crc32 payload)"
    using encode_recordD [OF assms(2)] .
  have "from_bytes pc payload = Some e" using assms(1) p(1) by (simp add: postcard_ok_def)
  then show ?thesis
    using p(2) by (subst replay_from.simps)
      (simp add: r unat_of_nat_len MAX_RECORD_BYTES_def Let_def add.assoc)
qed

lemma replay_end: "replay_from pc bs st (length bs) = (st, length bs)"
  by (simp add: replay_from.simps)

text \<open>A record cut short anywhere is not read: replay stops in front of it.\<close>

lemma replay_torn:
  assumes "encode_record pc e = Some r" and "n < length r"
  shows "replay_from pc (pre @ take n r) st (length pre) = (st, length pre)"
proof -
  obtain payload where p: "length payload \<le> 65536"
    and r: "r = le_bytes 4 (of_nat (length payload) :: u32) @ payload @ le_bytes 4 (crc32 payload)"
    using encode_recordD [OF assms(1)] .
  show ?thesis
  proof (cases "n < 4")
    case True
    then show ?thesis by (simp add: replay_from.simps)
  next
    case False
    then have t: "take 4 (take n r) = le_bytes 4 (of_nat (length payload) :: u32)"
      by (simp add: r min_def)
    have "n < 8 + length payload" using assms(2) by (simp add: r)
    with False assms(2) t show ?thesis
      by (simp add: replay_from.simps [of pc "pre @ take n r"] p unat_of_nat_len
          MAX_RECORD_BYTES_def Let_def)
  qed
qed

lemma encode_all_append:
  "encode_all pc (es @ fs) =
     (case encode_all pc es of None \<Rightarrow> None
      | Some a \<Rightarrow> (case encode_all pc fs of None \<Rightarrow> None | Some b \<Rightarrow> Some (a @ b)))"
  by (induction es) (auto split: option.splits)

lemma replay_all:
  assumes "postcard_ok pc" and "encode_all pc es = Some bs"
  shows "replay_from pc (pre @ bs @ rest) st (length pre)
    = replay_from pc (pre @ bs @ rest) (foldl apply_entry st es) (length pre + length bs)"
  using assms(2)
proof (induction es arbitrary: pre bs st)
  case Nil
  then show ?case by simp
next
  case (Cons e es)
  then obtain r cs where r: "encode_record pc e = Some r" "encode_all pc es = Some cs" "bs = r @ cs"
    by (auto split: option.splits)
  have "replay_from pc (pre @ r @ cs @ rest) st (length pre)
      = replay_from pc ((pre @ r) @ cs @ rest) (apply_entry st e) (length (pre @ r))"
    using replay_record [OF assms(1) r(1), of pre "cs @ rest" st] by simp
  also have "\<dots> = replay_from pc ((pre @ r) @ cs @ rest) (foldl apply_entry (apply_entry st e) es)
      (length (pre @ r) + length cs)"
    by (rule Cons.IH [OF r(2)])
  finally show ?case by (simp add: r(3) add.assoc)
qed

section \<open>Compaction writes what it replays to\<close>

lemma frame_rebuild:
  "(case frame_expires_at f of None \<Rightarrow> frame_new (frame_bytes f) (frame_sequence f)
      | Some t \<Rightarrow> expiring_at (frame_new (frame_bytes f) (frame_sequence f)) t) = f"
  by (cases f) (simp add: frame_new_def expiring_at_def split: option.splits)

lemma add_frame_eq:
  "add_frame st (frame_sequence f) (frame_bytes f) (frame_expires_at f) =
     st\<lparr>j_pending := bt_insert (frame_sequence f) f (j_pending st),
        j_next_sequence := max (j_next_sequence st) (sat_add (frame_sequence f) 1)\<rparr>"
  by (simp add: add_frame_def frame_rebuild)

lemma jwf_apply: "jwf st \<Longrightarrow> jwf (apply_entry st e)"
proof -
  have fr: "jwf (add_frame st q bs x)" if "jwf st" for st q bs x
    using that by (auto simp: add_frame_def Let_def jwf_def bt_simps frame_new_def expiring_at_def
        le_max_iff_disj split: option.splits)
  assume "jwf st"
  then show ?thesis
  proof (cases e)
    case (EVote key q bs x)
    have "jwf (st\<lparr>j_locks := bt_insert key () (j_locks st)\<rparr>)"
      using \<open>jwf st\<close> by (simp add: jwf_def)
    with EVote show ?thesis by (simp add: fr)
  next
    case (EFrame q bs x)
    then show ?thesis using \<open>jwf st\<close> by (simp add: fr)
  qed (auto simp: jwf_def bt_simps Let_def le_max_iff_disj split: option.splits if_splits)
qed

lemma fold_seen:
  "distinct (map fst es) \<Longrightarrow> fst ` set es \<inter> fst ` set (j_seen st) = {} \<Longrightarrow>
     foldl apply_entry st (map (\<lambda>(a, q). ESeen a q) es)
       = st\<lparr>j_seen := fold (\<lambda>(k, v) m. bt_insert k v m) es (j_seen st)\<rparr>"
proof (induction es arbitrary: st)
  case Nil
  then show ?case by simp
next
  case (Cons e es)
  obtain a q where e: "e = (a, q)" by (cases e)
  have "bt_get (j_seen st) a = None"
    using Cons.prems e by (auto simp: bt_get_None)
  then have "apply_entry st (ESeen a q) = st\<lparr>j_seen := bt_insert a q (j_seen st)\<rparr>" by simp
  then show ?case
    using Cons.IH [of "st\<lparr>j_seen := bt_insert a q (j_seen st)\<rparr>"] Cons.prems e
    by (auto simp: set_keys_bt_insert [unfolded set_map])
qed

lemma fold_locks:
  "foldl apply_entry st (map ELock ks)
     = st\<lparr>j_locks := fold (\<lambda>(k, v) m. bt_insert k v m) (map (\<lambda>k. (k, ())) ks) (j_locks st)\<rparr>"
  by (induction ks arbitrary: st) simp_all

lemma fold_frames:
  "(\<forall>f \<in> set fs. sat_add (frame_sequence f) 1 \<le> j_next_sequence st) \<Longrightarrow>
     foldl apply_entry st (map (\<lambda>f. EFrame (frame_sequence f) (frame_bytes f) (frame_expires_at f)) fs)
       = st\<lparr>j_pending := fold (\<lambda>(k, v) m. bt_insert k v m) (map (\<lambda>f. (frame_sequence f, f)) fs) (j_pending st)\<rparr>"
  by (induction fs arbitrary: st) (simp_all add: add_frame_eq max_absorb1)

lemma fold_witnessed:
  "distinct (map fst es) \<Longrightarrow> fst ` set es \<inter> fst ` set (j_witnessed st) = {} \<Longrightarrow>
     foldl apply_entry st (map (\<lambda>(a, bs). EWitnessed a bs) es)
       = st\<lparr>j_witnessed := fold (\<lambda>(k, v) m. bt_insert k v m) es (j_witnessed st)\<rparr>"
proof (induction es arbitrary: st)
  case Nil
  then show ?case by simp
next
  case (Cons e es)
  obtain a bs where e: "e = (a, bs)" by (cases e)
  have "bt_get (j_witnessed st) a = None"
    using Cons.prems e by (auto simp: bt_get_None)
  then have "apply_entry st (EWitnessed a bs) = st\<lparr>j_witnessed := bt_insert a bs (j_witnessed st)\<rparr>" by simp
  then show ?case
    using Cons.IH [of "st\<lparr>j_witnessed := bt_insert a bs (j_witnessed st)\<rparr>"] Cons.prems e
    by (auto simp: set_keys_bt_insert [unfolded set_map])
qed

lemma compact_entries_replay:
  assumes "jwf st"
  shows "foldl apply_entry default_state (compact_entries st) = st"
proof -
  have inv: "bt_inv (j_seen st)" "bt_inv (j_locks st)" "bt_inv (j_pending st)" "bt_inv (j_witnessed st)"
    and p: "\<And>q f. (q, f) \<in> set (j_pending st) \<Longrightarrow> frame_sequence f = q \<and> sat_add q 1 \<le> j_next_sequence st"
    using assms by (auto simp: jwf_def bt_get_mem)
  have pend: "map (\<lambda>f. (frame_sequence f, f)) (bt_values (j_pending st)) = j_pending st"
    using p by (auto simp: bt_values_def comp_def intro!: map_idI)
  have keys: "map (\<lambda>k. (k, ())) (bt_keys (j_locks st)) = j_locks st"
    by (auto simp: bt_keys_def comp_def intro!: map_idI)
  have bound: "\<forall>f \<in> set (bt_values (j_pending st)). sat_add (frame_sequence f) 1 \<le> j_next_sequence st"
    using p by (auto simp: bt_values_def)
  have c: "fold (\<lambda>(k, v) m. bt_insert k v m) m [] = m" if "bt_inv m" for m :: "('k::linorder, 'v) btree"
    using bt_collect_entries [OF that] by (simp add: bt_collect_def)
  have head: "foldl apply_entry default_state ([ESequence (j_next_sequence st)]
      @ (case j_epoch st of None \<Rightarrow> [] | Some e \<Rightarrow> [EEpoch e]))
      = default_state\<lparr>j_next_sequence := j_next_sequence st, j_epoch := j_epoch st\<rparr>"
    by (simp add: default_state_def split: option.splits)
  show ?thesis
    unfolding compact_entries_def append_assoc [symmetric]
    by (simp add: head [simplified] fold_seen fold_locks fold_frames fold_witnessed bound pend keys c inv
        bt_inv_distinct default_state_def split: option.splits)
qed

section \<open>The file holds the live state\<close>

text \<open>The record at an offset, if there is a whole one, and where the next begins.\<close>

definition next_record :: "postcard \<Rightarrow> bytes \<Rightarrow> nat \<Rightarrow> (Entry \<times> nat) option" where
  "next_record pc bs at =
     (let len = unat (of_le_bytes (take 4 (drop at bs)) :: u32);
          payload = take len (drop (at + 4) bs)
      in if at + 4 \<le> length bs \<and> len \<le> MAX_RECORD_BYTES \<and> at + 4 + len + 4 \<le> length bs
            \<and> (of_le_bytes (take 4 (drop (at + 4 + len) bs)) :: u32) = crc32 payload
         then map_option (\<lambda>e. (e, at + 4 + len + 4)) (from_bytes pc payload) else None)"

lemma replay_step:
  "replay_from pc bs st at =
     (case next_record pc bs at of None \<Rightarrow> (st, at) | Some (e, at') \<Rightarrow> replay_from pc bs (apply_entry st e) at')"
  by (subst replay_from.simps) (simp add: next_record_def Let_def not_less split: option.splits)

lemma next_record_bounds: "next_record pc bs at = Some (e, at') \<Longrightarrow> at < at' \<and> at' \<le> length bs"
  by (auto simp: next_record_def Let_def split: if_splits)

lemma slice_append: "i + k \<le> length xs \<Longrightarrow> take k (drop i (xs @ ys)) = take k (drop i xs)"
  by simp

lemma slice_take: "i + k \<le> v \<Longrightarrow> take k (drop i (take v xs)) = take k (drop i xs)"
  by (simp add: drop_take take_take min_def)

text \<open>A whole record is read the same from any buffer that agrees up to its end.\<close>

lemma next_record_agree:
  assumes "next_record pc bs at = Some (e, at')" and "at' \<le> length cs"
    and agree: "\<And>i k. i + k \<le> at' \<Longrightarrow> take k (drop i cs) = take k (drop i bs)"
  shows "next_record pc cs at = Some (e, at')"
proof -
  define len where "len = unat (of_le_bytes (take 4 (drop at bs)) :: u32)"
  have l: "at' = at + 4 + len + 4"
    using assms(1) unfolding next_record_def len_def Let_def by (auto split: if_splits)
  have "take 4 (drop at cs) = take 4 (drop at bs)"
      "take len (drop (at + 4) cs) = take len (drop (at + 4) bs)"
      "take 4 (drop (at + 4 + len) cs) = take 4 (drop (at + 4 + len) bs)"
    by (rule agree, simp add: l)+
  then show ?thesis
    using assms(1,2) l unfolding next_record_def len_def [symmetric] Let_def
    by (simp add: len_def split: if_splits)
qed

lemma next_record_append:
  "next_record pc bs at = Some (e, at') \<Longrightarrow> next_record pc (bs @ rest) at = Some (e, at')"
  by (frule next_record_bounds, erule next_record_agree) (simp, rule slice_append, simp)

lemma next_record_take:
  "next_record pc bs at = Some (e, at') \<Longrightarrow> at' \<le> v \<Longrightarrow> next_record pc (take v bs) at = Some (e, at')"
  by (frule next_record_bounds, erule next_record_agree) (simp, rule slice_take, simp)

lemma replay_induct [case_names step]:
  assumes "\<And>st at. (\<And>e at'. next_record pc bs at = Some (e, at') \<Longrightarrow> P (apply_entry st e) at') \<Longrightarrow> P st at"
  shows "P st at"
proof (induction "length bs - at" arbitrary: st at rule: less_induct)
  case less
  show ?case
  proof (rule assms)
    fix e at' assume n: "next_record pc bs at = Some (e, at')"
    show "P (apply_entry st e) at'"
      by (rule less) (use next_record_bounds [OF n] in linarith)
  qed
qed

lemma replay_bounds:
  "replay_from pc bs st at = (st', v) \<Longrightarrow> at \<le> length bs \<Longrightarrow> at \<le> v \<and> v \<le> length bs"
proof (induction st at rule: replay_induct [of pc bs])
  case (step st at)
  then show ?case
    by (auto simp: replay_step [of pc bs st at] split: option.splits dest: next_record_bounds)
qed

text \<open>What has been read whole does not depend on what follows it, and reading it again
  gives the same.\<close>

lemma replay_extends:
  "replay_from pc bs st at = (st', v) \<Longrightarrow> replay_from pc (bs @ rest) st at = replay_from pc (bs @ rest) st' v"
proof (induction st at rule: replay_induct [of pc bs])
  case (step st at)
  show ?case
  proof (cases "next_record pc bs at")
    case None
    then show ?thesis using step.prems by (simp add: replay_step [of pc bs st at])
  next
    case (Some r)
    obtain e at' where r: "r = (e, at')" by (cases r)
    have "replay_from pc (bs @ rest) st at = replay_from pc (bs @ rest) (apply_entry st e) at'"
      using next_record_append Some r by (simp add: replay_step [of pc "bs @ rest" st at])
    also have "\<dots> = replay_from pc (bs @ rest) st' v"
      by (rule step.IH) (use Some r step.prems in \<open>simp_all add: replay_step [of pc bs st at]\<close>)
    finally show ?thesis .
  qed
qed

lemmas replay_prefix = replay_extends [where v = "length bs" and bs = bs for bs]

lemma replay_take:
  "replay_from pc bs st at = (st', v) \<Longrightarrow> at \<le> length bs \<Longrightarrow> replay_from pc (take v bs) st at = (st', v)"
proof (induction st at rule: replay_induct [of pc bs])
  case (step st at)
  show ?case
  proof (cases "next_record pc bs at")
    case None
    then have "v = at" "st' = st" using step.prems by (simp_all add: replay_step [of pc bs st at])
    then show ?thesis using replay_end [of pc "take at bs" st] step.prems by simp
  next
    case (Some r)
    obtain e at' where r: "r = (e, at')" by (cases r)
    have nx: "next_record pc bs at = Some (e, at')" using Some r by simp
    have go: "replay_from pc bs (apply_entry st e) at' = (st', v)"
      using step.prems nx by (simp add: replay_step [of pc bs st at])
    have b: "at' \<le> length bs" using next_record_bounds [OF nx] by simp
    have "at' \<le> v" using replay_bounds [OF go b] by simp
    then have "replay_from pc (take v bs) st at = replay_from pc (take v bs) (apply_entry st e) at'"
      using next_record_take [OF nx] by (simp add: replay_step [of pc "take v bs" st at])
    then show ?thesis using step.IH [OF nx go b] by simp
  qed
qed

lemma replay_jwf: "replay_from pc bs st at = (st', v) \<Longrightarrow> jwf st \<Longrightarrow> jwf st'"
proof (induction st at rule: replay_induct [of pc bs])
  case (step st at)
  then show ?case
    by (auto simp: replay_step [of pc bs st at] jwf_apply split: option.splits)
qed

definition file_holds :: "postcard \<Rightarrow> LogJournal \<Rightarrow> JState \<Rightarrow> bool" where
  "file_holds pc j st \<longleftrightarrow> \<not> detached j \<and> replay pc (log_file j) = (st, length (log_file j))"

definition log_ok :: "postcard \<Rightarrow> LogJournal \<Rightarrow> bool" where
  "log_ok pc j \<longleftrightarrow> file_holds pc j (log_state j) \<and> jwf (log_state j)"

text \<open>
  No partial writes ahead: an append either succeeds or fails before its first byte
  reaches the file, and no compaction fails between its rename and its reopen.
\<close>

definition no_torn_writes :: "LogJournal \<Rightarrow> bool" where
  "no_torn_writes j \<longleftrightarrow> set (writes j) \<subseteq> {IoOk, IoFail 0} \<and> CompactDetached \<notin> set (compactions j)"

lemma replay_encode_all:
  "postcard_ok pc \<Longrightarrow> encode_all pc es = Some bs \<Longrightarrow> replay pc bs = (foldl apply_entry default_state es, length bs)"
  using replay_all [of pc es bs "[]" "[]" default_state] replay_end [of pc bs] by (simp add: replay_def)

lemma append_state: "log_append pc j e = (r, j') \<Longrightarrow> log_state j' = log_state j"
  by (auto simp: log_append_def try_append_def put_def split: option.splits list.splits io.splits if_splits)

lemma replay_more:
  assumes "postcard_ok pc" and "replay pc bs = (st, length bs)" and "encode_record pc e = Some r"
  shows "replay pc (bs @ r) = (apply_entry st e, length (bs @ r))"
proof -
  have "replay pc (bs @ r) = replay_from pc (bs @ r) st (length bs)"
    using assms(2) unfolding replay_def by (rule replay_prefix)
  also have "\<dots> = replay_from pc (bs @ r) (apply_entry st e) (length (bs @ r))"
    using replay_record [OF assms(1,3), of bs "[]" st] by simp
  finally show ?thesis using replay_end [of pc "bs @ r" "apply_entry st e"] by simp
qed

lemma append_ok:
  assumes "postcard_ok pc" and "log_append pc j e = (Inr u, j')" and "file_holds pc j st"
  shows "file_holds pc j' (apply_entry st e)"
proof -
  from assms(3) have d: "\<not> detached j" by (simp add: file_holds_def)
  from assms(2) d obtain r where "encode_record pc e = Some r" "log_file j' = log_file j @ r" "\<not> detached j'"
    by (auto simp: log_append_def try_append_def put_def split: option.splits list.splits io.splits)
  then show ?thesis using replay_more [OF assms(1)] assms(3) by (simp add: file_holds_def)
qed

lemma append_err:
  "log_append pc j e = (Inl x, j') \<Longrightarrow> file_holds pc j st \<Longrightarrow> no_torn_writes j \<Longrightarrow> file_holds pc j' st"
  by (auto simp: log_append_def try_append_def put_def file_holds_def no_torn_writes_def
      split: option.splits list.splits io.splits)

lemma append_quiet: "log_append pc j e = (r, j') \<Longrightarrow> no_torn_writes j \<Longrightarrow> no_torn_writes j'"
  by (auto simp: log_append_def try_append_def put_def no_torn_writes_def
      split: option.splits list.splits io.splits if_splits)

lemma append_err_NotDurable: "log_append pc j e = (Inl x, j') \<Longrightarrow> x = NotDurable"
  by (auto simp: log_append_def split: prod.splits bool.splits)

lemma compact_state [simp]: "log_state (compact_if_large pc j) = log_state j"
  by (auto simp: compact_if_large_def compact_def split: option.splits list.splits compact_io.splits)

lemma compact_quiet: "no_torn_writes j \<Longrightarrow> no_torn_writes (compact_if_large pc j)"
  by (auto simp: compact_if_large_def compact_def no_torn_writes_def
      split: option.splits list.splits compact_io.splits)

lemma compact_holds:
  "postcard_ok pc \<Longrightarrow> log_ok pc j \<Longrightarrow> no_torn_writes j \<Longrightarrow> log_ok pc (compact_if_large pc j)"
  using compact_entries_replay [of "log_state j"]
    replay_encode_all [of pc "compact_entries (log_state j)"]
  by (auto simp: compact_if_large_def compact_def no_torn_writes_def log_ok_def file_holds_def
      split: option.splits list.splits compact_io.splits)

lemma quiet_update [simp]: "no_torn_writes (j\<lparr>log_state := st\<rparr>) = no_torn_writes j"
  by (simp add: no_torn_writes_def)

lemma file_holds_update [simp]: "file_holds pc (j\<lparr>log_state := st\<rparr>) s = file_holds pc j s"
  by (simp add: file_holds_def)

text \<open>The shape every mutator has: append, then the same change in memory, then maybe compact.\<close>

lemma settle:
  assumes "postcard_ok pc" and "log_append pc j e = (Inr u, j')" and "log_ok pc j" and "no_torn_writes j"
    and "st = apply_entry (log_state j) e"
  shows "log_ok pc (j'\<lparr>log_state := st\<rparr>) \<and> no_torn_writes j'
    \<and> log_ok pc (compact_if_large pc (j'\<lparr>log_state := st\<rparr>))
    \<and> no_torn_writes (compact_if_large pc (j'\<lparr>log_state := st\<rparr>))"
proof -
  have "file_holds pc j' st" and "jwf st"
    using append_ok [OF assms(1,2)] assms(3,5) by (auto simp: log_ok_def jwf_apply)
  then have "log_ok pc (j'\<lparr>log_state := st\<rparr>)" by (simp add: log_ok_def)
  then show ?thesis
    using append_quiet [OF assms(2,4)] by (simp add: compact_holds [OF assms(1)] compact_quiet)
qed

lemma refuse:
  assumes "log_append pc j e = (Inl x, j')" and "log_ok pc j" and "no_torn_writes j"
  shows "log_ok pc j' \<and> no_torn_writes j'"
  using append_err [OF assms(1)] append_quiet [OF assms(1)] append_state [OF assms(1)] assms(2,3)
  by (auto simp: log_ok_def)

lemma open_ok:
  assumes "log_open pc bs True = Inr j"
  shows "log_ok pc j \<and> no_torn_writes j"
proof -
  obtain st v where r: "replay pc bs = (st, v)" by (cases "replay pc bs")
  have "replay_from pc (take v bs) default_state 0 = (st, v)" "v \<le> length bs"
    using replay_take [of pc bs default_state 0 st v] replay_bounds [of pc bs default_state 0 st v] r
    by (auto simp: replay_def)
  then show ?thesis
    using assms r replay_jwf [of pc bs default_state 0 st v]
    by (auto simp: log_open_def log_ok_def file_holds_def no_torn_writes_def replay_def)
qed

section \<open>Every operation keeps the file and the state together\<close>

lemma commit_shape:
  "log_state j\<lparr>j_locks := bt_insert k () (j_locks (log_state j)),
      j_next_sequence := max (j_next_sequence (log_state j)) (sat_add (frame_sequence f) 1),
      j_pending := bt_insert (frame_sequence f) f (j_pending (log_state j))\<rparr>
    = apply_entry (log_state j) (EVote k (frame_sequence f) (frame_bytes f) (frame_expires_at f))"
  by (simp add: add_frame_eq)

lemma epoch_shape:
  "\<not> (case j_epoch st of None \<Rightarrow> False | Some held \<Rightarrow> held \<ge> e) \<Longrightarrow>
     st\<lparr>j_seen := [], j_epoch := Some e\<rparr> = apply_entry st (EEpoch e)"
  by (auto simp: not_le max_def split: option.splits)

lemma seen_shape:
  "\<not> (case bt_get (j_seen st) a of None \<Rightarrow> False | Some held \<Rightarrow> held \<ge> q) \<Longrightarrow>
     st\<lparr>j_seen := bt_insert a q (j_seen st)\<rparr> = apply_entry st (ESeen a q)"
  by (auto simp: not_le max_def split: option.splits)

lemma witness_shape:
  "\<not> bt_contains (j_witnessed st) a \<Longrightarrow>
     st\<lparr>j_witnessed := bt_insert a bs (j_witnessed st)\<rparr> = apply_entry st (EWitnessed a bs)"
  by (auto simp: bt_contains_get)

lemma reserve_shape:
  "st\<lparr>j_next_sequence := sat_add (j_next_sequence st) 1\<rparr> = apply_entry st (ESequence (sat_add (j_next_sequence st) 1))"
  by (simp add: max_absorb2 sat_add_ge)

section \<open>What no disk can undo\<close>

text \<open>
  A fact about the state that no entry takes back, such as a lock that is held. Once the
  file replays to a state with it, nothing that is ever appended changes that, torn or
  whole, and no compaction does, wherever it fails.
\<close>

definition persistent :: "(JState \<Rightarrow> bool) \<Rightarrow> bool" where
  "persistent P = (\<forall>st e. jwf st \<longrightarrow> P st \<longrightarrow> P (apply_entry st e))"

definition on_both :: "postcard \<Rightarrow> (JState \<Rightarrow> bool) \<Rightarrow> LogJournal \<Rightarrow> bool" where
  "on_both pc P j = (jwf (log_state j) \<and> P (log_state j) \<and> P (fst (replay pc (log_file j))))"

lemma default_jwf: "jwf default_state"
  by (simp add: jwf_def default_state_def)

lemma replay_persists: "persistent P \<Longrightarrow> jwf st \<Longrightarrow> P st \<Longrightarrow> P (fst (replay_from pc bs st at))"
proof (induction st at rule: replay_induct [of pc bs])
  case (step st at)
  then show ?case
    by (auto simp: replay_step [of pc bs st at] persistent_def jwf_apply split: option.splits)
qed

lemma file_persists:
  assumes "persistent P" and "P (fst (replay pc bs))"
  shows "P (fst (replay pc (bs @ rest)))"
proof -
  obtain st v where r: "replay pc bs = (st, v)" by fastforce
  have "jwf st" using replay_jwf r default_jwf unfolding replay_def by blast
  moreover have "replay pc (bs @ rest) = replay_from pc (bs @ rest) st v"
    using r unfolding replay_def by (rule replay_extends)
  ultimately show ?thesis using replay_persists [OF assms(1)] assms(2) r by simp
qed

lemma append_file: "log_append pc j e = (r, j') \<Longrightarrow> \<exists>rest. log_file j' = log_file j @ rest"
  by (auto simp: log_append_def try_append_def put_def split: option.splits list.splits io.splits if_splits)

lemma both_append:
  assumes "persistent P" and "on_both pc P j" and "log_append pc j e = (r, j')"
  shows "on_both pc P j'" and "on_both pc P (j'\<lparr>log_state := apply_entry (log_state j) e\<rparr>)"
proof -
  obtain rest where "log_file j' = log_file j @ rest" using append_file [OF assms(3)] by blast
  then have "P (fst (replay pc (log_file j')))"
    using file_persists [OF assms(1)] assms(2) by (simp add: on_both_def)
  then show "on_both pc P j'" "on_both pc P (j'\<lparr>log_state := apply_entry (log_state j) e\<rparr>)"
    using assms(1,2) append_state [OF assms(3)] by (auto simp: on_both_def persistent_def jwf_apply)
qed

lemma both_compact: "postcard_ok pc \<Longrightarrow> on_both pc P j \<Longrightarrow> on_both pc P (compact_if_large pc j)"
  using compact_entries_replay [of "log_state j"] replay_encode_all [of pc "compact_entries (log_state j)"]
  by (auto simp: compact_if_large_def compact_def on_both_def split: option.splits list.splits compact_io.splits)

section \<open>Steps\<close>

text \<open>
  What a step of the journal is: nothing, or one entry appended and applied. The
  predicate carries the state and the file through every operation: together as long as
  no write is torn, and what is persistent in both whatever the disk does.
\<close>

definition log_step :: "postcard \<Rightarrow> LogJournal \<Rightarrow> LogJournal \<Rightarrow> bool" where
  "log_step pc j j' \<longleftrightarrow>
     (\<exists>es. log_state j' = foldl apply_entry (log_state j) es)
     \<and> (postcard_ok pc \<longrightarrow> log_ok pc j \<longrightarrow> no_torn_writes j \<longrightarrow> log_ok pc j' \<and> no_torn_writes j')
     \<and> (\<forall>P. postcard_ok pc \<longrightarrow> persistent P \<longrightarrow> on_both pc P j \<longrightarrow> on_both pc P j')"

lemma log_step_refl: "log_step pc j j"
  by (auto simp: log_step_def intro: exI [of _ "[]"])

lemma log_step_trans:
  assumes "log_step pc j j1" and "log_step pc j1 j2"
  shows "log_step pc j j2"
proof -
  obtain es fs where "log_state j1 = foldl apply_entry (log_state j) es"
      "log_state j2 = foldl apply_entry (log_state j1) fs"
    using assms by (auto simp: log_step_def)
  then have "log_state j2 = foldl apply_entry (log_state j) (es @ fs)" by simp
  then show ?thesis using assms unfolding log_step_def by blast
qed

lemma log_step_refuse: "log_append pc j e = (Inl x, j') \<Longrightarrow> log_step pc j j'"
  using append_state [of pc j e "Inl x" j'] refuse [of pc j e x j'] both_append(1) [of _ pc j e "Inl x" j']
  by (auto simp: log_step_def intro: exI [of _ "[]"])

lemma log_step_entry:
  assumes "log_append pc j e = (Inr u, j')" and "st = apply_entry (log_state j) e"
  shows "log_step pc j (j'\<lparr>log_state := st\<rparr>)"
  using settle [OF _ assms(1)] assms(2) both_append(2) [OF _ _ assms(1)]
  by (auto simp: log_step_def intro: exI [of _ "[e]"])

lemma log_step_compact: "log_step pc j (compact_if_large pc j)"
  by (auto simp: log_step_def compact_holds compact_quiet both_compact intro: exI [of _ "[]"])

lemmas log_step_settle = log_step_trans [OF log_step_entry log_step_compact]

lemma step_commit: "log_step pc j (snd (log_commit_vote pc j s v f))"
proof (cases "log_append pc j (EVote (lock_key s v) (frame_sequence f) (frame_bytes f) (frame_expires_at f))")
  case (Pair r j')
  show ?thesis
  proof (cases r)
    case (Inl x)
    then show ?thesis
      using log_step_refuse [of pc j _ x j'] Pair by (simp add: log_commit_vote_def Let_def log_step_refl)
  next
    case (Inr u)
    then have a: "log_append pc j (EVote (lock_key s v) (frame_sequence f) (frame_bytes f) (frame_expires_at f)) = (Inr u, j')"
      using Pair by simp
    have "log_step pc j (compact_if_large pc (j'\<lparr>log_state := log_state j'\<lparr>j_locks := bt_insert (lock_key s v) () (j_locks (log_state j')),
        j_next_sequence := max (j_next_sequence (log_state j')) (sat_add (frame_sequence f) 1),
        j_pending := bt_insert (frame_sequence f) f (j_pending (log_state j'))\<rparr>\<rparr>))"
      by (rule log_step_settle [OF a]) (simp only: commit_shape append_state [OF a])
    then show ?thesis using a by (simp add: log_commit_vote_def Let_def log_step_refl)
  qed
qed

lemma step_reserve: "log_step pc j (snd (log_reserve_sequence pc j))"
proof (cases "log_append pc j (ESequence (sat_add (j_next_sequence (log_state j)) 1))")
  case (Pair r j')
  show ?thesis
  proof (cases r)
    case (Inl x)
    then show ?thesis using log_step_refuse [of pc j _ x j'] Pair by (simp add: log_reserve_sequence_def Let_def)
  next
    case (Inr u)
    with Pair have a: "log_append pc j (ESequence (sat_add (j_next_sequence (log_state j)) 1)) = (Inr u, j')" by simp
    from log_step_settle [OF a] show ?thesis
      using a append_state [OF a] reserve_shape [of "log_state j"]
      by (simp add: log_reserve_sequence_def Let_def)
  qed
qed

lemma step_retire: "log_step pc j (snd (retire pc j q))"
proof (cases "log_append pc j (ERetired q)")
  case (Pair r j')
  show ?thesis
  proof (cases r)
    case (Inl x)
    then show ?thesis using log_step_refuse [of pc j _ x j'] Pair by (simp add: retire_def)
  next
    case (Inr u)
    with Pair have a: "log_append pc j (ERetired q) = (Inr u, j')" by simp
    from log_step_entry [OF a] show ?thesis
      using a append_state [OF a] by (simp add: retire_def)
  qed
qed

lemma step_acknowledge: "log_step pc j (snd (log_acknowledge pc j q))"
  using step_retire [of pc j q] log_step_trans [OF step_retire log_step_compact, of pc j q]
  by (auto simp: log_acknowledge_def log_step_refl split: prod.splits bool.splits)

lemma step_retire_all: "log_step pc j (foldl (\<lambda>j q. snd (retire pc j q)) j qs)"
  by (induction qs arbitrary: j) (auto intro: log_step_refl log_step_trans step_retire)

lemma step_witness: "log_step pc j (snd (log_witness pc j a bs))"
proof (cases "log_append pc j (EWitnessed a bs)")
  case (Pair r j')
  show ?thesis
  proof (cases r)
    case (Inl x)
    then show ?thesis using log_step_refuse [of pc j _ x j'] Pair by (simp add: log_witness_def log_step_refl)
  next
    case (Inr u)
    with Pair have ap: "log_append pc j (EWitnessed a bs) = (Inr u, j')" by simp
    from log_step_settle [OF ap] show ?thesis
      using ap append_state [OF ap] witness_shape [of "log_state j" a bs]
      by (simp add: log_witness_def log_step_refl)
  qed
qed

lemma step_enter_epoch: "log_step pc j (snd (log_enter_epoch pc j e))"
proof (cases "log_append pc j (EEpoch e)")
  case (Pair r j')
  show ?thesis
  proof (cases r)
    case (Inl x)
    then show ?thesis using log_step_refuse [of pc j _ x j'] Pair by (simp add: log_enter_epoch_def log_step_refl)
  next
    case (Inr u)
    with Pair have ap: "log_append pc j (EEpoch e) = (Inr u, j')" by simp
    from log_step_settle [OF ap] show ?thesis
      using ap append_state [OF ap] epoch_shape [where st = "log_state j" and e = e]
      by (simp add: log_enter_epoch_def log_step_refl del: apply_entry.simps)
  qed
qed

lemma step_mark_seen: "log_step pc j (snd (log_mark_seen pc j a q))"
proof (cases "log_append pc j (ESeen a q)")
  case (Pair r j')
  show ?thesis
  proof (cases r)
    case (Inl x)
    then show ?thesis using log_step_refuse [of pc j _ x j'] Pair by (simp add: log_mark_seen_def log_step_refl)
  next
    case (Inr u)
    with Pair have ap: "log_append pc j (ESeen a q) = (Inr u, j')" by simp
    from log_step_settle [OF ap] show ?thesis
      using ap append_state [OF ap] seen_shape [where st = "log_state j" and a = a and q = q]
      by (simp add: log_mark_seen_def log_step_refl del: apply_entry.simps)
  qed
qed

lemma step_exec: "log_step pc j (log_exec pc j x)"
  by (cases x) (simp_all add: step_commit step_reserve step_acknowledge step_witness step_enter_epoch
      step_mark_seen log_drop_expired_def Let_def log_step_trans [OF step_retire_all log_step_compact])

end
