(* ===== verification/Lcq_Log_Safety.thy ===== *)
theory Lcq_Log_Safety
  imports Lcq_Log_Correct
begin

text \<open>
  What a node may rely on across restarts. The log journal interprets the \<open>Journal\<close>
  trait and refines the in-memory journal. \<open>life\<close> is any sequence of calls, power cuts and
  changes of what the disk does, torn appends and detached compactions included;
  \<open>whole_life\<close> is one in which an append that fails leaves nothing of its record behind
  and no compaction fails after its rename. In a whole life the file always replays to the
  state in memory. What was written in a whole life (a vote lock, a sequence) then
  outlasts every life. The last section shows why the first must be whole: behind a torn
  append a vote is accepted and lost.
\<close>

section \<open>Locks, counter and epoch only move forward\<close>

lemma apply_locks: "jwf st \<Longrightarrow> bt_contains (j_locks st) k \<Longrightarrow> bt_contains (j_locks (apply_entry st e)) k"
  by (cases e) (auto simp: add_frame_def Let_def jwf_def bt_simps)

lemma apply_counter: "j_next_sequence st \<le> j_next_sequence (apply_entry st e)"
  by (cases e) (auto simp: add_frame_def Let_def)

lemma apply_epoch: "j_epoch st = Some x \<Longrightarrow> \<exists>y. j_epoch (apply_entry st e) = Some y \<and> x \<le> y"
  by (cases e) (auto simp: add_frame_def Let_def)

lemma fold_jwf: "jwf st \<Longrightarrow> jwf (foldl apply_entry st es)"
  by (induction es arbitrary: st) (simp_all add: jwf_apply)

lemma fold_locks_kept:
  "jwf st \<Longrightarrow> bt_contains (j_locks st) k \<Longrightarrow> bt_contains (j_locks (foldl apply_entry st es)) k"
  by (induction es arbitrary: st) (simp_all add: jwf_apply apply_locks)

lemma fold_counter: "j_next_sequence st \<le> j_next_sequence (foldl apply_entry st es)"
  by (induction es arbitrary: st) (auto intro: order_trans [OF apply_counter])

lemma fold_epoch: "j_epoch st = Some x \<Longrightarrow> \<exists>y. j_epoch (foldl apply_entry st es) = Some y \<and> x \<le> y"
proof (induction es arbitrary: st x)
  case (Cons e es)
  obtain y where y: "j_epoch (apply_entry st e) = Some y" "x \<le> y"
    using apply_epoch [OF Cons.prems] by blast
  then show ?case using Cons.IH [OF y(1)] by (auto intro: order_trans)
qed simp

lemma step_state:
  assumes "log_step pc j j'"
  obtains es where "log_state j' = foldl apply_entry (log_state j) es"
  using assms by (auto simp: log_step_def)

section \<open>Refinement of the in-memory journal\<close>

lemma append_cases:
  assumes "log_append pc j e = (r, j')"
  obtains "r = Inl NotDurable" "log_state j' = log_state j" | "r = Inr ()" "log_state j' = log_state j"
  using assms append_state [OF assms] append_err_NotDurable [of pc j e] by (cases r) auto

text \<open>A call either refuses for want of durability and changes nothing, or does what memory does.\<close>

fun agrees :: "JState \<Rightarrow> (JournalError, 'a) result \<times> LogJournal \<Rightarrow> (JournalError, 'a) result \<times> JState \<Rightarrow> bool" where
  "agrees st (r, j') (r', st') \<longleftrightarrow>
     r = Inl NotDurable \<and> log_state j' = st \<or> r = r' \<and> log_state j' = st'"

lemma commit_agrees: "agrees (log_state j) (log_commit_vote pc j s v f) (mem_commit_vote (log_state j) s v f)"
proof (cases "log_append pc j (EVote (lock_key s v) (frame_sequence f) (frame_bytes f) (frame_expires_at f))")
  case (Pair r j')
  then show ?thesis
    by (rule append_cases) (auto simp: log_commit_vote_def mem_commit_vote_def Let_def Pair)
qed

lemma reserve_agrees: "agrees (log_state j) (log_reserve_sequence pc j) (mem_reserve_sequence (log_state j))"
proof (cases "log_append pc j (ESequence (sat_add (j_next_sequence (log_state j)) 1))")
  case (Pair r j')
  then show ?thesis
    by (rule append_cases) (auto simp: log_reserve_sequence_def mem_reserve_sequence_def Let_def Pair)
qed

lemma witness_agrees: "agrees (log_state j) (log_witness pc j a bs) (mem_witness (log_state j) a bs)"
proof (cases "log_append pc j (EWitnessed a bs)")
  case (Pair r j')
  then show ?thesis
    by (rule append_cases) (auto simp: log_witness_def mem_witness_def bt_contains_get Pair)
qed

lemma epoch_agrees: "agrees (log_state j) (log_enter_epoch pc j e) (mem_enter_epoch (log_state j) e)"
proof (cases "log_append pc j (EEpoch e)")
  case (Pair r j')
  then show ?thesis
    by (rule append_cases) (auto simp: log_enter_epoch_def mem_enter_epoch_def Pair split: option.splits)
qed

lemma seen_agrees:
  assumes "jwf (log_state j)"
  shows "agrees (log_state j) (log_mark_seen pc j a q) (mem_mark_seen (log_state j) a q)"
proof (cases "log_append pc j (ESeen a q)")
  case (Pair r j')
  have "bt_inv (j_seen (log_state j))" using assms by (simp add: jwf_def)
  then have "\<And>h. bt_get (j_seen (log_state j)) a = Some h \<Longrightarrow> bt_insert a h (j_seen (log_state j)) = j_seen (log_state j)"
    by (rule bt_insert_absorb)
  with append_cases [OF Pair] show ?thesis
    by cases (auto simp: log_mark_seen_def mem_mark_seen_def Let_def max_def Pair split: option.splits)
qed

text \<open>
  An acknowledgement that is not durable is refused and noted; a sweep drops the expired
  frames but for those (\<open>kept\<close>) whose retirement could not be written.
\<close>

fun ack_agrees :: "JState \<Rightarrow> bool \<times> LogJournal \<Rightarrow> bool \<times> JState \<Rightarrow> bool" where
  "ack_agrees st (r, j') (r', st') \<longleftrightarrow>
     \<not> r \<and> log_state j' = st \<and> (r' \<longrightarrow> last_io_error j') \<or> r = r' \<and> log_state j' = st'"

lemma acknowledge_agrees: "ack_agrees (log_state j) (log_acknowledge pc j q) (mem_acknowledge (log_state j) q)"
proof (cases "log_append pc j (ERetired q)")
  case (Pair r j')
  then have err: "r = Inl x \<Longrightarrow> last_io_error j'" for x
    by (auto simp: log_append_def split: prod.splits bool.splits)
  from Pair show ?thesis
    by (rule append_cases) (auto simp: log_acknowledge_def mem_acknowledge_def retire_def Pair err)
qed

definition sweeps :: "JState \<Rightarrow> timestamp \<Rightarrow> u64 set \<Rightarrow> JState \<Rightarrow> bool" where
  "sweeps st now kept st' \<longleftrightarrow>
     st' = st\<lparr>j_pending := bt_retain (\<lambda>q f. \<not> frame_expired now f \<or> q \<in> kept) (j_pending st)\<rparr>"

lemma retire_out:
  "log_state (snd (retire pc j q)) = log_state j
   \<or> log_state (snd (retire pc j q)) = log_state j\<lparr>j_pending := bt_remove q (j_pending (log_state j))\<rparr>"
proof (cases "log_append pc j (ERetired q)")
  case (Pair r j')
  then show ?thesis by (rule append_cases) (auto simp: retire_def Pair)
qed

lemma retire_works:
  assumes "set (writes j) \<subseteq> {IoOk}" and "encode_record pc (ERetired q) \<noteq> None"
  shows "log_state (snd (retire pc j q)) = log_state j\<lparr>j_pending := bt_remove q (j_pending (log_state j))\<rparr>"
    and "set (writes (snd (retire pc j q))) \<subseteq> {IoOk}"
  using assms by (auto simp: retire_def log_append_def try_append_def put_def split: list.splits io.splits if_splits)

lemma retire_all_out:
  "\<exists>gone. gone \<subseteq> set qs \<and> log_state (foldl (\<lambda>j q. snd (retire pc j q)) j qs)
     = log_state j\<lparr>j_pending := filter (\<lambda>e. fst e \<notin> gone) (j_pending (log_state j))\<rparr>"
proof (induction qs arbitrary: j)
  case Nil
  show ?case by (intro exI [of _ "{}"]) simp
next
  case (Cons q qs)
  obtain gone where g: "gone \<subseteq> set qs" "log_state (foldl (\<lambda>j q. snd (retire pc j q)) (snd (retire pc j q)) qs)
      = log_state (snd (retire pc j q))\<lparr>j_pending := filter (\<lambda>e. fst e \<notin> gone) (j_pending (log_state (snd (retire pc j q))))\<rparr>"
    using Cons.IH [of "snd (retire pc j q)"] by blast
  from retire_out [of pc j q] show ?case
  proof
    assume "log_state (snd (retire pc j q)) = log_state j"
    then show ?thesis using g by (intro exI [of _ gone]) auto
  next
    assume "log_state (snd (retire pc j q)) = log_state j\<lparr>j_pending := bt_remove q (j_pending (log_state j))\<rparr>"
    moreover have "filter (\<lambda>e. fst e \<notin> gone) (bt_remove q m) = filter (\<lambda>e. fst e \<notin> insert q gone) m" for m :: "(u64, OutgoingFrame) btree"
      by (simp add: bt_remove_def)
    ultimately show ?thesis using g by (intro exI [of _ "insert q gone"]) auto
  qed
qed

lemma retire_all_works:
  assumes "\<And>q. encode_record pc (ERetired q) \<noteq> None"
  shows "set (writes j) \<subseteq> {IoOk} \<Longrightarrow> log_state (foldl (\<lambda>j q. snd (retire pc j q)) j qs)
     = log_state j\<lparr>j_pending := filter (\<lambda>e. fst e \<notin> set qs) (j_pending (log_state j))\<rparr>"
proof (induction qs arbitrary: j)
  case (Cons q qs)
  note r = retire_works [OF Cons.prems assms, of q]
  have "filter (\<lambda>e. fst e \<notin> set qs) (bt_remove q m) = filter (\<lambda>e. fst e \<notin> set (q # qs)) m" for m :: "(u64, OutgoingFrame) btree"
    by (simp add: bt_remove_def)
  then show ?case using Cons.IH [OF r(2)] r(1) by simp
qed simp

lemma pending_expired:
  assumes "jwf st" and "e \<in> set (j_pending st)"
  shows "fst e \<in> set (map frame_sequence (filter (frame_expired now) (bt_values (j_pending st)))) \<longleftrightarrow> frame_expired now (snd e)"
proof -
  have one: "bt_get (j_pending st) (fst x) = Some (snd x)" "frame_sequence (snd x) = fst x" if "x \<in> set (j_pending st)" for x
    using assms(1) that by (cases x; auto simp: jwf_def bt_get_mem)+
  have "frame_expired now (snd e)" if "x \<in> set (j_pending st)" "frame_expired now (snd x)" "frame_sequence (snd x) = fst e" for x
  proof -
    have "bt_get (j_pending st) (fst e) = Some (snd x)" using one [OF that(1)] that(3) by simp
    then show ?thesis using one(1) [OF assms(2)] that(2) by simp
  qed
  then show ?thesis using one(2) [OF assms(2)] assms(2) by (auto simp: bt_values_def image_iff)
qed

lemma drop_agrees:
  assumes "jwf (log_state j)"
  shows "\<exists>kept. sweeps (log_state j) now kept (log_state (log_drop_expired pc j now))"
    and "set (writes j) \<subseteq> {IoOk} \<Longrightarrow> (\<And>q. encode_record pc (ERetired q) \<noteq> None)
      \<Longrightarrow> log_state (log_drop_expired pc j now) = mem_drop_expired (log_state j) now"
proof -
  let ?st = "log_state j"
  let ?expired = "map frame_sequence (filter (frame_expired now) (bt_values (j_pending ?st)))"
  have drop: "log_state (log_drop_expired pc j now) = log_state (foldl (\<lambda>j q. snd (retire pc j q)) j ?expired)"
    by (simp add: log_drop_expired_def)
  obtain gone where g: "gone \<subseteq> set ?expired" "log_state (log_drop_expired pc j now)
      = ?st\<lparr>j_pending := filter (\<lambda>e. fst e \<notin> gone) (j_pending ?st)\<rparr>"
    using retire_all_out [of ?expired pc j] drop by auto
  have late: "frame_expired now (snd e)" if "e \<in> set (j_pending ?st)" "fst e \<in> gone" for e
    using pending_expired [OF assms that(1), of now] g(1) that(2) by blast
  have "filter (\<lambda>e. fst e \<notin> gone) (j_pending ?st) = bt_retain (\<lambda>q f. \<not> frame_expired now f \<or> q \<in> - gone) (j_pending ?st)"
    unfolding bt_retain_def
    by (rule filter_cong) (use late in \<open>auto\<close>)
  then show "\<exists>kept. sweeps ?st now kept (log_state (log_drop_expired pc j now))"
    unfolding sweeps_def g(2) by (intro exI [of _ "- gone"]) (simp only:)
  assume "set (writes j) \<subseteq> {IoOk}" and "\<And>q. encode_record pc (ERetired q) \<noteq> None"
  then have "log_state (log_drop_expired pc j now) = ?st\<lparr>j_pending := filter (\<lambda>e. fst e \<notin> set ?expired) (j_pending ?st)\<rparr>"
    using retire_all_works [of pc j ?expired] drop by simp
  moreover have "filter (\<lambda>e. fst e \<notin> set ?expired) (j_pending ?st)
      = bt_retain (\<lambda>_ f. case frame_expires_at f of None \<Rightarrow> True | Some t \<Rightarrow> t \<ge> now) (j_pending ?st)"
    unfolding bt_retain_def
    by (rule filter_cong) (use pending_expired [OF assms] in \<open>auto simp: frame_expired_def not_less split: option.splits\<close>)
  ultimately show "log_state (log_drop_expired pc j now) = mem_drop_expired ?st now"
    by (simp add: mem_drop_expired_def)
qed

text \<open>
  (C37) The log journal refines the in-memory journal, every operation of the trait that
  changes anything, on any well-formed state (\<open>jwf\<close>, which every opened journal has and
  every operation keeps) and whatever the disk does. A vote commit, a sequence reservation, a
  witnessed vote, an epoch change and a seen mark either return \<open>NotDurable\<close> and leave the
  state in memory as it was, or return what the in-memory journal returns and move to the
  state it moves to. An acknowledgement does what it does in memory, or returns \<open>False\<close>,
  leaves the state and notes the error. A sweep drops expired frames only, and all of
  them when every write succeeds and the serializer can write every retirement. Of the
  file nothing is said here.
\<close>

theorem log_refines_memory:
  assumes "jwf (log_state j)"
  shows "agrees (log_state j) (log_commit_vote pc j s v f) (mem_commit_vote (log_state j) s v f)
    \<and> agrees (log_state j) (log_reserve_sequence pc j) (mem_reserve_sequence (log_state j))
    \<and> agrees (log_state j) (log_witness pc j a bs) (mem_witness (log_state j) a bs)
    \<and> agrees (log_state j) (log_enter_epoch pc j e) (mem_enter_epoch (log_state j) e)
    \<and> agrees (log_state j) (log_mark_seen pc j i q) (mem_mark_seen (log_state j) i q)
    \<and> ack_agrees (log_state j) (log_acknowledge pc j q) (mem_acknowledge (log_state j) q)
    \<and> (\<exists>kept. sweeps (log_state j) now kept (log_state (log_drop_expired pc j now)))
    \<and> (set (writes j) \<subseteq> {IoOk} \<and> (\<forall>q. encode_record pc (ERetired q) \<noteq> None)
        \<longrightarrow> log_state (log_drop_expired pc j now) = mem_drop_expired (log_state j) now)"
  by (intro conjI impI commit_agrees reserve_agrees witness_agrees epoch_agrees seen_agrees [OF assms]
      acknowledge_agrees drop_agrees(1) [OF assms]) (rule drop_agrees(2) [OF assms]; simp)

section \<open>The trait\<close>

lemma commit_okD:
  "jwf (log_state j) \<Longrightarrow> log_commit_vote pc j s v f = (Inr (), j') \<Longrightarrow>
     mem_commit_vote (log_state j) s v f = (Inr (), log_state j')"
  using commit_agrees [of j pc s v f] by (cases "mem_commit_vote (log_state j) s v f") auto

lemma reserve_okD:
  "log_reserve_sequence pc j = (Inr q, j') \<Longrightarrow>
     q = j_next_sequence (log_state j) \<and> j_next_sequence (log_state j') = sat_add q 1"
  using reserve_agrees [of j pc] by (auto simp: mem_reserve_sequence_def)

lemma commit_errD:
  "log_commit_vote pc j s v f = (Inl x, j') \<Longrightarrow> log_state j' = log_state j"
  using commit_agrees [of j pc s v f] by (auto simp: mem_commit_vote_def Let_def split: if_splits)

interpretation log: journal "\<lambda>j. jwf (log_state j)" log_state "log_exec pc" "log_commit_vote pc" "log_reserve_sequence pc"
  for pc
proof
  fix j x
  obtain es where es: "log_state (log_exec pc j x) = foldl apply_entry (log_state j) es"
    by (rule step_state [OF step_exec])
  show "jwf (log_state j) \<Longrightarrow> jwf (log_state (log_exec pc j x))" by (simp add: es fold_jwf)
  show "jwf (log_state j) \<Longrightarrow> bt_contains (j_locks (log_state j)) k
      \<Longrightarrow> bt_contains (j_locks (log_state (log_exec pc j x))) k" for k
    by (simp add: es fold_locks_kept)
  show "j_next_sequence (log_state j) \<le> j_next_sequence (log_state (log_exec pc j x))"
    by (simp add: es fold_counter)
  show "j_epoch (log_state j) = Some e
      \<Longrightarrow> \<exists>e'. j_epoch (log_state (log_exec pc j x)) = Some e' \<and> e \<le> e'" for e
    by (simp add: es fold_epoch)
next
  fix j s v f j'
  assume "jwf (log_state j)" and "log_commit_vote pc j s v f = (Inr (), j')"
  then show "\<not> mem_has_voted (log_state j) s v \<and> mem_has_voted (log_state j') s v
      \<and> bt_get (j_pending (log_state j')) (frame_sequence f) = Some f"
    using commit_okD mem_commit_ok by blast
qed (simp_all add: commit_errD reserve_okD)

section \<open>Lives with power cuts\<close>

text \<open>
  A power cut while record \<open>r\<close> of entry \<open>e\<close> is being appended leaves the first \<open>n\<close> of its
  bytes (none, some or all); the next life opens that file. What the disk will do with
  the writes and compactions to come may change at any time.
\<close>

inductive life_step :: "postcard \<Rightarrow> LogJournal \<Rightarrow> LogJournal \<Rightarrow> bool" for pc where
  call: "life_step pc j (log_exec pc j x)"
| cut: "encode_record pc e = Some r \<Longrightarrow> log_open pc (log_file j @ take n r) True = Inr j' \<Longrightarrow> life_step pc j j'"
| disk: "life_step pc j (j\<lparr>writes := ws, compactions := cs\<rparr>)"

inductive life :: "postcard \<Rightarrow> LogJournal \<Rightarrow> LogJournal \<Rightarrow> bool" for pc where
  start: "life pc j j"
| go: "life pc j j1 \<Longrightarrow> life_step pc j1 j2 \<Longrightarrow> life pc j j2"

text \<open>The same with a disk on which a failed append leaves nothing and no compaction is detached.\<close>

inductive whole_life :: "postcard \<Rightarrow> LogJournal \<Rightarrow> LogJournal \<Rightarrow> bool" for pc where
  whole_start: "whole_life pc j j"
| whole_go: "whole_life pc j j1 \<Longrightarrow> life_step pc j1 j2 \<Longrightarrow> no_torn_writes j2 \<Longrightarrow> whole_life pc j j2"

lemma whole_is_life: "whole_life pc j j' \<Longrightarrow> life pc j j'"
  by (induction rule: whole_life.induct) (auto intro: life.intros)

lemma life_both:
  assumes "postcard_ok pc" and "persistent P"
  shows "life pc j j' \<Longrightarrow> on_both pc P j \<Longrightarrow> on_both pc P j'"
proof (induction rule: life.induct)
  case (go j j1 j2)
  then have j1: "on_both pc P j1" by simp
  from go.hyps(2) show ?case
  proof (cases rule: life_step.cases)
    case (call x)
    then show ?thesis using step_exec [of pc j1 x] j1 assms by (simp add: log_step_def)
  next
    case (cut e r n)
    have "P (fst (replay pc (log_file j1 @ take n r)))"
      using file_persists [OF assms(2)] j1 by (simp add: on_both_def)
    then have "P (log_state j2)" using cut(2) by (auto simp: log_open_def split: prod.splits)
    then show ?thesis using open_ok [OF cut(2)] by (simp add: on_both_def log_ok_def file_holds_def)
  next
    case (disk ws cs)
    then show ?thesis using j1 by (simp add: on_both_def)
  qed
qed

lemma replay_cut:
  assumes "postcard_ok pc" and "replay pc bs = (st, length bs)" and "encode_record pc e = Some r"
  shows "replay pc (bs @ take n r) = (if n < length r then (st, length bs)
    else (apply_entry st e, length (bs @ r)))"
proof (cases "n < length r")
  case True
  have "replay pc (bs @ take n r) = replay_from pc (bs @ take n r) st (length bs)"
    using assms(2) unfolding replay_def by (rule replay_prefix)
  then show ?thesis using replay_torn [OF assms(3) True, of bs st] True by simp
next
  case False
  then show ?thesis using replay_more [OF assms] by simp
qed

text \<open>Opening after a cut finds the state the journal had, or that state with the one
  entry that made it to disk whole.\<close>

lemma open_after_cut:
  assumes "postcard_ok pc" and "file_holds pc j st" and "encode_record pc e = Some r"
    and "log_open pc (log_file j @ take n r) True = Inr j1"
  shows "log_state j1 = (if n < length r then st else apply_entry st e)"
    and "log_file j1 = (if n < length r then log_file j else log_file j @ r)"
  using assms replay_cut [OF assms(1) _ assms(3), of "log_file j" st n]
  by (auto simp: file_holds_def log_open_def split: if_splits)

lemma ok_script [simp]:
  "log_ok pc (j\<lparr>writes := ws, compactions := cs\<rparr>) = log_ok pc j"
  by (simp add: log_ok_def file_holds_def)

lemma whole_life_ok:
  assumes "postcard_ok pc"
  shows "whole_life pc j j' \<Longrightarrow> log_ok pc j \<Longrightarrow> no_torn_writes j \<Longrightarrow> log_ok pc j' \<and> no_torn_writes j'"
proof (induction rule: whole_life.induct)
  case (whole_go j j1 j2)
  then have j1: "log_ok pc j1" "no_torn_writes j1" by simp_all
  from whole_go.hyps(2) show ?case
  proof (cases rule: life_step.cases)
    case (call x)
    then show ?thesis using step_exec [of pc j1 x] j1 assms by (simp add: log_step_def)
  next
    case (cut e r n)
    then show ?thesis using open_ok by blast
  next
    case (disk ws cs)
    then show ?thesis using j1 whole_go.hyps(3) by simp
  qed
qed simp

text \<open>
  (C8) As long as the disk leaves no part of a failed append behind and no compaction fails
  after its rename, the log on disk replays to exactly the state in memory, whatever calls
  are made and however often the power is cut in the middle of a record: opening that file
  again gives the same vote locks, pending frames, counter, epoch, seen marks and witnessed
  votes. (Without that it need not: see \<open>torn_append_loses_vote\<close>.)
\<close>

theorem log_holds_live_state:
  assumes "postcard_ok pc" and "log_open pc bs True = Inr j" and "whole_life pc j j'"
  shows "\<exists>j''. log_open pc (log_file j') True = Inr j'' \<and> log_state j'' = log_state j'
    \<and> log_file j'' = log_file j'"
proof -
  have "log_ok pc j'" using whole_life_ok [OF assms(1,3)] open_ok [OF assms(2)] by simp
  then show ?thesis by (simp add: log_ok_def file_holds_def log_open_def)
qed

text \<open>A call that succeeds while the file is whole leaves what it did in both, whatever compaction does.\<close>

lemma commit_both:
  assumes "postcard_ok pc" and "log_ok pc j" and "log_commit_vote pc j s v f = (Inr (), j1)"
  shows "on_both pc (\<lambda>st. mem_has_voted st s v) j1"
proof -
  let ?e = "EVote (lock_key s v) (frame_sequence f) (frame_bytes f) (frame_expires_at f)"
  obtain j' where a: "log_append pc j ?e = (Inr (), j')"
    and j1: "j1 = compact_if_large pc (j'\<lparr>log_state := apply_entry (log_state j) ?e\<rparr>)"
    using assms(3) commit_shape [where j = j and k = "lock_key s v" and f = f] append_state [of pc j ?e]
    by (auto simp: log_commit_vote_def Let_def simp del: apply_entry.simps split: if_splits prod.splits sum.splits)
  have w: "jwf (apply_entry (log_state j) ?e)" using assms(2) by (simp add: log_ok_def jwf_apply del: apply_entry.simps)
  have "file_holds pc j' (apply_entry (log_state j) ?e)"
    using append_ok [OF assms(1) a] assms(2) by (simp add: log_ok_def del: apply_entry.simps)
  moreover have "mem_has_voted (apply_entry (log_state j) ?e) s v"
    using assms(2) by (simp add: mem_has_voted_def add_frame_eq log_ok_def jwf_def bt_simps)
  ultimately have "on_both pc (\<lambda>st. mem_has_voted st s v) (j'\<lparr>log_state := apply_entry (log_state j) ?e\<rparr>)"
    using w by (simp add: on_both_def file_holds_def del: apply_entry.simps)
  then show ?thesis unfolding j1 by (rule both_compact [OF assms(1)])
qed

lemma reserve_both:
  assumes "postcard_ok pc" and "log_ok pc j" and "log_reserve_sequence pc j = (Inr q, j1)"
  shows "on_both pc (\<lambda>st. sat_add q 1 \<le> j_next_sequence st) j1"
proof -
  let ?q = "j_next_sequence (log_state j)"
  let ?e = "ESequence (sat_add ?q 1)"
  obtain j' where a: "log_append pc j ?e = (Inr (), j')" and q: "q = ?q"
    and j1: "j1 = compact_if_large pc (j'\<lparr>log_state := apply_entry (log_state j) ?e\<rparr>)"
    using assms(3) reserve_shape [of "log_state j"] append_state [of pc j ?e]
    by (auto simp: log_reserve_sequence_def Let_def simp del: apply_entry.simps split: prod.splits sum.splits)
  have w: "jwf (apply_entry (log_state j) ?e)" using assms(2) by (simp add: log_ok_def jwf_apply del: apply_entry.simps)
  have "file_holds pc j' (apply_entry (log_state j) ?e)"
    using append_ok [OF assms(1) a] assms(2) by (simp add: log_ok_def del: apply_entry.simps)
  then have "on_both pc (\<lambda>st. sat_add q 1 \<le> j_next_sequence st) (j'\<lparr>log_state := apply_entry (log_state j) ?e\<rparr>)"
    using w by (simp add: on_both_def file_holds_def q)
  then show ?thesis unfolding j1 by (rule both_compact [OF assms(1)])
qed

lemma persistent_lock: "persistent (\<lambda>st. mem_has_voted st s v)"
  by (simp add: persistent_def mem_has_voted_def apply_locks)

lemma persistent_counter: "persistent (\<lambda>st. n \<le> j_next_sequence st)"
  unfolding persistent_def using apply_counter order_trans by blast

text \<open>
  (C5) A vote the journal accepted while its file was whole is never accepted again: not
  later in the same run, not after a power cut that left any part of a record behind, not
  after a compaction, and not after anything a disk does from the very append of that vote
  on, torn appends and detached compactions included. Every later attempt by that voter on
  that subject is refused with \<open>AlreadyVoted\<close>. The file is whole after every opening, and
  as long as since then no failed append left part of its record behind and no compaction
  failed after its rename (\<open>whole_life\<close>); \<open>torn_append_loses_vote\<close> shows the need for it.
\<close>

theorem vote_survives_crash:
  assumes "postcard_ok pc" and "log_open pc bs True = Inr j0" and "whole_life pc j0 j"
    and "log_commit_vote pc (j\<lparr>writes := ws, compactions := cs\<rparr>) s v f = (Inr (), j1)" and "life pc j1 j2"
  shows "log_has_voted j2 s v \<and> log_commit_vote pc j2 s v g = (Inl JAlreadyVoted, j2)"
proof -
  have "log_ok pc (j\<lparr>writes := ws, compactions := cs\<rparr>)"
    using whole_life_ok [OF assms(1,3)] open_ok [OF assms(2)] by simp
  from life_both [OF assms(1) persistent_lock assms(5) commit_both [OF assms(1) this assms(4)]]
  show ?thesis by (simp add: on_both_def mem_has_voted_def log_has_voted_def log_commit_vote_def)
qed

lemma sequences_grow:
  assumes "postcard_ok pc" and "log_open pc bs True = Inr j0" and "whole_life pc j0 j"
    and "log_reserve_sequence pc (j\<lparr>writes := ws, compactions := cs\<rparr>) = (Inr q, j1)" and "life pc j1 j2"
    and "log_reserve_sequence pc j2 = (Inr q', j3)" and "q < - 1"
  shows "q < q'"
proof -
  have "log_ok pc (j\<lparr>writes := ws, compactions := cs\<rparr>)"
    using whole_life_ok [OF assms(1,3)] open_ok [OF assms(2)] by simp
  from life_both [OF assms(1) persistent_counter assms(5) reserve_both [OF assms(1) this assms(4)]]
  have "sat_add q 1 \<le> q'" using reserve_okD [OF assms(6)] by (simp add: on_both_def)
  moreover have "q < sat_add q 1"
    using assms(7) unat_max_word [where 'a = 64] by (simp add: word_less_nat_alt sat_simps)
  ultimately show ?thesis by simp
qed

text \<open>
  A sequence number handed out while the file was whole is never handed out again, in this
  run or in any life after it, whatever the disk does: the numbers only grow, until the
  counter saturates at the top of its 64 bits.
\<close>

theorem sequence_survives_crash:
  assumes "postcard_ok pc" and "log_open pc bs True = Inr j0" and "whole_life pc j0 j"
    and "log_reserve_sequence pc (j\<lparr>writes := ws, compactions := cs\<rparr>) = (Inr q, j1)" and "life pc j1 j2"
    and "log_reserve_sequence pc j2 = (Inr q', j3)" and "q < - 1"
  shows "q < q'"
  by (rule sequences_grow [OF assms])

section \<open>Where a fresh log starts counting\<close>

lemma random_start_bounds: "2 ^ 24 \<le> random_start x \<and> random_start x < 2 ^ 31"
proof -
  have m: "unat (x mod (2 ^ 31 - 2 ^ 24)) < 2 ^ 31 - 2 ^ 24"
    by (simp add: unat_mod_distrib)
  have "unat (random_start x) = 2 ^ 24 + unat (x mod (2 ^ 31 - 2 ^ 24))"
    using m by (simp add: random_start_def Let_def unat_word_ariths)
  with m show ?thesis by (simp add: word_less_nat_alt word_le_nat_alt)
qed

text \<open>
  A node's fresh journal starts its counter at a point in \<open>[2^24, 2^31)\<close> whatever
  the operating system's entropy gives, and that point is already on disk when the
  journal is handed out: the file replays to it.
\<close>

theorem fresh_log_start:
  assumes "postcard_ok pc" and "open_with_entropy pc [] True entropy = Inr j"
  shows "2 ^ 24 \<le> j_next_sequence (log_state j) \<and> j_next_sequence (log_state j) < 2 ^ 31 \<and> log_ok pc j"
proof -
  define j0 where "j0 = \<lparr>log_file = [], detached = False, log_state = default_state, bytes_on_disk = 0,
     last_io_error = False, writes = [], compactions = []\<rparr>"
  have o: "log_open pc [] True = Inr j0"
    by (simp add: log_open_def replay_def replay_from.simps j0_def)
  obtain j' where a: "try_append pc j0 (ESequence (random_start entropy)) = (True, j')"
    and j: "j = j'\<lparr>log_state := (log_state j')\<lparr>j_next_sequence := random_start entropy\<rparr>\<rparr>"
    using assms(2) by (auto simp: open_with_entropy_def o j0_def default_state_def Let_def split: prod.splits bool.splits)
  have ap: "log_append pc j0 (ESequence (random_start entropy)) = (Inr (), j')"
    using a by (simp add: log_append_def)
  have "log_state j' = default_state" using append_state [OF ap] by (simp add: j0_def)
  then have st: "log_state j = apply_entry (log_state j0) (ESequence (random_start entropy))"
    by (simp add: j j0_def default_state_def max_absorb2 word_zero_le)
  have "log_ok pc j"
    using settle [OF assms(1) ap _ _ st] open_ok [OF o] by (simp add: j)
  then show ?thesis using random_start_bounds [of entropy] by (simp add: j)
qed

section \<open>A partial write the process outlives\<close>

text \<open>Where part of a record is followed by other bytes, no record is read there, unless a checksum happens to fit.\<close>

lemma torn_not_read:
  assumes "encode_record pc e = Some r" and "4 \<le> n" and "n < length r"
    and "n + length rest < length r
      \<or> of_le_bytes (take 4 (drop (length r - 4) (take n r @ rest))) \<noteq> crc32 (take (length r - 8) (drop 4 (take n r @ rest)))"
  shows "next_record pc (bs @ take n r @ rest) (length bs) = None"
proof -
  obtain payload where p: "length payload \<le> 65536"
    and r: "r = le_bytes 4 (of_nat (length payload) :: u32) @ payload @ le_bytes 4 (crc32 payload)"
    using encode_recordD [OF assms(1)] .
  have len: "length r = length payload + 8" by (simp add: r)
  have "take 4 (take n r @ rest) = le_bytes 4 (of_nat (length payload) :: u32)"
    using assms(2,3) by (simp add: r min_def)
  then have "unat (of_le_bytes (take 4 (drop (length bs) (bs @ take n r @ rest))) :: u32) = length payload"
    using p by (simp add: unat_of_nat_len)
  moreover have "drop (length bs + k) (bs @ take n r @ rest) = drop k (take n r @ rest)" for k by simp
  ultimately show ?thesis
    using assms(3,4) len unfolding next_record_def Let_def by (auto simp: add.assoc)
qed

text \<open>
  (C38) The gap: \<open>try_append\<close> leaves in place what a failed write put into the file. If an
  append fails after \<open>n\<close> bytes of its record, at least its length, the call reports
  \<open>NotDurable\<close>; a vote committed next is written behind those bytes and reported durable,
  and at the next opening the file ends where the torn record begins: the vote and its lock
  are gone, and the voter may vote again. This is so for every record, cut and vote, as
  long as the vote's bytes do not complete the torn record with a checksum that fits by
  accident (they cannot if the torn record is longer), and the file has not grown so large
  that committing the vote compacts it.
\<close>

theorem torn_append_loses_vote:
  assumes "postcard_ok pc" and "log_ok pc j" and "writes j = IoFail n # later"
    and "encode_record pc e = Some r" and "4 \<le> n" and "n < length r"
    and "log_append pc j e = (res, j1)" and "log_commit_vote pc j1 s v f = (Inr (), j2)"
    and "encode_record pc (EVote (lock_key s v) (frame_sequence f) (frame_bytes f) (frame_expires_at f)) = Some vote"
    and "n + length vote < length r
      \<or> of_le_bytes (take 4 (drop (length r - 4) (take n r @ vote))) \<noteq> crc32 (take (length r - 8) (drop 4 (take n r @ vote)))"
    and "bytes_on_disk j + of_nat (length vote) \<le> COMPACT_THRESHOLD_BYTES"
  shows "res = Inl NotDurable \<and> log_has_voted j2 s v
    \<and> (\<exists>j3. log_open pc (log_file j2) True = Inr j3 \<and> log_state j3 = log_state j \<and> log_file j3 = log_file j
          \<and> \<not> log_has_voted j3 s v)"
proof -
  have open_file: "\<not> detached j" "replay pc (log_file j) = (log_state j, length (log_file j))" and w: "jwf (log_state j)"
    using assms(2) by (simp_all add: log_ok_def file_holds_def)
  have "(res, j1) = (Inl NotDurable, j\<lparr>writes := later, log_file := log_file j @ take n r, last_io_error := True\<rparr>)"
    using assms(3,4,7) open_file(1) by (simp add: log_append_def try_append_def put_def)
  then have res: "res = Inl NotDurable" and j1: "log_state j1 = log_state j" "log_file j1 = log_file j @ take n r"
      "\<not> detached j1" "bytes_on_disk j1 = bytes_on_disk j"
    using open_file(1) by simp_all
  note c = log.commit_ok [OF w [folded j1(1)] assms(8)]
  obtain j' where a: "log_append pc j1 (EVote (lock_key s v) (frame_sequence f) (frame_bytes f) (frame_expires_at f)) = (Inr (), j')"
      and j2: "log_file j2 = log_file (compact_if_large pc (j'\<lparr>log_state := log_state j2\<rparr>))"
    using assms(8) by (auto simp: log_commit_vote_def Let_def split: if_splits prod.splits sum.splits)
  have "log_file j' = log_file j @ take n r @ vote" "bytes_on_disk j' = bytes_on_disk j + of_nat (length vote)"
    using a assms(9) j1 by (auto simp: log_append_def try_append_def put_def split: list.splits io.splits)
  then have f: "log_file j2 = log_file j @ take n r @ vote"
    using assms(11) by (simp add: j2 compact_if_large_def)
  have "replay pc (log_file j2) = replay_from pc (log_file j @ take n r @ vote) (log_state j) (length (log_file j))"
    using replay_extends [OF open_file(2) [unfolded replay_def]] by (simp add: f replay_def)
  also have "\<dots> = (log_state j, length (log_file j))"
    using torn_not_read [OF assms(4-6,10)] by (simp add: replay_step [of pc "log_file j @ take n r @ vote"])
  finally show ?thesis
    using res c by (simp add: f j1(1) log_open_def log_has_voted_def mem_has_voted_def)
qed

section \<open>Witnesses\<close>

definition sample_frame :: OutgoingFrame where
  "sample_frame = frame_new [1, 2, 3] 4"

definition sample_entry :: Entry where
  "sample_entry = EVote (lock_key sample_subject ''a'') 4 [1, 2, 3] None"

text \<open>A serializer for the entries the witnesses write: counters in eight bytes, and the
  one sample vote.\<close>

definition sample_pc :: postcard where
  "sample_pc = \<lparr>to_allocvec = (\<lambda>e. case e of ESequence n \<Rightarrow> Some (1 # le_bytes 8 n)
       | _ \<Rightarrow> if e = sample_entry then Some [0] else None),
     from_bytes = (\<lambda>bs. if bs = [0] then Some sample_entry
       else case bs of [] \<Rightarrow> None | t # r \<Rightarrow> if t = 1 \<and> length r = 8 then Some (ESequence (of_le_bytes r)) else None)\<rparr>"

lemma sample_pc_ok: "postcard_ok sample_pc"
  by (auto simp: postcard_ok_def sample_pc_def sample_entry_def of_le_bytes_of_le_bytes_full split: Entry.splits if_splits)

definition sample_log :: LogJournal where
  "sample_log = \<lparr>log_file = [], detached = False, log_state = default_state, bytes_on_disk = 0,
     last_io_error = False, writes = [], compactions = []\<rparr>"

lemma sample_log_open: "log_open sample_pc [] True = Inr sample_log"
  by (simp add: log_open_def replay_def replay_from.simps sample_log_def)

lemma encode_sample:
  "encode_record sample_pc sample_entry = Some (le_bytes 4 (1 :: u32) @ [0] @ le_bytes 4 (crc32 [0]))"
  by (simp add: encode_record_def sample_pc_def sample_entry_def MAX_RECORD_BYTES_def)

lemma encode_sequence:
  "encode_record sample_pc (ESequence n) = Some (le_bytes 4 (9 :: u32) @ (1 # le_bytes 8 n) @ le_bytes 4 (crc32 (1 # le_bytes 8 n)))"
  by (simp add: encode_record_def sample_pc_def MAX_RECORD_BYTES_def)

definition sample_log_voted :: LogJournal where
  "sample_log_voted = snd (log_commit_vote sample_pc sample_log sample_subject ''a'' sample_frame)"

lemma sample_commits:
  "log_commit_vote sample_pc sample_log sample_subject ''a'' sample_frame = (Inr (), sample_log_voted)"
proof -
  have "fst (log_commit_vote sample_pc sample_log sample_subject ''a'' sample_frame) = Inr ()"
    using encode_sample
    by (simp add: log_commit_vote_def sample_log_def default_state_def bt_contains_def log_append_def
        try_append_def put_def sample_entry_def sample_frame_def frame_new_def Let_def)
  then show ?thesis by (simp add: sample_log_voted_def prod_eq_iff)
qed


lemma open_total: "\<exists>j. log_open pc bs True = Inr j"
  by (simp add: log_open_def split: prod.splits)

lemma open_script: "log_open pc bs b = Inr j \<Longrightarrow> writes j = [] \<and> compactions j = []"
  by (auto simp: log_open_def split: prod.splits if_splits)

text \<open>The cut the witnesses take: three bytes of a record are left behind.\<close>

lemma cut_step:
  "encode_record pc e = Some r \<Longrightarrow> log_open pc (log_file j @ take 3 r) True = Inr j1 \<Longrightarrow> life pc j j1"
  by (rule life.go [OF life.start life_step.cut])

theorem log_refines_memory_witness:
  "agrees default_state (log_commit_vote sample_pc sample_log sample_subject ''a'' sample_frame)
     (mem_commit_vote default_state sample_subject ''a'' sample_frame)"
  using log_refines_memory [of sample_log sample_pc sample_subject "''a''" sample_frame]
  by (simp add: sample_log_def)

lemma sample_log_ok: "log_ok sample_pc sample_log" "no_torn_writes sample_log"
  using open_ok [OF sample_log_open] by simp_all

theorem log_holds_live_state_witness:
  "\<exists>j. log_open sample_pc (log_file sample_log_voted) True = Inr j \<and> log_state j = log_state sample_log_voted
     \<and> log_file j = log_file sample_log_voted"
proof (rule log_holds_live_state [OF sample_pc_ok sample_log_open])
  have v: "sample_log_voted = log_exec sample_pc sample_log (OpCommit sample_subject ''a'' sample_frame)"
    by (simp add: sample_log_voted_def)
  have "no_torn_writes sample_log_voted"
    using step_commit [of sample_pc sample_log sample_subject "''a''" sample_frame] sample_log_ok sample_pc_ok
    by (simp add: v log_step_def)
  then show "whole_life sample_pc sample_log sample_log_voted"
    using whole_go [OF whole_start] life_step.call [of sample_pc sample_log] v by metis
qed

text \<open>After the vote an append is torn, the process goes on, and then its power is cut.\<close>

theorem vote_survives_crash_witness:
  "\<exists>j1 j2. j1 = log_exec sample_pc (sample_log_voted\<lparr>writes := [IoFail 2], compactions := [CompactDetached]\<rparr>) OpReserve
     \<and> life sample_pc j1 j2
     \<and> log_commit_vote sample_pc j1 sample_subject ''a'' (frame_new [9] 5) = (Inl JAlreadyVoted, j1)
     \<and> log_commit_vote sample_pc j2 sample_subject ''a'' (frame_new [9] 5) = (Inl JAlreadyVoted, j2)"
proof -
  define j1 where "j1 = log_exec sample_pc (sample_log_voted\<lparr>writes := [IoFail 2], compactions := [CompactDetached]\<rparr>) OpReserve"
  have l1: "life sample_pc sample_log_voted j1"
    unfolding j1_def by (rule life.go [OF life.go [OF life.start life_step.disk] life_step.call])
  obtain j2 where j2: "log_open sample_pc (log_file j1 @ take 3 (le_bytes 4 (1 :: u32) @ [0] @ le_bytes 4 (crc32 [0]))) True = Inr j2"
    using open_total by blast
  have l2: "life sample_pc sample_log_voted j2" by (rule life.go [OF l1 life_step.cut [OF encode_sample j2]])
  have c: "log_commit_vote sample_pc (sample_log\<lparr>writes := [], compactions := []\<rparr>) sample_subject ''a'' sample_frame
      = (Inr (), sample_log_voted)"
    using sample_commits by (simp add: sample_log_def)
  note v = vote_survives_crash [OF sample_pc_ok sample_log_open whole_start c]
  show ?thesis
    using v [OF l1] v [OF l2] cut_step [OF encode_sample j2] unfolding j1_def by blast
qed

lemma sample_same:
  "log_reserve_sequence sample_pc (sample_log\<lparr>writes := [], compactions := []\<rparr>) = log_reserve_sequence sample_pc sample_log"
  by (simp add: sample_log_def)

lemma reserve_works:
  assumes "writes j = []"
  shows "\<exists>j'. log_reserve_sequence sample_pc j = (Inr (j_next_sequence (log_state j)), j')"
  using assms
  by (auto simp: log_reserve_sequence_def Let_def log_append_def try_append_def encode_sequence)

theorem sequence_survives_crash_witness:
  "\<exists>j1 j2 q j3. log_reserve_sequence sample_pc sample_log = (Inr 0, j1) \<and> life sample_pc j1 j2
     \<and> log_reserve_sequence sample_pc j2 = (Inr q, j3) \<and> 0 < q"
proof -
  obtain j1 where j1: "log_reserve_sequence sample_pc sample_log = (Inr 0, j1)"
    using reserve_works [of sample_log] by (auto simp: sample_log_def default_state_def)
  obtain j2 where j2: "log_open sample_pc (log_file j1 @ take 3 (le_bytes 4 (1 :: u32) @ [0] @ le_bytes 4 (crc32 [0]))) True = Inr j2"
    using open_total by blast
  note l = cut_step [OF encode_sample j2]
  obtain q j3 where q: "log_reserve_sequence sample_pc j2 = (Inr q, j3)"
    using reserve_works [of j2] open_script [OF j2] by blast
  have "0 < q"
    by (rule sequence_survives_crash [OF sample_pc_ok sample_log_open whole_start sample_same [THEN trans, OF j1] l q]) (simp add: word_gt_0)
  with j1 l q show ?thesis by blast
qed

text \<open>Four of the seventeen bytes of a sequence record, and behind them the nine of the vote.\<close>

definition sample_torn :: LogJournal where
  "sample_torn = snd (log_append sample_pc (sample_log\<lparr>writes := [IoFail 4]\<rparr>) (ESequence 1))"

definition sample_behind :: LogJournal where
  "sample_behind = snd (log_commit_vote sample_pc sample_torn sample_subject ''a'' sample_frame)"

lemma sample_torn_eq:
  "sample_torn = sample_log\<lparr>writes := [], last_io_error := True, log_file := le_bytes 4 (9 :: u32)\<rparr>"
  by (simp add: sample_torn_def log_append_def try_append_def encode_sequence put_def sample_log_def)

lemma sample_behind_eq:
  "log_commit_vote sample_pc sample_torn sample_subject ''a'' sample_frame = (Inr (), sample_behind)"
proof -
  have "fst (log_commit_vote sample_pc sample_torn sample_subject ''a'' sample_frame) = Inr ()"
    using encode_sample
    by (simp add: log_commit_vote_def sample_torn_eq sample_log_def default_state_def
        bt_contains_def log_append_def try_append_def put_def sample_entry_def sample_frame_def frame_new_def Let_def)
  then show ?thesis by (simp add: sample_behind_def prod_eq_iff)
qed

theorem torn_append_loses_vote_witness:
  "log_has_voted sample_behind sample_subject ''a''
    \<and> (\<exists>j. log_open sample_pc (log_file sample_behind) True = Inr j \<and> log_state j = default_state
         \<and> log_file j = [] \<and> \<not> log_has_voted j sample_subject ''a'')"
proof -
  have ok: "log_ok sample_pc (sample_log\<lparr>writes := [IoFail 4]\<rparr>)"
    using sample_log_ok(1) by (simp add: log_ok_def file_holds_def)
  have torn: "log_append sample_pc (sample_log\<lparr>writes := [IoFail 4]\<rparr>) (ESequence 1)
      = (fst (log_append sample_pc (sample_log\<lparr>writes := [IoFail 4]\<rparr>) (ESequence 1)), sample_torn)"
    by (simp add: sample_torn_def)
  have vote: "encode_record sample_pc (EVote (lock_key sample_subject ''a'') (frame_sequence sample_frame)
      (frame_bytes sample_frame) (frame_expires_at sample_frame)) = Some (le_bytes 4 (1 :: u32) @ [0] @ le_bytes 4 (crc32 [0]))"
    using encode_sample by (simp add: sample_entry_def sample_frame_def frame_new_def)
  show ?thesis
    using torn_append_loses_vote [OF sample_pc_ok ok _ encode_sequence _ _ torn sample_behind_eq vote, of 4 "[]"]
    by (simp add: sample_log_def COMPACT_THRESHOLD_BYTES_def)
qed

theorem fresh_log_start_witness:
  "\<exists>j. open_with_entropy sample_pc [] True 12345 = Inr j \<and> 2 ^ 24 \<le> j_next_sequence (log_state j)
     \<and> j_next_sequence (log_state j) < 2 ^ 31"
proof -
  obtain j where j: "open_with_entropy sample_pc [] True 12345 = Inr j"
    by (simp add: open_with_entropy_def sample_log_open sample_log_def default_state_def Let_def
        try_append_def encode_sequence)
  then show ?thesis using fresh_log_start [OF sample_pc_ok j] by blast
qed

end
