(* ===== verification/Lcq_Replay.thy ===== *)
theory Lcq_Replay
  imports Lcq_Prelude
begin

text \<open>
  \<open>src/application/replay.rs\<close>: the receiver's memory of one sender's sequence numbers,
  64 bits behind the newest. The bit operations are kept at their width. The main result
  is exactness: the window answers as if it remembered the whole set of sequences it was
  ever told, except that everything 64 or more behind the newest counts as seen.
\<close>

unbundle bit_operations_syntax

definition REPLAY_WINDOW :: u32 where
  "REPLAY_WINDOW = 64"

record ReplayWindow =
  rw_highest :: "u64 option"
  rw_seen :: u64

definition replay_new :: ReplayWindow where
  "replay_new = \<lparr>rw_highest = None, rw_seen = 0\<rparr>"

definition resumed :: "u64 \<Rightarrow> ReplayWindow" where
  "resumed highest = \<lparr>rw_highest = Some highest, rw_seen = - 1\<rparr>"

definition replay_highest :: "ReplayWindow \<Rightarrow> u64 option" where
  "replay_highest w = rw_highest w"

definition replay_seen :: "ReplayWindow \<Rightarrow> u64 \<Rightarrow> bool" where
  "replay_seen w sequence =
     (case rw_highest w of
        None \<Rightarrow> False
      | Some highest \<Rightarrow>
          if sequence > highest then False
          else let back = highest - sequence
               in if back \<ge> ucast REPLAY_WINDOW then True
                  else (rw_seen w AND push_bit (unat back) 1) \<noteq> 0)"

definition mark :: "ReplayWindow \<Rightarrow> u64 \<Rightarrow> ReplayWindow" where
  "mark w sequence =
     (case rw_highest w of
        None \<Rightarrow> \<lparr>rw_highest = Some sequence, rw_seen = 1\<rparr>
      | Some highest \<Rightarrow>
          if sequence > highest then
            let shift = sequence - highest;
                seen = (if shift \<ge> ucast REPLAY_WINDOW then 0 else push_bit (unat shift) (rw_seen w))
            in \<lparr>rw_highest = Some sequence, rw_seen = seen OR 1\<rparr>
          else let back = highest - sequence
               in if back < ucast REPLAY_WINDOW
                  then w\<lparr>rw_seen := rw_seen w OR push_bit (unat back) 1\<rparr> else w)"

section \<open>The bits mean sequences\<close>

lemma window_64 [simp]: "(ucast REPLAY_WINDOW :: u64) = 64"
  by (simp add: REPLAY_WINDOW_def)

lemma and_push_bit_1: "(s AND 2 ^ n) \<noteq> 0 \<longleftrightarrow> bit s n" for s :: u64
  by (simp add: bit_iff_and_push_bit_not_eq_0)

text \<open>What the window says of \<open>q\<close>, on natural numbers.\<close>

lemma replay_seen_nat:
  "replay_seen w q \<longleftrightarrow> (\<exists>h. rw_highest w = Some h \<and> unat q \<le> unat h
     \<and> (unat h - unat q < 64 \<longrightarrow> bit (rw_seen w) (unat h - unat q)))"
  by (auto simp: replay_seen_def Let_def not_less word_le_nat_alt word_less_nat_alt unat_sub
      and_push_bit_1 split: option.splits)

lemma mark_highest:
  "rw_highest (mark w q) = Some (case rw_highest w of None \<Rightarrow> q | Some h \<Rightarrow> max h q)"
  by (auto simp: mark_def Let_def max_def split: option.splits)

lemma mark_bits:
  assumes "rw_highest w = Some h" and "i < 64"
  shows "bit (rw_seen (mark w q)) i \<longleftrightarrow>
    (if q > h then i = 0 \<or> unat q - unat h \<le> i \<and> bit (rw_seen w) (i - (unat q - unat h))
     else i = unat h - unat q \<or> bit (rw_seen w) i)"
  using assms by (auto simp: mark_def Let_def bit_simps bit_1_iff word_le_nat_alt word_less_nat_alt
      unat_sub not_less)

text \<open>\<open>w\<close> stands for the set \<open>S\<close> of sequences.\<close>

definition remembers :: "ReplayWindow \<Rightarrow> u64 set \<Rightarrow> bool" where
  "remembers w S \<longleftrightarrow>
     (case rw_highest w of
        None \<Rightarrow> S = {}
      | Some h \<Rightarrow> h \<in> S \<and> (\<forall>q \<in> S. q \<le> h)
          \<and> (\<forall>q. unat q \<le> unat h \<longrightarrow> unat h - unat q < 64 \<longrightarrow>
               (bit (rw_seen w) (unat h - unat q) \<longleftrightarrow> q \<in> S)))"

lemma remembers_new: "remembers replay_new {}"
  by (simp add: remembers_def replay_new_def)

lemma remembers_resumed: "remembers (resumed h) {..h}"
  by (auto simp: remembers_def resumed_def word_le_nat_alt)

lemma remembers_mark:
  assumes "remembers w S"
  shows "remembers (mark w q) (insert q S)"
proof (cases "rw_highest w")
  case None
  then show ?thesis using assms
    by (auto simp: remembers_def mark_def bit_1_iff word_le_nat_alt word_unat_eq_iff)
next
  case (Some h)
  have top: "\<And>x. x \<in> S \<Longrightarrow> x \<le> h" and hS: "h \<in> S"
    and bits: "\<And>x. unat x \<le> unat h \<Longrightarrow> unat h - unat x < 64 \<Longrightarrow> bit (rw_seen w) (unat h - unat x) \<longleftrightarrow> x \<in> S"
    using assms Some by (auto simp: remembers_def)
  have "bit (rw_seen (mark w q)) (unat (max h q) - unat x) \<longleftrightarrow> x \<in> insert q S"
    if x: "unat x \<le> unat (max h q)" "unat (max h q) - unat x < 64" for x
  proof (cases "q > h")
    case True
    show ?thesis
    proof (cases "x \<le> h")
      case True
      then have gap: "unat q - unat x - (unat q - unat h) = unat h - unat x"
        using \<open>q > h\<close> by (simp add: word_le_nat_alt word_less_nat_alt)
      have "x \<noteq> q" using True \<open>q > h\<close> by auto
      with True \<open>q > h\<close> x bits [of x] show ?thesis
        by (auto simp: mark_bits [OF Some] max_def word_le_nat_alt word_less_nat_alt gap)
    next
      case False
      then have "x \<notin> S" using top by auto
      with False \<open>q > h\<close> x show ?thesis
        by (auto simp: mark_bits [OF Some] max_def word_le_nat_alt word_less_nat_alt
            word_unat_eq_iff)
    qed
  next
    case False
    with x bits [of x] show ?thesis
      by (auto simp: mark_bits [OF Some] max_def word_le_nat_alt word_less_nat_alt
          word_unat_eq_iff split: if_splits)
  qed
  then show ?thesis
    using top hS by (auto simp: remembers_def mark_highest Some max_def dest: top)
qed

lemma remembers_marks: "remembers w S \<Longrightarrow> remembers (foldl mark w qs) (S \<union> set qs)"
proof (induction qs arbitrary: w S)
  case (Cons q qs)
  from Cons.IH [OF remembers_mark [OF Cons.prems]] show ?case by simp
qed simp

lemma remembers_seen:
  "remembers w S \<Longrightarrow> replay_seen w q \<longleftrightarrow> q \<in> S \<or> (\<exists>h \<in> S. unat q + 64 \<le> unat h)"
proof (cases "rw_highest w")
  case None
  then show "remembers w S \<Longrightarrow> ?thesis" by (simp add: remembers_def replay_seen_nat)
next
  case (Some h)
  assume "remembers w S"
  then have top: "\<And>x. x \<in> S \<Longrightarrow> unat x \<le> unat h" and hS: "h \<in> S"
    and bits: "\<And>x. unat x \<le> unat h \<Longrightarrow> unat h - unat x < 64 \<Longrightarrow> bit (rw_seen w) (unat h - unat x) \<longleftrightarrow> x \<in> S"
    using Some by (auto simp: remembers_def word_le_nat_alt)
  show ?thesis
  proof (cases "unat q + 64 \<le> unat h")
    case True
    then show ?thesis using hS Some by (auto simp: replay_seen_nat)
  next
    case False
    have far: "\<not> (\<exists>x \<in> S. unat q + 64 \<le> unat x)"
      using False top by (meson le_trans)
    show ?thesis
    proof (cases "unat q \<le> unat h")
      case True
      then show ?thesis using bits [of q] False far Some by (auto simp: replay_seen_nat)
    next
      case False
      then have "q \<notin> S" using top by blast
      then show ?thesis using False far Some by (simp add: replay_seen_nat)
    qed
  qed
qed

section \<open>Properties\<close>

text \<open>
  (C14) The 64-bit window is exact: after any sequences have been marked, in any order, a
  frame counts as a replay exactly when its sequence is one of them, or lies 64 or more
  behind one of them. An unseen sequence inside the window is never refused.
\<close>

theorem replay_window_exact:
  "replay_seen (foldl mark replay_new qs) q \<longleftrightarrow>
     q \<in> set qs \<or> (\<exists>h \<in> set qs. unat q + 64 \<le> unat h)"
  using remembers_seen [OF remembers_marks [OF remembers_new, of qs]] by simp

text \<open>
  A receiver that resumes from the highest sequence its journal recorded refuses
  everything up to that sequence, however it is marked afterwards, and treats newer
  sequences as a window that had always been running would.
\<close>

theorem resumed_window_exact:
  "replay_seen (foldl mark (resumed h) qs) q \<longleftrightarrow>
     q \<le> h \<or> q \<in> set qs \<or> (\<exists>x \<in> set qs. unat q + 64 \<le> unat x)"
proof -
  have "unat q + 64 \<le> unat x \<Longrightarrow> x \<le> h \<Longrightarrow> q \<le> h" for x
    by (simp add: word_le_nat_alt)
  then show ?thesis
    using remembers_seen [OF remembers_marks [OF remembers_resumed, of h qs]] by auto
qed

end
