(* ===== verification/Lcq_Budget.thy ===== *)
theory Lcq_Budget
  imports Lcq_Prelude
begin

text \<open>
  \<open>src/application/budget.rs\<close>: the duty-cycle meter. Times and airtimes are 64-bit
  milliseconds and the arithmetic saturates as in the code. The main result is the legal
  one: whatever is asked for, what \<open>transmit\<close> lets through never exceeds 36 s in any hour.
\<close>

definition DUTY_CYCLE_BUDGET_MS :: u64 where
  "DUTY_CYCLE_BUDGET_MS = 36000"

definition DUTY_CYCLE_WINDOW_MS :: u64 where
  "DUTY_CYCLE_WINDOW_MS = 3600000"

definition duty_cycle_ok :: "u64 \<Rightarrow> u64 \<Rightarrow> bool" where
  "duty_cycle_ok used_ms next_ms \<longleftrightarrow> sat_add used_ms next_ms \<le> DUTY_CYCLE_BUDGET_MS"

record AirtimeBudget =
  sent :: "(u64 \<times> u64) list"
  total_ms :: u64

definition budget_new :: AirtimeBudget where
  "budget_new = \<lparr>sent = [], total_ms = 0\<rparr>"

definition charge :: "AirtimeBudget \<Rightarrow> u64 \<Rightarrow> u64 \<Rightarrow> AirtimeBudget" where
  "charge b now_ms air_ms = \<lparr>sent = sent b @ [(now_ms, air_ms)], total_ms = sat_add (total_ms b) air_ms\<rparr>"

definition with_prior :: "u64 \<Rightarrow> AirtimeBudget" where
  "with_prior prior_ms = (if prior_ms > 0 then charge budget_new 0 prior_ms else budget_new)"

fun evict_loop :: "u64 \<Rightarrow> (u64 \<times> u64) list \<Rightarrow> u64 \<Rightarrow> (u64 \<times> u64) list \<times> u64" where
  "evict_loop horizon [] used = ([], used)"
| "evict_loop horizon ((at, air) # rest) used =
     (if at \<ge> horizon then ((at, air) # rest, used)
      else evict_loop horizon rest (sat_sub used air))"

definition evict :: "AirtimeBudget \<Rightarrow> u64 \<Rightarrow> AirtimeBudget" where
  "evict b now_ms =
     (let horizon = sat_sub now_ms DUTY_CYCLE_WINDOW_MS
      in case evict_loop horizon (sent b) (total_ms b) of (s, t) \<Rightarrow> \<lparr>sent = s, total_ms = t\<rparr>)"

definition used_ms :: "AirtimeBudget \<Rightarrow> u64 \<Rightarrow> u64 \<times> AirtimeBudget" where
  "used_ms b now_ms = (let b = evict b now_ms in (total_ms b, b))"

definition allows :: "AirtimeBudget \<Rightarrow> u64 \<Rightarrow> u64 \<Rightarrow> bool \<times> AirtimeBudget" where
  "allows b now_ms air_ms = (let b = evict b now_ms in (duty_cycle_ok (total_ms b) air_ms, b))"

definition transmit :: "AirtimeBudget \<Rightarrow> u64 \<Rightarrow> u64 \<Rightarrow> bool \<times> AirtimeBudget" where
  "transmit b now_ms air_ms =
     (case allows b now_ms air_ms of
        (False, b) \<Rightarrow> (False, b)
      | (True, b) \<Rightarrow> (True, charge b now_ms air_ms))"

text \<open>A transmitter's day: the frames it asks to send, and those that went out.\<close>

fun on_air :: "AirtimeBudget \<Rightarrow> (u64 \<times> u64) list \<Rightarrow> (u64 \<times> u64) list" where
  "on_air b [] = []"
| "on_air b ((now, air) # reqs) =
     (case transmit b now air of
        (True, b') \<Rightarrow> (now, air) # on_air b' reqs
      | (False, b') \<Rightarrow> on_air b' reqs)"

section \<open>The meter counts what is in the window\<close>

definition airtime :: "(u64 \<times> u64) list \<Rightarrow> nat" where
  "airtime xs = sum_list (map (unat \<circ> snd) xs)"

lemma airtime_simps [simp]:
  "airtime [] = 0" "airtime (x # xs) = unat (snd x) + airtime xs"
  "airtime (xs @ ys) = airtime xs + airtime ys"
  by (simp_all add: airtime_def)

lemma airtime_filter_le: "airtime (filter P xs) \<le> airtime xs"
  by (induction xs) auto

lemma evict_loop_correct:
  assumes "evict_loop h xs t = (ys, t')" and "unat t = airtime xs"
  obtains ds where "xs = ds @ ys" "\<forall>d \<in> set ds. fst d < h" "unat t' = airtime ys"
    "\<forall>y ys'. ys = y # ys' \<longrightarrow> h \<le> fst y"
  using assms
proof (induction h xs t arbitrary: thesis rule: evict_loop.induct)
  case (2 h at air rest t)
  show ?case
  proof (cases "at \<ge> h")
    case True
    then show ?thesis using 2(2) [of "[]"] 2(3,4) by auto
  next
    case False
    have "unat (sat_sub t air) = airtime rest" using 2(4) by (simp add: sat_simps)
    with 2(1) [OF False] 2(3) False obtain ds where
      "rest = ds @ ys" "\<forall>d \<in> set ds. fst d < h" "unat t' = airtime ys"
      "\<forall>y ys'. ys = y # ys' \<longrightarrow> h \<le> fst y" by auto
    then show ?thesis using 2(2) [of "(at, air) # ds"] False by simp
  qed
qed auto

text \<open>
  \<open>metered b past now\<close>: the budget \<open>b\<close> at time \<open>now\<close> holds the tail of the past
  transmissions, counts it exactly, and has forgotten only what has left the window.
\<close>

definition metered :: "AirtimeBudget \<Rightarrow> (u64 \<times> u64) list \<Rightarrow> nat \<Rightarrow> bool" where
  "metered b past now \<longleftrightarrow>
     (\<exists>ds. past = ds @ sent b \<and> (\<forall>d \<in> set ds. unat (fst d) + 3600000 < now))
     \<and> unat (total_ms b) = airtime (sent b) \<and> (\<forall>p \<in> set past. unat (fst p) \<le> now)"

lemma metered_evict:
  assumes "metered b past n" and "n \<le> unat now"
  shows "metered (evict b now) past (unat now)"
proof -
  obtain ds where ds: "past = ds @ sent b" "\<forall>d \<in> set ds. unat (fst d) + 3600000 < n"
    and t: "unat (total_ms b) = airtime (sent b)" and p: "\<forall>p \<in> set past. unat (fst p) \<le> n"
    using assms(1) by (auto simp: metered_def)
  obtain s t' where e: "evict_loop (sat_sub now DUTY_CYCLE_WINDOW_MS) (sent b) (total_ms b) = (s, t')"
    by fastforce
  obtain es where es: "sent b = es @ s" "\<forall>d \<in> set es. fst d < sat_sub now DUTY_CYCLE_WINDOW_MS"
      "unat t' = airtime s"
    by (rule evict_loop_correct [OF e t])
  have "past = (ds @ es) @ s" using ds es by simp
  moreover have "\<forall>d \<in> set (ds @ es). unat (fst d) + 3600000 < unat now"
    using ds(2) es(2) assms(2)
    by (fastforce simp: word_less_nat_alt sat_simps DUTY_CYCLE_WINDOW_MS_def)
  moreover have "\<forall>p \<in> set past. unat (fst p) \<le> unat now" using p assms(2) by fastforce
  ultimately show ?thesis
    using e es(3) unfolding metered_def by (auto simp: evict_def Let_def)
qed

text \<open>On a history in order, what is left after eviction is exactly the window.\<close>

lemma evict_counts:
  assumes "metered b past n" and "n \<le> unat now" and "sorted (map fst past)"
  shows "airtime (filter (\<lambda>p. unat now \<le> unat (fst p) + 3600000) past) = unat (total_ms (evict b now))"
proof -
  let ?h = "sat_sub now DUTY_CYCLE_WINDOW_MS" and ?w = "\<lambda>p :: u64 \<times> u64. unat now \<le> unat (fst p) + 3600000"
  obtain ds where ds: "past = ds @ sent (evict b now)" "\<forall>d \<in> set ds. \<not> ?w d"
    and t: "unat (total_ms (evict b now)) = airtime (sent (evict b now))"
    using metered_evict [OF assms(1,2)] by (auto simp: metered_def not_le)
  have tot: "unat (total_ms b) = airtime (sent b)" using assms(1) by (simp add: metered_def)
  obtain s t' where e: "evict_loop ?h (sent b) (total_ms b) = (s, t')" by fastforce
  have hd: "\<forall>y ys. s = y # ys \<longrightarrow> ?h \<le> fst y"
    by (rule evict_loop_correct [OF e tot])
  have "sorted (map fst s)" using assms(3) ds(1) e by (simp add: evict_def Let_def sorted_append)
  with hd have "\<forall>p \<in> set s. ?h \<le> fst p" by (cases s) (auto intro: order_trans)
  then have "\<forall>p \<in> set s. ?w p"
    by (fastforce simp: word_le_nat_alt sat_simps DUTY_CYCLE_WINDOW_MS_def)
  moreover have "sent (evict b now) = s" using e by (simp add: evict_def Let_def)
  ultimately have "filter ?w past = sent (evict b now)"
    using ds by (simp add: filter_empty_conv)
  then show ?thesis using t by simp
qed

definition in_hour :: "nat \<Rightarrow> (u64 \<times> u64) list \<Rightarrow> (u64 \<times> u64) list" where
  "in_hour x = filter (\<lambda>p. x \<le> unat (fst p) \<and> unat (fst p) \<le> x + 3600000)"

definition within_law :: "(u64 \<times> u64) list \<Rightarrow> bool" where
  "within_law xs \<longleftrightarrow> (\<forall>x. airtime (in_hour x xs) \<le> 36000)"

lemma duty_cycle_nat: "duty_cycle_ok u a \<longleftrightarrow> unat u + unat a \<le> 36000"
  by (simp add: duty_cycle_ok_def DUTY_CYCLE_BUDGET_MS_def word_le_nat_alt sat_simps min_def)

lemma charge_lawful:
  assumes "metered b past (unat now)" and "within_law past" and "duty_cycle_ok (total_ms b) air"
  shows "within_law (past @ [(now, air)]) \<and> metered (charge b now air) (past @ [(now, air)]) (unat now)"
proof
  obtain ds where ds: "past = ds @ sent b" "\<forall>d \<in> set ds. unat (fst d) + 3600000 < unat now"
    and t: "unat (total_ms b) = airtime (sent b)"
    using assms(1) by (auto simp: metered_def)
  have sum: "airtime (sent b) + unat air \<le> 36000"
    using assms(3) t by (simp add: duty_cycle_nat)
  show "within_law (past @ [(now, air)])"
    unfolding within_law_def
  proof
    fix x
    show "airtime (in_hour x (past @ [(now, air)])) \<le> 36000"
    proof (cases "x \<le> unat now \<and> unat now \<le> x + 3600000")
      case True
      then have "filter (\<lambda>p. x \<le> unat (fst p) \<and> unat (fst p) \<le> x + 3600000) ds = []"
        using ds(2) by (fastforce simp: filter_empty_conv)
      then have "airtime (in_hour x (past @ [(now, air)])) = airtime (in_hour x (sent b)) + unat air"
        using True by (simp add: in_hour_def ds(1))
      also have "\<dots> \<le> airtime (sent b) + unat air"
        by (simp add: in_hour_def airtime_filter_le)
      finally show ?thesis using sum by simp
    next
      case False
      then have "in_hour x (past @ [(now, air)]) = in_hour x past" by (auto simp: in_hour_def)
      then show ?thesis using assms(2) by (simp add: within_law_def)
    qed
  qed
  have "unat (sat_add (total_ms b) air) = airtime (sent b) + unat air"
    using t sum by (simp add: sat_simps)
  then show "metered (charge b now air) (past @ [(now, air)]) (unat now)"
    using assms(1) unfolding metered_def charge_def by auto
qed

lemma on_air_lawful:
  assumes "metered b past n" and "within_law past" and "sorted (map fst reqs)"
    and "\<forall>r \<in> set reqs. n \<le> unat (fst r)"
  shows "within_law (past @ on_air b reqs)"
  using assms
proof (induction reqs arbitrary: b past n)
  case (Cons r reqs)
  obtain now air where r: "r = (now, air)" by (cases r)
  have m: "metered (evict b now) past (unat now)"
    using metered_evict [OF Cons.prems(1)] Cons.prems(4) r by simp
  have later: "\<forall>q \<in> set reqs. unat now \<le> unat (fst q)"
    using Cons.prems(3) r by (auto simp: word_le_nat_alt)
  have sorted: "sorted (map fst reqs)" using Cons.prems(3) by simp
  show ?case
  proof (cases "duty_cycle_ok (total_ms (evict b now)) air")
    case True
    note c = charge_lawful [OF m Cons.prems(2) True]
    from Cons.IH [OF c [THEN conjunct2] c [THEN conjunct1] sorted later] True show ?thesis
      by (simp add: r transmit_def allows_def Let_def)
  next
    case False
    with Cons.IH [OF m Cons.prems(2) sorted later] show ?thesis
      by (simp add: r transmit_def allows_def Let_def)
  qed
qed simp

section \<open>Properties\<close>

text \<open>
  (C39) The duty cycle is kept: a node that asks to transmit at times that do not go
  backwards never puts more than 36 000 ms on the air in any window of 3 600 000 ms,
  wherever the window starts and whatever it asked for.
\<close>

theorem duty_cycle_kept:
  assumes "sorted (map fst reqs)"
  shows "airtime (in_hour x (on_air budget_new reqs)) \<le> 36000"
proof -
  have "within_law ([] @ on_air budget_new reqs)"
    by (rule on_air_lawful [where n = 0])
      (simp_all add: metered_def budget_new_def within_law_def in_hour_def assms)
  then show ?thesis by (simp add: within_law_def)
qed

theorem duty_cycle_kept_witness:
  "on_air budget_new [(0, 20000), (10, 20000), (10, 16000), (3600010, 20000), (3600011, 20000)]
      = [(0, 20000), (10, 16000), (3600010, 20000)]
    \<and> airtime (in_hour 10 (on_air budget_new
        [(0, 20000), (10, 20000), (10, 16000), (3600010, 20000), (3600011, 20000)])) \<le> 36000"
proof
  show "on_air budget_new [(0, 20000), (10, 20000), (10, 16000), (3600010, 20000), (3600011, 20000)]
      = [(0, 20000), (10, 16000), (3600010, 20000)]"
    by code_simp
qed (rule duty_cycle_kept, simp)

text \<open>
  The meter never refuses more than the law asks: a frame is refused exactly when
  its airtime, with what went out since the hour before now began, would pass the budget.
  A refusal records nothing.
\<close>

theorem transmit_refuses_iff:
  assumes "metered b past n" and "n \<le> unat now" and "sorted (map fst past)"
  shows "(fst (transmit b now air) \<longleftrightarrow>
      airtime (filter (\<lambda>p. unat now \<le> unat (fst p) + 3600000) past) + unat air \<le> 36000)
    \<and> snd (transmit b now air) =
        (if fst (transmit b now air) then charge (evict b now) now air else evict b now)"
proof -
  have "airtime (filter (\<lambda>p. unat now \<le> unat (fst p) + 3600000) past) = unat (total_ms (evict b now))"
    by (rule evict_counts [OF assms])
  then show ?thesis
    by (simp add: transmit_def allows_def Let_def duty_cycle_nat split: bool.splits)
qed

theorem transmit_refuses_iff_witness:
  "metered (with_prior 30000) [(0, 30000)] 0 \<and> \<not> fst (transmit (with_prior 30000) 100 7000)
    \<and> fst (transmit (with_prior 30000) 100 6000)"
proof -
  have m: "metered (with_prior 30000) [(0, 30000)] 0"
    by (simp add: metered_def with_prior_def charge_def budget_new_def sat_simps)
  show ?thesis
    using m transmit_refuses_iff [OF m, of 100 7000] transmit_refuses_iff [OF m, of 100 6000] by simp
qed

end
