(* ===== verification/Lcq_Queue.thy ===== *)
theory Lcq_Queue
  imports Lcq_Journal "HOL-Library.Multiset"
begin

text \<open>
  \<open>src/application/queue.rs\<close>: the bounded outgoing queue with two classes, weighted
  fairness and a bounded memory for de-duplication. Sizes (\<open>usize\<close>) are natural numbers;
  the saturating addition of the byte check is written out at 64 bits. The properties are
  over any sequence of the queue's operations: the bounds, that routine traffic is not
  starved, that no accepted frame is lost, and what the de-duplication remembers.
\<close>

datatype QueueError = QFull | QDuplicate

datatype Priority = Routine | Distress

record RadioQueue =
  q_distress :: "OutgoingFrame list"
  q_routine :: "OutgoingFrame list"
  q_seen :: "u64 bset"
  q_seen_order :: "u64 list"
  max_items :: nat
  max_bytes :: nat
  queued_bytes :: nat
  distress_streak :: u8

definition DISTRESS_BURST :: u8 where
  "DISTRESS_BURST = 8"

definition MAX_DEDUP_ENTRIES :: nat where
  "MAX_DEDUP_ENTRIES = 1024"

definition usize_max :: nat where
  "usize_max = 2 ^ 64 - 1"

definition with_capacity :: "nat \<Rightarrow> nat \<Rightarrow> RadioQueue" where
  "with_capacity items bs = \<lparr>q_distress = [], q_routine = [], q_seen = [], q_seen_order = [],
     max_items = items, max_bytes = bs, queued_bytes = 0, distress_streak = 0\<rparr>"

definition q_len :: "RadioQueue \<Rightarrow> nat" where
  "q_len q = length (q_distress q) + length (q_routine q)"

definition q_is_empty :: "RadioQueue \<Rightarrow> bool" where
  "q_is_empty q \<longleftrightarrow> q_len q = 0"

definition seen_count :: "RadioQueue \<Rightarrow> nat" where
  "seen_count q = length (q_seen q)"

fun trim_seen :: "u64 bset \<Rightarrow> u64 list \<Rightarrow> u64 bset \<times> u64 list" where
  "trim_seen seen [] = (seen, [])"
| "trim_seen seen (oldest # rest) =
     (if length (oldest # rest) > MAX_DEDUP_ENTRIES
      then trim_seen (bt_remove oldest seen) rest else (seen, oldest # rest))"

definition remember :: "RadioQueue \<Rightarrow> u64 \<Rightarrow> RadioQueue" where
  "remember q sequence =
     (case trim_seen (bt_insert sequence () (q_seen q)) (q_seen_order q @ [sequence]) of
        (seen, order) \<Rightarrow> q\<lparr>q_seen := seen, q_seen_order := order\<rparr>)"

definition offer :: "RadioQueue \<Rightarrow> OutgoingFrame \<Rightarrow> Priority \<Rightarrow> (QueueError, unit) result \<times> RadioQueue" where
  "offer q frame priority =
     (if bt_contains (q_seen q) (frame_sequence frame) then (Inl QDuplicate, q)
      else if q_len q \<ge> max_items q
              \<or> min (queued_bytes q + length (frame_bytes frame)) usize_max > max_bytes q
           then (Inl QFull, q)
      else let q = remember q (frame_sequence frame);
               q = q\<lparr>queued_bytes := queued_bytes q + length (frame_bytes frame)\<rparr>
           in (Inr (), case priority of
                 Distress \<Rightarrow> q\<lparr>q_distress := q_distress q @ [frame]\<rparr>
               | Routine \<Rightarrow> q\<lparr>q_routine := q_routine q @ [frame]\<rparr>))"

definition forget :: "RadioQueue \<Rightarrow> u64 \<Rightarrow> RadioQueue" where
  "forget q sequence =
     (if bt_contains (q_seen q) sequence
      then q\<lparr>q_seen := bt_remove sequence (q_seen q),
             q_seen_order := filter (\<lambda>r. r \<noteq> sequence) (q_seen_order q)\<rparr>
      else q)"

definition take_next :: "RadioQueue \<Rightarrow> OutgoingFrame option \<times> RadioQueue" where
  "take_next q =
     (let take_routine = (q_distress q = [] \<or> distress_streak q \<ge> DISTRESS_BURST);
          done = (\<lambda>frame q. (Some frame, q\<lparr>queued_bytes := queued_bytes q - length (frame_bytes frame)\<rparr>))
      in if take_routine \<and> q_routine q \<noteq> []
         then done (hd (q_routine q)) (q\<lparr>distress_streak := 0, q_routine := tl (q_routine q)\<rparr>)
         else case q_distress q of
                frame # rest \<Rightarrow>
                  done frame (q\<lparr>q_distress := rest, distress_streak := sat_add (distress_streak q) 1\<rparr>)
              | [] \<Rightarrow> (case q_routine q of
                         [] \<Rightarrow> (None, q)
                       | frame # rest \<Rightarrow> done frame (q\<lparr>q_routine := rest\<rparr>)))"

definition q_drop_expired :: "RadioQueue \<Rightarrow> timestamp \<Rightarrow> RadioQueue" where
  "q_drop_expired q now =
     (let d = filter (\<lambda>f. \<not> frame_expired now f) (q_distress q);
          r = filter (\<lambda>f. \<not> frame_expired now f) (q_routine q)
      in q\<lparr>q_distress := d, q_routine := r, queued_bytes := sum_list (map (length \<circ> frame_bytes) (d @ r))\<rparr>)"

section \<open>Runs\<close>

datatype q_op = QOffer OutgoingFrame Priority | QForget u64 | QTake | QDrop timestamp

fun q_exec :: "RadioQueue \<Rightarrow> q_op \<Rightarrow> RadioQueue" where
  "q_exec q (QOffer f p) = snd (offer q f p)"
| "q_exec q (QForget s) = forget q s"
| "q_exec q QTake = snd (take_next q)"
| "q_exec q (QDrop now) = q_drop_expired q now"

text \<open>The frames a run takes out, and the frames it accepts.\<close>

fun taken :: "RadioQueue \<Rightarrow> q_op list \<Rightarrow> OutgoingFrame list" where
  "taken q [] = []"
| "taken q (x # xs) =
     (case x of QTake \<Rightarrow> (case fst (take_next q) of None \<Rightarrow> [] | Some f \<Rightarrow> [f]) | _ \<Rightarrow> [])
     @ taken (q_exec q x) xs"

fun accepted :: "RadioQueue \<Rightarrow> q_op list \<Rightarrow> OutgoingFrame list" where
  "accepted q [] = []"
| "accepted q (x # xs) =
     (case x of QOffer f p \<Rightarrow> (case fst (offer q f p) of Inr _ \<Rightarrow> [f] | Inl _ \<Rightarrow> []) | _ \<Rightarrow> [])
     @ accepted (q_exec q x) xs"

section \<open>The invariant\<close>

definition frames :: "RadioQueue \<Rightarrow> OutgoingFrame list" where
  "frames q = q_distress q @ q_routine q"

definition seen_inv :: "RadioQueue \<Rightarrow> bool" where
  "seen_inv q \<longleftrightarrow> bt_inv (q_seen q) \<and> distinct (q_seen_order q)
     \<and> (\<forall>s. bt_contains (q_seen q) s \<longleftrightarrow> s \<in> set (q_seen_order q))
     \<and> length (q_seen_order q) \<le> 1024"

definition queue_inv :: "RadioQueue \<Rightarrow> bool" where
  "queue_inv q \<longleftrightarrow> seen_inv q \<and> q_len q \<le> max_items q
     \<and> queued_bytes q = sum_list (map (length \<circ> frame_bytes) (frames q))
     \<and> queued_bytes q \<le> max_bytes q \<and> max_bytes q < usize_max"

lemma bt_contains_insert: "bt_inv m \<Longrightarrow> bt_contains (bt_insert k v m) s \<longleftrightarrow> s = k \<or> bt_contains m s"
  by (simp add: bt_simps)

lemma bt_contains_remove: "bt_inv m \<Longrightarrow> bt_contains (bt_remove k m) s \<longleftrightarrow> s \<noteq> k \<and> bt_contains m s"
  by (simp add: bt_simps)

text \<open>Trimming after one insertion removes at most the oldest.\<close>

lemma remember_eq:
  assumes "length (q_seen_order q) \<le> 1024"
  shows "remember q s =
    (if length (q_seen_order q) < 1024
     then q\<lparr>q_seen := bt_insert s () (q_seen q), q_seen_order := q_seen_order q @ [s]\<rparr>
     else q\<lparr>q_seen := bt_remove (hd (q_seen_order q)) (bt_insert s () (q_seen q)),
            q_seen_order := tl (q_seen_order q) @ [s]\<rparr>)"
proof -
  have small: "trim_seen m xs = (m, xs)" if "length xs \<le> 1024" for m xs
    using that by (cases xs) (simp_all add: MAX_DEDUP_ENTRIES_def)
  show ?thesis
  proof (cases "length (q_seen_order q) < 1024")
    case True
    then show ?thesis by (simp add: remember_def small)
  next
    case False
    then obtain x xs where x: "q_seen_order q = x # xs" by (cases "q_seen_order q") auto
    have "length xs = 1023" using False assms x by simp
    then show ?thesis by (simp add: remember_def x MAX_DEDUP_ENTRIES_def small)
  qed
qed

lemma seen_inv_remember:
  assumes "seen_inv q" and "\<not> bt_contains (q_seen q) s"
  shows "seen_inv (remember q s)"
proof -
  have i: "bt_inv (q_seen q)" "distinct (q_seen_order q)" "length (q_seen_order q) \<le> 1024"
      "\<And>x. bt_contains (q_seen q) x \<longleftrightarrow> x \<in> set (q_seen_order q)"
    using assms(1) by (simp_all add: seen_inv_def)
  show ?thesis
  proof (cases "length (q_seen_order q) < 1024")
    case True
    then show ?thesis
      using i assms(2) by (simp add: remember_eq seen_inv_def bt_contains_insert del: bt_contains_get)
  next
    case False
    then obtain x xs where x: "q_seen_order q = x # xs" by (cases "q_seen_order q") auto
    show ?thesis
      using i assms(2) False x by (auto simp: remember_eq seen_inv_def bt_contains_insert bt_contains_remove)
  qed
qed

lemma remember_keeps [simp]:
  "q_distress (remember q s) = q_distress q" "q_routine (remember q s) = q_routine q"
  "max_items (remember q s) = max_items q" "max_bytes (remember q s) = max_bytes q"
  "queued_bytes (remember q s) = queued_bytes q" "distress_streak (remember q s) = distress_streak q"
  by (simp_all add: remember_def split: prod.splits)

lemma offer_cases:
  obtains (refused) e where "offer q f p = (Inl e, q)"
  | (accepted) q' where "offer q f p = (Inr (), q')" "\<not> bt_contains (q_seen q) (frame_sequence f)"
      "q_len q < max_items q" "min (queued_bytes q + length (frame_bytes f)) usize_max \<le> max_bytes q"
      "q_seen q' = q_seen (remember q (frame_sequence f))"
      "q_seen_order q' = q_seen_order (remember q (frame_sequence f))"
      "queued_bytes q' = queued_bytes q + length (frame_bytes f)"
      "q_distress q' = q_distress q @ (if p = Distress then [f] else [])"
      "q_routine q' = q_routine q @ (if p = Routine then [f] else [])"
      "max_items q' = max_items q" "max_bytes q' = max_bytes q" "distress_streak q' = distress_streak q"
proof (cases "bt_contains (q_seen q) (frame_sequence f) \<or> q_len q \<ge> max_items q
    \<or> min (queued_bytes q + length (frame_bytes f)) usize_max > max_bytes q")
  case True
  then show thesis by (intro refused [of "if bt_contains (q_seen q) (frame_sequence f) then QDuplicate else QFull"])
      (auto simp: offer_def)
next
  case False
  then have "fst (offer q f p) = Inr ()" by (simp add: offer_def Let_def)
  then have o: "offer q f p = (Inr (), snd (offer q f p))" by (simp add: prod_eq_iff)
  have s: "snd (offer q f p) = (let q = remember q (frame_sequence f);
               q = q\<lparr>queued_bytes := queued_bytes q + length (frame_bytes f)\<rparr>
           in case p of Distress \<Rightarrow> q\<lparr>q_distress := q_distress q @ [f]\<rparr>
               | Routine \<Rightarrow> q\<lparr>q_routine := q_routine q @ [f]\<rparr>)"
    using False by (auto simp: offer_def Let_def)
  show thesis
    by (rule accepted [OF o]) (use False in \<open>auto simp: s Let_def not_le min_def split: Priority.split\<close>)
qed

lemma take_next_cases:
  obtains (empty) "take_next q = (None, q)" "frames q = []"
  | (routine) f fs where "q_routine q = f # fs" "q_distress q = [] \<or> 8 \<le> distress_streak q"
      "take_next q = (Some f, q\<lparr>distress_streak := 0, q_routine := fs,
         queued_bytes := queued_bytes q - length (frame_bytes f)\<rparr>)"
  | (distress) f fs where "q_distress q = f # fs" "q_routine q = [] \<or> distress_streak q < 8"
      "take_next q = (Some f, q\<lparr>q_distress := fs, distress_streak := sat_add (distress_streak q) 1,
         queued_bytes := queued_bytes q - length (frame_bytes f)\<rparr>)"
proof (cases "(q_distress q = [] \<or> distress_streak q \<ge> 8) \<and> q_routine q \<noteq> []")
  case True
  then obtain f fs where "q_routine q = f # fs" by (cases "q_routine q") auto
  with True show thesis by (intro routine) (auto simp: take_next_def DISTRESS_BURST_def)
next
  case False
  show thesis
  proof (cases "q_distress q")
    case Nil
    with False have "q_routine q = []" by auto
    with Nil show thesis by (intro empty) (simp_all add: take_next_def frames_def)
  next
    case (Cons f fs)
    with False show thesis by (intro distress) (auto simp: take_next_def DISTRESS_BURST_def not_le)
  qed
qed

lemma seen_inv_congr:
  "q_seen q' = q_seen q \<Longrightarrow> q_seen_order q' = q_seen_order q \<Longrightarrow> seen_inv q' = seen_inv q"
  by (simp add: seen_inv_def)

lemma inv_offer: "queue_inv q \<Longrightarrow> queue_inv (snd (offer q f p))"
proof (cases rule: offer_cases [of q f p])
  case (accepted q')
  assume i: "queue_inv q"
  have "seen_inv (remember q (frame_sequence f))"
    using i accepted(2) by (simp add: queue_inv_def seen_inv_remember)
  then have s: "seen_inv q'" by (subst seen_inv_congr) (simp_all add: accepted(5,6))
  have "queued_bytes q + length (frame_bytes f) \<le> max_bytes q"
    using accepted(4) i by (auto simp: queue_inv_def min_def split: if_splits)
  then show ?thesis
    using i s accepted(1,3,7-) by (cases p) (auto simp: queue_inv_def q_len_def frames_def)
qed simp

lemma inv_forget: "queue_inv q \<Longrightarrow> queue_inv (forget q s)"
proof -
  assume "queue_inv q"
  moreover from this have "seen_inv (forget q s)"
    by (auto simp: queue_inv_def seen_inv_def forget_def bt_contains_remove
        intro: order_trans [OF length_filter_le])
  ultimately show ?thesis
    by (simp add: queue_inv_def forget_def q_len_def frames_def)
qed

lemma inv_take: "queue_inv q \<Longrightarrow> queue_inv (snd (take_next q))"
  by (cases rule: take_next_cases [of q])
    (auto simp: queue_inv_def q_len_def frames_def seen_inv_def)

lemma sum_filter_le: "sum_list (map g (filter P xs)) \<le> (sum_list (map g xs) :: nat)"
  by (induction xs) auto

lemma inv_drop: "queue_inv q \<Longrightarrow> queue_inv (q_drop_expired q now)"
proof -
  let ?P = "\<lambda>f. \<not> frame_expired now f" and ?g = "length \<circ> frame_bytes"
  assume i: "queue_inv q"
  have "sum_list (map ?g (filter ?P (q_distress q))) + sum_list (map ?g (filter ?P (q_routine q))) \<le> max_bytes q"
    using i add_mono [OF sum_filter_le [of ?g ?P "q_distress q"] sum_filter_le [of ?g ?P "q_routine q"]]
    by (simp add: queue_inv_def frames_def)
  moreover have "length (filter ?P (q_distress q)) + length (filter ?P (q_routine q)) \<le> max_items q"
    using i add_mono [OF length_filter_le [of ?P "q_distress q"] length_filter_le [of ?P "q_routine q"]]
    by (simp add: queue_inv_def q_len_def)
  ultimately show ?thesis
    using i by (simp add: queue_inv_def q_len_def frames_def q_drop_expired_def Let_def seen_inv_def)
qed

lemma inv_exec: "queue_inv q \<Longrightarrow> queue_inv (q_exec q x)"
  by (cases x) (simp_all add: inv_offer inv_forget inv_take inv_drop)

lemma queue_inv_run: "queue_inv q \<Longrightarrow> queue_inv (foldl q_exec q xs)"
  by (induction xs arbitrary: q) (simp_all add: inv_exec)

lemma inv_new: "b < usize_max \<Longrightarrow> queue_inv (with_capacity n b)"
  by (simp add: queue_inv_def seen_inv_def with_capacity_def q_len_def frames_def bt_contains_def)

lemma caps_exec: "max_items (q_exec q x) = max_items q \<and> max_bytes (q_exec q x) = max_bytes q"
proof (cases x)
  case (QOffer f p)
  then show ?thesis by (cases rule: offer_cases [of q f p]) auto
next
  case QTake
  then show ?thesis by (cases rule: take_next_cases [of q]) auto
qed (simp_all add: forget_def q_drop_expired_def Let_def)

lemma caps_run: "max_items (foldl q_exec q xs) = max_items q \<and> max_bytes (foldl q_exec q xs) = max_bytes q"
  by (induction xs arbitrary: q) (simp_all add: caps_exec)

section \<open>Properties\<close>

text \<open>
  The queue is bounded: after any operations it holds at most the item cap and the
  byte cap it was made with, and remembers at most 1024 identities, the same in its set
  and in its order list; its byte count is the bytes it holds.
\<close>

theorem queue_bounded:
  assumes "b < usize_max" and "q = foldl q_exec (with_capacity n b) xs"
  shows "q_len q \<le> n \<and> sum_list (map (length \<circ> frame_bytes) (frames q)) \<le> b
    \<and> queued_bytes q = sum_list (map (length \<circ> frame_bytes) (frames q))
    \<and> seen_count q \<le> 1024 \<and> seen_count q = length (q_seen_order q)"
proof -
  have i: "queue_inv q" using queue_inv_run [OF inv_new [OF assms(1)]] assms(2) by simp
  have c: "max_items q = n" "max_bytes q = b"
    using caps_run [of "with_capacity n b" xs] assms(2) by (simp_all add: with_capacity_def)
  have "seen_inv q" using i by (simp add: queue_inv_def)
  then have "set (map fst (q_seen q)) = set (q_seen_order q)" "distinct (map fst (q_seen q))"
      "distinct (q_seen_order q)"
    by (auto simp: seen_inv_def bt_contains_def bt_inv_distinct)
  then have "length (q_seen q) = length (q_seen_order q)"
    by (metis distinct_card length_map)
  with i c show ?thesis by (auto simp: queue_inv_def seen_inv_def seen_count_def)
qed

text \<open>How many takes the routine head may still wait for.\<close>

lemma routine_waits:
  assumes "q_routine q = r # rs" and "\<forall>x \<in> set xs. \<forall>t. x \<noteq> QDrop t"
    and "length (filter (\<lambda>x. x = QTake) xs) + min 8 (unat (distress_streak q)) \<ge> 9"
  shows "r \<in> set (taken q xs)"
  using assms
proof (induction xs arbitrary: q rs)
  case (Cons x xs)
  have no: "\<forall>x \<in> set xs. \<forall>t. x \<noteq> QDrop t" using Cons.prems(2) by simp
  show ?case
  proof (cases x)
    case (QOffer f p)
    have "\<exists>rs'. q_routine (q_exec q x) = r # rs' \<and> distress_streak (q_exec q x) = distress_streak q"
      unfolding QOffer using Cons.prems(1) by (cases rule: offer_cases [of q f p]) auto
    then show ?thesis using Cons.IH [of "q_exec q x"] no Cons.prems(3) QOffer by auto
  next
    case (QForget s)
    have "q_routine (q_exec q x) = r # rs" "distress_streak (q_exec q x) = distress_streak q"
      using Cons.prems(1) QForget by (simp_all add: forget_def)
    then show ?thesis using Cons.IH [of "q_exec q x" rs] no Cons.prems(3) QForget by auto
  next
    case QTake
    show ?thesis
    proof (cases rule: take_next_cases [of q])
      case empty
      then show ?thesis using Cons.prems(1) by (simp add: frames_def)
    next
      case (routine f fs)
      then show ?thesis using Cons.prems(1) QTake by simp
    next
      case (distress f fs)
      have s: "unat (distress_streak q) < 8"
        using distress(2) Cons.prems(1) by (simp add: word_less_nat_alt)
      have "q_routine (q_exec q x) = r # rs" using Cons.prems(1) distress(3) QTake by simp
      moreover have "unat (distress_streak (q_exec q x)) = Suc (unat (distress_streak q))"
        using s distress(3) QTake by (simp add: sat_simps)
      ultimately show ?thesis
        using Cons.IH [of "q_exec q x" rs] no Cons.prems(3) s QTake by auto
    qed
  next
    case (QDrop t)
    then show ?thesis using Cons.prems(2) by simp
  qed
qed simp

text \<open>
  (C40) Routine traffic is not starved: whatever distress traffic is offered meanwhile,
  the routine frame at the head of its class leaves within nine transmissions (unless
  expiry removes it first).
\<close>

theorem routine_not_starved:
  assumes "q_routine q = r # rs" and "\<forall>x \<in> set xs. \<forall>t. x \<noteq> QDrop t"
    and "length (filter (\<lambda>x. x = QTake) xs) \<ge> 9"
  shows "r \<in> set (taken q xs)"
  using routine_waits [OF assms(1,2)] assms(3) by simp

text \<open>Where an accepted identity sits in the memory, and how far it can be pushed.\<close>

lemma remember_pushes:
  assumes "seen_inv q" and "q_seen_order q = pre @ s # post" and "Suc (length post) < 1024"
  shows "\<exists>pre'. q_seen_order (remember q t) = pre' @ s # (post @ [t])"
proof (cases "length (q_seen_order q) < 1024")
  case True
  then show ?thesis using assms by (simp add: remember_eq)
next
  case False
  have "length (q_seen_order q) = 1024" using False assms(1) by (simp add: seen_inv_def)
  with assms(2,3) obtain x xs where "pre = x # xs" by (cases pre) auto
  then show ?thesis
    using assms False by (simp add: remember_eq seen_inv_def)
qed

lemma forget_other:
  assumes "q_seen_order q = pre @ s # post" and "s \<noteq> t"
  shows "\<exists>pre' post'. q_seen_order (forget q t) = pre' @ s # post' \<and> length post' \<le> length post"
proof (cases "bt_contains (q_seen q) t")
  case True
  then have "q_seen_order (forget q t) = filter (\<lambda>r. r \<noteq> t) pre @ s # filter (\<lambda>r. r \<noteq> t) post"
    using assms by (simp add: forget_def)
  then show ?thesis using length_filter_le by blast
next
  case False
  then have "q_seen_order (forget q t) = pre @ s # post" using assms by (simp add: forget_def)
  then show ?thesis by blast
qed

lemma remembered_run:
  assumes "queue_inv q" and "q_seen_order q = pre @ s # post" and "QForget s \<notin> set xs"
    and "length post + length (accepted q xs) < 1024"
  shows "bt_contains (q_seen (foldl q_exec q xs)) s"
  using assms
proof (induction xs arbitrary: q pre post)
  case Nil
  then show ?case by (simp add: queue_inv_def seen_inv_def)
next
  case (Cons x xs)
  have nf: "QForget s \<notin> set xs" using Cons.prems(3) by simp
  have step: "\<exists>pre' post'. q_seen_order (q_exec q x) = pre' @ s # post'
      \<and> length post' + length (accepted (q_exec q x) xs) < 1024"
  proof (cases x)
    case (QOffer f p)
    show ?thesis
    proof (cases rule: offer_cases [of q f p])
      case (refused e)
      then show ?thesis using Cons.prems QOffer by auto
    next
      case (accepted q')
      have "Suc (length post) < 1024" using Cons.prems(4) QOffer accepted(1) by simp
      then obtain pre' where "q_seen_order (remember q (frame_sequence f)) = pre' @ s # (post @ [frame_sequence f])"
        using remember_pushes [OF _ Cons.prems(2)] Cons.prems(1) by (auto simp: queue_inv_def)
      moreover have "length (post @ [frame_sequence f]) + length (accepted q' xs) < 1024"
        using Cons.prems(4) QOffer accepted(1) by simp
      ultimately show ?thesis using QOffer accepted(1,6) by (metis q_exec.simps(1) snd_conv)
    qed
  next
    case (QForget t)
    then have "s \<noteq> t" using Cons.prems(3) by auto
    from forget_other [OF Cons.prems(2) this] show ?thesis using Cons.prems(4) QForget by fastforce
  next
    case QTake
    have "q_seen_order (snd (take_next q)) = q_seen_order q"
      by (cases rule: take_next_cases [of q]) auto
    then show ?thesis using Cons.prems QTake by auto
  next
    case (QDrop t)
    then show ?thesis using Cons.prems by (auto simp: q_drop_expired_def Let_def)
  qed
  then show ?case using Cons.IH [OF inv_exec [OF Cons.prems(1)] _ nf] by auto
qed

text \<open>
  De-duplication holds for as long as it promises: once a frame is accepted, the
  same identity is refused as a duplicate after any operations that accept fewer than
  1024 further frames and do not forget it, whether or not it has left the queue since.
\<close>

theorem duplicate_refused:
  assumes "queue_inv q" and "offer q f p = (Inr (), q1)" and "length (accepted q1 xs) < 1024"
    and "QForget (frame_sequence f) \<notin> set xs" and "frame_sequence g = frame_sequence f"
  shows "offer (foldl q_exec q1 xs) g p' = (Inl QDuplicate, foldl q_exec q1 xs)"
proof -
  have i: "queue_inv q1" using inv_offer [OF assms(1), of f p] assms(2) by simp
  have "\<exists>pre. q_seen_order q1 = pre @ [frame_sequence f]"
    using assms(1,2) by (cases rule: offer_cases [of q f p]) (auto simp: queue_inv_def seen_inv_def remember_eq)
  then have "bt_contains (q_seen (foldl q_exec q1 xs)) (frame_sequence f)"
    using remembered_run [OF i _ assms(4), of _ "[]"] assms(3) by auto
  then show ?thesis using assms(5) by (simp add: offer_def)
qed

text \<open>
  No frame is lost or made up: over any operations without expiry, the frames that
  were queued or accepted are those that were taken out or are still queued, each as
  often.
\<close>

theorem queue_conserves:
  assumes "\<forall>x \<in> set xs. \<forall>t. x \<noteq> QDrop t"
  shows "mset (frames q) + mset (accepted q xs) = mset (taken q xs) + mset (frames (foldl q_exec q xs))"
  using assms
proof (induction xs arbitrary: q)
  case (Cons x xs)
  have IH: "mset (frames (q_exec q x)) + mset (accepted (q_exec q x) xs)
      = mset (taken (q_exec q x) xs) + mset (frames (foldl q_exec (q_exec q x) xs))"
    by (rule Cons.IH) (use Cons.prems in simp)
  show ?case
  proof (cases x)
    case (QOffer f p)
    show ?thesis using IH unfolding QOffer
      by (cases rule: offer_cases [of q f p]; cases p) (auto simp: frames_def)
  next
    case QTake
    show ?thesis using IH unfolding QTake
      by (cases rule: take_next_cases [of q]) (auto simp: frames_def)
  qed (use IH Cons.prems in \<open>auto simp: frames_def forget_def split: if_splits\<close>)
qed simp

section \<open>Witnesses\<close>

definition sample_queue :: RadioQueue where
  "sample_queue = foldl q_exec (with_capacity 4 100)
     [QOffer (frame_new [1] 10) Routine, QOffer (frame_new [2] 11) Distress, QOffer (frame_new [3] 12) Distress]"

lemma sample_queue_inv: "queue_inv sample_queue"
  unfolding sample_queue_def by (rule queue_inv_run, rule inv_new) (simp add: usize_max_def)

theorem queue_bounded_witness: "q_len sample_queue \<le> 4 \<and> seen_count sample_queue \<le> 1024"
  using queue_bounded [OF _ sample_queue_def] by (simp add: usize_max_def)

lemma sample_queue_routine: "q_routine sample_queue = [frame_new [1] 10]"
  by (simp add: sample_queue_def with_capacity_def offer_def bt_contains_def q_len_def usize_max_def
      remember_def MAX_DEDUP_ENTRIES_def frame_new_def)

theorem routine_not_starved_witness:
  "frame_new [1] 10 \<in> set (taken sample_queue (replicate 9 QTake))"
  by (rule routine_not_starved [OF sample_queue_routine]) (simp_all add: eval_nat_numeral)

theorem duplicate_refused_witness:
  "\<exists>q. offer sample_queue (frame_new [7] 13) Routine = (Inr (), q)
     \<and> offer (foldl q_exec q [QTake, QForget 11, QTake]) (frame_new [7] 13) Distress
        = (Inl QDuplicate, foldl q_exec q [QTake, QForget 11, QTake])"
proof -
  have "fst (offer sample_queue (frame_new [7] 13) Routine) = Inr ()"
    by (simp add: sample_queue_def with_capacity_def offer_def bt_contains_def q_len_def usize_max_def
        remember_def MAX_DEDUP_ENTRIES_def frame_new_def)
  then obtain q where q: "offer sample_queue (frame_new [7] 13) Routine = (Inr (), q)"
    by (cases "offer sample_queue (frame_new [7] 13) Routine") simp
  have "offer (foldl q_exec q [QTake, QForget 11, QTake]) (frame_new [7] 13) Distress
      = (Inl QDuplicate, foldl q_exec q [QTake, QForget 11, QTake])"
    by (rule duplicate_refused [OF sample_queue_inv q]) (simp_all add: frame_new_def)
  with q show ?thesis by blast
qed

theorem queue_conserves_witness:
  "mset (frames sample_queue) = mset (taken sample_queue [QTake, QTake])
     + mset (frames (foldl q_exec sample_queue [QTake, QTake]))"
  using queue_conserves [of "[QTake, QTake]" sample_queue] by simp

end
