(* ===== verification/Lcq_Crypto.thy ===== *)
theory Lcq_Crypto
  imports Lcq_Prelude
begin

text \<open>
  \<open>src/wire/crypto.rs\<close>: keys, signatures and the sealing of frames. The primitives
  (BLAKE2s, ChaCha20-Poly1305 and Ed25519, from crates) are the fields of a record
  \<open>primitives\<close>; \<open>primitives_ok\<close> states what the code relies on and their documentation
  says: decryption inverts encryption under the same key, nonce and associated data, and
  succeeds on nothing else; a ciphertext is 16 bytes longer than its plaintext; a
  signature by a key has 64 bytes and verifies under its public half; a digest has 32 bytes. No secrecy or
  unforgeability is assumed, and none is claimed.
\<close>

record primitives =
  blake2s :: "bytes \<Rightarrow> bytes"
  aead_encrypt :: "bytes \<Rightarrow> bytes \<Rightarrow> bytes \<Rightarrow> bytes \<Rightarrow> bytes option"
  aead_decrypt :: "bytes \<Rightarrow> bytes \<Rightarrow> bytes \<Rightarrow> bytes \<Rightarrow> bytes option"
  ed_public :: "bytes \<Rightarrow> bytes"
  ed_on_curve :: "bytes \<Rightarrow> bool"
  ed_sign :: "bytes \<Rightarrow> bytes \<Rightarrow> bytes"
  ed_verify_strict :: "bytes \<Rightarrow> bytes \<Rightarrow> bytes \<Rightarrow> bool"

definition primitives_ok :: "primitives \<Rightarrow> bool" where
  "primitives_ok p \<longleftrightarrow>
     (\<forall>k n a m c. length k = 32 \<longrightarrow> length n = 12 \<longrightarrow>
        (aead_decrypt p k n a c = Some m \<longleftrightarrow> aead_encrypt p k n a m = Some c))
     \<and> (\<forall>k n a m c. aead_encrypt p k n a m = Some c \<longrightarrow> length c = length m + 16)
     \<and> (\<forall>s m. length s = 32 \<longrightarrow> ed_verify_strict p (ed_public p s) m (ed_sign p s m))
     \<and> (\<forall>s m. length (ed_sign p s m) = 64)
     \<and> (\<forall>s. length s = 32 \<longrightarrow> ed_on_curve p (ed_public p s))
     \<and> (\<forall>x. length (blake2s p x) = 32)"

datatype WireError = BadSignature | DecryptionFailed | MalformedFrame

text \<open>A key is the bytes it is made from.\<close>

record SigningKey = sk_seed :: bytes
record VerifyingKey = vk_bytes :: bytes
record GroupKey = gk_bytes :: bytes

definition from_seed :: "bytes \<Rightarrow> SigningKey" where
  "from_seed seed = \<lparr>sk_seed = seed\<rparr>"

definition verifying_key :: "primitives \<Rightarrow> SigningKey \<Rightarrow> VerifyingKey" where
  "verifying_key p k = \<lparr>vk_bytes = ed_public p (sk_seed k)\<rparr>"

definition sk_sign :: "primitives \<Rightarrow> SigningKey \<Rightarrow> bytes \<Rightarrow> bytes" where
  "sk_sign p k message = ed_sign p (sk_seed k) message"

definition vk_from_bytes :: "primitives \<Rightarrow> bytes \<Rightarrow> (WireError, VerifyingKey) result" where
  "vk_from_bytes p bs = (if ed_on_curve p bs then Inr \<lparr>vk_bytes = bs\<rparr> else Inl BadSignature)"

definition vk_verify :: "primitives \<Rightarrow> VerifyingKey \<Rightarrow> bytes \<Rightarrow> bytes \<Rightarrow> (WireError, unit) result" where
  "vk_verify p k message signature =
     (if ed_verify_strict p (vk_bytes k) message signature then Inr () else Inl BadSignature)"

definition gk_from_bytes :: "bytes \<Rightarrow> GroupKey" where
  "gk_from_bytes bs = \<lparr>gk_bytes = bs\<rparr>"

definition ascii :: "string \<Rightarrow> bytes" where
  "ascii s = map (\<lambda>c. of_char c) s"

definition fixture_for_epoch :: "primitives \<Rightarrow> bytes \<Rightarrow> u16 \<Rightarrow> GroupKey" where
  "fixture_for_epoch p group_key_id epoch =
     \<lparr>gk_bytes = blake2s p (ascii ''lcq-group-key-fixture-v1'' @ group_key_id @ be_bytes 2 epoch)\<rparr>"

definition nonce_for :: "u16 \<Rightarrow> u64 \<Rightarrow> bytes" where
  "nonce_for author_index sequence = be_bytes 2 author_index @ be_bytes 8 sequence @ [0, 0]"

definition FRAME_HEADER_BYTES :: nat where
  "FRAME_HEADER_BYTES = 10"

definition aad_for :: "u16 \<Rightarrow> u64 \<Rightarrow> bytes" where
  "aad_for author_index sequence = be_bytes 2 author_index @ be_bytes 8 sequence"

definition seal :: "primitives \<Rightarrow> GroupKey \<Rightarrow> u16 \<Rightarrow> u64 \<Rightarrow> bytes \<Rightarrow> (WireError, bytes) result" where
  "seal p key author_index sequence plaintext =
     (if length (gk_bytes key) \<noteq> 32 then Inl DecryptionFailed
      else case aead_encrypt p (gk_bytes key) (nonce_for author_index sequence)
                  (aad_for author_index sequence) plaintext of
             None \<Rightarrow> Inl DecryptionFailed
           | Some c \<Rightarrow> Inr c)"

definition open_sealed :: "primitives \<Rightarrow> GroupKey \<Rightarrow> u16 \<Rightarrow> u64 \<Rightarrow> bytes \<Rightarrow> (WireError, bytes) result" where
  "open_sealed p key author_index sequence sealed =
     (if length (gk_bytes key) \<noteq> 32 then Inl DecryptionFailed
      else case aead_decrypt p (gk_bytes key) (nonce_for author_index sequence)
                  (aad_for author_index sequence) sealed of
             None \<Rightarrow> Inl DecryptionFailed
           | Some m \<Rightarrow> Inr m)"

definition seal_frame :: "primitives \<Rightarrow> GroupKey \<Rightarrow> u16 \<Rightarrow> u64 \<Rightarrow> bytes \<Rightarrow> (WireError, bytes) result" where
  "seal_frame p key author_index sequence plaintext =
     (case seal p key author_index sequence plaintext of
        Inl e \<Rightarrow> Inl e
      | Inr ciphertext \<Rightarrow> Inr (aad_for author_index sequence @ ciphertext))"

definition peek_frame_header :: "bytes \<Rightarrow> (WireError, u16 \<times> u64) result" where
  "peek_frame_header frame =
     (if length frame \<le> FRAME_HEADER_BYTES then Inl MalformedFrame
      else Inr (of_be_bytes [frame ! 0, frame ! 1],
                of_be_bytes (take (FRAME_HEADER_BYTES - 2) (drop 2 frame))))"

definition open_frame :: "primitives \<Rightarrow> GroupKey \<Rightarrow> bytes \<Rightarrow> (WireError, u16 \<times> u64 \<times> bytes) result" where
  "open_frame p key frame =
     (if length frame \<le> FRAME_HEADER_BYTES then Inl MalformedFrame
      else let header = take FRAME_HEADER_BYTES frame;
               ciphertext = drop FRAME_HEADER_BYTES frame;
               author_index = of_be_bytes [header ! 0, header ! 1];
               sequence = of_be_bytes (drop 2 header)
           in case open_sealed p key author_index sequence ciphertext of
                Inl e \<Rightarrow> Inl e
              | Inr plaintext \<Rightarrow> Inr (author_index, sequence, plaintext))"

section \<open>Headers and nonces\<close>

lemma aad_length [simp]: "length (aad_for i q) = 10"
  by (simp add: aad_for_def)

lemma nonce_length [simp]: "length (nonce_for i q) = 12"
  by (simp add: nonce_for_def)

lemma nonce_inj: "nonce_for i q = nonce_for i' q' \<longleftrightarrow> i = i' \<and> q = q'"
  by (auto simp: nonce_for_def append_eq_append_conv)

lemma first_two: "2 \<le> length xs \<Longrightarrow> [xs ! 0, xs ! 1] = take 2 xs"
  by (cases xs; cases "tl xs") auto

lemma read_header:
  "of_be_bytes [(aad_for i q @ c) ! 0, (aad_for i q @ c) ! 1] = i"
  "of_be_bytes (take 8 (drop 2 (aad_for i q @ c))) = q"
  "drop 10 (aad_for i q @ c) = c" "take 10 (aad_for i q @ c) = aad_for i q"
proof -
  have "[(aad_for i q @ c) ! 0, (aad_for i q @ c) ! 1] = take 2 (aad_for i q @ c)"
    by (rule first_two) simp
  then show "of_be_bytes [(aad_for i q @ c) ! 0, (aad_for i q @ c) ! 1] = i"
    by (simp add: aad_for_def)
qed (simp_all add: aad_for_def)

text \<open>A buffer longer than a header is the header it reads as, and the rest.\<close>

lemma header_exact:
  assumes "10 < length frame"
  shows "aad_for (of_be_bytes [frame ! 0, frame ! 1]) (of_be_bytes (take 8 (drop 2 frame))) @ drop 10 frame = frame"
proof -
  have "be_bytes 2 (of_be_bytes (take 2 frame) :: u16) = take 2 frame"
    by (rule be_bytes_of_be_bytes) (use assms in simp_all)
  moreover have "be_bytes 8 (of_be_bytes (take 8 (drop 2 frame)) :: u64) = take 8 (drop 2 frame)"
    by (rule be_bytes_of_be_bytes) (use assms in simp_all)
  moreover have "[frame ! 0, frame ! 1] = take 2 frame" by (rule first_two) (use assms in simp)
  moreover have "take 2 frame @ take 8 (drop 2 frame) @ drop 10 frame = frame"
    using append_take_drop_id [of 2 frame] append_take_drop_id [of 8 "drop 2 frame"] by simp
  ultimately show ?thesis by (simp add: aad_for_def)
qed

section \<open>Properties\<close>

lemma open_frame_seal:
  assumes "primitives_ok p"
  shows "open_frame p key f = Inr (i, q, m) \<longleftrightarrow> seal_frame p key i q m = Inr f"
proof
  assume "seal_frame p key i q m = Inr f"
  then obtain c where f: "f = aad_for i q @ c" and k: "length (gk_bytes key) = 32"
    and c: "aead_encrypt p (gk_bytes key) (nonce_for i q) (aad_for i q) m = Some c"
    by (auto simp: seal_frame_def seal_def split: option.splits if_splits)
  have "10 < length f" using c f assms by (fastforce simp: primitives_ok_def)
  moreover have "aead_decrypt p (gk_bytes key) (nonce_for i q) (aad_for i q) c = Some m"
    using c k assms by (simp add: primitives_ok_def)
  ultimately show "open_frame p key f = Inr (i, q, m)"
    using k read_header [of i q "[]"] read_header [of i q c]
    by (simp add: open_frame_def FRAME_HEADER_BYTES_def f open_sealed_def)
next
  assume o: "open_frame p key f = Inr (i, q, m)"
  then have l: "10 < length f" by (simp add: open_frame_def FRAME_HEADER_BYTES_def split: if_splits)
  have h: "take 10 f ! 0 = f ! 0" "take 10 f ! 1 = f ! 1" "drop 2 (take 10 f) = take 8 (drop 2 f)"
    using l by (simp_all add: drop_take)
  have s: "open_sealed p key (of_be_bytes [f ! 0, f ! 1]) (of_be_bytes (take 8 (drop 2 f))) (drop 10 f) = Inr m"
    and i: "i = of_be_bytes [f ! 0, f ! 1]" and q: "q = of_be_bytes (take 8 (drop 2 f))"
    using o l unfolding open_frame_def FRAME_HEADER_BYTES_def Let_def h
    by (auto split: if_splits sum.splits)
  have "length (gk_bytes key) = 32"
    and "aead_decrypt p (gk_bytes key) (nonce_for i q) (aad_for i q) (drop 10 f) = Some m"
    using s unfolding i q by (auto simp: open_sealed_def split: if_splits option.splits)
  then have "seal_frame p key i q m = Inr (aad_for i q @ drop 10 f)"
    using assms by (simp add: seal_frame_def seal_def primitives_ok_def)
  then show "seal_frame p key i q m = Inr f" using header_exact [OF l] unfolding i q by simp
qed

text \<open>
  A frame opens to exactly what was sealed: \<open>open_frame\<close> returns an author index, a
  sequence and a plaintext if and only if the frame is the one \<open>seal_frame\<close> makes of them
  under the same key. So every sealed frame opens, and no frame whose header or
  ciphertext differs from what was sealed under its key opens as it.
\<close>

theorem open_frame_iff_sealed:
  assumes "primitives_ok p"
  shows "open_frame p key f = Inr (i, q, m) \<longleftrightarrow> seal_frame p key i q m = Inr f"
  using assms by (rule open_frame_seal)

text \<open>
  The cheap look at a header and the opening of a frame never disagree: when a frame
  opens, \<open>peek_frame_header\<close> had reported the same author index and sequence, and a
  frame it refuses is refused by \<open>open_frame\<close> with the same error, whatever the key.
\<close>

theorem peek_agrees_with_open:
  "(case open_frame p key f of
      Inr (i, q, m) \<Rightarrow> peek_frame_header f = Inr (i, q)
    | Inl MalformedFrame \<Rightarrow> peek_frame_header f = Inl MalformedFrame
    | Inl _ \<Rightarrow> \<exists>h. peek_frame_header f = Inr h)"
proof (cases "length f \<le> 10")
  case True
  then show ?thesis by (simp add: open_frame_def peek_frame_header_def FRAME_HEADER_BYTES_def)
next
  case False
  then have h: "take 10 f ! 0 = f ! 0" "take 10 f ! 1 = f ! 1" "drop 2 (take 10 f) = take 8 (drop 2 f)"
    by (simp_all add: drop_take)
  show ?thesis
    using False unfolding open_frame_def peek_frame_header_def FRAME_HEADER_BYTES_def Let_def h
    by (auto simp: open_sealed_def split: sum.splits option.splits)
qed

section \<open>Witnesses\<close>

definition sample_primitives :: primitives where
  "sample_primitives = \<lparr>blake2s = (\<lambda>x. replicate 32 (of_nat (length x))),
     aead_encrypt = (\<lambda>k n a m. Some (m @ replicate 16 (of_nat (length a)))),
     aead_decrypt = (\<lambda>k n a c. if 16 \<le> length c \<and> drop (length c - 16) c = replicate 16 (of_nat (length a))
       then Some (take (length c - 16) c) else None),
     ed_public = (\<lambda>s. s), ed_on_curve = (\<lambda>b. length b = 32), ed_sign = (\<lambda>s m. take 64 (s @ m @ replicate 64 0)),
     ed_verify_strict = (\<lambda>k m s. s = take 64 (k @ m @ replicate 64 0))\<rparr>"

lemma sample_primitives_ok: "primitives_ok sample_primitives"
  by (auto simp: primitives_ok_def sample_primitives_def) (metis append_take_drop_id)

theorem open_frame_iff_sealed_witness:
  "open_frame sample_primitives (gk_from_bytes (replicate 32 1)) (aad_for 3 77 @ [5, 6] @ replicate 16 10)
     = Inr (3, 77, [5, 6])"
  using open_frame_iff_sealed [OF sample_primitives_ok, of "gk_from_bytes (replicate 32 1)"
      "aad_for 3 77 @ [5, 6] @ replicate 16 10" 3 77 "[5, 6]"]
  by (simp add: seal_frame_def seal_def gk_from_bytes_def sample_primitives_def)

end
