(* ===== verification/Lcq_Codec.thy ===== *)
theory Lcq_Codec
  imports Lcq_Crypto Lcq_Contracts
begin

text \<open>
  \<open>src/wire/codec.rs\<close> and \<open>src/wire/compact.rs\<close>: the readable and the compact
  envelope, what a signature covers, the acknowledgement bitmap and the round label. A
  transcript is the digest of a byte string; the theorems are about that byte string: it
  determines every field, and the strings of the two forms never meet. The serializer
  (the \<open>postcard\<close> crate) is a parameter, with what the code relies on as hypothesis.
\<close>

unbundle bit_operations_syntax

section \<open>The readable envelope\<close>

definition TRANSCRIPT_DOMAIN :: bytes where
  "TRANSCRIPT_DOMAIN = ascii ''lcq-v1-endorsement''"

record Envelope =
  en_mission :: string
  en_event :: string
  en_revision :: u32
  en_content_hash :: bytes
  en_started_at :: u64
  en_author :: string
  en_stage :: u8
  en_verdict :: u8
  en_sequence :: u64

definition stage_code :: "Stage \<Rightarrow> u8" where
  "stage_code s = (case s of Independent \<Rightarrow> 1 | Consultation \<Rightarrow> 2 | BindingSupport \<Rightarrow> 3)"

definition verdict_code :: "Verdict \<Rightarrow> u8" where
  "verdict_code v = (case v of Support \<Rightarrow> 1 | Dispute \<Rightarrow> 2 | InsufficientData \<Rightarrow> 3)"

definition envelope_new :: "Subject \<Rightarrow> string \<Rightarrow> Stage \<Rightarrow> Verdict \<Rightarrow> u64 \<Rightarrow> Envelope" where
  "envelope_new s a st v q =
     \<lparr>en_mission = mission s, en_event = event s, en_revision = revision s,
      en_content_hash = content_hash s, en_started_at = started_at s, en_author = a,
      en_stage = stage_code st, en_verdict = verdict_code v, en_sequence = q\<rparr>"

definition envelope_subject :: "Envelope \<Rightarrow> (WireError, Subject) result" where
  "envelope_subject e =
     (case subject_new (en_mission e) (en_event e) (en_revision e) (en_content_hash e) (en_started_at e) of
        Inl _ \<Rightarrow> Inl MalformedFrame
      | Inr s \<Rightarrow> Inr s)"

text \<open>\<open>u32::try_from(len).unwrap_or(u32::MAX)\<close>\<close>

definition length_prefix :: "string \<Rightarrow> bytes" where
  "length_prefix s = be_bytes 4 (if length s < 2 ^ 32 then of_nat (length s) else - 1 :: u32)"

definition transcript_bytes :: "Envelope \<Rightarrow> bytes" where
  "transcript_bytes e =
     TRANSCRIPT_DOMAIN @ [en_stage e]
     @ length_prefix (en_mission e) @ ascii (en_mission e)
     @ length_prefix (en_event e) @ ascii (en_event e)
     @ be_bytes 4 (en_revision e) @ en_content_hash e @ be_bytes 8 (en_started_at e)
     @ length_prefix (en_author e) @ ascii (en_author e)
     @ [en_verdict e] @ be_bytes 8 (en_sequence e)"

definition transcript :: "primitives \<Rightarrow> Envelope \<Rightarrow> bytes" where
  "transcript p e = blake2s p (transcript_bytes e)"

record SignedEnvelope =
  se_envelope :: Envelope
  se_signature :: bytes

definition envelope_sign :: "primitives \<Rightarrow> Envelope \<Rightarrow> SigningKey \<Rightarrow> SignedEnvelope" where
  "envelope_sign p e key = \<lparr>se_envelope = e, se_signature = sk_sign p key (transcript p e)\<rparr>"

definition envelope_verify :: "primitives \<Rightarrow> SignedEnvelope \<Rightarrow> VerifyingKey \<Rightarrow> (WireError, unit) result" where
  "envelope_verify p s key = vk_verify p key (transcript p (se_envelope s)) (se_signature s)"

record 'a serializer =
  ser :: "'a \<Rightarrow> bytes option"
  deser :: "bytes \<Rightarrow> 'a option"

definition serializer_ok :: "'a serializer \<Rightarrow> bool" where
  "serializer_ok sz \<longleftrightarrow> (\<forall>x bs. ser sz x = Some bs \<longrightarrow> deser sz bs = Some x)"

definition codec_encode :: "SignedEnvelope serializer \<Rightarrow> SignedEnvelope \<Rightarrow> (WireError, bytes) result" where
  "codec_encode sz s = (case ser sz s of None \<Rightarrow> Inl MalformedFrame | Some bs \<Rightarrow> Inr bs)"

definition codec_decode :: "SignedEnvelope serializer \<Rightarrow> bytes \<Rightarrow> (WireError, SignedEnvelope) result" where
  "codec_decode sz bs = (case deser sz bs of None \<Rightarrow> Inl MalformedFrame | Some s \<Rightarrow> Inr s)"

section \<open>Acknowledgements and rounds\<close>

definition COMPACT_DOMAIN :: bytes where
  "COMPACT_DOMAIN = ascii ''lcq-v1-compact''"

definition CASE_DOMAIN :: bytes where
  "CASE_DOMAIN = ascii ''lcq-v1-case''"

definition CASE_REFERENCE_BYTES :: nat where
  "CASE_REFERENCE_BYTES = 8"

definition case_reference :: "primitives \<Rightarrow> bytes \<Rightarrow> bytes" where
  "case_reference p h = take CASE_REFERENCE_BYTES (blake2s p (CASE_DOMAIN @ h))"

definition MAX_FRAME_BYTES :: nat where
  "MAX_FRAME_BYTES = 152"

record Heard = heard_bits :: bytes

definition heard_none :: Heard where
  "heard_none = \<lparr>heard_bits = replicate 8 0\<rparr>"

definition HEARD_CAPACITY :: nat where
  "HEARD_CAPACITY = 64"

definition heard_from :: "Heard \<Rightarrow> nat \<Rightarrow> Heard" where
  "heard_from h index =
     (if index < HEARD_CAPACITY
      then h\<lparr>heard_bits := (heard_bits h)[index div 8 := heard_bits h ! (index div 8) OR push_bit (index mod 8) 1]\<rparr>
      else h)"

definition heard_contains :: "Heard \<Rightarrow> nat \<Rightarrow> bool" where
  "heard_contains h index \<longleftrightarrow>
     index < HEARD_CAPACITY \<and> (heard_bits h ! (index div 8) AND push_bit (index mod 8) 1) \<noteq> 0"

definition count_ones :: "u8 \<Rightarrow> u32" where
  "count_ones b = sum_list (map (\<lambda>i. if bit b i then 1 else 0) [0..<8])"

definition heard_count :: "Heard \<Rightarrow> u32" where
  "heard_count h = foldl (\<lambda>n at. n + count_ones (heard_bits h ! at)) 0 [0..<8]"

record RoundId =
  round_opener :: u16
  round_sequence :: u32

definition round_new :: "u16 \<Rightarrow> u32 \<Rightarrow> RoundId" where
  "round_new opener sequence = \<lparr>round_opener = opener, round_sequence = sequence\<rparr>"

definition round_none :: RoundId where
  "round_none = \<lparr>round_opener = - 1, round_sequence = 0\<rparr>"

definition round_is_set :: "RoundId \<Rightarrow> bool" where
  "round_is_set r \<longleftrightarrow> round_opener r \<noteq> - 1"

definition round_bytes :: "RoundId \<Rightarrow> bytes" where
  "round_bytes r = be_bytes 2 (round_opener r) @ be_bytes 4 (round_sequence r)"

section \<open>The compact envelope\<close>

record CompactEnvelope =
  ce_mission_epoch :: u16
  ce_event :: u32
  ce_revision :: u16
  ce_case :: bytes
  ce_started_at :: u64
  ce_author_index :: u16
  ce_stage :: u8
  ce_verdict :: u8
  ce_sequence :: u64
  ce_heard :: Heard
  ce_round :: RoundId

definition compact_new ::
  "primitives \<Rightarrow> u16 \<Rightarrow> u32 \<Rightarrow> u16 \<Rightarrow> bytes \<Rightarrow> u64 \<Rightarrow> u16 \<Rightarrow> u8 \<Rightarrow> u8 \<Rightarrow> u64 \<Rightarrow> CompactEnvelope" where
  "compact_new p epoch ev rv hash started author_index stg vd sequence =
     \<lparr>ce_mission_epoch = epoch, ce_event = ev, ce_revision = rv, ce_case = case_reference p hash,
      ce_started_at = started, ce_author_index = author_index, ce_stage = stg, ce_verdict = vd,
      ce_sequence = sequence, ce_heard = heard_none, ce_round = round_none\<rparr>"

definition acknowledging :: "CompactEnvelope \<Rightarrow> Heard \<Rightarrow> CompactEnvelope" where
  "acknowledging e h = e\<lparr>ce_heard := h\<rparr>"

definition in_round :: "CompactEnvelope \<Rightarrow> RoundId \<Rightarrow> CompactEnvelope" where
  "in_round e r = e\<lparr>ce_round := r\<rparr>"

definition compact_transcript_bytes :: "CompactEnvelope \<Rightarrow> bytes \<Rightarrow> bytes" where
  "compact_transcript_bytes e hash =
     COMPACT_DOMAIN @ [ce_stage e] @ be_bytes 2 (ce_mission_epoch e) @ be_bytes 4 (ce_event e)
     @ be_bytes 2 (ce_revision e) @ heard_bits (ce_heard e) @ round_bytes (ce_round e)
     @ hash @ ce_case e @ be_bytes 8 (ce_started_at e) @ be_bytes 2 (ce_author_index e)
     @ [ce_verdict e] @ be_bytes 8 (ce_sequence e)"

definition compact_transcript :: "primitives \<Rightarrow> CompactEnvelope \<Rightarrow> bytes \<Rightarrow> bytes" where
  "compact_transcript p e hash = blake2s p (compact_transcript_bytes e hash)"

record SignedCompactEnvelope =
  sc_envelope :: CompactEnvelope
  sc_signature :: bytes

definition compact_sign :: "primitives \<Rightarrow> CompactEnvelope \<Rightarrow> SigningKey \<Rightarrow> bytes \<Rightarrow> SignedCompactEnvelope" where
  "compact_sign p e key hash =
     \<lparr>sc_envelope = e, sc_signature = sk_sign p key (compact_transcript p e hash)\<rparr>"

definition compact_verify ::
  "primitives \<Rightarrow> SignedCompactEnvelope \<Rightarrow> VerifyingKey \<Rightarrow> bytes \<Rightarrow> (WireError, unit) result" where
  "compact_verify p s key hash = vk_verify p key (compact_transcript p (sc_envelope s) hash) (sc_signature s)"

definition encode_compact ::
  "SignedCompactEnvelope serializer \<Rightarrow> SignedCompactEnvelope \<Rightarrow> (WireError, bytes) result" where
  "encode_compact sz s = (case ser sz s of None \<Rightarrow> Inl MalformedFrame | Some bs \<Rightarrow> Inr bs)"

definition decode_compact ::
  "SignedCompactEnvelope serializer \<Rightarrow> bytes \<Rightarrow> (WireError, SignedCompactEnvelope) result" where
  "decode_compact sz bs = (case deser sz bs of None \<Rightarrow> Inl MalformedFrame | Some s \<Rightarrow> Inr s)"

section \<open>Codes and prefixes\<close>

lemma stage_code_inj [simp]: "stage_code a = stage_code b \<longleftrightarrow> a = b"
  by (cases a; cases b) (simp_all add: stage_code_def)

lemma verdict_code_inj [simp]: "verdict_code a = verdict_code b \<longleftrightarrow> a = b"
  by (cases a; cases b) (simp_all add: verdict_code_def)

lemma unat_of_char: "unat (of_char c :: u8) = (of_char c :: nat)"
proof -
  have "unat (of_nat (of_char c) :: u8) = (of_char c :: nat)"
    using nat_of_char_less_256 [of c] by (simp only: unat_of_nat) simp
  then show ?thesis by (simp only: of_nat_of_char)
qed

lemma ascii_inj [simp]: "ascii a = ascii b \<longleftrightarrow> a = b"
proof
  have "inj (of_char :: char \<Rightarrow> u8)" by (rule injI) (metis unat_of_char of_char_eq_iff)
  moreover assume "ascii a = ascii b"
  ultimately show "a = b" unfolding ascii_def by (metis inj_map_eq_map)
qed simp

lemma length_ascii [simp]: "length (ascii s) = length s"
  by (simp add: ascii_def)

lemma prefixed_inj:
  assumes "length a < 2 ^ 32" and "length b < 2 ^ 32"
    and "length_prefix a @ ascii a @ xs = length_prefix b @ ascii b @ ys"
  shows "a = b \<and> xs = ys"
proof -
  have "length_prefix a = length_prefix b" "ascii a @ xs = ascii b @ ys"
    using assms(3) by (auto simp: append_eq_append_conv length_prefix_def)
  then have "(of_nat (length a) :: u32) = of_nat (length b)"
    using assms(1,2) by (simp add: length_prefix_def)
  then have "length a = length b"
    using assms(1,2) by (simp add: word_unat_eq_iff unat_of_nat)
  then show ?thesis using \<open>ascii a @ xs = ascii b @ ys\<close> by (simp add: append_eq_append_conv)
qed

lemma append_same_length: "length a = length b \<Longrightarrow> a @ x = b @ y \<longleftrightarrow> a = b \<and> x = y"
  by simp

text \<open>What Rust's types say of an envelope: a hash has 32 bytes, and a string fits memory.\<close>

definition envelope_wf :: "Envelope \<Rightarrow> bool" where
  "envelope_wf e \<longleftrightarrow> length (en_content_hash e) = 32 \<and> length (en_mission e) < 2 ^ 32
     \<and> length (en_event e) < 2 ^ 32 \<and> length (en_author e) < 2 ^ 32"

definition compact_wf :: "CompactEnvelope \<Rightarrow> bool" where
  "compact_wf e \<longleftrightarrow> length (heard_bits (ce_heard e)) = 8 \<and> length (ce_case e) = 8"

lemma round_bytes_inj: "round_bytes a = round_bytes b \<longleftrightarrow> a = b"
  by (auto simp: round_bytes_def append_same_length)

lemma length_round_bytes [simp]: "length (round_bytes r) = 6"
  by (simp add: round_bytes_def)

section \<open>Properties of what is signed\<close>

text \<open>
  The byte string a signature covers determines the whole envelope: two envelopes
  with the same string are the same in mission, event, revision, content hash, start,
  author, stage, verdict and sequence. No field can be shifted into another, and an
  opinion's string is never a binding vote's.
\<close>

theorem transcript_determines_envelope:
  assumes "envelope_wf a" and "envelope_wf b" and "transcript_bytes a = transcript_bytes b"
  shows "a = b"
proof -
  have w: "length (en_content_hash a) = length (en_content_hash b)"
    using assms(1,2) by (simp add: envelope_wf_def)
  have stg: "en_stage a = en_stage b"
    and m: "length_prefix (en_mission a) @ ascii (en_mission a) @ length_prefix (en_event a)
        @ ascii (en_event a) @ be_bytes 4 (en_revision a) @ en_content_hash a
        @ be_bytes 8 (en_started_at a) @ length_prefix (en_author a) @ ascii (en_author a)
        @ [en_verdict a] @ be_bytes 8 (en_sequence a)
      = length_prefix (en_mission b) @ ascii (en_mission b) @ length_prefix (en_event b)
        @ ascii (en_event b) @ be_bytes 4 (en_revision b) @ en_content_hash b
        @ be_bytes 8 (en_started_at b) @ length_prefix (en_author b) @ ascii (en_author b)
        @ [en_verdict b] @ be_bytes 8 (en_sequence b)"
    using assms(3) by (simp_all add: transcript_bytes_def)
  note m1 = prefixed_inj [OF _ _ m]
  note m2 = prefixed_inj [OF _ _ m1 [THEN conjunct2]]
  have l: "length (en_mission a) < 2 ^ 32" "length (en_mission b) < 2 ^ 32"
      "length (en_event a) < 2 ^ 32" "length (en_event b) < 2 ^ 32"
      "length (en_author a) < 2 ^ 32" "length (en_author b) < 2 ^ 32"
    using assms(1,2) by (simp_all add: envelope_wf_def)
  have r: "en_revision a = en_revision b" "en_content_hash a = en_content_hash b"
      "en_started_at a = en_started_at b"
    and au: "length_prefix (en_author a) @ ascii (en_author a) @ [en_verdict a] @ be_bytes 8 (en_sequence a)
      = length_prefix (en_author b) @ ascii (en_author b) @ [en_verdict b] @ be_bytes 8 (en_sequence b)"
    using m2 [OF l(3,4) l(1,2)] w by (simp_all add: append_same_length)
  note m3 = prefixed_inj [OF l(5,6) au]
  show ?thesis
    using stg m1 [OF l(1,2)] m2 [OF l(3,4) l(1,2)] r m3 by (simp add: append_same_length)
qed

text \<open>
  The same for the frame that goes on the air: its string determines every field of
  the compact envelope, acknowledgements and round included, and the content hash of the
  case it was signed over, which the frame itself does not carry.
\<close>

theorem compact_transcript_determines:
  assumes "compact_wf a" and "compact_wf b" and "length h = 32" and "length k = 32"
    and "compact_transcript_bytes a h = compact_transcript_bytes b k"
  shows "a = b \<and> h = k"
proof -
  have "length (heard_bits (ce_heard a)) = length (heard_bits (ce_heard b))" "length (ce_case a) = length (ce_case b)"
    using assms(1,2) by (simp_all add: compact_wf_def)
  then have "ce_stage a = ce_stage b \<and> ce_mission_epoch a = ce_mission_epoch b \<and> ce_event a = ce_event b
      \<and> ce_revision a = ce_revision b \<and> heard_bits (ce_heard a) = heard_bits (ce_heard b)
      \<and> round_bytes (ce_round a) = round_bytes (ce_round b) \<and> h = k \<and> ce_case a = ce_case b
      \<and> ce_started_at a = ce_started_at b \<and> ce_author_index a = ce_author_index b
      \<and> ce_verdict a = ce_verdict b \<and> ce_sequence a = ce_sequence b"
    using assms(3-5) by (simp add: compact_transcript_bytes_def append_same_length)
  then show ?thesis by (simp add: round_bytes_inj)
qed

text \<open>
  A signature over one form never stands for the other: the string of a readable
  envelope is never the string of a compact one.
\<close>

theorem transcript_domains_apart: "transcript_bytes e \<noteq> compact_transcript_bytes c h"
proof
  assume "transcript_bytes e = compact_transcript_bytes c h"
  then have "transcript_bytes e ! 7 = compact_transcript_bytes c h ! 7" by simp
  then show False
    by (simp add: transcript_bytes_def compact_transcript_bytes_def TRANSCRIPT_DOMAIN_def
        COMPACT_DOMAIN_def ascii_def nth_append)
qed

text \<open>
  What a member says reaches the others as it was said: a compact envelope signed,
  encoded and sealed under the group key opens at any receiver with that key to the same
  envelope under the sender's index and sequence, and verifies under the sender's public
  key over the content hash it was signed for.
\<close>

theorem frame_delivers_envelope:
  assumes "primitives_ok p" and "serializer_ok sz" and "length (sk_seed key) = 32"
    and "encode_compact sz (compact_sign p e key hash) = Inr bs"
    and "seal_frame p gk (ce_author_index e) (ce_sequence e) bs = Inr frame"
  shows "open_frame p gk frame = Inr (ce_author_index e, ce_sequence e, bs)
    \<and> (\<exists>s. decode_compact sz bs = Inr s \<and> sc_envelope s = e
         \<and> compact_verify p s (verifying_key p key) hash = Inr ())"
proof -
  have "open_frame p gk frame = Inr (ce_author_index e, ce_sequence e, bs)"
    using assms(5) open_frame_seal [OF assms(1)] by simp
  moreover have "decode_compact sz bs = Inr (compact_sign p e key hash)"
    using assms(2,4) by (auto simp: encode_compact_def decode_compact_def serializer_ok_def split: option.splits)
  moreover have "compact_verify p (compact_sign p e key hash) (verifying_key p key) hash = Inr ()"
    using assms(1,3)
    by (simp add: compact_verify_def compact_sign_def vk_verify_def verifying_key_def sk_sign_def primitives_ok_def)
  ultimately show ?thesis by (simp add: compact_sign_def)
qed

text \<open>
  An envelope names the subject it was made for: rebuilding the subject gives the
  one it was built from, for every subject that could be constructed.
\<close>

theorem envelope_subject_roundtrip:
  assumes "subject_new m ev r h t = Inr s"
  shows "envelope_subject (envelope_new s a st v q) = Inr s"
  using assms by (auto simp: subject_new_def envelope_subject_def envelope_new_def split: if_splits)

section \<open>The acknowledgement bitmap is a set\<close>

lemma heard_contains_bit: "heard_contains h i \<longleftrightarrow> i < 64 \<and> bit (heard_bits h ! (i div 8)) (i mod 8)"
  by (simp add: heard_contains_def HEARD_CAPACITY_def bit_iff_and_push_bit_not_eq_0)

lemma heard_from_length [simp]: "length (heard_bits (heard_from h i)) = length (heard_bits h)"
  by (simp add: heard_from_def)

lemma heard_contains_from:
  assumes "length (heard_bits h) = 8"
  shows "heard_contains (heard_from h i) j \<longleftrightarrow> heard_contains h j \<or> i = j \<and> i < 64"
proof (cases "i < 64 \<and> j < 64 \<and> i div 8 = j div 8")
  case True
  then have "i div 8 < 8" "j mod 8 < 8" by auto
  moreover have "i = j \<longleftrightarrow> i mod 8 = j mod 8" using True by (metis div_mult_mod_eq)
  ultimately show ?thesis
    using True assms by (auto simp: heard_contains_bit heard_from_def HEARD_CAPACITY_def bit_simps bit_1_iff)
next
  case False
  then show ?thesis
    by (auto simp: heard_contains_bit heard_from_def HEARD_CAPACITY_def nth_list_update)
qed

lemma heard_run:
  "length (heard_bits h) = 8 \<Longrightarrow>
     heard_contains (foldl heard_from h is) j \<longleftrightarrow> heard_contains h j \<or> j \<in> set is \<and> j < 64"
  by (induction "is" arbitrary: h) (auto simp: heard_contains_from)

lemma length_heard_run [simp]: "length (heard_bits (foldl heard_from h is)) = length (heard_bits h)"
  by (induction "is" arbitrary: h) simp_all

lemma upt_8: "[0..<8] = [0, 1, 2, 3, 4, 5, 6, 7 :: nat]"
  by (simp add: upt_rec)

lemma count_ones_nat: "unat (count_ones b) = length (filter (bit b) [0..<8])"
  by (simp add: count_ones_def upt_8 unat_word_ariths)

lemma bits_of_byte:
  "length (filter (\<lambda>i. bit (bs ! (i div 8)) (i mod 8)) [8 * k..<8 * k + 8]) = length (filter (bit (bs ! k)) [0..<8])"
proof -
  have "[8 * k..<8 * k + 8] = map (\<lambda>i. 8 * k + i) [0..<8]"
    by (simp add: map_add_upt add.commute)
  moreover have "filter (\<lambda>i. bit (bs ! ((8 * k + i) div 8)) ((8 * k + i) mod 8)) [0..<8] = filter (bit (bs ! k)) [0..<8]"
    by (rule filter_cong) auto
  ultimately show ?thesis by (simp add: filter_map comp_def)
qed

lemma upt_bytes: "[0..<8 * n] = concat (map (\<lambda>k. [8 * k..<8 * k + 8]) [0..<n])"
proof (induction n)
  case (Suc n)
  have "[0..<8 * n + 8] = [0..<8 * n] @ [8 * n..<8 * n + 8]" by (rule upt_add_eq_append) simp
  with Suc show ?case by (simp add: add.commute)
qed simp

lemma length_filter_bits:
  "length (filter (\<lambda>i. bit (bs ! (i div 8)) (i mod 8)) [0..<64])
     = sum_list (map (\<lambda>k. length (filter (bit (bs ! k)) [0..<8])) [0..<8])"
proof -
  have "length (filter P (concat xss)) = sum_list (map (\<lambda>xs. length (filter P xs)) xss)" for P :: "nat \<Rightarrow> bool" and xss
    by (induction xss) simp_all
  then show ?thesis
    using upt_bytes [of 8] by (simp add: comp_def bits_of_byte del: upt_Suc)
qed

lemma heard_count_card: "unat (heard_count h) = card {i. heard_contains h i}"
proof -
  have le: "unat (count_ones b) \<le> 8" for b
    using length_filter_le [of "bit b" "[0..<8]"] by (simp add: count_ones_nat)
  have sum: "unat (heard_count h) = sum_list (map (\<lambda>k. unat (count_ones (heard_bits h ! k))) [0..<8])"
    using le [of "heard_bits h ! 0"] le [of "heard_bits h ! 1"] le [of "heard_bits h ! 2"]
      le [of "heard_bits h ! 3"] le [of "heard_bits h ! 4"] le [of "heard_bits h ! 5"]
      le [of "heard_bits h ! 6"] le [of "heard_bits h ! 7"]
    by (simp add: heard_count_def upt_8 unat_word_ariths)
  have "{i. heard_contains h i} = set (filter (\<lambda>i. bit (heard_bits h ! (i div 8)) (i mod 8)) [0..<64])"
    by (auto simp: heard_contains_bit)
  then have "card {i. heard_contains h i} = length (filter (\<lambda>i. bit (heard_bits h ! (i div 8)) (i mod 8)) [0..<64])"
    by (metis distinct_card distinct_filter distinct_upt)
  then show ?thesis by (simp only: sum length_filter_bits count_ones_nat)
qed

text \<open>
  The acknowledgement bitmap is the set of the members heard: after any members
  have been recorded, an index is in it exactly when it was recorded and is below 64, and
  the population count is the number of distinct such members.
\<close>

theorem heard_is_set:
  "(heard_contains (foldl heard_from heard_none is) j \<longleftrightarrow> j \<in> set is \<and> j < 64)
    \<and> unat (heard_count (foldl heard_from heard_none is)) = card (set is \<inter> {..<64})"
proof -
  have c: "heard_contains (foldl heard_from heard_none is) i \<longleftrightarrow> i \<in> set is \<and> i < 64" for i
  proof -
    have "\<not> heard_contains heard_none i" by (auto simp: heard_contains_bit heard_none_def)
    moreover have "length (heard_bits heard_none) = 8" by (simp add: heard_none_def)
    ultimately show ?thesis by (simp add: heard_run)
  qed
  then have "{i. heard_contains (foldl heard_from heard_none is) i} = set is \<inter> {..<64}" by auto
  with c show ?thesis by (simp add: heard_count_card)
qed

section \<open>Witnesses\<close>

theorem envelope_subject_roundtrip_witness:
  "envelope_subject (envelope_new \<lparr>mission = ''m'', event = ''e'', revision = 1, content_hash = replicate 32 0,
       started_at = 5\<rparr> ''a'' Consultation Dispute 3)
     = Inr \<lparr>mission = ''m'', event = ''e'', revision = 1, content_hash = replicate 32 0, started_at = 5\<rparr>"
  by (rule envelope_subject_roundtrip [of "''m''" "''e''" 1 "replicate 32 0" 5]) (simp add: subject_new_def)

definition witness_envelope :: "string \<Rightarrow> string \<Rightarrow> Stage \<Rightarrow> Envelope" where
  "witness_envelope m ev st = \<lparr>en_mission = m, en_event = ev, en_revision = 1, en_content_hash = replicate 32 0,
     en_started_at = 5, en_author = ''a'', en_stage = stage_code st, en_verdict = 1, en_sequence = 3\<rparr>"

theorem transcript_determines_envelope_witness:
  "transcript_bytes (witness_envelope ''ab'' ''c'' Independent) \<noteq> transcript_bytes (witness_envelope ''a'' ''bc'' Independent)
   \<and> transcript_bytes (witness_envelope ''ab'' ''c'' Independent) \<noteq> transcript_bytes (witness_envelope ''ab'' ''c'' BindingSupport)"
  using transcript_determines_envelope [of "witness_envelope ''ab'' ''c'' Independent" "witness_envelope ''a'' ''bc'' Independent"]
    transcript_determines_envelope [of "witness_envelope ''ab'' ''c'' Independent" "witness_envelope ''ab'' ''c'' BindingSupport"]
  by (auto simp: envelope_wf_def witness_envelope_def)

definition witness_compact :: "u64 \<Rightarrow> CompactEnvelope" where
  "witness_compact q = compact_new sample_primitives 1 2 3 (replicate 32 7) 5 4 3 1 q"

theorem compact_transcript_determines_witness:
  "compact_transcript_bytes (witness_compact 8) (replicate 32 7) \<noteq> compact_transcript_bytes (witness_compact 9) (replicate 32 7)
   \<and> compact_transcript_bytes (witness_compact 8) (replicate 32 7) \<noteq> compact_transcript_bytes (witness_compact 8) (replicate 32 6)"
proof -
  have w: "compact_wf (witness_compact q)" for q
    by (simp add: compact_wf_def witness_compact_def compact_new_def heard_none_def case_reference_def
        sample_primitives_def CASE_REFERENCE_BYTES_def)
  show ?thesis
    using compact_transcript_determines [OF w [of 8] w [of 9], of "replicate 32 7" "replicate 32 7"]
      compact_transcript_determines [OF w [of 8] w [of 8], of "replicate 32 7" "replicate 32 6"]
    by (auto simp: witness_compact_def compact_new_def)
qed

definition sample_sz :: "SignedCompactEnvelope serializer" where
  "sample_sz = \<lparr>ser = (\<lambda>s. if s = compact_sign sample_primitives (witness_compact 8) (from_seed (replicate 32 1)) (replicate 32 7)
       then Some [1] else None),
     deser = (\<lambda>bs. Some (compact_sign sample_primitives (witness_compact 8) (from_seed (replicate 32 1)) (replicate 32 7)))\<rparr>"

theorem frame_delivers_envelope_witness:
  "open_frame sample_primitives (gk_from_bytes (replicate 32 2)) (aad_for 4 8 @ [1] @ replicate 16 10) = Inr (4, 8, [1])
   \<and> (\<exists>s. decode_compact sample_sz [1] = Inr s \<and> sc_envelope s = witness_compact 8
      \<and> compact_verify sample_primitives s (verifying_key sample_primitives (from_seed (replicate 32 1))) (replicate 32 7) = Inr ())"
proof -
  have sz: "serializer_ok sample_sz" by (simp add: serializer_ok_def sample_sz_def)
  have e: "encode_compact sample_sz (compact_sign sample_primitives (witness_compact 8) (from_seed (replicate 32 1)) (replicate 32 7)) = Inr [1]"
    by (simp add: encode_compact_def sample_sz_def)
  have f: "seal_frame sample_primitives (gk_from_bytes (replicate 32 2)) (ce_author_index (witness_compact 8)) (ce_sequence (witness_compact 8)) [1]
      = Inr (aad_for 4 8 @ [1] @ replicate 16 10)"
    by (simp add: seal_frame_def seal_def gk_from_bytes_def witness_compact_def compact_new_def sample_primitives_def)
  show ?thesis
    using frame_delivers_envelope [OF sample_primitives_ok sz _ e f]
    by (simp add: from_seed_def witness_compact_def compact_new_def)
qed

end
