(* ===== verification/Lcq_Hand.thy ===== *)
theory Lcq_Hand
  imports Lcq_Prelude
begin

text \<open>
  \<open>src/wire/hand.rs\<close>: a key written for a human, in Crockford's base32 with four check
  symbols. A typed text is a list of Unicode code points (Rust's \<open>char\<close>); the BLAKE2s
  digest is a parameter. The bit loops are kept at their width and shown to move each bit
  of the key to one place and back, which gives the round trip and that the accepted
  spellings of a key differ only in separators, case and confusable letters.
\<close>

unbundle bit_operations_syntax

type_synonym code_point = nat

definition ALPHABET :: "code_point list" where
  "ALPHABET = map of_char ''0123456789ABCDEFGHJKMNPQRSTVWXYZ''"

definition BITS :: nat where "BITS = 5"
definition KEY_SYMBOLS :: nat where "KEY_SYMBOLS = 52"
definition CHECK_SYMBOLS :: nat where "CHECK_SYMBOLS = 4"
definition FINGERPRINT_SYMBOLS :: nat where "FINGERPRINT_SYMBOLS = 16"
definition GROUP :: nat where "GROUP = 4"

definition SYMBOLS :: nat where
  "SYMBOLS = KEY_SYMBOLS + CHECK_SYMBOLS"

datatype HandError =
    UnknownSymbol code_point nat
  | WrongLength nat nat
  | CheckFailed
  | NotCanonical

definition symbol_at :: "bytes \<Rightarrow> nat \<Rightarrow> u8" where
  "symbol_at bs index =
     foldl (\<lambda>value b.
        let position = index * BITS + b;
            is_set = (position < length bs * 8
              \<and> (bs ! (position div 8) AND drop_bit (position mod 8) 0x80) \<noteq> 0)
        in push_bit 1 value OR (if is_set then 1 else 0)) 0 [0..<BITS]"

definition check_of :: "(bytes \<Rightarrow> bytes) \<Rightarrow> bytes \<Rightarrow> bytes" where
  "check_of digest key = map (symbol_at (digest key)) [0..<CHECK_SYMBOLS]"

definition hand_write :: "bytes \<Rightarrow> code_point list" where
  "hand_write symbols =
     concat (map (\<lambda>(index, symbol).
        (if index > 0 \<and> index mod GROUP = 0 then [of_char CHR ''-''] else []) @ [ALPHABET ! unat symbol])
       (enumerate 0 symbols))"

definition key_symbols :: "bytes \<Rightarrow> bytes" where
  "key_symbols key = map (symbol_at key) [0..<KEY_SYMBOLS]"

definition hand_encode :: "(bytes \<Rightarrow> bytes) \<Rightarrow> bytes \<Rightarrow> code_point list" where
  "hand_encode digest key = hand_write (key_symbols key @ check_of digest key)"

definition to_ascii_uppercase :: "code_point \<Rightarrow> code_point" where
  "to_ascii_uppercase c = (if 97 \<le> c \<and> c \<le> 122 then c - 32 else c)"

definition is_whitespace :: "code_point \<Rightarrow> bool" where
  "is_whitespace c \<longleftrightarrow> 9 \<le> c \<and> c \<le> 13 \<or> 8192 \<le> c \<and> c \<le> 8202
     \<or> c \<in> {32, 133, 160, 5760, 8232, 8233, 8239, 8287, 12288}"

fun position_of :: "code_point \<Rightarrow> code_point list \<Rightarrow> nat option" where
  "position_of c [] = None"
| "position_of c (a # as) = (if a = c then Some 0 else map_option Suc (position_of c as))"

definition value_of :: "code_point \<Rightarrow> u8 option" where
  "value_of found =
     (let upper = to_ascii_uppercase found
      in if upper = of_char CHR ''I'' \<or> upper = of_char CHR ''L'' then Some 1
         else if upper = of_char CHR ''O'' then Some 0
         else if upper = of_char CHR ''U'' then None
         else if upper > 255 then None
         else map_option of_nat (position_of upper ALPHABET))"

fun read_symbols :: "code_point list \<Rightarrow> bytes \<Rightarrow> nat \<Rightarrow> (HandError, bytes \<times> nat) result" where
  "read_symbols [] symbols count = Inr (symbols, count)"
| "read_symbols (found # rest) symbols count =
     (if found = of_char CHR ''-'' \<or> is_whitespace found then read_symbols rest symbols count
      else case value_of found of
             None \<Rightarrow> Inl (UnknownSymbol found (count + 1))
           | Some value \<Rightarrow>
               read_symbols rest (if count < length symbols then symbols[count := value] else symbols) (count + 1))"

definition set_key_bit :: "u8 \<Rightarrow> nat \<Rightarrow> bytes \<Rightarrow> nat \<Rightarrow> bytes" where
  "set_key_bit value index key b =
     (let position = index * BITS + b
      in if position < length key * 8 \<and> (value AND drop_bit b 0x10) \<noteq> 0
         then key[position div 8 := key ! (position div 8) OR drop_bit (position mod 8) 0x80]
         else key)"

definition assemble :: "bytes \<Rightarrow> bytes" where
  "assemble symbols =
     foldl (\<lambda>key (index, value). foldl (set_key_bit value index) key [0..<BITS])
       (replicate 32 0) (enumerate 0 (take KEY_SYMBOLS symbols))"

definition hand_decode :: "(bytes \<Rightarrow> bytes) \<Rightarrow> code_point list \<Rightarrow> (HandError, bytes) result" where
  "hand_decode digest typed =
     (case read_symbols typed (replicate SYMBOLS 0) 0 of
        Inl e \<Rightarrow> Inl e
      | Inr (symbols, count) \<Rightarrow>
          if count \<noteq> SYMBOLS then Inl (WrongLength count SYMBOLS)
          else if (symbols ! (KEY_SYMBOLS - 1) AND 0x0F) \<noteq> 0 then Inl NotCanonical
          else let key = assemble symbols
               in if drop KEY_SYMBOLS symbols \<noteq> check_of digest key then Inl CheckFailed
                  else Inr key)"

definition fingerprint :: "(bytes \<Rightarrow> bytes) \<Rightarrow> bytes \<Rightarrow> code_point list" where
  "fingerprint digest key = hand_write (map (symbol_at (digest key)) [0..<FINGERPRINT_SYMBOLS])"

section \<open>Bits of a byte string\<close>

text \<open>Bit \<open>p\<close> of a byte string, counted from the most significant bit of the first byte.\<close>

definition bit_at :: "bytes \<Rightarrow> nat \<Rightarrow> bool" where
  "bit_at bs p \<longleftrightarrow> p < 8 * length bs \<and> bit (bs ! (p div 8)) (7 - p mod 8)"

lemma drop_one: "r \<le> n \<Longrightarrow> n < 8 \<Longrightarrow> drop_bit r (push_bit n (1 :: u8)) = push_bit (n - r) 1"
  by (rule bit_word_eqI) (auto simp: bit_simps bit_1_iff)

lemma and_80: "r < 8 \<Longrightarrow> (b AND drop_bit r 0x80) \<noteq> 0 \<longleftrightarrow> bit b (7 - r)" for b :: u8
  using drop_one [of r 7] by (simp add: bit_iff_and_push_bit_not_eq_0)

lemma and_10: "r < 5 \<Longrightarrow> (b AND drop_bit r 0x10) \<noteq> 0 \<longleftrightarrow> bit b (4 - r)" for b :: u8
  using drop_one [of r 4] by (simp add: bit_iff_and_push_bit_not_eq_0)

lemma bit_or_80:
  fixes b :: u8
  assumes "r < 8"
  shows "bit (b OR drop_bit r 0x80) n \<longleftrightarrow> bit b n \<or> n = 7 - r"
proof -
  have "drop_bit r (0x80 :: u8) = push_bit (7 - r) 1" using drop_one [of r 7] assms by simp
  then have "bit (drop_bit r (0x80 :: u8)) n \<longleftrightarrow> n = 7 - r"
    using assms by (simp only: bit_push_bit_iff bit_1_iff) auto
  then show ?thesis by (simp only: bit_or_iff)
qed

lemma diff_7_eq: "a \<le> 7 \<Longrightarrow> b \<le> 7 \<Longrightarrow> 7 - a = 7 - b \<longleftrightarrow> a = b" for a b :: nat
  by arith

lemma bytes_eqI:
  assumes "length a = length b" and "\<And>p. p < 8 * length a \<Longrightarrow> bit_at a p = bit_at b p"
  shows "a = b"
proof (rule nth_equalityI [OF assms(1)])
  fix i assume i: "i < length a"
  show "a ! i = b ! i"
  proof (rule bit_word_eqI)
    fix n assume n: "n < LENGTH(8)"
    have "(8 * i + (7 - n)) div 8 = i" "(8 * i + (7 - n)) mod 8 = 7 - n" by auto
    then show "bit (a ! i) n = bit (b ! i) n"
      using assms(2) [of "8 * i + (7 - n)"] i n assms(1) by (simp add: bit_at_def)
  qed
qed

lemma upt_5: "[0..<5] = [0, 1, 2, 3, 4 :: nat]"
  by (simp add: upt_rec)

lemma symbol_at_fold:
  "symbol_at bs i = foldl (\<lambda>v b. push_bit 1 v OR (if bit_at bs (5 * i + b) then 1 else 0)) 0 [0..<5]"
proof -
  have "(position < length bs * 8 \<and> (bs ! (position div 8) AND drop_bit (position mod 8) 0x80) \<noteq> 0)
      = bit_at bs position" for position
    using and_80 [of "position mod 8"] by (auto simp: bit_at_def mult.commute)
  then show ?thesis by (simp add: symbol_at_def BITS_def Let_def mult.commute)
qed

lemma symbol_at_bit: "bit (symbol_at bs i) n \<longleftrightarrow> n < 5 \<and> bit_at bs (5 * i + (4 - n))"
proof (cases "n < 5")
  case True
  then have "n = 0 \<or> n = 1 \<or> n = 2 \<or> n = 3 \<or> n = 4" by auto
  then show ?thesis
    by (elim disjE) (simp_all add: symbol_at_fold upt_5 bit_simps bit_1_iff)
next
  case False
  show ?thesis
  proof (cases "n < 8")
    case True
    with False have "n = 5 \<or> n = 6 \<or> n = 7" by auto
    with False show ?thesis
      by (elim disjE) (simp_all add: symbol_at_fold upt_5 bit_simps bit_1_iff)
  next
    case False
    then show ?thesis by (auto dest: bit_imp_le_length)
  qed
qed

section \<open>Assembling undoes taking apart\<close>

lemma length_set_key_bit [simp]: "length (set_key_bit v i key b) = length key"
  by (simp add: set_key_bit_def Let_def)

lemma set_key_bit_at:
  assumes "b < 5"
  shows "bit_at (set_key_bit v i key b) p \<longleftrightarrow>
    bit_at key p \<or> p = 5 * i + b \<and> p < 8 * length key \<and> bit v (4 - b)"
proof (cases "5 * i + b < 8 * length key \<and> bit v (4 - b)")
  case True
  let ?q = "5 * i + b"
  have s: "set_key_bit v i key b = key[?q div 8 := key ! (?q div 8) OR drop_bit (?q mod 8) 0x80]"
    using True assms and_10 [OF assms, of v] by (simp add: set_key_bit_def BITS_def Let_def mult.commute)
  show ?thesis
  proof (cases "p div 8 = ?q div 8")
    case same: True
    have "7 - p mod 8 = 7 - ?q mod 8 \<longleftrightarrow> p mod 8 = ?q mod 8"
      by (rule diff_7_eq) (simp_all add: less_Suc_eq_le [symmetric])
    also have "\<dots> \<longleftrightarrow> p = ?q" using same by (metis div_mult_mod_eq)
    finally show ?thesis
      using same True by (auto simp: s bit_at_def bit_or_80)
  next
    case False
    then show ?thesis using True by (auto simp: s bit_at_def)
  qed
next
  case False
  then have "set_key_bit v i key b = key"
    using and_10 [OF assms, of v] by (auto simp: set_key_bit_def BITS_def Let_def mult.commute)
  then show ?thesis using False by auto
qed

lemma length_set_symbol [simp]: "length (foldl (set_key_bit v i) key bs) = length key"
  by (induction bs arbitrary: key) simp_all

lemma set_symbol_some:
  "(\<And>b. b \<in> set bs \<Longrightarrow> b < 5) \<Longrightarrow> bit_at (foldl (set_key_bit v i) key bs) p \<longleftrightarrow>
     bit_at key p \<or> (\<exists>b \<in> set bs. p = 5 * i + b \<and> p < 8 * length key \<and> bit v (4 - b))"
proof (induction bs arbitrary: key)
  case (Cons b bs)
  then show ?case by (auto simp: set_key_bit_at)
qed simp

lemma set_symbol_at:
  "bit_at (foldl (set_key_bit v i) key [0..<BITS]) p \<longleftrightarrow>
     bit_at key p \<or> p div 5 = i \<and> p < 8 * length key \<and> bit v (4 - p mod 5)"
proof -
  have "(\<exists>b \<in> set [0..<5]. p = 5 * i + b \<and> p < 8 * length key \<and> bit v (4 - b))
      \<longleftrightarrow> p div 5 = i \<and> p < 8 * length key \<and> bit v (4 - p mod 5)"
  proof
    assume r: "p div 5 = i \<and> p < 8 * length key \<and> bit v (4 - p mod 5)"
    then have "p = 5 * i + p mod 5" by (metis mult_div_mod_eq)
    moreover have "p mod 5 \<in> set [0..<5]" by simp
    ultimately show "\<exists>b \<in> set [0..<5]. p = 5 * i + b \<and> p < 8 * length key \<and> bit v (4 - b)" using r by blast
  qed auto
  then show ?thesis using set_symbol_some [of "[0..<5]" v i key p] by (simp add: BITS_def)
qed

lemma assemble_from:
  "bit_at (foldl (\<lambda>key (i, v). foldl (set_key_bit v i) key [0..<BITS]) key (enumerate n vs)) p \<longleftrightarrow>
     bit_at key p \<or> n \<le> p div 5 \<and> p div 5 < n + length vs \<and> p < 8 * length key \<and> bit (vs ! (p div 5 - n)) (4 - p mod 5)"
proof (induction vs arbitrary: n key)
  case (Cons v vs)
  show ?case
    by (simp add: Cons.IH set_symbol_at) (auto simp: nth_Cons' Suc_le_eq)
qed auto

lemma length_assemble_from [simp]:
  "length (foldl (\<lambda>key (i, v). foldl (set_key_bit v i) key bs) key es) = length key"
  by (induction es arbitrary: key) (auto split: prod.splits)

lemma length_assemble [simp]: "length (assemble vs) = 32"
  by (simp add: assemble_def)

lemma assemble_bit:
  assumes "52 \<le> length vs"
  shows "bit_at (assemble vs) p \<longleftrightarrow> p < 256 \<and> bit (vs ! (p div 5)) (4 - p mod 5)"
proof -
  have "\<not> bit_at (replicate 32 0) p" by (auto simp: bit_at_def)
  moreover have "p < 256 \<Longrightarrow> p div 5 < 52" by auto
  ultimately show ?thesis
    using assms by (auto simp: assemble_def assemble_from KEY_SYMBOLS_def)
qed

lemma length_key_symbols [simp]: "length (key_symbols key) = 52"
  by (simp add: key_symbols_def KEY_SYMBOLS_def)

lemma length_check_of [simp]: "length (check_of d key) = 4"
  by (simp add: check_of_def CHECK_SYMBOLS_def)

lemma assemble_key_symbols:
  assumes "length key = 32"
  shows "assemble (key_symbols key @ cs) = key"
proof (rule bytes_eqI)
  fix p assume "p < 8 * length (assemble (key_symbols key @ cs))"
  then have p: "p < 256" by simp
  then have d: "p div 5 < 52" by auto
  have "5 * (p div 5) + (4 - (4 - p mod 5)) = p" by (simp add: less_Suc_eq_le)
  moreover have "4 - p mod 5 < 5" by simp
  ultimately show "bit_at (assemble (key_symbols key @ cs)) p = bit_at key p"
    using p d by (simp add: assemble_bit nth_append) (simp add: key_symbols_def KEY_SYMBOLS_def symbol_at_bit)
qed (simp add: assms)

lemma key_symbols_assemble:
  assumes "52 \<le> length vs" and "\<And>v. v \<in> set vs \<Longrightarrow> unat v < 32" and "(vs ! 51 AND 0x0F) = 0"
  shows "key_symbols (assemble vs) = take 52 vs"
proof (rule nth_equalityI)
  fix i assume "i < length (key_symbols (assemble vs))"
  then have i: "i < 52" by simp
  show "key_symbols (assemble vs) ! i = take 52 vs ! i"
  proof (rule bit_word_eqI)
    fix n assume "n < LENGTH(8)"
    have small: "n < 5" if "bit (vs ! i) n"
    proof (rule ccontr)
      assume "\<not> n < 5"
      have "bit (unat (vs ! i)) n" using that by (simp add: bit_unsigned_iff)
      moreover have "unat (vs ! i) < 2 ^ n"
      proof -
        have "unat (vs ! i) < 32" using assms(1,2) i by simp
        also have "(32 :: nat) \<le> 2 ^ n" using power_increasing [of 5 n "2 :: nat"] \<open>\<not> n < 5\<close> by simp
        finally show ?thesis .
      qed
      ultimately show False by (simp add: bit_iff_odd)
    qed
    have low: "\<not> bit (vs ! 51) n" if "n < 4"
    proof
      assume "bit (vs ! 51) n"
      moreover have "bit (0x0F :: u8) n" using that by (auto simp: less_Suc_eq numeral_eq_Suc bit_numeral_simps)
      ultimately have "bit (vs ! 51 AND 0x0F) n" by (simp add: bit_simps)
      then show False by (simp add: assms(3))
    qed
    have "5 * i + (4 - n) < 256 \<longleftrightarrow> i < 51 \<or> n = 4" if "n < 5" using i that by auto
    moreover have "(5 * i + (4 - n)) div 5 = i" "(5 * i + (4 - n)) mod 5 = 4 - n" by auto
    ultimately have "bit (key_symbols (assemble vs) ! i) n \<longleftrightarrow> n < 5 \<and> (i < 51 \<or> n = 4) \<and> bit (vs ! i) n"
      using i by (auto simp: key_symbols_def KEY_SYMBOLS_def symbol_at_bit assemble_bit assms(1))
    moreover have "n < 5 \<Longrightarrow> \<not> (i < 51 \<or> n = 4) \<Longrightarrow> i = 51 \<and> n < 4" using i by auto
    ultimately show "bit (key_symbols (assemble vs) ! i) n = bit (take 52 vs ! i) n"
      using small low i by (cases "i < 51") (auto simp: less_Suc_eq [of i 51, simplified])
  qed
qed (use assms(1) in simp)

section \<open>Reading what was typed\<close>

definition separator :: "code_point \<Rightarrow> bool" where
  "separator c \<longleftrightarrow> c = of_char CHR ''-'' \<or> is_whitespace c"

definition typed_values :: "code_point list \<Rightarrow> u8 option list" where
  "typed_values t = map value_of (filter (\<lambda>c. \<not> separator c) t)"

lemma typed_values_simps [simp]:
  "typed_values [] = []"
  "typed_values (c # t) = (if separator c then typed_values t else value_of c # typed_values t)"
  "typed_values (s @ t) = typed_values s @ typed_values t"
  by (simp_all add: typed_values_def)

text \<open>The loop succeeds exactly when every symbol has a value, and stores the values in order.\<close>

lemma read_symbols_values:
  "read_symbols t sy n = Inr (sy', n') \<Longrightarrow>
     \<exists>vs. typed_values t = map Some vs \<and> n' = n + length vs \<and> length sy' = length sy
       \<and> (n' \<le> length sy \<longrightarrow> take n' sy' = take n sy @ vs)"
proof (induction t sy n rule: read_symbols.induct)
  case (2 found rest sy n)
  show ?case
  proof (cases "separator found")
    case True
    then show ?thesis using 2 by (simp add: separator_def)
  next
    case False
    then obtain v where v: "value_of found = Some v"
      using 2(3) by (auto simp: separator_def split: option.splits)
    let ?sy = "if n < length sy then sy[n := v] else sy"
    have r: "read_symbols rest ?sy (n + 1) = Inr (sy', n')"
      using 2(3) False v by (simp add: separator_def)
    obtain vs where vs: "typed_values rest = map Some vs" "n' = n + 1 + length vs" "length sy' = length ?sy"
        "n' \<le> length ?sy \<longrightarrow> take n' sy' = take (n + 1) ?sy @ vs"
      using 2(2) [OF False [unfolded separator_def] v r] by auto
    have "n' \<le> length sy \<Longrightarrow> take (n + 1) ?sy = take n sy @ [v]"
      using vs(2) by (simp add: take_Suc_conv_app_nth)
    then show ?thesis
      using vs False v by (intro exI [of _ "v # vs"]) auto
  qed
qed auto

lemma read_symbols_total:
  "typed_values t = map Some vs \<Longrightarrow> \<exists>sy'. read_symbols t sy n = Inr (sy', n + length vs)"
proof (induction t arbitrary: vs sy n)
  case (Cons c t)
  show ?case
  proof (cases "separator c")
    case True
    then show ?thesis using Cons by (simp add: separator_def)
  next
    case False
    then obtain w ws where w: "value_of c = Some w" "vs = w # ws" "typed_values t = map Some ws"
      using Cons.prems by (cases vs) auto
    then show ?thesis
      using Cons.IH [OF w(3), of "if n < length sy then sy[n := w] else sy" "n + 1"] False
      by (simp add: separator_def)
  qed
qed simp

lemma length_ALPHABET: "length ALPHABET = 32"
  by (simp add: ALPHABET_def)

lemma ALPHABET_values: "map value_of ALPHABET = map (\<lambda>v. Some (of_nat v)) [0..<32]"
  by (simp add: ALPHABET_def value_of_def to_ascii_uppercase_def upt_rec)

lemma ALPHABET_no_separator: "\<forall>c \<in> set ALPHABET. \<not> separator c"
  by (simp add: ALPHABET_def separator_def is_whitespace_def)

lemma alphabet_value:
  assumes "unat v < 32"
  shows "value_of (ALPHABET ! unat v) = Some v" "\<not> separator (ALPHABET ! unat v)"
proof -
  have "map value_of ALPHABET ! unat v = Some (of_nat (unat v))"
    using assms by (simp add: ALPHABET_values del: of_nat_unat)
  then show "value_of (ALPHABET ! unat v) = Some v" using assms by (simp add: length_ALPHABET)
  show "\<not> separator (ALPHABET ! unat v)"
    using ALPHABET_no_separator assms by (simp add: length_ALPHABET)
qed

lemma position_of_less: "position_of c as = Some n \<Longrightarrow> n < length as"
  by (induction as arbitrary: n) (auto split: if_splits)

lemma value_of_less: "value_of c = Some v \<Longrightarrow> unat v < 32"
proof -
  have "position_of c' ALPHABET = Some n \<Longrightarrow> n mod 256 < 32" for c' n
    using position_of_less [of c' ALPHABET n] by (simp add: length_ALPHABET)
  then show "value_of c = Some v \<Longrightarrow> unat v < 32"
    by (auto simp: value_of_def Let_def unat_of_nat split: if_splits)
qed

lemma typed_values_write:
  assumes "\<And>v. v \<in> set vs \<Longrightarrow> unat v < 32"
  shows "typed_values (hand_write vs) = map Some vs"
proof -
  have "typed_values (concat (map (\<lambda>(i, v). (if i > 0 \<and> i mod GROUP = 0 then [of_char CHR ''-''] else [])
      @ [ALPHABET ! unat v]) (enumerate n vs))) = map Some vs" for n
    using assms
  proof (induction vs arbitrary: n)
    case (Cons v vs)
    have "separator (of_char CHR ''-'')" by (simp add: separator_def)
    with Cons alphabet_value [of v] show ?case by simp
  qed simp
  then show ?thesis by (simp add: hand_write_def)
qed

lemma symbol_at_less: "unat (symbol_at bs i) < 32"
proof -
  have "symbol_at bs i = take_bit 5 (symbol_at bs i)"
    by (rule bit_word_eqI) (auto simp: bit_simps symbol_at_bit)
  then have "unat (symbol_at bs i) = take_bit 5 (unat (symbol_at bs i))"
    by (metis unsigned_take_bit_eq)
  then show ?thesis using take_bit_nat_less_exp [of 5 "unat (symbol_at bs i)"] by simp
qed

lemma encode_values:
  "typed_values (hand_encode d key) = map Some (key_symbols key @ check_of d key)"
  unfolding hand_encode_def
  by (rule typed_values_write) (auto simp: key_symbols_def check_of_def symbol_at_less)

lemma decode_cases:
  "hand_decode d t = Inr key \<longleftrightarrow>
     (\<exists>vs. typed_values t = map Some vs \<and> length vs = 56 \<and> (vs ! 51 AND 0x0F) = 0
       \<and> key = assemble vs \<and> drop 52 vs = check_of d key)"
proof
  assume a: "hand_decode d t = Inr key"
  then obtain sy where r: "read_symbols t (replicate 56 0) 0 = Inr (sy, 56)"
    and rest: "(sy ! 51 AND 0x0F) = 0" "key = assemble sy" "drop 52 sy = check_of d key"
    by (auto simp: hand_decode_def SYMBOLS_def KEY_SYMBOLS_def CHECK_SYMBOLS_def Let_def
        split: sum.splits prod.splits if_splits)
  obtain vs where "typed_values t = map Some vs" "length vs = 56" "take 56 sy = vs" "length sy = 56"
    using read_symbols_values [OF r] by auto
  then show "\<exists>vs. typed_values t = map Some vs \<and> length vs = 56 \<and> (vs ! 51 AND 0x0F) = 0
       \<and> key = assemble vs \<and> drop 52 vs = check_of d key"
    using rest by auto
next
  assume "\<exists>vs. typed_values t = map Some vs \<and> length vs = 56 \<and> (vs ! 51 AND 0x0F) = 0
       \<and> key = assemble vs \<and> drop 52 vs = check_of d key"
  then obtain vs where vs: "typed_values t = map Some vs" "length vs = 56" "(vs ! 51 AND 0x0F) = 0"
      "key = assemble vs" "drop 52 vs = check_of d key" by auto
  obtain sy where r: "read_symbols t (replicate 56 0) 0 = Inr (sy, 56)"
    using read_symbols_total [OF vs(1), of "replicate 56 0" 0] vs(2) by auto
  then have "sy = vs"
    using read_symbols_values [OF r] vs(1,2) by (auto simp: inj_map_eq_map)
  then show "hand_decode d t = Inr key"
    using r vs by (simp add: hand_decode_def SYMBOLS_def KEY_SYMBOLS_def CHECK_SYMBOLS_def Let_def)
qed

section \<open>Properties\<close>

lemma hand_decode_encode:
  assumes "length key = 32"
  shows "hand_decode digest (hand_encode digest key) = Inr key"
proof -
  let ?vs = "key_symbols key @ check_of digest key"
  have pad: "(key_symbols key ! 51 AND 0x0F) = 0"
  proof (rule bit_word_eqI)
    fix n
    have "bit (0x0F :: u8) n \<longleftrightarrow> n < 4"
      using bit_mask_iff [of 4 n, where 'a = u8] by (auto simp: mask_eq_exp_minus_1)
    moreover have "\<not> bit_at key (255 + (4 - n))" if "n < 4"
    proof -
      have "\<not> 255 + (4 - n) < 8 * length key" using that assms by arith
      then show ?thesis by (simp only: bit_at_def simp_thms)
    qed
    ultimately show "bit (key_symbols key ! 51 AND 0x0F) n = bit (0 :: u8) n"
      by (auto simp: bit_simps key_symbols_def KEY_SYMBOLS_def symbol_at_bit)
  qed
  then show ?thesis
    unfolding decode_cases
    by (intro exI [of _ ?vs])
      (simp add: encode_values assemble_key_symbols [OF assms] nth_append)
qed

text \<open>
  A key written for a card reads back as itself: decoding the encoding of any 32-byte
  key gives that key, whatever the digest function is.
\<close>

theorem hand_roundtrip:
  assumes "length key = 32"
  shows "hand_decode digest (hand_encode digest key) = Inr key"
  using assms by (rule hand_decode_encode)

text \<open>
  A key has one spelling up to what the format forgives: whatever text decodes to a
  key carries, symbol for symbol, the values that \<open>encode\<close> writes for that key; it can
  differ only in separators, case and the confusable letters. So two texts that differ in
  one symbol's value never decode to the same key.
\<close>

theorem hand_canonical:
  assumes "hand_decode digest typed = Inr key"
  shows "length key = 32 \<and> typed_values typed = typed_values (hand_encode digest key)"
proof -
  obtain vs where vs: "typed_values typed = map Some vs" "length vs = 56" "(vs ! 51 AND 0x0F) = 0"
      "key = assemble vs" "drop 52 vs = check_of digest key"
    using assms by (auto simp: decode_cases)
  have "unat v < 32" if "v \<in> set vs" for v
  proof -
    have "Some v \<in> set (typed_values typed)" using that vs(1) by simp
    then show ?thesis unfolding typed_values_def by (auto intro: value_of_less dest: sym)
  qed
  then have "key_symbols key = take 52 vs" using vs by (simp add: key_symbols_assemble)
  then have "vs = key_symbols key @ check_of digest key"
    using vs(5) by (metis append_take_drop_id)
  then show ?thesis using vs(1,4) by (simp add: encode_values)
qed

theorem hand_roundtrip_witness:
  "hand_decode (\<lambda>k. k) (hand_encode (\<lambda>k. k) (map of_nat [0..<32])) = Inr (map of_nat [0..<32])"
  by (rule hand_roundtrip) simp

theorem hand_canonical_witness:
  "typed_values (hand_encode (\<lambda>k. k) (replicate 32 255) @ [32])
     = typed_values (hand_encode (\<lambda>k. k) (replicate 32 255))"
proof -
  have "typed_values (hand_encode (\<lambda>k. k) (replicate 32 255) @ [32])
      = typed_values (hand_encode (\<lambda>k. k) (replicate 32 255))"
    by (simp add: separator_def is_whitespace_def)
  then have "hand_decode (\<lambda>k. k) (hand_encode (\<lambda>k. k) (replicate 32 255) @ [32]) = Inr (replicate 32 255)"
    using hand_decode_encode [of "replicate 32 255" "\<lambda>k. k"] by (simp add: decode_cases)
  from hand_canonical [OF this] show ?thesis by simp
qed

end
