(* ===== verification/Lcq_Manifest.thy ===== *)
theory Lcq_Manifest
  imports Lcq_Policy Lcq_Codec Lcq_Hand Lcq_Lock_Key
begin

text \<open>
  \<open>src/application/manifest.rs\<close>: the signed fleet manifest. A file is a list of Unicode
  code points; lines, comments and words are cut as \<open>str::lines\<close>, \<open>split('#')\<close>, \<open>trim\<close>
  and \<open>split_whitespace\<close> do, and a word is then the string of its UTF-8 bytes, which is
  what the rest of the code looks at. Every directive, every check and the order of the
  checks are those of the code; Ed25519 and BLAKE2s are the parameters of the theory of
  the primitives. The properties are in the theory that follows.
\<close>

section \<open>Text\<close>

definition utf8 :: "code_point \<Rightarrow> string" where
  "utf8 c =
     map char_of
      (if c < 128 then [c]
       else if c < 2048 then [192 + c div 64, 128 + c mod 64]
       else if c < 65536 then [224 + c div 4096, 128 + c div 64 mod 64, 128 + c mod 64]
       else [240 + c div 262144, 128 + c div 4096 mod 64, 128 + c div 64 mod 64, 128 + c mod 64])"

definition as_bytes :: "code_point list \<Rightarrow> string" where
  "as_bytes cs = concat (map utf8 cs)"

definition strip_cr :: "code_point list \<Rightarrow> code_point list" where
  "strip_cr l = (if l \<noteq> [] \<and> last l = 13 then butlast l else l)"

function str_lines :: "code_point list \<Rightarrow> code_point list list" where
  "str_lines t =
     (if t = [] then []
      else case dropWhile (\<lambda>c. c \<noteq> 10) t of
             [] \<Rightarrow> [t]
           | _ # rest \<Rightarrow> strip_cr (takeWhile (\<lambda>c. c \<noteq> 10) t) # str_lines rest)"
  by pat_completeness auto
termination
proof (relation "measure length")
  fix t :: "code_point list" and x rest
  assume "dropWhile (\<lambda>c. c \<noteq> 10) t = x # rest"
  then have "length (x # rest) \<le> length t" by (metis length_dropWhile_le)
  then show "(rest, t) \<in> measure length" by simp
qed simp

declare str_lines.simps [simp del]

definition before_hash :: "code_point list \<Rightarrow> code_point list" where
  "before_hash raw = takeWhile (\<lambda>c. c \<noteq> of_char CHR ''#'') raw"

definition str_trim :: "code_point list \<Rightarrow> code_point list" where
  "str_trim t = rev (dropWhile is_whitespace (rev (dropWhile is_whitespace t)))"

function split_whitespace :: "code_point list \<Rightarrow> code_point list list" where
  "split_whitespace t =
     (case dropWhile is_whitespace t of
        [] \<Rightarrow> []
      | c # rest \<Rightarrow> (c # takeWhile (\<lambda>d. \<not> is_whitespace d) rest)
                   # split_whitespace (dropWhile (\<lambda>d. \<not> is_whitespace d) rest))"
  by pat_completeness auto
termination
proof (relation "measure length")
  fix t c rest
  assume "dropWhile is_whitespace t = c # rest"
  then have "length (c # rest) \<le> length t" by (metis length_dropWhile_le)
  then show "(dropWhile (\<lambda>d. \<not> is_whitespace d) rest, t) \<in> measure length"
    using length_dropWhile_le [of "\<lambda>d. \<not> is_whitespace d" rest] by simp
qed simp

declare split_whitespace.simps [simp del]

section \<open>Errors and data\<close>

datatype ManifestError =
    UnknownDirective nat string
  | Malformed nat string
  | NotANumber nat string
  | NotCanonicalNumber nat string
  | NotHex nat string nat
  | MissingDirective string
  | UnsupportedVersion nat u32
  | Repeated nat string
  | OutOfOrder nat string
  | LabelCharset nat string
  | LabelTooLong nat nat
  | NotAKey nat nat
  | DuplicateIndex nat nat
  | DuplicateId nat string
  | DuplicateKey nat nat
  | NoMembers
  | IndicesNotContiguous nat nat
  | FleetTooLarge nat nat
  | PhyProfileMismatch nat string string
  | HeardCapacityMismatch nat nat nat
  | ValidityInverted u64 u64
  | MBadSignature
  | NotYetValid u64 u64
  | MExpired u64 u64
  | MPolicy PolicyError

definition MANIFEST_VERSION :: u32 where "MANIFEST_VERSION = 2"

definition CANONICAL_DOMAIN :: bytes where
  "CANONICAL_DOMAIN = ascii ''lcq-manifest-v2''"

definition VERSION_BYTE :: u8 where "VERSION_BYTE = 2"

definition MAX_LABEL_BYTES :: nat where "MAX_LABEL_BYTES = 32"

definition eu868_sf10_name :: string where
  "eu868_sf10_name = ''eu868-sf10-v1''"

record Member =
  mb_index :: u16
  mb_competence :: u8
  mb_key :: VerifyingKey
  mb_id :: string

record Manifest =
  mf_epoch :: u16
  mf_valid_from :: u64
  mf_valid_until :: u64
  mf_group_key_id :: bytes
  mf_byzantine_bps :: u32
  mf_max_competence_ratio :: u32
  mf_phy_profile :: string
  mf_heard_capacity :: u16
  mf_members :: "Member list"
  mf_issuer :: string
  mf_signature :: bytes

record Parts =
  pt_epoch :: "u16 option"
  pt_valid_from :: "u64 option"
  pt_valid_until :: "u64 option"
  pt_group_key_id :: "bytes option"
  pt_byzantine_bps :: "u32 option"
  pt_max_competence_ratio :: "u32 option"
  pt_phy_profile :: "string option"
  pt_heard_capacity :: "u16 option"
  pt_members :: "Member list"
  pt_issuer :: "string option"
  pt_signature :: "bytes option"

definition parts_empty :: Parts where
  "parts_empty = \<lparr>pt_epoch = None, pt_valid_from = None, pt_valid_until = None, pt_group_key_id = None,
     pt_byzantine_bps = None, pt_max_competence_ratio = None, pt_phy_profile = None,
     pt_heard_capacity = None, pt_members = [], pt_issuer = None, pt_signature = None\<rparr>"

text \<open>The \<open>?\<close> operator: hand an error on, or go on with the value.\<close>

definition and_then :: "('e, 'a) result \<Rightarrow> ('a \<Rightarrow> ('e, 'b) result) \<Rightarrow> ('e, 'b) result" where
  "and_then r f = (case r of Inl e \<Rightarrow> Inl e | Inr x \<Rightarrow> f x)"

section \<open>The canonical form\<close>

definition push_text :: "string \<Rightarrow> bytes" where
  "push_text t = of_nat (length t) # ascii t"

definition member_bytes :: "Member \<Rightarrow> bytes" where
  "member_bytes mb = be_bytes 2 (mb_index mb) @ [mb_competence mb] @ vk_bytes (mb_key mb) @ push_text (mb_id mb)"

definition canonical ::
  "u16 \<Rightarrow> u64 \<Rightarrow> u64 \<Rightarrow> bytes \<Rightarrow> u32 \<Rightarrow> u32 \<Rightarrow> string \<Rightarrow> u16 \<Rightarrow> Member list \<Rightarrow> bytes" where
  "canonical epoch valid_from valid_until group_key_id bps ratio phy_profile heard_capacity members =
     CANONICAL_DOMAIN @ [VERSION_BYTE] @ be_bytes 2 epoch @ be_bytes 8 valid_from @ be_bytes 8 valid_until
     @ group_key_id @ be_bytes 4 bps @ be_bytes 4 ratio @ push_text phy_profile
     @ be_bytes 2 heard_capacity @ be_bytes 2 (of_nat (length members) :: u16)
     @ concat (map member_bytes members)"

definition canonical_bytes :: "Manifest \<Rightarrow> bytes" where
  "canonical_bytes mf = canonical (mf_epoch mf) (mf_valid_from mf) (mf_valid_until mf) (mf_group_key_id mf)
     (mf_byzantine_bps mf) (mf_max_competence_ratio mf) (mf_phy_profile mf) (mf_heard_capacity mf) (mf_members mf)"

definition manifest_digest :: "primitives \<Rightarrow> Manifest \<Rightarrow> bytes" where
  "manifest_digest p mf = blake2s p (canonical_bytes mf)"

definition manifest_verify :: "primitives \<Rightarrow> Manifest \<Rightarrow> VerifyingKey \<Rightarrow> u64 \<Rightarrow> (ManifestError, unit) result" where
  "manifest_verify p mf admin now =
     (case vk_verify p admin (canonical_bytes mf) (mf_signature mf) of
        Inl _ \<Rightarrow> Inl MBadSignature
      | Inr _ \<Rightarrow>
          if now < mf_valid_from mf then Inl (NotYetValid (mf_valid_from mf) now)
          else if now \<ge> mf_valid_until mf then Inl (MExpired (mf_valid_until mf) now)
          else Inr ())"

definition manifest_policy :: "Manifest \<Rightarrow> (PolicyError, Policy) result" where
  "manifest_policy mf = with_settings (map (\<lambda>mb. (mb_id mb, mb_competence mb)) (mf_members mf))
     (mf_byzantine_bps mf) (mf_max_competence_ratio mf)"

definition id_of :: "Manifest \<Rightarrow> nat \<Rightarrow> string option" where
  "id_of mf index = (if index < length (mf_members mf) then Some (mb_id (mf_members mf ! index)) else None)"

definition key_of :: "Manifest \<Rightarrow> nat \<Rightarrow> VerifyingKey option" where
  "key_of mf index = (if index < length (mf_members mf) then Some (mb_key (mf_members mf ! index)) else None)"

section \<open>Fields\<close>

definition once :: "bool \<Rightarrow> nat \<Rightarrow> string \<Rightarrow> (ManifestError, unit) result" where
  "once held line directive = (if held then Inl (Repeated line directive) else Inr ())"

definition one_word :: "string list \<Rightarrow> nat \<Rightarrow> string \<Rightarrow> (ManifestError, string) result" where
  "one_word words line expected =
     (case words of [word] \<Rightarrow> Inr word | _ \<Rightarrow> Inl (Malformed line expected))"

definition is_digit :: "char \<Rightarrow> bool" where
  "is_digit c \<longleftrightarrow> 48 \<le> (of_char c :: nat) \<and> (of_char c :: nat) \<le> 57"

text \<open>\<open>str::parse\<close> into an unsigned type of the given width.\<close>

definition parse_unsigned :: "nat \<Rightarrow> string \<Rightarrow> nat option" where
  "parse_unsigned bits word =
     (if word = [] \<or> \<not> list_all is_digit word then None
      else let n = foldl (\<lambda>n c. 10 * n + (of_char c - 48)) 0 word
           in if n < 2 ^ bits then Some n else None)"

definition canonical_number :: "nat \<Rightarrow> string \<Rightarrow> nat \<Rightarrow> string \<Rightarrow> (ManifestError, nat) result" where
  "canonical_number bits word line field =
     (if word \<noteq> [] \<and> (hd word = CHR ''+'' \<or> hd word = CHR ''-'') then Inl (NotCanonicalNumber line field)
      else if length word > 1 \<and> hd word = CHR ''0'' then Inl (NotCanonicalNumber line field)
      else case parse_unsigned bits word of
             None \<Rightarrow> Inl (NotANumber line field)
           | Some n \<Rightarrow> Inr n)"

definition number :: "nat \<Rightarrow> string list \<Rightarrow> nat \<Rightarrow> string \<Rightarrow> (ManifestError, nat) result" where
  "number bits words line field =
     and_then (one_word words line ''a directive and one number'')
       (\<lambda>word. canonical_number bits word line field)"

definition bounded :: "string list \<Rightarrow> nat \<Rightarrow> string \<Rightarrow> (ManifestError, nat) result" where
  "bounded words line field =
     and_then (number 32 words line field)
       (\<lambda>v. if v < 2 ^ 16 then Inr v else Inl (NotANumber line field))"

definition label_char :: "char \<Rightarrow> bool" where
  "label_char c \<longleftrightarrow> is_digit c \<or> 65 \<le> (of_char c :: nat) \<and> (of_char c :: nat) \<le> 90
     \<or> 97 \<le> (of_char c :: nat) \<and> (of_char c :: nat) \<le> 122 \<or> c = CHR ''-'' \<or> c = CHR ''_''"

definition check_label :: "string \<Rightarrow> nat \<Rightarrow> (ManifestError, unit) result" where
  "check_label i line =
     (if length i > MAX_LABEL_BYTES then Inl (LabelTooLong line (length i))
      else if i = [] \<or> \<not> list_all label_char i then Inl (LabelCharset line i)
      else Inr ())"

definition nibble :: "char \<Rightarrow> u8 option" where
  "nibble c =
     (let b = (of_char c :: nat)
      in if 48 \<le> b \<and> b \<le> 57 then Some (of_nat (b - 48))
         else if 97 \<le> b \<and> b \<le> 102 then Some (of_nat (b - 97) + 10)
         else None)"

fun hex_pairs :: "string \<Rightarrow> bytes option" where
  "hex_pairs [] = Some []"
| "hex_pairs [c] = None"
| "hex_pairs (h # l # rest) =
     (case nibble h of None \<Rightarrow> None | Some high \<Rightarrow>
        case nibble l of None \<Rightarrow> None | Some low \<Rightarrow>
          map_option (\<lambda>bs. (push_bit 4 high OR low) # bs) (hex_pairs rest))"

definition hex_bytes :: "nat \<Rightarrow> string \<Rightarrow> nat \<Rightarrow> string \<Rightarrow> (ManifestError, bytes) result" where
  "hex_bytes n word line field =
     (if length word \<noteq> n * 2 then Inl (NotHex line field n)
      else case hex_pairs word of None \<Rightarrow> Inl (NotHex line field n) | Some bs \<Rightarrow> Inr bs)"

definition hex_field :: "nat \<Rightarrow> string list \<Rightarrow> nat \<Rightarrow> string \<Rightarrow> (ManifestError, bytes) result" where
  "hex_field n words line field =
     and_then (one_word words line ''a directive and one hexadecimal field'')
       (\<lambda>word. hex_bytes n word line field)"

section \<open>Directives\<close>

definition add_member :: "primitives \<Rightarrow> Parts \<Rightarrow> string list \<Rightarrow> nat \<Rightarrow> (ManifestError, Parts) result" where
  "add_member p parts words line =
     (case words of
        [index_word, competence_word, key_word, i] \<Rightarrow>
          and_then (canonical_number 16 index_word line ''index'') (\<lambda>seat.
          and_then (canonical_number 8 competence_word line ''competence'') (\<lambda>comp.
          and_then (hex_bytes 32 key_word line ''member key'') (\<lambda>bs.
          case vk_from_bytes p bs of
            Inl _ \<Rightarrow> Inl (NotAKey line seat)
          | Inr key \<Rightarrow>
              and_then (check_label i line) (\<lambda>_.
              let index = (of_nat seat :: u16)
              in if list_ex (\<lambda>held. mb_index held = index) (pt_members parts) then Inl (DuplicateIndex line seat)
                 else if list_ex (\<lambda>held. mb_id held = i) (pt_members parts) then Inl (DuplicateId line i)
                 else if list_ex (\<lambda>held. mb_key held = key) (pt_members parts) then Inl (DuplicateKey line seat)
                 else Inr (parts\<lparr>pt_members := pt_members parts
                        @ [\<lparr>mb_index = index, mb_competence = of_nat comp, mb_key = key, mb_id = i\<rparr>]\<rparr>)))))
      | _ \<Rightarrow> Inl (Malformed line ''member <index> <competence> <public key> <label>''))"

definition apply_directive ::
  "primitives \<Rightarrow> Parts \<times> u32 option \<Rightarrow> string \<Rightarrow> string list \<Rightarrow> nat \<Rightarrow> (ManifestError, Parts \<times> u32 option) result" where
  "apply_directive p s directive words line =
     (case s of (parts, version) \<Rightarrow>
      if directive = ''version'' then
        and_then (once (version \<noteq> None) line ''version'') (\<lambda>_.
        and_then (number 32 words line ''version'') (\<lambda>v.
          if (of_nat v :: u32) \<noteq> MANIFEST_VERSION then Inl (UnsupportedVersion line (of_nat v))
          else Inr (parts, Some (of_nat v))))
      else if directive = ''epoch'' then
        and_then (once (pt_epoch parts \<noteq> None) line ''epoch'') (\<lambda>_.
        and_then (bounded words line ''epoch'') (\<lambda>v. Inr (parts\<lparr>pt_epoch := Some (of_nat v)\<rparr>, version)))
      else if directive = ''valid-from'' then
        and_then (once (pt_valid_from parts \<noteq> None) line ''valid-from'') (\<lambda>_.
        and_then (number 64 words line ''valid-from'') (\<lambda>v. Inr (parts\<lparr>pt_valid_from := Some (of_nat v)\<rparr>, version)))
      else if directive = ''valid-until'' then
        and_then (once (pt_valid_until parts \<noteq> None) line ''valid-until'') (\<lambda>_.
        and_then (number 64 words line ''valid-until'') (\<lambda>v. Inr (parts\<lparr>pt_valid_until := Some (of_nat v)\<rparr>, version)))
      else if directive = ''group-key'' then
        and_then (once (pt_group_key_id parts \<noteq> None) line ''group-key'') (\<lambda>_.
        and_then (hex_field 32 words line ''group-key'') (\<lambda>bs. Inr (parts\<lparr>pt_group_key_id := Some bs\<rparr>, version)))
      else if directive = ''byzantine-bps'' then
        and_then (once (pt_byzantine_bps parts \<noteq> None) line ''byzantine-bps'') (\<lambda>_.
        and_then (number 32 words line ''byzantine-bps'') (\<lambda>v. Inr (parts\<lparr>pt_byzantine_bps := Some (of_nat v)\<rparr>, version)))
      else if directive = ''max-competence-ratio'' then
        and_then (once (pt_max_competence_ratio parts \<noteq> None) line ''max-competence-ratio'') (\<lambda>_.
        and_then (number 32 words line ''max-competence-ratio'') (\<lambda>v.
          Inr (parts\<lparr>pt_max_competence_ratio := Some (of_nat v)\<rparr>, version)))
      else if directive = ''phy-profile'' then
        and_then (once (pt_phy_profile parts \<noteq> None) line ''phy-profile'') (\<lambda>_.
        and_then (one_word words line ''phy-profile <name>'') (\<lambda>found.
          if found \<noteq> eu868_sf10_name then Inl (PhyProfileMismatch line found eu868_sf10_name)
          else Inr (parts\<lparr>pt_phy_profile := Some found\<rparr>, version)))
      else if directive = ''heard-capacity'' then
        and_then (once (pt_heard_capacity parts \<noteq> None) line ''heard-capacity'') (\<lambda>_.
        and_then (bounded words line ''heard-capacity'') (\<lambda>found.
          if found \<noteq> HEARD_CAPACITY then Inl (HeardCapacityMismatch line found HEARD_CAPACITY)
          else Inr (parts\<lparr>pt_heard_capacity := Some (of_nat found)\<rparr>, version)))
      else if directive = ''member'' then
        and_then (add_member p parts words line) (\<lambda>parts. Inr (parts, version))
      else if directive = ''issuer'' then
        and_then (once (pt_issuer parts \<noteq> None) line ''issuer'') (\<lambda>_.
        and_then (one_word words line ''issuer <fingerprint>'') (\<lambda>w. Inr (parts\<lparr>pt_issuer := Some w\<rparr>, version)))
      else if directive = ''signature'' then
        and_then (hex_field 64 words line ''signature'') (\<lambda>bs. Inr (parts\<lparr>pt_signature := Some bs\<rparr>, version))
      else Inl (UnknownDirective line directive))"

section \<open>Reading a file\<close>

definition line_words :: "code_point list \<Rightarrow> string list" where
  "line_words raw = map as_bytes (split_whitespace (str_trim (before_hash raw)))"

definition read_line ::
  "primitives \<Rightarrow> Parts \<times> u32 option \<Rightarrow> nat \<times> code_point list \<Rightarrow> (ManifestError, Parts \<times> u32 option) result" where
  "read_line p s numbered =
     (case numbered of (offset, raw) \<Rightarrow>
      let line = offset + 1; content = str_trim (before_hash raw)
      in if content = [] then Inr s
         else let words = map as_bytes (split_whitespace content);
                  directive = (case words of [] \<Rightarrow> [] | w # _ \<Rightarrow> w);
                  rest = (case words of [] \<Rightarrow> [] | _ # r \<Rightarrow> r)
              in case s of (parts, version) \<Rightarrow>
                 if pt_signature parts \<noteq> None then Inl (OutOfOrder line ''signature'')
                 else if directive \<noteq> ''member'' \<and> directive \<noteq> ''issuer'' \<and> directive \<noteq> ''signature''
                         \<and> pt_members parts \<noteq> []
                      then Inl (OutOfOrder line ''a header directive'')
                 else if directive \<noteq> ''member'' \<and> directive \<noteq> ''issuer'' \<and> directive \<noteq> ''signature''
                         \<and> directive \<noteq> ''version'' \<and> version = None
                      then Inl (MissingDirective ''version'')
                 else apply_directive p s directive rest line)"

definition parts_read :: "primitives \<Rightarrow> code_point list \<Rightarrow> bool \<Rightarrow> (ManifestError, Parts) result" where
  "parts_read p t want_signature =
     and_then (try_fold (read_line p) (parts_empty, None) (enumerate 0 (str_lines t))) (\<lambda>(parts, version).
       if version = None then Inl (MissingDirective ''version'')
       else if want_signature \<and> pt_signature parts = None then Inl (MissingDirective ''signature'')
       else Inr parts)"

section \<open>From parts to a manifest\<close>

fun first_gap :: "nat \<Rightarrow> Member list \<Rightarrow> nat option" where
  "first_gap expected [] = None"
| "first_gap expected (mb # mbs) = (if unat (mb_index mb) \<noteq> expected then Some expected else first_gap (expected + 1) mbs)"

definition first_missing :: "Parts \<Rightarrow> string option" where
  "first_missing parts =
     (case filter (\<lambda>(held, _). \<not> held)
        [(pt_epoch parts \<noteq> None, ''epoch''), (pt_valid_from parts \<noteq> None, ''valid-from''),
         (pt_valid_until parts \<noteq> None, ''valid-until''), (pt_group_key_id parts \<noteq> None, ''group-key''),
         (pt_byzantine_bps parts \<noteq> None, ''byzantine-bps''),
         (pt_max_competence_ratio parts \<noteq> None, ''max-competence-ratio''),
         (pt_phy_profile parts \<noteq> None, ''phy-profile''), (pt_heard_capacity parts \<noteq> None, ''heard-capacity'')] of
        [] \<Rightarrow> None | (_, d) # _ \<Rightarrow> Some d)"

definition or_default :: "'a \<Rightarrow> 'a option \<Rightarrow> 'a" where
  "or_default d x = (case x of None \<Rightarrow> d | Some v \<Rightarrow> v)"

definition settle_parts :: "Parts \<Rightarrow> (ManifestError, Parts) result" where
  "settle_parts parts =
     (case first_missing parts of
        Some d \<Rightarrow> Inl (MissingDirective d)
      | None \<Rightarrow>
          let from = or_default 0 (pt_valid_from parts); until = or_default 0 (pt_valid_until parts);
              members = sort_key mb_index (pt_members parts)
          in if until \<le> from then Inl (ValidityInverted from until)
             else if pt_members parts = [] then Inl NoMembers
             else if length (pt_members parts) > HEARD_CAPACITY
                  then Inl (FleetTooLarge (length (pt_members parts)) HEARD_CAPACITY)
             else case first_gap 0 members of
                    Some missing \<Rightarrow> Inl (IndicesNotContiguous missing (length members))
                  | None \<Rightarrow> Inr (parts\<lparr>pt_members := members\<rparr>))"

definition manifest_of_parts :: "Parts \<Rightarrow> Manifest" where
  "manifest_of_parts parts =
     \<lparr>mf_epoch = or_default 0 (pt_epoch parts), mf_valid_from = or_default 0 (pt_valid_from parts),
      mf_valid_until = or_default 0 (pt_valid_until parts),
      mf_group_key_id = or_default (replicate 32 0) (pt_group_key_id parts),
      mf_byzantine_bps = or_default 0 (pt_byzantine_bps parts),
      mf_max_competence_ratio = or_default 0 (pt_max_competence_ratio parts),
      mf_phy_profile = or_default [] (pt_phy_profile parts),
      mf_heard_capacity = or_default 0 (pt_heard_capacity parts),
      mf_members = pt_members parts, mf_issuer = or_default [] (pt_issuer parts),
      mf_signature = or_default (replicate 64 0) (pt_signature parts)\<rparr>"

definition finish_parts :: "Parts \<Rightarrow> (ManifestError, Manifest) result" where
  "finish_parts unsettled =
     and_then (settle_parts unsettled) (\<lambda>parts.
       let mf = manifest_of_parts parts
       in case manifest_policy mf of Inl e \<Rightarrow> Inl (MPolicy e) | Inr _ \<Rightarrow> Inr mf)"

definition parts_canonical :: "Parts \<Rightarrow> (ManifestError, bytes) result" where
  "parts_canonical unsettled =
     and_then (settle_parts unsettled) (\<lambda>parts.
       case with_settings (map (\<lambda>mb. (mb_id mb, mb_competence mb)) (pt_members parts))
              (or_default 0 (pt_byzantine_bps parts)) (or_default 0 (pt_max_competence_ratio parts)) of
         Inl e \<Rightarrow> Inl (MPolicy e)
       | Inr _ \<Rightarrow> Inr (canonical (or_default 0 (pt_epoch parts)) (or_default 0 (pt_valid_from parts))
             (or_default 0 (pt_valid_until parts)) (or_default (replicate 32 0) (pt_group_key_id parts))
             (or_default 0 (pt_byzantine_bps parts)) (or_default 0 (pt_max_competence_ratio parts))
             (or_default [] (pt_phy_profile parts)) (or_default 0 (pt_heard_capacity parts)) (pt_members parts)))"

definition manifest_parse :: "primitives \<Rightarrow> code_point list \<Rightarrow> (ManifestError, Manifest) result" where
  "manifest_parse p t = and_then (parts_read p t True) finish_parts"

definition line_directive :: "code_point list \<Rightarrow> string" where
  "line_directive raw = (case split_whitespace (before_hash raw) of [] \<Rightarrow> [] | w # _ \<Rightarrow> as_bytes w)"

definition text_of :: "string \<Rightarrow> code_point list" where
  "text_of s = map of_char s"

definition sign_text :: "primitives \<Rightarrow> code_point list \<Rightarrow> SigningKey \<Rightarrow> (ManifestError, code_point list) result" where
  "sign_text p t admin =
     and_then (parts_read p t False) (\<lambda>parts.
     and_then (parts_canonical parts) (\<lambda>bs.
       let signature = sk_sign p admin bs;
           issuer = fingerprint (blake2s p) (vk_bytes (verifying_key p admin));
           kept = filter (\<lambda>raw. line_directive raw \<noteq> ''issuer'' \<and> line_directive raw \<noteq> ''signature'') (str_lines t)
       in Inr (concat (map (\<lambda>raw. raw @ [10]) kept)
            @ text_of ''issuer '' @ issuer @ [10]
            @ text_of ''signature '' @ text_of (concat (map push_hex_lower signature)) @ [10])))"

end
