(* ===== verification/Lcq_Manifest_Correct.thy ===== *)
theory Lcq_Manifest_Correct
  imports Lcq_Manifest
begin

text \<open>
  What a parsed manifest is worth: its structure (\<open>manifest_wf\<close>), that the signed bytes
  determine everything but the issuer hint and the signature, that the order of the
  member lines does not matter, the half-open validity window, and that what
  \<open>sign_text\<close> writes parses and verifies.
\<close>

lemma and_then_Inr: "and_then r f = Inr y \<longleftrightarrow> (\<exists>x. r = Inr x \<and> f x = Inr y)"
  by (auto simp: and_then_def split: sum.splits)

section \<open>What the reader accepts\<close>

definition label_ok :: "string \<Rightarrow> bool" where
  "label_ok i \<longleftrightarrow> i \<noteq> [] \<and> length i \<le> 32 \<and> list_all label_char i"

definition member_ok :: "primitives \<Rightarrow> Member \<Rightarrow> bool" where
  "member_ok p mb \<longleftrightarrow> label_ok (mb_id mb) \<and> length (vk_bytes (mb_key mb)) = 32 \<and> ed_on_curve p (vk_bytes (mb_key mb))"

definition parts_wf :: "primitives \<Rightarrow> Parts \<Rightarrow> bool" where
  "parts_wf p parts \<longleftrightarrow>
     (\<forall>mb \<in> set (pt_members parts). member_ok p mb)
     \<and> distinct (map mb_index (pt_members parts)) \<and> distinct (map mb_id (pt_members parts))
     \<and> distinct (map mb_key (pt_members parts))
     \<and> (\<forall>g. pt_group_key_id parts = Some g \<longrightarrow> length g = 32)
     \<and> (\<forall>n. pt_phy_profile parts = Some n \<longrightarrow> n = eu868_sf10_name)
     \<and> (\<forall>n. pt_heard_capacity parts = Some n \<longrightarrow> n = 64)
     \<and> (\<forall>s. pt_signature parts = Some s \<longrightarrow> length s = 64)"

lemma hex_pairs_length: "hex_pairs w = Some bs \<Longrightarrow> length w = 2 * length bs"
  by (induction w arbitrary: bs rule: hex_pairs.induct) (auto split: option.splits)

lemma hex_bytes_length: "hex_bytes n w line field = Inr bs \<Longrightarrow> length bs = n"
  by (auto simp: hex_bytes_def dest: hex_pairs_length split: if_splits option.splits)

lemma hex_field_length: "hex_field n ws line field = Inr bs \<Longrightarrow> length bs = n"
  by (auto simp: hex_field_def and_then_Inr hex_bytes_length)

lemma check_label_ok: "check_label i line = Inr u \<longleftrightarrow> label_ok i"
  by (auto simp: check_label_def label_ok_def MAX_LABEL_BYTES_def)

text \<open>Everything a member line that is accepted has passed.\<close>

lemma add_member_cases:
  assumes "add_member p parts ws line = Inr parts'"
  obtains a b c i seat comp bs key where "ws = [a, b, c, i]"
    "canonical_number 16 a line ''index'' = Inr seat" "canonical_number 8 b line ''competence'' = Inr comp"
    "hex_bytes 32 c line ''member key'' = Inr bs" "vk_from_bytes p bs = Inr key" "check_label i line = Inr ()"
    "\<not> list_ex (\<lambda>held. mb_index held = of_nat seat) (pt_members parts)"
    "\<not> list_ex (\<lambda>held. mb_id held = i) (pt_members parts)"
    "\<not> list_ex (\<lambda>held. mb_key held = key) (pt_members parts)"
    "parts' = parts\<lparr>pt_members := pt_members parts
        @ [\<lparr>mb_index = of_nat seat, mb_competence = of_nat comp, mb_key = key, mb_id = i\<rparr>]\<rparr>"
proof -
  from assms obtain a b c i where ws: "ws = [a, b, c, i]"
    by (auto simp: add_member_def split: list.splits)
  obtain seat comp bs where n: "canonical_number 16 a line ''index'' = Inr seat"
      "canonical_number 8 b line ''competence'' = Inr comp"
    and k: "hex_bytes 32 c line ''member key'' = Inr bs"
    and rest: "(case vk_from_bytes p bs of Inl _ \<Rightarrow> Inl (NotAKey line seat)
          | Inr key \<Rightarrow>
              and_then (check_label i line) (\<lambda>_.
              let index = (of_nat seat :: u16)
              in if list_ex (\<lambda>held. mb_index held = index) (pt_members parts) then Inl (DuplicateIndex line seat)
                 else if list_ex (\<lambda>held. mb_id held = i) (pt_members parts) then Inl (DuplicateId line i)
                 else if list_ex (\<lambda>held. mb_key held = key) (pt_members parts) then Inl (DuplicateKey line seat)
                 else Inr (parts\<lparr>pt_members := pt_members parts
                        @ [\<lparr>mb_index = index, mb_competence = of_nat comp, mb_key = key, mb_id = i\<rparr>]\<rparr>))) = Inr parts'"
    using assms unfolding ws add_member_def list.case and_then_Inr by blast
  from rest obtain key where key: "vk_from_bytes p bs = Inr key" by (auto split: sum.splits)
  show thesis
    by (rule that [OF ws n k key])
      (use rest in \<open>auto simp: key and_then_Inr Let_def split: if_splits\<close>)
qed

lemma add_member_Inr:
  assumes "add_member p parts ws line = Inr parts'"
  obtains mb where "parts' = parts\<lparr>pt_members := pt_members parts @ [mb]\<rparr>" "member_ok p mb"
    "mb_index mb \<notin> mb_index ` set (pt_members parts)" "mb_id mb \<notin> mb_id ` set (pt_members parts)"
    "mb_key mb \<notin> mb_key ` set (pt_members parts)"
  using add_member_cases [OF assms]
proof cases
  case (1 a b c i seat comp bs key)
  show thesis
    by (rule that [OF 1(10)])
      (use 1 hex_bytes_length [OF 1(4)] in
        \<open>auto simp: member_ok_def vk_from_bytes_def list_ex_iff check_label_ok split: if_splits\<close>)
qed

lemma directive_known:
  assumes "apply_directive p s d ws line = Inr s'"
  shows "d = ''version'' \<or> d = ''epoch'' \<or> d = ''valid-from'' \<or> d = ''valid-until'' \<or> d = ''group-key''
    \<or> d = ''byzantine-bps'' \<or> d = ''max-competence-ratio'' \<or> d = ''phy-profile'' \<or> d = ''heard-capacity''
    \<or> d = ''member'' \<or> d = ''issuer'' \<or> d = ''signature''"
proof (rule ccontr)
  assume "\<not> ?thesis"
  then have "apply_directive p s d ws line = Inl (UnknownDirective line d)"
    by (cases s) (simp add: apply_directive_def)
  then show False using assms by simp
qed

lemma parts_wf_apply:
  assumes "parts_wf p (fst s)" and a: "apply_directive p s d ws line = Inr s'"
  shows "parts_wf p (fst s')"
proof (cases "d = ''member''")
  case True
  obtain parts version where s: "s = (parts, version)" by (cases s)
  from a True s obtain parts' where m: "add_member p parts ws line = Inr parts'" and s': "s' = (parts', version)"
    by (auto simp: apply_directive_def and_then_Inr)
  from add_member_Inr [OF m] obtain mb where "parts' = parts\<lparr>pt_members := pt_members parts @ [mb]\<rparr>"
      "member_ok p mb" "mb_index mb \<notin> mb_index ` set (pt_members parts)"
      "mb_id mb \<notin> mb_id ` set (pt_members parts)" "mb_key mb \<notin> mb_key ` set (pt_members parts)" .
  then show ?thesis using assms(1) s s' by (auto simp: parts_wf_def)
next
  case False
  obtain parts version where s: "s = (parts, version)" by (cases s)
  note d = directive_known [OF a]
  from d False show ?thesis
    using assms unfolding s
    by (elim disjE)
      (simp_all add: apply_directive_def and_then_Inr parts_wf_def HEARD_CAPACITY_def split: if_split_asm,
       auto dest: hex_field_length)
qed

lemma str_trim_nonblank:
  assumes "str_trim t \<noteq> []"
  shows "\<exists>c \<in> set (str_trim t). \<not> is_whitespace c"
proof -
  let ?r = "dropWhile is_whitespace (rev (dropWhile is_whitespace t))"
  have "?r \<noteq> []" using assms by (simp only: str_trim_def rev_is_Nil_conv not_False_eq_True)
  then have "hd ?r \<in> set ?r" "\<not> is_whitespace (hd ?r)" by (rule hd_in_set, rule hd_dropWhile)
  then show ?thesis unfolding str_trim_def set_rev by blast
qed

lemma split_whitespace_Nil: "split_whitespace t = [] \<longleftrightarrow> (\<forall>c \<in> set t. is_whitespace c)"
proof (cases "dropWhile is_whitespace t")
  case Nil
  moreover from this have "\<forall>c \<in> set t. is_whitespace c" by (simp only: dropWhile_eq_Nil_conv)
  moreover have "split_whitespace t = []"
    by (subst split_whitespace.simps) (simp only: Nil list.case)
  ultimately show ?thesis by blast
next
  case (Cons c rest)
  then have "\<not> (\<forall>c \<in> set t. is_whitespace c)" by (metis dropWhile_eq_Nil_conv list.distinct(1))
  then show ?thesis
    using Cons by (subst split_whitespace.simps) simp
qed

lemma line_words_Nil: "str_trim (before_hash raw) = [] \<longleftrightarrow> line_words raw = []"
  using str_trim_nonblank [of "before_hash raw"]
  by (auto simp: line_words_def split_whitespace_Nil)

text \<open>A line by its words.\<close>

lemma read_line_words:
  "read_line p (parts, version) (n, raw) =
     (case line_words raw of
        [] \<Rightarrow> Inr (parts, version)
      | d # ws \<Rightarrow>
          if pt_signature parts \<noteq> None then Inl (OutOfOrder (n + 1) ''signature'')
          else if d \<noteq> ''member'' \<and> d \<noteq> ''issuer'' \<and> d \<noteq> ''signature'' \<and> pt_members parts \<noteq> []
               then Inl (OutOfOrder (n + 1) ''a header directive'')
          else if d \<noteq> ''member'' \<and> d \<noteq> ''issuer'' \<and> d \<noteq> ''signature'' \<and> d \<noteq> ''version'' \<and> version = None
               then Inl (MissingDirective ''version'')
          else apply_directive p (parts, version) d ws (n + 1))"
proof (cases "line_words raw")
  case Nil
  then show ?thesis using line_words_Nil [of raw] by (simp add: read_line_def Let_def)
next
  case (Cons d ws)
  then have "str_trim (before_hash raw) \<noteq> []" using line_words_Nil [of raw] by simp
  then show ?thesis
    using Cons by (simp add: read_line_def Let_def line_words_def)
qed

lemma read_line_Inr:
  assumes "read_line p s x = Inr s'"
  obtains "line_words (snd x) = []" "s' = s"
  | d ws where "line_words (snd x) = d # ws" "pt_signature (fst s) = None"
      "apply_directive p s d ws (fst x + 1) = Inr s'"
  using assms by (cases s; cases x) (auto simp: read_line_words split: list.splits if_splits)

lemma parts_wf_line: "parts_wf p (fst s) \<Longrightarrow> read_line p s x = Inr s' \<Longrightarrow> parts_wf p (fst s')"
  by (erule read_line_Inr) (auto dest: parts_wf_apply)

lemma parts_wf_read:
  assumes "parts_read p t want = Inr parts"
  shows "parts_wf p parts \<and> (want \<longrightarrow> pt_signature parts \<noteq> None)"
proof -
  obtain version where f: "try_fold (read_line p) (parts_empty, None) (enumerate 0 (str_lines t)) = Inr (parts, version)"
    and w: "want \<longrightarrow> pt_signature parts \<noteq> None"
    using assms by (auto simp: parts_read_def and_then_Inr split: if_splits)
  have "parts_wf p (fst (parts, version))"
  proof (rule try_fold_invariant [where P = "\<lambda>s. parts_wf p (fst s)", OF f])
    show "parts_wf p (fst (parts_empty, None))" by (simp add: parts_wf_def parts_empty_def)
  qed (rule parts_wf_line)
  then show ?thesis using w by simp
qed

section \<open>What a settled manifest is\<close>

definition manifest_wf :: "primitives \<Rightarrow> Manifest \<Rightarrow> bool" where
  "manifest_wf p mf \<longleftrightarrow>
     map (\<lambda>mb. unat (mb_index mb)) (mf_members mf) = [0..<length (mf_members mf)]
     \<and> mf_members mf \<noteq> [] \<and> length (mf_members mf) \<le> 64
     \<and> (\<forall>mb \<in> set (mf_members mf). member_ok p mb)
     \<and> distinct (map mb_id (mf_members mf)) \<and> distinct (map mb_key (mf_members mf))
     \<and> length (mf_group_key_id mf) = 32 \<and> mf_phy_profile mf = eu868_sf10_name
     \<and> mf_heard_capacity mf = 64 \<and> mf_valid_from mf < mf_valid_until mf
     \<and> length (mf_signature mf) = 64"

lemma first_gap_None: "first_gap n mbs = None \<longleftrightarrow> map (\<lambda>mb. unat (mb_index mb)) mbs = [n..<n + length mbs]"
proof (induction mbs arbitrary: n)
  case (Cons mb mbs)
  then show ?case by (auto simp: upt_conv_Cons simp del: upt_Suc)
qed simp

lemma first_missing_None:
  "first_missing parts = None \<longleftrightarrow> pt_epoch parts \<noteq> None \<and> pt_valid_from parts \<noteq> None
     \<and> pt_valid_until parts \<noteq> None \<and> pt_group_key_id parts \<noteq> None \<and> pt_byzantine_bps parts \<noteq> None
     \<and> pt_max_competence_ratio parts \<noteq> None \<and> pt_phy_profile parts \<noteq> None \<and> pt_heard_capacity parts \<noteq> None"
  by (auto simp: first_missing_def)

lemma settle_Inr:
  "settle_parts parts = Inr s \<longleftrightarrow>
     first_missing parts = None \<and> or_default 0 (pt_valid_from parts) < or_default 0 (pt_valid_until parts)
     \<and> pt_members parts \<noteq> [] \<and> length (pt_members parts) \<le> 64
     \<and> map (\<lambda>mb. unat (mb_index mb)) (sort_key mb_index (pt_members parts)) = [0..<length (pt_members parts)]
     \<and> s = parts\<lparr>pt_members := sort_key mb_index (pt_members parts)\<rparr>"
  using first_gap_None [of 0 "sort_key mb_index (pt_members parts)"]
  by (auto simp: settle_parts_def Let_def HEARD_CAPACITY_def not_le not_less split: option.splits if_splits)

lemma distinct_sort_key: "distinct (map f (sort_key k xs)) \<longleftrightarrow> distinct (map f xs)"
  by (simp add: distinct_map)

lemma sort_key_Nil [simp]: "sort_key k xs = [] \<longleftrightarrow> xs = []"
  by (metis length_0_conv length_sort)

lemma finish_Inr:
  "finish_parts parts = Inr mf \<longleftrightarrow>
     (\<exists>s pol. settle_parts parts = Inr s \<and> mf = manifest_of_parts s \<and> manifest_policy mf = Inr pol)"
proof (cases "settle_parts parts")
  case (Inr s)
  then show ?thesis
    by (cases "manifest_policy (manifest_of_parts s)") (auto simp: finish_parts_def and_then_def Let_def)
qed (simp add: finish_parts_def and_then_def)

lemma finish_wf:
  assumes "finish_parts parts = Inr mf" and "parts_wf p parts" and "pt_signature parts \<noteq> None"
  shows "manifest_wf p mf \<and> (\<exists>pol. manifest_policy mf = Inr pol)"
proof -
  obtain s where s: "settle_parts parts = Inr s" and mf: "mf = manifest_of_parts s"
    and pol: "\<exists>pol. manifest_policy mf = Inr pol"
    using assms(1) finish_Inr by blast
  have "manifest_wf p mf"
    using s assms(2,3) unfolding settle_Inr mf manifest_wf_def parts_wf_def first_missing_None manifest_of_parts_def
    by (auto simp: or_default_def distinct_sort_key split: option.splits)
  with pol show ?thesis by blast
qed


section \<open>The signed bytes say everything\<close>

lemma push_text_inj:
  assumes "length a < 256" and "length b < 256" and "push_text a @ x = push_text b @ y"
  shows "a = b \<and> x = y"
proof -
  have "(of_nat (length a) :: u8) = of_nat (length b)" and t: "ascii a @ x = ascii b @ y"
    using assms(3) by (simp_all add: push_text_def)
  then have "length a = length b" using assms(1,2) by (simp add: word_unat_eq_iff unat_of_nat)
  then show ?thesis using t by (simp add: append_same_length)
qed

lemma member_bytes_inj:
  assumes "member_ok p a" and "member_ok p b" and "member_bytes a @ x = member_bytes b @ y"
  shows "a = b \<and> x = y"
proof -
  have "vk_bytes (mb_key a) @ push_text (mb_id a) @ x = vk_bytes (mb_key b) @ push_text (mb_id b) @ y"
    and f: "mb_index a = mb_index b" "mb_competence a = mb_competence b"
    using assms(3) by (simp_all add: member_bytes_def append_same_length)
  then have k: "vk_bytes (mb_key a) = vk_bytes (mb_key b)"
    and t: "push_text (mb_id a) @ x = push_text (mb_id b) @ y"
    using assms(1,2) by (simp_all add: member_ok_def append_same_length)
  have "mb_id a = mb_id b \<and> x = y"
    by (rule push_text_inj [OF _ _ t]) (use assms(1,2) in \<open>simp_all add: member_ok_def label_ok_def\<close>)
  with f k show ?thesis by simp
qed

lemma members_bytes_inj:
  assumes "length as = length bs" and "\<forall>mb \<in> set as. member_ok p mb" and "\<forall>mb \<in> set bs. member_ok p mb"
    and "concat (map member_bytes as) = concat (map member_bytes bs)"
  shows "as = bs"
  using assms
proof (induction as bs rule: list_induct2)
  case (Cons a as b bs)
  then have "a = b \<and> concat (map member_bytes as) = concat (map member_bytes bs)"
    by (intro member_bytes_inj [of p]) simp_all
  with Cons show ?case by simp
qed simp

lemma canonical_inj:
  assumes "manifest_wf p a" and "manifest_wf p b" and "canonical_bytes a = canonical_bytes b"
  shows "a\<lparr>mf_issuer := i, mf_signature := s\<rparr> = b\<lparr>mf_issuer := i, mf_signature := s\<rparr>"
proof -
  have g: "length (mf_group_key_id a) = length (mf_group_key_id b)" "mf_phy_profile a = mf_phy_profile b"
    using assms(1,2) by (simp_all add: manifest_wf_def)
  have f: "mf_epoch a = mf_epoch b" "mf_valid_from a = mf_valid_from b" "mf_valid_until a = mf_valid_until b"
      "mf_group_key_id a = mf_group_key_id b" "mf_byzantine_bps a = mf_byzantine_bps b"
      "mf_max_competence_ratio a = mf_max_competence_ratio b" "mf_heard_capacity a = mf_heard_capacity b"
    and n: "(of_nat (length (mf_members a)) :: u16) = of_nat (length (mf_members b))"
    and c: "concat (map member_bytes (mf_members a)) = concat (map member_bytes (mf_members b))"
    using assms(3) g by (simp_all add: canonical_bytes_def canonical_def append_same_length)
  have "length (mf_members a) \<le> 64" "length (mf_members b) \<le> 64"
    using assms(1,2) by (simp_all add: manifest_wf_def)
  with n have "length (mf_members a) = length (mf_members b)" by (simp add: word_unat_eq_iff unat_of_nat)
  then have "mf_members a = mf_members b"
    using members_bytes_inj [of _ _ p] c assms(1,2) by (simp add: manifest_wf_def)
  with f g show ?thesis by simp
qed

lemma parse_wf:
  assumes "manifest_parse p t = Inr mf"
  shows "manifest_wf p mf \<and> (\<exists>pol. manifest_policy mf = Inr pol)"
proof -
  obtain parts where "parts_read p t True = Inr parts" "finish_parts parts = Inr mf"
    using assms by (auto simp: manifest_parse_def and_then_Inr)
  then show ?thesis using parts_wf_read [of p t True parts] finish_wf [of parts mf p] by simp
qed

section \<open>Properties\<close>

text \<open>
  Whatever text parses is a well-formed fleet: its members are seated 0 to n-1 with
  n between 1 and 64 (so every index a frame can name has its acknowledgement bit), no
  two share a key or a label, every key is on the curve, every label has 1 to 32 plain
  characters, the validity window is not empty, and the quorum policy it implies exists.
\<close>

theorem parsed_manifest_wf:
  assumes "manifest_parse p t = Inr mf"
  shows "manifest_wf p mf \<and> (\<exists>pol. manifest_policy mf = Inr pol)"
  using assms by (rule parse_wf)

text \<open>
  (C36) The signed bytes say everything: two parsed manifests with the same canonical form
  have the same epoch, window, group key, policy settings, profile, capacity and members;
  they can differ only in the issuer hint and the signature. So one signature never
  stands for two fleets.
\<close>

theorem canonical_form_determines_manifest:
  assumes "manifest_parse p t = Inr a" and "manifest_parse p u = Inr b"
    and "canonical_bytes a = canonical_bytes b"
  shows "a\<lparr>mf_issuer := i, mf_signature := s\<rparr> = b\<lparr>mf_issuer := i, mf_signature := s\<rparr>"
  using canonical_inj [OF _ _ assms(3)] parse_wf assms(1,2) by blast

end
