(* ===== verification/Lcq_Manifest_Signing.thy ===== *)
theory Lcq_Manifest_Signing
  imports Lcq_Manifest_Correct "HOL-Library.Multiset"
begin

text \<open>
  The administrator's side of the manifest: what \<open>sign_text\<close> writes is read back by
  \<open>parse\<close> as the fleet that was signed, and verifies. The lines it keeps are read the
  same, whatever issuer and signature lines stood between them, and the two lines it adds
  carry the signature as 128 hexadecimal digits.
\<close>

section \<open>Lines and words\<close>

lemma no_newline_line: "raw \<in> set (str_lines t) \<Longrightarrow> 10 \<notin> set raw"
proof (induction t rule: str_lines.induct)
  case (1 t)
  show ?case
  proof (cases "dropWhile (\<lambda>c. c \<noteq> 10) t")
    case Nil
    then have "10 \<notin> set t" by (auto simp only: dropWhile_eq_Nil_conv)
    moreover have "str_lines t = (if t = [] then [] else [t])"
      by (subst str_lines.simps) (simp only: Nil list.case)
    ultimately show ?thesis using 1(2) by (simp split: if_splits)
  next
    case (Cons x rest)
    have "10 \<notin> set (strip_cr (takeWhile (\<lambda>c. c \<noteq> 10) t))"
      by (auto simp: strip_cr_def dest: in_set_butlastD set_takeWhileD)
    moreover have "t \<noteq> []" using Cons by auto
    ultimately show ?thesis
      using 1 Cons str_lines.simps [of t] by auto
  qed
qed

lemma lines_Cons:
  assumes "10 \<notin> set raw"
  shows "str_lines (raw @ 10 # rest) = strip_cr raw # str_lines rest"
proof -
  have "dropWhile (\<lambda>c. c \<noteq> 10) (raw @ 10 # rest) = 10 # rest"
    "takeWhile (\<lambda>c. c \<noteq> 10) (raw @ 10 # rest) = raw"
    using assms by (induction raw) auto
  then show ?thesis by (subst str_lines.simps) simp
qed

lemma lines_concat:
  "\<forall>raw \<in> set rs. 10 \<notin> set raw \<Longrightarrow> str_lines (concat (map (\<lambda>raw. raw @ [10]) rs) @ rest) = map strip_cr rs @ str_lines rest"
  by (induction rs) (simp_all add: lines_Cons)

lemma lines_Nil [simp]: "str_lines [] = []"
  by (simp add: str_lines.simps)

lemma ws_13: "is_whitespace 13" "is_whitespace 32" "is_whitespace 10"
  by (simp_all add: is_whitespace_def)

lemma split_ws_unfold:
  "split_whitespace t = (case dropWhile is_whitespace t of [] \<Rightarrow> []
      | c # rest \<Rightarrow> (c # takeWhile (\<lambda>d. \<not> is_whitespace d) rest) # split_whitespace (dropWhile (\<lambda>d. \<not> is_whitespace d) rest))"
  by (rule split_whitespace.simps)

lemma split_ws_drop: "split_whitespace (dropWhile is_whitespace t) = split_whitespace t"
proof -
  have "dropWhile is_whitespace (dropWhile is_whitespace t) = dropWhile is_whitespace t"
    by (rule dropWhile_idem)
  then show ?thesis
    using split_ws_unfold [of t] split_ws_unfold [of "dropWhile is_whitespace t"] by simp
qed

lemma split_ws_blank: "\<forall>c \<in> set w. is_whitespace c \<Longrightarrow> split_whitespace w = []"
  by (simp add: split_whitespace_Nil)

text \<open>Blanks at the end do not make a word.\<close>

lemma split_ws_append:
  "\<forall>c \<in> set w. is_whitespace c \<Longrightarrow> split_whitespace (t @ w) = split_whitespace t"
proof (induction t rule: split_whitespace.induct)
  case (1 t)
  show ?case
  proof (cases "dropWhile is_whitespace t")
    case Nil
    then have "\<forall>c \<in> set t. is_whitespace c" by (simp only: dropWhile_eq_Nil_conv)
    then show ?thesis using 1(2) split_ws_blank [of "t @ w"] split_ws_blank [of t] by auto
  next
    case (Cons c rest)
    then have "\<not> (\<forall>c \<in> set t. is_whitespace c)" by (metis dropWhile_eq_Nil_conv list.distinct(1))
    then have d: "dropWhile is_whitespace (t @ w) = c # (rest @ w)"
      using Cons by (auto simp: dropWhile_append)
    have IH: "split_whitespace (dropWhile (\<lambda>d. \<not> is_whitespace d) rest @ w)
        = split_whitespace (dropWhile (\<lambda>d. \<not> is_whitespace d) rest)"
      by (rule 1(1) [OF Cons 1(2)])
    show ?thesis
    proof (cases "\<forall>d \<in> set rest. \<not> is_whitespace d")
      case True
      then have e: "dropWhile (\<lambda>d. \<not> is_whitespace d) rest = []" "takeWhile (\<lambda>d. \<not> is_whitespace d) rest = rest"
        by simp_all
      have "takeWhile (\<lambda>d. \<not> is_whitespace d) (rest @ w) = rest" "dropWhile (\<lambda>d. \<not> is_whitespace d) (rest @ w) = w"
        using True 1(2) by (cases w; simp add: takeWhile_append2 dropWhile_append2)+
      then have "split_whitespace (t @ w) = [c # rest]"
        by (subst split_ws_unfold) (simp add: d split_ws_blank [OF 1(2)])
      moreover have "split_whitespace t = [c # rest]"
        by (subst split_ws_unfold) (simp only: Cons list.case e split_ws_blank [of "[]", simplified])
      ultimately show ?thesis by simp
    next
      case False
      then have "takeWhile (\<lambda>d. \<not> is_whitespace d) (rest @ w) = takeWhile (\<lambda>d. \<not> is_whitespace d) rest"
          "dropWhile (\<lambda>d. \<not> is_whitespace d) (rest @ w) = dropWhile (\<lambda>d. \<not> is_whitespace d) rest @ w"
        by (auto simp: takeWhile_append1 dropWhile_append1)
      then show ?thesis
        using d IH split_ws_unfold [of "t @ w"] split_ws_unfold [of t] Cons by simp
    qed
  qed
qed

lemma split_ws_trim: "split_whitespace (str_trim t) = split_whitespace t"
proof -
  let ?t = "dropWhile is_whitespace t"
  have "?t = str_trim t @ rev (takeWhile is_whitespace (rev ?t))"
    by (metis rev_append rev_rev_ident str_trim_def takeWhile_dropWhile_id)
  moreover have "\<forall>c \<in> set (rev (takeWhile is_whitespace (rev ?t))). is_whitespace c"
    by (auto dest: set_takeWhileD)
  ultimately have "split_whitespace ?t = split_whitespace (str_trim t)"
    using split_ws_append by metis
  then show ?thesis by (simp add: split_ws_drop)
qed

lemma line_words_eq: "line_words raw = map as_bytes (split_whitespace (before_hash raw))"
  by (simp add: line_words_def split_ws_trim)

lemma line_directive_words: "line_directive raw = (case line_words raw of [] \<Rightarrow> [] | d # _ \<Rightarrow> d)"
  by (simp add: line_directive_def line_words_eq split: list.splits)

lemma line_words_strip_cr: "line_words (strip_cr raw) = line_words raw"
proof (cases "raw \<noteq> [] \<and> last raw = 13")
  case True
  then have r: "raw = butlast raw @ [13]" by (metis append_butlast_last_id)
  have "before_hash raw = before_hash (butlast raw) \<or> before_hash raw = before_hash (butlast raw) @ [13]"
  proof (cases "of_char CHR ''#'' \<in> set (butlast raw)")
    case True
    then have "takeWhile (\<lambda>c. c \<noteq> of_char CHR ''#'') (butlast raw @ [13]) = takeWhile (\<lambda>c. c \<noteq> of_char CHR ''#'') (butlast raw)"
      by (intro takeWhile_append1 [of "of_char CHR ''#''"]) simp_all
    then show ?thesis using r by (simp add: before_hash_def)
  next
    case False
    then have "takeWhile (\<lambda>c. c \<noteq> of_char CHR ''#'') (butlast raw @ [13]) = butlast raw @ [13]"
        "takeWhile (\<lambda>c. c \<noteq> of_char CHR ''#'') (butlast raw) = butlast raw"
      by (auto simp: takeWhile_eq_all_conv)
    then show ?thesis using r unfolding before_hash_def by metis
  qed
  moreover have "split_whitespace (before_hash (butlast raw) @ [13]) = split_whitespace (before_hash (butlast raw))"
    by (rule split_ws_append) (simp add: ws_13)
  ultimately show ?thesis using True by (auto simp: line_words_eq strip_cr_def)
next
  case False
  then show ?thesis by (auto simp: strip_cr_def)
qed

text \<open>Words without blanks or comments, joined by single blanks, are read back as they are.\<close>

definition plain :: "string \<Rightarrow> bool" where
  "plain w \<longleftrightarrow> w \<noteq> [] \<and> (\<forall>c \<in> set w. 33 \<le> (of_char c :: nat) \<and> (of_char c :: nat) < 127 \<and> c \<noteq> CHR ''#'')"

fun unwords :: "string list \<Rightarrow> string" where
  "unwords [] = []"
| "unwords [w] = w"
| "unwords (w # ws) = w @ CHR '' '' # unwords ws"

lemma plain_not_blank: "plain w \<Longrightarrow> c \<in> set (text_of w) \<Longrightarrow> \<not> is_whitespace c \<and> c \<noteq> 10 \<and> c \<noteq> of_char CHR ''#''"
proof -
  assume "plain w" "c \<in> set (text_of w)"
  then obtain d where "c = of_char d" "33 \<le> (of_char d :: nat)" "(of_char d :: nat) < 127" "d \<noteq> CHR ''#''"
    by (auto simp: plain_def text_of_def)
  then show ?thesis by (simp only: is_whitespace_def of_char_eq_iff) auto
qed

lemma as_bytes_text: "(\<And>c. c \<in> set w \<Longrightarrow> (of_char c :: nat) < 128) \<Longrightarrow> as_bytes (text_of w) = w"
  by (induction w) (simp_all add: as_bytes_def text_of_def utf8_def)

lemma as_bytes_plain: "plain w \<Longrightarrow> as_bytes (text_of w) = w"
  by (rule as_bytes_text) (fastforce simp: plain_def)

lemma text_of_simps [simp]: "text_of [] = []" "text_of (c # w) = of_char c # text_of w"
    "text_of (v @ w) = text_of v @ text_of w"
  by (simp_all add: text_of_def)

lemma split_word:
  assumes "w \<noteq> []" and "\<And>c. c \<in> set w \<Longrightarrow> \<not> is_whitespace c"
  shows "split_whitespace w = [w]" "split_whitespace (w @ 32 # rest) = w # split_whitespace rest"
proof -
  obtain c v where w: "w = c # v" using assms(1) by (cases w) auto
  have c: "\<not> is_whitespace c" and v: "\<forall>d \<in> set v. \<not> is_whitespace d" using assms(2) w by auto
  have e: "takeWhile (\<lambda>d. \<not> is_whitespace d) v = v" "dropWhile (\<lambda>d. \<not> is_whitespace d) v = []"
      "dropWhile is_whitespace (c # v) = c # v" "split_whitespace [] = []"
    using v c by (auto simp: split_ws_blank)
  show "split_whitespace w = [w]" by (subst split_ws_unfold) (simp only: w list.case e)
  have "takeWhile (\<lambda>d. \<not> is_whitespace d) (v @ 32 # rest) = v"
      "dropWhile (\<lambda>d. \<not> is_whitespace d) (v @ 32 # rest) = 32 # rest"
    using v by (induction v) (auto simp: ws_13)
  moreover have "split_whitespace (32 # rest) = split_whitespace rest"
    using split_ws_drop [of "32 # rest"] split_ws_drop [of rest] by (simp add: ws_13)
  ultimately show "split_whitespace (w @ 32 # rest) = w # split_whitespace rest"
    using c by (subst split_ws_unfold) (simp add: w)
qed

lemma split_unwords:
  "\<forall>w \<in> set ws. plain w \<Longrightarrow> split_whitespace (text_of (unwords ws)) = map text_of ws"
proof (induction ws rule: unwords.induct)
  case (2 w)
  then show ?case using split_word(1) [of "text_of w"] plain_not_blank [of w] by (simp add: plain_def text_of_def)
next
  case (3 w v ws)
  have "text_of w \<noteq> []" using 3 by (simp add: plain_def text_of_def)
  then have "split_whitespace (text_of w @ 32 # text_of (unwords (v # ws)))
      = text_of w # split_whitespace (text_of (unwords (v # ws)))"
    using split_word(2) [of "text_of w"] plain_not_blank [of w] 3(2) by simp
  then show ?case using 3 by simp
qed (simp add: split_ws_blank)

lemma unwords_chars:
  "\<forall>w \<in> set ws. plain w \<Longrightarrow> c \<in> set (text_of (unwords ws)) \<Longrightarrow> c \<noteq> 10 \<and> c \<noteq> of_char CHR ''#''"
  by (induction ws rule: unwords.induct) (auto dest: plain_not_blank)

lemma line_words_unwords:
  assumes "\<forall>w \<in> set ws. plain w"
  shows "line_words (text_of (unwords ws)) = ws" "10 \<notin> set (text_of (unwords ws))"
proof -
  have "before_hash (text_of (unwords ws)) = text_of (unwords ws)"
    unfolding before_hash_def takeWhile_eq_all_conv using unwords_chars [OF assms] by blast
  then show "line_words (text_of (unwords ws)) = ws"
    using assms by (simp add: line_words_eq split_unwords as_bytes_plain map_idI)
  show "10 \<notin> set (text_of (unwords ws))" using unwords_chars [OF assms] by blast
qed

section \<open>Success does not depend on line numbers\<close>

lemma canonical_number_line: "canonical_number b w n f = Inr v \<Longrightarrow> canonical_number b w m f = Inr v"
  by (auto simp: canonical_number_def split: if_splits option.splits)

lemma one_word_Inr: "one_word ws n e = Inr w \<longleftrightarrow> ws = [w]"
  by (auto simp: one_word_def split: list.splits)

lemma once_Inr: "once b n d = Inr u \<longleftrightarrow> \<not> b"
  by (simp add: once_def)

lemma number_line: "number b ws n f = Inr v \<Longrightarrow> number b ws m f = Inr v"
  by (auto simp: number_def and_then_Inr one_word_Inr intro: canonical_number_line)

lemma bounded_line: "bounded ws n f = Inr v \<Longrightarrow> bounded ws m f = Inr v"
  by (auto simp: bounded_def and_then_Inr split: if_splits dest: number_line)

lemma hex_bytes_line: "hex_bytes k w n f = Inr v \<Longrightarrow> hex_bytes k w m f = Inr v"
  by (auto simp: hex_bytes_def split: if_splits option.splits)

lemma hex_field_line: "hex_field k ws n f = Inr v \<Longrightarrow> hex_field k ws m f = Inr v"
  by (auto simp: hex_field_def and_then_Inr one_word_Inr intro: hex_bytes_line)

lemmas field_lines = number_line bounded_line hex_field_line

text \<open>The parts without what the administrator's tool replaces.\<close>

definition unsigned_parts :: "Parts \<Rightarrow> Parts" where
  "unsigned_parts parts = parts\<lparr>pt_issuer := None, pt_signature := None\<rparr>"

lemma unsigned_simps [simp]:
  "pt_epoch (unsigned_parts parts) = pt_epoch parts" "pt_valid_from (unsigned_parts parts) = pt_valid_from parts"
  "pt_valid_until (unsigned_parts parts) = pt_valid_until parts"
  "pt_group_key_id (unsigned_parts parts) = pt_group_key_id parts"
  "pt_byzantine_bps (unsigned_parts parts) = pt_byzantine_bps parts"
  "pt_max_competence_ratio (unsigned_parts parts) = pt_max_competence_ratio parts"
  "pt_phy_profile (unsigned_parts parts) = pt_phy_profile parts"
  "pt_heard_capacity (unsigned_parts parts) = pt_heard_capacity parts"
  "pt_members (unsigned_parts parts) = pt_members parts"
  "pt_issuer (unsigned_parts parts) = None" "pt_signature (unsigned_parts parts) = None"
  by (simp_all add: unsigned_parts_def)

lemma add_member_unsigned:
  assumes "add_member p parts ws n = Inr parts'"
  shows "add_member p (unsigned_parts parts) ws m = Inr (unsigned_parts parts')"
  using add_member_cases [OF assms]
proof cases
  case (1 a b c i seat comp bs key)
  have "check_label i m = Inr ()" using 1(6) by (simp add: check_label_ok)
  then show ?thesis
    using 1 canonical_number_line [OF 1(2), of m] canonical_number_line [OF 1(3), of m] hex_bytes_line [OF 1(4), of m]
    by (simp add: add_member_def and_then_def Let_def unsigned_parts_def)
qed

lemma apply_unsigned:
  assumes a: "apply_directive p (parts, version) d ws n = Inr (parts', version')"
    and "d \<noteq> ''issuer''" and "d \<noteq> ''signature''"
  shows "apply_directive p (unsigned_parts parts, version) d ws m = Inr (unsigned_parts parts', version')"
proof (cases "d = ''member''")
  case True
  then obtain "add_member p parts ws n = Inr parts'" "version' = version"
    using a by (auto simp: apply_directive_def and_then_Inr)
  then show ?thesis using True add_member_unsigned [of p parts ws n parts' m]
    by (simp add: apply_directive_def and_then_def)
next
  case False
  note l = number_line [of _ ws n _ _ m] bounded_line [of ws n _ _ m] hex_field_line [of _ ws n _ _ m]
  from directive_known [OF a] False assms(2,3) show ?thesis
    using a
    by (elim disjE)
      (simp_all add: apply_directive_def and_then_Inr once_Inr one_word_Inr split: if_split_asm,
       auto dest!: l simp: unsigned_parts_def)
qed

lemma apply_dropped:
  assumes "apply_directive p (parts, version) d ws n = Inr (parts', version')"
    and "d = ''issuer'' \<or> d = ''signature''"
  shows "unsigned_parts parts' = unsigned_parts parts \<and> version' = version"
  using assms by (auto simp: apply_directive_def and_then_Inr unsigned_parts_def)

section \<open>Reading what the tool writes\<close>

definition kept_line :: "code_point list \<Rightarrow> bool" where
  "kept_line raw \<longleftrightarrow> line_directive raw \<noteq> ''issuer'' \<and> line_directive raw \<noteq> ''signature''"

lemma read_kept:
  assumes "read_line p (parts, v) (n, raw) = Inr (parts', v')" and "kept_line raw" and "line_words raw' = line_words raw"
  shows "read_line p (unsigned_parts parts, v) (m, raw') = Inr (unsigned_parts parts', v')"
proof (cases "line_words raw")
  case Nil
  then show ?thesis using assms(1,3) by (simp add: read_line_words)
next
  case (Cons d ws)
  have d: "d \<noteq> ''issuer''" "d \<noteq> ''signature''"
    using assms(2) Cons by (auto simp: kept_line_def line_directive_words)
  have o: "\<not> (d \<noteq> ''member'' \<and> pt_members parts \<noteq> [])"
      "\<not> (d \<noteq> ''member'' \<and> d \<noteq> ''version'' \<and> v = None)"
      "apply_directive p (parts, v) d ws (n + 1) = Inr (parts', v')"
    using assms(1) Cons d unfolding read_line_words by (auto split: if_split_asm)
  from apply_unsigned [OF o(3) d, of "m + 1"] show ?thesis
    using o(1,2) Cons assms(3) unfolding read_line_words by auto
qed

lemma read_dropped:
  assumes "read_line p (parts, v) (n, raw) = Inr (parts', v')" and "\<not> kept_line raw"
  shows "unsigned_parts parts' = unsigned_parts parts \<and> v' = v"
proof -
  obtain d ws where w: "line_words raw = d # ws" "d = ''issuer'' \<or> d = ''signature''"
    using assms(2) by (auto simp: kept_line_def line_directive_words split: list.splits)
  then have "apply_directive p (parts, v) d ws (n + 1) = Inr (parts', v')"
    using assms(1) unfolding read_line_words by (auto split: if_split_asm)
  then show ?thesis using w(2) by (rule apply_dropped)
qed

lemma read_kept_lines:
  "try_fold (read_line p) (parts, v) (enumerate n ls) = Inr (parts', v') \<Longrightarrow>
     try_fold (read_line p) (unsigned_parts parts, v) (enumerate m (map strip_cr (filter kept_line ls)))
       = Inr (unsigned_parts parts', v')"
proof (induction ls arbitrary: parts v n m)
  case (Cons raw ls)
  obtain parts1 v1 where r: "read_line p (parts, v) (n, raw) = Inr (parts1, v1)"
    and rest: "try_fold (read_line p) (parts1, v1) (enumerate (Suc n) ls) = Inr (parts', v')"
    using Cons.prems by (auto split: sum.splits)
  show ?case
  proof (cases "kept_line raw")
    case True
    have "read_line p (unsigned_parts parts, v) (m, strip_cr raw) = Inr (unsigned_parts parts1, v1)"
      by (rule read_kept [OF r True line_words_strip_cr])
    then show ?thesis using Cons.IH [OF rest, of "Suc m"] True by simp
  next
    case False
    then show ?thesis using Cons.IH [OF rest, of m] read_dropped [OF r False] by simp
  qed
qed simp

lemma hex_digit_nibble:
  assumes "n < 16"
  shows "nibble (HEX ! n) = Some (of_nat n)"
proof -
  have "map nibble HEX = map (\<lambda>n. Some (of_nat n)) [0..<16]"
    by (simp add: nibble_def HEX_def Let_def upt_rec)
  then have "map nibble HEX ! n = Some (of_nat n)" using assms by simp
  then show ?thesis using assms HEX_props(2) by simp
qed

lemma hex_pairs_push: "hex_pairs (concat (map push_hex_lower bs)) = Some bs"
proof (induction bs)
  case (Cons b bs)
  have "push_bit 4 (drop_bit 4 b) OR (b AND 0x0F) = b"
  proof (rule bit_word_eqI)
    fix n
    have "bit (0x0F :: u8) n \<longleftrightarrow> n < 4"
      using bit_mask_iff [of 4 n, where 'a = u8] by (auto simp: mask_eq_exp_minus_1)
    then show "bit (push_bit 4 (drop_bit 4 b) OR (b AND 0x0F)) n = bit b n"
      by (auto simp: bit_simps dest: bit_imp_le_length)
  qed
  then show ?case
    using Cons nibble_bounds [of b] by (simp add: push_hex_lower_def hex_digit_nibble)
qed simp

lemma hex_plain: "bs \<noteq> [] \<Longrightarrow> plain (concat (map push_hex_lower bs))"
proof -
  have "\<forall>c \<in> set HEX. 33 \<le> (of_char c :: nat) \<and> (of_char c :: nat) < 127 \<and> c \<noteq> CHR ''#''"
    by (simp add: HEX_def)
  then have "\<forall>c \<in> set (push_hex_lower b). 33 \<le> (of_char c :: nat) \<and> (of_char c :: nat) < 127 \<and> c \<noteq> CHR ''#''" for b
    using nibble_bounds [of b] HEX_props(2) by (simp add: push_hex_lower_def)
  moreover assume "bs \<noteq> []"
  moreover have "push_hex_lower b \<noteq> []" for b by (simp add: push_hex_lower_def)
  ultimately show ?thesis by (cases bs) (auto simp: plain_def)
qed

lemma signature_reads:
  "length bs = 64 \<Longrightarrow> hex_field 64 [concat (map push_hex_lower bs)] n ''signature'' = Inr bs"
proof -
  have "length (concat (map push_hex_lower bs)) = 2 * length bs"
    by (induction bs) simp_all
  then show "length bs = 64 \<Longrightarrow> ?thesis"
    by (simp add: hex_field_def and_then_def one_word_def hex_bytes_def hex_pairs_push)
qed


text \<open>A fingerprint is one plain word.\<close>

lemma fingerprint_plain:
  "\<exists>w. fingerprint d key = text_of w \<and> plain w"
proof -
  let ?vs = "map (symbol_at (d key)) [0..<16]"
  have f: "fingerprint d key = hand_write ?vs" by (simp add: fingerprint_def FINGERPRINT_SYMBOLS_def)
  have al: "\<forall>c \<in> set ALPHABET. 33 \<le> c \<and> c < 127 \<and> c \<noteq> 35" by (simp add: ALPHABET_def)
  have "\<forall>c \<in> set (hand_write vs). 33 \<le> c \<and> c < 127 \<and> c \<noteq> 35" if "\<forall>v \<in> set vs. unat v < 32" for vs
  proof -
    have "ALPHABET ! unat v \<in> set ALPHABET" if "v \<in> set vs" for v
      using that \<open>\<forall>v \<in> set vs. unat v < 32\<close> by (simp add: length_ALPHABET)
    then have "33 \<le> ALPHABET ! unat v \<and> ALPHABET ! unat v < 127 \<and> ALPHABET ! unat v \<noteq> 35" if "v \<in> set vs" for v
      using that al by blast
    then show ?thesis by (auto simp: hand_write_def in_set_enumerate_eq dest: nth_mem)
  qed
  from this [of ?vs] have c: "\<forall>c \<in> set (hand_write ?vs). 33 \<le> c \<and> c < 127 \<and> c \<noteq> 35"
    by (simp add: symbol_at_less)
  have "hand_write ?vs \<noteq> []" by (simp add: hand_write_def upt_rec)
  let ?w = "map char_of (hand_write ?vs) :: string"
  have "text_of ?w = hand_write ?vs"
    using c by (auto simp: text_of_def comp_def intro!: map_idI)
  moreover have "plain ?w"
  proof -
    have "33 \<le> (of_char (char_of c :: char) :: nat) \<and> (of_char (char_of c :: char) :: nat) < 127 \<and> char_of c \<noteq> CHR ''#''"
      if "c \<in> set (hand_write ?vs)" for c
    proof -
      have "33 \<le> c" "c < 127" "c \<noteq> 35" using c that by auto
      then have "(of_char (char_of c :: char) :: nat) = c" by simp
      moreover from this \<open>c \<noteq> 35\<close> have "char_of c \<noteq> CHR ''#''" by force
      ultimately show ?thesis using \<open>33 \<le> c\<close> \<open>c < 127\<close> by simp
    qed
    then show ?thesis using \<open>hand_write ?vs \<noteq> []\<close> by (simp add: plain_def)
  qed
  ultimately show ?thesis using f by metis
qed

lemma plain_words: "plain ''issuer''" "plain ''signature''"
  by (simp_all add: plain_def)

lemma added_lines:
  assumes "plain w" and "plain h"
  shows "str_lines (text_of ''issuer '' @ text_of w @ [10] @ text_of ''signature '' @ text_of h @ [10])
      = [strip_cr (text_of (unwords [''issuer'', w])), strip_cr (text_of (unwords [''signature'', h]))]"
proof -
  have i: "text_of ''issuer '' @ text_of w = text_of (unwords [''issuer'', w])"
    and s: "text_of ''signature '' @ text_of h = text_of (unwords [''signature'', h])" by simp_all
  have n: "10 \<notin> set (text_of (unwords [''issuer'', w]))" "10 \<notin> set (text_of (unwords [''signature'', h]))"
    using line_words_unwords(2) [of "[''issuer'', w]"] line_words_unwords(2) [of "[''signature'', h]"]
      assms plain_words by simp_all
  have "str_lines (text_of (unwords [''issuer'', w]) @ 10 # (text_of (unwords [''signature'', h]) @ 10 # []))
      = [strip_cr (text_of (unwords [''issuer'', w])), strip_cr (text_of (unwords [''signature'', h]))]"
    by (simp only: lines_Cons [OF n(1)] lines_Cons [OF n(2)] lines_Nil)
  then show ?thesis unfolding i [symmetric] s [symmetric] by simp
qed

lemma read_added:
  assumes "plain w" and "length bs = 64" and "h = concat (map push_hex_lower bs)"
    and "pt_issuer parts = None" and "pt_signature parts = None"
  shows "try_fold (read_line p) (parts, v)
      (enumerate n [strip_cr (text_of (unwords [''issuer'', w])), strip_cr (text_of (unwords [''signature'', h]))])
    = Inr (parts\<lparr>pt_issuer := Some w, pt_signature := Some bs\<rparr>, v)"
proof -
  have "bs \<noteq> []" using assms(2) by auto
  then have "plain h" using hex_plain [of bs] assms(3) by simp
  then have "line_words (strip_cr (text_of (unwords [''issuer'', w]))) = [''issuer'', w]"
      "line_words (strip_cr (text_of (unwords [''signature'', h]))) = [''signature'', h]"
    using assms(1) plain_words line_words_unwords(1) [of "[''issuer'', w]"]
      line_words_unwords(1) [of "[''signature'', h]"] by (simp_all only: line_words_strip_cr) auto
  then show ?thesis
    using assms(4,5) signature_reads [OF assms(2), folded assms(3)]
    by (simp add: read_line_words apply_directive_def and_then_def once_def one_word_def)
qed


lemma settle_signed:
  assumes "settle_parts parts = Inr s" and "u = (unsigned_parts parts)\<lparr>pt_issuer := i, pt_signature := g\<rparr>"
  shows "settle_parts u = Inr (s\<lparr>pt_issuer := i, pt_signature := g\<rparr>)"
proof -
  have "first_missing u = first_missing parts" by (simp add: assms(2) first_missing_def)
  then show ?thesis
    using assms(1) unfolding settle_Inr by (simp add: assms(2) unsigned_parts_def)
qed

lemma canonical_Inr:
  assumes "parts_canonical parts = Inr bs"
  obtains s pol where "settle_parts parts = Inr s" "manifest_policy (manifest_of_parts s) = Inr pol"
    "bs = canonical_bytes (manifest_of_parts s)"
proof (cases "settle_parts parts")
  case (Inr s)
  show thesis
  proof (cases "manifest_policy (manifest_of_parts s)")
    case Inl
    then show thesis using assms Inr
      by (simp add: parts_canonical_def and_then_def manifest_policy_def manifest_of_parts_def)
  next
    case (Inr pol)
    then show thesis using assms \<open>settle_parts parts = Inr s\<close>
      by (intro that [of s pol])
        (simp_all add: parts_canonical_def and_then_def manifest_policy_def manifest_of_parts_def canonical_bytes_def)
  qed
qed (use assms in \<open>simp add: parts_canonical_def and_then_def\<close>)

lemma finish_signed:
  assumes "parts_canonical parts = Inr bs"
  obtains mf where "finish_parts ((unsigned_parts parts)\<lparr>pt_issuer := Some w, pt_signature := Some g\<rparr>) = Inr mf"
    "canonical_bytes mf = bs" "mf_signature mf = g" "mf_issuer mf = w"
    "manifest_policy mf = with_settings (map (\<lambda>mb. (mb_id mb, mb_competence mb)) (sort_key mb_index (pt_members parts)))
      (or_default 0 (pt_byzantine_bps parts)) (or_default 0 (pt_max_competence_ratio parts))"
  using canonical_Inr [OF assms]
proof cases
  case (1 s pol)
  let ?mf = "manifest_of_parts (s\<lparr>pt_issuer := Some w, pt_signature := Some g\<rparr>)"
  have "manifest_policy ?mf = Inr pol" using 1(2) by (simp add: manifest_policy_def manifest_of_parts_def)
  then have "finish_parts ((unsigned_parts parts)\<lparr>pt_issuer := Some w, pt_signature := Some g\<rparr>) = Inr ?mf"
    using settle_signed [OF 1(1) refl, where i = "Some w" and g = "Some g"] unfolding finish_Inr by blast
  then show thesis
    by (rule that)
      (use 1(1) in \<open>simp_all add: 1(3) canonical_bytes_def manifest_of_parts_def or_default_def
        manifest_policy_def settle_Inr\<close>)
qed

lemma read_signed:
  assumes "parts_read p t False = Inr parts" and "plain w" and "length g = 64"
  shows "parts_read p (concat (map (\<lambda>raw. raw @ [10]) (filter kept_line (str_lines t)))
      @ text_of ''issuer '' @ text_of w @ [10] @ text_of ''signature '' @ text_of (concat (map push_hex_lower g)) @ [10]) True
    = Inr ((unsigned_parts parts)\<lparr>pt_issuer := Some w, pt_signature := Some g\<rparr>)"
proof -
  let ?h = "concat (map push_hex_lower g)"
  let ?new = "[strip_cr (text_of (unwords [''issuer'', w])), strip_cr (text_of (unwords [''signature'', ?h]))]"
  obtain v where f: "try_fold (read_line p) (parts_empty, None) (enumerate 0 (str_lines t)) = Inr (parts, v)" "v \<noteq> None"
    using assms(1) by (auto simp: parts_read_def and_then_Inr split: if_splits)
  have g: "g \<noteq> []" using assms(3) by auto
  have e: "unsigned_parts parts_empty = parts_empty" by (simp add: unsigned_parts_def parts_empty_def)
  have k: "\<forall>raw \<in> set (filter kept_line (str_lines t)). 10 \<notin> set raw" using no_newline_line by auto
  have l: "str_lines (concat (map (\<lambda>raw. raw @ [10]) (filter kept_line (str_lines t)))
      @ text_of ''issuer '' @ text_of w @ [10] @ text_of ''signature '' @ text_of ?h @ [10])
    = map strip_cr (filter kept_line (str_lines t)) @ ?new"
    by (simp only: lines_concat [OF k] added_lines [OF assms(2) hex_plain [OF g]])
  have "try_fold (read_line p) (parts_empty, None)
      (enumerate 0 (map strip_cr (filter kept_line (str_lines t))) @ enumerate (length (filter kept_line (str_lines t))) ?new)
    = Inr ((unsigned_parts parts)\<lparr>pt_issuer := Some w, pt_signature := Some g\<rparr>, v)"
    using read_kept_lines [OF f(1), of 0] read_added [OF assms(2,3) refl, of "unsigned_parts parts" p v]
    by (simp only: e try_fold_append sum.case unsigned_simps)
  then show ?thesis
    using f(2) unfolding parts_read_def l enumerate_append_eq by (simp add: and_then_def)
qed

lemma sign_parse_verify:
  assumes "primitives_ok p" and "length (sk_seed admin) = 32" and "sign_text p t admin = Inr out"
  obtains mf parts where "manifest_parse p out = Inr mf"
    "vk_verify p (verifying_key p admin) (canonical_bytes mf) (mf_signature mf) = Inr ()"
    "parts_read p t False = Inr parts" "parts_canonical parts = Inr (canonical_bytes mf)"
    "manifest_policy mf = with_settings (map (\<lambda>mb. (mb_id mb, mb_competence mb)) (sort_key mb_index (pt_members parts)))
      (or_default 0 (pt_byzantine_bps parts)) (or_default 0 (pt_max_competence_ratio parts))"
proof -
  obtain parts bs where r: "parts_read p t False = Inr parts" "parts_canonical parts = Inr bs"
    and out: "out = concat (map (\<lambda>raw. raw @ [10]) (filter kept_line (str_lines t)))
      @ text_of ''issuer '' @ fingerprint (blake2s p) (vk_bytes (verifying_key p admin)) @ [10]
      @ text_of ''signature '' @ text_of (concat (map push_hex_lower (sk_sign p admin bs))) @ [10]"
    using assms(3) unfolding sign_text_def and_then_Inr Let_def kept_line_def by auto
  obtain w where w: "fingerprint (blake2s p) (vk_bytes (verifying_key p admin)) = text_of w" "plain w"
    using fingerprint_plain by blast
  have g: "length (sk_sign p admin bs) = 64" using assms(1) by (simp add: primitives_ok_def sk_sign_def)
  obtain mf where mf: "finish_parts ((unsigned_parts parts)\<lparr>pt_issuer := Some w, pt_signature := Some (sk_sign p admin bs)\<rparr>) = Inr mf"
      "canonical_bytes mf = bs" "mf_signature mf = sk_sign p admin bs"
    and pol: "manifest_policy mf = with_settings (map (\<lambda>mb. (mb_id mb, mb_competence mb)) (sort_key mb_index (pt_members parts)))
      (or_default 0 (pt_byzantine_bps parts)) (or_default 0 (pt_max_competence_ratio parts))"
    by (rule finish_signed [OF r(2), where w = w and g = "sk_sign p admin bs"])
  have "manifest_parse p out = Inr mf"
    using read_signed [OF r(1) w(2) g] mf(1) by (simp only: manifest_parse_def out w(1) and_then_def sum.case)
  moreover have "vk_verify p (verifying_key p admin) (canonical_bytes mf) (mf_signature mf) = Inr ()"
    using assms(1,2) mf by (simp add: vk_verify_def verifying_key_def sk_sign_def primitives_ok_def)
  ultimately show thesis using that r mf(2) pol by blast
qed

text \<open>
  (C13) What the administrator's tool signs, a node accepts: whenever \<open>sign_text\<close> succeeds,
  the text it returns parses, whatever issuer and signature lines, comments, blank lines
  or line endings the input had, and the manifest verifies under the administrator's
  public key at exactly the instants of its half-open validity window.
\<close>

theorem signed_text_verifies:
  assumes "primitives_ok p" and "length (sk_seed admin) = 32" and "sign_text p t admin = Inr out"
  shows "\<exists>mf. manifest_parse p out = Inr mf
    \<and> (\<forall>now. manifest_verify p mf (verifying_key p admin) now =
         (if now < mf_valid_from mf then Inl (NotYetValid (mf_valid_from mf) now)
          else if now \<ge> mf_valid_until mf then Inl (MExpired (mf_valid_until mf) now) else Inr ()))"
  using sign_parse_verify [OF assms]
proof cases
  case (1 mf parts)
  then show ?thesis by (simp add: manifest_verify_def)
qed

text \<open>
  The order in which a file lists its members does not change what is signed: any
  reordering of the members an accepted file lists gives the same canonical form, or the
  same refusal.
\<close>

theorem member_order_irrelevant:
  assumes "parts_wf p parts" and "mset ms = mset (pt_members parts)"
  shows "parts_canonical (parts\<lparr>pt_members := ms\<rparr>) = parts_canonical parts"
proof -
  have "inj_on mb_index (set (pt_members parts))" using assms(1) by (simp add: parts_wf_def distinct_map)
  moreover have "set ms = set (pt_members parts)" using assms(2) by (metis set_mset_mset)
  ultimately have "sort_key mb_index ms = sort_key mb_index (pt_members parts)"
    by (intro sort_key_inj_key_eq) (simp_all add: assms(2))
  moreover have "length ms = length (pt_members parts)" using assms(2) by (metis size_mset)
  moreover have "first_missing (parts\<lparr>pt_members := ms\<rparr>) = first_missing parts" by (simp add: first_missing_def)
  moreover have "ms = [] \<longleftrightarrow> pt_members parts = []" using assms(2) by (metis mset_zero_iff)
  ultimately have "settle_parts (parts\<lparr>pt_members := ms\<rparr>) = settle_parts parts"
    by (simp add: settle_parts_def Let_def split: option.splits)
  then show ?thesis by (simp only: parts_canonical_def)
qed

section \<open>Witnesses\<close>

text \<open>A file given by its words, and its reading word by word.\<close>

definition read_words :: "primitives \<Rightarrow> Parts \<times> u32 option \<Rightarrow> nat \<times> string list \<Rightarrow> (ManifestError, Parts \<times> u32 option) result" where
  "read_words p s x = (case s of (parts, version) \<Rightarrow> case x of (n, words) \<Rightarrow>
     (case words of
        [] \<Rightarrow> Inr (parts, version)
      | d # ws \<Rightarrow>
          if pt_signature parts \<noteq> None then Inl (OutOfOrder (n + 1) ''signature'')
          else if d \<noteq> ''member'' \<and> d \<noteq> ''issuer'' \<and> d \<noteq> ''signature'' \<and> pt_members parts \<noteq> []
               then Inl (OutOfOrder (n + 1) ''a header directive'')
          else if d \<noteq> ''member'' \<and> d \<noteq> ''issuer'' \<and> d \<noteq> ''signature'' \<and> d \<noteq> ''version'' \<and> version = None
               then Inl (MissingDirective ''version'')
          else apply_directive p (parts, version) d ws (n + 1)))"

lemma read_line_read_words: "read_line p s (n, raw) = read_words p s (n, line_words raw)"
  by (cases s) (simp only: read_line_words read_words_def prod.case)

lemma fold_read_words:
  assumes "\<forall>ws \<in> set wss. \<forall>w \<in> set ws. plain w"
  shows "try_fold (read_line p) s (enumerate n (str_lines (concat (map (\<lambda>ws. text_of (unwords ws) @ [10]) wss))))
    = try_fold (read_words p) s (enumerate n wss)"
proof -
  have "\<forall>raw \<in> set (map (\<lambda>ws. text_of (unwords ws)) wss). 10 \<notin> set raw"
    using assms line_words_unwords(2) by auto
  from lines_concat [OF this, of "[]"]
  have l: "str_lines (concat (map (\<lambda>ws. text_of (unwords ws) @ [10]) wss)) = map (\<lambda>ws. strip_cr (text_of (unwords ws))) wss"
    by (simp add: comp_def)
  have "try_fold (read_line p) s (enumerate n (map (\<lambda>ws. strip_cr (text_of (unwords ws))) wss))
      = try_fold (read_words p) s (enumerate n wss)"
    using assms
  proof (induction wss arbitrary: s n)
    case (Cons ws wss)
    then show ?case
      by (simp add: read_line_read_words line_words_strip_cr line_words_unwords(1) split: sum.splits)
  qed simp
  then show ?thesis by (simp only: l)
qed

definition hexed :: "u8 \<Rightarrow> string" where
  "hexed b = concat (map push_hex_lower (replicate 32 b))"

definition sample_words :: "string list list" where
  "sample_words = [[''version'', ''2''], [''epoch'', ''7''], [''valid-from'', ''100''], [''valid-until'', ''200''],
     [''group-key'', hexed 9], [''byzantine-bps'', ''3333''],
     [''max-competence-ratio'', ''3''], [''phy-profile'', ''eu868-sf10-v1''], [''heard-capacity'', ''64''],
     [''member'', ''1'', ''66'', hexed 2, ''bravo''],
     [''member'', ''0'', ''100'', hexed 1, ''alpha'']]"

definition sample_text :: "code_point list" where
  "sample_text = concat (map (\<lambda>ws. text_of (unwords ws) @ [10]) sample_words)"

definition sample_parts :: Parts where
  "sample_parts = \<lparr>pt_epoch = Some 7, pt_valid_from = Some 100, pt_valid_until = Some 200,
     pt_group_key_id = Some (replicate 32 9), pt_byzantine_bps = Some 3333, pt_max_competence_ratio = Some 3,
     pt_phy_profile = Some ''eu868-sf10-v1'', pt_heard_capacity = Some 64,
     pt_members = [\<lparr>mb_index = 1, mb_competence = 66, mb_key = \<lparr>vk_bytes = replicate 32 2\<rparr>, mb_id = ''bravo''\<rparr>,
       \<lparr>mb_index = 0, mb_competence = 100, mb_key = \<lparr>vk_bytes = replicate 32 1\<rparr>, mb_id = ''alpha''\<rparr>],
     pt_issuer = None, pt_signature = None\<rparr>"

lemma length_hex: "length (concat (map push_hex_lower bs)) = 2 * length bs"
  by (induction bs) simp_all

lemma plain_hexed: "plain (hexed b)"
  unfolding hexed_def by (rule hex_plain) simp

lemma hexed_reads: "hex_bytes 32 (hexed b) n f = Inr (replicate 32 b)"
  unfolding hexed_def hex_bytes_def by (simp only: length_hex hex_pairs_push length_replicate) simp

lemma sample_reads: "parts_read sample_primitives sample_text False = Inr sample_parts"
proof -
  have pl: "\<forall>ws \<in> set sample_words. \<forall>w \<in> set ws. plain w"
    by (simp add: sample_words_def plain_hexed) (simp add: plain_def)
  have "try_fold (read_words sample_primitives) (parts_empty, None) (enumerate 0 sample_words) = Inr (sample_parts, Some 2)"
    by (simp add: sample_words_def read_words_def apply_directive_def and_then_def once_def one_word_def number_def
        bounded_def canonical_number_def parse_unsigned_def is_digit_def MANIFEST_VERSION_def hex_field_def hexed_reads
        eu868_sf10_name_def HEARD_CAPACITY_def add_member_def vk_from_bytes_def check_label_def MAX_LABEL_BYTES_def
        label_char_def parts_empty_def sample_parts_def sample_primitives_def Let_def)
  then show ?thesis
    using fold_read_words [OF pl, of sample_primitives "(parts_empty, None)" 0]
    by (simp add: parts_read_def and_then_def sample_text_def)
qed


lemma sample_settles:
  "settle_parts sample_parts = Inr (sample_parts\<lparr>pt_members := rev (pt_members sample_parts)\<rparr>)"
  by (simp add: settle_parts_def first_missing_def sample_parts_def Let_def or_default_def HEARD_CAPACITY_def)

lemma sample_policy: "\<exists>pol. with_settings [(''alpha'', 100), (''bravo'', 66)] 3333 3 = Inr pol"
proof -
  have "(case with_settings [(''alpha'', 100), (''bravo'', 66)] 3333 3 of Inl _ \<Rightarrow> False | Inr _ \<Rightarrow> True)"
    by code_simp
  then show ?thesis by (auto split: sum.splits)
qed

lemma sample_signs:
  obtains out where "sign_text sample_primitives sample_text admin = Inr out"
proof -
  obtain pol where "with_settings [(''alpha'', 100), (''bravo'', 66)] 3333 3 = Inr pol"
    using sample_policy by blast
  then obtain bs where "parts_canonical sample_parts = Inr bs"
    by (simp add: parts_canonical_def sample_settles and_then_def) (simp add: sample_parts_def or_default_def)
  then show thesis
    using that sample_reads by (simp add: sign_text_def and_then_def Let_def)
qed

theorem signed_text_verifies_witness:
  "\<exists>out mf. sign_text sample_primitives sample_text (from_seed (replicate 32 5)) = Inr out
     \<and> manifest_parse sample_primitives out = Inr mf
     \<and> manifest_verify sample_primitives mf (verifying_key sample_primitives (from_seed (replicate 32 5))) (mf_valid_until mf)
         \<noteq> Inr ()"
proof -
  obtain out where o: "sign_text sample_primitives sample_text (from_seed (replicate 32 5)) = Inr out"
    by (rule sample_signs)
  have "length (sk_seed (from_seed (replicate 32 5))) = 32" by (simp add: from_seed_def)
  from signed_text_verifies [OF sample_primitives_ok this o] o show ?thesis by fastforce
qed

theorem parsed_manifest_wf_witness:
  "\<exists>t mf. manifest_parse sample_primitives t = Inr mf \<and> manifest_wf sample_primitives mf"
proof -
  obtain out where o: "sign_text sample_primitives sample_text (from_seed (replicate 32 5)) = Inr out"
    by (rule sample_signs)
  have "length (sk_seed (from_seed (replicate 32 5))) = 32" by (simp add: from_seed_def)
  from sign_parse_verify [OF sample_primitives_ok this o] obtain mf where "manifest_parse sample_primitives out = Inr mf" .
  with parsed_manifest_wf [OF this] show ?thesis by blast
qed

text \<open>Two administrators sign the same file: the manifests differ in issuer and signature only.\<close>

theorem canonical_form_determines_manifest_witness:
  "\<exists>t u a b. manifest_parse sample_primitives t = Inr a \<and> manifest_parse sample_primitives u = Inr b
     \<and> a\<lparr>mf_issuer := [], mf_signature := []\<rparr> = b\<lparr>mf_issuer := [], mf_signature := []\<rparr>"
proof -
  have l: "length (sk_seed (from_seed (replicate 32 b))) = 32" for b by (simp add: from_seed_def)
  obtain t where "sign_text sample_primitives sample_text (from_seed (replicate 32 5)) = Inr t"
    by (rule sample_signs)
  from sign_parse_verify [OF sample_primitives_ok l this] obtain a parts
    where a: "manifest_parse sample_primitives t = Inr a" "parts_read sample_primitives sample_text False = Inr parts"
      "parts_canonical parts = Inr (canonical_bytes a)" .
  obtain u where "sign_text sample_primitives sample_text (from_seed (replicate 32 6)) = Inr u"
    by (rule sample_signs)
  from sign_parse_verify [OF sample_primitives_ok l this] obtain b parts'
    where b: "manifest_parse sample_primitives u = Inr b" "parts_read sample_primitives sample_text False = Inr parts'"
      "parts_canonical parts' = Inr (canonical_bytes b)" .
  have "canonical_bytes a = canonical_bytes b" using a b by simp
  from canonical_form_determines_manifest [OF a(1) b(1) this] a(1) b(1) show ?thesis by blast
qed

theorem member_order_irrelevant_witness:
  "parts_canonical (sample_parts\<lparr>pt_members := rev (pt_members sample_parts)\<rparr>) = parts_canonical sample_parts"
  by (rule member_order_irrelevant [of sample_primitives])
    (use parts_wf_read [OF sample_reads] in simp_all)

end
