(* ===== verification/Lcq_Radio.thy ===== *)
theory Lcq_Radio
  imports Lcq_Prelude
begin

text \<open>
  \<open>src/application/radio.rs\<close>: the radio as the protocol sees it. The physical profile,
  what a radio may report and why it may refuse a frame are data; the adapters that
  implement the \<open>Radio\<close> trait are modelled in \<open>Lcq_Rnode\<close> and \<open>Lcq_Hub\<close>. Signed 8- and
  16-bit integers are words read through \<open>sint\<close>.
\<close>

type_synonym i8 = "8 word"
type_synonym i16 = "16 word"

record PhyProfile =
  pp_name :: string
  spreading_factor :: u8
  bandwidth_hz :: u32
  coding_rate_denominator :: u8
  preamble_symbols :: u16
  explicit_header :: bool
  crc_on :: bool
  iq_inverted :: bool
  low_data_rate_optimize :: bool
  frequency_hz :: u32
  tx_power_dbm :: i8
  sync_word :: u8
  rx_continuous :: bool
  cad_symbols :: u8
  cad_detect_peak :: u8
  cad_detect_min :: u8
  preamble_symbols_to_lock :: u16
  capture_threshold_db :: u8

definition eu868_sf10 :: PhyProfile where
  "eu868_sf10 =
     \<lparr>pp_name = ''eu868-sf10-v1'', spreading_factor = 10, bandwidth_hz = 125000,
      coding_rate_denominator = 5, preamble_symbols = 8, explicit_header = True, crc_on = True,
      iq_inverted = False, low_data_rate_optimize = False, frequency_hz = 868100000,
      tx_power_dbm = 14, sync_word = 0x12, rx_continuous = True, cad_symbols = 8,
      cad_detect_peak = 23, cad_detect_min = 10, preamble_symbols_to_lock = 6,
      capture_threshold_db = 6\<rparr>"

record Received =
  rc_bytes :: bytes
  rc_rssi_dbm :: i16
  rc_snr_db :: i8

datatype RadioEvent =
    EvReceived Received
  | EvCrcError i16
  | EvHeaderError i16
  | EvNote string

datatype RadioError =
    TooLong nat nat
  | Offline

section \<open>Numbers in notes\<close>

text \<open>Decimal notation, as Rust's \<open>format!\<close> writes an unsigned number.\<close>

fun show_dec :: "nat \<Rightarrow> string" where
  "show_dec n = (if n < 10 then [char_of (48 + n)] else show_dec (n div 10) @ [char_of (48 + n mod 10)])"

declare show_dec.simps [simp del]

text \<open>\<open>i16::try_from\<close> and friends on a value known to fit.\<close>

lemma sint_ucast_u8_i16 [simp]: "sint (ucast (w :: u8) :: i16) = uint w"
proof -
  have "uint w < 2 ^ 8" using uint_lt2p [of w] by simp
  moreover have "- 32768 \<le> uint w" by (rule order_trans [of _ 0]) simp_all
  ultimately show ?thesis
    by (simp add: signed_ucast_eq signed_take_bit_int_eq_self_iff)
qed

end
