(* ===== verification/Lcq_Rnode.thy ===== *)
theory Lcq_Rnode
  imports Lcq_Radio "HOL-Library.Signed_Division"
begin

text \<open>
  \<open>src/infrastructure/rnode.rs\<close>: the RNode host protocol. KISS framing and its deframer,
  which keeps a partial frame across reads of any length, and the link state machine
  that configures the device, tracks its radio and turns its frames into radio events.
  This is the sans-I/O part, which the source keeps separate from the thread that pumps
  the serial port; that one is in \<open>Lcq_Rnode_Radio\<close>.
\<close>

section \<open>KISS framing\<close>

definition FEND :: u8 where "FEND = 0xC0"
definition FESC :: u8 where "FESC = 0xDB"
definition TFEND :: u8 where "TFEND = 0xDC"
definition TFESC :: u8 where "TFESC = 0xDD"

lemmas kiss_bytes = FEND_def FESC_def TFEND_def TFESC_def

definition kiss_escape :: "u8 \<Rightarrow> bytes" where
  "kiss_escape b = (if b = FEND then [FESC, TFEND] else if b = FESC then [FESC, TFESC] else [b])"

definition kiss_encode :: "u8 \<Rightarrow> bytes \<Rightarrow> bytes" where
  "kiss_encode command payload = [FEND, command] @ concat (map kiss_escape payload) @ [FEND]"

record Deframer =
  df_frame :: bytes
  df_in_frame :: bool
  df_escaped :: bool
  df_limit :: nat

definition deframer_new :: "nat \<Rightarrow> Deframer" where
  "deframer_new limit = \<lparr>df_frame = [], df_in_frame = False, df_escaped = False, df_limit = limit\<rparr>"

definition unescape :: "u8 \<Rightarrow> u8" where
  "unescape b = (if b = TFEND then FEND else if b = TFESC then FESC else b)"

text \<open>A decoded byte joins the frame, unless the frame is full: then it is dropped whole.\<close>

definition keep_byte :: "Deframer \<Rightarrow> u8 \<Rightarrow> Deframer" where
  "keep_byte d decoded =
     (if length (df_frame d) \<ge> df_limit d then d\<lparr>df_frame := [], df_in_frame := False\<rparr>
      else d\<lparr>df_frame := df_frame d @ [decoded]\<rparr>)"

definition push_byte :: "Deframer \<times> bytes list \<Rightarrow> u8 \<Rightarrow> Deframer \<times> bytes list" where
  "push_byte s b =
     (case s of (d, out) \<Rightarrow>
        if b = FEND then
          (d\<lparr>df_frame := [], df_in_frame := True, df_escaped := False\<rparr>,
           if df_in_frame d \<and> df_frame d \<noteq> [] then out @ [df_frame d] else out)
        else if \<not> df_in_frame d then (d, out)
        else if df_escaped d then (keep_byte (d\<lparr>df_escaped := False\<rparr>) (unescape b), out)
        else if b = FESC then (d\<lparr>df_escaped := True\<rparr>, out)
        else (keep_byte d b, out))"

definition deframer_push :: "Deframer \<Rightarrow> bytes \<Rightarrow> Deframer \<times> bytes list" where
  "deframer_push d bs = foldl push_byte (d, []) bs"

section \<open>The host protocol\<close>

definition CMD_DATA :: u8 where "CMD_DATA = 0x00"
definition CMD_FREQUENCY :: u8 where "CMD_FREQUENCY = 0x01"
definition CMD_BANDWIDTH :: u8 where "CMD_BANDWIDTH = 0x02"
definition CMD_TXPOWER :: u8 where "CMD_TXPOWER = 0x03"
definition CMD_SPREADING_FACTOR :: u8 where "CMD_SPREADING_FACTOR = 0x04"
definition CMD_CODING_RATE :: u8 where "CMD_CODING_RATE = 0x05"
definition CMD_RADIO_STATE :: u8 where "CMD_RADIO_STATE = 0x06"
definition CMD_DETECT :: u8 where "CMD_DETECT = 0x08"
definition CMD_STAT_RSSI :: u8 where "CMD_STAT_RSSI = 0x23"
definition CMD_STAT_SNR :: u8 where "CMD_STAT_SNR = 0x24"
definition CMD_PLATFORM :: u8 where "CMD_PLATFORM = 0x48"
definition CMD_MCU :: u8 where "CMD_MCU = 0x49"
definition CMD_FW_VERSION :: u8 where "CMD_FW_VERSION = 0x50"
definition CMD_ERROR :: u8 where "CMD_ERROR = 0x90"

lemmas command_bytes = CMD_DATA_def CMD_FREQUENCY_def CMD_BANDWIDTH_def CMD_TXPOWER_def
  CMD_SPREADING_FACTOR_def CMD_CODING_RATE_def CMD_RADIO_STATE_def CMD_DETECT_def
  CMD_STAT_RSSI_def CMD_STAT_SNR_def CMD_PLATFORM_def CMD_MCU_def CMD_FW_VERSION_def CMD_ERROR_def

definition DETECT_REQUEST :: u8 where "DETECT_REQUEST = 0x73"
definition DETECT_RESPONSE :: u8 where "DETECT_RESPONSE = 0x46"
definition RSSI_OFFSET :: i16 where "RSSI_OFFSET = 157"
definition MAX_PACKET_BYTES :: nat where "MAX_PACKET_BYTES = 254"
definition FRAME_LIMIT :: nat where "FRAME_LIMIT = 600"

record RNodeLink =
  rl_profile :: PhyProfile
  rl_deframer :: Deframer
  rl_outbound :: bytes
  rl_events :: "RadioEvent list"
  rl_detected :: bool
  rl_online :: bool
  rl_firmware :: "(u8 \<times> u8) option"
  pending_rssi :: "i16 option"
  pending_snr :: "i8 option"

definition link_new :: "PhyProfile \<Rightarrow> RNodeLink" where
  "link_new profile =
     \<lparr>rl_profile = profile, rl_deframer = deframer_new FRAME_LIMIT, rl_outbound = [], rl_events = [],
      rl_detected = False, rl_online = False, rl_firmware = None, pending_rssi = None, pending_snr = None\<rparr>"

definition link_queue :: "u8 \<Rightarrow> bytes \<Rightarrow> RNodeLink \<Rightarrow> RNodeLink" where
  "link_queue command payload l = l\<lparr>rl_outbound := rl_outbound l @ kiss_encode command payload\<rparr>"

text \<open>The frames of the bring-up, in the order they are queued.\<close>

definition bring_up :: "PhyProfile \<Rightarrow> (u8 \<times> bytes) list" where
  "bring_up p =
     [(CMD_DETECT, [DETECT_REQUEST]), (CMD_FW_VERSION, [0]), (CMD_PLATFORM, [0]), (CMD_MCU, [0]),
      (CMD_FREQUENCY, be_bytes 4 (frequency_hz p)), (CMD_BANDWIDTH, be_bytes 4 (bandwidth_hz p)),
      (CMD_TXPOWER, [tx_power_dbm p]), (CMD_SPREADING_FACTOR, [spreading_factor p]),
      (CMD_CODING_RATE, [coding_rate_denominator p]), (CMD_RADIO_STATE, [1])]"

definition link_start :: "RNodeLink \<Rightarrow> RNodeLink" where
  "link_start l = foldl (\<lambda>l (command, payload). link_queue command payload l) l (bring_up (rl_profile l))"

definition take_outbound :: "RNodeLink \<Rightarrow> bytes \<times> RNodeLink" where
  "take_outbound l = (rl_outbound l, l\<lparr>rl_outbound := []\<rparr>)"

definition link_note :: "string \<Rightarrow> RNodeLink \<Rightarrow> RNodeLink" where
  "link_note body l = l\<lparr>rl_events := rl_events l @ [EvNote body]\<rparr>"

definition show_u8 :: "u8 \<Rightarrow> string" where "show_u8 b = show_dec (unat b)"

definition show_bool :: "bool \<Rightarrow> string" where "show_bool b = (if b then ''true'' else ''false'')"

definition or_zero :: "'a::zero option \<Rightarrow> 'a" where
  "or_zero x = (case x of None \<Rightarrow> 0 | Some v \<Rightarrow> v)"

definition first_byte :: "bytes \<Rightarrow> u8 option" where
  "first_byte bs = (case bs of [] \<Rightarrow> None | b # _ \<Rightarrow> Some b)"

definition on_frame :: "RNodeLink \<Rightarrow> bytes \<Rightarrow> RNodeLink" where
  "on_frame l frame =
     (case frame of
        [] \<Rightarrow> l
      | command # payload \<Rightarrow>
          if command = CMD_DETECT then
            (if first_byte payload = Some DETECT_RESPONSE then l\<lparr>rl_detected := True\<rparr> else l)
          else if command = CMD_FW_VERSION then
            (case payload of
               major # minor # _ \<Rightarrow>
                 link_note (''\"event\":\"rnode_firmware\",\"major\":'' @ show_u8 major
                   @ '',\"minor\":'' @ show_u8 minor) (l\<lparr>rl_firmware := Some (major, minor)\<rparr>)
             | _ \<Rightarrow> l)
          else if command = CMD_RADIO_STATE then
            (let online = (first_byte payload = Some 1); l' = l\<lparr>rl_online := online\<rparr>
             in if online \<noteq> rl_online l
                then link_note (''\"event\":\"rnode_radio\",\"online\":'' @ show_bool online) l' else l')
          else if command = CMD_STAT_RSSI then
            (case first_byte payload of None \<Rightarrow> l
             | Some raw \<Rightarrow> l\<lparr>pending_rssi := Some (ucast raw - RSSI_OFFSET)\<rparr>)
          else if command = CMD_STAT_SNR then
            (case first_byte payload of None \<Rightarrow> l
             | Some raw \<Rightarrow> l\<lparr>pending_snr := Some (word_of_int (sint raw sdiv 4))\<rparr>)
          else if command = CMD_DATA then
            l\<lparr>pending_rssi := None, pending_snr := None,
              rl_events := rl_events l @ [EvReceived \<lparr>rc_bytes = payload,
                rc_rssi_dbm = or_zero (pending_rssi l), rc_snr_db = or_zero (pending_snr l)\<rparr>]\<rparr>
          else if command = CMD_ERROR then
            link_note (''\"event\":\"rnode_error\",\"code\":'' @ show_u8 (or_zero (first_byte payload))) l
          else l)"

definition on_serial :: "RNodeLink \<Rightarrow> bytes \<Rightarrow> RNodeLink" where
  "on_serial l bs =
     (case deframer_push (rl_deframer l) bs of
        (d, frames) \<Rightarrow> foldl on_frame (l\<lparr>rl_deframer := d\<rparr>) frames)"

definition link_transmit :: "RNodeLink \<Rightarrow> bytes \<Rightarrow> (RadioError, unit) result \<times> RNodeLink" where
  "link_transmit l bs =
     (if length bs > MAX_PACKET_BYTES then (Inl (TooLong (length bs) MAX_PACKET_BYTES), l)
      else if \<not> rl_online l then (Inl Offline, l)
      else (Inr (), link_queue CMD_DATA bs l))"

definition link_poll :: "RNodeLink \<Rightarrow> RadioEvent option \<times> RNodeLink" where
  "link_poll l = (case rl_events l of [] \<Rightarrow> (None, l) | e # rest \<Rightarrow> (Some e, l\<lparr>rl_events := rest\<rparr>))"

section \<open>A deframer delivers what was framed\<close>

lemma push_byte_out: "push_byte (d, out) b = (fst (push_byte (d, []) b), out @ snd (push_byte (d, []) b))"
  by (simp add: push_byte_def)

lemma push_out:
  "foldl push_byte (d, out) bs = (fst (foldl push_byte (d, []) bs), out @ snd (foldl push_byte (d, []) bs))"
proof (induction bs arbitrary: d out)
  case Nil
  then show ?case by simp
next
  case (Cons b bs)
  obtain d' o' where p: "push_byte (d, []) b = (d', o')" by fastforce
  show ?case
    using Cons.IH [of d' "out @ o'"] Cons.IH [of d' o'] push_byte_out [of d out b] p by simp
qed

lemma deframer_push_append:
  "deframer_push d (xs @ ys) = (fst (deframer_push (fst (deframer_push d xs)) ys),
     snd (deframer_push d xs) @ snd (deframer_push (fst (deframer_push d xs)) ys))"
  by (subst deframer_push_def, subst foldl_append)
     (metis deframer_push_def fst_conv prod.collapse push_out snd_conv)

lemma deframer_push_Nil [simp]: "deframer_push d [] = (d, [])"
  by (simp add: deframer_push_def)

lemma deframer_push_Cons:
  "deframer_push d (b # bs) = (fst (deframer_push (fst (push_byte (d, []) b)) bs),
     snd (push_byte (d, []) b) @ snd (deframer_push (fst (push_byte (d, []) b)) bs))"
  by (simp add: deframer_push_def) (metis prod.collapse push_out)

definition mid_frame :: "nat \<Rightarrow> bytes \<Rightarrow> Deframer" where
  "mid_frame limit bs = \<lparr>df_frame = bs, df_in_frame = True, df_escaped = False, df_limit = limit\<rparr>"

lemma push_escaped:
  assumes "length bs < limit"
  shows "deframer_push (mid_frame limit bs) (kiss_escape b) = (mid_frame limit (bs @ [b]), [])"
  using assms
  by (auto simp: kiss_escape_def deframer_push_def push_byte_def mid_frame_def keep_byte_def unescape_def
      kiss_bytes)

lemma push_payload:
  assumes "length bs + length payload \<le> limit"
  shows "deframer_push (mid_frame limit bs) (concat (map kiss_escape payload)) = (mid_frame limit (bs @ payload), [])"
  using assms
  by (induction payload arbitrary: bs) (simp_all add: deframer_push_append push_escaped)

definition fits :: "nat \<Rightarrow> u8 \<times> bytes \<Rightarrow> bool" where
  "fits limit m = (fst m \<noteq> FEND \<and> fst m \<noteq> FESC \<and> length (snd m) < limit)"

definition unfinished :: "Deframer \<Rightarrow> bytes list" where
  "unfinished d = (if df_in_frame d \<and> df_frame d \<noteq> [] then [df_frame d] else [])"

lemma push_encode:
  assumes "fits (df_limit d) (c, payload)"
  shows "deframer_push d (kiss_encode c payload)
    = (mid_frame (df_limit d) [], unfinished d @ [c # payload])"
proof -
  have start: "push_byte (d, []) FEND = (mid_frame (df_limit d) [], unfinished d)"
    by (simp add: push_byte_def mid_frame_def unfinished_def)
  have first: "push_byte (mid_frame (df_limit d) [], []) c = (mid_frame (df_limit d) [c], [])"
    using assms by (simp add: push_byte_def mid_frame_def keep_byte_def fits_def)
  have rest: "deframer_push (mid_frame (df_limit d) [c]) (concat (map kiss_escape payload))
      = (mid_frame (df_limit d) (c # payload), [])"
    using push_payload [of "[c]" payload "df_limit d"] assms by (simp add: fits_def)
  have last: "push_byte (mid_frame (df_limit d) (c # payload), []) FEND
      = (mid_frame (df_limit d) [], [c # payload])"
    by (simp add: push_byte_def mid_frame_def)
  show ?thesis
    by (simp add: kiss_encode_def deframer_push_Cons start first deframer_push_append rest last)
qed

lemma unfinished_mid [simp]: "unfinished (mid_frame limit []) = []" "df_limit (mid_frame limit bs) = limit"
  by (simp_all add: unfinished_def mid_frame_def)

definition kiss_stream :: "(u8 \<times> bytes) list \<Rightarrow> bytes" where
  "kiss_stream ms = concat (map (\<lambda>(c, payload). kiss_encode c payload) ms)"

lemma push_stream:
  assumes "\<forall>m \<in> set ms. fits limit m"
  shows "deframer_push (mid_frame limit []) (kiss_stream ms)
    = (mid_frame limit [], map (\<lambda>(c, payload). c # payload) ms)"
  using assms
  by (induction ms) (auto simp: kiss_stream_def deframer_push_append push_encode)

lemma df_limit_push [simp]: "df_limit (fst (deframer_push d bs)) = df_limit d"
  by (induction bs arbitrary: d) (auto simp: deframer_push_Cons push_byte_def keep_byte_def)

text \<open>Reads of the port, one after another, as the pump hands them over.\<close>

fun feed :: "Deframer \<Rightarrow> bytes list \<Rightarrow> Deframer \<times> bytes list" where
  "feed d [] = (d, [])"
| "feed d (chunk # chunks) =
     (case deframer_push d chunk of (d', fs) \<Rightarrow> case feed d' chunks of (d'', gs) \<Rightarrow> (d'', fs @ gs))"

lemma feed_concat: "feed d chunks = deframer_push d (concat chunks)"
  by (induction chunks arbitrary: d) (simp_all add: deframer_push_append split: prod.split)

text \<open>
  However a serial port chops the stream up, and whatever noise came before it, a
  deframer delivers exactly the frames that were encoded, in order, after what the
  noise itself completed: at most one frame more than the noise alone gives, the
  unfinished one that the first delimiter ends.
\<close>

theorem kiss_delivers:
  assumes "concat chunks = noise @ kiss_stream ms" and "\<forall>m \<in> set ms. fits limit m" and "ms \<noteq> []"
  shows "\<exists>junk. length junk \<le> length (snd (deframer_push (deframer_new limit) noise)) + 1
     \<and> (noise = [] \<longrightarrow> junk = [])
     \<and> snd (feed (deframer_new limit) chunks) = junk @ map (\<lambda>(c, payload). c # payload) ms"
proof -
  obtain c p ms' where ms: "ms = (c, p) # ms'" using assms(3) by (cases ms) auto
  define d where "d = fst (deframer_push (deframer_new limit) noise)"
  have l: "df_limit d = limit" by (simp add: d_def deframer_new_def)
  have "deframer_push d (kiss_stream ms)
      = (mid_frame limit [], unfinished d @ map (\<lambda>(c, payload). c # payload) ms)"
    using assms(2) l push_encode [of d c p] push_stream [of ms' limit]
    by (simp add: ms kiss_stream_def deframer_push_append)
  then have "snd (feed (deframer_new limit) chunks)
      = (snd (deframer_push (deframer_new limit) noise) @ unfinished d) @ map (\<lambda>(c, payload). c # payload) ms"
    by (simp add: feed_concat assms(1) deframer_push_append d_def [symmetric])
  moreover have "length (unfinished d) \<le> 1" by (simp add: unfinished_def)
  moreover have "noise = [] \<longrightarrow> unfinished d = []" by (simp add: d_def unfinished_def deframer_new_def)
  ultimately show ?thesis by fastforce
qed

theorem kiss_delivers_witness:
  "snd (feed (deframer_new 600) [[0xC0], [0, 0xDB], [0xDC, 7, 0xC0, 0xC0, 8], [0x46, 0xC0]])
     = [[0, 0xC0, 7], [8, 0x46]]"
  using kiss_delivers [of "[[0xC0], [0, 0xDB], [0xDC, 7, 0xC0, 0xC0, 8], [0x46, 0xC0]]" "[]"
      "[(0, [0xC0, 7]), (8, [0x46])]" 600]
  by (simp add: kiss_stream_def kiss_encode_def kiss_escape_def kiss_bytes fits_def)

text \<open>What a device sends cannot make the deframer grow: no more than the limit is held or delivered.\<close>

definition df_ok :: "Deframer \<Rightarrow> bool" where
  "df_ok d = (length (df_frame d) \<le> df_limit d \<and> (\<not> df_in_frame d \<longrightarrow> df_frame d = [] \<and> \<not> df_escaped d))"

lemma df_ok_byte:
  assumes "df_ok d"
  shows "df_ok (fst (push_byte (d, []) b))
    \<and> (\<forall>f \<in> set (snd (push_byte (d, []) b)). f \<noteq> [] \<and> length f \<le> df_limit d)"
  using assms by (auto simp: df_ok_def push_byte_def keep_byte_def)

lemma df_limit_byte [simp]: "df_limit (fst (push_byte (d, out) b)) = df_limit d"
  by (simp add: push_byte_def keep_byte_def)

lemma df_ok_push:
  assumes "df_ok d"
  shows "df_ok (fst (deframer_push d bs))
    \<and> (\<forall>f \<in> set (snd (deframer_push d bs)). f \<noteq> [] \<and> length f \<le> df_limit d)"
  using assms
proof (induction bs arbitrary: d)
  case Nil
  then show ?case by simp
next
  case (Cons b bs)
  show ?case using df_ok_byte [OF Cons.prems, of b] Cons.IH [of "fst (push_byte (d, []) b)"]
    by (auto simp: deframer_push_Cons)
qed

text \<open>
  Whatever a device sends, in whatever chunks, the deframer holds and delivers no frame
  over its limit, and delivers no empty one.
\<close>

theorem deframer_bounded:
  "length (df_frame (fst (feed (deframer_new limit) chunks))) \<le> limit
   \<and> (\<forall>f \<in> set (snd (feed (deframer_new limit) chunks)). f \<noteq> [] \<and> length f \<le> limit)"
  using df_ok_push [of "deframer_new limit" "concat chunks"]
  by (auto simp: feed_concat df_ok_def deframer_new_def df_limit_push)

theorem deframer_bounded_witness:
  "snd (feed (deframer_new 2) [[0xC0, 1, 2], [3, 0xC0, 4, 5, 0xC0]]) = [[4, 5]]
   \<and> length (df_frame (fst (feed (deframer_new 2) [[0xC0, 1, 2], [3, 0xC0, 4, 5, 0xC0]]))) \<le> 2
   \<and> length [4, 5 :: 8 word] \<le> 2"
proof -
  have "snd (feed (deframer_new 2) [[0xC0, 1, 2], [3, 0xC0, 4, 5, 0xC0]]) = [[4, 5]]" by code_simp
  with deframer_bounded [of 2 "[[0xC0, 1, 2], [3, 0xC0, 4, 5, 0xC0]]"] show ?thesis by simp
qed

section \<open>The link\<close>

lemma on_frame_detect:
  "on_frame l (CMD_DETECT # p) = (if first_byte p = Some DETECT_RESPONSE then l\<lparr>rl_detected := True\<rparr> else l)"
  by (simp add: on_frame_def)

lemma on_frame_version:
  "on_frame l (CMD_FW_VERSION # p) =
     (case p of major # minor # _ \<Rightarrow>
        link_note (''\"event\":\"rnode_firmware\",\"major\":'' @ show_u8 major
          @ '',\"minor\":'' @ show_u8 minor) (l\<lparr>rl_firmware := Some (major, minor)\<rparr>)
      | _ \<Rightarrow> l)"
  by (simp add: on_frame_def command_bytes)

lemma on_frame_state:
  "on_frame l (CMD_RADIO_STATE # p) =
     (if (first_byte p = Some 1) \<noteq> rl_online l
      then link_note (''\"event\":\"rnode_radio\",\"online\":'' @ show_bool (first_byte p = Some 1))
        (l\<lparr>rl_online := (first_byte p = Some 1)\<rparr>)
      else l\<lparr>rl_online := (first_byte p = Some 1)\<rparr>)"
  by (simp add: on_frame_def command_bytes Let_def)

lemma on_frame_rssi:
  "on_frame l (CMD_STAT_RSSI # p) =
     (case first_byte p of None \<Rightarrow> l | Some raw \<Rightarrow> l\<lparr>pending_rssi := Some (ucast raw - RSSI_OFFSET)\<rparr>)"
  by (simp add: on_frame_def command_bytes)

lemma on_frame_snr:
  "on_frame l (CMD_STAT_SNR # p) =
     (case first_byte p of None \<Rightarrow> l | Some raw \<Rightarrow> l\<lparr>pending_snr := Some (word_of_int (sint raw sdiv 4))\<rparr>)"
  by (simp add: on_frame_def command_bytes)

lemma on_frame_data:
  "on_frame l (CMD_DATA # p) =
     l\<lparr>pending_rssi := None, pending_snr := None,
       rl_events := rl_events l @ [EvReceived \<lparr>rc_bytes = p,
         rc_rssi_dbm = or_zero (pending_rssi l), rc_snr_db = or_zero (pending_snr l)\<rparr>]\<rparr>"
  by (simp add: on_frame_def command_bytes)

lemma on_frame_error:
  "on_frame l (CMD_ERROR # p) = link_note (''\"event\":\"rnode_error\",\"code\":'' @ show_u8 (or_zero (first_byte p))) l"
  by (simp add: on_frame_def command_bytes)

lemma on_frame_other:
  "command \<notin> {CMD_DETECT, CMD_FW_VERSION, CMD_RADIO_STATE, CMD_STAT_RSSI, CMD_STAT_SNR, CMD_DATA, CMD_ERROR}
    \<Longrightarrow> on_frame l (command # p) = l"
  by (simp add: on_frame_def)

lemma on_frame_Nil: "on_frame l [] = l"
  by (simp add: on_frame_def)

lemmas on_frame_simps = on_frame_detect on_frame_version on_frame_state on_frame_rssi on_frame_snr
  on_frame_data on_frame_error on_frame_other on_frame_Nil link_note_def

lemma frame_cases:
  fixes f :: bytes
  obtains "f = []" | p where "f = CMD_DETECT # p" | p where "f = CMD_FW_VERSION # p"
  | p where "f = CMD_RADIO_STATE # p" | p where "f = CMD_STAT_RSSI # p" | p where "f = CMD_STAT_SNR # p"
  | p where "f = CMD_DATA # p" | p where "f = CMD_ERROR # p"
  | c p where "f = c # p" "c \<notin> {CMD_DETECT, CMD_FW_VERSION, CMD_RADIO_STATE, CMD_STAT_RSSI, CMD_STAT_SNR,
      CMD_DATA, CMD_ERROR}"
  by (cases f) blast+

lemma on_frame_kept [simp]: "rl_deframer (on_frame l f) = rl_deframer l" "rl_outbound (on_frame l f) = rl_outbound l"
  by (cases f rule: frame_cases; simp add: on_frame_simps split: option.split list.split)+

lemma on_frames_kept [simp]:
  "rl_deframer (foldl on_frame l fs) = rl_deframer l" "rl_outbound (foldl on_frame l fs) = rl_outbound l"
  by (induction fs arbitrary: l) simp_all

lemma on_frame_set_deframer:
  "on_frame (l\<lparr>rl_deframer := d\<rparr>) f = (on_frame l f)\<lparr>rl_deframer := d\<rparr>"
  by (cases f rule: frame_cases; simp add: on_frame_simps split: option.split list.split)

lemma on_frames_set_deframer:
  "foldl on_frame (l\<lparr>rl_deframer := d\<rparr>) fs = (foldl on_frame l fs)\<lparr>rl_deframer := d\<rparr>"
  by (induction fs arbitrary: l) (simp_all add: on_frame_set_deframer)

lemma on_serial_eq:
  "on_serial l bs = (foldl on_frame l (snd (deframer_push (rl_deframer l) bs)))
     \<lparr>rl_deframer := fst (deframer_push (rl_deframer l) bs)\<rparr>"
  by (simp add: on_serial_def on_frames_set_deframer split: prod.split)

lemma on_serial_append: "on_serial l (xs @ ys) = on_serial (on_serial l xs) ys"
  by (simp add: on_serial_eq deframer_push_append on_frames_set_deframer)

lemma on_serial_chunks: "foldl on_serial l chunks = on_serial l (concat chunks)"
proof (induction chunks arbitrary: l)
  case Nil
  then show ?case by (simp add: on_serial_eq)
next
  case (Cons c cs)
  then show ?case by (simp add: on_serial_append)
qed

lemma rssi_value: "sint (ucast (r :: u8) - RSSI_OFFSET) = uint r - 157"
proof -
  have "uint r < 2 ^ 8" using uint_lt2p [of r] by simp
  moreover have "0 \<le> uint r" by simp
  ultimately have "- 157 \<le> uint r - 157 \<and> uint r - 157 < 256" by simp
  then have "signed_take_bit 15 (uint r - 157) = uint r - 157"
    by (intro signed_take_bit_int_eq_self) simp_all
  then show ?thesis
    unfolding RSSI_OFFSET_def
    by transfer (simp add: signed_take_bit_diff)
qed

text \<open>
  A packet is reported with the strength and the quality that the device sent in the two
  frames before it, whatever the reads it arrived in: strength less the offset, quality a
  quarter of the signed byte, rounded towards zero.
\<close>

theorem rnode_reports_packet:
  assumes "unfinished (rl_deframer l) = []" and "df_limit (rl_deframer l) = FRAME_LIMIT"
    and "length packet < FRAME_LIMIT"
    and "concat chunks = kiss_stream [(CMD_STAT_RSSI, [r]), (CMD_STAT_SNR, [s]), (CMD_DATA, packet)]"
  shows "\<exists>e. rl_events (foldl on_serial l chunks) = rl_events l @ [EvReceived e]
     \<and> rc_bytes e = packet \<and> sint (rc_rssi_dbm e) = uint r - 157
     \<and> sint (rc_snr_db e) = sint s sdiv 4"
proof -
  let ?ms = "[(CMD_STAT_RSSI, [r]), (CMD_STAT_SNR, [s]), (CMD_DATA, packet)]"
  have "snd (deframer_push (rl_deframer l) (kiss_stream ?ms)) = map (\<lambda>(c, payload). c # payload) ?ms"
    using push_encode [of "rl_deframer l" CMD_STAT_RSSI "[r]"] push_stream [of "tl ?ms" FRAME_LIMIT]
      assms(1-3)
    by (simp add: kiss_stream_def deframer_push_append fits_def kiss_bytes command_bytes FRAME_LIMIT_def)
  moreover have "sint (word_of_int (sint s sdiv 4) :: i8) = sint s sdiv 4"
  proof -
    have "- 128 \<le> sint s" "sint s < 128"
      using sint_ge [of s] sint_lt [of s] by simp_all
    then have "- 128 \<le> sint s sdiv 4 \<and> sint s sdiv 4 < 128"
      by (auto simp: signed_divide_int_def sgn_if abs_if)
    moreover have "sint (word_of_int k :: i8) = signed_take_bit 7 k" for k
      by transfer simp
    ultimately show ?thesis by (simp add: signed_take_bit_int_eq_self)
  qed
  ultimately show ?thesis
    by (simp add: on_serial_chunks assms(4) on_serial_eq on_frame_simps first_byte_def or_zero_def rssi_value)
qed

theorem rnode_reports_packet_witness:
  "\<exists>e. rl_events (foldl on_serial (link_new eu868_sf10)
      [[0xC0, 0x23, 67, 0xC0, 0xC0, 0x24], [0xEC, 0xC0, 0xC0, 0, 1], [0xDB, 0xDC, 2, 0xC0]]) = [EvReceived e]
   \<and> rc_bytes e = [1, 0xC0, 2] \<and> sint (rc_rssi_dbm e) = - 90 \<and> sint (rc_snr_db e) = - 5"
  using rnode_reports_packet [of "link_new eu868_sf10" "[1, 0xC0, 2]"
      "[[0xC0, 0x23, 67, 0xC0, 0xC0, 0x24], [0xEC, 0xC0, 0xC0, 0, 1], [0xDB, 0xDC, 2, 0xC0]]" 67 "0xEC"]
  by (simp add: link_new_def deframer_new_def unfinished_def FRAME_LIMIT_def kiss_stream_def kiss_encode_def
      kiss_escape_def kiss_bytes command_bytes signed_divide_int_def)

datatype LinkOp = Send bytes | Serial bytes | Poll

text \<open>A run of the host's calls, with the packets that were accepted for the air.\<close>

fun link_run :: "RNodeLink \<Rightarrow> LinkOp list \<Rightarrow> RNodeLink \<times> bytes list" where
  "link_run l [] = (l, [])"
| "link_run l (Send bs # ops) =
     (case link_transmit l bs of
        (Inl _, l') \<Rightarrow> link_run l' ops
      | (Inr _, l') \<Rightarrow> (case link_run l' ops of (l'', sent) \<Rightarrow> (l'', bs # sent)))"
| "link_run l (Serial bs # ops) = link_run (on_serial l bs) ops"
| "link_run l (Poll # ops) = link_run (snd (link_poll l)) ops"

lemma start_outbound: "rl_outbound (link_start l) = rl_outbound l @ kiss_stream (bring_up (rl_profile l))"
  by (simp add: link_start_def bring_up_def link_queue_def kiss_stream_def)

lemma run_outbound:
  "rl_outbound (fst (link_run l ops)) = rl_outbound l @ kiss_stream (map (Pair CMD_DATA) (snd (link_run l ops)))"
  by (induction l ops rule: link_run.induct)
    (auto simp: link_transmit_def link_queue_def on_serial_eq link_poll_def kiss_stream_def
      split: prod.splits sum.splits list.splits)

lemma run_packets: "\<forall>bs \<in> set (snd (link_run l ops)). length bs \<le> MAX_PACKET_BYTES"
  by (induction l ops rule: link_run.induct) (auto simp: link_transmit_def split: prod.splits sum.splits)

text \<open>
  The device reads, from everything the host ever queued, the bring-up first and then
  exactly the packets that were accepted for transmission, in order.
\<close>

theorem device_reads_accepted:
  assumes "link_run (link_start (link_new profile)) ops = (l, sent)" and "MAX_PACKET_BYTES < limit"
  shows "snd (deframer_push (deframer_new limit) (rl_outbound l))
     = map (\<lambda>(c, payload). c # payload) (bring_up profile) @ map ((#) CMD_DATA) sent"
proof -
  let ?ms = "bring_up profile @ map (Pair CMD_DATA) sent"
  have "rl_outbound l = kiss_stream ?ms"
    using run_outbound [of "link_start (link_new profile)" ops]
    by (simp add: assms(1) start_outbound) (simp add: link_new_def kiss_stream_def)
  moreover have "\<forall>m \<in> set ?ms. fits limit m"
    using run_packets [of "link_start (link_new profile)" ops] assms(2)
    by (auto simp: assms(1) bring_up_def fits_def kiss_bytes command_bytes MAX_PACKET_BYTES_def)
  ultimately show ?thesis
    using push_encode [of "deframer_new limit" CMD_DETECT "[DETECT_REQUEST]"]
      push_stream [of "tl ?ms" limit]
    by (simp add: bring_up_def kiss_stream_def deframer_push_append deframer_new_def unfinished_def
        split_beta comp_def)
qed

theorem device_reads_accepted_witness:
  "snd (deframer_push (deframer_new 600) (rl_outbound (fst (link_run (link_start (link_new eu868_sf10))
      [Send [1], Serial [0xC0, 6, 1, 0xC0], Send [0xC0, 2], Poll]))))
    = map (\<lambda>(c, payload). c # payload) (bring_up eu868_sf10) @ [[0, 0xC0, 2]]"
proof -
  obtain l where "link_run (link_start (link_new eu868_sf10))
      [Send [1], Serial [0xC0, 6, 1, 0xC0], Send [0xC0, 2], Poll] = (l, [[0xC0, 2]])"
    by (simp add: link_start_def link_new_def bring_up_def link_queue_def link_transmit_def on_serial_def
        deframer_push_def push_byte_def keep_byte_def deframer_new_def kiss_bytes FRAME_LIMIT_def
        on_frame_def command_bytes first_byte_def Let_def link_note_def MAX_PACKET_BYTES_def)
  from device_reads_accepted [OF this, of 600] this show ?thesis
    by (simp add: MAX_PACKET_BYTES_def CMD_DATA_def)
qed

definition state_reports :: "bytes list \<Rightarrow> bytes list" where
  "state_reports fs = filter (\<lambda>f. f \<noteq> [] \<and> hd f = CMD_RADIO_STATE) fs"

definition port_reports :: "bytes list \<Rightarrow> bytes list" where
  "port_reports chunks = state_reports (snd (feed (deframer_new FRAME_LIMIT) chunks))"

lemma not_state [simp]:
  "CMD_DETECT \<noteq> CMD_RADIO_STATE" "CMD_FW_VERSION \<noteq> CMD_RADIO_STATE" "CMD_STAT_RSSI \<noteq> CMD_RADIO_STATE"
  "CMD_STAT_SNR \<noteq> CMD_RADIO_STATE" "CMD_DATA \<noteq> CMD_RADIO_STATE" "CMD_ERROR \<noteq> CMD_RADIO_STATE"
  by (simp_all add: command_bytes)

lemma online_on_frame:
  "rl_online (on_frame l f) = (if state_reports [f] = [] then rl_online l else first_byte (tl f) = Some 1)"
  by (cases f rule: frame_cases)
    (auto simp: on_frame_simps state_reports_def split: option.split list.split)

lemma online_frames:
  "rl_online (foldl on_frame l fs)
    = (if state_reports fs = [] then rl_online l else first_byte (tl (last (state_reports fs))) = Some 1)"
proof (induction fs rule: rev_induct)
  case Nil
  then show ?case by (simp add: state_reports_def)
next
  case (snoc f fs)
  then show ?case by (simp add: online_on_frame) (simp add: state_reports_def)
qed

text \<open>
  The link is online exactly when the last radio state the device reported was on, and
  a packet is taken exactly then, if it fits one.
\<close>

theorem transmit_needs_radio_on:
  "fst (link_transmit (foldl on_serial (link_start (link_new profile)) chunks) bs) = Inr ()
    \<longleftrightarrow> length bs \<le> MAX_PACKET_BYTES \<and> port_reports chunks \<noteq> []
      \<and> first_byte (tl (last (port_reports chunks))) = Some 1"
proof -
  have start: "rl_online (link_start (link_new profile)) = False"
      "rl_deframer (link_start (link_new profile)) = deframer_new FRAME_LIMIT"
    by (simp_all add: link_start_def link_new_def bring_up_def link_queue_def)
  have "rl_online (foldl on_serial (link_start (link_new profile)) chunks)
      \<longleftrightarrow> port_reports chunks \<noteq> [] \<and> first_byte (tl (last (port_reports chunks))) = Some 1"
    by (simp add: on_serial_chunks on_serial_eq start online_frames port_reports_def feed_concat)
  then show ?thesis by (simp add: link_transmit_def)
qed

end
