(* ===== verification/Lcq_Float.thy ===== *)
theory Lcq_Float
  imports Complex_Main "HOL-Library.Log_Nat"
begin

text \<open>
  The part of Rust's \<open>f64\<close> that the airtime figures use. A finite double is the rational
  number it stands for, and every operation is the exact one followed by \<open>fl\<close>, rounding
  to the nearest 53-bit significand, ties to even. Exponents are unbounded here; the
  values computed with it lie far inside the range of a double, where the two agree.
\<close>

text \<open>The exponent of the leading binary digit.\<close>

definition flog2 :: "rat \<Rightarrow> int" where
  "flog2 x =
     (case quotient_of x of (a, b) \<Rightarrow>
        let k = int (floorlog 2 (nat a)) - int (floorlog 2 (nat b))
        in if 2 powi k \<le> x then k else k - 1)"

text \<open>Nearest integer, ties to even.\<close>

definition rne :: "rat \<Rightarrow> int" where
  "rne y = (let r = \<lfloor>y\<rfloor>; d = y - of_int r
            in if d < 1 / 2 then r else if d > 1 / 2 then r + 1 else if even r then r else r + 1)"

definition fl :: "rat \<Rightarrow> rat" where
  "fl x = (if x = 0 then 0
           else let s = 52 - flog2 \<bar>x\<bar> in of_int (rne (x * 2 powi s)) * 2 powi (- s))"

text \<open>\<open>f64::round\<close>: the nearest integer, halves away from zero.\<close>

definition round_away :: "rat \<Rightarrow> int" where
  "round_away x = (if x \<ge> 0 then \<lfloor>x + 1 / 2\<rfloor> else - \<lfloor>- x + 1 / 2\<rfloor>)"

lemma flog2_bounds:
  assumes "0 < x"
  shows "2 powi (flog2 x) \<le> x" and "x < 2 powi (flog2 x + 1)"
proof -
  obtain a b where q: "quotient_of x = (a, b)" by fastforce
  have b: "0 < b" using quotient_of_denom_pos [OF q] .
  have x: "x = of_int a / of_int b" by (rule quotient_of_div [OF q])
  have a: "0 < a" using assms b by (simp add: x zero_less_divide_iff)
  define m n where "m = floorlog 2 (nat a)" and "n = floorlog 2 (nat b)"
  have m: "2 ^ (m - 1) \<le> nat a" "nat a < 2 ^ m" "0 < m"
    and n: "2 ^ (n - 1) \<le> nat b" "nat b < 2 ^ n" "0 < n"
    using floorlog_bounds [of "nat a" 2] floorlog_bounds [of "nat b" 2] a b
    by (auto simp: m_def n_def floorlog_def)
  have A: "2 ^ (m - 1) \<le> (of_int a :: rat)" "of_int a < (2 ^ m :: rat)"
    using m(1,2) a by (metis of_nat_le_iff of_nat_less_iff of_nat_nat of_nat_numeral of_nat_power of_int_of_nat_eq less_imp_le)+
  have B: "2 ^ (n - 1) \<le> (of_int b :: rat)" "of_int b < (2 ^ n :: rat)"
    using n(1,2) b by (metis of_nat_le_iff of_nat_less_iff of_nat_nat of_nat_numeral of_nat_power of_int_of_nat_eq less_imp_le)+
  have bpos: "(0 :: rat) < of_int b" using b by simp
  have "2 powi (int m - int n - 1) = (2 ^ (m - 1) / 2 ^ n :: rat)"
    using m(3) by (simp add: power_int_diff power_int_add power_diff field_simps)
  also have "\<dots> \<le> x"
    unfolding x using A B bpos a by (intro frac_le) auto
  finally have lo: "2 powi (int m - int n - 1) \<le> x" .
  have "x < 2 ^ m / 2 ^ (n - 1)"
    unfolding x using A B bpos a by (intro frac_less) auto
  also have "\<dots> = 2 powi (int m - int n + 1)"
    using n(3) by (simp add: power_int_diff power_int_add power_diff field_simps)
  finally have hi: "x < 2 powi (int m - int n + 1)" .
  show "2 powi (flog2 x) \<le> x" "x < 2 powi (flog2 x + 1)"
    using lo hi by (simp_all add: flog2_def q Let_def m_def [symmetric] n_def [symmetric])
qed

lemma rne_near: "\<bar>of_int (rne y) - y\<bar> \<le> 1 / 2"
proof -
  have "of_int \<lfloor>y\<rfloor> \<le> y" "y < of_int \<lfloor>y\<rfloor> + 1" by linarith+
  then show ?thesis unfolding rne_def Let_def abs_le_iff
    by (cases "y - of_int \<lfloor>y\<rfloor> < 1 / 2"; cases "y - of_int \<lfloor>y\<rfloor> > 1 / 2"; simp; linarith?)
qed

lemma rne_int [simp]: "rne (of_int k) = k"
  by (simp add: rne_def)

definition ulp :: rat where
  "ulp = 1 / 2 ^ 53"

text \<open>The relative error of an operation is at most \<open>2 ^ - 53\<close>.\<close>

lemma fl_error: "\<bar>fl x - x\<bar> \<le> \<bar>x\<bar> * ulp"
proof (cases "x = 0")
  case True
  then show ?thesis by (simp add: fl_def)
next
  case False
  define s where "s = 52 - flog2 \<bar>x\<bar>"
  have pos: "(0 :: rat) < 2 powi (- s)" by simp
  have cancel: "x * 2 powi s * 2 powi (- s) = x" by (simp add: power_int_minus)
  have "fl x - x = (of_int (rne (x * 2 powi s)) - x * 2 powi s) * 2 powi (- s)"
    using False cancel by (simp add: fl_def s_def Let_def left_diff_distrib)
  then have "\<bar>fl x - x\<bar> \<le> 1 / 2 * 2 powi (- s)"
    using rne_near [of "x * 2 powi s"] pos by (simp add: abs_mult mult_right_mono)
  also have "1 / 2 * 2 powi (- s) = 2 powi (flog2 \<bar>x\<bar>) * ulp"
    by (simp add: s_def ulp_def power_int_diff)
  also have "\<dots> \<le> \<bar>x\<bar> * ulp"
    using flog2_bounds(1) [of "\<bar>x\<bar>"] False by (intro mult_right_mono) (auto simp: ulp_def)
  finally show ?thesis .
qed

text \<open>A number that a 53-bit significand holds is not changed.\<close>

lemma fl_dyadic:
  assumes "\<bar>n\<bar> < 2 ^ 53"
  shows "fl (of_int n / 2 ^ k) = of_int n / 2 ^ k"
proof (cases "n = 0")
  case True
  then show ?thesis by (simp add: fl_def)
next
  case False
  let ?x = "of_int n / 2 ^ k :: rat"
  define s where "s = 52 - flog2 \<bar>?x\<bar>"
  have "2 powi (flog2 \<bar>?x\<bar>) \<le> \<bar>?x\<bar>" using False by (intro flog2_bounds) simp
  also have "\<bar>?x\<bar> < 2 ^ 53 / 2 ^ k"
  proof -
    have "\<bar>of_int n :: rat\<bar> < 2 ^ 53" using assms by (metis of_int_abs of_int_less_iff of_int_numeral of_int_power)
    then show ?thesis by (simp add: divide_strict_right_mono)
  qed
  also have "\<dots> = 2 powi (53 - int k)" by (simp add: power_int_diff)
  finally have "\<not> (2 :: rat) powi (53 - int k) \<le> 2 powi (flog2 \<bar>?x\<bar>)" by simp
  then have "flog2 \<bar>?x\<bar> < 53 - int k"
    using power_int_increasing [of "53 - int k" "flog2 \<bar>?x\<bar>" "2 :: rat"] by linarith
  then have sk: "int k \<le> s" by (simp add: s_def)
  have "?x * 2 powi s = of_int n * 2 powi (s - int k)" by (simp add: power_int_diff)
  also have "\<dots> = of_int (n * 2 ^ nat (s - int k))" using sk by (simp add: power_int_def)
  finally have whole: "?x * 2 powi s = of_int (n * 2 ^ nat (s - int k))" .
  have "fl ?x = of_int (rne (?x * 2 powi s)) * 2 powi (- s)"
    using False by (simp add: fl_def s_def Let_def)
  also have "\<dots> = ?x * 2 powi s * 2 powi (- s)"
    by (simp only: whole rne_int)
  also have "\<dots> = ?x" by (simp add: power_int_minus)
  finally show ?thesis .
qed

lemma fl_int: "\<bar>n\<bar> < 2 ^ 53 \<Longrightarrow> fl (of_int n) = of_int n"
  using fl_dyadic [of n 0] by simp

lemma fl_near:
  assumes "\<bar>x - X\<bar> \<le> e" and "\<bar>X\<bar> \<le> B" and "e \<le> 1"
  shows "\<bar>fl x - X\<bar> \<le> e + (B + 1) * ulp"
proof -
  have "\<bar>x\<bar> \<le> B + 1" using assms by linarith
  then have "\<bar>x\<bar> * ulp \<le> (B + 1) * ulp" by (intro mult_right_mono) (simp_all add: ulp_def)
  then show ?thesis using fl_error [of x] assms(1) by linarith
qed

end
