(* ===== verification/Lcq_Channel.thy ===== *)
theory Lcq_Channel
  imports Lcq_Radio Lcq_Float
begin

text \<open>
  \<open>src/sim/channel.rs\<close>: who reaches whom, and the time on air of a frame. The airtime is
  computed in doubles, operation by operation as the source has them; the theorem below
  gives the integer formula it always agrees with.
\<close>

section \<open>Topology\<close>

datatype Topology = FullyConnected | Partitioned

definition topology_reaches :: "Topology \<Rightarrow> nat \<Rightarrow> nat \<Rightarrow> nat \<Rightarrow> bool" where
  "topology_reaches t a b fleet =
     (case t of
        FullyConnected \<Rightarrow> a \<noteq> b
      | Partitioned \<Rightarrow> a \<noteq> b \<and> (a < fleet div 2) = (b < fleet div 2))"

section \<open>Airtime\<close>

definition clamp_sf :: "u8 \<Rightarrow> nat" where
  "clamp_sf sf = min (max (unat sf) 7) 12"

definition low_data_rate :: "u8 \<Rightarrow> rat" where
  "low_data_rate sf = (if sf \<ge> 11 then 1 else 0)"

text \<open>The doubles of \<open>airtime_ms_at\<close>, one definition for each \<open>let\<close> of the source.\<close>

definition symbol_ms :: "u8 \<Rightarrow> rat" where
  "symbol_ms sf = fl (fl (2 ^ clamp_sf sf / 125000) * 1000)"

definition payload_f :: "nat \<Rightarrow> rat" where
  "payload_f payload_bytes = of_nat (min payload_bytes 255)"

definition air_numerator :: "u8 \<Rightarrow> nat \<Rightarrow> rat" where
  "air_numerator sf n = fl (fl (fl (fl (8 * payload_f n) - fl (4 * of_nat (clamp_sf sf))) + 28) + 16)"

definition air_denominator :: "u8 \<Rightarrow> rat" where
  "air_denominator sf = fl (4 * fl (of_nat (clamp_sf sf) - fl (2 * low_data_rate sf)))"

definition air_symbols :: "u8 \<Rightarrow> nat \<Rightarrow> rat" where
  "air_symbols sf n = fl (8 + fl (max (of_int \<lceil>fl (air_numerator sf n / air_denominator sf)\<rceil>) 0 * 5))"

definition preamble_ms :: "u8 \<Rightarrow> rat" where
  "preamble_ms sf = fl (fl (8 + 17 / 4) * symbol_ms sf)"

definition airtime_ms_at :: "u8 \<Rightarrow> nat \<Rightarrow> u64" where
  "airtime_ms_at sf payload_bytes =
     (let total = round_away (fl (preamble_ms sf + fl (air_symbols sf payload_bytes * symbol_ms sf)))
      in word_of_int (min (max total 0) 4294967295))"

definition DEFAULT_SPREADING_FACTOR :: u8 where
  "DEFAULT_SPREADING_FACTOR = spreading_factor eu868_sf10"

definition airtime_ms :: "nat \<Rightarrow> u64" where
  "airtime_ms payload_bytes = airtime_ms_at DEFAULT_SPREADING_FACTOR payload_bytes"

section \<open>The integer formula\<close>

text \<open>
  In integers: the symbols of the payload, and the quarter-millisecond total over 125,
  rounded. A symbol lasts \<open>2 ^ sf / 125\<close> ms and the preamble 12.25 symbols.
\<close>

definition air_den :: "u8 \<Rightarrow> int" where
  "air_den sf = 4 * (int (clamp_sf sf) - (if sf \<ge> 11 then 2 else 0))"

definition air_num :: "u8 \<Rightarrow> nat \<Rightarrow> int" where
  "air_num sf n = 8 * int (min n 255) - 4 * int (clamp_sf sf) + 44"

definition air_sym :: "u8 \<Rightarrow> nat \<Rightarrow> int" where
  "air_sym sf n = 8 + 5 * max 0 (- ((- air_num sf n) div air_den sf))"

definition airtime_formula :: "u8 \<Rightarrow> nat \<Rightarrow> int" where
  "airtime_formula sf n = ((49 + 4 * air_sym sf n) * 2 ^ (clamp_sf sf - 1) + 125) div 250"

lemma clamp_sf_range: "7 \<le> clamp_sf sf" "clamp_sf sf \<le> 12"
  by (simp_all add: clamp_sf_def)

lemma air_den_range: "28 \<le> air_den sf" "air_den sf \<le> 40"
proof -
  have "sf \<ge> 11 \<longleftrightarrow> 11 \<le> unat sf" by (simp add: word_le_nat_alt)
  then show "28 \<le> air_den sf" "air_den sf \<le> 40"
    by (auto simp: air_den_def clamp_sf_def split: if_splits)
qed

lemma air_num_range: "- 4 \<le> air_num sf n" "air_num sf n \<le> 2056"
  using clamp_sf_range [of sf] by (auto simp: air_num_def)

lemma fl_nat: "n < 2 ^ 53 \<Longrightarrow> fl (of_nat n) = of_nat n"
  using fl_int [of "int n"] by simp

lemma numerator_exact: "air_numerator sf n = of_int (air_num sf n)"
proof -
  have p: "fl (8 * payload_f n) = of_int (8 * int (min n 255))"
    using fl_int [of "8 * int (min n 255)"] by (simp add: payload_f_def)
  have s: "fl (4 * of_nat (clamp_sf sf)) = of_int (4 * int (clamp_sf sf))"
    using fl_int [of "4 * int (clamp_sf sf)"] clamp_sf_range [of sf] by simp
  define d where "d = 8 * int (min n 255) - 4 * int (clamp_sf sf)"
  have d: "\<bar>d\<bar> \<le> 3000" using clamp_sf_range [of sf] by (auto simp: d_def)
  have "fl (of_int d) = of_int d" using d by (intro fl_int) simp
  moreover have "fl (of_int d + 28) = of_int d + 28" using fl_int [of "d + 28"] d by simp
  moreover have "fl (of_int d + 28 + 16) = of_int d + 44" using fl_int [of "d + 44"] d by (simp add: add.assoc)
  ultimately show ?thesis
    unfolding air_numerator_def p s of_int_diff [symmetric] d_def [symmetric]
    by (simp add: air_num_def d_def)
qed

lemma denominator_exact: "air_denominator sf = of_int (air_den sf)"
proof -
  define l :: int where "l = (if sf \<ge> 11 then 1 else 0)"
  have l: "low_data_rate sf = of_int l" "0 \<le> l" "l \<le> 1" by (simp_all add: low_data_rate_def l_def)
  have a: "fl (2 * of_int l) = of_int (2 * l)" using fl_int [of "2 * l"] l by simp
  have b: "fl (of_int (int (clamp_sf sf)) - of_int (2 * l)) = of_int (int (clamp_sf sf) - 2 * l)"
    using fl_int [of "int (clamp_sf sf) - 2 * l"] clamp_sf_range [of sf] l by simp
  have c: "fl (4 * of_int (int (clamp_sf sf) - 2 * l)) = of_int (4 * (int (clamp_sf sf) - 2 * l))"
    using fl_int [of "4 * (int (clamp_sf sf) - 2 * l)"] clamp_sf_range [of sf] l by simp
  have "air_denominator sf = of_int (4 * (int (clamp_sf sf) - 2 * l))"
    using b c by (simp add: air_denominator_def l a)
  also have "4 * (int (clamp_sf sf) - 2 * l) = air_den sf" by (simp add: air_den_def l_def)
  finally show ?thesis .
qed

text \<open>Rounding a quotient of small integers does not move it across an integer.\<close>

lemma ceiling_fl:
  assumes "0 < d" and "d \<le> 40" and "\<bar>a\<bar> \<le> 3000"
  shows "\<lceil>fl (of_int a / of_int d)\<rceil> = - ((- a) div d)"
proof -
  define q r where "q = (- a) div d" and "r = (- a) mod d"
  have a: "a = - (q * d) - r" unfolding q_def r_def using div_mult_mod_eq [of "- a" d] by linarith
  have r: "0 \<le> r" "r < d" using assms(1) by (simp_all add: r_def)
  let ?x = "of_int a / of_int d :: rat"
  have D: "(0 :: rat) < of_int d" "of_int d \<le> (40 :: rat)" using assms(1,2) by simp_all
  have x: "?x = of_int (- q) - of_int r / of_int d"
    using D by (simp add: a field_simps)
  have "\<bar>?x\<bar> \<le> 3000"
  proof -
    have "\<bar>of_int a :: rat\<bar> \<le> 3000" using assms(3) by (metis of_int_abs of_int_le_iff of_int_numeral)
    moreover have "\<bar>of_int a / of_int d :: rat\<bar> \<le> \<bar>of_int a\<bar>"
      using assms(1) by (simp add: abs_divide divide_le_eq mult_le_cancel_left1)
    ultimately show ?thesis by linarith
  qed
  then have err: "\<bar>fl ?x - ?x\<bar> \<le> 3000 * ulp"
    using fl_error [of ?x] mult_right_mono [of "\<bar>?x\<bar>" 3000 ulp] by (simp add: ulp_def)
  show ?thesis
  proof (cases "r = 0")
    case True
    have "\<bar>q\<bar> * 1 \<le> \<bar>q\<bar> * d" using assms(1) by (intro mult_left_mono) simp_all
    also have "\<bar>q\<bar> * d = \<bar>a\<bar>" using True assms(1) by (simp add: a abs_mult)
    finally have "\<bar>q\<bar> \<le> 3000" using assms(3) by simp
    then have "fl ?x = of_int (- q)" using True fl_int [of "- q"] by (simp add: x)
    then show ?thesis unfolding q_def by (simp only: ceiling_of_int)
  next
    case False
    then have "1 \<le> r" using r by simp
    then have "1 / 40 \<le> (of_int r / of_int d :: rat)"
      using D by (intro frac_le) auto
    moreover have "of_int r / of_int d \<le> (39 / 40 :: rat)"
    proof -
      have "of_int r \<le> (of_int d - 1 :: rat)" using r(2) by (metis of_int_1 of_int_diff of_int_le_iff zle_diff1_eq)
      then show ?thesis using D by (simp add: field_simps)
    qed
    ultimately have "of_int (- q) - 1 < fl ?x" "fl ?x \<le> of_int (- q)"
    proof -
      have "3000 * ulp < 1 / 40" by (simp add: ulp_def)
      with err have "\<bar>fl ?x - ?x\<bar> < 1 / 40" by linarith
      then show "of_int (- q) - 1 < fl ?x" "fl ?x \<le> of_int (- q)"
        using x \<open>1 / 40 \<le> of_int r / of_int d\<close> \<open>of_int r / of_int d \<le> 39 / 40\<close> by linarith+
    qed
    then have "\<lceil>fl ?x\<rceil> = - q" by (simp add: ceiling_eq_iff)
    then show ?thesis by (simp add: q_def)
  qed
qed

lemma air_sym_range: "8 \<le> air_sym sf n" "air_sym sf n \<le> 378"
proof -
  have "- ((- air_num sf n) div air_den sf) \<le> 74"
  proof -
    have "- 74 * air_den sf \<le> - air_num sf n" using air_den_range [of sf] air_num_range [of sf n] by linarith
    then have "- 74 \<le> (- air_num sf n) div air_den sf"
      using air_den_range [of sf] by (metis mult.commute zdiv_mono1 nonzero_mult_div_cancel_left
        less_le_trans zero_less_numeral less_irrefl)
    then show ?thesis by simp
  qed
  then show "8 \<le> air_sym sf n" "air_sym sf n \<le> 378" by (simp_all add: air_sym_def)
qed

lemma symbols_exact: "air_symbols sf n = of_int (air_sym sf n)"
proof -
  define c where "c = max 0 (- ((- air_num sf n) div air_den sf))"
  have c: "0 \<le> c" "5 * c \<le> 370" using air_sym_range [of sf n] by (simp_all add: c_def air_sym_def)
  have "\<lceil>fl (air_numerator sf n / air_denominator sf)\<rceil> = - ((- air_num sf n) div air_den sf)"
    unfolding numerator_exact denominator_exact
    using air_den_range [of sf] air_num_range [of sf n] by (intro ceiling_fl) auto
  then have m: "max (of_int \<lceil>fl (air_numerator sf n / air_denominator sf)\<rceil>) 0 = (of_int c :: rat)"
    by (simp add: c_def max.commute of_int_max)
  have "fl (of_int c * 5) = of_int (5 * c)" using fl_int [of "5 * c"] c by (simp add: mult.commute)
  moreover have "fl (8 + of_int (5 * c)) = of_int (8 + 5 * c)" using fl_int [of "8 + 5 * c"] c by simp
  ultimately show ?thesis by (simp add: air_symbols_def m air_sym_def c_def)
qed

definition symbol_exact :: "u8 \<Rightarrow> rat" where
  "symbol_exact sf = 2 ^ clamp_sf sf / 125"

lemma symbol_exact_range: "0 < symbol_exact sf" "symbol_exact sf \<le> 33"
proof -
  have "(2 :: rat) ^ clamp_sf sf \<le> 2 ^ 12" using clamp_sf_range [of sf] by (intro power_increasing) simp_all
  then show "0 < symbol_exact sf" "symbol_exact sf \<le> 33" by (simp_all add: symbol_exact_def)
qed

lemma symbol_near: "\<bar>symbol_ms sf - symbol_exact sf\<bar> \<le> 2034 * ulp"
proof -
  let ?x = "2 ^ clamp_sf sf / 125000 :: rat"
  have x: "?x = symbol_exact sf / 1000" by (simp add: symbol_exact_def)
  have "\<bar>fl ?x - ?x\<bar> \<le> 0 + (1 + 1) * ulp"
    using symbol_exact_range [of sf] by (intro fl_near) (simp_all add: x)
  then have "\<bar>fl ?x * 1000 - symbol_exact sf\<bar> \<le> 2000 * ulp" by (simp add: x abs_le_iff)
  from fl_near [OF this, of 33] show ?thesis
    using symbol_exact_range [of sf] by (simp add: symbol_ms_def ulp_def)
qed

lemma total_near:
  "\<bar>fl (preamble_ms sf + fl (air_symbols sf n * symbol_ms sf))
    - (49 / 4 + of_int (air_sym sf n)) * symbol_exact sf\<bar> < 1 / 250"
proof -
  let ?S = "symbol_exact sf" and ?k = "of_int (air_sym sf n) :: rat"
  note S = symbol_exact_range [of sf] and s = symbol_near [of sf]
  have k: "0 \<le> ?k" "?k \<le> 378" using air_sym_range [of sf n] by simp_all
  have f: "fl (8 + 17 / 4) = 49 / 4" using fl_dyadic [of 49 2] by simp
  have "\<bar>49 / 4 * symbol_ms sf - 49 / 4 * ?S\<bar> \<le> 24917 * ulp"
    unfolding right_diff_distrib [symmetric] abs_mult using s by (simp add: ulp_def)
  from fl_near [OF this, of 405] have "\<bar>fl (49 / 4 * symbol_ms sf) - 49 / 4 * ?S\<bar> \<le> 25323 * ulp"
    using S by (simp add: ulp_def)
  then have pre: "\<bar>preamble_ms sf - 49 / 4 * ?S\<bar> \<le> 25323 * ulp" by (simp only: preamble_ms_def f)
  have "\<bar>?k * symbol_ms sf - ?k * ?S\<bar> = ?k * \<bar>symbol_ms sf - ?S\<bar>"
    using k by (simp add: right_diff_distrib [symmetric] abs_mult)
  also have "\<dots> \<le> 378 * (2034 * ulp)" using k s by (intro mult_mono) simp_all
  finally have e: "\<bar>?k * symbol_ms sf - ?k * ?S\<bar> \<le> 768852 * ulp" by simp
  have "?k * ?S \<le> 378 * 33" using k S by (intro mult_mono) simp_all
  then have kS: "0 \<le> ?k * ?S" "?k * ?S \<le> 12474" using k S by simp_all
  from fl_near [OF e, of 12474] kS
  have sym: "\<bar>fl (air_symbols sf n * symbol_ms sf) - ?k * ?S\<bar> \<le> 781327 * ulp"
    by (simp add: symbols_exact ulp_def)
  have sum: "\<bar>preamble_ms sf + fl (air_symbols sf n * symbol_ms sf) - (49 / 4 + ?k) * ?S\<bar> \<le> 806650 * ulp"
    using pre sym by (simp add: distrib_right abs_le_iff)
  have "\<bar>(49 / 4 + ?k) * ?S\<bar> \<le> 12879" using kS S by (simp add: distrib_right)
  from fl_near [OF sum this] show ?thesis by (simp add: ulp_def)
qed

lemma airtime_formula_range: "0 \<le> airtime_formula sf n" "airtime_formula sf n \<le> 4294967295"
proof -
  have "(2 :: int) ^ (clamp_sf sf - 1) \<le> 2 ^ 11"
    using clamp_sf_range [of sf] by (intro power_increasing) simp_all
  then have "(49 + 4 * air_sym sf n) * 2 ^ (clamp_sf sf - 1) \<le> 1561 * 2 ^ 11"
    using air_sym_range [of sf n] by (intro mult_mono) simp_all
  moreover have "0 \<le> (49 + 4 * air_sym sf n) * 2 ^ (clamp_sf sf - 1)"
    using air_sym_range [of sf n] by simp
  ultimately show "0 \<le> airtime_formula sf n" "airtime_formula sf n \<le> 4294967295"
    by (simp_all add: airtime_formula_def)
qed

lemma airtime_is_formula: "uint (airtime_ms_at sf n) = airtime_formula sf n"
proof -
  define N m r where "N = (49 + 4 * air_sym sf n) * 2 ^ (clamp_sf sf - 1)"
    and "m = (N + 125) div 250" and "r = (N + 125) mod 250"
  let ?X = "(49 / 4 + of_int (air_sym sf n)) * symbol_exact sf"
  let ?T = "fl (preamble_ms sf + fl (air_symbols sf n * symbol_ms sf))"
  have "even ((2 :: int) ^ (clamp_sf sf - 1))" using clamp_sf_range [of sf] by simp
  then have "even N" by (simp add: N_def)
  then have "odd r" by (simp add: r_def dvd_mod_iff)
  then have "r \<noteq> 0" by auto
  moreover have "0 \<le> r" "r < 250" by (simp_all add: r_def)
  ultimately have r: "1 \<le> r" "r \<le> 249" by linarith+
  have Nm: "N + 125 = 250 * m + r" by (simp add: m_def r_def)
  have "(2 :: rat) ^ clamp_sf sf = 2 * 2 ^ (clamp_sf sf - 1)"
    using clamp_sf_range [of sf] by (cases "clamp_sf sf") simp_all
  then have "?X = of_int N / 250" by (simp add: symbol_exact_def N_def)
  moreover have "of_int N + 125 = (250 * of_int m + of_int r :: rat)"
    using Nm by (metis of_int_add of_int_mult of_int_numeral)
  ultimately have X: "?X + 1 / 2 = of_int m + of_int r / 250" by (simp add: field_simps)
  have "of_int m < ?T + 1 / 2" "?T + 1 / 2 < of_int m + 1"
  proof -
    have "1 \<le> (of_int r :: rat)" "of_int r \<le> (249 :: rat)" using r by simp_all
    then show "of_int m < ?T + 1 / 2" "?T + 1 / 2 < of_int m + 1"
      using total_near [of sf n] X unfolding abs_less_iff by linarith+
  qed
  then have fm: "\<lfloor>?T + 1 / 2\<rfloor> = m" by (simp add: floor_eq_iff)
  have "0 \<le> m" "m \<le> 4294967295" using airtime_formula_range [of sf n]
    by (simp_all add: airtime_formula_def m_def N_def)
  moreover have "0 \<le> ?T"
  proof -
    have "0 \<le> of_int (air_sym sf n) * symbol_exact sf"
      using air_sym_range [of sf n] symbol_exact_range [of sf] by simp
    then have "49 / 4 * symbol_exact sf \<le> ?X" unfolding distrib_right by linarith
    moreover have "1 \<le> symbol_exact sf"
      using power_increasing [of 7 "clamp_sf sf" "2 :: rat"] clamp_sf_range [of sf] by (simp add: symbol_exact_def)
    ultimately show ?thesis using total_near [of sf n] unfolding abs_less_iff by linarith
  qed
  ultimately have "uint (airtime_ms_at sf n) = m"
    by (simp add: airtime_ms_at_def round_away_def fm Let_def min_absorb1 uint_word_of_int)
  then show ?thesis by (simp add: airtime_formula_def m_def N_def)
qed

text \<open>
  (C33) For every spreading factor and length, the chain of double operations gives the
  nearest millisecond of the exact time on air.
\<close>

theorem airtime_exact: "uint (airtime_ms_at sf n) = airtime_formula sf n"
  by (rule airtime_is_formula)

text \<open>A longer frame is never on the air for less.\<close>

lemma airtime_mono: "n \<le> k \<Longrightarrow> airtime_ms_at sf n \<le> airtime_ms_at sf k"
proof -
  assume "n \<le> k"
  then have "air_num sf n \<le> air_num sf k" by (auto simp: air_num_def)
  then have "(- air_num sf k) div air_den sf \<le> (- air_num sf n) div air_den sf"
    using air_den_range [of sf] by (intro zdiv_mono1) simp_all
  then have "air_sym sf n \<le> air_sym sf k" by (simp add: air_sym_def)
  then have "airtime_formula sf n \<le> airtime_formula sf k"
    unfolding airtime_formula_def by (intro zdiv_mono1 add_right_mono mult_right_mono) simp_all
  then show ?thesis by (simp add: word_le_def airtime_is_formula)
qed

text \<open>At the default profile every frame is on the air, and none for three seconds.\<close>

lemma airtime_default: "uint (airtime_ms n) = airtime_formula 10 n"
  by (simp add: airtime_ms_def airtime_is_formula DEFAULT_SPREADING_FACTOR_def eu868_sf10_def)

lemma airtime_widest: "airtime_ms 152 = 1436" "airtime_ms 255 = 2296"
  by (rule word_uint_eqI;
      simp add: airtime_default airtime_formula_def air_sym_def air_num_def air_den_def clamp_sf_def)+

lemma airtime_longest: "airtime_ms n \<le> 2296"
proof -
  have "uint (airtime_ms n) \<le> uint (airtime_ms 255)"
  proof (cases "n \<le> 255")
    case True
    then show ?thesis using airtime_mono [of n 255] by (simp add: airtime_ms_def word_le_def)
  next
    case False
    then show ?thesis by (simp add: airtime_default airtime_formula_def air_sym_def air_num_def)
  qed
  then show ?thesis by (simp add: airtime_widest word_le_def)
qed

end
