(* ===== verification/Lcq_Clock.thy ===== *)
theory Lcq_Clock
  imports Lcq_Contracts
begin

text \<open>
  \<open>src/infrastructure/clock.rs\<close>: the clocks a running node uses. An instant of the
  monotonic source is an integer number of nanoseconds, a duration the difference of two
  of them; both are unbounded here. What the code does with them beyond that is on 64-bit
  words and written out.
\<close>

type_synonym instant = int
type_synonym duration = int
type_synonym i64 = "64 word"

text \<open>\<open>Duration::from_millis\<close>, \<open>as_millis\<close> with the saturating conversion that always
  follows it, and \<open>Instant::elapsed\<close>, which is zero for an origin in the future.\<close>

definition from_millis :: "u64 \<Rightarrow> duration" where
  "from_millis ms = uint ms * 1000000"

definition as_millis :: "duration \<Rightarrow> u64" where
  "as_millis d = (if d div 1000000 < 2 ^ 64 then word_of_int (d div 1000000) else - 1)"

definition since :: "instant \<Rightarrow> instant \<Rightarrow> duration" where
  "since now origin = max 0 (now - origin)"

text \<open>\<open>u64::saturating_add_signed\<close>\<close>

definition sat_add_signed :: "u64 \<Rightarrow> i64 \<Rightarrow> u64" where
  "sat_add_signed t offset = word_of_int (min (max (uint t + sint offset) 0) (2 ^ 64 - 1))"

text \<open>\<open>SystemTime::now().duration_since(UNIX_EPOCH)\<close>, an error before the epoch.\<close>

definition system_now :: "u64 option \<Rightarrow> timestamp" where
  "system_now secs = (case secs of None \<Rightarrow> 0 | Some s \<Rightarrow> s)"

record ScaledClock =
  ck_origin :: instant
  ck_epoch :: timestamp
  ck_scale :: u32
  ck_offset_s :: i64

definition anchored_at :: "instant \<Rightarrow> timestamp \<Rightarrow> u32 \<Rightarrow> i64 \<Rightarrow> ScaledClock" where
  "anchored_at origin epoch scale offset_s =
     \<lparr>ck_origin = origin, ck_epoch = epoch, ck_scale = max scale 1, ck_offset_s = offset_s\<rparr>"

definition clock_new :: "instant \<Rightarrow> timestamp \<Rightarrow> u32 \<Rightarrow> i64 \<Rightarrow> ScaledClock" where
  "clock_new now epoch scale offset_s = anchored_at now epoch scale offset_s"

definition wall_ms_for :: "ScaledClock \<Rightarrow> u64 \<Rightarrow> u64" where
  "wall_ms_for c protocol_seconds = sat_mul protocol_seconds 1000 div ucast (ck_scale c)"

definition wall_ms :: "ScaledClock \<Rightarrow> u64 \<Rightarrow> u64" where
  "wall_ms c protocol_ms = protocol_ms div ucast (ck_scale c)"

definition protocol_elapsed :: "ScaledClock \<Rightarrow> instant \<Rightarrow> u64" where
  "protocol_elapsed c now = sat_mul (as_millis (since now (ck_origin c))) (ucast (ck_scale c))"

definition clock_now :: "ScaledClock \<Rightarrow> instant \<Rightarrow> timestamp" where
  "clock_now c now = sat_add_signed (sat_add (ck_epoch c) (protocol_elapsed c now div 1000)) (ck_offset_s c)"

lemma sat_add_signed_uint: "uint (sat_add_signed t offset) = min (max (uint t + sint offset) 0) (2 ^ 64 - 1)"
  by (simp add: sat_add_signed_def uint_word_of_int)

lemma as_millis_mono: "0 \<le> d \<Longrightarrow> d \<le> e \<Longrightarrow> as_millis d \<le> as_millis e"
proof -
  assume "0 \<le> d" "d \<le> e"
  then have "0 \<le> d div 1000000" "d div 1000000 \<le> e div 1000000"
    by (auto intro: zdiv_mono1 simp: pos_imp_zdiv_nonneg_iff)
  moreover have "uint (- 1 :: u64) = 18446744073709551615"
    by (simp add: unsigned_minus_1_eq_mask mask_eq_exp_minus_1)
  ultimately show ?thesis by (simp add: as_millis_def word_le_def uint_word_of_int)
qed

lemma unat_mono_le: "a \<le> b \<longleftrightarrow> unat a \<le> unat b" for a b :: "'a::len word"
  by (rule word_le_nat_alt)

text \<open>A clock never runs backwards, whatever its offset and scale.\<close>

theorem clock_monotone:
  assumes "now \<le> later"
  shows "clock_now c now \<le> clock_now c later"
proof -
  have "as_millis (since now (ck_origin c)) \<le> as_millis (since later (ck_origin c))"
    using assms by (intro as_millis_mono) (auto simp: since_def)
  then have "protocol_elapsed c now \<le> protocol_elapsed c later"
    by (simp add: protocol_elapsed_def unat_mono_le sat_simps min.coboundedI1 mult_le_mono1)
  then have "protocol_elapsed c now div 1000 \<le> protocol_elapsed c later div 1000"
    by (simp add: unat_mono_le unat_div div_le_mono)
  then have "sat_add (ck_epoch c) (protocol_elapsed c now div 1000)
      \<le> sat_add (ck_epoch c) (protocol_elapsed c later div 1000)"
    by (auto simp: unat_mono_le sat_simps)
  then show ?thesis
    by (auto simp: clock_now_def word_le_def sat_add_signed_uint)
qed

theorem clock_monotone_witness:
  "clock_now (clock_new 0 1000 100 (- 5)) 7000000000 \<le> clock_now (clock_new 0 1000 100 (- 5)) 9000000000"
  by (rule clock_monotone) simp

lemma near_unat:
  fixes a b :: u64
  assumes "\<bar>uint a - uint b\<bar> \<le> 30"
  shows "unat a \<le> unat b + 30 \<and> unat b \<le> unat a + 30"
proof -
  have "int (unat a) = uint a" "int (unat b) = uint b" by simp_all
  with assms show ?thesis by linarith
qed

text \<open>
  Members that anchored on the same instant and whose clocks are off by no more than the
  skew budget, pairwise, always read within the skew budget of each other: the premise
  of every deadline rule.
\<close>

theorem clocks_within_skew:
  assumes "ck_origin a = ck_origin b" and "ck_epoch a = ck_epoch b" and "ck_scale a = ck_scale b"
    and "\<bar>sint (ck_offset_s a) - sint (ck_offset_s b)\<bar> \<le> 30"
  shows "within_skew (clock_now a now) (clock_now b now)"
proof -
  have "protocol_elapsed a now = protocol_elapsed b now" using assms by (simp add: protocol_elapsed_def)
  then have "\<bar>uint (clock_now a now) - uint (clock_now b now)\<bar> \<le> 30"
    using assms(2,4) by (simp add: clock_now_def sat_add_signed_uint)
  then show ?thesis unfolding within_skew_def unat_skew by (rule near_unat)
qed

theorem clocks_within_skew_witness:
  "within_skew (clock_now (clock_new 0 1000 100 15) 5) (clock_now (clock_new 0 1000 100 (- 15)) 5)"
  by (rule clocks_within_skew) (simp_all add: clock_new_def anchored_at_def)

end
