(* ===== verification/Lcq_Schedule.thy ===== *)
theory Lcq_Schedule
  imports Lcq_Channel Lcq_Clock Lcq_Codec
begin

text \<open>
  The slot schedule of \<open>src/bin/lcq-node.rs\<close>: when a member opens a round, when each of
  its stage frames, repair requests and repair resends is due, and the check that the
  whole schedule fits before endorsement is expected. The theorems say that no two
  scheduled transmissions of a fleet ever overlap and that openers are well apart.
\<close>

definition CONTENT_HASH :: bytes where
  "CONTENT_HASH = replicate 32 0x22"

definition REPAIR_ROUNDS :: u64 where
  "REPAIR_ROUNDS = 3"

datatype Adversary = Honest | Forge | DoubleVote | LieAcks | Jam | Replay | Equivocate

text \<open>
  \<open>Adversary::parse\<close>: without the \<open>harness\<close> feature any name stops the process, which
  is \<open>None\<close> here.
\<close>

definition adversary_parse :: "bool \<Rightarrow> string option \<Rightarrow> Adversary option" where
  "adversary_parse harness name =
     (if \<not> harness then (if name = None then Some Honest else None)
      else Some (if name = Some ''forge'' then Forge
        else if name = Some ''double-vote'' then DoubleVote
        else if name = Some ''lie-acks'' then LieAcks
        else if name = Some ''jam'' then Jam
        else if name = Some ''replay'' then Replay
        else if name = Some ''equivocate'' then Equivocate
        else Honest))"

record Options =
  o_index :: nat
  o_fleet :: nat
  o_scale :: u32
  o_offset :: i64
  o_clock_epoch :: u64
  o_slots :: bool
  o_guard_ms :: u64
  o_trigger :: bool
  o_trigger_delay_ms :: u64
  o_attempts :: nat
  o_ignore_acks :: bool
  o_adversary :: Adversary
  o_prior_airtime_ms :: u64

text \<open>\<open>u64::div_ceil\<close>\<close>

definition div_ceil64 :: "u64 \<Rightarrow> u64 \<Rightarrow> u64" where
  "div_ceil64 a b = (if a mod b > 0 then a div b + 1 else a div b)"

definition slot_ms :: "Options \<Rightarrow> u64" where
  "slot_ms opts = airtime_ms MAX_FRAME_BYTES + o_guard_ms opts"

definition stage_window_s :: "Options \<Rightarrow> u64" where
  "stage_window_s opts =
     (if o_slots opts then div_ceil64 (slot_ms opts * of_nat (o_fleet opts)) 1000 + 2 else 30)"

definition open_deadline :: "Options \<Rightarrow> ScaledClock \<Rightarrow> duration" where
  "open_deadline opts clock =
     (let base = from_millis (o_trigger_delay_ms opts)
      in if o_trigger opts then base
         else let start = unat (CONTENT_HASH ! 0) mod max (o_fleet opts) 1;
                  rank = (o_index opts + o_fleet opts - start) mod max (o_fleet opts) 1;
                  turn = wall_ms clock (2 * slot_ms opts)
              in base + from_millis ((of_nat rank + 1) * turn))"

definition retry_gap_ms :: "Options \<Rightarrow> ScaledClock \<Rightarrow> u64" where
  "retry_gap_ms opts clock = wall_ms clock (stage_window_s opts * 1000)"

definition slot_offset_ms :: "Options \<Rightarrow> u64" where
  "slot_offset_ms opts =
     (if o_slots opts then slot_ms opts * of_nat (o_index opts)
      else (of_nat (o_index opts) * 7919) mod 25000 + 500)"

definition LEAD_IN :: u64 where
  "LEAD_IN = 3"

definition starts :: "Options \<Rightarrow> u64 list" where
  "starts opts = [LEAD_IN, LEAD_IN + stage_window_s opts, BINDING_STAGE_OPENS_SECONDS + 1]"

definition finish :: "Options \<Rightarrow> u64" where
  "finish opts =
     starts opts ! 2 + stage_window_s opts * (of_nat (max (o_attempts opts) 1) + 2 * REPAIR_ROUNDS) + 5"

text \<open>The process exits when this does not hold.\<close>

definition schedule_fits :: "Options \<Rightarrow> bool" where
  "schedule_fits opts \<longleftrightarrow> \<not> finish opts > ENDORSEMENT_TARGET_SECONDS"

definition offsets :: "Options \<Rightarrow> ScaledClock \<Rightarrow> u64 list" where
  "offsets opts clock = map (\<lambda>start. wall_ms clock (start * 1000 + slot_offset_ms opts)) (starts opts)"

text \<open>Times on the anchor's axis: the start of attempt \<open>a\<close> of stage \<open>k\<close>, and the repair timeline.\<close>

definition stage_due :: "Options \<Rightarrow> ScaledClock \<Rightarrow> nat \<Rightarrow> nat \<Rightarrow> duration" where
  "stage_due opts clock k attempt =
     from_millis (offsets opts clock ! k + of_nat attempt * retry_gap_ms opts clock)"

definition window_wall :: "Options \<Rightarrow> ScaledClock \<Rightarrow> duration" where
  "window_wall opts clock = from_millis (wall_ms clock (stage_window_s opts * 1000))"

definition repair_offset :: "Options \<Rightarrow> ScaledClock \<Rightarrow> duration" where
  "repair_offset opts clock =
     from_millis (wall_ms clock ((starts opts ! 2 + stage_window_s opts * of_nat (max (o_attempts opts) 1)) * 1000))"

definition own_slot :: "Options \<Rightarrow> ScaledClock \<Rightarrow> duration" where
  "own_slot opts clock = from_millis (wall_ms clock (slot_ms opts * of_nat (o_index opts)))"

definition ask_due :: "Options \<Rightarrow> ScaledClock \<Rightarrow> nat \<Rightarrow> duration" where
  "ask_due opts clock r = repair_offset opts clock + window_wall opts clock * 2 * int r + own_slot opts clock"

definition resend_due :: "Options \<Rightarrow> ScaledClock \<Rightarrow> nat \<Rightarrow> duration" where
  "resend_due opts clock r =
     repair_offset opts clock + window_wall opts clock * (2 * int r + 1) + own_slot opts clock"

section \<open>The schedule in natural numbers\<close>

text \<open>What the operator may choose: the arithmetic of the schedule is then exact.\<close>

definition options_ok :: "Options \<Rightarrow> bool" where
  "options_ok opts \<longleftrightarrow> o_slots opts \<and> 1 \<le> o_fleet opts \<and> o_fleet opts \<le> HEARD_CAPACITY
     \<and> o_index opts < o_fleet opts \<and> unat (o_guard_ms opts) < 2 ^ 32 \<and> o_attempts opts < 2 ^ 32
     \<and> 1 \<le> unat (o_scale opts) \<and> unat (o_scale opts) \<le> 1000 \<and> schedule_fits opts"

definition slot_nat :: "Options \<Rightarrow> nat" where
  "slot_nat opts = 1436 + unat (o_guard_ms opts)"

definition window_nat :: "Options \<Rightarrow> nat" where
  "window_nat opts = (slot_nat opts * o_fleet opts + 999) div 1000 + 2"

lemma unat_of_nat64: "n < 2 ^ 64 \<Longrightarrow> unat (of_nat n :: u64) = n"
  by (simp add: unat_of_nat)

lemma unat_add64: "unat a + unat b < 2 ^ 64 \<Longrightarrow> unat (a + b :: u64) = unat a + unat b"
  by (simp add: unat_word_ariths)

lemma unat_mult64: "unat a * unat b < 2 ^ 64 \<Longrightarrow> unat (a * b :: u64) = unat a * unat b"
  by (simp add: unat_word_ariths)

lemma unat_mult1000: "unat x < 2 ^ 50 \<Longrightarrow> unat (x * 1000 :: u64) = unat x * 1000"
  by (subst unat_mult64) simp_all

lemma slot_ms_nat: "options_ok opts \<Longrightarrow> unat (slot_ms opts) = slot_nat opts"
  unfolding slot_ms_def MAX_FRAME_BYTES_def airtime_widest slot_nat_def
  by (subst unat_add64) (simp_all add: options_ok_def)

lemma slot_nat_bounds: "options_ok opts \<Longrightarrow> 1436 \<le> slot_nat opts \<and> slot_nat opts < 4294968732"
  by (simp add: slot_nat_def options_ok_def)

lemma slot_mult:
  assumes "options_ok opts" and "n \<le> 64"
  shows "unat (slot_ms opts * of_nat n) = slot_nat opts * n" and "slot_nat opts * n \<le> 274877998848"
proof -
  have "slot_nat opts * n \<le> 4294968732 * 64"
    using slot_nat_bounds [OF assms(1)] assms(2) by (intro mult_mono) simp_all
  then show b: "slot_nat opts * n \<le> 274877998848" by simp
  show "unat (slot_ms opts * of_nat n) = slot_nat opts * n"
    using b assms(2) by (subst unat_mult64) (simp_all add: slot_ms_nat [OF assms(1)] unat_of_nat64)
qed

lemma window_nat_bounds:
  assumes "options_ok opts"
  shows "slot_nat opts * o_fleet opts + 2000 \<le> window_nat opts * 1000" and "window_nat opts \<le> 274878001"
  using slot_mult(2) [OF assms, of "o_fleet opts"] assms
  by (auto simp: window_nat_def options_ok_def HEARD_CAPACITY_def)

lemma ceil_1000: "(x + 999) div 1000 = (if 0 < x mod 1000 then x div 1000 + 1 else x div 1000)" for x :: nat
proof -
  define q r where "q = x div 1000" and "r = x mod 1000"
  have x: "x = 1000 * q + r" "r < 1000" by (simp_all add: q_def r_def)
  show ?thesis
  proof (cases "r = 0")
    case True
    then have "(x + 999) div 1000 = q" using x by simp
    then show ?thesis using True by (simp add: q_def r_def)
  next
    case False
    then have "x + 999 = 1000 * (q + 1) + (r - 1)" "r - 1 < 1000" using x by simp_all
    then have "(x + 999) div 1000 = q + 1" by (simp only: div_mult_self4)
    then show ?thesis using False by (simp add: q_def r_def)
  qed
qed

lemma div_ceil64_nat:
  assumes "unat a < 2 ^ 63"
  shows "unat (div_ceil64 a 1000) = (unat a + 999) div 1000"
proof -
  have m: "a mod 1000 > 0 \<longleftrightarrow> unat a mod 1000 > 0" by (simp add: word_less_nat_alt unat_mod)
  have "unat a div 1000 \<le> unat a" by simp
  then have "unat (a div 1000 + 1) = unat a div 1000 + 1"
    using assms by (subst unat_add64) (simp_all add: unat_div)
  then have "unat (div_ceil64 a 1000) = (if unat a mod 1000 > 0 then unat a div 1000 + 1 else unat a div 1000)"
    by (simp add: div_ceil64_def m unat_div)
  moreover note ceil_1000 [of "unat a"]
  ultimately show ?thesis by simp
qed

lemma stage_window_nat:
  assumes "options_ok opts"
  shows "unat (stage_window_s opts) = window_nat opts"
proof -
  have f: "o_fleet opts \<le> 64" using assms by (simp add: options_ok_def HEARD_CAPACITY_def)
  let ?p = "slot_ms opts * of_nat (o_fleet opts)"
  have p: "unat ?p = slot_nat opts * o_fleet opts" "slot_nat opts * o_fleet opts \<le> 274877998848"
    using slot_mult [OF assms f] by simp_all
  have "unat (div_ceil64 ?p 1000) = (unat ?p + 999) div 1000"
    using p by (intro div_ceil64_nat) simp
  then have d: "unat (div_ceil64 ?p 1000) = (slot_nat opts * o_fleet opts + 999) div 1000" by (simp only: p)
  have "stage_window_s opts = div_ceil64 ?p 1000 + 2"
    using assms unfolding stage_window_s_def options_ok_def by simp
  moreover have "unat (w + 2) = unat w + 2" if "unat w < 2 ^ 63" for w :: u64
    using that by (subst unat_add64) simp_all
  ultimately have "unat (stage_window_s opts) = unat (div_ceil64 ?p 1000) + 2"
    using d p(2) by simp
  then show ?thesis using d by (simp add: window_nat_def)
qed

section \<open>No two transmissions overlap\<close>

text \<open>What a member may be due to send: an attempt at a stage, a repair request, a resend.\<close>

datatype Turn = StageTurn nat nat | AskTurn nat | ResendTurn nat

fun turn_due :: "Options \<Rightarrow> ScaledClock \<Rightarrow> Turn \<Rightarrow> duration" where
  "turn_due opts clock (StageTurn k a) = stage_due opts clock k a"
| "turn_due opts clock (AskTurn r) = ask_due opts clock r"
| "turn_due opts clock (ResendTurn r) = resend_due opts clock r"

fun turn_allowed :: "Options \<Rightarrow> Turn \<Rightarrow> bool" where
  "turn_allowed opts (StageTurn k a) \<longleftrightarrow> k < 2 \<and> a = 0 \<or> k = 2 \<and> a < o_attempts opts"
| "turn_allowed opts (AskTurn r) \<longleftrightarrow> r < unat REPAIR_ROUNDS"
| "turn_allowed opts (ResendTurn r) \<longleftrightarrow> r < unat REPAIR_ROUNDS"

definition rounds_nat :: "Options \<Rightarrow> nat" where
  "rounds_nat opts = max (o_attempts opts) 1"

lemma starts_nat:
  assumes "options_ok opts"
  shows "unat (starts opts ! 0) = 3" "unat (starts opts ! 1) = 3 + window_nat opts" "unat (starts opts ! 2) = 363"
proof -
  show "unat (starts opts ! 0) = 3" "unat (starts opts ! 2) = 363"
    by (simp_all add: starts_def LEAD_IN_def BINDING_STAGE_OPENS_SECONDS_def CONSULTATION_CUTOFF_SECONDS_def
        MAX_CLOCK_SKEW_SECONDS_def PHASE_SETTLE_SECONDS_def)
  have "starts opts ! 1 = 3 + stage_window_s opts" by (simp add: starts_def LEAD_IN_def)
  then show "unat (starts opts ! 1) = 3 + window_nat opts"
    using stage_window_nat [OF assms] window_nat_bounds [OF assms] by (simp only:) (subst unat_add64; simp)
qed

lemma fit_nat:
  assumes "options_ok opts"
  shows "window_nat opts * (rounds_nat opts + 6) \<le> 232"
proof -
  let ?n = "of_nat (max (o_attempts opts) 1) :: u64"
  have n: "unat ?n = rounds_nat opts" "rounds_nat opts < 2 ^ 32"
    using assms by (simp_all add: rounds_nat_def options_ok_def unat_of_nat64)
  have six: "unat (?n + 2 * REPAIR_ROUNDS) = rounds_nat opts + 6"
    using n by (simp add: REPAIR_ROUNDS_def) (subst unat_add64; simp)
  have b: "window_nat opts * (rounds_nat opts + 6) \<le> 274878001 * (2 ^ 32 + 6)"
    using window_nat_bounds(2) [OF assms] n by (intro mult_mono) simp_all
  then have p: "unat (stage_window_s opts * (?n + 2 * REPAIR_ROUNDS)) = window_nat opts * (rounds_nat opts + 6)"
    using unat_mult64 [of "stage_window_s opts" "?n + 2 * REPAIR_ROUNDS"]
    unfolding stage_window_nat [OF assms] six by simp
  define z where "z = stage_window_s opts * (?n + 2 * REPAIR_ROUNDS)"
  have z: "unat z \<le> 274878001 * (2 ^ 32 + 6)" using p b by (simp add: z_def)
  have s: "unat (starts opts ! 2) = 363" by (rule starts_nat [OF assms])
  have "unat (starts opts ! 2 + z) = 363 + unat z" using z s by (subst unat_add64) simp_all
  then have "unat (finish opts) = 363 + unat z + 5"
    unfolding finish_def z_def [symmetric] using z by (subst unat_add64) simp_all
  moreover have "unat (finish opts) \<le> 600"
    using assms by (simp add: options_ok_def schedule_fits_def ENDORSEMENT_TARGET_SECONDS_def word_less_nat_alt)
  ultimately show ?thesis using p by (simp add: z_def)
qed

lemma small_schedule:
  assumes "options_ok opts"
  shows "window_nat opts \<le> 33" and "rounds_nat opts \<le> 226" and "slot_nat opts * o_fleet opts \<le> 31000"
    and "window_nat opts * rounds_nat opts \<le> 232"
proof -
  note f = fit_nat [OF assms]
  have "window_nat opts * 7 \<le> window_nat opts * (rounds_nat opts + 6)"
    by (intro mult_le_mono2) (simp add: rounds_nat_def)
  then show w: "window_nat opts \<le> 33" using f by linarith
  have "1 * (rounds_nat opts + 6) \<le> window_nat opts * (rounds_nat opts + 6)"
    by (intro mult_le_mono1) (simp add: window_nat_def)
  from order_trans [OF this f] show "rounds_nat opts \<le> 226" by simp
  show "slot_nat opts * o_fleet opts \<le> 31000" using window_nat_bounds(1) [OF assms] w by linarith
  have "window_nat opts * rounds_nat opts \<le> window_nat opts * (rounds_nat opts + 6)" by (intro mult_le_mono2) simp
  then show "window_nat opts * rounds_nat opts \<le> 232" using f by linarith
qed

definition scale_nat :: "Options \<Rightarrow> nat" where
  "scale_nat opts = unat (o_scale opts)"

lemma wall_ms_nat: "ck_scale clock = o_scale opts \<Longrightarrow> unat (wall_ms clock x) = unat x div scale_nat opts"
  by (simp add: wall_ms_def unat_div scale_nat_def)

lemma from_millis_nat: "from_millis x = 1000000 * int (unat x)"
  by (simp add: from_millis_def)

text \<open>The window a turn belongs to, in wall milliseconds after the anchor.\<close>

definition window_ms :: "Options \<Rightarrow> nat" where
  "window_ms opts = window_nat opts * 1000 div scale_nat opts"

fun turn_lo :: "Options \<Rightarrow> Turn \<Rightarrow> nat" where
  "turn_lo opts (StageTurn k a) =
     [3, 3 + window_nat opts, 363] ! k * 1000 div scale_nat opts + a * window_ms opts"
| "turn_lo opts (AskTurn r) =
     (363 + window_nat opts * rounds_nat opts) * 1000 div scale_nat opts + 2 * r * window_ms opts"
| "turn_lo opts (ResendTurn r) =
     (363 + window_nat opts * rounds_nat opts) * 1000 div scale_nat opts + (2 * r + 1) * window_ms opts"

fun turn_ms :: "Options \<Rightarrow> Turn \<Rightarrow> nat" where
  "turn_ms opts (StageTurn k a) =
     ([3, 3 + window_nat opts, 363] ! k * 1000 + slot_nat opts * o_index opts) div scale_nat opts + a * window_ms opts"
| "turn_ms opts (AskTurn r) = turn_lo opts (AskTurn r) + slot_nat opts * o_index opts div scale_nat opts"
| "turn_ms opts (ResendTurn r) = turn_lo opts (ResendTurn r) + slot_nat opts * o_index opts div scale_nat opts"

lemma turn_due_nat:
  assumes "options_ok opts" and "ck_scale clock = o_scale opts" and "turn_allowed opts u"
  shows "turn_due opts clock u = 1000000 * int (turn_ms opts u)"
proof -
  note w = wall_ms_nat [OF assms(2)]
  note small = small_schedule [OF assms(1)]
  have s1: "1 \<le> scale_nat opts" using assms(1) by (simp add: scale_nat_def options_ok_def)
  have i: "o_index opts \<le> o_fleet opts" "o_index opts \<le> 64"
    using assms(1) by (simp_all add: options_ok_def HEARD_CAPACITY_def)
  have Li: "slot_nat opts * o_index opts \<le> 31000"
    using i small(3) by (meson le_trans mult_le_mono2)
  have gap: "unat (stage_window_s opts * 1000) = window_nat opts * 1000"
    using unat_mult64 [of "stage_window_s opts" 1000] small(1) stage_window_nat [OF assms(1)] by simp
  have W: "unat (wall_ms clock (stage_window_s opts * 1000)) = window_ms opts"
    by (simp only: w gap window_ms_def)
  have Wb: "window_ms opts \<le> 33000"
    using small(1) by (simp add: window_ms_def le_trans [OF div_le_dividend])
  have own: "unat (wall_ms clock (slot_ms opts * of_nat (o_index opts))) = slot_nat opts * o_index opts div scale_nat opts"
    by (simp only: w slot_mult(1) [OF assms(1) i(2)])
  have n: "unat (of_nat (max (o_attempts opts) 1) :: u64) = rounds_nat opts"
    using small(2) by (simp add: rounds_nat_def unat_of_nat64)
  have R: "unat ((starts opts ! 2 + stage_window_s opts * of_nat (max (o_attempts opts) 1)) * 1000)
      = (363 + window_nat opts * rounds_nat opts) * 1000"
  proof -
    have p: "unat (stage_window_s opts * of_nat (max (o_attempts opts) 1)) = window_nat opts * rounds_nat opts"
      using unat_mult64 [of "stage_window_s opts" "of_nat (max (o_attempts opts) 1)"] small(4)
      unfolding n stage_window_nat [OF assms(1)] by simp
    have q: "unat (starts opts ! 2 + stage_window_s opts * of_nat (max (o_attempts opts) 1))
        = 363 + window_nat opts * rounds_nat opts"
      using unat_add64 [of "starts opts ! 2" "stage_window_s opts * of_nat (max (o_attempts opts) 1)"] small(4)
      unfolding p starts_nat(3) [OF assms(1)] by simp
    have "363 + window_nat opts * rounds_nat opts < 2 ^ 50"
      using small(4) by (rule order.strict_trans1 [OF add_left_mono]) simp
    then show ?thesis
      by (intro trans [OF unat_mult1000]) (simp_all only: q)
  qed
  have ro: "repair_offset opts clock
      = 1000000 * int ((363 + window_nat opts * rounds_nat opts) * 1000 div scale_nat opts)"
    unfolding repair_offset_def from_millis_nat w R ..
  have stg: "unat (offsets opts clock ! k) = ([3, 3 + window_nat opts, 363] ! k * 1000 + slot_nat opts * o_index opts) div scale_nat opts"
    if "k < 3" for k
  proof -
    have st: "unat (starts opts ! k) = [3, 3 + window_nat opts, 363] ! k" "[3, 3 + window_nat opts, 363] ! k \<le> 400"
    proof -
      have "k = 0 \<or> k = 1 \<or> k = 2" using that by linarith
      then show "unat (starts opts ! k) = [3, 3 + window_nat opts, 363] ! k" "[3, 3 + window_nat opts, 363] ! k \<le> 400"
        using starts_nat [OF assms(1)] small(1) by (elim disjE; simp)+
    qed
    have m: "unat (starts opts ! k * 1000) = [3, 3 + window_nat opts, 363] ! k * 1000"
      using unat_mult64 [of "starts opts ! k" 1000] st by simp
    have o: "unat (slot_offset_ms opts) = slot_nat opts * o_index opts"
      using slot_mult(1) [OF assms(1) i(2)] assms(1) by (simp add: slot_offset_ms_def options_ok_def)
    have "unat (starts opts ! k * 1000 + slot_offset_ms opts)
        = [3, 3 + window_nat opts, 363] ! k * 1000 + slot_nat opts * o_index opts"
      using unat_add64 [of "starts opts ! k * 1000" "slot_offset_ms opts"] st Li unfolding m o by simp
    moreover have "offsets opts clock ! k = wall_ms clock (starts opts ! k * 1000 + slot_offset_ms opts)"
      unfolding offsets_def by (rule nth_map) (use that in \<open>simp add: starts_def\<close>)
    ultimately show ?thesis by (simp only: w)
  qed
  show ?thesis
  proof (cases u)
    case (StageTurn k a)
    then have k: "k < 3" "a \<le> 226" using assms(3) small(2) by (auto simp: rounds_nat_def)
    have a: "unat (of_nat a * retry_gap_ms opts clock) = a * window_ms opts" "a * window_ms opts \<le> 226 * 33000"
    proof -
      show b: "a * window_ms opts \<le> 226 * 33000" using k(2) Wb by (rule mult_le_mono)
      show "unat (of_nat a * retry_gap_ms opts clock) = a * window_ms opts"
        using unat_mult64 [of "of_nat a" "retry_gap_ms opts clock"] b k(2)
        by (simp add: retry_gap_ms_def W unat_of_nat64)
    qed
    have "unat (offsets opts clock ! k) \<le> 431000"
    proof -
      have "[3, 3 + window_nat opts, 363] ! k \<le> 400"
        using k(1) small(1) by (auto simp: less_Suc_eq numeral_3_eq_3)
      then show ?thesis unfolding stg [OF k(1)] using Li by (intro order_trans [OF div_le_dividend]) linarith
    qed
    then have "unat (offsets opts clock ! k + of_nat a * retry_gap_ms opts clock)
        = unat (offsets opts clock ! k) + a * window_ms opts"
      using a by (subst unat_add64) simp_all
    then show ?thesis using stg [OF k(1)] StageTurn by (simp add: stage_due_def from_millis_nat)
  next
    case (AskTurn r)
    then show ?thesis
      by (simp add: ask_due_def ro window_wall_def own_slot_def from_millis_nat W own algebra_simps)
  next
    case (ResendTurn r)
    then show ?thesis
      by (simp add: resend_due_def ro window_wall_def own_slot_def from_millis_nat W own algebra_simps)
  qed
qed

lemma div_add_le: "(a :: nat) div s + b div s \<le> (a + b) div s"
  unfolding div_add1_eq [of a b s] by (rule le_add1)

lemma div_add_le_Suc: "((a :: nat) + b) div s \<le> a div s + b div s + 1"
proof (cases "s = 0")
  case True
  then show ?thesis by simp
next
  case False
  then have "a mod s + b mod s < 2 * s" using mod_less_divisor [of s a] mod_less_divisor [of s b] by linarith
  then have "(a mod s + b mod s) div s < 2" by (rule less_mult_imp_div_less)
  then show ?thesis unfolding div_add1_eq [of a b s] by linarith
qed

lemma mult_div_le: "n * ((a :: nat) div s) \<le> n * a div s"
proof (cases "s = 0")
  case False
  have "n * (a div s) * s \<le> n * a" unfolding mult.assoc by (intro mult_le_mono2) simp
  then show ?thesis using False by (simp add: less_eq_div_iff_mult_less_eq)
qed simp

text \<open>A slot fits behind every turn within the turn's window.\<close>

lemma turn_in_window:
  assumes "options_ok opts" and "turn_allowed opts u"
  shows "turn_lo opts u \<le> turn_ms opts u"
    and "turn_ms opts u + slot_nat opts div scale_nat opts \<le> turn_lo opts u + window_ms opts"
proof -
  let ?s = "scale_nat opts" and ?L = "slot_nat opts" and ?i = "o_index opts"
  have s: "1 \<le> ?s" "?s \<le> 1000" using assms(1) by (simp_all add: scale_nat_def options_ok_def)
  have "?L * (?i + 1) \<le> ?L * o_fleet opts"
    using assms(1) by (intro mult_le_mono2) (simp add: options_ok_def)
  then have L: "?L * ?i + ?L + 2000 \<le> window_nat opts * 1000"
    using window_nat_bounds(1) [OF assms(1)] by simp
  have two: "2 \<le> 2000 div ?s" using s by (simp add: less_eq_div_iff_mult_less_eq)
  show "turn_lo opts u \<le> turn_ms opts u"
    by (cases u) (simp_all add: div_le_mono)
  have first: "(x + ?L * ?i) div ?s + ?L div ?s \<le> x div ?s + window_ms opts" for x
  proof -
    have "(x + ?L * ?i) div ?s + ?L div ?s \<le> (x + (?L * ?i + ?L)) div ?s"
      using div_add_le [of "x + ?L * ?i" ?s ?L] by (simp add: add.assoc)
    also have "\<dots> \<le> x div ?s + (?L * ?i + ?L) div ?s + 1"
      by (rule div_add_le_Suc)
    also have "\<dots> \<le> x div ?s + ((?L * ?i + ?L) div ?s + 2000 div ?s)" using two by linarith
    also have "\<dots> \<le> x div ?s + (?L * ?i + ?L + 2000) div ?s" using div_add_le by simp
    also have "\<dots> \<le> x div ?s + window_ms opts"
      unfolding window_ms_def using L by (intro add_left_mono div_le_mono)
    finally show ?thesis .
  qed
  have own: "?L * ?i div ?s + ?L div ?s \<le> window_ms opts"
    using first [of 0] by simp
  show "turn_ms opts u + ?L div ?s \<le> turn_lo opts u + window_ms opts"
    using first own by (cases u) simp_all
qed

text \<open>The windows in their order: two consultation stages, the attempts, the repair windows.\<close>

fun turn_rank :: "Options \<Rightarrow> Turn \<Rightarrow> nat" where
  "turn_rank opts (StageTurn k a) = k + a"
| "turn_rank opts (AskTurn r) = 2 + rounds_nat opts + 2 * r"
| "turn_rank opts (ResendTurn r) = 2 + rounds_nat opts + 2 * r + 1"

definition rank_lo :: "Options \<Rightarrow> nat \<Rightarrow> nat" where
  "rank_lo opts m =
     (if m < 2 then (3 + m * window_nat opts) * 1000 div scale_nat opts
      else if m < 2 + rounds_nat opts then 363 * 1000 div scale_nat opts + (m - 2) * window_ms opts
      else (363 + window_nat opts * rounds_nat opts) * 1000 div scale_nat opts + (m - 2 - rounds_nat opts) * window_ms opts)"

lemma turn_lo_rank: "turn_allowed opts u \<Longrightarrow> turn_lo opts u = rank_lo opts (turn_rank opts u)"
  by (cases u) (auto simp: rank_lo_def rounds_nat_def less_2_cases_iff)

lemma turn_rank_inj:
  "turn_allowed opts t \<Longrightarrow> turn_allowed opts u \<Longrightarrow> turn_rank opts t = turn_rank opts u \<Longrightarrow> t = u"
  by (cases t; cases u; auto simp: rounds_nat_def less_2_cases_iff; presburger)

lemma rank_lo_Suc:
  assumes "options_ok opts"
  shows "rank_lo opts m + window_ms opts \<le> rank_lo opts (Suc m)"
proof -
  let ?s = "scale_nat opts" and ?w = "window_nat opts" and ?n = "rounds_nat opts"
  note w = small_schedule(1) [OF assms]
  have add: "a div ?s + window_ms opts \<le> (a + ?w * 1000) div ?s" for a
    unfolding window_ms_def by (rule div_add_le)
  consider "m = 0" | "m = 1" | "2 \<le> m" "m + 1 < 2 + ?n" | "m = 1 + ?n" "2 \<le> m" | "2 + ?n \<le> m" by linarith
  then show ?thesis
  proof cases
    case 1
    then show ?thesis using add [of 3000] by (simp add: rank_lo_def add_mult_distrib)
  next
    case 2
    have "(3000 + ?w * 1000) div ?s + window_ms opts \<le> (3000 + ?w * 1000 + ?w * 1000) div ?s" by (rule add)
    also have "\<dots> \<le> 363000 div ?s" using w by (intro div_le_mono) linarith
    finally show ?thesis using 2 by (simp add: rank_lo_def rounds_nat_def add_mult_distrib)
  next
    case 3
    then obtain c where "m = 2 + c" by (auto simp: le_iff_add)
    then show ?thesis using 3 by (simp add: rank_lo_def)
  next
    case 4
    then obtain c where c: "m = 2 + c" by (auto simp: le_iff_add)
    then have n: "?n = c + 1" using 4 by simp
    have "?n * window_ms opts \<le> ?n * (?w * 1000) div ?s" unfolding window_ms_def by (rule mult_div_le)
    then have "363000 div ?s + ?n * window_ms opts \<le> (363000 + ?n * (?w * 1000)) div ?s"
      using div_add_le [of 363000 ?s "?n * (?w * 1000)"] by linarith
    then show ?thesis using 4 c by (simp add: rank_lo_def n algebra_simps)
  next
    case 5
    then obtain c where "m = 2 + ?n + c" by (auto simp: le_iff_add)
    then show ?thesis by (simp add: rank_lo_def)
  qed
qed

lemma rank_lo_less:
  assumes "options_ok opts" and "m < k"
  shows "rank_lo opts m + window_ms opts \<le> rank_lo opts k"
  using assms(2)
proof (induction k)
  case (Suc k)
  show ?case
  proof (cases "m = k")
    case True
    then show ?thesis using rank_lo_Suc [OF assms(1)] by simp
  next
    case False
    then have "rank_lo opts m + window_ms opts \<le> rank_lo opts k" using Suc by simp
    then show ?thesis using rank_lo_Suc [OF assms(1), of k] by linarith
  qed
qed simp

lemma turns_apart:
  assumes "options_ok opts" and "turn_allowed opts t" and "turn_allowed opts u" and "t \<noteq> u"
  shows "turn_lo opts t + window_ms opts \<le> turn_lo opts u \<or> turn_lo opts u + window_ms opts \<le> turn_lo opts t"
proof -
  have "turn_rank opts t \<noteq> turn_rank opts u" using turn_rank_inj assms by blast
  then show ?thesis
    using rank_lo_less [OF assms(1)] assms(2,3) by (metis turn_lo_rank nat_neq_iff)
qed

text \<open>The same fleet and settings, seen by another member.\<close>

definition as_member :: "Options \<Rightarrow> nat \<Rightarrow> Options" where
  "as_member opts i = opts\<lparr>o_index := i\<rparr>"

lemma as_member_same [simp]:
  "slot_nat (as_member opts i) = slot_nat opts" "window_nat (as_member opts i) = window_nat opts"
  "scale_nat (as_member opts i) = scale_nat opts" "rounds_nat (as_member opts i) = rounds_nat opts"
  "window_ms (as_member opts i) = window_ms opts" "o_fleet (as_member opts i) = o_fleet opts"
  "o_index (as_member opts i) = i" "o_scale (as_member opts i) = o_scale opts"
  "turn_allowed (as_member opts i) t = turn_allowed opts t"
  by (simp_all add: as_member_def slot_nat_def window_nat_def scale_nat_def rounds_nat_def window_ms_def)
    (cases t; simp)

lemma turn_lo_as_member [simp]: "turn_lo (as_member opts i) t = turn_lo opts t"
  by (cases t) simp_all

lemma slot_as_member [simp]: "slot_ms (as_member opts i) = slot_ms opts"
  by (simp add: as_member_def slot_ms_def)

lemma window_as_member [simp]: "stage_window_s (as_member opts i) = stage_window_s opts"
  by (simp add: stage_window_s_def) (simp add: as_member_def)

lemma fits_as_member [simp]: "schedule_fits (as_member opts i) = schedule_fits opts"
  by (simp add: schedule_fits_def finish_def starts_def) (simp add: as_member_def)

lemma ok_as_member: "options_ok opts \<Longrightarrow> i < o_fleet opts \<Longrightarrow> options_ok (as_member opts i)"
  by (simp add: options_ok_def) (simp add: as_member_def)

lemma same_turn_apart:
  assumes "i < j"
  shows "turn_ms (as_member opts i) t + slot_nat opts div scale_nat opts \<le> turn_ms (as_member opts j) t"
proof -
  let ?s = "scale_nat opts" and ?L = "slot_nat opts"
  have "?L * (i + 1) \<le> ?L * j" using assms by (intro mult_le_mono2) simp
  then have "x + ?L * i + ?L \<le> x + ?L * j" for x by simp
  then have step: "(x + ?L * i) div ?s + ?L div ?s \<le> (x + ?L * j) div ?s" for x
    using div_add_le [of "x + ?L * i" ?s ?L] div_le_mono le_trans by blast
  show ?thesis using step [of "[3, 3 + window_nat opts, 363] ! (case t of StageTurn k a \<Rightarrow> k | _ \<Rightarrow> 0) * 1000"] step [of 0]
    by (cases t) simp_all
qed

text \<open>
  Under a schedule that fits, two different turns of any two members of a fleet are at
  least one slot apart.
\<close>

lemma turns_slot_apart:
  assumes "options_ok opts" and "i < o_fleet opts" and "j < o_fleet opts"
    and "turn_allowed opts t" and "turn_allowed opts u" and "(i, t) \<noteq> (j, u)"
  shows "turn_ms (as_member opts i) t + slot_nat opts div scale_nat opts \<le> turn_ms (as_member opts j) u
    \<or> turn_ms (as_member opts j) u + slot_nat opts div scale_nat opts \<le> turn_ms (as_member opts i) t"
proof (cases "t = u")
  case True
  then have "i < j \<or> j < i" using assms(6) by auto
  then show ?thesis using same_turn_apart True by blast
next
  case False
  note in1 = turn_in_window [OF ok_as_member [OF assms(1,2)], of t]
  note in2 = turn_in_window [OF ok_as_member [OF assms(1,3)], of u]
  show ?thesis using turns_apart [OF assms(1,4,5) False] in1 in2 assms(4,5) by simp linarith
qed

text \<open>
  (C11) A schedule the process accepts is free of collisions: whatever two turns of a slotted
  fleet are, of one member or of two, frames no longer than the protocol allows never
  overlap on the air when each leaves within the guard time of its due instant. Both
  consultation stages, every attempt at the vote and every repair window are covered,
  at any time scale up to 1000.
\<close>

theorem schedule_collision_free:
  assumes "options_ok opts" and "i < o_fleet opts" and "j < o_fleet opts"
    and "turn_allowed opts t" and "turn_allowed opts u" and "(i, t) \<noteq> (j, u)"
    and "ck_scale ci = o_scale opts" and "ck_scale cj = o_scale opts"
    and "m \<le> MAX_FRAME_BYTES" and "n \<le> MAX_FRAME_BYTES"
    and "turn_due (as_member opts i) ci t \<le> a"
    and "a \<le> turn_due (as_member opts i) ci t + from_millis (wall_ms ci (o_guard_ms opts))"
    and "turn_due (as_member opts j) cj u \<le> b"
    and "b \<le> turn_due (as_member opts j) cj u + from_millis (wall_ms cj (o_guard_ms opts))"
  shows "a + from_millis (wall_ms ci (airtime_ms m)) \<le> b \<or> b + from_millis (wall_ms cj (airtime_ms n)) \<le> a"
proof -
  let ?s = "scale_nat opts"
  have fits: "unat (o_guard_ms opts) div ?s + unat (airtime_ms l) div ?s \<le> slot_nat opts div ?s"
    if "l \<le> MAX_FRAME_BYTES" for l
  proof -
    have "airtime_ms l \<le> airtime_ms MAX_FRAME_BYTES" using that by (simp add: airtime_ms_def airtime_mono)
    then have "unat (airtime_ms l) \<le> 1436"
      by (simp add: MAX_FRAME_BYTES_def airtime_widest word_le_nat_alt)
    then have "(unat (o_guard_ms opts) + unat (airtime_ms l)) div ?s \<le> slot_nat opts div ?s"
      by (intro div_le_mono) (simp add: slot_nat_def)
    then show ?thesis using div_add_le order_trans by blast
  qed
  have due: "turn_due (as_member opts k) c v = 1000000 * int (turn_ms (as_member opts k) v)"
    if "k < o_fleet opts" "ck_scale c = o_scale opts" "turn_allowed opts v" for k c v
    using that turn_due_nat [OF ok_as_member [OF assms(1)], of k c v] by simp
  note w = from_millis_nat wall_ms_nat [OF assms(7)] wall_ms_nat [OF assms(8)]
  from turns_slot_apart [OF assms(1-6)] fits [OF assms(9)] fits [OF assms(10)] assms(11-14)
  show ?thesis
    unfolding due [OF assms(2,7,4)] due [OF assms(3,8,5)] w by linarith
qed

definition sample_options :: Options where
  "sample_options = \<lparr>o_index = 0, o_fleet = 5, o_scale = 100, o_offset = 0, o_clock_epoch = 1000000,
     o_slots = True, o_guard_ms = 200, o_trigger = False, o_trigger_delay_ms = 5000, o_attempts = 3,
     o_ignore_acks = False, o_adversary = Honest, o_prior_airtime_ms = 0\<rparr>"

lemma sample_options_ok: "options_ok sample_options"
proof -
  have "slot_ms sample_options = 1636"
    by (simp add: slot_ms_def sample_options_def MAX_FRAME_BYTES_def airtime_widest)
  then have "stage_window_s sample_options = 11"
    by (simp add: stage_window_s_def div_ceil64_def) (simp add: sample_options_def)
  then have "schedule_fits sample_options"
    by (simp add: schedule_fits_def finish_def starts_def REPAIR_ROUNDS_def BINDING_STAGE_OPENS_SECONDS_def
        CONSULTATION_CUTOFF_SECONDS_def MAX_CLOCK_SKEW_SECONDS_def PHASE_SETTLE_SECONDS_def
        ENDORSEMENT_TARGET_SECONDS_def) (simp add: sample_options_def)
  then show ?thesis by (simp add: options_ok_def) (simp add: sample_options_def HEARD_CAPACITY_def)
qed

definition sample_clock :: ScaledClock where
  "sample_clock = clock_new 0 0 100 0"

lemma sample_fields:
  "o_fleet sample_options = 5" "o_attempts sample_options = 3" "ck_scale sample_clock = o_scale sample_options"
  "o_trigger sample_options = False"
  by (simp_all add: sample_options_def sample_clock_def clock_new_def anchored_at_def)

lemma from_millis_nonneg: "0 \<le> from_millis x"
  by (simp add: from_millis_def)

theorem schedule_collision_free_witness:
  "turn_due (as_member sample_options 1) sample_clock (StageTurn 2 0) + from_millis (wall_ms sample_clock (airtime_ms 150))
      \<le> turn_due (as_member sample_options 2) sample_clock (StageTurn 2 0)
    \<or> turn_due (as_member sample_options 2) sample_clock (StageTurn 2 0) + from_millis (wall_ms sample_clock (airtime_ms 152))
      \<le> turn_due (as_member sample_options 1) sample_clock (StageTurn 2 0)"
  by (rule schedule_collision_free [OF sample_options_ok, where t = "StageTurn 2 0" and u = "StageTurn 2 0"
      and i = 1 and j = 2])
    (simp_all add: sample_fields MAX_FRAME_BYTES_def from_millis_nonneg)

text \<open>
  Any member may open, in turn: two members that both wait for their turn to open a round
  are at least two slots apart, so the later one hears the earlier one first.
\<close>

theorem openers_apart:
  assumes "options_ok opts" and "\<not> o_trigger opts" and "i < o_fleet opts" and "j < o_fleet opts" and "i \<noteq> j"
    and "ck_scale c = o_scale opts"
  shows "\<bar>open_deadline (as_member opts i) c - open_deadline (as_member opts j) c\<bar>
    \<ge> from_millis (wall_ms c (2 * slot_ms opts))"
proof -
  let ?f = "o_fleet opts"
  define start where "start = unat (CONTENT_HASH ! 0) mod ?f"
  define rank where "rank k = (k + ?f - start) mod ?f" for k
  have f: "1 \<le> ?f" "?f \<le> 64" using assms(1) by (simp_all add: options_ok_def HEARD_CAPACITY_def)
  have st: "start < ?f" using f by (simp add: start_def)
  have r: "rank k = (if k \<ge> start then k - start else k + ?f - start)" if "k < ?f" for k
    using that st by (auto simp: rank_def mod_if)
  have rl: "rank k < ?f" for k using f by (simp add: rank_def)
  have ne: "rank i \<noteq> rank j" using r [OF assms(3)] r [OF assms(4)] assms(3-5) st by auto
  define turn where "turn = wall_ms c (2 * slot_ms opts)"
  have two: "unat (2 * slot_ms opts) = 2 * slot_nat opts"
    using unat_mult64 [of 2 "slot_ms opts"] slot_ms_nat [OF assms(1)] slot_nat_bounds [OF assms(1)] by simp
  have tb: "unat turn \<le> 2 ^ 34"
    unfolding turn_def wall_ms_nat [OF assms(6)] two using slot_nat_bounds [OF assms(1)]
    by (intro order_trans [OF div_le_dividend]) simp
  have mult: "unat ((of_nat n + 1) * turn) = (n + 1) * unat turn" if "n < 64" for n
  proof -
    have n: "unat (of_nat n + 1 :: u64) = n + 1"
      using that by (subst unat_add64) (simp_all add: unat_of_nat64)
    have "(n + 1) * unat turn \<le> 65 * 2 ^ 34" using that tb by (intro mult_le_mono) simp_all
    then show ?thesis using unat_mult64 [of "of_nat n + 1" turn] unfolding n by simp
  qed
  have d: "open_deadline (as_member opts k) c
      = from_millis (o_trigger_delay_ms opts) + 1000000 * (int (rank k) + 1) * int (unat turn)" for k
  proof -
    have "open_deadline (as_member opts k) c
        = from_millis (o_trigger_delay_ms opts) + from_millis ((of_nat (rank k) + 1) * turn)"
      using assms(2) f by (simp add: open_deadline_def Let_def turn_def rank_def start_def max_absorb1)
        (simp add: as_member_def max_absorb1)
    moreover have "rank k < 64" using rl [of k] f by linarith
    then have "from_millis ((of_nat (rank k) + 1) * turn) = 1000000 * int ((rank k + 1) * unat turn)"
      by (simp only: from_millis_nat mult)
    ultimately show ?thesis by (simp only:) (simp only: of_nat_mult of_nat_add of_nat_1 mult.assoc)
  qed
  have "open_deadline (as_member opts i) c - open_deadline (as_member opts j) c
      = (int (rank i) - int (rank j)) * (1000000 * int (unat turn))"
    by (simp add: d algebra_simps)
  moreover have "1 \<le> \<bar>int (rank i) - int (rank j)\<bar>" using ne by linarith
  then have "1 * (1000000 * int (unat turn)) \<le> \<bar>int (rank i) - int (rank j)\<bar> * (1000000 * int (unat turn))"
    by (intro mult_right_mono) simp_all
  ultimately show ?thesis by (simp add: from_millis_nat turn_def [symmetric] abs_mult)
qed

theorem openers_apart_witness:
  "\<bar>open_deadline (as_member sample_options 0) sample_clock - open_deadline (as_member sample_options 4) sample_clock\<bar>
    \<ge> from_millis (wall_ms sample_clock (2 * slot_ms sample_options))"
  by (rule openers_apart [OF sample_options_ok]) (simp_all add: sample_fields)

end
