(* ===== verification/Lcq_Node_Frames.thy ===== *)
theory Lcq_Node_Frames
  imports Lcq_Schedule Lcq_Log_Safety Lcq_Case Lcq_Evaluation Lcq_Manifest Lcq_Replay
begin

text \<open>
  The frames of \<open>src/bin/lcq-node.rs\<close>: who is in the fleet, how a node builds a stage
  frame, a repair request and the frame that opens a round, and what it makes of a frame
  it receives. Each of these functions takes its arguments from a \<open>Ctx\<close>, which holds what
  a running node never changes; the meter that counts signature checks for the final
  report is passed along. The log lines are not modelled.
\<close>

section \<open>The fleet\<close>

record Fleet =
  fl_mission_epoch :: u16
  fl_ids :: "string list"
  fl_policy :: Policy

definition MISSION_EPOCH :: u16 where "MISSION_EPOCH = 1"
definition EVENT :: u32 where "EVENT = 1"
definition REVISION :: u16 where "REVISION = 0"
definition TRIGGER_STAGE :: u8 where "TRIGGER_STAGE = 0"
definition NACK_STAGE :: u8 where "NACK_STAGE = 4"

text \<open>\<open>format!("n{index}")\<close>\<close>

definition synthetic_id :: "nat \<Rightarrow> string" where
  "synthetic_id index = CHR ''n'' # show_dec index"

text \<open>A failed \<open>expect\<close> is the error it would have panicked with.\<close>

definition fleet_uniform :: "nat \<Rightarrow> (PolicyError, Fleet) result" where
  "fleet_uniform n =
     (let ids = map synthetic_id [0..<n]
      in case policy_new (map (\<lambda>i. (i, competence_value FULL)) ids) of
           Inl e \<Rightarrow> Inl e
         | Inr p \<Rightarrow> Inr \<lparr>fl_mission_epoch = MISSION_EPOCH, fl_ids = ids, fl_policy = p\<rparr>)"

definition fleet_from_manifest :: "Manifest \<Rightarrow> (PolicyError, Fleet) result" where
  "fleet_from_manifest mf =
     (case manifest_policy mf of
        Inl e \<Rightarrow> Inl e
      | Inr p \<Rightarrow> Inr \<lparr>fl_mission_epoch = mf_epoch mf, fl_ids = map mb_id (mf_members mf), fl_policy = p\<rparr>)"

definition fleet_size :: "Fleet \<Rightarrow> nat" where
  "fleet_size f = length (fl_ids f)"

definition fleet_id :: "Fleet \<Rightarrow> nat \<Rightarrow> string" where
  "fleet_id f index = (if index < length (fl_ids f) then fl_ids f ! index else ''?'')"

fun position :: "string \<Rightarrow> string list \<Rightarrow> nat option" where
  "position i [] = None"
| "position i (held # rest) = (if held = i then Some 0 else map_option Suc (position i rest))"

definition fleet_index_of :: "Fleet \<Rightarrow> string \<Rightarrow> nat option" where
  "fleet_index_of f i = position i (fl_ids f)"

section \<open>What a node is built from\<close>

record Ctx =
  cx_prim :: primitives
  cx_ser :: "SignedCompactEnvelope serializer"
  cx_pc :: postcard
  cx_fleet :: Fleet
  cx_subject :: Subject
  cx_keyring :: "VerifyingKey list"
  cx_signing :: SigningKey
  cx_forged :: "SigningKey option"
  cx_group :: GroupKey
  cx_opts :: Options

record Meter =
  verifications :: u64
  crc_errors :: u64
  header_errors :: u64
  chip_missed :: u64
  replays_dropped :: u64
  outside_fleet_dropped :: u64

definition meter_zero :: Meter where
  "meter_zero = \<lparr>verifications = 0, crc_errors = 0, header_errors = 0, chip_missed = 0,
     replays_dropped = 0, outside_fleet_dropped = 0\<rparr>"

text \<open>\<open>checked\<close>: a signature check, counted.\<close>

definition checked :: "Meter \<Rightarrow> Meter" where
  "checked mt = mt\<lparr>verifications := verifications mt + 1\<rparr>"

definition same_subject :: "Ctx \<Rightarrow> CompactEnvelope \<Rightarrow> bool" where
  "same_subject cx e \<longleftrightarrow>
     ce_mission_epoch e = fl_mission_epoch (cx_fleet cx) \<and> ce_event e = EVENT \<and> ce_revision e = REVISION
     \<and> ce_case e = case_reference (cx_prim cx) (content_hash (cx_subject cx))
     \<and> ce_started_at e = started_at (cx_subject cx)"

definition stage_of :: "u8 \<Rightarrow> Stage option" where
  "stage_of code =
     (if code = 1 then Some Independent else if code = 2 then Some Consultation
      else if code = 3 then Some BindingSupport else None)"

definition verdict_of :: "u8 \<Rightarrow> Verdict option" where
  "verdict_of code =
     (if code = 1 then Some Support else if code = 2 then Some Dispute
      else if code = 3 then Some InsufficientData else None)"

definition member_id :: "Ctx \<Rightarrow> nat \<Rightarrow> string" where
  "member_id cx index = fleet_id (cx_fleet cx) index"

definition member_index :: "Ctx \<Rightarrow> string \<Rightarrow> nat option" where
  "member_index cx i = fleet_index_of (cx_fleet cx) i"

text \<open>\<open>u16::try_from(index).unwrap_or(u16::MAX)\<close>\<close>

definition author_of :: "nat \<Rightarrow> u16" where
  "author_of index = (if index < 2 ^ 16 then of_nat index else - 1)"

definition forward_key :: "nat \<Rightarrow> u64 \<Rightarrow> u64" where
  "forward_key a sequence =
     (push_bit 48 (if a < 2 ^ 64 then of_nat a else 0)) OR (sequence AND 0x0000FFFFFFFFFFFF)"

section \<open>Building frames\<close>

datatype BuildError =
    BuildJournal JournalError
  | BuildWire WireError
  | NothingPending
  | FrameTooWide nat

text \<open>The envelope every builder starts from, and the signing, encoding and sealing it ends with.\<close>

definition own_envelope :: "Ctx \<Rightarrow> u8 \<Rightarrow> u8 \<Rightarrow> u64 \<Rightarrow> CompactEnvelope" where
  "own_envelope cx stg verd sequence =
     compact_new (cx_prim cx) (fl_mission_epoch (cx_fleet cx)) EVENT REVISION (content_hash (cx_subject cx))
       (started_at (cx_subject cx)) (author_of (o_index (cx_opts cx))) stg verd sequence"

definition sign_and_seal :: "Ctx \<Rightarrow> SigningKey \<Rightarrow> u64 \<Rightarrow> CompactEnvelope \<Rightarrow> (BuildError, bytes) result" where
  "sign_and_seal cx key sequence envelope =
     (case encode_compact (cx_ser cx) (compact_sign (cx_prim cx) envelope key (content_hash (cx_subject cx))) of
        Inl e \<Rightarrow> Inl (BuildWire e)
      | Inr plain \<Rightarrow>
          (case seal_frame (cx_prim cx) (cx_group cx) (author_of (o_index (cx_opts cx))) sequence plain of
             Inl e \<Rightarrow> Inl (BuildWire e)
           | Inr sealed \<Rightarrow> Inr sealed))"

definition everyone :: Heard where
  "everyone = foldl heard_from heard_none [0..<HEARD_CAPACITY]"

text \<open>\<open>journal.pending().next()\<close>\<close>

definition first_pending :: "LogJournal \<Rightarrow> OutgoingFrame option" where
  "first_pending j = (case bt_values (j_pending (log_state j)) of [] \<Rightarrow> None | f # _ \<Rightarrow> Some f)"

definition build ::
  "Ctx \<Rightarrow> Stage \<Rightarrow> LogJournal \<Rightarrow> Heard \<Rightarrow> RoundId \<Rightarrow> (BuildError, bytes) result \<times> LogJournal" where
  "build cx stg j heard rnd =
     (let opts = cx_opts cx; voter = member_id cx (o_index opts);
          already = (stg = BindingSupport \<and> log_has_voted j (cx_subject cx) voter)
      in if already \<and> o_adversary opts \<noteq> DoubleVote
         then (case first_pending j of None \<Rightarrow> Inl NothingPending | Some f \<Rightarrow> Inr (frame_bytes f), j)
         else
           let verd = (if already then 2 else 1);
               heard = (if o_adversary opts = LieAcks then everyone else heard);
               signing = (case cx_forged cx of Some k \<Rightarrow> k | None \<Rightarrow> cx_signing cx)
           in case log_reserve_sequence (cx_pc cx) j of
                (Inl e, j) \<Rightarrow> (Inl (BuildJournal e), j)
              | (Inr sequence, j) \<Rightarrow>
                  (case sign_and_seal cx signing sequence
                          (in_round (acknowledging (own_envelope cx (stage_code stg) verd sequence) heard) rnd) of
                     Inl e \<Rightarrow> (Inl e, j)
                   | Inr sealed \<Rightarrow>
                       if length sealed > MAX_FRAME_BYTES then (Inl (FrameTooWide (length sealed)), j)
                       else if stg = BindingSupport \<and> \<not> already then
                         (case log_commit_vote (cx_pc cx) j (cx_subject cx) voter (frame_new sealed sequence) of
                            (Inl e, j) \<Rightarrow> (Inl (BuildJournal e), j)
                          | (Inr _, j) \<Rightarrow> (Inr sealed, j))
                       else (Inr sealed, j)))"

definition build_nack ::
  "Ctx \<Rightarrow> LogJournal \<Rightarrow> Heard \<Rightarrow> RoundId \<Rightarrow> (BuildError, bytes) result \<times> LogJournal" where
  "build_nack cx j heard rnd =
     (case log_reserve_sequence (cx_pc cx) j of
        (Inl e, j) \<Rightarrow> (Inl (BuildJournal e), j)
      | (Inr sequence, j) \<Rightarrow>
          (sign_and_seal cx (cx_signing cx) sequence
             (in_round (acknowledging (own_envelope cx NACK_STAGE 0 sequence) heard) rnd), j))"

definition build_trigger :: "Ctx \<Rightarrow> LogJournal \<Rightarrow> RoundId \<Rightarrow> (BuildError, bytes) result \<times> LogJournal" where
  "build_trigger cx j rnd =
     (case log_reserve_sequence (cx_pc cx) j of
        (Inl e, j) \<Rightarrow> (Inl (BuildJournal e), j)
      | (Inr sequence, j) \<Rightarrow>
          (sign_and_seal cx (cx_signing cx) sequence (in_round (own_envelope cx TRIGGER_STAGE 0 sequence) rnd), j))"

section \<open>Reading frames\<close>

definition is_replay :: "bytes \<Rightarrow> ReplayWindow list \<Rightarrow> bool" where
  "is_replay frame windows =
     (case peek_frame_header frame of
        Inl _ \<Rightarrow> False
      | Inr (a, sequence) \<Rightarrow> unat a < length windows \<and> replay_seen (windows ! unat a) sequence)"

definition from_outside_the_fleet :: "nat \<Rightarrow> Meter \<Rightarrow> bytes \<Rightarrow> bool \<times> Meter" where
  "from_outside_the_fleet fleet mt bs =
     (case peek_frame_header bs of
        Inl _ \<Rightarrow> (False, mt)
      | Inr (a, _) \<Rightarrow>
          if unat a < fleet then (False, mt)
          else (True, mt\<lparr>outside_fleet_dropped := outside_fleet_dropped mt + 1\<rparr>))"

text \<open>Open and decode: the part every reader starts with.\<close>

definition read_frame :: "Ctx \<Rightarrow> bytes \<Rightarrow> (u16 \<times> u64 \<times> SignedCompactEnvelope) option" where
  "read_frame cx sealed =
     (case open_frame (cx_prim cx) (cx_group cx) sealed of
        Inl _ \<Rightarrow> None
      | Inr (header_author, header_sequence, plain) \<Rightarrow>
          (case decode_compact (cx_ser cx) plain of
             Inl _ \<Rightarrow> None
           | Inr frame \<Rightarrow> Some (header_author, header_sequence, frame)))"

definition verifies :: "Ctx \<Rightarrow> SignedCompactEnvelope \<Rightarrow> nat \<Rightarrow> bool" where
  "verifies cx frame claimed =
     (case compact_verify (cx_prim cx) frame (cx_keyring cx ! claimed) (content_hash (cx_subject cx)) of
        Inl _ \<Rightarrow> False | Inr _ \<Rightarrow> True)"

definition trigger_round :: "Ctx \<Rightarrow> Meter \<Rightarrow> bytes \<Rightarrow> (RoundId \<times> nat \<times> u64) option \<times> Meter" where
  "trigger_round cx mt sealed =
     (case read_frame cx sealed of
        None \<Rightarrow> (None, mt)
      | Some (header_author, header_sequence, frame) \<Rightarrow>
          let e = sc_envelope frame; claimed = unat (ce_author_index e); rnd = ce_round e
          in if ce_stage e \<noteq> TRIGGER_STAGE \<or> \<not> same_subject cx e then (None, mt)
             else if claimed \<ge> length (cx_keyring cx) then (None, mt)
             else if \<not> verifies cx frame claimed then (None, checked mt)
             else if unat header_author \<noteq> claimed \<or> header_sequence \<noteq> ce_sequence e then (None, checked mt)
             else if unat (round_opener rnd) \<noteq> claimed \<or> ucast (round_sequence rnd) \<noteq> ce_sequence e
             then (None, checked mt)
             else (Some (rnd, claimed, ce_sequence e), checked mt))"

record LateAnchor =
  la_origin :: instant
  la_round :: RoundId
  la_author :: nat
  la_sequence :: u64

definition stage_index_of :: "u8 \<Rightarrow> nat option" where
  "stage_index_of code = (if code = 1 then Some 0 else if code = 2 then Some 1 else if code = 3 then Some 2 else None)"

text \<open>\<open>now\<close> is the instant of the call, of which only a subtraction is taken.\<close>

definition late_anchor ::
  "Ctx \<Rightarrow> Meter \<Rightarrow> u64 list \<Rightarrow> ScaledClock \<Rightarrow> instant \<Rightarrow> bytes \<Rightarrow> LateAnchor option \<times> Meter" where
  "late_anchor cx mt start_s clock now sealed =
     (if \<not> o_slots (cx_opts cx) then (None, mt)
      else case read_frame cx sealed of
        None \<Rightarrow> (None, mt)
      | Some (header_author, header_sequence, frame) \<Rightarrow>
          let e = sc_envelope frame
          in case (if ce_stage e = NACK_STAGE then Some 2 else stage_index_of (ce_stage e)) of
               None \<Rightarrow> (None, mt)
             | Some stage_index \<Rightarrow>
                 let a = unat (ce_author_index e)
                 in if \<not> same_subject cx e \<or> a \<ge> length (cx_keyring cx) then (None, mt)
                    else if \<not> verifies cx frame a \<or> unat header_author \<noteq> a
                      \<or> header_sequence \<noteq> ce_sequence e \<or> \<not> round_is_set (ce_round e)
                    then (None, checked mt)
                    else let protocol_ms = start_s ! stage_index * 1000 + slot_ms (cx_opts cx) * of_nat a
                               + airtime_ms (length sealed)
                         in (Some \<lparr>la_origin = now - from_millis (wall_ms clock protocol_ms),
                                   la_round = ce_round e, la_author = a, la_sequence = ce_sequence e\<rparr>, checked mt))"

record Admitted =
  ad_verified :: "(nat \<times> u64) option"
  ad_round :: RoundId
  ad_stage_index :: "nat option"
  ad_binding_from :: "nat option"
  ad_acknowledges_us :: bool
  ad_refused :: "TransitionError option"
  ad_nack :: bool
  ad_heard :: Heard

definition admitted_default :: Admitted where
  "admitted_default = \<lparr>ad_verified = None, ad_round = \<lparr>round_opener = 0, round_sequence = 0\<rparr>,
     ad_stage_index = None, ad_binding_from = None, ad_acknowledges_us = False, ad_refused = None,
     ad_nack = False, ad_heard = heard_none\<rparr>"

text \<open>What a verified frame says of its sender, whatever the state machine makes of it.\<close>

definition learned_from :: "Ctx \<Rightarrow> CompactEnvelope \<Rightarrow> Admitted" where
  "learned_from cx e =
     \<lparr>ad_verified = Some (unat (ce_author_index e), ce_sequence e), ad_round = ce_round e,
      ad_stage_index = stage_index_of (ce_stage e), ad_binding_from = None,
      ad_acknowledges_us = heard_contains (ce_heard e) (o_index (cx_opts cx)), ad_refused = None,
      ad_nack = (ce_stage e = NACK_STAGE), ad_heard = ce_heard e\<rparr>"

definition admit :: "Ctx \<Rightarrow> Meter \<Rightarrow> timestamp \<Rightarrow> bytes \<Rightarrow> Case \<Rightarrow> Admitted \<times> Case \<times> Meter" where
  "admit cx mt now sealed c =
     (case read_frame cx sealed of
        None \<Rightarrow> (admitted_default, c, mt)
      | Some (header_author, header_sequence, frame) \<Rightarrow>
          let e = sc_envelope frame; claimed = unat (ce_author_index e)
          in if \<not> same_subject cx e then (admitted_default, c, mt)
             else if unat header_author \<noteq> claimed \<or> header_sequence \<noteq> ce_sequence e then (admitted_default, c, mt)
             else if claimed \<ge> length (cx_keyring cx) then (admitted_default, c, mt)
             else if \<not> verifies cx frame claimed then (admitted_default, c, checked mt)
             else let learned = learned_from cx e
                  in case (stage_of (ce_stage e), verdict_of (ce_verdict e)) of
                       (Some stg, Some verd) \<Rightarrow>
                         (case accept c \<lparr>author = member_id cx claimed, opinion_subject = cx_subject cx,
                                         stage = stg, verdict = verd\<rparr> now of
                            (Inr _, c) \<Rightarrow>
                              (if stg = BindingSupport then learned\<lparr>ad_binding_from := Some claimed\<rparr> else learned,
                               c, checked mt)
                          | (Inl error, c) \<Rightarrow> (learned\<lparr>ad_refused := Some error\<rparr>, c, checked mt))
                     | _ \<Rightarrow> (learned, c, checked mt))"

definition note_split :: "bool \<Rightarrow> nat bset \<Rightarrow> bool" where
  "note_split already foreign = (if already \<or> length foreign < 2 then already else True)"

definition remember_seen :: "Ctx \<Rightarrow> LogJournal \<Rightarrow> nat \<Rightarrow> u64 \<Rightarrow> LogJournal" where
  "remember_seen cx j sender sequence =
     (if sender < 2 ^ 16 then snd (log_mark_seen (cx_pc cx) j (of_nat sender) sequence) else j)"

section \<open>The outcomes of the builders\<close>

text \<open>Every frame \<open>sign_and_seal\<close> returns, with the envelope it carries.\<close>

definition carries :: "Ctx \<Rightarrow> bytes \<Rightarrow> CompactEnvelope \<Rightarrow> bool" where
  "carries cx bs e \<longleftrightarrow> (\<exists>key q. sign_and_seal cx key q e = Inr bs)"

lemma stage_of_envelope [simp]:
  "ce_stage (in_round (acknowledging (own_envelope cx stg verd q) h) rnd) = stg"
  "ce_stage (in_round (own_envelope cx stg verd q) rnd) = stg"
  by (simp_all add: in_round_def acknowledging_def own_envelope_def compact_new_def)

definition me :: "Ctx \<Rightarrow> string" where
  "me cx = member_id cx (o_index (cx_opts cx))"

lemma build_cases:
  assumes "build cx stg j heard rnd = (r, j')"
  obtains (again) "stg = BindingSupport" "log_has_voted j (cx_subject cx) (me cx)" "j' = j"
      "\<And>bs. r = Inr bs \<Longrightarrow> \<exists>f. first_pending j = Some f \<and> bs = frame_bytes f"
  | (refused) x e where "log_reserve_sequence (cx_pc cx) j = (x, j')" "r = Inl e"
  | (sent) q e bs where "log_reserve_sequence (cx_pc cx) j = (Inr q, j')" "r = Inr bs" "carries cx bs e"
      "ce_stage e = stage_code stg" "length bs \<le> MAX_FRAME_BYTES"
      "stg \<noteq> BindingSupport \<or> o_adversary (cx_opts cx) = DoubleVote"
  | (voted) q e bs j1 x where "log_reserve_sequence (cx_pc cx) j = (Inr q, j1)" "carries cx bs e"
      "ce_stage e = stage_code stg" "length bs \<le> MAX_FRAME_BYTES" "stg = BindingSupport" "\<not> log_has_voted j (cx_subject cx) (me cx)"
      "log_commit_vote (cx_pc cx) j1 (cx_subject cx) (me cx) (frame_new bs q) = (x, j')"
      "r = (case x of Inl e \<Rightarrow> Inl (BuildJournal e) | Inr _ \<Rightarrow> Inr bs)"
proof -
  define al where "al \<longleftrightarrow> stg = BindingSupport \<and> log_has_voted j (cx_subject cx) (me cx)"
  define key where "key = (case cx_forged cx of Some k \<Rightarrow> k | None \<Rightarrow> cx_signing cx)"
  define env where "env q = in_round (acknowledging (own_envelope cx (stage_code stg) (if al then 2 else 1) q)
    (if o_adversary (cx_opts cx) = LieAcks then everyone else heard)) rnd" for q
  have stage: "ce_stage (env q) = stage_code stg" for q by (simp add: env_def)
  have eq: "(if al \<and> o_adversary (cx_opts cx) \<noteq> DoubleVote
      then (case first_pending j of None \<Rightarrow> Inl NothingPending | Some f \<Rightarrow> Inr (frame_bytes f), j)
      else case log_reserve_sequence (cx_pc cx) j of
             (Inl e, j) \<Rightarrow> (Inl (BuildJournal e), j)
           | (Inr q, j) \<Rightarrow>
               (case sign_and_seal cx key q (env q) of
                  Inl e \<Rightarrow> (Inl e, j)
                | Inr sealed \<Rightarrow>
                    if length sealed > MAX_FRAME_BYTES then (Inl (FrameTooWide (length sealed)), j)
                    else if stg = BindingSupport \<and> \<not> al then
                      (case log_commit_vote (cx_pc cx) j (cx_subject cx) (me cx) (frame_new sealed q) of
                         (Inl e, j) \<Rightarrow> (Inl (BuildJournal e), j)
                       | (Inr _, j) \<Rightarrow> (Inr sealed, j))
                    else (Inr sealed, j))) = (r, j')"
    using assms unfolding build_def Let_def me_def [symmetric] al_def [symmetric] key_def [symmetric] env_def [symmetric] .
  show thesis
  proof (cases "al \<and> o_adversary (cx_opts cx) \<noteq> DoubleVote")
    case True
    then show thesis using eq by (intro again) (auto simp: al_def split: option.splits)
  next
    case False
    obtain x j1 where x: "log_reserve_sequence (cx_pc cx) j = (x, j1)" by fastforce
    show thesis
    proof (cases x)
      case (Inl e)
      then show thesis using eq False x by (intro refused [of x "BuildJournal e"]) auto
    next
      case (Inr q)
      show thesis
      proof (cases "sign_and_seal cx key q (env q)")
        case (Inl e)
        then show thesis using eq False x Inr by (intro refused [of x e]) auto
      next
        case s: (Inr bs)
        have c: "carries cx bs (env q)" using s by (auto simp: carries_def)
        consider "length bs > MAX_FRAME_BYTES" | "length bs \<le> MAX_FRAME_BYTES" "stg = BindingSupport" "\<not> al"
          | "length bs \<le> MAX_FRAME_BYTES" "stg \<noteq> BindingSupport \<or> al" by linarith
        then show thesis
        proof cases
          case 1
          then show thesis using eq False x Inr s by (intro refused [of x "FrameTooWide (length bs)"]) auto
        next
          case 2
          obtain y j2 where y: "log_commit_vote (cx_pc cx) j1 (cx_subject cx) (me cx) (frame_new bs q) = (y, j2)" by fastforce
          have "r = (case y of Inl e \<Rightarrow> Inl (BuildJournal e) | Inr _ \<Rightarrow> Inr bs)" "j' = j2"
            using eq False x Inr s y 2 by (auto split: sum.splits)
          moreover have "\<not> log_has_voted j (cx_subject cx) (me cx)" using 2 by (simp add: al_def)
          ultimately show thesis using voted [OF _ c stage 2(1,2)] x Inr y by blast
        next
          case 3
          have "r = Inr bs" "j' = j1" using eq False x Inr s 3 by auto
          moreover have "stg \<noteq> BindingSupport \<or> o_adversary (cx_opts cx) = DoubleVote" using 3 False by auto
          ultimately show thesis using sent [OF _ _ c stage 3(1)] x Inr by blast
        qed
      qed
    qed
  qed
qed

lemma nack_cases:
  assumes "build_nack cx j heard rnd = (r, j')"
  obtains x where "log_reserve_sequence (cx_pc cx) j = (x, j')"
    "\<And>bs. r = Inr bs \<Longrightarrow> \<exists>e. carries cx bs e \<and> ce_stage e = NACK_STAGE"
proof -
  obtain x j1 where x: "log_reserve_sequence (cx_pc cx) j = (x, j1)" by fastforce
  show thesis
    by (rule that [of x]) (use assms x in \<open>auto simp: build_nack_def carries_def split: sum.splits intro!: exI\<close>)
qed

lemma trigger_cases:
  assumes "build_trigger cx j rnd = (r, j')"
  obtains x where "log_reserve_sequence (cx_pc cx) j = (x, j')"
    "\<And>bs. r = Inr bs \<Longrightarrow> \<exists>e. carries cx bs e \<and> ce_stage e = TRIGGER_STAGE"
proof -
  obtain x j1 where x: "log_reserve_sequence (cx_pc cx) j = (x, j1)" by fastforce
  show thesis
    by (rule that [of x]) (use assms x in \<open>auto simp: build_trigger_def carries_def split: sum.splits intro!: exI\<close>)
qed

section \<open>What a frame proves\<close>

text \<open>A frame that opens, decodes and carries a valid signature by a member, under the header it claims.\<close>

definition genuine :: "Ctx \<Rightarrow> bytes \<Rightarrow> nat \<Rightarrow> u64 \<Rightarrow> SignedCompactEnvelope \<Rightarrow> bool" where
  "genuine cx sealed m q frame \<longleftrightarrow>
     m < length (cx_keyring cx) \<and> verifies cx frame m \<and> same_subject cx (sc_envelope frame)
     \<and> unat (ce_author_index (sc_envelope frame)) = m \<and> ce_sequence (sc_envelope frame) = q
     \<and> (\<exists>h. unat h = m \<and> read_frame cx sealed = Some (h, q, frame))"

lemma ucast_narrow_wide:
  "ucast (ucast (w :: u32) :: u64) = w"
  by (rule bit_word_eqI) (simp add: bit_simps)

lemma trigger_round_Some:
  assumes "trigger_round cx mt sealed = (Some (r, m, q), mt')"
  obtains frame where "genuine cx sealed m q frame" "ce_stage (sc_envelope frame) = TRIGGER_STAGE"
    "ce_round (sc_envelope frame) = r" "unat (round_opener r) = m" "ucast (round_sequence r) = q"
  using assms by (auto simp: trigger_round_def genuine_def Let_def split: option.splits if_splits prod.splits)

text \<open>
  (C18) A round is opened only by a frame that the member it names signed, under the sequence it
  names, for this fleet's subject: nobody can open a round in another member's name, and
  two frames that open the same round come from the same member under the same sequence.
\<close>

theorem trigger_round_genuine:
  assumes "trigger_round cx mt sealed = (Some (r, m, q), mt')"
  shows "(\<exists>frame. genuine cx sealed m q frame \<and> ce_stage (sc_envelope frame) = TRIGGER_STAGE
        \<and> ce_round (sc_envelope frame) = r \<and> r = round_new (of_nat m) (ucast q))
    \<and> (\<forall>other mt2 m2 q2 mt3. trigger_round cx mt2 other = (Some (r, m2, q2), mt3) \<longrightarrow> m2 = m \<and> q2 = q)"
proof -
  obtain frame where f: "genuine cx sealed m q frame" "ce_stage (sc_envelope frame) = TRIGGER_STAGE"
    "ce_round (sc_envelope frame) = r" "unat (round_opener r) = m" "ucast (round_sequence r) = q"
    by (rule trigger_round_Some [OF assms])
  have "of_nat m = round_opener r" using f(4) by (simp flip: f(4))
  moreover have "ucast q = round_sequence r"
    unfolding f(5) [symmetric] by (rule ucast_narrow_wide)
  ultimately have "r = round_new (of_nat m) (ucast q)" by (simp add: round_new_def)
  moreover have "m2 = m \<and> q2 = q" if "trigger_round cx mt2 other = (Some (r, m2, q2), mt3)" for other mt2 m2 q2 mt3
    using trigger_round_Some [OF that] f(4,5) by metis
  ultimately show ?thesis using f(1-3) by blast
qed

lemma admit_cases:
  assumes "admit cx mt now sealed c = (ad, c', mt')"
  obtains (silent) "c' = c" "ad_binding_from ad = None" "ad_verified ad = None" "ad = admitted_default"
  | (heard) m q frame where "c' = c" "genuine cx sealed m q frame" "ad = learned_from cx (sc_envelope frame)"
  | (taken) m q frame stg verd where "genuine cx sealed m q frame"
      "stage_of (ce_stage (sc_envelope frame)) = Some stg" "verdict_of (ce_verdict (sc_envelope frame)) = Some verd"
      "accept c \<lparr>author = member_id cx m, opinion_subject = cx_subject cx, stage = stg, verdict = verd\<rparr> now = (Inr (), c')"
      "ad = (if stg = BindingSupport then (learned_from cx (sc_envelope frame))\<lparr>ad_binding_from := Some m\<rparr>
             else learned_from cx (sc_envelope frame))"
  | (refused) m q frame stg verd e where "genuine cx sealed m q frame" "c' = c"
      "stage_of (ce_stage (sc_envelope frame)) = Some stg"
      "accept c \<lparr>author = member_id cx m, opinion_subject = cx_subject cx, stage = stg, verdict = verd\<rparr> now = (Inl e, c')"
      "ad = (learned_from cx (sc_envelope frame))\<lparr>ad_refused := Some e\<rparr>"
proof (cases "read_frame cx sealed")
  case None
  then have "ad = admitted_default \<and> c' = c" using assms by (simp add: admit_def)
  then show ?thesis by (intro silent) (simp_all add: admitted_default_def)
next
  case (Some x)
  obtain h q frame where x: "read_frame cx sealed = Some (h, q, frame)" using Some by (cases x) auto
  let ?e = "sc_envelope frame"
  let ?m = "unat (ce_author_index ?e)"
  show ?thesis
  proof (cases "same_subject cx ?e \<and> unat h = ?m \<and> q = ce_sequence ?e \<and> ?m < length (cx_keyring cx)
      \<and> verifies cx frame ?m")
    case False
    then have "ad = admitted_default \<and> c' = c"
      using assms x unfolding admit_def Let_def by (auto split: if_split_asm)
    then show ?thesis by (intro silent) (simp_all add: admitted_default_def)
  next
    case True
    then have g: "genuine cx sealed ?m q frame" using x by (simp add: genuine_def)
    have *: "(case (stage_of (ce_stage ?e), verdict_of (ce_verdict ?e)) of
        (Some stg, Some verd) \<Rightarrow>
          (case accept c \<lparr>author = member_id cx ?m, opinion_subject = cx_subject cx, stage = stg, verdict = verd\<rparr> now of
             (Inr _, c) \<Rightarrow> (if stg = BindingSupport then (learned_from cx ?e)\<lparr>ad_binding_from := Some ?m\<rparr>
                           else learned_from cx ?e, c, checked mt)
           | (Inl error, c) \<Rightarrow> ((learned_from cx ?e)\<lparr>ad_refused := Some error\<rparr>, c, checked mt))
      | _ \<Rightarrow> (learned_from cx ?e, c, checked mt)) = (ad, c', mt')"
      using assms x True unfolding admit_def Let_def by simp
    show ?thesis
    proof (cases "stage_of (ce_stage ?e)")
      case None
      then show ?thesis using * g by (intro heard [of ?m q frame]) simp_all
    next
      case (Some stg)
      show ?thesis
      proof (cases "verdict_of (ce_verdict ?e)")
        case None
        then show ?thesis using * g Some by (intro heard [of ?m q frame]) simp_all
      next
        case v: (Some verd)
        let ?v = "\<lparr>author = member_id cx ?m, opinion_subject = cx_subject cx, stage = stg, verdict = verd\<rparr>"
        obtain r c2 where a: "accept c ?v now = (r, c2)" by fastforce
        show ?thesis
        proof (cases r)
          case (Inl e)
          have c2: "c2 = c" by (rule accept_cases [OF a]) (simp_all only: Inl sum.simps)
          have "((learned_from cx ?e)\<lparr>ad_refused := Some e\<rparr>, c2, checked mt) = (ad, c', mt')"
            using * unfolding Some v prod.case option.case a Inl sum.case .
          then have ad: "ad = (learned_from cx ?e)\<lparr>ad_refused := Some e\<rparr>" and c': "c' = c2"
            by (simp_all only: prod.inject)
          show ?thesis
            by (rule refused [OF g _ Some a [unfolded Inl, folded c'] ad]) (simp only: c' c2)
        next
          case (Inr u)
          have "(if stg = BindingSupport then (learned_from cx ?e)\<lparr>ad_binding_from := Some ?m\<rparr>
                           else learned_from cx ?e, c2, checked mt) = (ad, c', mt')"
            using * unfolding Some v prod.case option.case a Inr sum.case .
          then have ad: "ad = (if stg = BindingSupport then (learned_from cx ?e)\<lparr>ad_binding_from := Some ?m\<rparr>
                           else learned_from cx ?e)" and c': "c' = c2"
            by (simp_all only: prod.inject)
          have "r = Inr ()" using Inr by simp
          then show ?thesis using taken [OF g Some v _ ad] a c' by metis
        qed
      qed
    qed
  qed
qed

text \<open>A frame is read as one member's, and as one.\<close>

lemma genuine_unique: "genuine cx sealed m q frame \<Longrightarrow> genuine cx sealed m2 q2 frame2 \<Longrightarrow> m2 = m \<and> q2 = q \<and> frame2 = frame"
  by (auto simp: genuine_def)


end
