(* ===== verification/Lcq_Monad.thy ===== *)
theory Lcq_Monad
  imports Main "HOL-Library.State_Monad"
begin

text \<open>
  Programs that thread a state through many calls: reading and changing parts of it, and
  Hoare triples over them. A triple \<open>valid P m Q\<close> says that from a state with \<open>P\<close> the
  program \<open>m\<close> ends in a result and state with \<open>Q\<close>; a state invariant is a triple whose two
  sides agree. The rules are collected in \<open>vcg\<close>, one per construct.
\<close>

definition gets :: "('s \<Rightarrow> 'a) \<Rightarrow> ('s, 'a) state" where
  "gets f = State (\<lambda>s. (f s, s))"

definition modify :: "('s \<Rightarrow> 's) \<Rightarrow> ('s, unit) state" where
  "modify f = State (\<lambda>s. ((), f s))"

definition doif :: "bool \<Rightarrow> ('s, unit) state \<Rightarrow> ('s, unit) state" where
  "doif b m = (if b then m else State_Monad.return ())"

lemma run_gets [simp]: "run_state (gets f) s = (f s, s)"
  by (simp add: gets_def)

lemma run_modify [simp]: "run_state (modify f) s = ((), f s)"
  by (simp add: modify_def)

lemma run_doif: "run_state (doif b m) s = (if b then run_state m s else ((), s))"
  by (simp add: doif_def)

definition valid :: "('s \<Rightarrow> bool) \<Rightarrow> ('s, 'a) state \<Rightarrow> ('a \<Rightarrow> 's \<Rightarrow> bool) \<Rightarrow> bool" where
  "valid P m Q \<longleftrightarrow> (\<forall>s. P s \<longrightarrow> (case run_state m s of (a, s') \<Rightarrow> Q a s'))"

lemma validI: "(\<And>s a s'. P s \<Longrightarrow> run_state m s = (a, s') \<Longrightarrow> Q a s') \<Longrightarrow> valid P m Q"
  by (simp add: valid_def split: prod.split)

lemma validD: "valid P m Q \<Longrightarrow> P s \<Longrightarrow> run_state m s = (a, s') \<Longrightarrow> Q a s'"
  by (fastforce simp: valid_def)

lemma valid_weaken: "valid P m R \<Longrightarrow> (\<And>a s. R a s \<Longrightarrow> Q a s) \<Longrightarrow> valid P m Q"
  by (fastforce simp: valid_def split: prod.splits)

lemma valid_pre: "valid R m Q \<Longrightarrow> (\<And>s. P s \<Longrightarrow> R s) \<Longrightarrow> valid P m Q"
  by (simp add: valid_def)

lemma valid_conj: "valid P m Q \<Longrightarrow> valid P m R \<Longrightarrow> valid P m (\<lambda>a s. Q a s \<and> R a s)"
  by (auto simp: valid_def split: prod.splits)

named_theorems vcg \<open>rules for triples\<close>

lemma valid_bind [vcg]:
  "valid P m R \<Longrightarrow> (\<And>a. valid (R a) (f a) Q) \<Longrightarrow> valid P (State_Monad.bind m f) Q"
  by (fastforce simp: valid_def split: prod.splits)

lemma valid_return [vcg]: "(\<And>s. P s \<Longrightarrow> Q a s) \<Longrightarrow> valid P (State_Monad.return a) Q"
  by (simp add: valid_def)

lemma valid_gets [vcg]: "(\<And>s. P s \<Longrightarrow> Q (f s) s) \<Longrightarrow> valid P (gets f) Q"
  by (simp add: valid_def)

lemma valid_modify [vcg]: "(\<And>s. P s \<Longrightarrow> Q () (f s)) \<Longrightarrow> valid P (modify f) Q"
  by (simp add: valid_def)

lemma valid_if [vcg]: "(b \<Longrightarrow> valid P m Q) \<Longrightarrow> (\<not> b \<Longrightarrow> valid P n Q) \<Longrightarrow> valid P (if b then m else n) Q"
  by simp

lemma valid_doif [vcg]: "(b \<Longrightarrow> valid P m Q) \<Longrightarrow> (\<And>s. \<not> b \<Longrightarrow> P s \<Longrightarrow> Q () s) \<Longrightarrow> valid P (doif b m) Q"
  by (cases b) (simp_all add: valid_def run_doif)

lemma valid_option [vcg]:
  "(x = None \<Longrightarrow> valid P m Q) \<Longrightarrow> (\<And>a. x = Some a \<Longrightarrow> valid P (f a) Q) \<Longrightarrow> valid P (case_option m f x) Q"
  by (cases x) simp_all

lemma valid_sum [vcg]:
  "(\<And>e. x = Inl e \<Longrightarrow> valid P (f e) Q) \<Longrightarrow> (\<And>a. x = Inr a \<Longrightarrow> valid P (g a) Q) \<Longrightarrow> valid P (case_sum f g x) Q"
  by (cases x) simp_all

lemma valid_prod [vcg]: "(\<And>a b. x = (a, b) \<Longrightarrow> valid P (f a b) Q) \<Longrightarrow> valid P (case_prod f x) Q"
  by (cases x) simp

lemma valid_let [vcg]: "(\<And>a. a = x \<Longrightarrow> valid P (f a) Q) \<Longrightarrow> valid P (Let x f) Q"
  by simp

text \<open>An invariant: it holds after the program whenever it held before it.\<close>

definition keeps :: "('s \<Rightarrow> bool) \<Rightarrow> ('s, 'a) state \<Rightarrow> bool" where
  "keeps I m \<longleftrightarrow> valid I m (\<lambda>_. I)"

named_theorems keeping \<open>rules for invariants\<close>

lemma keepsD: "keeps I m \<Longrightarrow> I s \<Longrightarrow> I (snd (run_state m s))"
  by (auto simp: keeps_def valid_def split_beta)

lemma keeps_bind [keeping]: "keeps I m \<Longrightarrow> (\<And>a. keeps I (f a)) \<Longrightarrow> keeps I (State_Monad.bind m f)"
  unfolding keeps_def by (rule valid_bind)

lemma keeps_return [keeping]: "keeps I (State_Monad.return a)"
  by (simp add: keeps_def valid_def)

lemma keeps_gets [keeping]: "keeps I (gets f)"
  by (simp add: keeps_def valid_def)

lemma keeps_modify: "(\<And>s. I s \<Longrightarrow> I (f s)) \<Longrightarrow> keeps I (modify f)"
  by (simp add: keeps_def valid_def)

lemma keeps_if [keeping]: "(b \<Longrightarrow> keeps I m) \<Longrightarrow> (\<not> b \<Longrightarrow> keeps I n) \<Longrightarrow> keeps I (if b then m else n)"
  by simp

lemma keeps_doif [keeping]: "(b \<Longrightarrow> keeps I m) \<Longrightarrow> keeps I (doif b m)"
  by (cases b) (simp_all add: keeps_def valid_def run_doif split: prod.splits)

lemma keeps_option [keeping]:
  "(x = None \<Longrightarrow> keeps I m) \<Longrightarrow> (\<And>a. x = Some a \<Longrightarrow> keeps I (f a)) \<Longrightarrow> keeps I (case_option m f x)"
  by (cases x) simp_all

lemma keeps_sum [keeping]:
  "(\<And>e. x = Inl e \<Longrightarrow> keeps I (f e)) \<Longrightarrow> (\<And>a. x = Inr a \<Longrightarrow> keeps I (g a)) \<Longrightarrow> keeps I (case_sum f g x)"
  by (cases x) simp_all

lemma keeps_prod [keeping]: "(\<And>a b. x = (a, b) \<Longrightarrow> keeps I (f a b)) \<Longrightarrow> keeps I (case_prod f x)"
  by (cases x) simp

lemma keeps_let [keeping]: "(\<And>a. a = x \<Longrightarrow> keeps I (f a)) \<Longrightarrow> keeps I (Let x f)"
  by simp

text \<open>A call whose result carries a fact, about the result alone or about the state after it.\<close>

lemma keeps_result:
  assumes "valid I m (\<lambda>a s. I s \<and> R a)" and "\<And>a. R a \<Longrightarrow> keeps I (f a)"
  shows "keeps I (State_Monad.bind m f)"
  unfolding keeps_def
proof (rule valid_bind [OF assms(1)])
  fix a show "valid (\<lambda>s. I s \<and> R a) (f a) (\<lambda>_. I)"
    using assms(2) [of a] by (cases "R a") (auto simp: keeps_def valid_def)
qed

lemma keeps_then:
  assumes "valid I m (\<lambda>a s. I s \<and> R a s)" and "\<And>a. valid (\<lambda>s. I s \<and> R a s) (f a) (\<lambda>_. I)"
  shows "keeps I (State_Monad.bind m f)"
  using assms unfolding keeps_def by (rule valid_bind)

lemma keeps_pre: "keeps I m \<Longrightarrow> (\<And>s. P s \<Longrightarrow> I s) \<Longrightarrow> valid P m (\<lambda>_. I)"
  unfolding keeps_def by (rule valid_pre)

lemma valid_then_keeps:
  assumes "valid P m (\<lambda>_. I)" and "\<And>a. keeps I (f a)"
  shows "valid P (State_Monad.bind m f) (\<lambda>_. I)"
  using assms unfolding keeps_def by (rule valid_bind)

end
