(* ===== verification/Lcq_Node.thy ===== *)
theory Lcq_Node
  imports Lcq_Node_Frames Lcq_Monad Lcq_Budget Lcq_Queue Lcq_Radio
begin

text \<open>
  The running node of \<open>src/bin/lcq-node.rs\<close>: what \<open>main\<close> sets up, and the turn of its
  loop, in the order of the code: open the round or listen for it, close consultation,
  send what is due, ask for and resend what is missing, read one frame, and decide whether
  to stop. The state is the function's local variables; what the world answers (readings of
  the monotonic clock, the radio's polls and refusals, random draws) is a script in the
  state that each call reads from, so that a theorem about all scripts is one about
  all environments. The log lines and the millisecond's sleep are not modelled.
\<close>

section \<open>The world\<close>

text \<open>
  \<open>ev_aired\<close> is what was handed to the radio, with the budget's time of it. A script that
  has run out repeats the last reading, hears nothing, refuses nothing and draws zero.
\<close>

record Env =
  ev_now :: instant
  ev_readings :: "instant list"
  ev_polls :: "RadioEvent option list"
  ev_refusals :: "RadioError option list"
  ev_draws :: "u64 list"
  ev_aired :: "(u64 \<times> bytes) list"

record Node =
  nd_env :: Env
  nd_started :: instant
  nd_journal :: LogJournal
  nd_case :: Case
  nd_clock :: ScaledClock
  nd_budget :: AirtimeBudget
  nd_sent :: "bool list"
  nd_closed :: bool
  nd_began :: "instant option"
  nd_heard :: Heard
  nd_acknowledged :: bool
  nd_own_admitted :: "bool list"
  nd_nacked_rounds :: u64
  nd_repair_due :: "instant option"
  nd_repaired_round :: "u64 option"
  nd_forwards :: RadioQueue
  nd_round :: RoundId
  nd_split :: bool
  nd_foreign :: "nat bset"
  nd_evidence :: "bytes list"
  nd_next_due :: "instant option list"
  nd_early :: "(nat, bytes) btree"
  nd_equivocate_at :: "instant option"
  nd_captured :: "bytes option"
  nd_jam_next :: "instant option"
  nd_replay_next :: "instant option"
  nd_windows :: "ReplayWindow list"
  nd_attempts :: "nat list"
  nd_offsets :: "u64 list"
  nd_meter :: Meter

type_synonym 'a node = "(Node, 'a) state"

text \<open>The loop goes on, ends, or the process dies on a failed \<open>expect\<close>.\<close>

datatype Flow = Again | Stop | Panic

text \<open>\<open>Instant::now()\<close> never runs backwards.\<close>

definition read_instant :: "Env \<Rightarrow> instant \<times> Env" where
  "read_instant v =
     (case ev_readings v of
        [] \<Rightarrow> (ev_now v, v)
      | t # later \<Rightarrow> let t = max (ev_now v) t in (t, v\<lparr>ev_now := t, ev_readings := later\<rparr>))"

definition with_env :: "(Env \<Rightarrow> 'a \<times> Env) \<Rightarrow> 'a node" where
  "with_env f = State (\<lambda>w. case f (nd_env w) of (a, v) \<Rightarrow> (a, w\<lparr>nd_env := v\<rparr>))"

definition with_journal :: "(LogJournal \<Rightarrow> 'a \<times> LogJournal) \<Rightarrow> 'a node" where
  "with_journal f = State (\<lambda>w. case f (nd_journal w) of (a, j) \<Rightarrow> (a, w\<lparr>nd_journal := j\<rparr>))"

definition with_meter :: "(Meter \<Rightarrow> 'a \<times> Meter) \<Rightarrow> 'a node" where
  "with_meter f = State (\<lambda>w. case f (nd_meter w) of (a, mt) \<Rightarrow> (a, w\<lparr>nd_meter := mt\<rparr>))"

definition instant_now :: "instant node" where
  "instant_now = with_env read_instant"

text \<open>\<open>entropy_below\<close>\<close>

definition draw_below :: "u64 \<Rightarrow> Env \<Rightarrow> u64 \<times> Env" where
  "draw_below bound v =
     (if bound = 0 then (0, v)
      else case ev_draws v of [] \<Rightarrow> (0, v) | d # later \<Rightarrow> (d mod bound, v\<lparr>ev_draws := later\<rparr>))"

definition entropy_below :: "u64 \<Rightarrow> u64 node" where
  "entropy_below bound = with_env (draw_below bound)"

section \<open>The radio\<close>

definition radio_transmit :: "u64 \<Rightarrow> bytes \<Rightarrow> Env \<Rightarrow> RadioError option \<times> Env" where
  "radio_transmit now_ms bs v =
     (let v = v\<lparr>ev_aired := ev_aired v @ [(now_ms, bs)]\<rparr>
      in case ev_refusals v of [] \<Rightarrow> (None, v) | r # later \<Rightarrow> (r, v\<lparr>ev_refusals := later\<rparr>))"

text \<open>
  \<open>transmit\<close>: a frame goes out if the duty cycle allows it; the budget is spent whether
  the radio takes it or not.
\<close>

definition node_transmit :: "Ctx \<Rightarrow> bytes \<Rightarrow> bool node" where
  "node_transmit cx bs = do {
     t \<leftarrow> instant_now;
     started \<leftarrow> gets nd_started;
     budget \<leftarrow> gets nd_budget;
     let air = airtime_ms (length bs);
         now_ms = sat_mul (as_millis (since t started)) (ucast (o_scale (cx_opts cx)))
     in case transmit budget now_ms air of
          (True, b) \<Rightarrow> do {
            modify (nd_budget_update (\<lambda>_. b));
            refusal \<leftarrow> with_env (radio_transmit now_ms bs);
            State_Monad.return (refusal = None) }
        | (False, b) \<Rightarrow> do {
            modify (nd_budget_update (\<lambda>_. snd (used_ms b now_ms)));
            State_Monad.return False } }"

definition contains :: "string \<Rightarrow> string \<Rightarrow> bool" where
  "contains needle s \<longleftrightarrow> (\<exists>i \<in> set [0..<Suc (length s)]. take (length needle) (drop i s) = needle)"

text \<open>
  \<open>receive\<close> polls until the radio has a frame or has nothing; whatever else it says on
  the way is counted. An element of \<open>ev_polls\<close> is the answer to one poll.
\<close>

fun drain :: "RadioEvent option list \<Rightarrow> Meter \<Rightarrow> (bytes option \<times> RadioEvent option list) \<times> Meter" where
  "drain [] mt = ((None, []), mt)"
| "drain (None # later) mt = ((None, later), mt)"
| "drain (Some (EvReceived r) # later) mt = ((Some (rc_bytes r), later), mt)"
| "drain (Some (EvCrcError _) # later) mt = drain later (mt\<lparr>crc_errors := crc_errors mt + 1\<rparr>)"
| "drain (Some (EvHeaderError _) # later) mt = drain later (mt\<lparr>header_errors := header_errors mt + 1\<rparr>)"
| "drain (Some (EvNote body) # later) mt =
     drain later (if contains ''\"chip_missed\"'' body then mt\<lparr>chip_missed := chip_missed mt + 1\<rparr> else mt)"

definition node_receive :: "bytes option node" where
  "node_receive = do {
     polls \<leftarrow> gets (\<lambda>w. ev_polls (nd_env w));
     (frame, later) \<leftarrow> with_meter (drain polls);
     modify (nd_env_update (ev_polls_update (\<lambda>_. later)));
     State_Monad.return frame }"

section \<open>What one frame teaches\<close>

text \<open>\<open>windows[from].mark(sequence)\<close> and \<open>remember_seen\<close>, which always go together.\<close>

definition note_seen :: "Ctx \<Rightarrow> nat \<Rightarrow> u64 \<Rightarrow> unit node" where
  "note_seen cx m sequence = do {
     modify (nd_windows_update (\<lambda>ws. ws[m := mark (ws ! m) sequence]));
     modify (nd_journal_update (\<lambda>j. remember_seen cx j m sequence)) }"

definition clock_reading :: "timestamp node" where
  "clock_reading = do {
     t \<leftarrow> instant_now;
     clock \<leftarrow> gets nd_clock;
     State_Monad.return (clock_now clock t) }"

definition admit_frame :: "Ctx \<Rightarrow> bytes \<Rightarrow> Admitted node" where
  "admit_frame cx frame = do {
     stamp \<leftarrow> clock_reading;
     c \<leftarrow> gets nd_case;
     (learned, c) \<leftarrow> with_meter (\<lambda>mt. case admit cx mt stamp frame c of (ad, c, mt) \<Rightarrow> ((ad, c), mt));
     modify (nd_case_update (\<lambda>_. c));
     State_Monad.return learned }"

text \<open>A binding vote refused for arriving while this node still consults is held, one per member.\<close>

definition hold_early :: "Admitted \<Rightarrow> bytes \<Rightarrow> unit node" where
  "hold_early learned frame =
     (case ad_verified learned of
        None \<Rightarrow> State_Monad.return ()
      | Some (from, _) \<Rightarrow>
          doif (ad_refused learned = Some WrongStageForPhase \<and> ad_stage_index learned = Some 2)
            (modify (nd_early_update (bt_insert from frame))))"

definition count_vote :: "Ctx \<Rightarrow> Admitted \<Rightarrow> bytes \<Rightarrow> unit node" where
  "count_vote cx learned frame =
     (case ad_binding_from learned of
        None \<Rightarrow> State_Monad.return ()
      | Some from \<Rightarrow> do {
          modify (nd_heard_update (\<lambda>h. heard_from h from));
          modify (nd_journal_update (\<lambda>j. snd (log_witness (cx_pc cx) j (member_id cx from) frame))) })"

definition note_acknowledged :: "Ctx \<Rightarrow> Admitted \<Rightarrow> unit node" where
  "note_acknowledged cx learned =
     doif (ad_acknowledges_us learned \<and> \<not> o_ignore_acks (cx_opts cx))
       (modify (nd_acknowledged_update (\<lambda>_. True)))"

section \<open>Opening a round, or joining one\<close>

definition new_clock :: "Ctx \<Rightarrow> unit node" where
  "new_clock cx = do {
     t \<leftarrow> instant_now;
     modify (nd_clock_update (\<lambda>_. clock_new t (o_clock_epoch (cx_opts cx)) (o_scale (cx_opts cx)) (o_offset (cx_opts cx)))) }"

definition open_round :: "Ctx \<Rightarrow> Flow node" where
  "open_round cx = do {
     w \<leftarrow> gets (\<lambda>w. w);
     t \<leftarrow> instant_now;
     if nd_began w = None \<and> since t (nd_started w) \<ge> open_deadline (cx_opts cx) (nd_clock w)
     then (let q = j_next_sequence (log_state (nd_journal w)) in
       if unat q \<ge> 2 ^ 32 then State_Monad.return Panic
       else (let rnd = round_new (author_of (o_index (cx_opts cx))) (ucast q) in do {
         modify (nd_round_update (\<lambda>_. rnd));
         r \<leftarrow> with_journal (\<lambda>j. build_trigger cx j rnd);
         case r of
           Inl _ \<Rightarrow> State_Monad.return Again
         | Inr bs \<Rightarrow> do {
             node_transmit cx bs;
             t \<leftarrow> instant_now;
             modify (nd_began_update (\<lambda>_. Some (t + from_millis (wall_ms (nd_clock w) (airtime_ms (length bs))))));
             new_clock cx;
             t \<leftarrow> instant_now;
             doif (o_adversary (cx_opts cx) = Equivocate)
               (modify (nd_equivocate_at_update (\<lambda>_. Some (t + 2000000000))));
             State_Monad.return Again } }))
     else State_Monad.return Again }"

definition join_opened :: "Ctx \<Rightarrow> RoundId \<times> nat \<times> u64 \<Rightarrow> unit node" where
  "join_opened cx = (\<lambda>(opened, opener, sequence). do {
     note_seen cx opener sequence;
     modify (nd_round_update (\<lambda>_. opened));
     t \<leftarrow> instant_now;
     modify (nd_began_update (\<lambda>_. Some t));
     new_clock cx })"

definition join_late :: "Ctx \<Rightarrow> bytes \<Rightarrow> LateAnchor \<Rightarrow> unit node" where
  "join_late cx frame late = do {
     note_seen cx (la_author late) (la_sequence late);
     modify (nd_round_update (\<lambda>_. la_round late));
     modify (nd_began_update (\<lambda>_. Some (la_origin late)));
     modify (nd_clock_update (\<lambda>_. anchored_at (la_origin late) (o_clock_epoch (cx_opts cx))
       (o_scale (cx_opts cx)) (o_offset (cx_opts cx))));
     learned \<leftarrow> admit_frame cx frame;
     hold_early learned frame;
     count_vote cx learned frame;
     note_acknowledged cx learned }"

definition node_listen :: "Ctx \<Rightarrow> unit node" where
  "node_listen cx = do {
     received \<leftarrow> node_receive;
     case received of
       None \<Rightarrow> State_Monad.return ()
     | Some frame \<Rightarrow> do {
         windows \<leftarrow> gets nd_windows;
         if is_replay frame windows then State_Monad.return ()
         else do {
           outside \<leftarrow> with_meter (\<lambda>mt. from_outside_the_fleet (o_fleet (cx_opts cx)) mt frame);
           if outside then State_Monad.return ()
           else do {
             opening \<leftarrow> with_meter (\<lambda>mt. trigger_round cx mt frame);
             case opening of
               Some opened \<Rightarrow> join_opened cx opened
             | None \<Rightarrow> do {
                 t \<leftarrow> instant_now;
                 clock \<leftarrow> gets nd_clock;
                 late \<leftarrow> with_meter (\<lambda>mt. late_anchor cx mt (starts (cx_opts cx)) clock t frame);
                 case late of None \<Rightarrow> State_Monad.return () | Some l \<Rightarrow> join_late cx frame l } } } } }"

section \<open>Closing consultation\<close>

text \<open>\<open>mem::take(&mut early)\<close>, in the map's order.\<close>

fun drain_early :: "Ctx \<Rightarrow> (nat \<times> bytes) list \<Rightarrow> unit node" where
  "drain_early cx [] = State_Monad.return ()"
| "drain_early cx ((_, held) # later) = do {
     learned \<leftarrow> admit_frame cx held;
     count_vote cx learned held;
     note_acknowledged cx learned;
     drain_early cx later }"

definition node_close :: "Ctx \<Rightarrow> unit node" where
  "node_close cx = do {
     w \<leftarrow> gets (\<lambda>w. w);
     stamp \<leftarrow> clock_reading;
     if \<not> nd_closed w \<and> certainly_after stamp (consultation_cutoff (cx_subject cx))
     then do {
       stamp \<leftarrow> clock_reading;
       c \<leftarrow> gets nd_case;
       case close_consultation c stamp of
         (Inr _, c) \<Rightarrow> do {
           modify (nd_case_update (\<lambda>_. c));
           modify (nd_closed_update (\<lambda>_. True));
           early \<leftarrow> gets nd_early;
           modify (nd_early_update (\<lambda>_. []));
           drain_early cx early }
       | (Inl _, c) \<Rightarrow> modify (nd_case_update (\<lambda>_. c)) }
     else State_Monad.return () }"


section \<open>Sending what is due\<close>

text \<open>When attempt \<open>n\<close> of stage \<open>k\<close> is due, \<open>jitter\<close> milliseconds late.\<close>

definition attempt_due :: "Ctx \<Rightarrow> Node \<Rightarrow> instant \<Rightarrow> nat \<Rightarrow> nat \<Rightarrow> u64 \<Rightarrow> instant" where
  "attempt_due cx w anchor k n jitter =
     anchor + from_millis (nd_offsets w ! k + of_nat n * retry_gap_ms (cx_opts cx) (nd_clock w) + jitter)"

text \<open>The slot has gone: the attempt is spent, the next one waits for the next window.\<close>

definition miss_slot :: "Ctx \<Rightarrow> instant \<Rightarrow> nat \<Rightarrow> unit node" where
  "miss_slot cx anchor k = do {
     modify (nd_attempts_update (\<lambda>as. as[k := as ! k + 1]));
     modify (\<lambda>w. w\<lparr>nd_next_due := (nd_next_due w)[k := Some (attempt_due cx w anchor k (nd_attempts w ! k) 0)]\<rparr>) }"

definition give_up :: "nat \<Rightarrow> nat \<Rightarrow> unit node" where
  "give_up k allowed = do {
     modify (nd_sent_update (\<lambda>ss. ss[k := True]));
     modify (nd_attempts_update (\<lambda>as. as[k := allowed])) }"

definition send_stage :: "Ctx \<Rightarrow> instant \<Rightarrow> nat \<Rightarrow> nat \<Rightarrow> bytes \<Rightarrow> unit node" where
  "send_stage cx anchor k allowed bs = do {
     node_transmit cx bs;
     modify (nd_attempts_update (\<lambda>as. as[k := as ! k + 1]));
     (case peek_frame_header bs of
        Inl _ \<Rightarrow> State_Monad.return ()
      | Inr (_, sequence) \<Rightarrow> note_seen cx (o_index (cx_opts cx)) sequence);
     w \<leftarrow> gets (\<lambda>w. w);
     jitter \<leftarrow> (if nd_split w then entropy_below (wall_ms (nd_clock w) (stage_window_s (cx_opts cx) * 1000))
                else State_Monad.return 0);
     modify (\<lambda>w. w\<lparr>nd_next_due := (nd_next_due w)[k := Some (attempt_due cx w anchor k (nd_attempts w ! k) jitter)]\<rparr>);
     doif (\<not> nd_own_admitted w ! k) (do {
       modify (nd_own_admitted_update (\<lambda>os. os[k := True]));
       learned \<leftarrow> admit_frame cx bs;
       case ad_binding_from learned of
         None \<Rightarrow> State_Monad.return ()
       | Some from \<Rightarrow> modify (nd_heard_update (\<lambda>h. heard_from h from)) });
     doif (allowed = 1) (modify (nd_sent_update (\<lambda>ss. ss[k := True]))) }"

definition stage_turn :: "Ctx \<Rightarrow> instant \<Rightarrow> nat \<Rightarrow> Stage \<Rightarrow> unit node" where
  "stage_turn cx anchor k stg = do {
     w \<leftarrow> gets (\<lambda>w. w);
     let allowed = (if stg = BindingSupport then o_attempts (cx_opts cx) else 1);
         due = (case nd_next_due w ! k of None \<Rightarrow> anchor + from_millis (nd_offsets w ! k) | Some d \<Rightarrow> d);
         slot_wall = from_millis (wall_ms (nd_clock w) (slot_ms (cx_opts cx)))
     in if nd_attempts w ! k \<ge> allowed \<or> nd_sent w ! k then State_Monad.return ()
        else do {
          t \<leftarrow> instant_now;
          if t < due then State_Monad.return ()
          else if stg = BindingSupport \<and> \<not> nd_closed w then State_Monad.return ()
          else do {
            t \<leftarrow> instant_now;
            if t > due + slot_wall then miss_slot cx anchor k
            else if stg = BindingSupport \<and> nd_attempts w ! k > 0 \<and> nd_acknowledged w
            then modify (nd_sent_update (\<lambda>ss. ss[k := True]))
            else do {
              built \<leftarrow> with_journal (\<lambda>j. build cx stg j (nd_heard w) (nd_round w));
              case built of
                Inl _ \<Rightarrow> give_up k allowed
              | Inr bs \<Rightarrow> send_stage cx anchor k allowed bs } } } }"

definition node_send :: "Ctx \<Rightarrow> instant \<Rightarrow> unit node" where
  "node_send cx anchor =
     (if o_adversary (cx_opts cx) = Jam then State_Monad.return ()
      else do {
        stage_turn cx anchor 0 Independent;
        stage_turn cx anchor 1 Consultation;
        stage_turn cx anchor 2 BindingSupport })"

section \<open>Repair rounds\<close>

definition repair_start :: "Ctx \<Rightarrow> Node \<Rightarrow> instant \<Rightarrow> instant" where
  "repair_start cx w anchor = anchor + repair_offset (cx_opts cx) (nd_clock w)"

definition round_at :: "Ctx \<Rightarrow> Node \<Rightarrow> instant \<Rightarrow> instant \<Rightarrow> u64 option" where
  "round_at cx w anchor t =
     (if t < repair_start cx w anchor then None
      else let pair = max 1 (window_wall (cx_opts cx) (nd_clock w) div 1000000 * 2);
               i = ((t - repair_start cx w anchor) div 1000000) div pair;
               index = (if i < 2 ^ 64 then word_of_int i else - 1)
           in if index < REPAIR_ROUNDS then Some index else None)"

definition repair_round :: "Ctx \<Rightarrow> instant \<Rightarrow> u64 option node" where
  "repair_round cx anchor = do {
     t \<leftarrow> instant_now;
     gets (\<lambda>w. round_at cx w anchor t) }"

definition missing_votes :: "Ctx \<Rightarrow> Heard \<Rightarrow> nat list" where
  "missing_votes cx heard =
     filter (\<lambda>m. m \<noteq> o_index (cx_opts cx) \<and> \<not> heard_contains heard m) [0..<o_fleet (cx_opts cx)]"

definition node_ask :: "Ctx \<Rightarrow> instant \<Rightarrow> unit node" where
  "node_ask cx anchor = do {
     w \<leftarrow> gets (\<lambda>w. w);
     if nd_closed w \<and> o_adversary (cx_opts cx) \<noteq> Jam
     then do {
       r \<leftarrow> repair_round cx anchor;
       case r of
         None \<Rightarrow> State_Monad.return ()
       | Some index \<Rightarrow> do {
           t \<leftarrow> instant_now;
           doif (nd_nacked_rounds w \<le> index
               \<and> t \<ge> repair_start cx w anchor + window_wall (cx_opts cx) (nd_clock w) * 2 * uint index
                     + own_slot (cx_opts cx) (nd_clock w)) (do {
             modify (nd_nacked_rounds_update (\<lambda>_. index + 1));
             doif (missing_votes cx (nd_heard w) \<noteq> []) (do {
               built \<leftarrow> with_journal (\<lambda>j. build_nack cx j (nd_heard w) (nd_round w));
               case built of
                 Inl _ \<Rightarrow> State_Monad.return ()
               | Inr bs \<Rightarrow> do { node_transmit cx bs; State_Monad.return () } }) }) } }
     else State_Monad.return () }"

definition node_resend :: "Ctx \<Rightarrow> unit node" where
  "node_resend cx = do {
     due \<leftarrow> gets nd_repair_due;
     t \<leftarrow> instant_now;
     case due of
       None \<Rightarrow> State_Monad.return ()
     | Some d \<Rightarrow> doif (t \<ge> d) (do {
         modify (nd_repair_due_update (\<lambda>_. None));
         q \<leftarrow> gets nd_forwards;
         case take_next q of
           (None, q) \<Rightarrow> modify (nd_forwards_update (\<lambda>_. q))
         | (Some carried, q) \<Rightarrow> do {
             modify (nd_forwards_update (\<lambda>_. q));
             node_transmit cx (frame_bytes carried);
             State_Monad.return () } }) }"

text \<open>One frame offered to the queue under its \<open>forward_key\<close>, and counted if it was taken.\<close>

definition offer_frame :: "nat \<Rightarrow> bytes \<Rightarrow> Priority \<Rightarrow> nat \<times> RadioQueue \<Rightarrow> nat \<times> RadioQueue" where
  "offer_frame held bs priority = (\<lambda>(queued, q).
     case peek_frame_header bs of
       Inl _ \<Rightarrow> (queued, q)
     | Inr (_, sequence) \<Rightarrow>
         let key = forward_key held sequence
         in case offer (forget q key) (frame_new bs key) priority of
              (Inr _, q) \<Rightarrow> (queued + 1, q)
            | (Inl _, q) \<Rightarrow> (queued, q))"

definition carry_witnessed :: "Ctx \<Rightarrow> Admitted \<Rightarrow> nat \<Rightarrow> nat \<times> RadioQueue \<Rightarrow> string \<times> bytes \<Rightarrow> nat \<times> RadioQueue" where
  "carry_witnessed cx learned from acc = (\<lambda>(a, bs).
     case member_index cx a of
       None \<Rightarrow> acc
     | Some held \<Rightarrow>
         if held = from \<or> heard_contains (ad_heard learned) held then acc
         else offer_frame held bs Routine acc)"

text \<open>What a repair request makes this node queue: carried votes first, its own vote above them.\<close>

definition queue_answer :: "Ctx \<Rightarrow> Admitted \<Rightarrow> nat \<Rightarrow> LogJournal \<Rightarrow> RadioQueue \<Rightarrow> nat \<times> RadioQueue" where
  "queue_answer cx learned from j q =
     (let own = o_index (cx_opts cx);
          owes_own = (\<not> heard_contains (ad_heard learned) own \<and> log_has_voted j (cx_subject cx) (member_id cx own));
          acc = (if heard_contains (ad_heard learned) own
                 then foldl (carry_witnessed cx learned from) (0, q) (j_witnessed (log_state j))
                 else (0, q))
      in if owes_own
         then (case first_pending j of None \<Rightarrow> acc | Some again \<Rightarrow> offer_frame own (frame_bytes again) Distress acc)
         else acc)"

definition answer_request :: "Ctx \<Rightarrow> instant \<Rightarrow> Admitted \<Rightarrow> nat \<Rightarrow> unit node" where
  "answer_request cx anchor learned from =
     doif (ad_nack learned) (do {
       r \<leftarrow> repair_round cx anchor;
       case r of
         None \<Rightarrow> State_Monad.return ()
       | Some index \<Rightarrow> do {
           w \<leftarrow> gets (\<lambda>w. w);
           doif (nd_repaired_round w \<noteq> Some index)
             (case queue_answer cx learned from (nd_journal w) (nd_forwards w) of
                (queued, q) \<Rightarrow> do {
                  modify (nd_forwards_update (\<lambda>_. q));
                  doif (queued > 0) (do {
                    modify (nd_repaired_round_update (\<lambda>_. Some index));
                    modify (nd_repair_due_update (\<lambda>_. Some (repair_start cx w anchor
                      + window_wall (cx_opts cx) (nd_clock w) * (2 * uint index + 1)
                      + own_slot (cx_opts cx) (nd_clock w)))) }) }) } })"


section \<open>Reading one frame\<close>

text \<open>A second, validly signed opening is kept as evidence, and its opener as one who disagrees.\<close>

definition hear_opening :: "Ctx \<Rightarrow> bytes \<Rightarrow> RoundId \<times> nat \<times> u64 \<Rightarrow> unit node" where
  "hear_opening cx frame = (\<lambda>(other, opener, sequence). do {
     note_seen cx opener sequence;
     w \<leftarrow> gets (\<lambda>w. w);
     doif (other \<noteq> nd_round w) (do {
       doif (length (nd_evidence w) < 4) (modify (nd_evidence_update (\<lambda>es. es @ [frame])));
       modify (nd_foreign_update (bt_insert opener ())) });
     modify (\<lambda>w. w\<lparr>nd_split := note_split (nd_split w) (nd_foreign w)\<rparr>) })"

text \<open>
  Whether a frame heard at \<open>t\<close> says that its sender counts from another instant: more than
  a slot off this node's anchor, modulo the window.
\<close>

definition off_anchor :: "Ctx \<Rightarrow> Node \<Rightarrow> instant \<Rightarrow> instant \<Rightarrow> nat \<Rightarrow> nat \<Rightarrow> nat \<Rightarrow> bool" where
  "off_anchor cx w anchor t s from len =
     (let opts = cx_opts cx; clock = nd_clock w;
          travel = from_millis (wall_ms clock (starts opts ! s * 1000 + slot_ms opts * of_nat from + airtime_ms len));
          drift = \<bar>(t - travel) - anchor\<bar>;
          window = max 1 (wall_ms clock (stage_window_s opts * 1000));
          residue = as_millis drift mod window
      in min residue (window - residue) > wall_ms clock (slot_ms opts))"

definition disagrees :: "Ctx \<Rightarrow> instant \<Rightarrow> Admitted \<Rightarrow> nat \<Rightarrow> nat \<Rightarrow> bool node" where
  "disagrees cx anchor learned from len = do {
     w \<leftarrow> gets (\<lambda>w. w);
     let by_label = (round_is_set (ad_round learned) \<and> ad_round learned \<noteq> nd_round w)
     in if \<not> o_slots (cx_opts cx) then State_Monad.return by_label
        else do {
          r \<leftarrow> repair_round cx anchor;
          t \<leftarrow> instant_now;
          if r \<noteq> None \<or> \<not> t < repair_start cx w anchor then State_Monad.return by_label
          else case ad_stage_index learned of
                 None \<Rightarrow> State_Monad.return by_label
               | Some s \<Rightarrow> do {
                   t \<leftarrow> instant_now;
                   State_Monad.return (by_label \<or> off_anchor cx w anchor t s from len) } } }"

definition learn_sender :: "Ctx \<Rightarrow> instant \<Rightarrow> Admitted \<Rightarrow> bytes \<Rightarrow> unit node" where
  "learn_sender cx anchor learned frame =
     (case ad_verified learned of
        None \<Rightarrow> State_Monad.return ()
      | Some (from, sequence) \<Rightarrow> do {
          note_seen cx from sequence;
          hold_early learned frame;
          answer_request cx anchor learned from;
          foreign \<leftarrow> disagrees cx anchor learned from (length frame);
          doif foreign (modify (nd_foreign_update (bt_insert from ())));
          modify (\<lambda>w. w\<lparr>nd_split := note_split (nd_split w) (nd_foreign w)\<rparr>) })"

text \<open>\<open>True\<close> is the loop's \<open>continue\<close>: this turn does not ask whether it is over.\<close>

definition hear_frame :: "Ctx \<Rightarrow> instant \<Rightarrow> bytes \<Rightarrow> bool node" where
  "hear_frame cx anchor frame = do {
     windows \<leftarrow> gets nd_windows;
     if is_replay frame windows
     then with_meter (\<lambda>mt. (True, mt\<lparr>replays_dropped := replays_dropped mt + 1\<rparr>))
     else do {
       outside \<leftarrow> with_meter (\<lambda>mt. from_outside_the_fleet (o_fleet (cx_opts cx)) mt frame);
       if outside then State_Monad.return True
       else do {
         opening \<leftarrow> with_meter (\<lambda>mt. trigger_round cx mt frame);
         case opening of
           Some opened \<Rightarrow> do { hear_opening cx frame opened; State_Monad.return True }
         | None \<Rightarrow> do {
             learned \<leftarrow> admit_frame cx frame;
             doif (o_adversary (cx_opts cx) = Replay)
               (modify (nd_captured_update (\<lambda>held. if held = None then Some frame else held)));
             learn_sender cx anchor learned frame;
             count_vote cx learned frame;
             note_acknowledged cx learned;
             State_Monad.return False } } } }"

definition node_hear :: "Ctx \<Rightarrow> instant \<Rightarrow> bool node" where
  "node_hear cx anchor = do {
     received \<leftarrow> node_receive;
     case received of
       None \<Rightarrow> State_Monad.return False
     | Some frame \<Rightarrow> hear_frame cx anchor frame }"

section \<open>What a compromised member does\<close>

definition node_equivocate :: "Ctx \<Rightarrow> unit node" where
  "node_equivocate cx = do {
     due \<leftarrow> gets nd_equivocate_at;
     t \<leftarrow> instant_now;
     case due of
       None \<Rightarrow> State_Monad.return ()
     | Some d \<Rightarrow> doif (t \<ge> d) (do {
         modify (nd_equivocate_at_update (\<lambda>_. None));
         q \<leftarrow> gets (\<lambda>w. j_next_sequence (log_state (nd_journal w)));
         built \<leftarrow> with_journal (\<lambda>j. build_trigger cx j
           (round_new (author_of (o_index (cx_opts cx))) (if unat q < 2 ^ 32 then ucast q else - 1)));
         case built of
           Inl _ \<Rightarrow> State_Monad.return ()
         | Inr bs \<Rightarrow> do { node_transmit cx bs; State_Monad.return () } }) }"

fun draw_junk :: "nat \<Rightarrow> nat \<Rightarrow> bytes node" where
  "draw_junk i 0 = State_Monad.return []"
| "draw_junk i (Suc n) = do {
     d \<leftarrow> entropy_below 256;
     rest \<leftarrow> draw_junk (Suc i) n;
     State_Monad.return ((ucast d XOR of_nat (i mod 256)) # rest) }"

definition node_jam :: "Ctx \<Rightarrow> instant \<Rightarrow> unit node" where
  "node_jam cx anchor =
     doif (o_adversary (cx_opts cx) = Jam) (do {
       w \<leftarrow> gets (\<lambda>w. w);
       let opts = cx_opts cx; target = (o_index opts + 1) mod o_fleet opts;
           first = anchor + from_millis (wall_ms (nd_clock w) (starts opts ! 2 * 1000 + slot_ms opts * of_nat target));
           due = (case nd_jam_next w of None \<Rightarrow> first | Some d \<Rightarrow> d)
       in do {
         modify (nd_jam_next_update (\<lambda>_. Some due));
         t \<leftarrow> instant_now;
         doif (t \<ge> due) (do {
           junk \<leftarrow> draw_junk 0 (MAX_FRAME_BYTES - 8);
           node_transmit cx junk;
           modify (nd_jam_next_update (\<lambda>_. Some (due + from_millis (retry_gap_ms opts (nd_clock w))))) }) } })"

definition node_replay :: "Ctx \<Rightarrow> instant \<Rightarrow> unit node" where
  "node_replay cx anchor = do {
     w \<leftarrow> gets (\<lambda>w. w);
     case nd_captured w of
       None \<Rightarrow> State_Monad.return ()
     | Some old \<Rightarrow> doif (o_adversary (cx_opts cx) = Replay) (
         let opts = cx_opts cx;
             due = (case nd_replay_next w of
                      None \<Rightarrow> anchor + from_millis (wall_ms (nd_clock w) (starts opts ! 2 * 1000)) | Some d \<Rightarrow> d)
         in do {
           modify (nd_replay_next_update (\<lambda>_. Some due));
           t \<leftarrow> instant_now;
           doif (t \<ge> due) (do {
             node_transmit cx old;
             modify (nd_replay_next_update (\<lambda>_.
               Some (due + from_millis (wall_ms (nd_clock w) (stage_window_s opts * 370))))) }) }) }"

section \<open>The loop\<close>

definition endorsed_by :: "Ctx \<Rightarrow> Case \<Rightarrow> bool" where
  "endorsed_by cx c =
     (case evaluate (fl_policy (cx_fleet cx)) (binding_supporters c) of Inl _ \<Rightarrow> False | Inr r \<Rightarrow> approved r)"

definition node_over :: "Ctx \<Rightarrow> instant \<Rightarrow> bool node" where
  "node_over cx anchor = do {
     t \<leftarrow> instant_now;
     w \<leftarrow> gets (\<lambda>w. w);
     let endorsed_now = (t \<ge> anchor + from_millis (wall_ms (nd_clock w) (finish (cx_opts cx) * 1000))
                         \<and> endorsed_by cx (nd_case w))
     in do {
       t \<leftarrow> instant_now;
       State_Monad.return
         (t \<ge> anchor + from_millis (wall_ms (nd_clock w) (ENDORSEMENT_TARGET_SECONDS * 1000)) \<or> endorsed_now) } }"

text \<open>A turn in a round, and any turn.\<close>

definition node_round :: "Ctx \<Rightarrow> instant \<Rightarrow> Flow node" where
  "node_round cx anchor = do {
     node_equivocate cx;
     node_jam cx anchor;
     node_replay cx anchor;
     node_close cx;
     node_send cx anchor;
     node_ask cx anchor;
     node_resend cx;
     skipped \<leftarrow> node_hear cx anchor;
     if skipped then State_Monad.return Again
     else do {
       over \<leftarrow> node_over cx anchor;
       State_Monad.return (if over then Stop else Again) } }"

definition node_turn :: "Ctx \<Rightarrow> Flow node" where
  "node_turn cx = do {
     flow \<leftarrow> open_round cx;
     began \<leftarrow> gets nd_began;
     if flow = Panic then State_Monad.return Panic
     else case began of
       None \<Rightarrow> do { node_listen cx; State_Monad.return Again }
     | Some anchor \<Rightarrow> node_round cx anchor }"

fun node_run :: "Ctx \<Rightarrow> nat \<Rightarrow> Flow node" where
  "node_run cx 0 = State_Monad.return Again"
| "node_run cx (Suc fuel) = do {
     flow \<leftarrow> node_turn cx;
     if flow = Again then node_run cx fuel else State_Monad.return flow }"


end
