(* ===== verification/Lcq_Boot.thy ===== *)
theory Lcq_Boot
  imports Lcq_Node Lcq_Manifest Lcq_Hand Lcq_Evaluation
begin

text \<open>
  How a node of \<open>src/bin/lcq-node.rs\<close> comes up: reading the fleet and the keys, from a
  signed manifest or from the harness derivation, and \<open>main\<close> up to its loop. Files are
  given by their contents; whatever stops the process with a message is an error value.
\<close>

section \<open>Keys and fleet\<close>

definition GROUP_KEY :: bytes where
  "GROUP_KEY = replicate 32 0x5a"

definition seed_for :: "nat \<Rightarrow> bytes" where
  "seed_for index = be_bytes 8 (of_nat index + 1 :: u64) @ replicate 24 0"

datatype ProvisionError =
    FleetRefused PolicyError
  | NoAdminKey
  | AdminKeyUnreadable
  | AdminKeyMistyped HandError
  | AdminKeyNotAKey
  | ManifestUnreadable
  | ManifestRefused ManifestError
  | IndexOutsideManifest
  | SeedUnreadable
  | SeedShared u32
  | SeedLength
  | SeedNotHex
  | KeyNotNamed

record Provisioned =
  pv_fleet :: Fleet
  pv_keyring :: "VerifyingKey list"
  pv_signing :: SigningKey
  pv_group :: GroupKey
  pv_admin :: "code_point list option"
  pv_digest :: "bytes option"

text \<open>A digit of \<open>u8::from_str_radix(_, 16)\<close>, which also takes a leading plus sign.\<close>

definition radix_digit :: "char \<Rightarrow> u8 option" where
  "radix_digit c =
     (let b = (of_char c :: nat)
      in if 48 \<le> b \<and> b \<le> 57 then Some (of_nat (b - 48))
         else if 97 \<le> b \<and> b \<le> 102 then Some (of_nat (b - 87))
         else if 65 \<le> b \<and> b \<le> 70 then Some (of_nat (b - 55)) else None)"

definition radix_pair :: "char \<Rightarrow> char \<Rightarrow> u8 option" where
  "radix_pair a b =
     (if a = CHR ''+'' then radix_digit b
      else case (radix_digit a, radix_digit b) of (Some x, Some y) \<Rightarrow> Some (16 * x + y) | _ \<Rightarrow> None)"

fun radix_pairs :: "string \<Rightarrow> bytes option" where
  "radix_pairs (a # b # rest) =
     (case radix_pair a b of None \<Rightarrow> None | Some x \<Rightarrow> map_option ((#) x) (radix_pairs rest))"
| "radix_pairs [] = Some []"
| "radix_pairs [a] = None"

text \<open>The file's mode and text, each \<open>None\<close> if it cannot be read.\<close>

definition read_seed :: "u32 option \<Rightarrow> code_point list option \<Rightarrow> (ProvisionError, bytes) result" where
  "read_seed mode content =
     (case mode of
        None \<Rightarrow> Inl SeedUnreadable
      | Some md \<Rightarrow>
          if md AND 63 \<noteq> 0 then Inl (SeedShared (md AND 511))
          else case content of
                 None \<Rightarrow> Inl SeedUnreadable
               | Some t \<Rightarrow>
                   let trimmed = as_bytes (str_trim t)
                   in if length trimmed \<noteq> 64 then Inl SeedLength
                      else case radix_pairs trimmed of None \<Rightarrow> Inl SeedNotHex | Some seed \<Rightarrow> Inr seed)"

definition provision_harness :: "primitives \<Rightarrow> Options \<Rightarrow> (ProvisionError, Provisioned) result" where
  "provision_harness p opts =
     (case fleet_uniform (o_fleet opts) of
        Inl e \<Rightarrow> Inl (FleetRefused e)
      | Inr fleet \<Rightarrow> Inr \<lparr>pv_fleet = fleet,
          pv_keyring = map (\<lambda>i. verifying_key p (from_seed (seed_for i))) [0..<o_fleet opts],
          pv_signing = from_seed (seed_for (o_index opts)), pv_group = gk_from_bytes GROUP_KEY,
          pv_admin = None, pv_digest = None\<rparr>)"

text \<open>
  \<open>signing_file\<close> is \<open>None\<close> without \<open>--signing-key\<close>, \<open>admin_file\<close> without \<open>--admin-key\<close>;
  \<open>now\<close> is the system clock's reading.
\<close>

definition provision_manifest ::
  "primitives \<Rightarrow> Options \<Rightarrow> code_point list option \<Rightarrow> code_point list option option
    \<Rightarrow> (u32 option \<times> code_point list option) option \<Rightarrow> u64 \<Rightarrow> (ProvisionError, Provisioned) result" where
  "provision_manifest p opts manifest_file admin_file signing_file now =
     (case admin_file of
        None \<Rightarrow> Inl NoAdminKey
      | Some None \<Rightarrow> Inl AdminKeyUnreadable
      | Some (Some typed) \<Rightarrow>
     (case hand_decode (blake2s p) typed of
        Inl e \<Rightarrow> Inl (AdminKeyMistyped e)
      | Inr admin_bytes \<Rightarrow>
     (case vk_from_bytes p admin_bytes of
        Inl _ \<Rightarrow> Inl AdminKeyNotAKey
      | Inr admin \<Rightarrow>
     (case manifest_file of
        None \<Rightarrow> Inl ManifestUnreadable
      | Some t \<Rightarrow>
     (case manifest_parse p t of
        Inl e \<Rightarrow> Inl (ManifestRefused e)
      | Inr mf \<Rightarrow>
     (case manifest_verify p mf admin now of
        Inl e \<Rightarrow> Inl (ManifestRefused e)
      | Inr _ \<Rightarrow>
     (if \<not> o_index opts < length (mf_members mf) then Inl IndexOutsideManifest
      else case (case signing_file of
                   Some (mode, content) \<Rightarrow> read_seed mode content
                 | None \<Rightarrow> Inr (seed_for (o_index opts))) of
        Inl e \<Rightarrow> Inl e
      | Inr seed \<Rightarrow>
          if Some (verifying_key p (from_seed seed)) \<noteq> key_of mf (o_index opts) then Inl KeyNotNamed
          else case fleet_from_manifest mf of
            Inl e \<Rightarrow> Inl (FleetRefused e)
          | Inr fleet \<Rightarrow> Inr \<lparr>pv_fleet = fleet, pv_keyring = map mb_key (mf_members mf),
              pv_signing = from_seed seed, pv_group = fixture_for_epoch p (mf_group_key_id mf) (mf_epoch mf),
              pv_admin = Some (fingerprint (blake2s p) admin_bytes), pv_digest = Some (manifest_digest p mf)\<rparr>)))))))"

section \<open>Up to the loop\<close>

datatype BootError =
    NotAMember | FleetTooLarge | ScaleZero | JournalUnopened | EpochRolledBack u16 | EpochNotDurable
  | ScheduleUnfit u64

text \<open>What the process is built from once the fleet is known; the manifest's size wins.\<close>

definition node_subject :: "Options \<Rightarrow> Subject" where
  "node_subject opts = \<lparr>mission = ''mission'', event = ''evt-1'', revision = 0, content_hash = CONTENT_HASH,
     started_at = o_clock_epoch opts\<rparr>"

definition node_ctx :: "primitives \<Rightarrow> SignedCompactEnvelope serializer \<Rightarrow> postcard \<Rightarrow> Options \<Rightarrow> Provisioned \<Rightarrow> Ctx" where
  "node_ctx p codec pc opts pv =
     (let opts = opts\<lparr>o_fleet := fleet_size (pv_fleet pv)\<rparr>
      in \<lparr>cx_prim = p, cx_ser = codec, cx_pc = pc, cx_fleet = pv_fleet pv, cx_subject = node_subject opts,
          cx_keyring = pv_keyring pv, cx_signing = pv_signing pv,
          cx_forged = (if o_adversary opts = Forge
            then Some (from_seed (seed_for ((o_index opts + 1) mod o_fleet opts))) else None),
          cx_group = pv_group pv, cx_opts = opts\<rparr>)"

text \<open>The journal, opened and moved to the fleet's epoch; \<open>ws\<close> and \<open>cs\<close> are what its disk will do.\<close>

definition boot_journal ::
  "Ctx \<Rightarrow> bytes \<Rightarrow> bool \<Rightarrow> u64 \<Rightarrow> io list \<Rightarrow> compact_io list \<Rightarrow> (BootError, LogJournal) result" where
  "boot_journal cx file_bytes io_ok entropy ws cs =
     (case open_with_entropy (cx_pc cx) file_bytes io_ok entropy of
        Inl _ \<Rightarrow> Inl JournalUnopened
      | Inr j \<Rightarrow>
          let j = j\<lparr>writes := ws, compactions := cs\<rparr>; epoch = fl_mission_epoch (cx_fleet cx)
          in case j_epoch (log_state j) of
               Some held \<Rightarrow>
                 if \<not> epoch \<ge> held then Inl (EpochRolledBack held)
                 else (case log_enter_epoch (cx_pc cx) j epoch of (Inl _, _) \<Rightarrow> Inl EpochNotDurable | (Inr _, j) \<Rightarrow> Inr j)
             | None \<Rightarrow>
                 (case log_enter_epoch (cx_pc cx) j epoch of (Inl _, _) \<Rightarrow> Inl EpochNotDurable | (Inr _, j) \<Rightarrow> Inr j))"

definition restored_windows :: "Ctx \<Rightarrow> LogJournal \<Rightarrow> ReplayWindow list" where
  "restored_windows cx j =
     map (\<lambda>m. if m < 2 ^ 16
              then (case mem_highest_seen (log_state j) (of_nat m) of None \<Rightarrow> replay_new | Some q \<Rightarrow> resumed q)
              else replay_new) [0..<o_fleet (cx_opts cx)]"

text \<open>Votes admitted in an earlier life, and our own, held until consultation closes.\<close>

definition restored_early :: "Ctx \<Rightarrow> LogJournal \<Rightarrow> (nat, bytes) btree" where
  "restored_early cx j =
     (let own = o_index (cx_opts cx);
          witnessed = foldl (\<lambda>m (a, bs). case member_index cx a of None \<Rightarrow> m | Some i \<Rightarrow> bt_insert i bs m)
            [] (j_witnessed (log_state j))
      in if log_has_voted j (cx_subject cx) (member_id cx own)
         then (case first_pending j of None \<Rightarrow> witnessed | Some f \<Rightarrow> bt_insert own (frame_bytes f) witnessed)
         else witnessed)"

definition boot_node :: "Ctx \<Rightarrow> LogJournal \<Rightarrow> Env \<Rightarrow> Node" where
  "boot_node cx j v =
     (let opts = cx_opts cx; (t, v) = read_instant v;
          clock = clock_new t (o_clock_epoch opts) (o_scale opts) (o_offset opts);
          (started, v) = read_instant v
      in \<lparr>nd_env = v, nd_started = started, nd_journal = j, nd_case = case_open (cx_subject cx), nd_clock = clock,
          nd_budget = with_prior (o_prior_airtime_ms opts), nd_sent = [False, False, False], nd_closed = False,
          nd_began = None, nd_heard = heard_none, nd_acknowledged = False,
          nd_own_admitted = [False, False, log_has_voted j (cx_subject cx) (member_id cx (o_index opts))
            \<and> first_pending j \<noteq> None],
          nd_nacked_rounds = 0, nd_repair_due = None, nd_repaired_round = None,
          nd_forwards = with_capacity 64 (64 * MAX_FRAME_BYTES), nd_round = round_none, nd_split = False,
          nd_foreign = [], nd_evidence = [], nd_next_due = [None, None, None], nd_early = restored_early cx j,
          nd_equivocate_at = None, nd_captured = None, nd_jam_next = None, nd_replay_next = None,
          nd_windows = restored_windows cx j, nd_attempts = [0, 0, 0], nd_offsets = offsets opts clock,
          nd_meter = meter_zero\<rparr>)"

definition node_boot ::
  "Ctx \<Rightarrow> bytes \<Rightarrow> bool \<Rightarrow> u64 \<Rightarrow> io list \<Rightarrow> compact_io list \<Rightarrow> Env \<Rightarrow> (BootError, Node) result" where
  "node_boot cx file_bytes io_ok entropy ws cs v =
     (let opts = cx_opts cx
      in if \<not> o_index opts < fleet_size (cx_fleet cx) then Inl NotAMember
         else if \<not> (1 \<le> o_fleet opts \<and> o_fleet opts \<le> HEARD_CAPACITY) then Inl FleetTooLarge
         else if \<not> 1 \<le> o_scale opts then Inl ScaleZero
         else case boot_journal cx file_bytes io_ok entropy ws cs of
                Inl e \<Rightarrow> Inl e
              | Inr j \<Rightarrow>
                  if \<not> schedule_fits opts then Inl (ScheduleUnfit (finish opts)) else Inr (boot_node cx j v))"

section \<open>The final report\<close>

record FinalReport =
  fr_supporters :: nat
  fr_threshold :: nat
  fr_competence :: u64
  fr_total_competence :: u64
  fr_endorsed :: bool
  fr_binding_attempts :: nat
  fr_acknowledged :: bool
  fr_meter :: Meter
  fr_evidence :: nat
  fr_split :: bool

definition final_report :: "Ctx \<Rightarrow> Node \<Rightarrow> FinalReport" where
  "final_report cx w =
     (let supporters = binding_supporters (nd_case w); policy = fl_policy (cx_fleet cx);
          outcome = evaluate policy supporters
      in \<lparr>fr_supporters = length supporters, fr_threshold = min_signers policy,
          fr_competence = (case outcome of Inl _ \<Rightarrow> 0 | Inr r \<Rightarrow> support_competence r),
          fr_total_competence = total_competence policy,
          fr_endorsed = (case outcome of Inl _ \<Rightarrow> False | Inr r \<Rightarrow> approved r),
          fr_binding_attempts = nd_attempts w ! 2, fr_acknowledged = nd_acknowledged w, fr_meter = nd_meter w,
          fr_evidence = length (nd_evidence w), fr_split = nd_split w\<rparr>)"

section \<open>A node to try things on\<close>

text \<open>A serializer for the entries a running node writes.\<close>

definition text_bytes :: "bytes \<Rightarrow> string" where
  "text_bytes bs = map (\<lambda>b. char_of (unat b)) bs"

lemma text_bytes_ascii [simp]: "text_bytes (ascii t) = t"
proof -
  have "unat (of_char c :: u8) = of_char c" for c
  proof -
    have "(of_char c :: u8) = of_nat (of_char c :: nat)" by (simp add: of_nat_of_char)
    then show ?thesis using nat_of_char_less_256 [of c] by (simp only: unat_of_nat) simp
  qed
  then show ?thesis by (induction t) (simp_all add: text_bytes_def ascii_def)
qed

definition node_pc :: postcard where
  "node_pc = \<lparr>to_allocvec = (\<lambda>e. case e of
       ESequence n \<Rightarrow> Some (1 # le_bytes 8 n)
     | EEpoch n \<Rightarrow> Some (2 # le_bytes 2 n)
     | ESeen m q \<Rightarrow> Some (3 # le_bytes 2 m @ le_bytes 8 q)
     | EVote k q bs None \<Rightarrow> if length k < 256 then Some (4 # of_nat (length k) # ascii k @ le_bytes 8 q @ bs) else None
     | EWitnessed a bs \<Rightarrow> if length a < 256 then Some (5 # of_nat (length a) # ascii a @ bs) else None
     | _ \<Rightarrow> None),
     from_bytes = (\<lambda>bs. case bs of [] \<Rightarrow> None
     | t # r \<Rightarrow>
        let n = unat (hd r); k = text_bytes (take n (tl r)); rest = drop n (tl r)
        in if t = 1 then Some (ESequence (of_le_bytes r))
           else if t = 2 then Some (EEpoch (of_le_bytes r))
           else if t = 3 then Some (ESeen (of_le_bytes (take 2 r)) (of_le_bytes (drop 2 r)))
           else if t = 4 then Some (EVote k (of_le_bytes (take 8 rest)) (drop 8 rest) None)
           else if t = 5 then Some (EWitnessed k rest) else None)\<rparr>"

lemma node_pc_ok: "postcard_ok node_pc"
  by (auto simp: postcard_ok_def node_pc_def of_le_bytes_of_le_bytes_full unat_of_nat
      split: Entry.splits option.splits if_splits)

lemma node_pc_encodes:
  "\<exists>r. encode_record node_pc (ESequence n) = Some r" "\<exists>r. encode_record node_pc (EEpoch e) = Some r"
  "\<exists>r. encode_record node_pc (ESeen m q) = Some r"
  "length k < 256 \<Longrightarrow> length bs < 1000 \<Longrightarrow> \<exists>r. encode_record node_pc (EVote k q bs None) = Some r"
  by (simp_all add: encode_record_def node_pc_def MAX_RECORD_BYTES_def)

definition sample_fleet :: Fleet where
  "sample_fleet = \<lparr>fl_mission_epoch = 1, fl_ids = [''a'', ''b'', ''c'', ''d'', ''e''], fl_policy = five_policy\<rparr>"

definition sample_ctx :: Ctx where
  "sample_ctx = \<lparr>cx_prim = sample_primitives, cx_ser = sample_sz, cx_pc = node_pc, cx_fleet = sample_fleet,
     cx_subject = node_subject sample_options,
     cx_keyring = map (\<lambda>i. verifying_key sample_primitives (from_seed (seed_for i))) [0..<5],
     cx_signing = from_seed (seed_for 0), cx_forged = None, cx_group = gk_from_bytes GROUP_KEY, cx_opts = sample_options\<rparr>"

lemma sample_ctx_fields: "cx_opts sample_ctx = sample_options" "cx_fleet sample_ctx = sample_fleet" "cx_pc sample_ctx = node_pc"
  by (simp_all add: sample_ctx_def)

definition sample_env :: Env where
  "sample_env = \<lparr>ev_now = 0, ev_readings = [1000000, 2000000], ev_polls = [], ev_refusals = [], ev_draws = [], ev_aired = []\<rparr>"

lemma sample_boot_journal:
  "\<exists>j. boot_journal sample_ctx [] True 7 [] [] = Inr j \<and> j_pending (log_state j) = [] \<and> j_seen (log_state j) = []"
proof -
  have o: "log_open node_pc [] True = Inr sample_log"
    by (simp add: log_open_def replay_def replay_from.simps sample_log_def)
  obtain r where r: "encode_record node_pc (ESequence (random_start 7)) = Some r"
    using node_pc_encodes(1) by blast
  obtain s where s: "encode_record node_pc (EEpoch 1) = Some s" using node_pc_encodes(2) by blast
  show ?thesis
    by (simp add: boot_journal_def open_with_entropy_def sample_ctx_fields o Let_def sample_log_def default_state_def
        try_append_def r s put_def log_enter_epoch_def log_append_def sample_fleet_def)
qed

lemma sample_boots: "\<exists>w. node_boot sample_ctx [] True 7 [] [] sample_env = Inr w"
proof -
  obtain j where j: "boot_journal sample_ctx [] True 7 [] [] = Inr j" using sample_boot_journal by blast
  moreover have "schedule_fits sample_options" using sample_options_ok by (simp add: options_ok_def)
  moreover have "o_index sample_options = 0" "o_fleet sample_options = 5" "o_scale sample_options = 100"
    by (simp_all add: sample_options_def)
  ultimately show ?thesis
    by (simp add: node_boot_def Let_def sample_ctx_fields fleet_size_def sample_fleet_def HEARD_CAPACITY_def)
qed

end
