(* ===== verification/Lcq_Node_Reach.thy ===== *)
theory Lcq_Node_Reach
  imports Lcq_Boot Lcq_Log_Safety
begin

text \<open>
  From one member to another: the vote a member builds is the vote every other member of
  its fleet counts, a frame heard in a round tells a latecomer when the round began, and
  two carried frames never share a key.
\<close>

section \<open>A vote built here is counted there\<close>

text \<open>Two members of one fleet, deliberating on one subject.\<close>

definition same_fleet :: "Ctx \<Rightarrow> Ctx \<Rightarrow> bool" where
  "same_fleet cx cx' \<longleftrightarrow> cx_prim cx' = cx_prim cx \<and> cx_ser cx' = cx_ser cx \<and> cx_fleet cx' = cx_fleet cx
     \<and> cx_subject cx' = cx_subject cx \<and> cx_keyring cx' = cx_keyring cx \<and> cx_group cx' = cx_group cx"

text \<open>A member whose key the keyring names.\<close>

definition in_keyring :: "Ctx \<Rightarrow> bool" where
  "in_keyring cx \<longleftrightarrow> o_index (cx_opts cx) < length (cx_keyring cx) \<and> o_index (cx_opts cx) < 2 ^ 16
     \<and> cx_keyring cx ! o_index (cx_opts cx) = verifying_key (cx_prim cx) (cx_signing cx)
     \<and> length (sk_seed (cx_signing cx)) = 32"

lemma sealed_reads:
  assumes "primitives_ok (cx_prim cx)" and "serializer_ok (cx_ser cx)" and "same_fleet cx cx'"
    and "sign_and_seal cx key q e = Inr bs"
  shows "read_frame cx' bs = Some (author_of (o_index (cx_opts cx)), q,
    compact_sign (cx_prim cx) e key (content_hash (cx_subject cx)))"
proof -
  obtain plain where p: "encode_compact (cx_ser cx) (compact_sign (cx_prim cx) e key (content_hash (cx_subject cx))) = Inr plain"
    and f: "seal_frame (cx_prim cx) (cx_group cx) (author_of (o_index (cx_opts cx))) q plain = Inr bs"
    using assms(4) by (auto simp: sign_and_seal_def split: sum.splits)
  have "open_frame (cx_prim cx) (cx_group cx) bs = Inr (author_of (o_index (cx_opts cx)), q, plain)"
    using f open_frame_seal [OF assms(1)] by simp
  moreover have "decode_compact (cx_ser cx) plain = Inr (compact_sign (cx_prim cx) e key (content_hash (cx_subject cx)))"
    using assms(2) p by (auto simp: encode_compact_def decode_compact_def serializer_ok_def split: option.splits)
  ultimately show ?thesis using assms(3) by (simp add: read_frame_def same_fleet_def)
qed

lemma sealed_verifies:
  assumes "primitives_ok (cx_prim cx)" and "same_fleet cx cx'" and "in_keyring cx"
  shows "verifies cx' (compact_sign (cx_prim cx) e (cx_signing cx) (content_hash (cx_subject cx))) (o_index (cx_opts cx))"
  using assms
  by (simp add: verifies_def same_fleet_def in_keyring_def compact_verify_def compact_sign_def vk_verify_def
      verifying_key_def sk_sign_def primitives_ok_def)

lemma sc_envelope_sign [simp]: "sc_envelope (compact_sign p e key h) = e"
  by (simp add: compact_sign_def)

lemma own_envelope_fields:
  "ce_author_index (in_round (acknowledging (own_envelope cx s vd q) h) r) = author_of (o_index (cx_opts cx))"
  "ce_sequence (in_round (acknowledging (own_envelope cx s vd q) h) r) = q"
  "ce_verdict (in_round (acknowledging (own_envelope cx s vd q) h) r) = vd"
  "ce_heard (in_round (acknowledging (own_envelope cx s vd q) h) r) = h"
  "ce_round (in_round (acknowledging (own_envelope cx s vd q) h) r) = r"
  by (simp_all add: in_round_def acknowledging_def own_envelope_def compact_new_def)

lemma own_same_subject:
  "same_fleet cx cx' \<Longrightarrow> same_subject cx' (in_round (acknowledging (own_envelope cx s vd q) h) r)"
  by (simp add: same_fleet_def same_subject_def in_round_def acknowledging_def own_envelope_def compact_new_def)

lemma author_of_back: "i < 2 ^ 16 \<Longrightarrow> unat (author_of i) = i"
  by (simp add: author_of_def unat_of_nat)

text \<open>
  (C6) A vote cast is a vote counted. When an honest member that has not voted builds its
  binding vote, its journal has taken the lock and holds the frame; and any member of the
  same fleet that receives those bytes while it collects votes, before the claim certainly
  expires and with no vote by that member yet, appends exactly that member's supporting
  vote, learns the sender's round and whom the sender has heard, and pays one signature
  check.
\<close>

theorem vote_cast_is_counted:
  assumes "primitives_ok (cx_prim cx)" and "serializer_ok (cx_ser cx)" and "jwf (log_state j)"
    and "o_adversary (cx_opts cx) = Honest" and "cx_forged cx = None" and "in_keyring cx" and "same_fleet cx cx'"
    and "build cx BindingSupport j heard rnd = (Inr bs, j')" and "\<not> log_has_voted j (cx_subject cx) (me cx)"
    and "case_subject c = cx_subject cx" and "phase c = CollectingVotes"
    and "\<not> bt_contains (voted c) (me cx)" and "certainly_before stamp (expires_at c)"
  shows "(\<exists>ad. admit cx' mt stamp bs c = (ad, c\<lparr>voted := bt_insert (me cx) () (voted c),
        binding := binding c @ [\<lparr>author = me cx, opinion_subject = cx_subject cx, stage = BindingSupport, verdict = Support\<rparr>]\<rparr>,
        checked mt)
      \<and> ad_binding_from ad = Some (o_index (cx_opts cx)) \<and> ad_round ad = rnd \<and> ad_heard ad = heard
      \<and> ad_verified ad = Some (o_index (cx_opts cx), j_next_sequence (log_state j)))
    \<and> log_has_voted j' (cx_subject cx) (me cx)
    \<and> bt_get (j_pending (log_state j')) (j_next_sequence (log_state j)) = Some (frame_new bs (j_next_sequence (log_state j)))"
proof -
  let ?e = "\<lambda>q. in_round (acknowledging (own_envelope cx 3 1 q) heard) rnd"
  let ?i = "o_index (cx_opts cx)"
  obtain x j1 where x: "log_reserve_sequence (cx_pc cx) j = (x, j1)" by fastforce
  obtain q where q: "x = Inr q" "sign_and_seal cx (cx_signing cx) q (?e q) = Inr bs"
    and commit: "log_commit_vote (cx_pc cx) j1 (cx_subject cx) (me cx) (frame_new bs q) = (Inr (), j')"
    using assms(4,5,8,9) x
    by (auto simp: build_def Let_def me_def [symmetric] stage_code_def split: sum.splits if_splits prod.splits)
  have qn: "q = j_next_sequence (log_state j)" using reserve_okD [of "cx_pc cx" j q j1] x q(1) by simp
  have i: "unat (author_of ?i) = ?i" using assms(6) by (simp add: author_of_back in_keyring_def)
  have kr: "cx_keyring cx' = cx_keyring cx" "cx_subject cx' = cx_subject cx" "member_id cx' ?i = me cx"
    using assms(7) by (simp_all add: same_fleet_def me_def member_id_def)
  note rd = sealed_reads [OF assms(1,2,7) q(2)]
  have acc: "accept c \<lparr>author = me cx, opinion_subject = cx_subject cx, stage = BindingSupport, verdict = Support\<rparr> stamp
      = (Inr (), c\<lparr>voted := bt_insert (me cx) () (voted c),
          binding := binding c @ [\<lparr>author = me cx, opinion_subject = cx_subject cx, stage = BindingSupport, verdict = Support\<rparr>]\<rparr>)"
    using assms(10-13) by (simp add: accept_unfold bt_contains_def bt_keys_def certainly_before_nat)
  have "\<exists>ad. admit cx' mt stamp bs c = (ad, c\<lparr>voted := bt_insert (me cx) () (voted c),
        binding := binding c @ [\<lparr>author = me cx, opinion_subject = cx_subject cx, stage = BindingSupport, verdict = Support\<rparr>]\<rparr>,
        checked mt)
      \<and> ad_binding_from ad = Some ?i \<and> ad_round ad = rnd \<and> ad_heard ad = heard \<and> ad_verified ad = Some (?i, q)"
    using sealed_verifies [OF assms(1,7,6), of "?e q"] own_same_subject [OF assms(7), of 3 1 q heard rnd] assms(6)
    by (simp add: admit_def rd own_envelope_fields i kr in_keyring_def stage_of_def verdict_of_def acc learned_from_def Let_def)
  moreover have "log_has_voted j' (cx_subject cx) (me cx)
      \<and> bt_get (j_pending (log_state j')) q = Some (frame_new bs q)"
  proof -
    have "log_state j1 = (log_state j)\<lparr>j_next_sequence := sat_add (j_next_sequence (log_state j)) 1\<rparr>"
      using reserve_agrees [of j "cx_pc cx"] x q(1) by (simp add: mem_reserve_sequence_def)
    then have w: "jwf (log_state j1)" using assms(3) jwf_apply [of "log_state j" "ESequence (sat_add (j_next_sequence (log_state j)) 1)"]
      by (simp add: reserve_shape)
    have m: "mem_commit_vote (log_state j1) (cx_subject cx) (me cx) (frame_new bs q) = (Inr (), log_state j')"
      by (rule commit_okD [OF w commit])
    have ls: "log_state j' = snd (mem_commit_vote (log_state j1) (cx_subject cx) (me cx) (frame_new bs q))"
      using m by simp
    have "\<not> bt_contains (j_locks (log_state j1)) (lock_key (cx_subject cx) (me cx))"
      using m by (auto simp: mem_commit_vote_def Let_def split: if_splits)
    then show ?thesis using w unfolding log_has_voted_def ls
      by (simp add: mem_commit_vote_def Let_def frame_new_def jwf_def bt_simps)
  qed
  ultimately show ?thesis by (simp add: qn)
qed

section \<open>A frame heard dates the round\<close>

lemma late_anchor_Some:
  assumes "late_anchor cx mt st clock t sealed = (Some l, mt')" and "read_frame cx sealed = Some (h, q, frame)"
    and "stage_index_of (ce_stage (sc_envelope frame)) = Some k"
  shows "la_origin l = t - from_millis (wall_ms clock (st ! k * 1000 + slot_ms (cx_opts cx) * of_nat (la_author l)
      + airtime_ms (length sealed)))"
    and "genuine cx sealed (la_author l) (la_sequence l) frame" and "la_round l = ce_round (sc_envelope frame)"
  using assms by (auto simp: late_anchor_def genuine_def Let_def NACK_STAGE_def stage_index_of_def split: if_splits)

text \<open>The first attempt of a stage dates the anchor.\<close>

lemma first_attempt_dates:
  assumes "options_ok (cx_opts cx)" and "ck_scale clock = o_scale (cx_opts cx)"
    and "late_anchor cx mt (starts (cx_opts cx)) clock t sealed = (Some l, mt')"
    and "read_frame cx sealed = Some (h, q, frame)" and "stage_index_of (ce_stage (sc_envelope frame)) = Some k"
    and "length sealed \<le> MAX_FRAME_BYTES" and "la_author l < o_fleet (cx_opts cx)"
    and "t = anchor + from_millis (offsets (as_member (cx_opts cx) (la_author l)) clock ! k)
            + from_millis (wall_ms clock (airtime_ms (length sealed)))"
  shows "anchor - 1000000 \<le> la_origin l \<and> la_origin l \<le> anchor \<and> la_round l = ce_round (sc_envelope frame)"
proof -
  let ?o = "cx_opts cx" and ?s = "scale_nat (cx_opts cx)"
  note l = late_anchor_Some [OF assms(3-5)]
  have k: "k < 3" using assms(5) by (auto simp: stage_index_of_def split: if_splits)
  define st where "st = starts ?o ! k * 1000"
  define sl where "sl = slot_ms ?o * of_nat (la_author l)"
  define ar where "ar = airtime_ms (length sealed)"
  have small: "unat (starts ?o ! k) \<le> 400"
  proof -
    consider "k = 0" | "k = 1" | "k = 2" using k by linarith
    then show ?thesis using starts_nat [OF assms(1)] small_schedule(1) [OF assms(1)] by cases simp_all
  qed
  have st: "unat st \<le> 400000"
    using small unat_mult1000 [of "starts ?o ! k"] by (simp add: st_def)
  have sl: "unat sl \<le> 274877998848"
  proof -
    have "la_author l \<le> 64" using assms(1,7) by (simp add: options_ok_def HEARD_CAPACITY_def)
    from slot_mult [OF assms(1) this] show ?thesis by (simp add: sl_def)
  qed
  have ar: "unat ar \<le> 1436"
    using airtime_mono [OF assms(6), of DEFAULT_SPREADING_FACTOR] airtime_widest(1)
    by (simp add: ar_def MAX_FRAME_BYTES_def airtime_ms_def [symmetric] word_le_nat_alt [of _ 1436])
  have sum2: "unat (st + sl) = unat st + unat sl" using st sl by (subst unat_add64) simp_all
  then have sum3: "unat (st + sl + ar) = unat st + unat sl + unat ar" using st sl ar by (subst unat_add64) simp_all
  have same: "starts (as_member ?o i) = starts ?o" "slot_ms (as_member ?o i) = slot_ms ?o" "o_slots (as_member ?o i) = o_slots ?o" for i
    by (simp_all add: as_member_def starts_def stage_window_s_def slot_ms_def)
  have off: "offsets (as_member ?o (la_author l)) clock ! k = wall_ms clock (st + sl)"
  proof -
    have "k = 0 \<or> k = Suc 0 \<or> k = Suc (Suc 0)" using k by linarith
    then show ?thesis
      using assms(1) by (auto simp: offsets_def same slot_offset_ms_def options_ok_def st_def sl_def starts_def)
  qed
  note w = wall_ms_nat [OF assms(2)]
  define a b c where "a = unat (wall_ms clock (st + sl))" and "b = unat (wall_ms clock ar)" and "c = unat (wall_ms clock (st + sl + ar))"
  have "a = (unat st + unat sl) div ?s" "b = unat ar div ?s" "c = (unat st + unat sl + unat ar) div ?s"
    by (simp_all add: a_def b_def c_def w sum2 sum3)
  then have abc: "a + b \<le> c" "c \<le> a + b + 1"
    using div_add_le [of "unat st + unat sl" ?s "unat ar"] div_add_le_Suc [of "unat st + unat sl" "unat ar" ?s] by simp_all
  have "la_origin l = anchor + 1000000 * int a + 1000000 * int b - 1000000 * int c"
    unfolding l(1) assms(8) off from_millis_nat a_def b_def c_def st_def sl_def ar_def by simp
  moreover have "int a + int b \<le> int c" "int c \<le> int a + int b + 1" using abc by linarith+
  ultimately show ?thesis using l(3) by linarith
qed

text \<open>An attempt is due whole windows after the first.\<close>

lemma attempt_due:
  assumes "options_ok opts" and "ck_scale clock = o_scale opts" and "turn_allowed opts (StageTurn k n)"
  shows "turn_due opts clock (StageTurn k n) = from_millis (offsets opts clock ! k) + int n * window_wall opts clock"
proof -
  have z: "turn_allowed opts (StageTurn k 0)" using assms(3) by auto
  have "turn_due opts clock (StageTurn k 0) = from_millis (offsets opts clock ! k)" by (simp add: stage_due_def)
  moreover have "window_wall opts clock = 1000000 * int (window_ms opts)"
    using unat_mult64 [of "stage_window_s opts" 1000] small_schedule(1) [OF assms(1)] stage_window_nat [OF assms(1)]
    by (simp add: window_wall_def from_millis_nat wall_ms_nat [OF assms(2)] window_ms_def)
  ultimately show ?thesis
    using turn_due_nat [OF assms(1,2) z] turn_due_nat [OF assms] by (simp add: algebra_simps)
qed

text \<open>
  (C20) A member that missed the opening joins on a frame it hears. Under options that pass the
  checks at start-up and a clock of their scale: from a genuine stage frame
  which a member that anchored its round at \<open>anchor\<close> sent when attempt \<open>n\<close> of the stage fell due
  in its own slot, heard when it ended, a latecomer derives, in the round the frame names, an origin
  that lies \<open>n\<close> windows after the sender's anchor, never later and at most a millisecond
  earlier. A first attempt therefore dates the anchor itself; a retry of the binding vote (only that
  stage has any) leaves the latecomer whole windows behind, in the sender's slots all the same. The
  repeats and requests of the repair rounds, sent after the attempts, are not covered.
\<close>

theorem late_anchor_close:
  assumes "options_ok (cx_opts cx)" and "ck_scale clock = o_scale (cx_opts cx)"
    and "late_anchor cx mt (starts (cx_opts cx)) clock t sealed = (Some l, mt')"
    and "read_frame cx sealed = Some (h, q, frame)" and "stage_index_of (ce_stage (sc_envelope frame)) = Some k"
    and "length sealed \<le> MAX_FRAME_BYTES" and "la_author l < o_fleet (cx_opts cx)"
    and "turn_allowed (cx_opts cx) (StageTurn k n)"
    and "t = anchor + turn_due (as_member (cx_opts cx) (la_author l)) clock (StageTurn k n)
            + from_millis (wall_ms clock (airtime_ms (length sealed)))"
  shows "anchor + int n * window_wall (cx_opts cx) clock - 1000000 \<le> la_origin l
    \<and> la_origin l \<le> anchor + int n * window_wall (cx_opts cx) clock
    \<and> la_round l = ce_round (sc_envelope frame)"
proof -
  let ?o = "as_member (cx_opts cx) (la_author l)"
  have o: "options_ok ?o" "ck_scale clock = o_scale ?o" "turn_allowed ?o (StageTurn k n)"
    using assms by (simp_all add: ok_as_member) (simp_all add: as_member_def)
  have W: "window_wall ?o clock = window_wall (cx_opts cx) clock"
    by (simp add: window_wall_def stage_window_s_def slot_ms_def as_member_def)
  show ?thesis
    by (rule first_attempt_dates [OF assms(1-7)]) (simp only: assms(9) attempt_due [OF o] W add.assoc)
qed

section \<open>The key of a carried frame\<close>

lemma forward_key_parts:
  assumes "a < 2 ^ 16"
  shows "unat (drop_bit 48 (forward_key a q)) = a" and "take_bit 48 (forward_key a q) = take_bit 48 q"
proof -
  have m: "(0x0000FFFFFFFFFFFF :: u64) = mask 48" by (simp add: mask_eq_exp_minus_1)
  have f: "forward_key a q = push_bit 48 (of_nat a) OR take_bit 48 q"
    using assms unfolding forward_key_def m by (simp add: take_bit_eq_mask)
  have b: "\<not> bit a n" if "16 \<le> n" for n
    using assms that by (metis bit_take_bit_iff leD take_bit_nat_eq_self)
  have "drop_bit 48 (forward_key a q) = of_nat a"
    unfolding f
  proof (rule bit_word_eqI)
    fix n :: nat
    show "bit (drop_bit 48 (push_bit 48 (of_nat a) OR take_bit 48 q)) n \<longleftrightarrow> bit (of_nat a :: u64) n"
      using b [of n] by (cases "n < 16") (auto simp: bit_simps)
  qed
  then show "unat (drop_bit 48 (forward_key a q)) = a" using assms by (simp add: unat_of_nat)
  show "take_bit 48 (forward_key a q) = take_bit 48 q"
    unfolding f by (rule bit_word_eqI) (auto simp: bit_simps)
qed

text \<open>
  Carried frames never pass for each other: members count their sequences independently,
  but the key a carried frame is queued and de-duplicated under tells two authors apart
  whatever their sequences, and two frames of one author whenever their sequences differ
  below \<open>2 ^ 48\<close>; and the author is read back from the key.
\<close>

theorem forward_key_distinct:
  assumes "a < 2 ^ 16" and "b < 2 ^ 16"
  shows "(forward_key a q = forward_key b r \<longleftrightarrow> a = b \<and> take_bit 48 q = take_bit 48 r)
    \<and> unat (drop_bit 48 (forward_key a q)) = a"
proof -
  have "forward_key a q = forward_key b r" if "a = b" "take_bit 48 q = take_bit 48 r"
  proof -
    have m: "(0x0000FFFFFFFFFFFF :: u64) = mask 48" by (simp add: mask_eq_exp_minus_1)
    show ?thesis using that unfolding forward_key_def m by (simp add: take_bit_eq_mask)
  qed
  then show ?thesis using forward_key_parts [OF assms(1)] forward_key_parts [OF assms(2)] by metis
qed

theorem forward_key_distinct_witness:
  "forward_key 1 5 \<noteq> forward_key 2 5 \<and> unat (drop_bit 48 (forward_key 1 5)) = 1"
  using forward_key_distinct [of 1 2 5 5] by simp

section \<open>A vote to try it on\<close>

text \<open>A serializer for one envelope, and the fleet that uses it.\<close>

definition one_value :: "SignedCompactEnvelope \<Rightarrow> SignedCompactEnvelope serializer" where
  "one_value s = \<lparr>ser = (\<lambda>x. if x = s then Some [1] else None), deser = (\<lambda>bs. Some s)\<rparr>"

lemma one_value_ok: "serializer_ok (one_value s)"
  by (simp add: serializer_ok_def one_value_def)

definition sample_signed :: "u8 \<Rightarrow> RoundId \<Rightarrow> SignedCompactEnvelope" where
  "sample_signed stg rnd = compact_sign sample_primitives
     (in_round (acknowledging (own_envelope sample_ctx stg 1 0) heard_none) rnd) (cx_signing sample_ctx) CONTENT_HASH"

definition one_ctx :: "u8 \<Rightarrow> RoundId \<Rightarrow> Ctx" where
  "one_ctx stg rnd = sample_ctx\<lparr>cx_ser := one_value (sample_signed stg rnd)\<rparr>"

definition sample_sealed :: bytes where
  "sample_sealed = aad_for 0 0 @ [1] @ replicate 16 10"

lemma one_ctx_fields:
  "cx_opts (one_ctx s rnd) = sample_options" "cx_prim (one_ctx s rnd) = sample_primitives" "cx_pc (one_ctx s rnd) = node_pc"
  "cx_fleet (one_ctx s rnd) = sample_fleet" "cx_subject (one_ctx s rnd) = node_subject sample_options" "cx_forged (one_ctx s rnd) = None"
  "cx_signing (one_ctx s rnd) = from_seed (seed_for 0)" "cx_group (one_ctx s rnd) = gk_from_bytes GROUP_KEY"
  "cx_keyring (one_ctx s rnd) = map (\<lambda>i. verifying_key sample_primitives (from_seed (seed_for i))) [0..<5]"
  "cx_ser (one_ctx s rnd) = one_value (sample_signed s rnd)"
  by (simp_all add: one_ctx_def sample_ctx_def)

lemma one_ctx_keyring: "in_keyring (one_ctx s rnd)"
  by (simp add: in_keyring_def one_ctx_fields sample_options_def from_seed_def seed_for_def)

lemma one_seals: "sign_and_seal (one_ctx s rnd) (from_seed (seed_for 0)) 0
    (in_round (acknowledging (own_envelope (one_ctx s rnd) s 1 0) heard_none) rnd) = Inr sample_sealed"
proof -
  have e: "own_envelope (one_ctx s rnd) s 1 0 = own_envelope sample_ctx s 1 0"
    by (simp add: own_envelope_def one_ctx_def)
  show ?thesis
    by (simp add: sign_and_seal_def e one_ctx_fields encode_compact_def one_value_def sample_signed_def sample_ctx_def
        node_subject_def seal_frame_def seal_def gk_from_bytes_def GROUP_KEY_def sample_primitives_def author_of_def
        sample_options_def sample_sealed_def)
qed

lemma one_reserves: "\<exists>j1. log_reserve_sequence node_pc sample_log = (Inr 0, j1)
    \<and> log_state j1 = default_state\<lparr>j_next_sequence := 1\<rparr> \<and> writes j1 = []"
proof -
  obtain s where s: "encode_record node_pc (ESequence 1) = Some s" using node_pc_encodes(1) by blast
  have "length s < 1000" using s by (auto simp: encode_record_def node_pc_def split: if_splits)
  then have "(of_nat (length s) :: u64) \<le> COMPACT_THRESHOLD_BYTES"
    by (simp add: COMPACT_THRESHOLD_BYTES_def word_le_nat_alt unat_of_nat)
  then show ?thesis
    by (simp add: log_reserve_sequence_def Let_def sample_log_def default_state_def sat_add_def log_append_def
        try_append_def s put_def compact_if_large_def)
qed

lemma commit_writes:
  assumes "\<not> bt_contains (j_locks (log_state j)) (lock_key s v)" and "writes j = []"
    and "encode_record pc (EVote (lock_key s v) (frame_sequence f) (frame_bytes f) (frame_expires_at f)) = Some r"
  shows "\<exists>j'. log_commit_vote pc j s v f = (Inr (), j')"
  using assms by (simp add: log_commit_vote_def Let_def log_append_def try_append_def)

lemma one_builds: "\<exists>j'. build (one_ctx 3 (round_new 1 7)) BindingSupport sample_log heard_none (round_new 1 7) = (Inr sample_sealed, j')"
proof -
  have k: "length (lock_key (node_subject sample_options) ''a'') < 256"
    by code_simp
  obtain j1 where j1: "log_reserve_sequence node_pc sample_log = (Inr 0, j1)"
      "log_state j1 = default_state\<lparr>j_next_sequence := 1\<rparr>" "writes j1 = []"
    using one_reserves by blast
  have l: "length sample_sealed = 27" by (simp add: sample_sealed_def aad_for_def)
  then obtain r where r: "encode_record node_pc (EVote (lock_key (node_subject sample_options) ''a'') 0 sample_sealed None) = Some r"
    using node_pc_encodes(4) [OF k, of sample_sealed 0] by auto
  have "\<exists>j'. log_commit_vote node_pc j1 (node_subject sample_options) ''a'' (frame_new sample_sealed 0) = (Inr (), j')"
    using r by (intro commit_writes) (simp_all add: j1 default_state_def bt_contains_def frame_new_def)
  moreover have "member_id (one_ctx 3 (round_new 1 7)) 0 = ''a''" by (simp add: member_id_def fleet_id_def one_ctx_fields sample_fleet_def)
  moreover have "\<not> log_has_voted sample_log s v" for s v
    by (simp add: log_has_voted_def sample_log_def default_state_def bt_contains_def)
  moreover have "o_index sample_options = 0" "o_adversary sample_options = Honest" by (simp_all add: sample_options_def)
  ultimately show ?thesis
    using l one_seals [of 3 "round_new 1 7"] j1(1)
    by (auto simp: build_def one_ctx_fields Let_def stage_code_def MAX_FRAME_BYTES_def)
qed

theorem vote_cast_is_counted_witness:
  "\<exists>ad c. admit (one_ctx 3 (round_new 1 7)) meter_zero 1000090 sample_sealed
      ((case_open (node_subject sample_options))\<lparr>phase := CollectingVotes\<rparr>) = (ad, c, checked meter_zero)
    \<and> binding_supporters c = [''a''] \<and> ad_binding_from ad = Some 0"
proof -
  let ?c = "(case_open (node_subject sample_options))\<lparr>phase := CollectingVotes\<rparr>"
  obtain j' where b: "build (one_ctx 3 (round_new 1 7)) BindingSupport sample_log heard_none (round_new 1 7) = (Inr sample_sealed, j')"
    using one_builds by blast
  have me: "me (one_ctx 3 (round_new 1 7)) = ''a''"
    by (simp add: me_def member_id_def fleet_id_def one_ctx_fields sample_fleet_def sample_options_def)
  have t: "certainly_before 1000090 (expires_at ?c)" by code_simp
  have h: "primitives_ok (cx_prim (one_ctx 3 (round_new 1 7)))" "serializer_ok (cx_ser (one_ctx 3 (round_new 1 7)))" "jwf (log_state sample_log)"
      "o_adversary (cx_opts (one_ctx 3 (round_new 1 7))) = Honest" "cx_forged (one_ctx 3 (round_new 1 7)) = None" "same_fleet (one_ctx 3 (round_new 1 7)) (one_ctx 3 (round_new 1 7))"
      "\<not> log_has_voted sample_log (cx_subject (one_ctx 3 (round_new 1 7))) (me (one_ctx 3 (round_new 1 7)))"
    by (simp_all add: one_ctx_fields sample_primitives_ok one_value_ok sample_log_def same_fleet_def log_has_voted_def
        bt_contains_def) (simp_all add: sample_options_def default_state_def)
  have c: "case_subject ?c = cx_subject (one_ctx 3 (round_new 1 7))" "phase ?c = CollectingVotes" "\<not> bt_contains (voted ?c) (me (one_ctx 3 (round_new 1 7)))"
      "binding ?c = []"
    by (simp_all add: case_open_def open_until_def one_ctx_fields bt_contains_def)
  show ?thesis
    using vote_cast_is_counted [OF h(1-5) one_ctx_keyring h(6) b h(7) c(1-3) t, of meter_zero]
    by (auto simp: binding_supporters_def case_open_def open_until_def me one_ctx_fields)
      (simp_all add: sample_options_def)
qed

definition sample_clock :: ScaledClock where
  "sample_clock = anchored_at 0 1000000 100 0"

lemma one_reads:
  "read_frame (one_ctx s rnd) sample_sealed = Some (0, 0, sample_signed s rnd)"
  "verifies (one_ctx s rnd) (sample_signed s rnd) 0"
  "same_subject (one_ctx s rnd) (sc_envelope (sample_signed s rnd))"
proof -
  have e: "sample_signed s rnd = compact_sign (cx_prim (one_ctx s rnd)) (in_round (acknowledging (own_envelope (one_ctx s rnd) s 1 0) heard_none) rnd)
      (cx_signing (one_ctx s rnd)) (content_hash (cx_subject (one_ctx s rnd)))"
    by (simp add: sample_signed_def own_envelope_def one_ctx_def) (simp add: sample_ctx_def node_subject_def)
  have f: "same_fleet (one_ctx s rnd) (one_ctx s rnd)" by (simp add: same_fleet_def)
  have o: "o_index (cx_opts (one_ctx s rnd)) = 0" by (simp add: one_ctx_fields sample_options_def)
  have p: "primitives_ok (cx_prim (one_ctx s rnd))" "serializer_ok (cx_ser (one_ctx s rnd))"
    by (simp_all add: one_ctx_fields sample_primitives_ok one_value_ok)
  have g: "sign_and_seal (one_ctx s rnd) (cx_signing (one_ctx s rnd)) 0
      (in_round (acknowledging (own_envelope (one_ctx s rnd) s 1 0) heard_none) rnd) = Inr sample_sealed"
    using one_seals by (simp add: one_ctx_fields)
  show "read_frame (one_ctx s rnd) sample_sealed = Some (0, 0, sample_signed s rnd)"
    using sealed_reads [OF p f g] by (simp add: o e author_of_def)
  show "verifies (one_ctx s rnd) (sample_signed s rnd) 0"
    using sealed_verifies [OF p(1) f one_ctx_keyring] by (simp add: o e)
  show "same_subject (one_ctx s rnd) (sc_envelope (sample_signed s rnd))"
    using own_same_subject [OF f] by (simp add: e)
qed

lemma one_envelope: "ce_stage (sc_envelope (sample_signed s rnd)) = s" "ce_author_index (sc_envelope (sample_signed s rnd)) = 0"
  "ce_sequence (sc_envelope (sample_signed s rnd)) = 0" "ce_round (sc_envelope (sample_signed s rnd)) = rnd"
  by (simp_all add: sample_signed_def in_round_def acknowledging_def own_envelope_def compact_new_def sample_ctx_def
      author_of_def sample_options_def)

theorem late_anchor_close_witness:
  "\<exists>l mt. late_anchor (one_ctx 1 (round_new 1 7)) meter_zero (starts sample_options) sample_clock
      (5000000 + from_millis (offsets (as_member sample_options 0) sample_clock ! 0)
        + from_millis (wall_ms sample_clock (airtime_ms (length sample_sealed)))) sample_sealed = (Some l, mt)
    \<and> 4000000 \<le> la_origin l \<and> la_origin l \<le> 5000000"
proof -
  let ?t = "5000000 + from_millis (offsets (as_member sample_options 0) sample_clock ! 0)
        + from_millis (wall_ms sample_clock (airtime_ms (length sample_sealed)))"
  have k: "length (cx_keyring (one_ctx 1 (round_new 1 7))) = 5" "cx_opts (one_ctx 1 (round_new 1 7)) = sample_options" by (simp_all add: one_ctx_fields)
  have st: "stage_index_of 1 = Some 0" "round_is_set (round_new 1 7)" "o_slots sample_options"
    by (simp_all add: stage_index_of_def round_new_def round_is_set_def round_none_def sample_options_def)
  obtain l mt where l: "late_anchor (one_ctx 1 (round_new 1 7)) meter_zero (starts sample_options) sample_clock ?t sample_sealed = (Some l, mt)"
      and a: "la_author l = 0"
    using one_reads [of 1 "round_new 1 7"]
    by (simp add: late_anchor_def k one_envelope st NACK_STAGE_def)
  have e: "stage_index_of (ce_stage (sc_envelope (sample_signed 1 (round_new 1 7)))) = Some 0" by (simp add: one_envelope st)
  have h: "options_ok (cx_opts (one_ctx 1 (round_new 1 7)))" "ck_scale sample_clock = o_scale (cx_opts (one_ctx 1 (round_new 1 7)))"
      "length sample_sealed \<le> MAX_FRAME_BYTES" "o_fleet (cx_opts (one_ctx 1 (round_new 1 7))) = 5"
    by (simp_all add: k sample_options_ok sample_clock_def anchored_at_def sample_sealed_def aad_for_def MAX_FRAME_BYTES_def)
      (simp_all add: sample_options_def)
  show ?thesis
    using l late_anchor_close [OF h(1,2) l [folded k(2)] one_reads(1) e h(3), of 0 5000000] a h(4)
    by (auto simp: k stage_due_def)
qed

section \<open>An opening and a vote as a receiver reads them\<close>

lemma one_opens: "trigger_round (one_ctx 0 (round_new 0 0)) meter_zero sample_sealed = (Some (round_new 0 0, 0, 0), checked meter_zero)"
  using one_reads [of 0 "round_new 0 0"] one_ctx_keyring [of 0 "round_new 0 0"]
  by (simp add: trigger_round_def one_envelope Let_def TRIGGER_STAGE_def in_keyring_def not_le)
    (simp add: round_new_def one_ctx_fields sample_options_def)

theorem trigger_round_genuine_witness:
  "\<exists>frame. genuine (one_ctx 0 (round_new 0 0)) sample_sealed 0 0 frame \<and> ce_stage (sc_envelope frame) = TRIGGER_STAGE"
  using trigger_round_genuine [OF one_opens] by blast


end
