(* ===== verification/Lcq_Provision.thy ===== *)
theory Lcq_Provision
  imports Lcq_Node_Reach Lcq_Manifest_Signing
begin

text \<open>
  From a signed manifest to a node: what a node that came up from one can rely on, and that
  a card the administration signed brings every member up.
\<close>

section \<open>A seed in a file\<close>

lemma radix_digits: "n < 16 \<Longrightarrow> radix_digit (HEX ! n) = Some (of_nat n) \<and> HEX ! n \<noteq> CHR ''+''"
proof -
  have "\<forall>n \<in> set [0..<16]. radix_digit (HEX ! n) = Some (of_nat n) \<and> HEX ! n \<noteq> CHR ''+''"
    by code_simp
  then show "n < 16 \<Longrightarrow> ?thesis" by simp
qed

lemma radix_hex: "radix_pair (HEX ! unat (drop_bit 4 b)) (HEX ! unat (b AND 0x0F)) = Some b"
proof -
  have m: "(0x0F :: u8) = mask 4" by (simp add: mask_eq_exp_minus_1)
  have "unat (drop_bit 4 b) < 16" "unat (b AND 0x0F) < 16" by (rule nibble_bounds)+
  moreover have "16 * drop_bit 4 b + (b AND 0x0F) = b"
  proof -
    have "push_bit 4 (drop_bit 4 b) + take_bit 4 b = b" by (rule bits_ident)
    then show ?thesis unfolding m by (simp add: take_bit_eq_mask push_bit_eq_mult mult.commute)
  qed
  ultimately show ?thesis by (simp add: radix_pair_def radix_digits)
qed

lemma radix_pairs_hex: "radix_pairs (concat (map push_hex_lower bs)) = Some bs"
  by (induction bs) (simp_all add: push_hex_lower_def radix_hex)

lemma radix_pairs_length: "radix_pairs t = Some bs \<Longrightarrow> length t = 2 * length bs"
  by (induction t arbitrary: bs rule: radix_pairs.induct) (auto split: option.splits)

lemma read_seed_length: "read_seed md content = Inr seed \<Longrightarrow> length seed = 32"
  using radix_pairs_length by (fastforce simp: read_seed_def Let_def split: option.splits if_splits)

lemma seed_for_length [simp]: "length (seed_for i) = 32"
  by (simp add: seed_for_def)

text \<open>The file a member keeps its seed in: hexadecimal, and a line end.\<close>

definition seed_file :: "bytes \<Rightarrow> code_point list" where
  "seed_file seed = text_of (concat (map push_hex_lower seed)) @ [10]"

lemma plain_trims:
  assumes "plain w"
  shows "str_trim (text_of w @ [10]) = text_of w"
proof -
  have "\<not> is_whitespace c" if "33 \<le> c" "c < 127" for c using that by (simp add: is_whitespace_def)
  then have n: "\<forall>c \<in> set (text_of w). \<not> is_whitespace c" and e: "text_of w \<noteq> []"
    using assms by (simp_all add: plain_def text_of_def)
  have "dropWhile is_whitespace (text_of w @ [10]) = text_of w @ [10]"
    using n e by (cases "text_of w") simp_all
  moreover have "dropWhile is_whitespace (rev (text_of w)) = rev (text_of w)"
    using n by (auto simp: dropWhile_eq_self_iff hd_rev)
  moreover have "is_whitespace 10" by (simp add: is_whitespace_def)
  ultimately show ?thesis by (simp add: str_trim_def)
qed

lemma read_seed_file:
  assumes "md AND 63 = 0" and "length seed = 32"
  shows "read_seed (Some md) (Some (seed_file seed)) = Inr seed"
proof -
  have p: "plain (concat (map push_hex_lower seed))" using assms(2) by (intro hex_plain) auto
  show ?thesis
    using assms by (simp add: read_seed_def seed_file_def plain_trims [OF p] as_bytes_plain [OF p] length_hex radix_pairs_hex)
qed

section \<open>What a provisioned node can rely on\<close>

text \<open>
  (C12) A node that comes up from files is a member of a lawful fleet. If provisioning succeeds,
  the administration key a human typed in decodes and is the key whose signature covers
  the manifest, read inside its validity window; and the node's context is well formed: its
  fleet has 1 to 64 members with pairwise distinct names and keys and a policy that the
  policy checks accept, the keyring has one key for each, the node's own key is the one at
  its own index, and the group key is that of the manifest's epoch.
\<close>

theorem provisioned_node_wf:
  assumes "provision_manifest p opts mfile afile sfile stamp = Inr pv" and "cx = node_ctx p codec pc opts pv"
  shows "(\<exists>typed key t mf. afile = Some (Some typed) \<and> hand_decode (blake2s p) typed = Inr key
        \<and> mfile = Some t \<and> manifest_parse p t = Inr mf
        \<and> vk_verify p \<lparr>vk_bytes = key\<rparr> (canonical_bytes mf) (mf_signature mf) = Inr ()
        \<and> mf_valid_from mf \<le> stamp \<and> stamp < mf_valid_until mf
        \<and> fl_mission_epoch (cx_fleet cx) = mf_epoch mf
        \<and> cx_group cx = fixture_for_epoch p (mf_group_key_id mf) (mf_epoch mf))
    \<and> in_keyring cx \<and> distinct (cx_keyring cx) \<and> distinct (fl_ids (cx_fleet cx))
    \<and> length (cx_keyring cx) = fleet_size (cx_fleet cx) \<and> o_fleet (cx_opts cx) = fleet_size (cx_fleet cx)
    \<and> 1 \<le> fleet_size (cx_fleet cx) \<and> fleet_size (cx_fleet cx) \<le> HEARD_CAPACITY
    \<and> (\<exists>ms bps ratio. map fst ms = fl_ids (cx_fleet cx) \<and> with_settings ms bps ratio = Inr (fl_policy (cx_fleet cx)))"
proof -
  obtain typed key adm t mf seed fleet where a: "afile = Some (Some typed)" "hand_decode (blake2s p) typed = Inr key"
      "vk_from_bytes p key = Inr adm" "mfile = Some t" "manifest_parse p t = Inr mf" "manifest_verify p mf adm stamp = Inr ()"
      "o_index opts < length (mf_members mf)" "fleet_from_manifest mf = Inr fleet"
    and seed: "(case sfile of Some (md, content) \<Rightarrow> read_seed md content | None \<Rightarrow> Inr (seed_for (o_index opts))) = Inr seed"
    and own: "key_of mf (o_index opts) = Some (verifying_key p (from_seed seed))"
    and pv: "pv = \<lparr>pv_fleet = fleet, pv_keyring = map mb_key (mf_members mf), pv_signing = from_seed seed,
        pv_group = fixture_for_epoch p (mf_group_key_id mf) (mf_epoch mf),
        pv_admin = Some (fingerprint (blake2s p) key), pv_digest = Some (manifest_digest p mf)\<rparr>"
    using assms(1) unfolding provision_manifest_def
    by (auto split: option.splits sum.splits if_splits)
  have wf: "manifest_wf p mf" using parse_wf [OF a(5)] by blast
  have len: "length seed = 32" using seed read_seed_length by (auto split: option.splits)
  obtain pol where pol: "manifest_policy mf = Inr pol" "fleet = \<lparr>fl_mission_epoch = mf_epoch mf, fl_ids = map mb_id (mf_members mf), fl_policy = pol\<rparr>"
    using a(8) by (auto simp: fleet_from_manifest_def split: sum.splits)
  have adm: "adm = \<lparr>vk_bytes = key\<rparr>" using a(3) by (auto simp: vk_from_bytes_def split: if_splits)
  have v: "vk_verify p \<lparr>vk_bytes = key\<rparr> (canonical_bytes mf) (mf_signature mf) = Inr ()" "mf_valid_from mf \<le> stamp" "stamp < mf_valid_until mf"
    using a(6) adm by (auto simp: manifest_verify_def not_less not_le split: sum.splits if_splits)
  have cx: "cx_fleet cx = fleet" "cx_keyring cx = map mb_key (mf_members mf)" "cx_signing cx = from_seed seed" "cx_prim cx = p"
      "cx_opts cx = opts\<lparr>o_fleet := length (mf_members mf)\<rparr>" "cx_group cx = fixture_for_epoch p (mf_group_key_id mf) (mf_epoch mf)"
    by (simp_all add: assms(2) node_ctx_def pv Let_def fleet_size_def pol(2))
  have k: "in_keyring cx"
    using own a(7) len wf by (auto simp: in_keyring_def cx key_of_def manifest_wf_def from_seed_def)
  have "map fst (map (\<lambda>mb. (mb_id mb, mb_competence mb)) (mf_members mf)) = fl_ids fleet" by (simp add: pol(2))
  moreover have "with_settings (map (\<lambda>mb. (mb_id mb, mb_competence mb)) (mf_members mf)) (mf_byzantine_bps mf) (mf_max_competence_ratio mf) = Inr pol"
    using pol(1) by (simp add: manifest_policy_def)
  moreover have "fl_policy fleet = pol" by (simp add: pol(2))
  ultimately have ms: "\<exists>ms bps ratio. map fst ms = fl_ids fleet \<and> with_settings ms bps ratio = Inr (fl_policy fleet)" by blast
  show ?thesis
    using a v k ms wf by (auto simp: cx pol(2) fleet_size_def manifest_wf_def HEARD_CAPACITY_def Suc_le_eq)
qed

lemma card_provisions:
  assumes "primitives_ok p" and "sign_text p t admin = Inr out" and "length (sk_seed admin) = 32"
    and "length (vk_bytes (verifying_key p admin)) = 32"
    and "manifest_parse p out = Inr mf" and "mf_valid_from mf \<le> stamp" and "stamp < mf_valid_until mf"
    and "o_index opts < length (mf_members mf)" and "length seed = 32" and "md AND 63 = 0"
    and "mb_key (mf_members mf ! o_index opts) = verifying_key p (from_seed seed)"
  shows "\<exists>pv. provision_manifest p opts (Some out) (Some (Some (hand_encode (blake2s p) (vk_bytes (verifying_key p admin)))))
      (Some (Some md, Some (seed_file seed))) stamp = Inr pv
    \<and> pv_signing pv = from_seed seed \<and> pv_keyring pv = map mb_key (mf_members mf)"
proof -
  obtain mf' parts where "manifest_parse p out = Inr mf'"
    "vk_verify p (verifying_key p admin) (canonical_bytes mf') (mf_signature mf') = Inr ()"
    by (rule sign_parse_verify [OF assms(1,3,2)])
  then have v: "vk_verify p (verifying_key p admin) (canonical_bytes mf) (mf_signature mf) = Inr ()" using assms(5) by simp
  have adm: "vk_from_bytes p (vk_bytes (verifying_key p admin)) = Inr (verifying_key p admin)"
    using assms(1,3) by (simp add: vk_from_bytes_def verifying_key_def primitives_ok_def)
  have "manifest_verify p mf (verifying_key p admin) stamp = Inr ()"
    using v assms(6,7) by (simp add: manifest_verify_def not_less)
  moreover obtain pol where "manifest_policy mf = Inr pol" using parse_wf [OF assms(5)] by blast
  ultimately show ?thesis
    using assms(5,8,11) adm
    by (simp add: provision_manifest_def hand_decode_encode [OF assms(4)] read_seed_file [OF assms(10,9)] key_of_def
        fleet_from_manifest_def)
qed

text \<open>
  (C21) A card the administration signed brings every member up. From a text that \<open>sign_text\<close>
  signed, the administration key as \<open>hand_encode\<close> prints it, and a seed file of the
  member's own (in hexadecimal, private to its owner), provisioning succeeds at every
  instant of the validity window, with the member's own signing key.
\<close>

theorem signed_card_provisions:
  assumes "primitives_ok p" and "sign_text p t admin = Inr out" and "length (sk_seed admin) = 32"
    and "length (vk_bytes (verifying_key p admin)) = 32"
    and "manifest_parse p out = Inr mf" and "mf_valid_from mf \<le> stamp" and "stamp < mf_valid_until mf"
    and "o_index opts < length (mf_members mf)" and "length seed = 32" and "md AND 63 = 0"
    and "mb_key (mf_members mf ! o_index opts) = verifying_key p (from_seed seed)"
  shows "\<exists>pv. provision_manifest p opts (Some out) (Some (Some (hand_encode (blake2s p) (vk_bytes (verifying_key p admin)))))
      (Some (Some md, Some (seed_file seed))) stamp = Inr pv
    \<and> pv_signing pv = from_seed seed \<and> pv_keyring pv = map mb_key (mf_members mf)"
  by (rule card_provisions [OF assms])

lemma sample_card:
  obtains out mf where "sign_text sample_primitives sample_text (from_seed (replicate 32 5)) = Inr out"
    "manifest_parse sample_primitives out = Inr mf" "mf_valid_from mf = 100" "mf_valid_until mf = 200"
    "map mb_key (mf_members mf) = [\<lparr>vk_bytes = replicate 32 1\<rparr>, \<lparr>vk_bytes = replicate 32 2\<rparr>]"
proof -
  let ?k = "from_seed (replicate 32 5)" and ?p = sample_primitives
  obtain out where o: "sign_text ?p sample_text ?k = Inr out" by (rule sample_signs)
  have "length (sk_seed ?k) = 32" by (simp add: from_seed_def)
  from sign_parse_verify [OF sample_primitives_ok this o] obtain mf parts0 where
    mf: "manifest_parse ?p out = Inr mf" .
  obtain bs where out: "out = concat (map (\<lambda>raw. raw @ [10]) (filter kept_line (str_lines sample_text)))
      @ text_of ''issuer '' @ fingerprint (blake2s ?p) (vk_bytes (verifying_key ?p ?k)) @ [10]
      @ text_of ''signature '' @ text_of (concat (map push_hex_lower (sk_sign ?p ?k bs))) @ [10]"
    using o unfolding sign_text_def and_then_Inr Let_def kept_line_def by auto
  obtain w where w: "fingerprint (blake2s ?p) (vk_bytes (verifying_key ?p ?k)) = text_of w" "plain w"
    using fingerprint_plain by blast
  let ?g = "sk_sign ?p ?k bs"
  let ?x = "(unsigned_parts sample_parts)\<lparr>pt_issuer := Some w, pt_signature := Some ?g\<rparr>"
  have "length ?g = 64" using sample_primitives_ok by (simp add: primitives_ok_def sk_sign_def)
  from read_signed [OF sample_reads w(2) this] have "parts_read ?p out True = Inr ?x"
    unfolding out w(1) .
  then have f: "finish_parts ?x = Inr mf" using mf by (simp add: manifest_parse_def and_then_def)
  have s: "settle_parts ?x = Inr (?x\<lparr>pt_members := rev (pt_members sample_parts)\<rparr>)"
    by (simp add: settle_parts_def first_missing_def sample_parts_def unsigned_parts_def Let_def or_default_def HEARD_CAPACITY_def)
  then have "mf = manifest_of_parts (?x\<lparr>pt_members := rev (pt_members sample_parts)\<rparr>)"
    using f by (auto simp: finish_Inr)
  then have "mf_valid_from mf = 100" "mf_valid_until mf = 200"
      "map mb_key (mf_members mf) = [\<lparr>vk_bytes = replicate 32 1\<rparr>, \<lparr>vk_bytes = replicate 32 2\<rparr>]"
    by (simp_all add: manifest_of_parts_def unsigned_parts_def sample_parts_def or_default_def)
  then show thesis by (rule that [OF o mf])
qed

text \<open>The second member of the sample card comes up at time 150.\<close>

definition card_options :: Options where
  "card_options = sample_options\<lparr>o_index := 1\<rparr>"

definition card_typed :: "code_point list" where
  "card_typed = hand_encode (blake2s sample_primitives) (replicate 32 5)"

lemma sample_member:
  obtains out mf where "sign_text sample_primitives sample_text (from_seed (replicate 32 5)) = Inr out"
    "length (sk_seed (from_seed (replicate 32 5))) = 32" "length (vk_bytes (verifying_key sample_primitives (from_seed (replicate 32 5)))) = 32"
    "manifest_parse sample_primitives out = Inr mf" "mf_valid_from mf \<le> 150" "150 < mf_valid_until mf"
    "o_index card_options < length (mf_members mf)" "length (replicate 32 (2 :: u8)) = 32" "(384 :: u32) AND 63 = 0"
    "mb_key (mf_members mf ! o_index card_options) = verifying_key sample_primitives (from_seed (replicate 32 2))"
proof -
  let ?k = "from_seed (replicate 32 5)"
  obtain out mf where c: "sign_text sample_primitives sample_text ?k = Inr out"
      "manifest_parse sample_primitives out = Inr mf" "mf_valid_from mf = 100" "mf_valid_until mf = 200"
      "map mb_key (mf_members mf) = [\<lparr>vk_bytes = replicate 32 1\<rparr>, \<lparr>vk_bytes = replicate 32 2\<rparr>]"
    by (rule sample_card)
  have l: "length (mf_members mf) = 2" using arg_cong [OF c(5), of length] by simp
  then have "mb_key (mf_members mf ! 1) = map mb_key (mf_members mf) ! 1" by simp
  then have k: "mb_key (mf_members mf ! 1) = \<lparr>vk_bytes = replicate 32 2\<rparr>" unfolding c(5) by simp
  have v: "verifying_key sample_primitives (from_seed bs) = \<lparr>vk_bytes = bs\<rparr>" for bs
    by (simp add: verifying_key_def from_seed_def sample_primitives_def)
  show thesis
    by (rule that [OF c(1) _ _ c(2)])
      (use k l in \<open>simp_all add: v c(3,4) card_options_def\<close>, simp_all add: from_seed_def)
qed

lemma card_typed_key: "hand_encode (blake2s sample_primitives) (vk_bytes (verifying_key sample_primitives (from_seed (replicate 32 5)))) = card_typed"
  by (simp add: card_typed_def verifying_key_def from_seed_def sample_primitives_def)

theorem signed_card_provisions_witness:
  "\<exists>out pv. provision_manifest sample_primitives card_options (Some out) (Some (Some card_typed))
      (Some (Some 384, Some (seed_file (replicate 32 2)))) 150 = Inr pv
    \<and> pv_signing pv = from_seed (replicate 32 2)"
  using sample_member
proof cases
  case (1 out mf)
  show ?thesis using signed_card_provisions [OF sample_primitives_ok 1] unfolding card_typed_key by blast
qed

theorem provisioned_node_wf_witness:
  "\<exists>out pv. provision_manifest sample_primitives card_options (Some out) (Some (Some card_typed))
      (Some (Some 384, Some (seed_file (replicate 32 2)))) 150 = Inr pv
    \<and> in_keyring (node_ctx sample_primitives sample_sz node_pc card_options pv)
    \<and> fleet_size (cx_fleet (node_ctx sample_primitives sample_sz node_pc card_options pv)) \<le> HEARD_CAPACITY"
proof -
  obtain out pv where pv: "provision_manifest sample_primitives card_options (Some out) (Some (Some card_typed))
      (Some (Some 384, Some (seed_file (replicate 32 2)))) 150 = Inr pv"
    using sample_member
  proof cases
    case (1 out mf)
    from card_provisions [OF sample_primitives_ok 1] show ?thesis using that unfolding card_typed_key by blast
  qed
  show ?thesis using pv provisioned_node_wf [OF pv refl, of sample_sz node_pc] by blast
qed

end
