(* ===== verification/Lcq_Hub.thy ===== *)
theory Lcq_Hub
  imports Lcq_Radio
begin

text \<open>
  \<open>src/infrastructure/hub.rs\<close> and \<open>hub_radio.rs\<close>: what the channel emulator and a node
  write to each other, and the plain socket as a radio. A socket is the sequence of bytes
  its reader sees until it closes; the reader threads are functions of that sequence. The
  retries of \<open>connect\<close> are in \<open>Lcq_Attach\<close>.
\<close>

definition MAX_SOCKET_FRAME_BYTES :: nat where "MAX_SOCKET_FRAME_BYTES = 4096"
definition DELIVERY_TAG :: u8 where "DELIVERY_TAG = 2"
definition DELIVERY_HEADER_BYTES :: nat where "DELIVERY_HEADER_BYTES = 9"
definition PREAMBLE_TAG :: u8 where "PREAMBLE_TAG = 3"
definition PREAMBLE_BYTES :: nat where "PREAMBLE_BYTES = 7"

lemmas hub_sizes = MAX_SOCKET_FRAME_BYTES_def DELIVERY_TAG_def DELIVERY_HEADER_BYTES_def
  PREAMBLE_TAG_def PREAMBLE_BYTES_def

section \<open>Messages\<close>

datatype HubVerdict = HubDecoded | HubHeaderError | HubCrcError

fun verdict_byte :: "HubVerdict \<Rightarrow> u8" where
  "verdict_byte HubDecoded = 0"
| "verdict_byte HubHeaderError = 1"
| "verdict_byte HubCrcError = 2"

definition verdict_from_byte :: "u8 \<Rightarrow> HubVerdict option" where
  "verdict_from_byte b =
     (if b = 0 then Some HubDecoded else if b = 1 then Some HubHeaderError
      else if b = 2 then Some HubCrcError else None)"

record Delivery =
  dl_bytes :: bytes
  dl_rssi_dbm :: i16
  dl_snr_db :: i8
  dl_airtime_ms :: u32
  dl_verdict :: HubVerdict

definition delivery_encode :: "Delivery \<Rightarrow> bytes" where
  "delivery_encode d =
     [DELIVERY_TAG] @ le_bytes 2 (dl_rssi_dbm d) @ [dl_snr_db d]
     @ le_bytes 4 (dl_airtime_ms d) @ [verdict_byte (dl_verdict d)] @ dl_bytes d"

definition delivery_decode :: "bytes \<Rightarrow> Delivery option" where
  "delivery_decode e =
     (if length e < DELIVERY_HEADER_BYTES \<or> e ! 0 \<noteq> DELIVERY_TAG then None
      else case verdict_from_byte (e ! 8) of
          None \<Rightarrow> None
        | Some verdict \<Rightarrow>
            Some \<lparr>dl_bytes = drop DELIVERY_HEADER_BYTES e,
              dl_rssi_dbm = of_le_bytes [e ! 1, e ! 2], dl_snr_db = e ! 3,
              dl_airtime_ms = of_le_bytes [e ! 4, e ! 5, e ! 6, e ! 7], dl_verdict = verdict\<rparr>)"

record Preamble =
  pr_rssi_dbm :: i16
  pr_airtime_ms :: u32

definition preamble_encode :: "Preamble \<Rightarrow> bytes" where
  "preamble_encode p = [PREAMBLE_TAG] @ le_bytes 2 (pr_rssi_dbm p) @ le_bytes 4 (pr_airtime_ms p)"

definition preamble_decode :: "bytes \<Rightarrow> Preamble option" where
  "preamble_decode e =
     (if length e \<noteq> PREAMBLE_BYTES \<or> e ! 0 \<noteq> PREAMBLE_TAG then None
      else Some \<lparr>pr_rssi_dbm = of_le_bytes [e ! 1, e ! 2],
             pr_airtime_ms = of_le_bytes [e ! 3, e ! 4, e ! 5, e ! 6]\<rparr>)"

datatype Inbound = InDelivery Delivery | InPreamble Preamble

definition inbound_decode :: "bytes \<Rightarrow> Inbound option" where
  "inbound_decode e =
     (case e of
        [] \<Rightarrow> None
      | tag # _ \<Rightarrow>
          if tag = DELIVERY_TAG then map_option InDelivery (delivery_decode e)
          else if tag = PREAMBLE_TAG then map_option InPreamble (preamble_decode e)
          else None)"

section \<open>Sockets\<close>

text \<open>
  A message on a socket: its length, which is zero when it does not fit 32 bits, and its
  bytes. \<open>HubWriter::send\<close>, \<open>write_delivery\<close> and \<open>write_preamble\<close> all write this.
\<close>

definition prefixed :: "bytes \<Rightarrow> bytes" where
  "prefixed bs = le_bytes 4 (if length bs < 2 ^ 32 then of_nat (length bs) else 0 :: u32) @ bs"

definition hub_send :: "bytes \<Rightarrow> bytes" where "hub_send bs = prefixed bs"

definition write_delivery :: "Delivery \<Rightarrow> bytes" where
  "write_delivery d = prefixed (delivery_encode d)"

definition write_preamble :: "Preamble \<Rightarrow> bytes" where
  "write_preamble p = prefixed (preamble_encode p)"

text \<open>One message off a socket, and what is left of it: the reads of both reader threads.\<close>

definition read_prefixed :: "bytes \<Rightarrow> (bytes \<times> bytes) option" where
  "read_prefixed bs =
     (if length bs < 4 then None
      else let size = unat (of_le_bytes (take 4 bs) :: u32); rest = drop 4 bs
        in if size = 0 \<or> size > MAX_SOCKET_FRAME_BYTES \<or> length rest < size then None
           else Some (take size rest, drop size rest))"

lemma read_prefixed_shorter: "read_prefixed bs = Some (m, rest) \<Longrightarrow> length rest < length bs"
  by (auto simp: read_prefixed_def Let_def split: if_splits)

text \<open>The node's reader: it stops for good at the first message it cannot make sense of.\<close>

function read_deliveries :: "bytes \<Rightarrow> Inbound list" where
  "read_deliveries bs =
     (case read_prefixed bs of
        None \<Rightarrow> []
      | Some (encoded, rest) \<Rightarrow>
          (case inbound_decode encoded of
             None \<Rightarrow> []
           | Some inbound \<Rightarrow> inbound # read_deliveries rest))"
  by pat_completeness auto
termination by (relation "measure length") (auto dest: read_prefixed_shorter)

declare read_deliveries.simps [simp del]

text \<open>The hub's reader of one node (\<open>accept_nodes\<close> of \<open>src/bin/lcq-hub.rs\<close>).\<close>

function read_uplink :: "bytes \<Rightarrow> bytes list" where
  "read_uplink bs =
     (case read_prefixed bs of None \<Rightarrow> [] | Some (frame, rest) \<Rightarrow> frame # read_uplink rest)"
  by pat_completeness auto
termination by (relation "measure length") (auto dest: read_prefixed_shorter)

declare read_uplink.simps [simp del]

text \<open>The next delivery of the inbox; preamble notices are skipped.\<close>

fun socket_poll :: "Inbound list \<Rightarrow> Delivery option \<times> Inbound list" where
  "socket_poll [] = (None, [])"
| "socket_poll (InDelivery d # rest) = (Some d, rest)"
| "socket_poll (InPreamble p # rest) = socket_poll rest"

section \<open>The socket as a radio\<close>

text \<open>What the radio writes to its socket, or why it refuses.\<close>

definition hub_transmit :: "bytes \<Rightarrow> (RadioError, bytes) result" where
  "hub_transmit bs =
     (if length bs > MAX_SOCKET_FRAME_BYTES then Inl (TooLong (length bs) MAX_SOCKET_FRAME_BYTES)
      else Inr (hub_send bs))"

definition delivery_event :: "Delivery \<Rightarrow> RadioEvent" where
  "delivery_event d =
     (case dl_verdict d of
        HubDecoded \<Rightarrow> EvReceived \<lparr>rc_bytes = dl_bytes d, rc_rssi_dbm = dl_rssi_dbm d, rc_snr_db = dl_snr_db d\<rparr>
      | HubHeaderError \<Rightarrow> EvHeaderError (dl_rssi_dbm d)
      | HubCrcError \<Rightarrow> EvCrcError (dl_rssi_dbm d))"

definition hub_poll :: "Inbound list \<Rightarrow> RadioEvent option \<times> Inbound list" where
  "hub_poll inbox = (case socket_poll inbox of (d, rest) \<Rightarrow> (map_option delivery_event d, rest))"

section \<open>Messages survive the wire\<close>

lemma verdict_round_trip [simp]: "verdict_from_byte (verdict_byte v) = Some v"
  by (cases v) (simp_all add: verdict_from_byte_def)

lemma verdict_byte_back: "verdict_from_byte b = Some v \<Longrightarrow> verdict_byte v = b"
  by (auto simp: verdict_from_byte_def split: if_splits)

lemma le_bytes_listed:
  "le_bytes 2 (v :: i16) = [ucast v, ucast (drop_bit 8 v)]"
  "le_bytes 4 (x :: u32) = [ucast x, ucast (drop_bit 8 x), ucast (drop_bit 16 x), ucast (drop_bit 24 x)]"
  by (simp_all add: numeral_eq_Suc)

lemma of_le_listed:
  "of_le_bytes [ucast v, ucast (drop_bit 8 v)] = (v :: i16)"
  "of_le_bytes [ucast x, ucast (drop_bit 8 x), ucast (drop_bit 16 x), ucast (drop_bit 24 x)] = (x :: u32)"
proof -
  show "of_le_bytes [ucast v, ucast (drop_bit 8 v)] = (v :: i16)"
    using of_le_bytes_of_le_bytes_full [of 2 v] by (simp only: le_bytes_listed) simp
  show "of_le_bytes [ucast x, ucast (drop_bit 8 x), ucast (drop_bit 16 x), ucast (drop_bit 24 x)] = (x :: u32)"
    using le_bytes_32 [of x] by (simp only: le_bytes_listed)
qed

lemma delivery_round_trip: "inbound_decode (delivery_encode d) = Some (InDelivery d)"
  by (simp add: inbound_decode_def delivery_decode_def delivery_encode_def le_bytes_listed of_le_listed
      hub_sizes del: of_le_bytes.simps le_bytes.simps)

lemma preamble_round_trip: "inbound_decode (preamble_encode p) = Some (InPreamble p)"
  by (simp add: inbound_decode_def preamble_decode_def preamble_encode_def le_bytes_listed of_le_listed
      hub_sizes del: of_le_bytes.simps le_bytes.simps)

lemma delivery_decode_encode:
  assumes "delivery_decode e = Some d"
  shows "delivery_encode d = e"
proof -
  from assms obtain v where len: "9 \<le> length e" and tag: "e ! 0 = DELIVERY_TAG"
    and v: "verdict_from_byte (e ! 8) = Some v"
    and d: "d = \<lparr>dl_bytes = drop 9 e, dl_rssi_dbm = of_le_bytes [e ! 1, e ! 2], dl_snr_db = e ! 3,
              dl_airtime_ms = of_le_bytes [e ! 4, e ! 5, e ! 6, e ! 7], dl_verdict = v\<rparr>"
    by (auto simp: delivery_decode_def hub_sizes not_less split: if_splits option.splits)
  have r: "le_bytes 2 (of_le_bytes [a, b] :: i16) = [a, b]" for a b
    using le_bytes_of_le_bytes [of "[a, b]", where 'a = 16] by (simp del: of_le_bytes.simps le_bytes.simps add: numeral_2_eq_2)
  have t: "le_bytes 4 (of_le_bytes [a, b, c, f] :: u32) = [a, b, c, f]" for a b c f
    using le_bytes_of_le_bytes [of "[a, b, c, f]", where 'a = 32] by (simp del: of_le_bytes.simps le_bytes.simps add: eval_nat_numeral)
  have "\<exists>t0 t1 t2 t3 t4 t5 t6 t7 t8 rest. e = [t0, t1, t2, t3, t4, t5, t6, t7, t8] @ rest"
    using len by (auto simp: eval_nat_numeral Suc_le_length_iff)
  then obtain t0 t1 t2 t3 t4 t5 t6 t7 t8 rest
    where "e = [t0, t1, t2, t3, t4, t5, t6, t7, t8] @ rest" by blast
  with tag verdict_byte_back [OF v] show ?thesis
    by (simp add: delivery_encode_def d r t del: of_le_bytes.simps le_bytes.simps)
qed

lemma prefixed_read:
  assumes "0 < length bs" and "length bs \<le> MAX_SOCKET_FRAME_BYTES"
  shows "read_prefixed (prefixed bs @ rest) = Some (bs, rest)"
  using assms
  by (simp add: read_prefixed_def prefixed_def Let_def hub_sizes unat_of_nat)

lemma prefixed_refused:
  assumes "bs = [] \<or> MAX_SOCKET_FRAME_BYTES < length bs" and "length bs < 2 ^ 32"
  shows "read_prefixed (prefixed bs @ rest) = None"
  using assms
  by (auto simp: read_prefixed_def prefixed_def Let_def hub_sizes unat_of_nat)

definition inbound_encode :: "Inbound \<Rightarrow> bytes" where
  "inbound_encode m = (case m of InDelivery d \<Rightarrow> delivery_encode d | InPreamble p \<Rightarrow> preamble_encode p)"

lemma inbound_round_trip: "inbound_decode (inbound_encode m) = Some m"
  by (cases m) (simp_all add: inbound_encode_def delivery_round_trip preamble_round_trip)

lemma length_encoded [simp]:
  "length (delivery_encode d) = 9 + length (dl_bytes d)"
  "length (preamble_encode p) = 7"
  by (simp_all add: delivery_encode_def preamble_encode_def)

lemma length_inbound_encode:
  "length (inbound_encode m) = (case m of InDelivery d \<Rightarrow> 9 + length (dl_bytes d) | InPreamble p \<Rightarrow> 7)"
  by (cases m) (simp_all add: inbound_encode_def)

definition fits_socket :: "Inbound \<Rightarrow> bool" where
  "fits_socket m = (length (inbound_encode m) \<le> MAX_SOCKET_FRAME_BYTES)"

lemma read_deliveries_step:
  "fits_socket m \<Longrightarrow> read_deliveries (prefixed (inbound_encode m) @ rest) = m # read_deliveries rest"
  by (subst read_deliveries.simps, subst prefixed_read)
     (auto simp: fits_socket_def inbound_round_trip length_inbound_encode split: Inbound.splits)

lemma read_deliveries_stream:
  "list_all fits_socket ms
    \<Longrightarrow> read_deliveries (concat (map (prefixed \<circ> inbound_encode) ms) @ rest) = ms @ read_deliveries rest"
  by (induction ms) (simp_all add: read_deliveries_step)

text \<open>A delivery one header too long for the socket ends the reader, whatever follows it.\<close>

lemma long_delivery_stops_reader:
  assumes "MAX_SOCKET_FRAME_BYTES < DELIVERY_HEADER_BYTES + length (dl_bytes d)"
    and "length (dl_bytes d) < 2 ^ 31"
  shows "read_deliveries (write_delivery d @ rest) = []"
  using assms
  by (subst read_deliveries.simps) (simp add: write_delivery_def prefixed_refused hub_sizes)

lemma read_uplink_stream:
  "list_all (\<lambda>f. f \<noteq> [] \<and> length f \<le> MAX_SOCKET_FRAME_BYTES) fs
    \<Longrightarrow> read_uplink (concat (map hub_send fs) @ rest) = fs @ read_uplink rest"
  by (induction fs) (simp_all add: read_uplink.simps [of "_ @ _"] hub_send_def prefixed_read)

lemma read_uplink_Nil [simp]: "read_uplink [] = []" "read_deliveries [] = []"
  by (simp_all add: read_uplink.simps read_deliveries.simps read_prefixed_def)

section \<open>What a node's radio reports\<close>

text \<open>Polling the radio until it has nothing more.\<close>

fun poll_all :: "nat \<Rightarrow> Inbound list \<Rightarrow> RadioEvent list" where
  "poll_all 0 inbox = []"
| "poll_all (Suc n) inbox =
     (case hub_poll inbox of (None, _) \<Rightarrow> [] | (Some e, rest) \<Rightarrow> e # poll_all n rest)"

definition deliveries :: "Inbound list \<Rightarrow> Delivery list" where
  "deliveries ms = concat (map (\<lambda>m. case m of InDelivery d \<Rightarrow> [d] | InPreamble _ \<Rightarrow> []) ms)"

lemma poll_all_deliveries:
  "length ms \<le> n \<Longrightarrow> poll_all n ms = map delivery_event (deliveries ms)"
proof (induction ms arbitrary: n)
  case Nil
  then show ?case by (cases n) (simp_all add: hub_poll_def deliveries_def)
next
  case (Cons m ms)
  then obtain k where n: "n = Suc k" "length ms \<le> k" by (cases n) auto
  show ?case
  proof (cases m)
    case (InDelivery d)
    with n Cons.IH [of k] show ?thesis by (simp add: hub_poll_def deliveries_def)
  next
    case (InPreamble p)
    then have "poll_all n (m # ms) = poll_all n ms" using n by (simp add: hub_poll_def)
    with InPreamble n Cons.IH [of n] show ?thesis by (simp add: deliveries_def)
  qed
qed

text \<open>
  Whatever the hub writes to a node, each message no longer than the socket takes, the
  node's radio reports the deliveries in order, each as what the receiver made of it, and
  what follows the messages changes nothing of them.
\<close>

theorem hub_radio_reports:
  assumes "list_all fits_socket ms" and "length ms \<le> n"
  shows "poll_all n (read_deliveries (concat (map (prefixed \<circ> inbound_encode) ms)))
    = map delivery_event (deliveries ms)"
  using read_deliveries_stream [OF assms(1), of "[]"] poll_all_deliveries [OF assms(2)] by simp

theorem hub_radio_reports_witness:
  "poll_all 9 (read_deliveries (write_preamble \<lparr>pr_rssi_dbm = 5, pr_airtime_ms = 700\<rparr>
      @ write_delivery \<lparr>dl_bytes = [1, 2], dl_rssi_dbm = 9, dl_snr_db = 3, dl_airtime_ms = 700, dl_verdict = HubDecoded\<rparr>
      @ write_delivery \<lparr>dl_bytes = [], dl_rssi_dbm = 8, dl_snr_db = 3, dl_airtime_ms = 700, dl_verdict = HubHeaderError\<rparr>))
   = [EvReceived \<lparr>rc_bytes = [1, 2], rc_rssi_dbm = 9, rc_snr_db = 3\<rparr>, EvHeaderError 8]"
  using hub_radio_reports [of "[InPreamble \<lparr>pr_rssi_dbm = 5, pr_airtime_ms = 700\<rparr>,
      InDelivery \<lparr>dl_bytes = [1, 2], dl_rssi_dbm = 9, dl_snr_db = 3, dl_airtime_ms = 700, dl_verdict = HubDecoded\<rparr>,
      InDelivery \<lparr>dl_bytes = [], dl_rssi_dbm = 8, dl_snr_db = 3, dl_airtime_ms = 700, dl_verdict = HubHeaderError\<rparr>]" 9]
  by (simp add: fits_socket_def length_inbound_encode hub_sizes inbound_encode_def write_preamble_def
      write_delivery_def deliveries_def delivery_event_def)

text \<open>
  The radio takes any frame of up to 4096 bytes, and the hub's reader of the node gets
  each of them whole and in order, if none is empty. An empty one ends that reader: the
  node transmits on, and nothing more of it is on the channel.
\<close>

theorem hub_uplink:
  assumes "list_all (\<lambda>f. f \<noteq> [] \<and> (\<exists>w. hub_transmit f = Inr w)) fs"
  shows "read_uplink (concat (map hub_send fs)) = fs
    \<and> read_uplink (concat (map hub_send (fs @ [] # gs))) = fs"
proof -
  have ok: "list_all (\<lambda>f. f \<noteq> [] \<and> length f \<le> MAX_SOCKET_FRAME_BYTES) fs"
    using assms by (auto simp: list_all_iff hub_transmit_def split: if_splits)
  have "read_uplink (hub_send [] @ rest) = []" for rest
    by (subst read_uplink.simps) (simp add: hub_send_def prefixed_refused)
  then show ?thesis
    using read_uplink_stream [OF ok, of "[]"] read_uplink_stream [OF ok] by simp
qed

theorem hub_uplink_witness:
  "read_uplink (hub_send [7, 8] @ hub_send [] @ hub_send [9]) = [[7, 8]]"
  using hub_uplink [of "[[7, 8]]" "[[9]]"] by (simp add: hub_transmit_def hub_sizes)

text \<open>
  A frame the radio takes is not always one a receiver can be told of: from 4088 bytes on,
  the delivery no longer fits the socket, and the reader of every node it is delivered to
  stops for good.
\<close>

theorem long_frame_deafens:
  assumes "4088 \<le> length f" and "length f \<le> 4096" and "dl_bytes d = f"
  shows "hub_transmit f = Inr (hub_send f) \<and> read_uplink (hub_send f) = [f]
    \<and> read_deliveries (write_delivery d @ rest) = []"
proof -
  have "read_uplink (hub_send f @ []) = [f] @ read_uplink []"
    using read_uplink_stream [of "[f]" "[]"] assms by (simp add: hub_sizes) (cases f; simp)
  then show ?thesis
    using assms long_delivery_stops_reader [of d rest] by (simp add: hub_transmit_def hub_sizes)
qed

theorem long_frame_deafens_witness:
  "read_deliveries (write_delivery \<lparr>dl_bytes = replicate 4090 1, dl_rssi_dbm = 9, dl_snr_db = 3,
     dl_airtime_ms = 700, dl_verdict = HubDecoded\<rparr> @ write_preamble \<lparr>pr_rssi_dbm = 5, pr_airtime_ms = 700\<rparr>) = []"
  using long_frame_deafens [of "replicate 4090 1"
      "\<lparr>dl_bytes = replicate 4090 1, dl_rssi_dbm = 9, dl_snr_db = 3, dl_airtime_ms = 700, dl_verdict = HubDecoded\<rparr>"
      "write_preamble \<lparr>pr_rssi_dbm = 5, pr_airtime_ms = 700\<rparr>"]
  by simp

end
