(* ===== verification/Lcq_Chip.thy ===== *)
theory Lcq_Chip
  imports Lcq_Hub Lcq_Clock
begin

text \<open>
  \<open>src/infrastructure/sx126x/chip.rs\<close>: the virtual SX1262. The registers and buffers of
  the chip are one record, \<open>Model\<close>; a command, a delivery, a preamble notice, a timer that
  fires and the reset line are functions on it, each given the instants it reads. What
  the chip sends to its medium and to its host, and the timers it starts, are the other
  fields of \<open>Chip\<close>. The figures of the crate \<open>lora_modulation\<close>, which is not part of the
  repository, are the parameter \<open>Lora\<close>. The mutex, the threads and the condition variable
  are not modelled: every operation runs under the lock, and a thread that sleeps is an
  entry of \<open>ch_timers\<close> that may fire once its time has come.
\<close>

section \<open>Opcodes and interrupt flags\<close>

definition OP_WRITE_REGISTER :: u8 where "OP_WRITE_REGISTER = 0x0D"
definition OP_READ_REGISTER :: u8 where "OP_READ_REGISTER = 0x1D"
definition OP_WRITE_BUFFER :: u8 where "OP_WRITE_BUFFER = 0x0E"
definition OP_READ_BUFFER :: u8 where "OP_READ_BUFFER = 0x1E"
definition OP_SET_SLEEP :: u8 where "OP_SET_SLEEP = 0x84"
definition OP_SET_STANDBY :: u8 where "OP_SET_STANDBY = 0x80"
definition OP_SET_FS :: u8 where "OP_SET_FS = 0xC1"
definition OP_SET_TX :: u8 where "OP_SET_TX = 0x83"
definition OP_SET_RX :: u8 where "OP_SET_RX = 0x82"
definition OP_SET_RX_DUTY_CYCLE :: u8 where "OP_SET_RX_DUTY_CYCLE = 0x94"
definition OP_SET_CAD :: u8 where "OP_SET_CAD = 0xC5"
definition OP_SET_CAD_PARAMS :: u8 where "OP_SET_CAD_PARAMS = 0x88"
definition OP_GET_PACKET_TYPE :: u8 where "OP_GET_PACKET_TYPE = 0x11"
definition OP_SET_RF_FREQUENCY :: u8 where "OP_SET_RF_FREQUENCY = 0x86"
definition OP_SET_BUFFER_BASE_ADDRESS :: u8 where "OP_SET_BUFFER_BASE_ADDRESS = 0x8F"
definition OP_SET_MODULATION_PARAMS :: u8 where "OP_SET_MODULATION_PARAMS = 0x8B"
definition OP_SET_PACKET_PARAMS :: u8 where "OP_SET_PACKET_PARAMS = 0x8C"
definition OP_GET_RX_BUFFER_STATUS :: u8 where "OP_GET_RX_BUFFER_STATUS = 0x13"
definition OP_GET_PACKET_STATUS :: u8 where "OP_GET_PACKET_STATUS = 0x14"
definition OP_GET_RSSI_INST :: u8 where "OP_GET_RSSI_INST = 0x15"
definition OP_GET_STATS :: u8 where "OP_GET_STATS = 0x10"
definition OP_CFG_DIO_IRQ :: u8 where "OP_CFG_DIO_IRQ = 0x08"
definition OP_GET_IRQ_STATUS :: u8 where "OP_GET_IRQ_STATUS = 0x12"
definition OP_CLR_IRQ_STATUS :: u8 where "OP_CLR_IRQ_STATUS = 0x02"
definition OP_GET_STATUS :: u8 where "OP_GET_STATUS = 0xC0"
definition OP_GET_DEVICE_ERRORS :: u8 where "OP_GET_DEVICE_ERRORS = 0x17"
definition OP_CLEAR_DEVICE_ERRORS :: u8 where "OP_CLEAR_DEVICE_ERRORS = 0x07"

lemmas opcodes = OP_WRITE_REGISTER_def OP_READ_REGISTER_def OP_WRITE_BUFFER_def OP_READ_BUFFER_def
  OP_SET_SLEEP_def OP_SET_STANDBY_def OP_SET_FS_def OP_SET_TX_def OP_SET_RX_def
  OP_SET_RX_DUTY_CYCLE_def OP_SET_CAD_def OP_SET_CAD_PARAMS_def OP_GET_PACKET_TYPE_def
  OP_SET_RF_FREQUENCY_def OP_SET_BUFFER_BASE_ADDRESS_def OP_SET_MODULATION_PARAMS_def
  OP_SET_PACKET_PARAMS_def OP_GET_RX_BUFFER_STATUS_def OP_GET_PACKET_STATUS_def
  OP_GET_RSSI_INST_def OP_GET_STATS_def OP_CFG_DIO_IRQ_def OP_GET_IRQ_STATUS_def
  OP_CLR_IRQ_STATUS_def OP_GET_STATUS_def OP_GET_DEVICE_ERRORS_def OP_CLEAR_DEVICE_ERRORS_def

definition IRQ_TX_DONE :: u16 where "IRQ_TX_DONE = 0x0001"
definition IRQ_RX_DONE :: u16 where "IRQ_RX_DONE = 0x0002"
definition IRQ_PREAMBLE_DETECTED :: u16 where "IRQ_PREAMBLE_DETECTED = 0x0004"
definition IRQ_SYNCWORD_VALID :: u16 where "IRQ_SYNCWORD_VALID = 0x0008"
definition IRQ_HEADER_VALID :: u16 where "IRQ_HEADER_VALID = 0x0010"
definition IRQ_HEADER_ERR :: u16 where "IRQ_HEADER_ERR = 0x0020"
definition IRQ_CRC_ERR :: u16 where "IRQ_CRC_ERR = 0x0040"
definition IRQ_CAD_DONE :: u16 where "IRQ_CAD_DONE = 0x0080"
definition IRQ_CAD_DETECTED :: u16 where "IRQ_CAD_DETECTED = 0x0100"
definition IRQ_TIMEOUT :: u16 where "IRQ_TIMEOUT = 0x0200"

lemmas irq_flags = IRQ_TX_DONE_def IRQ_RX_DONE_def IRQ_PREAMBLE_DETECTED_def IRQ_SYNCWORD_VALID_def
  IRQ_HEADER_VALID_def IRQ_HEADER_ERR_def IRQ_CRC_ERR_def IRQ_CAD_DONE_def IRQ_CAD_DETECTED_def
  IRQ_TIMEOUT_def

definition PACKET_TYPE_LORA :: u8 where "PACKET_TYPE_LORA = 1"
definition RX_CONTINUOUS_TICKS :: u32 where "RX_CONTINUOUS_TICKS = 0x00FFFFFF"
definition TICK :: duration where "TICK = 15625"
definition BUSY :: duration where "BUSY = 100000"
definition LATE_TOLERANCE_FLOOR :: duration where "LATE_TOLERANCE_FLOOR = 5000000"
definition IDLE_RSSI_DBM :: i16 where "IDLE_RSSI_DBM = - 117"
definition BUFFER_BYTES :: nat where "BUFFER_BYTES = 256"

section \<open>State\<close>

datatype ChipMode = Sleep | StandbyRc | StandbyXosc | FrequencySynthesis | Transmit | Receive

fun status_bits :: "ChipMode \<Rightarrow> u8" where
  "status_bits Sleep = 0x00"
| "status_bits StandbyRc = 0x20"
| "status_bits StandbyXosc = 0x30"
| "status_bits FrequencySynthesis = 0x40"
| "status_bits Receive = 0x50"
| "status_bits Transmit = 0x60"

record Counters =
  ct_transmitted :: u32
  ct_received :: u32
  ct_crc_errors :: u32
  ct_header_errors :: u32
  ct_missed_transmitting :: u32
  ct_missed_idle :: u32
  ct_missed_late :: u32
  ct_timeouts :: u32
  ct_cad_runs :: u32
  ct_cad_detections :: u32

definition counters_zero :: Counters where
  "counters_zero = \<lparr>ct_transmitted = 0, ct_received = 0, ct_crc_errors = 0, ct_header_errors = 0,
     ct_missed_transmitting = 0, ct_missed_idle = 0, ct_missed_late = 0, ct_timeouts = 0,
     ct_cad_runs = 0, ct_cad_detections = 0\<rparr>"

record Activity =
  ac_irq :: bool
  ac_host :: bool

datatype SpreadingFactor = SF5 | SF6 | SF7 | SF8 | SF9 | SF10 | SF11 | SF12
datatype Bandwidth = BW7 | BW10 | BW15 | BW20 | BW31 | BW41 | BW62 | BW125 | BW250 | BW500
datatype CodingRate = CR5 | CR6 | CR7 | CR8

definition spreading_factor_from_raw :: "u8 \<Rightarrow> SpreadingFactor option" where
  "spreading_factor_from_raw v =
     (if v = 5 then Some SF5 else if v = 6 then Some SF6 else if v = 7 then Some SF7
      else if v = 8 then Some SF8 else if v = 9 then Some SF9 else if v = 10 then Some SF10
      else if v = 11 then Some SF11 else if v = 12 then Some SF12 else None)"

definition bandwidth_from_raw :: "u8 \<Rightarrow> Bandwidth option" where
  "bandwidth_from_raw v =
     (if v = 0 then Some BW7 else if v = 8 then Some BW10 else if v = 1 then Some BW15
      else if v = 9 then Some BW20 else if v = 2 then Some BW31 else if v = 10 then Some BW41
      else if v = 3 then Some BW62 else if v = 4 then Some BW125 else if v = 5 then Some BW250
      else if v = 6 then Some BW500 else None)"

definition coding_rate_from_raw :: "u8 \<Rightarrow> CodingRate option" where
  "coding_rate_from_raw v =
     (if v = 1 then Some CR5 else if v = 2 then Some CR6 else if v = 3 then Some CR7
      else if v = 4 then Some CR8 else None)"

type_synonym Modulation = "SpreadingFactor \<times> Bandwidth \<times> CodingRate"

text \<open>What the crate says of a modulation: the symbol and the time on air, in microseconds.\<close>

record Lora =
  symbol_duration_us :: "Modulation \<Rightarrow> u32"
  time_on_air_us :: "Modulation \<Rightarrow> u8 option \<Rightarrow> bool \<Rightarrow> u8 \<Rightarrow> u32"

record Packet =
  pk_preamble_symbols :: u16
  pk_implicit_header :: bool
  pk_payload_length :: u8

datatype Timer =
    TxDone duration u64
  | RxTimeout duration u64
  | CadDone duration u64 bool

record OnAir =
  oa_started :: instant
  oa_preamble_until :: instant
  oa_until :: instant

record Model =
  cm_mode :: ChipMode
  cm_registers :: "u16 \<rightharpoonup> u8"
  cm_buffer :: bytes
  cm_tx_base :: u8
  cm_rx_base :: u8
  cm_modulation :: "Modulation option"
  cm_packet :: Packet
  cm_frequency_raw :: u32
  cm_irq_status :: u16
  cm_irq_mask :: u16
  cm_dio1_mask :: u16
  cm_rx_len :: u8
  cm_rx_offset :: u8
  cm_rssi_raw :: u8
  cm_snr_raw :: u8
  cm_rx_since :: "instant option"
  cm_rx_continuous :: bool
  cm_generation :: u64
  cm_busy_until :: "instant option"
  cm_host_wake :: bool
  cm_counters :: Counters
  cm_on_air :: "OnAir list"
  cm_cad_symbols :: u8

definition model_fresh :: Model where
  "model_fresh =
     \<lparr>cm_mode = StandbyRc, cm_registers = Map.empty, cm_buffer = replicate BUFFER_BYTES 0,
      cm_tx_base = 0, cm_rx_base = 0, cm_modulation = None,
      cm_packet = \<lparr>pk_preamble_symbols = 8, pk_implicit_header = False, pk_payload_length = 0\<rparr>,
      cm_frequency_raw = 0, cm_irq_status = 0, cm_irq_mask = 0, cm_dio1_mask = 0, cm_rx_len = 0,
      cm_rx_offset = 0, cm_rssi_raw = 0, cm_snr_raw = 0, cm_rx_since = None, cm_rx_continuous = False,
      cm_generation = 0, cm_busy_until = None, cm_host_wake = False, cm_counters = counters_zero,
      cm_on_air = [], cm_cad_symbols = 8\<rparr>"

definition chip_register :: "Model \<Rightarrow> u16 \<Rightarrow> u8" where
  "chip_register m address = (case cm_registers m address of None \<Rightarrow> 0 | Some b \<Rightarrow> b)"

definition chip_raise :: "u16 \<Rightarrow> Model \<Rightarrow> Model" where
  "chip_raise bits m = m\<lparr>cm_irq_status := cm_irq_status m OR (bits AND cm_irq_mask m)\<rparr>"

definition irq_on_dio1 :: "Model \<Rightarrow> bool" where
  "irq_on_dio1 m = (cm_irq_status m AND cm_dio1_mask m \<noteq> 0)"

definition set_mode :: "ChipMode \<Rightarrow> Model \<Rightarrow> Model" where
  "set_mode md m =
     m\<lparr>cm_mode := md, cm_rx_since := (if md \<noteq> Receive then None else cm_rx_since m),
       cm_generation := cm_generation m + 1\<rparr>"

section \<open>Commands\<close>

text \<open>A parameter byte, zero when the command is shorter.\<close>

definition param :: "bytes \<Rightarrow> nat \<Rightarrow> u8" where
  "param ps i = (if i < length ps then ps ! i else 0)"

definition param16 :: "bytes \<Rightarrow> nat \<Rightarrow> u16" where
  "param16 ps i = of_be_bytes [param ps i, param ps (i + 1)]"

definition write_registers :: "bytes \<Rightarrow> Model \<Rightarrow> Model" where
  "write_registers ps m =
     m\<lparr>cm_registers := foldl (\<lambda>r (offset, b).
         r(param16 ps 0 + (if offset < 2 ^ 16 then of_nat offset else - 1) \<mapsto> b))
       (cm_registers m) (enumerate 0 (drop 2 ps))\<rparr>"

definition put_bytes :: "nat \<Rightarrow> bytes \<Rightarrow> Model \<Rightarrow> Model" where
  "put_bytes base bs m =
     m\<lparr>cm_buffer := foldl (\<lambda>buf (offset, b). buf[(base + offset) mod BUFFER_BYTES := b])
       (cm_buffer m) (enumerate 0 bs)\<rparr>"

definition chip_configure :: "u8 \<Rightarrow> bytes \<Rightarrow> Model \<Rightarrow> Model" where
  "chip_configure opcode ps m =
     (if opcode = OP_WRITE_REGISTER then write_registers ps m
      else if opcode = OP_WRITE_BUFFER then put_bytes (unat (param ps 0)) (drop 1 ps) m
      else if opcode = OP_SET_SLEEP then set_mode Sleep m
      else if opcode = OP_SET_STANDBY then set_mode (if param ps 0 = 1 then StandbyXosc else StandbyRc) m
      else if opcode = OP_SET_FS then set_mode FrequencySynthesis m
      else if opcode = OP_SET_RF_FREQUENCY then
        m\<lparr>cm_frequency_raw := of_be_bytes [param ps 0, param ps 1, param ps 2, param ps 3]\<rparr>
      else if opcode = OP_SET_BUFFER_BASE_ADDRESS then m\<lparr>cm_tx_base := param ps 0, cm_rx_base := param ps 1\<rparr>
      else if opcode = OP_SET_MODULATION_PARAMS then
        (case (spreading_factor_from_raw (param ps 0), bandwidth_from_raw (param ps 1),
               coding_rate_from_raw (param ps 2)) of
           (Some sf, Some bw, Some cr) \<Rightarrow> m\<lparr>cm_modulation := Some (sf, bw, cr)\<rparr>
         | _ \<Rightarrow> m)
      else if opcode = OP_SET_PACKET_PARAMS then
        m\<lparr>cm_packet := \<lparr>pk_preamble_symbols = param16 ps 0, pk_implicit_header = (param ps 2 = 1),
            pk_payload_length = param ps 3\<rparr>\<rparr>
      else if opcode = OP_CFG_DIO_IRQ then m\<lparr>cm_irq_mask := param16 ps 0, cm_dio1_mask := param16 ps 2\<rparr>
      else if opcode = OP_CLR_IRQ_STATUS then m\<lparr>cm_irq_status := cm_irq_status m AND NOT (param16 ps 0)\<rparr>
      else m)"

text \<open>\<open>RssiPkt\<close> and \<open>SnrPkt\<close> as the chip encodes them.\<close>

definition rssi_raw :: "i16 \<Rightarrow> u8" where
  "rssi_raw rssi = word_of_int (min 255 (max 0 (- sint rssi * 2)))"

definition snr_raw :: "i8 \<Rightarrow> u8" where
  "snr_raw snr = word_of_int (min 127 (max (- 128) (sint snr * 4)))"

definition chip_answer :: "Model \<Rightarrow> u8 \<Rightarrow> bytes \<Rightarrow> bytes" where
  "chip_answer m opcode ps =
     (let status = status_bits (cm_mode m)
      in if opcode = OP_READ_REGISTER then
           map (\<lambda>offset. chip_register m (param16 ps 0 + of_nat offset)) [0..<256]
         else if opcode = OP_READ_BUFFER then drop (unat (param ps 0)) (cm_buffer m)
         else if opcode = OP_GET_IRQ_STATUS then status # be_bytes 2 (cm_irq_status m)
         else if opcode = OP_GET_STATUS then [status]
         else if opcode = OP_GET_RX_BUFFER_STATUS then [status, cm_rx_len m, cm_rx_offset m]
         else if opcode = OP_GET_PACKET_STATUS then [status, cm_rssi_raw m, cm_snr_raw m, cm_rssi_raw m]
         else if opcode = OP_GET_RSSI_INST then [status, rssi_raw IDLE_RSSI_DBM]
         else if opcode = OP_GET_PACKET_TYPE then [status, PACKET_TYPE_LORA]
         else if opcode = OP_GET_DEVICE_ERRORS \<or> opcode = OP_CLEAR_DEVICE_ERRORS then [status, 0, 0]
         else if opcode = OP_GET_STATS then [status, 0, 0, 0, 0, 0, 0]
         else [])"

definition only_answers :: "u8 \<Rightarrow> bool" where
  "only_answers opcode =
     (opcode \<in> {OP_READ_REGISTER, OP_READ_BUFFER, OP_GET_IRQ_STATUS, OP_GET_STATUS,
       OP_GET_RX_BUFFER_STATUS, OP_GET_PACKET_STATUS, OP_GET_RSSI_INST, OP_GET_PACKET_TYPE,
       OP_GET_DEVICE_ERRORS, OP_CLEAR_DEVICE_ERRORS, OP_GET_STATS})"

text \<open>
  The chip: its registers, what it was made with, the timers it has started with the
  instant each may fire from, and what it has sent to the medium and told the host.
\<close>

record Chip =
  ch_model :: Model
  ch_scale :: u32
  ch_lock_symbols :: u16
  ch_timers :: "(instant \<times> Timer) list"
  ch_outbound :: "bytes list"
  ch_events :: "RadioEvent list"

definition chip_new :: "u32 \<Rightarrow> u16 \<Rightarrow> Chip" where
  "chip_new scale lock_symbols =
     \<lparr>ch_model = model_fresh, ch_scale = max scale 1, ch_lock_symbols = lock_symbols,
      ch_timers = [], ch_outbound = [], ch_events = []\<rparr>"

definition chip_scaled :: "Chip \<Rightarrow> duration \<Rightarrow> duration" where
  "chip_scaled c d = d div uint (ch_scale c)"

definition chip_reset :: "Chip \<Rightarrow> Chip" where
  "chip_reset c = c\<lparr>ch_model := model_fresh\<lparr>cm_counters := cm_counters (ch_model c)\<rparr>\<rparr>"

definition from_micros :: "u32 \<Rightarrow> duration" where
  "from_micros us = uint us * 1000"

text \<open>One symbol, eight milliseconds while no modulation has been set.\<close>

definition chip_symbol :: "Lora \<Rightarrow> Model \<Rightarrow> duration" where
  "chip_symbol lora m =
     (case cm_modulation m of None \<Rightarrow> 8000000 | Some md \<Rightarrow> from_micros (symbol_duration_us lora md))"

definition chip_airtime :: "Lora \<Rightarrow> Chip \<Rightarrow> duration" where
  "chip_airtime lora c =
     (let m = ch_model c; p = cm_packet m
      in case cm_modulation m of
           None \<Rightarrow> chip_scaled c 1000000000
         | Some md \<Rightarrow>
             chip_scaled c (from_micros (time_on_air_us lora md
               (Some (if pk_preamble_symbols p \<le> 255 then ucast (pk_preamble_symbols p) else 255))
               (\<not> pk_implicit_header p) (pk_payload_length p))))"

definition late_tolerance :: "Lora \<Rightarrow> Chip \<Rightarrow> duration" where
  "late_tolerance lora c =
     (let m = ch_model c; spare = sat_sub (pk_preamble_symbols (cm_packet m)) (ch_lock_symbols c)
      in max (chip_scaled c (chip_symbol lora m) * uint spare) LATE_TOLERANCE_FLOOR)"

text \<open>\<open>arm\<close>: a thread that sleeps and then fires.\<close>

fun timer_after :: "Timer \<Rightarrow> duration" where
  "timer_after (TxDone after _) = after"
| "timer_after (RxTimeout after _) = after"
| "timer_after (CadDone after _ _) = after"

definition chip_arm :: "instant \<Rightarrow> Timer \<Rightarrow> Chip \<Rightarrow> Chip" where
  "chip_arm now t c = c\<lparr>ch_timers := ch_timers c @ [(now + timer_after t, t)]\<rparr>"

definition tx_payload :: "Model \<Rightarrow> bytes" where
  "tx_payload m = map (\<lambda>offset. cm_buffer m ! ((unat (cm_tx_base m) + offset) mod BUFFER_BYTES))
     [0..<unat (pk_payload_length (cm_packet m))]"

definition begin_transmit :: "Lora \<Rightarrow> Chip \<Rightarrow> Timer \<times> Chip" where
  "begin_transmit lora c =
     (let payload = tx_payload (ch_model c); airtime = chip_airtime lora c;
          m = set_mode Transmit (ch_model c);
          m' = m\<lparr>cm_counters := (cm_counters m)\<lparr>ct_transmitted := ct_transmitted (cm_counters m) + 1\<rparr>\<rparr>
      in (TxDone airtime (cm_generation m'), c\<lparr>ch_outbound := ch_outbound c @ [payload], ch_model := m'\<rparr>))"

definition begin_receive :: "instant \<Rightarrow> bytes \<Rightarrow> Chip \<Rightarrow> Timer option \<times> Chip" where
  "begin_receive now timeout c =
     (let ticks = of_be_bytes (0 # timeout) :: u32;
          m = (set_mode Receive (ch_model c))
                \<lparr>cm_rx_since := Some now, cm_rx_continuous := (ticks = RX_CONTINUOUS_TICKS)\<rparr>
      in (if ticks = 0 \<or> cm_rx_continuous m then None
          else Some (RxTimeout (chip_scaled c (TICK * uint ticks)) (cm_generation m)),
          c\<lparr>ch_model := m\<rparr>))"

definition begin_cad :: "Lora \<Rightarrow> instant \<Rightarrow> Chip \<Rightarrow> Timer \<times> Chip" where
  "begin_cad lora now c =
     (let m = ch_model c;
          window = chip_scaled c (chip_symbol lora m * uint (cm_cad_symbols m));
          on_air = filter (\<lambda>f. now < oa_until f) (cm_on_air m);
          detected = list_ex (\<lambda>f. oa_started f \<le> now + window \<and> now \<le> oa_preamble_until f) on_air;
          m = set_mode FrequencySynthesis (m\<lparr>cm_on_air := on_air\<rparr>);
          ct = (cm_counters m)\<lparr>ct_cad_runs := ct_cad_runs (cm_counters m) + 1\<rparr>;
          ct = (if detected then ct\<lparr>ct_cad_detections := ct_cad_detections ct + 1\<rparr> else ct);
          m = m\<lparr>cm_counters := ct\<rparr>
      in (CadDone window (cm_generation m) detected, c\<lparr>ch_model := m\<rparr>))"

definition cad_symbols_of :: "u8 \<Rightarrow> u8" where
  "cad_symbols_of b = (if b = 0 then 1 else if b = 1 then 2 else if b = 2 then 4 else if b = 4 then 16 else 8)"

definition wake_up :: "Chip \<Rightarrow> Chip" where
  "wake_up c = (if cm_mode (ch_model c) = Sleep then c\<lparr>ch_model := set_mode StandbyRc (ch_model c)\<rparr> else c)"

text \<open>
  One command. The instants are the readings of the command itself and of BUSY; a timer
  is armed last, at the second of them.
\<close>

definition chip_command :: "Lora \<Rightarrow> instant \<Rightarrow> u8 \<Rightarrow> bytes \<Rightarrow> Chip \<Rightarrow> bytes \<times> Timer option \<times> Chip" where
  "chip_command lora now opcode ps c =
     (if only_answers opcode then (chip_answer (ch_model c) opcode ps, None, c)
      else if opcode = OP_SET_TX then (case begin_transmit lora c of (t, c') \<Rightarrow> ([], Some t, c'))
      else if opcode = OP_SET_RX \<or> opcode = OP_SET_RX_DUTY_CYCLE then
        (case begin_receive now [param ps 0, param ps 1, param ps 2] c of (t, c') \<Rightarrow> ([], t, c'))
      else if opcode = OP_SET_CAD_PARAMS then
        ([], None, c\<lparr>ch_model := (ch_model c)\<lparr>cm_cad_symbols := cad_symbols_of (param ps 0)\<rparr>\<rparr>)
      else if opcode = OP_SET_CAD then (case begin_cad lora now c of (t, c') \<Rightarrow> ([], Some t, c'))
      else ([], None, c\<lparr>ch_model := chip_configure opcode ps (ch_model c)\<rparr>))"

definition chip_execute :: "Lora \<Rightarrow> instant \<Rightarrow> instant \<Rightarrow> u8 \<Rightarrow> bytes \<Rightarrow> Chip \<Rightarrow> bytes \<times> Chip" where
  "chip_execute lora now later opcode ps c =
     (case chip_command lora now opcode ps (wake_up c) of
        (reply, timer, c) \<Rightarrow>
          let c = (if opcode \<noteq> OP_SET_SLEEP
                   then c\<lparr>ch_model := (ch_model c)\<lparr>cm_busy_until := Some (later + BUSY)\<rparr>\<rparr> else c)
          in (reply, case timer of None \<Rightarrow> c | Some t \<Rightarrow> chip_arm later t c))"

section \<open>The medium, the timers and the host\<close>

definition notice_preamble :: "Lora \<Rightarrow> instant \<Rightarrow> Preamble \<Rightarrow> Chip \<Rightarrow> Chip" where
  "notice_preamble lora now p c =
     (let m = ch_model c;
          symbols = uint (pk_preamble_symbols (cm_packet m)) + 5
      in c\<lparr>ch_model := m\<lparr>cm_on_air := filter (\<lambda>f. now < oa_until f) (cm_on_air m) @
          [\<lparr>oa_started = now, oa_preamble_until = now + chip_scaled c (chip_symbol lora m * symbols),
            oa_until = now + uint (pr_airtime_ms p) * 1000000\<rparr>]\<rparr>\<rparr>)"

definition timer_fires :: "Timer \<Rightarrow> Model \<Rightarrow> Model" where
  "timer_fires t m =
     (case t of
        TxDone _ g \<Rightarrow>
          if cm_mode m = Transmit \<and> cm_generation m = g then chip_raise IRQ_TX_DONE (set_mode StandbyRc m) else m
      | RxTimeout _ g \<Rightarrow>
          if cm_mode m = Receive \<and> cm_generation m = g
          then let m = chip_raise IRQ_TIMEOUT (set_mode StandbyRc m)
               in m\<lparr>cm_counters := (cm_counters m)\<lparr>ct_timeouts := ct_timeouts (cm_counters m) + 1\<rparr>\<rparr>
          else m
      | CadDone _ g detected \<Rightarrow>
          if cm_mode m = FrequencySynthesis \<and> cm_generation m = g
          then chip_raise (if detected then IRQ_CAD_DONE OR IRQ_CAD_DETECTED else IRQ_CAD_DONE)
                 (set_mode StandbyRc m)
          else m)"

definition chip_missed_note :: "string \<Rightarrow> Delivery \<Rightarrow> string" where
  "chip_missed_note why d =
     ''\"event\":\"chip_missed\",\"why\":\"'' @ why @ ''\",\"bytes\":'' @ show_dec (length (dl_bytes d))"

text \<open>A frame that ended here while the chip was not listening from nearly its start.\<close>

definition chip_missed :: "Delivery \<Rightarrow> Chip \<Rightarrow> Chip" where
  "chip_missed d c =
     (let m = ch_model c; ct = cm_counters m;
          (why, ct) = (case cm_mode m of
              Transmit \<Rightarrow> (''transmitting'', ct\<lparr>ct_missed_transmitting := ct_missed_transmitting ct + 1\<rparr>)
            | Receive \<Rightarrow> (''late'', ct\<lparr>ct_missed_late := ct_missed_late ct + 1\<rparr>)
            | _ \<Rightarrow> (''idle'', ct\<lparr>ct_missed_idle := ct_missed_idle ct + 1\<rparr>))
      in c\<lparr>ch_model := m\<lparr>cm_counters := ct\<rparr>, ch_events := ch_events c @ [EvNote (chip_missed_note why d)]\<rparr>)"

definition was_listening :: "Lora \<Rightarrow> instant \<Rightarrow> Delivery \<Rightarrow> Chip \<Rightarrow> bool" where
  "was_listening lora now d c =
     (let m = ch_model c; started = now - uint (dl_airtime_ms d) * 1000000
      in cm_mode m = Receive
         \<and> (case cm_rx_since m of None \<Rightarrow> False | Some t0 \<Rightarrow> t0 \<le> started + late_tolerance lora c))"

definition chip_header_error :: "Model \<Rightarrow> Model" where
  "chip_header_error m =
     (let m = chip_raise (IRQ_PREAMBLE_DETECTED OR IRQ_SYNCWORD_VALID OR IRQ_HEADER_ERR) m
      in m\<lparr>cm_counters := (cm_counters m)\<lparr>ct_header_errors := ct_header_errors (cm_counters m) + 1\<rparr>\<rparr>)"

definition chip_receive :: "Delivery \<Rightarrow> Model \<Rightarrow> Model" where
  "chip_receive d m =
     (let len = min (length (dl_bytes d)) 255;
          m = put_bytes (unat (cm_rx_base m)) (take len (dl_bytes d)) m;
          m = m\<lparr>cm_rx_len := of_nat len, cm_rx_offset := cm_rx_base m\<rparr>;
          flags = IRQ_PREAMBLE_DETECTED OR IRQ_SYNCWORD_VALID OR IRQ_HEADER_VALID OR IRQ_RX_DONE;
          ct = cm_counters m;
          m = (if dl_verdict d = HubDecoded
               then chip_raise flags (m\<lparr>cm_counters := ct\<lparr>ct_received := ct_received ct + 1\<rparr>\<rparr>)
               else chip_raise (flags OR IRQ_CRC_ERR)
                      (m\<lparr>cm_counters := ct\<lparr>ct_crc_errors := ct_crc_errors ct + 1\<rparr>\<rparr>))
      in if cm_rx_continuous m then m else set_mode StandbyRc m)"

definition chip_deliver :: "Lora \<Rightarrow> instant \<Rightarrow> Delivery \<Rightarrow> Chip \<Rightarrow> Chip" where
  "chip_deliver lora now d c =
     (if \<not> was_listening lora now d c then chip_missed d c
      else let m = (ch_model c)\<lparr>cm_rssi_raw := rssi_raw (dl_rssi_dbm d), cm_snr_raw := snr_raw (dl_snr_db d)\<rparr>
        in c\<lparr>ch_model := (if dl_verdict d = HubHeaderError then chip_header_error m else chip_receive d m)\<rparr>)"

text \<open>The host side: DIO1, the host's own wake, and how long BUSY holds a command back.\<close>

definition irq_pending :: "Chip \<Rightarrow> bool" where "irq_pending c = irq_on_dio1 (ch_model c)"

definition wake_host :: "Chip \<Rightarrow> Chip" where
  "wake_host c = c\<lparr>ch_model := (ch_model c)\<lparr>cm_host_wake := True\<rparr>\<rparr>"

definition end_wait :: "Chip \<Rightarrow> Activity \<times> Chip" where
  "end_wait c =
     (\<lparr>ac_irq = irq_on_dio1 (ch_model c), ac_host = cm_host_wake (ch_model c)\<rparr>,
      c\<lparr>ch_model := (ch_model c)\<lparr>cm_host_wake := False\<rparr>\<rparr>)"

text \<open>\<open>wait_for_activity\<close> looks again at each wake-up: \<open>None\<close> means it waits on.\<close>

definition wait_for_activity :: "instant \<Rightarrow> instant \<Rightarrow> Chip \<Rightarrow> (Activity \<times> Chip) option" where
  "wait_for_activity deadline now c =
     (let m = ch_model c
      in if irq_on_dio1 m \<or> cm_host_wake m \<or> deadline \<le> now then Some (end_wait c) else None)"

definition await_irq :: "Chip \<Rightarrow> Chip option" where
  "await_irq c =
     (let m = ch_model c
      in if irq_on_dio1 m \<or> cm_host_wake m then Some (snd (end_wait c)) else None)"

definition wait_on_busy :: "instant \<Rightarrow> Chip \<Rightarrow> duration" where
  "wait_on_busy now c =
     (case cm_busy_until (ch_model c) of None \<Rightarrow> 0 | Some until \<Rightarrow> max 0 (until - now))"

end
