(* ===== verification/Lcq_Bridge.thy ===== *)
theory Lcq_Bridge
  imports Lcq_Chip Lcq_Rnode
begin

text \<open>
  \<open>src/infrastructure/sx126x/bus.rs\<close> and \<open>bridge.rs\<close>: the SPI bus of the virtual chip, and
  the same bus over a serial cable. The protocol's bytes, the host's end (\<open>Link\<close>, the SPI
  device, the control lines and the watch) and the reference device on the virtual chip.
  What a port delivers, and when a wait times out, is a script: the answers of
  \<open>recv_timeout\<close> in order. The driver crate above the bus, the threads and the serial port
  are not modelled.
\<close>

section \<open>The bus of the virtual chip\<close>

text \<open>\<open>embedded_hal::spi::Operation\<close>: buffers to read into carry what they hold.\<close>

datatype Operation =
    OpRead bytes
  | OpWrite bytes
  | OpTransfer bytes bytes
  | OpTransferInPlace bytes
  | OpDelayNs u32

fun clocked_out :: "Operation \<Rightarrow> bytes" where
  "clocked_out (OpWrite bs) = bs"
| "clocked_out (OpTransfer _ bs) = bs"
| "clocked_out (OpTransferInPlace bs) = bs"
| "clocked_out _ = []"

text \<open>The next bytes of a reply, zeros once it is exhausted.\<close>

definition next_bytes :: "nat \<Rightarrow> bytes \<Rightarrow> bytes" where
  "next_bytes n reply = take n reply @ replicate (n - length reply) 0"

fun bus_fill :: "Operation list \<Rightarrow> bytes \<Rightarrow> Operation list" where
  "bus_fill [] reply = []"
| "bus_fill (OpRead buf # ops) reply =
     OpRead (next_bytes (length buf) reply) # bus_fill ops (drop (length buf) reply)"
| "bus_fill (OpTransferInPlace buf # ops) reply =
     OpTransferInPlace (next_bytes (length buf) reply) # bus_fill ops (drop (length buf) reply)"
| "bus_fill (OpTransfer buf w # ops) reply =
     OpTransfer (next_bytes (length buf) reply) w # bus_fill ops (drop (length buf) reply)"
| "bus_fill (OpWrite w # ops) reply = OpWrite w # bus_fill ops reply"
| "bus_fill (OpDelayNs n # ops) reply = OpDelayNs n # bus_fill ops reply"

text \<open>A command, if there is one to give.\<close>

definition execute_bytes :: "Lora \<Rightarrow> instant \<Rightarrow> instant \<Rightarrow> bytes \<Rightarrow> Chip \<Rightarrow> bytes \<times> Chip" where
  "execute_bytes lora now later command c =
     (case command of [] \<Rightarrow> ([], c) | opcode # ps \<Rightarrow> chip_execute lora now later opcode ps c)"

definition virtual_transaction ::
  "Lora \<Rightarrow> instant \<Rightarrow> instant \<Rightarrow> Operation list \<Rightarrow> Chip \<Rightarrow> Operation list \<times> Chip" where
  "virtual_transaction lora now later ops c =
     (case execute_bytes lora now later (concat (map clocked_out ops)) c of
        (reply, c') \<Rightarrow> (bus_fill ops reply, c'))"

section \<open>The protocol\<close>

definition VERSION :: u8 where "VERSION = 2"
definition HELLO :: u8 where "HELLO = 0x01"
definition RESET :: u8 where "RESET = 0x02"
definition WAIT_BUSY :: u8 where "WAIT_BUSY = 0x03"
definition PINS :: u8 where "PINS = 0x04"
definition RF :: u8 where "RF = 0x05"
definition SPI :: u8 where "SPI = 0x06"
definition EVENTS :: u8 where "EVENTS = 0x07"
definition REPLY :: u8 where "REPLY = 0x80"
definition EVENT_DIO1 :: u8 where "EVENT_DIO1 = 0xE1"
definition EVENT_ERROR :: u8 where "EVENT_ERROR = 0xEE"
definition STATUS_OK :: u8 where "STATUS_OK = 0"
definition STATUS_TIMEOUT :: u8 where "STATUS_TIMEOUT = 1"
definition STATUS_BAD_REQUEST :: u8 where "STATUS_BAD_REQUEST = 2"
definition STATUS_TOO_LONG :: u8 where "STATUS_TOO_LONG = 3"
definition STATUS_UNKNOWN_COMMAND :: u8 where "STATUS_UNKNOWN_COMMAND = 4"
definition OP_WRITE :: u8 where "OP_WRITE = 0"
definition OP_READ :: u8 where "OP_READ = 1"
definition OP_TRANSFER :: u8 where "OP_TRANSFER = 2"
definition OP_DELAY :: u8 where "OP_DELAY = 3"
definition RF_OFF :: u8 where "RF_OFF = 0"
definition RF_RX :: u8 where "RF_RX = 1"
definition RF_TX :: u8 where "RF_TX = 2"
definition BOARD_VIRTUAL :: u8 where "BOARD_VIRTUAL = 0xFE"
definition BRIDGE_FRAME_LIMIT :: nat where "BRIDGE_FRAME_LIMIT = 1100"
definition BUSY_LIMIT_MS :: u16 where "BUSY_LIMIT_MS = 100"

lemmas bridge_bytes = HELLO_def RESET_def WAIT_BUSY_def PINS_def RF_def SPI_def EVENTS_def REPLY_def
  EVENT_DIO1_def EVENT_ERROR_def
lemmas status_bytes = STATUS_OK_def STATUS_TIMEOUT_def STATUS_BAD_REQUEST_def STATUS_TOO_LONG_def
  STATUS_UNKNOWN_COMMAND_def
lemmas op_kinds = OP_WRITE_def OP_READ_def OP_TRANSFER_def OP_DELAY_def

definition push_op :: "u8 \<Rightarrow> nat \<Rightarrow> bytes \<Rightarrow> bytes" where
  "push_op kind len bs = kind # le_bytes 2 (if len < 2 ^ 16 then of_nat len else - 1 :: u16) @ bs"

fun encode_operation :: "Operation \<Rightarrow> bytes" where
  "encode_operation (OpWrite bs) = push_op OP_WRITE (length bs) bs"
| "encode_operation (OpRead buf) = push_op OP_READ (length buf) []"
| "encode_operation (OpTransfer r w) =
     (let len = max (length r) (length w)
      in push_op OP_TRANSFER len (take len w @ replicate (len - length w) 0))"
| "encode_operation (OpTransferInPlace buf) = push_op OP_TRANSFER (length buf) buf"
| "encode_operation (OpDelayNs ns) = push_op OP_DELAY ((unat ns + 999) div 1000) []"

definition encode_operations :: "Operation list \<Rightarrow> bytes" where
  "encode_operations ops = concat (map encode_operation ops)"

record DeviceOp =
  do_kind :: u8
  do_length :: nat
  do_bytes :: bytes

text \<open>One operation off the front of a payload.\<close>

definition decode_operation :: "bytes \<Rightarrow> (DeviceOp \<times> bytes) option" where
  "decode_operation payload =
     (case payload of
        kind # low # high # after \<Rightarrow>
          let len = unat (of_le_bytes [low, high] :: u16)
          in if kind = OP_WRITE \<or> kind = OP_TRANSFER then
               (if length after < len then None
                else Some (\<lparr>do_kind = kind, do_length = len, do_bytes = take len after\<rparr>, drop len after))
             else if kind = OP_READ \<or> kind = OP_DELAY then
               Some (\<lparr>do_kind = kind, do_length = len, do_bytes = []\<rparr>, after)
             else None
      | _ \<Rightarrow> None)"

lemma decode_operation_shorter: "decode_operation bs = Some (d, rest) \<Longrightarrow> length rest < length bs"
  by (auto simp: decode_operation_def Let_def split: list.splits if_splits)

function decode_operations :: "bytes \<Rightarrow> DeviceOp list option" where
  "decode_operations payload =
     (if payload = [] then Some []
      else case decode_operation payload of
          None \<Rightarrow> None
        | Some (d, rest) \<Rightarrow> map_option (Cons d) (decode_operations rest))"
  by pat_completeness auto
termination by (relation "measure length") (auto dest: decode_operation_shorter)

declare decode_operations.simps [simp del]

record Hello =
  he_protocol :: u8
  he_firmware :: "u8 \<times> u8"
  he_board :: u8
  he_session :: u32
  he_busy :: bool
  he_dio1 :: bool

definition hello_version :: "bytes \<Rightarrow> u8 option" where
  "hello_version body = first_byte body"

definition hello_parse :: "bytes \<Rightarrow> Hello option" where
  "hello_parse body =
     (case body of
        protocol # major # minor # board # s0 # s1 # s2 # s3 # busy # dio1 # _ \<Rightarrow>
          Some \<lparr>he_protocol = protocol, he_firmware = (major, minor), he_board = board,
            he_session = of_le_bytes [s0, s1, s2, s3], he_busy = (busy \<noteq> 0), he_dio1 = (dio1 \<noteq> 0)\<rparr>
      | _ \<Rightarrow> None)"

definition flag_byte :: "bool \<Rightarrow> u8" where "flag_byte b = (if b then 1 else 0)"

definition hello_encode :: "Hello \<Rightarrow> bytes" where
  "hello_encode h =
     [he_protocol h, fst (he_firmware h), snd (he_firmware h), he_board h]
     @ le_bytes 4 (he_session h) @ [flag_byte (he_busy h), flag_byte (he_dio1 h)]"

section \<open>The host's end\<close>

text \<open>
  Why a call failed. The port's own error carries nothing the code looks at, and the texts
  of protocol errors are shortened to what does not vary.
\<close>

datatype BridgeError =
    BridgePort
  | BridgeTimeout u8
  | BridgeGone
  | BridgeStatus u8 u8
  | BridgeDevice u8 u8
  | BridgeProtocol string
  | BridgeReset u32 u32

datatype FromPort = PortFrame bytes | PortWake | PortGone

text \<open>An answer of \<open>recv_timeout\<close>: something was there, or the deadline passed first.\<close>

datatype Recv = Got FromPort | TimedOut

record Link =
  lk_recv :: "Recv list"
  lk_write_ok :: "bool list"
  lk_written :: "bytes list"
  lk_irq :: bool
  lk_woken :: bool
  lk_session :: u32
  lk_poisoned :: bool

text \<open>What reading the port may give: bytes, nothing for now, or the end of it.\<close>

datatype PortRead = ReadBytes bytes | ReadNothing | ReadEnd

text \<open>\<open>read_frames\<close>: the reader thread, from what the port gives to what the link receives.\<close>

fun read_frames :: "Deframer \<Rightarrow> PortRead list \<Rightarrow> FromPort list" where
  "read_frames d [] = []"
| "read_frames d (ReadNothing # rs) = read_frames d rs"
| "read_frames d (ReadEnd # rs) = [PortGone]"
| "read_frames d (ReadBytes bs # rs) =
     (if bs = [] then [PortGone]
      else case deframer_push d bs of (d', frames) \<Rightarrow> map PortFrame frames @ read_frames d' rs)"

text \<open>
  Waiting for the reply to a command. Events that arrive meanwhile are kept: the flags are
  whether DIO1 rose, and whether the host asked for attention.
\<close>

fun await_reply :: "u8 \<Rightarrow> Recv list \<Rightarrow> bool \<Rightarrow> bool
    \<Rightarrow> (BridgeError, bytes) result \<times> Recv list \<times> bool \<times> bool" where
  "await_reply command [] irq woken = (Inl (BridgeTimeout command), [], irq, woken)"
| "await_reply command (TimedOut # rs) irq woken = (Inl (BridgeTimeout command), rs, irq, woken)"
| "await_reply command (Got PortGone # rs) irq woken = (Inl BridgeGone, rs, irq, woken)"
| "await_reply command (Got PortWake # rs) irq woken = await_reply command rs irq True"
| "await_reply command (Got (PortFrame frame) # rs) irq woken =
     (case frame of
        [] \<Rightarrow> await_reply command rs irq woken
      | head # body \<Rightarrow>
          if head = command OR REPLY then (Inr body, rs, irq, woken)
          else if head = EVENT_DIO1 then
            await_reply command rs (irq \<or> (case body of [] \<Rightarrow> True | level # _ \<Rightarrow> level \<noteq> 0)) woken
          else if head = EVENT_ERROR then
            (let offending = (case body of _ # o' # _ \<Rightarrow> o' | _ \<Rightarrow> command)
             in if offending = command
                then (Inl (BridgeDevice command (case body of [] \<Rightarrow> 0 | code # _ \<Rightarrow> code)), rs, irq, woken)
                else await_reply command rs irq woken)
          else await_reply command rs irq woken)"

definition link_guard :: "Link \<Rightarrow> (BridgeError, unit) result" where
  "link_guard l = (if lk_poisoned l then Inl (BridgeReset (lk_session l) (lk_session l)) else Inr ())"

definition link_write :: "bytes \<Rightarrow> Link \<Rightarrow> bool \<times> Link" where
  "link_write bs l =
     (case lk_write_ok l of
        False # ws \<Rightarrow> (False, l\<lparr>lk_write_ok := ws\<rparr>)
      | ws \<Rightarrow> (True, l\<lparr>lk_write_ok := drop 1 ws, lk_written := lk_written l @ [bs]\<rparr>))"

definition link_call :: "u8 \<Rightarrow> bytes \<Rightarrow> Link \<Rightarrow> (BridgeError, bytes) result \<times> Link" where
  "link_call command payload l =
     (case link_guard l of
        Inl e \<Rightarrow> (Inl e, l)
      | Inr _ \<Rightarrow>
          (case link_write (kiss_encode command payload) l of
             (False, l) \<Rightarrow> (Inl BridgePort, l)
           | (True, l) \<Rightarrow>
               (case await_reply command (lk_recv l) (lk_irq l) (lk_woken l) of
                  (r, rs, irq, woken) \<Rightarrow> (r, l\<lparr>lk_recv := rs, lk_irq := irq, lk_woken := woken\<rparr>))))"

text \<open>Throwing away the \<open>n\<close> messages that are there.\<close>

fun drain_recv :: "nat \<Rightarrow> Recv list \<Rightarrow> Recv list" where
  "drain_recv (Suc n) (Got m # rs) = drain_recv n rs"
| "drain_recv _ rs = rs"

definition link_drain :: "nat \<Rightarrow> Link \<Rightarrow> Link" where
  "link_drain n l = l\<lparr>lk_recv := drain_recv n (lk_recv l)\<rparr>"

definition verify_session :: "Link \<Rightarrow> (BridgeError, unit) result \<times> Link" where
  "verify_session l =
     (case link_guard l of
        Inl e \<Rightarrow> (Inl e, l)
      | Inr _ \<Rightarrow>
          (case link_call HELLO [] l of
             (Inl e, l') \<Rightarrow> (Inl e, l')
           | (Inr body, l') \<Rightarrow>
               (case hello_parse body of
                  None \<Rightarrow> (Inl (BridgeProtocol ''short HELLO reply''), l')
                | Some hello \<Rightarrow>
                    if he_session hello = lk_session l then (Inr (), l')
                    else (Inl (BridgeReset (lk_session l) (he_session hello)), l'\<lparr>lk_poisoned := True\<rparr>))))"

definition call_checked :: "u8 \<Rightarrow> bytes \<Rightarrow> Link \<Rightarrow> (BridgeError, bytes) result \<times> Link" where
  "call_checked command payload l =
     (case link_call command payload l of
        (Inl (BridgeTimeout c), l') \<Rightarrow>
          (case verify_session l' of
             (Inl e, l'') \<Rightarrow> (Inl e, l'')
           | (Inr _, l'') \<Rightarrow> (Inl (BridgeTimeout c), l''))
      | other \<Rightarrow> other)"

definition expect_ok :: "u8 \<Rightarrow> bytes \<Rightarrow> Link \<Rightarrow> (BridgeError, unit) result \<times> Link" where
  "expect_ok command payload l =
     (case call_checked command payload l of
        (Inl e, l') \<Rightarrow> (Inl e, l')
      | (Inr body, l') \<Rightarrow>
          (case body of
             [] \<Rightarrow> (Inl (BridgeProtocol ''empty reply''), l')
           | status # _ \<Rightarrow> if status = STATUS_OK then (Inr (), l') else (Inl (BridgeStatus command status), l')))"

text \<open>
  \<open>hello\<close> asks again after each silence, as long as its patience lasts: the list says at
  each silence whether it does.
\<close>

definition hello_answer :: "bytes \<Rightarrow> Link \<Rightarrow> (BridgeError, Hello) result \<times> Link" where
  "hello_answer body l =
     (case hello_version body of
        None \<Rightarrow> (Inl (BridgeProtocol ''empty HELLO reply''), l)
      | Some version \<Rightarrow>
          if version \<noteq> VERSION then (Inl (BridgeProtocol ''the device speaks another protocol version''), l)
          else (case hello_parse body of
              None \<Rightarrow> (Inl (BridgeProtocol ''short HELLO reply''), l)
            | Some hello \<Rightarrow>
                (Inr hello, l\<lparr>lk_session := he_session hello, lk_irq := lk_irq l \<or> he_dio1 hello\<rparr>)))"

fun hello_loop :: "bool list \<Rightarrow> Link \<Rightarrow> (BridgeError, Hello) result \<times> Link" where
  "hello_loop patience l =
     (case link_call HELLO [] l of
        (Inr body, l') \<Rightarrow> hello_answer body l'
      | (Inl (BridgeTimeout c), l') \<Rightarrow>
          (case patience of
             True # more_patience \<Rightarrow> hello_loop more_patience l'
           | _ \<Rightarrow> (Inl (BridgeTimeout c), l'))
      | (Inl e, l') \<Rightarrow> (Inl e, l'))"

declare hello_loop.simps [simp del]

definition link_hello :: "nat \<Rightarrow> bool list \<Rightarrow> Link \<Rightarrow> (BridgeError, Hello) result \<times> Link" where
  "link_hello n patience l = hello_loop patience (link_drain n l)"

definition dio1_level :: "Link \<Rightarrow> (BridgeError, bool) result \<times> Link" where
  "dio1_level l =
     (case call_checked PINS [] l of
        (Inl e, l') \<Rightarrow> (Inl e, l')
      | (Inr body, l') \<Rightarrow>
          (case body of
             _ # level # _ \<Rightarrow> (Inr (level \<noteq> 0), l')
           | _ \<Rightarrow> (Inl (BridgeProtocol ''short PINS reply''), l')))"

fun await_activity :: "Recv list \<Rightarrow> Activity \<times> Recv list" where
  "await_activity [] = (\<lparr>ac_irq = False, ac_host = False\<rparr>, [])"
| "await_activity (TimedOut # rs) = (\<lparr>ac_irq = False, ac_host = False\<rparr>, rs)"
| "await_activity (Got PortGone # rs) = (\<lparr>ac_irq = False, ac_host = False\<rparr>, rs)"
| "await_activity (Got PortWake # rs) = (\<lparr>ac_irq = False, ac_host = True\<rparr>, rs)"
| "await_activity (Got (PortFrame frame) # rs) =
     (case frame of
        head # body \<Rightarrow>
          if head = EVENT_DIO1 \<and> (case body of [] \<Rightarrow> True | level # _ \<Rightarrow> level \<noteq> 0)
          then (\<lparr>ac_irq = True, ac_host = False\<rparr>, rs) else await_activity rs
      | [] \<Rightarrow> await_activity rs)"

definition link_wait :: "Link \<Rightarrow> Activity \<times> Link" where
  "link_wait l =
     (let pending = \<lparr>ac_irq = lk_irq l, ac_host = lk_woken l\<rparr>;
          l = l\<lparr>lk_irq := False, lk_woken := False\<rparr>
      in if ac_irq pending \<or> ac_host pending then (pending, l)
         else case await_activity (lk_recv l) of (a, rs) \<Rightarrow> (a, l\<lparr>lk_recv := rs\<rparr>))"

text \<open>A wake of the host takes its place behind the \<open>n\<close> messages already there.\<close>

definition link_wake :: "nat \<Rightarrow> Link \<Rightarrow> Link" where
  "link_wake n l = l\<lparr>lk_recv := take n (lk_recv l) @ Got PortWake # drop n (lk_recv l)\<rparr>"

section \<open>The driver's bus and lines\<close>

text \<open>Handing the bytes of a reply out to the buffers of a transaction.\<close>

fun spi_spread :: "Operation list \<Rightarrow> bytes \<Rightarrow> Operation list option" where
  "spi_spread [] bs = Some []"
| "spi_spread (OpRead buf # ops) bs =
     (if length bs < length buf then None
      else map_option (Cons (OpRead (take (length buf) bs))) (spi_spread ops (drop (length buf) bs)))"
| "spi_spread (OpTransferInPlace buf # ops) bs =
     (if length bs < length buf then None
      else map_option (Cons (OpTransferInPlace (take (length buf) bs))) (spi_spread ops (drop (length buf) bs)))"
| "spi_spread (OpTransfer r w # ops) bs =
     (let wanted = length r + (length w - length r)
      in if length bs < wanted then None
         else map_option (Cons (OpTransfer (take (length r) bs) w)) (spi_spread ops (drop wanted bs)))"
| "spi_spread (OpWrite w # ops) bs = map_option (Cons (OpWrite w)) (spi_spread ops bs)"
| "spi_spread (OpDelayNs n # ops) bs = map_option (Cons (OpDelayNs n)) (spi_spread ops bs)"

definition bridge_transaction ::
  "Operation list \<Rightarrow> Link \<Rightarrow> (BridgeError, Operation list) result \<times> Link" where
  "bridge_transaction ops l =
     (case call_checked SPI (encode_operations ops) l of
        (Inl e, l') \<Rightarrow> (Inl e, l')
      | (Inr reply, l') \<Rightarrow>
          (case reply of
             [] \<Rightarrow> (Inl (BridgeProtocol ''empty SPI reply''), l')
           | status # bs \<Rightarrow>
               if status \<noteq> STATUS_OK then (Inl (BridgeStatus SPI status), l')
               else (case spi_spread ops bs of
                   None \<Rightarrow> (Inl (BridgeProtocol ''SPI reply short''), l')
                 | Some ops' \<Rightarrow> (Inr ops', l'))))"

text \<open>
  Waiting for \<open>TxDone\<close>: a notice only ends the wait early, the line decides. The list says
  after each look whether the deadline has not passed.
\<close>

datatype DriverError = DriverReset | DriverBusy | DriverDIO1 | DriverIrq | DriverRfSwitchRx | DriverRfSwitchTx

fun bridge_await_irq :: "nat \<Rightarrow> bool list \<Rightarrow> bool \<Rightarrow> Link \<Rightarrow> (DriverError, unit) result \<times> Link" where
  "bridge_await_irq n in_time host_wanted l =
     (case link_wait l of
        (a, l) \<Rightarrow>
          let host_wanted = (host_wanted \<or> ac_host a)
          in case dio1_level l of
               (Inr True, l) \<Rightarrow> (Inr (), if host_wanted then link_wake n l else l)
             | (Inl _, l) \<Rightarrow> (Inl DriverDIO1, l)
             | (Inr False, l) \<Rightarrow>
                 (case in_time of
                    True # more_time \<Rightarrow> bridge_await_irq n more_time host_wanted l
                  | _ \<Rightarrow> (Inl DriverIrq, l)))"

declare bridge_await_irq.simps [simp del]

definition or_driver_error :: "DriverError \<Rightarrow> (BridgeError, unit) result \<times> Link \<Rightarrow> (DriverError, unit) result \<times> Link" where
  "or_driver_error e r = (case r of (Inl _, l) \<Rightarrow> (Inl e, l) | (Inr _, l) \<Rightarrow> (Inr (), l))"

definition bridge_reset_line :: "Link \<Rightarrow> (DriverError, unit) result \<times> Link" where
  "bridge_reset_line l = or_driver_error DriverReset (expect_ok RESET [] l)"

definition bridge_wait_on_busy :: "Link \<Rightarrow> (DriverError, unit) result \<times> Link" where
  "bridge_wait_on_busy l = or_driver_error DriverBusy (expect_ok WAIT_BUSY (le_bytes 2 BUSY_LIMIT_MS) l)"

definition enable_rf_switch_rx :: "Link \<Rightarrow> (DriverError, unit) result \<times> Link" where
  "enable_rf_switch_rx l = or_driver_error DriverRfSwitchRx (expect_ok RF [RF_RX] l)"

definition enable_rf_switch_tx :: "Link \<Rightarrow> (DriverError, unit) result \<times> Link" where
  "enable_rf_switch_tx l = or_driver_error DriverRfSwitchTx (expect_ok RF [RF_TX] l)"

definition disable_rf_switch :: "Link \<Rightarrow> (DriverError, unit) result \<times> Link" where
  "disable_rf_switch l = or_driver_error DriverRfSwitchRx (expect_ok RF [RF_OFF] l)"

text \<open>What the driver thread waits on, and the one report of a restart.\<close>

record Watch =
  wa_link :: Link
  wa_events :: "RadioEvent list"
  wa_announced :: bool

definition RESET_NOTE :: string where
  "RESET_NOTE = ''\"event\":\"bridge_reset\",\"why\":\"the device restarted; this radio is offline\"''"

definition watch_wait :: "Watch \<Rightarrow> Activity \<times> Watch" where
  "watch_wait w =
     (case link_wait (wa_link w) of
        (a, l) \<Rightarrow>
          (case dio1_level l of
             (level, l) \<Rightarrow>
               let irq = (case level of Inl _ \<Rightarrow> False | Inr b \<Rightarrow> b);
                   w = w\<lparr>wa_link := l\<rparr>;
                   w = (if lk_poisoned l \<and> \<not> wa_announced w
                        then w\<lparr>wa_announced := True, wa_events := wa_events w @ [EvNote RESET_NOTE]\<rparr> else w)
               in (\<lparr>ac_irq = irq, ac_host = ac_host a\<rparr>, w)))"

definition watch_irq_flags :: "Link \<Rightarrow> u16 option \<times> Link" where
  "watch_irq_flags l =
     (case link_call SPI (encode_operations [OpWrite [OP_GET_IRQ_STATUS], OpRead [0, 0, 0]]) l of
        (Inl _, l') \<Rightarrow> (None, l')
      | (Inr reply, l') \<Rightarrow>
          (case reply of
             [ok, _, high, low] \<Rightarrow> (if ok = STATUS_OK then Some (of_be_bytes [high, low]) else None, l')
           | _ \<Rightarrow> (None, l')))"

section \<open>The reference device\<close>

record Device =
  dv_chip :: Chip
  dv_session :: u32
  dv_events_on :: bool
  dv_reported :: bool
  dv_sent :: "bytes list"

definition FIRMWARE :: "u8 \<times> u8" where "FIRMWARE = (0, 2)"

text \<open>What \<open>serve\<close> starts with; the session is a draw of the entropy, made odd.\<close>

definition session_id :: "u64 \<Rightarrow> u32" where "session_id drawn = ucast drawn OR 1"

definition device_new :: "u64 \<Rightarrow> Chip \<Rightarrow> Device" where
  "device_new drawn chip =
     \<lparr>dv_chip = chip, dv_session = session_id drawn, dv_events_on = False, dv_reported = False, dv_sent = []\<rparr>"

definition device_send :: "u8 \<Rightarrow> bytes \<Rightarrow> Device \<Rightarrow> Device" where
  "device_send command payload d = d\<lparr>dv_sent := dv_sent d @ [kiss_encode command payload]\<rparr>"

definition device_status :: "u8 \<Rightarrow> u8 \<Rightarrow> Device \<Rightarrow> Device" where
  "device_status command status d = device_send (command OR REPLY) [status] d"

definition returns_bytes :: "DeviceOp \<Rightarrow> bool" where
  "returns_bytes op = (do_kind op = OP_READ \<or> do_kind op = OP_TRANSFER)"

text \<open>The bytes read, operation by operation, from what the chip clocks out.\<close>

fun device_reply :: "DeviceOp list \<Rightarrow> bytes \<Rightarrow> bytes" where
  "device_reply [] answer = []"
| "device_reply (op # ops) answer =
     (if returns_bytes op
      then next_bytes (do_length op) answer @ device_reply ops (drop (do_length op) answer)
      else device_reply ops answer)"

definition device_spi :: "Lora \<Rightarrow> instant \<Rightarrow> instant \<Rightarrow> bytes \<Rightarrow> Device \<Rightarrow> Device" where
  "device_spi lora now later payload d =
     (case decode_operations payload of
        None \<Rightarrow> device_status SPI STATUS_BAD_REQUEST d
      | Some ops \<Rightarrow>
          if sum_list (map do_length (filter returns_bytes ops)) + 1 > BRIDGE_FRAME_LIMIT
          then device_status SPI STATUS_TOO_LONG d
          else (case execute_bytes lora now later (concat (map do_bytes ops)) (dv_chip d) of
              (answer, c) \<Rightarrow> device_send (SPI OR REPLY) (STATUS_OK # device_reply ops answer) (d\<lparr>dv_chip := c\<rparr>)))"

definition device_events :: "bool \<Rightarrow> Device \<Rightarrow> Device" where
  "device_events on d = d\<lparr>dv_events_on := on, dv_reported := irq_pending (dv_chip d)\<rparr>"

definition device_handle :: "Lora \<Rightarrow> instant \<Rightarrow> instant \<Rightarrow> bytes \<Rightarrow> Device \<Rightarrow> Device" where
  "device_handle lora now later frame d =
     (case frame of
        [] \<Rightarrow> d
      | command # payload \<Rightarrow>
          if command = HELLO then
            device_send (HELLO OR REPLY)
              (hello_encode \<lparr>he_protocol = VERSION, he_firmware = FIRMWARE, he_board = BOARD_VIRTUAL,
                 he_session = dv_session d, he_busy = False, he_dio1 = irq_pending (dv_chip d)\<rparr>)
              (device_events True d)
          else if command = RESET then
            device_status RESET STATUS_OK (d\<lparr>dv_chip := chip_reset (dv_chip d)\<rparr>)
          else if command = WAIT_BUSY then
            device_status WAIT_BUSY (if length payload = 2 then STATUS_OK else STATUS_BAD_REQUEST) d
          else if command = PINS then
            device_send (PINS OR REPLY) [0, flag_byte (irq_pending (dv_chip d))] d
          else if command = RF then
            device_status RF
              (if payload \<in> {[RF_OFF], [RF_RX], [RF_TX]} then STATUS_OK else STATUS_BAD_REQUEST) d
          else if command = SPI then device_spi lora now later payload d
          else if command = EVENTS then
            (case payload of
               [on] \<Rightarrow> device_send (EVENTS OR REPLY) [flag_byte (irq_pending (dv_chip d))] (device_events (on \<noteq> 0) d)
             | _ \<Rightarrow> device_status EVENTS STATUS_BAD_REQUEST d)
          else device_send EVENT_ERROR [STATUS_UNKNOWN_COMMAND, command] d)"

text \<open>
  \<open>pump\<close>: the device handles what its port delivers, frame by frame, until the port goes
  away. The clock gives the instants each frame is handled at, counted from the first.
\<close>

definition device_frames ::
  "Lora \<Rightarrow> (nat \<Rightarrow> instant \<times> instant) \<Rightarrow> nat \<Rightarrow> bytes list \<Rightarrow> Device \<Rightarrow> Device" where
  "device_frames lora clock k frames d =
     foldl (\<lambda>d (i, frame). device_handle lora (fst (clock i)) (snd (clock i)) frame d) d (enumerate k frames)"

fun device_pump ::
  "Lora \<Rightarrow> (nat \<Rightarrow> instant \<times> instant) \<Rightarrow> nat \<Rightarrow> Deframer \<Rightarrow> PortRead list \<Rightarrow> Device \<Rightarrow> Device" where
  "device_pump lora clock k df [] d = d"
| "device_pump lora clock k df (ReadNothing # rs) d = device_pump lora clock k df rs d"
| "device_pump lora clock k df (ReadEnd # rs) d = d"
| "device_pump lora clock k df (ReadBytes bs # rs) d =
     (if bs = [] then d
      else case deframer_push df bs of (df', frames) \<Rightarrow>
        device_pump lora clock (k + length frames) df' rs (device_frames lora clock k frames d))"

text \<open>One turn of the thread that watches DIO1.\<close>

definition device_edge :: "Device \<Rightarrow> Device" where
  "device_edge d =
     (let c = snd (end_wait (dv_chip d)); pending = irq_pending c; d = d\<lparr>dv_chip := c\<rparr>
      in if pending
         then (if dv_events_on d
               then (if dv_reported d then d
                     else device_send EVENT_DIO1 [flag_byte pending] (d\<lparr>dv_reported := True\<rparr>))
               else d)
         else d\<lparr>dv_reported := False\<rparr>)"

end
