(* ===== verification/Lcq_Chip_Runs.thy ===== *)
theory Lcq_Chip_Runs
  imports Lcq_Chip
begin

text \<open>
  The virtual chip over time. A run is a sequence of steps at instants that do not go
  back: commands of the host, deliveries and preamble notices of the medium, timers that
  fire once their time has come, and the host's waiting. Two things are shown of it: a
  frame counts as heard only if the chip was in receive mode from nearly its start, and a
  transmission lasts its airtime unless the host cuts it short. The first is of runs between
  which and the frame the reset line is not pulled. The second is of runs from power-on on in
  which the line is pulled only while no timer is asleep; what an earlier reset does to it
  when one is asleep is shown too.
\<close>

section \<open>Steps\<close>

inductive quiet_step :: "Lora \<Rightarrow> instant \<times> Chip \<Rightarrow> instant \<times> Chip \<Rightarrow> bool" for lora where
  Deliver: "now \<le> t \<Longrightarrow> quiet_step lora (now, c) (t, chip_deliver lora t d c)"
| Notice: "now \<le> t \<Longrightarrow> quiet_step lora (now, c) (t, notice_preamble lora t p c)"
| Fire: "now \<le> t \<Longrightarrow> (due, timer) \<in> set (ch_timers c) \<Longrightarrow> due \<le> t
    \<Longrightarrow> quiet_step lora (now, c)
          (t, c\<lparr>ch_timers := remove1 (due, timer) (ch_timers c), ch_model := timer_fires timer (ch_model c)\<rparr>)"
| Wake: "now \<le> t \<Longrightarrow> quiet_step lora (now, c) (t, wake_host c)"
| Waited: "now \<le> t \<Longrightarrow> quiet_step lora (now, c) (t, snd (end_wait c))"

inductive chip_step :: "Lora \<Rightarrow> instant \<times> Chip \<Rightarrow> instant \<times> Chip \<Rightarrow> bool" for lora where
  Quiet: "quiet_step lora s s' \<Longrightarrow> chip_step lora s s'"
| Command: "now \<le> t \<Longrightarrow> t \<le> later
    \<Longrightarrow> chip_step lora (now, c) (later, snd (chip_execute lora t later opcode ps c))"

inductive_cases quiet_stepE: "quiet_step lora s s'"
inductive_cases chip_stepE: "chip_step lora s s'"

section \<open>What the operations do to mode, listening and generation\<close>

text \<open>
  An operation leaves the chip listening since \<open>s\<close> only if it was, or if it started to
  listen itself.
\<close>

definition listening :: "instant \<Rightarrow> Model \<Rightarrow> bool" where
  "listening s m = (cm_mode m = Receive \<and> cm_rx_since m = Some s)"

lemma set_mode_simps [simp]:
  "cm_mode (set_mode md m) = md"
  "cm_generation (set_mode md m) = cm_generation m + 1"
  "cm_rx_since (set_mode md m) = (if md \<noteq> Receive then None else cm_rx_since m)"
  "cm_buffer (set_mode md m) = cm_buffer m"
  "cm_modulation (set_mode md m) = cm_modulation m"
  "cm_packet (set_mode md m) = cm_packet m"
  "cm_counters (set_mode md m) = cm_counters m"
  "cm_rx_base (set_mode md m) = cm_rx_base m"
  "cm_rx_len (set_mode md m) = cm_rx_len m"
  "cm_rx_offset (set_mode md m) = cm_rx_offset m"
  by (simp_all add: set_mode_def)

lemma chip_raise_simps [simp]:
  "cm_mode (chip_raise b m) = cm_mode m"
  "cm_generation (chip_raise b m) = cm_generation m"
  "cm_rx_since (chip_raise b m) = cm_rx_since m"
  "cm_buffer (chip_raise b m) = cm_buffer m"
  "cm_counters (chip_raise b m) = cm_counters m"
  "cm_rx_base (chip_raise b m) = cm_rx_base m"
  "cm_rx_len (chip_raise b m) = cm_rx_len m"
  "cm_rx_offset (chip_raise b m) = cm_rx_offset m"
  "cm_rx_continuous (chip_raise b m) = cm_rx_continuous m"
  by (simp_all add: chip_raise_def)

lemma put_bytes_simps [simp]:
  "cm_mode (put_bytes base bs m) = cm_mode m"
  "cm_generation (put_bytes base bs m) = cm_generation m"
  "cm_rx_since (put_bytes base bs m) = cm_rx_since m"
  "cm_rx_base (put_bytes base bs m) = cm_rx_base m"
  "cm_counters (put_bytes base bs m) = cm_counters m"
  "cm_rx_continuous (put_bytes base bs m) = cm_rx_continuous m"
  by (simp_all add: put_bytes_def)

lemma write_registers_simps [simp]:
  "cm_mode (write_registers ps m) = cm_mode m"
  "cm_generation (write_registers ps m) = cm_generation m"
  "cm_rx_since (write_registers ps m) = cm_rx_since m"
  by (simp_all add: write_registers_def)

text \<open>A configuration command either sets a mode other than receive, or leaves mode and generation.\<close>

lemma chip_configure_cases:
  obtains md where "md \<notin> {Receive, Transmit}" and "chip_configure opcode ps m = set_mode md m"
  | "cm_mode (chip_configure opcode ps m) = cm_mode m"
    "cm_rx_since (chip_configure opcode ps m) = cm_rx_since m"
    "cm_generation (chip_configure opcode ps m) = cm_generation m"
proof -
  consider "opcode = OP_SET_SLEEP" | "opcode = OP_SET_STANDBY" | "opcode = OP_SET_FS"
    | "opcode \<notin> {OP_SET_SLEEP, OP_SET_STANDBY, OP_SET_FS}" by blast
  then show ?thesis
  proof cases
    case 1
    then show ?thesis by (intro that(1) [of Sleep]) (simp_all add: chip_configure_def opcodes)
  next
    case 2
    then show ?thesis
      by (intro that(1) [of "if param ps 0 = 1 then StandbyXosc else StandbyRc"])
         (simp_all add: chip_configure_def opcodes)
  next
    case 3
    then show ?thesis by (intro that(1) [of FrequencySynthesis]) (simp_all add: chip_configure_def opcodes)
  next
    case 4
    then show ?thesis
      by (intro that(2)) (auto simp: chip_configure_def split: option.splits)
  qed
qed

fun timer_gen :: "Timer \<Rightarrow> u64" where
  "timer_gen (TxDone _ g) = g"
| "timer_gen (RxTimeout _ g) = g"
| "timer_gen (CadDone _ g _) = g"

text \<open>A command moves the generation on by at most one; a timer it starts is of the new one.\<close>

lemma begin_transmit_out:
  "begin_transmit lora c = (t, c') \<Longrightarrow>
     ch_timers c' = ch_timers c \<and> cm_mode (ch_model c') = Transmit \<and> cm_rx_since (ch_model c') = None
     \<and> cm_generation (ch_model c') = cm_generation (ch_model c) + 1
     \<and> t = TxDone (chip_airtime lora c) (cm_generation (ch_model c'))"
  by (auto simp: begin_transmit_def Let_def)

lemma begin_receive_out:
  "begin_receive now ps c = (t, c') \<Longrightarrow>
     ch_timers c' = ch_timers c \<and> cm_mode (ch_model c') = Receive \<and> cm_rx_since (ch_model c') = Some now
     \<and> cm_generation (ch_model c') = cm_generation (ch_model c) + 1
     \<and> (\<forall>u. t = Some u \<longrightarrow> timer_gen u = cm_generation (ch_model c'))"
  by (auto simp: begin_receive_def Let_def split: if_splits)

lemma begin_cad_out:
  "begin_cad lora now c = (t, c') \<Longrightarrow>
     ch_timers c' = ch_timers c \<and> cm_mode (ch_model c') = FrequencySynthesis \<and> cm_rx_since (ch_model c') = None
     \<and> cm_generation (ch_model c') = cm_generation (ch_model c) + 1
     \<and> timer_gen t = cm_generation (ch_model c')"
  by (auto simp: begin_cad_def Let_def set_mode_def)

definition mode_commands :: "u8 set" where
  "mode_commands = {OP_SET_SLEEP, OP_SET_STANDBY, OP_SET_FS, OP_SET_TX, OP_SET_RX, OP_SET_RX_DUTY_CYCLE, OP_SET_CAD}"

lemma chip_configure_calm:
  assumes "opcode \<notin> mode_commands"
  shows "cm_mode (chip_configure opcode ps m) = cm_mode m"
    "cm_rx_since (chip_configure opcode ps m) = cm_rx_since m"
    "cm_generation (chip_configure opcode ps m) = cm_generation m"
  using assms by (auto simp: chip_configure_def mode_commands_def split: option.splits)

lemma chip_command_calm:
  assumes "opcode \<notin> mode_commands" and "chip_command lora now opcode ps c = (r, t, c')"
  shows "t = None" "ch_timers c' = ch_timers c" "cm_mode (ch_model c') = cm_mode (ch_model c)"
    "cm_generation (ch_model c') = cm_generation (ch_model c)"
proof -
  have n: "opcode \<noteq> OP_SET_TX" "opcode \<noteq> OP_SET_RX" "opcode \<noteq> OP_SET_RX_DUTY_CYCLE" "opcode \<noteq> OP_SET_CAD"
    using assms(1) by (auto simp: mode_commands_def)
  from assms(2) n chip_configure_calm [OF assms(1), of ps "ch_model c"]
  show "t = None" "ch_timers c' = ch_timers c" "cm_mode (ch_model c') = cm_mode (ch_model c)"
    "cm_generation (ch_model c') = cm_generation (ch_model c)"
    by (auto simp: chip_command_def split: if_splits)
qed

lemma chip_command_out:
  assumes "chip_command lora now opcode ps c = (r, t, c')"
  shows "ch_timers c' = ch_timers c
    \<and> cm_generation (ch_model c') \<in> {cm_generation (ch_model c), cm_generation (ch_model c) + 1}
    \<and> (\<forall>u. t = Some u \<longrightarrow> timer_gen u = cm_generation (ch_model c'))
    \<and> (\<forall>s. listening s (ch_model c') \<longrightarrow> s = now \<or> listening s (ch_model c))"
proof (cases "only_answers opcode \<or> opcode \<in> {OP_SET_TX, OP_SET_RX, OP_SET_RX_DUTY_CYCLE, OP_SET_CAD_PARAMS, OP_SET_CAD}")
  case True
  then show ?thesis using assms
    by (auto simp: chip_command_def listening_def split: if_splits prod.splits
        dest!: begin_transmit_out begin_receive_out begin_cad_out)
next
  case False
  with assms have c': "t = None" "c' = c\<lparr>ch_model := chip_configure opcode ps (ch_model c)\<rparr>"
    by (auto simp: chip_command_def split: if_splits)
  show ?thesis
    by (rule chip_configure_cases [of opcode ps "ch_model c"]) (auto simp: c' listening_def)
qed


lemma wake_up_out:
  "ch_timers (wake_up c) = ch_timers c"
  "cm_generation (ch_model (wake_up c)) \<in> {cm_generation (ch_model c), cm_generation (ch_model c) + 1}"
  "listening s (ch_model (wake_up c)) \<Longrightarrow> listening s (ch_model c)"
  by (simp_all add: wake_up_def listening_def split: if_splits)

lemma chip_execute_cases:
  assumes "chip_execute lora now later opcode ps c = (r, c')"
  obtains t d where "chip_command lora now opcode ps (wake_up c) = (r, t, d)"
    and "ch_timers c' = ch_timers d @ (case t of None \<Rightarrow> [] | Some u \<Rightarrow> [(later + timer_after u, u)])"
    and "cm_mode (ch_model c') = cm_mode (ch_model d)"
    and "cm_generation (ch_model c') = cm_generation (ch_model d)"
    and "cm_rx_since (ch_model c') = cm_rx_since (ch_model d)"
proof -
  obtain r' t d where e: "chip_command lora now opcode ps (wake_up c) = (r', t, d)"
    by (metis prod_cases3)
  with assms have "r' = r" by (simp add: chip_execute_def Let_def)
  with e assms show ?thesis
    by (intro that [of t d]) (auto simp: chip_execute_def Let_def chip_arm_def split: option.splits if_splits)
qed

lemma timer_fires_mode:
  "cm_mode (timer_fires t m) \<noteq> Receive \<or> timer_fires t m = m"
  "timer_gen t \<noteq> cm_generation m \<Longrightarrow> timer_fires t m = m"
  "cm_generation (timer_fires t m) \<in> {cm_generation m, cm_generation m + 1}"
  by (cases t; simp add: timer_fires_def Let_def)+

text \<open>What a quiet step does: it never starts to listen, and never starts a timer.\<close>

lemma chip_missed_model:
  "\<exists>ct. ch_model (chip_missed d c) = (ch_model c)\<lparr>cm_counters := ct\<rparr>"
  "ch_timers (chip_missed d c) = ch_timers c"
  by (auto simp: chip_missed_def Let_def split: ChipMode.splits)

lemma chip_missed_simps [simp]:
  "cm_mode (ch_model (chip_missed d c)) = cm_mode (ch_model c)"
  "cm_rx_since (ch_model (chip_missed d c)) = cm_rx_since (ch_model c)"
  "cm_generation (ch_model (chip_missed d c)) = cm_generation (ch_model c)"
  "ch_timers (chip_missed d c) = ch_timers c"
  using chip_missed_model [of d c] by auto

lemma chip_receive_mode:
  "cm_mode (chip_receive d m) = (if cm_rx_continuous m then cm_mode m else StandbyRc)"
  "cm_rx_since (chip_receive d m) = (if cm_rx_continuous m then cm_rx_since m else None)"
  "cm_generation (chip_receive d m) \<in> {cm_generation m, cm_generation m + 1}"
  by (simp_all add: chip_receive_def Let_def)

lemma chip_header_error_mode:
  "cm_mode (chip_header_error m) = cm_mode m" "cm_rx_since (chip_header_error m) = cm_rx_since m"
  "cm_generation (chip_header_error m) = cm_generation m"
  by (simp_all add: chip_header_error_def Let_def)

lemma chip_deliver_out:
  "ch_timers (chip_deliver lora t d c) = ch_timers c"
  "listening s (ch_model (chip_deliver lora t d c)) \<Longrightarrow> listening s (ch_model c)"
  "cm_generation (ch_model (chip_deliver lora t d c)) \<in> {cm_generation (ch_model c), cm_generation (ch_model c) + 1}"
  "cm_mode (ch_model c) \<noteq> Receive \<Longrightarrow> cm_mode (ch_model (chip_deliver lora t d c)) = cm_mode (ch_model c)
     \<and> cm_generation (ch_model (chip_deliver lora t d c)) = cm_generation (ch_model c)"
  using chip_receive_mode(3) [of d "(ch_model c)\<lparr>cm_rssi_raw := rssi_raw (dl_rssi_dbm d), cm_snr_raw := snr_raw (dl_snr_db d)\<rparr>"]
  by (auto simp: chip_deliver_def Let_def listening_def chip_receive_mode chip_header_error_mode was_listening_def
      split: if_splits)

lemma host_side_out [simp]:
  "ch_timers (notice_preamble lora t p c) = ch_timers c"
  "cm_mode (ch_model (notice_preamble lora t p c)) = cm_mode (ch_model c)"
  "cm_rx_since (ch_model (notice_preamble lora t p c)) = cm_rx_since (ch_model c)"
  "cm_generation (ch_model (notice_preamble lora t p c)) = cm_generation (ch_model c)"
  "ch_timers (wake_host c) = ch_timers c"
  "cm_mode (ch_model (wake_host c)) = cm_mode (ch_model c)"
  "cm_rx_since (ch_model (wake_host c)) = cm_rx_since (ch_model c)"
  "cm_generation (ch_model (wake_host c)) = cm_generation (ch_model c)"
  "ch_timers (snd (end_wait c)) = ch_timers c"
  "cm_mode (ch_model (snd (end_wait c))) = cm_mode (ch_model c)"
  "cm_rx_since (ch_model (snd (end_wait c))) = cm_rx_since (ch_model c)"
  "cm_generation (ch_model (snd (end_wait c))) = cm_generation (ch_model c)"
  by (simp_all add: notice_preamble_def wake_host_def end_wait_def Let_def)

lemma host_side_listening [simp]:
  "listening s (ch_model (notice_preamble lora t p c)) = listening s (ch_model c)"
  "listening s (ch_model (wake_host c)) = listening s (ch_model c)"
  "listening s (ch_model (snd (end_wait c))) = listening s (ch_model c)"
  by (simp_all add: listening_def)

lemma timer_fires_listening: "listening s (timer_fires t m) \<Longrightarrow> listening s m"
  by (metis listening_def timer_fires_mode(1))

lemma quiet_step_listening:
  "quiet_step lora s s' \<Longrightarrow> listening t0 (ch_model (snd s')) \<Longrightarrow> listening t0 (ch_model (snd s))"
  by (induction rule: quiet_step.induct) (auto dest: chip_deliver_out(2) timer_fires_listening)

lemma quiet_step_time: "quiet_step lora s s' \<Longrightarrow> fst s \<le> fst s'"
  by (induction rule: quiet_step.induct) simp_all

lemma quiet_step_out:
  "quiet_step lora s s' \<Longrightarrow>
     set (ch_timers (snd s')) \<subseteq> set (ch_timers (snd s))
     \<and> cm_generation (ch_model (snd s')) \<in> {cm_generation (ch_model (snd s)), cm_generation (ch_model (snd s)) + 1}"
  by (induction rule: quiet_step.induct)
     (use chip_deliver_out timer_fires_mode(3) in \<open>auto dest: notin_set_remove1 set_mp [OF set_remove1_subset]\<close>)

section \<open>Listening\<close>

lemma chip_step_time: "chip_step lora s s' \<Longrightarrow> fst s \<le> fst s'"
  by (induction rule: chip_step.induct) (auto dest: quiet_step_time)

lemma chip_step_listening:
  assumes "chip_step lora s s'" and "listening t0 (ch_model (snd s'))" and "t0 < fst s"
  shows "listening t0 (ch_model (snd s))"
  using assms
proof (induction rule: chip_step.induct)
  case (Quiet s s')
  then show ?case by (auto dest: quiet_step_listening)
next
  case (Command now t later c opcode ps)
  obtain r c' where e: "chip_execute lora t later opcode ps c = (r, c')" by fastforce
  from e show ?case
  proof (rule chip_execute_cases)
    fix u d
    assume cmd: "chip_command lora t opcode ps (wake_up c) = (r, u, d)"
      and same: "cm_mode (ch_model c') = cm_mode (ch_model d)" "cm_rx_since (ch_model c') = cm_rx_since (ch_model d)"
    have "listening t0 (ch_model d)" using Command.prems(1) e same by (simp add: listening_def)
    moreover have "t0 \<noteq> t" using Command.hyps Command.prems(2) by simp
    ultimately have "listening t0 (ch_model (wake_up c))" using chip_command_out [OF cmd] by blast
    then show ?thesis by (simp add: wake_up_out(3))
  qed
qed

lemma chip_steps_listening:
  assumes "(chip_step lora)\<^sup>*\<^sup>* s s'" and "listening t0 (ch_model (snd s'))" and "t0 < fst s"
  shows "listening t0 (ch_model (snd s))"
  using assms
proof (induction rule: converse_rtranclp_induct)
  case base
  then show ?case by simp
next
  case (step y z)
  have "t0 < fst z" using chip_step_time [OF step.hyps(1)] step.prems(2) by simp
  with step have "listening t0 (ch_model (snd z))" by simp
  with step show ?case by (blast intro: chip_step_listening)
qed

text \<open>
  (C24) A frame is heard only by a chip that has been in receive mode all along: from any
  moment of its time on air later than the tolerance, until it ended.
\<close>

theorem heard_only_while_listening:
  assumes "(chip_step lora)\<^sup>*\<^sup>* (t0, c0) (t1, c1)"
    and "t1 \<le> now" and "chip_deliver lora now d c1 \<noteq> chip_missed d c1"
    and "now - uint (dl_airtime_ms d) * 1000000 + late_tolerance lora c1 < t0"
  shows "cm_mode (ch_model c0) = Receive"
proof -
  have "was_listening lora now d c1"
    by (rule ccontr) (use assms(3) in \<open>simp add: chip_deliver_def\<close>)
  then obtain s where s: "listening s (ch_model c1)"
      "s \<le> now - uint (dl_airtime_ms d) * 1000000 + late_tolerance lora c1"
    by (auto simp: was_listening_def listening_def Let_def split: option.splits)
  with assms(4) have "s < t0" by simp
  with chip_steps_listening [OF assms(1), of s] s(1) show ?thesis by (simp add: listening_def)
qed

section \<open>Transmitting\<close>

text \<open>
  Every timer is of the present generation or an earlier one. A step moves the generation
  on by at most two, so that it does not wrap in fewer than \<open>2 ^ 63\<close> steps.
\<close>

definition timers_past :: "Chip \<Rightarrow> bool" where
  "timers_past c = (\<forall>e \<in> set (ch_timers c). unat (timer_gen (snd e)) \<le> unat (cm_generation (ch_model c)))"

lemma unat_Suc: "unat g + 1 < 2 ^ 64 \<Longrightarrow> unat (g + 1) = unat g + 1" for g :: u64
  by (simp add: unat_word_ariths)

lemma generation_next:
  "g' \<in> {g, g + 1} \<Longrightarrow> unat g + 1 < 2 ^ 64 \<Longrightarrow> unat g \<le> unat g' \<and> unat g' \<le> unat g + 1" for g :: u64
  by (auto simp: unat_Suc)

lemma quiet_step_past:
  assumes "quiet_step lora s s'" and "timers_past (snd s)" and "unat (cm_generation (ch_model (snd s))) + 1 < 2 ^ 64"
  shows "timers_past (snd s')"
    "unat (cm_generation (ch_model (snd s'))) \<le> unat (cm_generation (ch_model (snd s))) + 1"
proof -
  note out = quiet_step_out [OF assms(1)]
  with assms(3) have g: "unat (cm_generation (ch_model (snd s))) \<le> unat (cm_generation (ch_model (snd s')))"
    "unat (cm_generation (ch_model (snd s'))) \<le> unat (cm_generation (ch_model (snd s))) + 1"
    using generation_next by blast+
  then show "unat (cm_generation (ch_model (snd s'))) \<le> unat (cm_generation (ch_model (snd s))) + 1" by simp
  show "timers_past (snd s')"
    using out assms(2) g(1) unfolding timers_past_def by (meson order_trans subsetD)
qed

lemma chip_execute_past:
  assumes e: "chip_execute lora t later opcode ps c = (r, c')" and past: "timers_past c"
    and g: "unat (cm_generation (ch_model c)) + 2 < 2 ^ 64"
  shows "timers_past c' \<and> unat (cm_generation (ch_model c')) \<le> unat (cm_generation (ch_model c)) + 2"
proof -
  from e obtain u d where cmd: "chip_command lora t opcode ps (wake_up c) = (r, u, d)"
    and tm: "ch_timers c' = ch_timers d @ (case u of None \<Rightarrow> [] | Some u \<Rightarrow> [(later + timer_after u, u)])"
    and gd: "cm_generation (ch_model c') = cm_generation (ch_model d)"
    by (rule chip_execute_cases)
  let ?g = "cm_generation (ch_model c)" and ?w = "cm_generation (ch_model (wake_up c))"
  note out = chip_command_out [OF cmd]
  have w: "unat ?g \<le> unat ?w" "unat ?w \<le> unat ?g + 1"
    using generation_next [OF wake_up_out(2)] g by simp_all
  have "unat ?w + 1 < 2 ^ 64" using w g by simp
  with out have d: "unat ?w \<le> unat (cm_generation (ch_model d))" "unat (cm_generation (ch_model d)) \<le> unat ?w + 1"
    using generation_next by blast+
  have "timers_past c'" unfolding timers_past_def
  proof
    fix e assume "e \<in> set (ch_timers c')"
    then consider "e \<in> set (ch_timers c)" | v where "u = Some v" "snd e = v"
      using tm out by (auto simp: wake_up_out split: option.splits)
    then show "unat (timer_gen (snd e)) \<le> unat (cm_generation (ch_model c'))"
    proof cases
      case 1
      with past w d gd show ?thesis by (fastforce simp: timers_past_def)
    next
      case 2
      with out gd show ?thesis by simp
    qed
  qed
  with w d gd show ?thesis by simp
qed

lemma chip_step_past:
  assumes "chip_step lora s s'" and "timers_past (snd s)" and "unat (cm_generation (ch_model (snd s))) + 2 < 2 ^ 64"
  shows "timers_past (snd s') \<and> unat (cm_generation (ch_model (snd s'))) \<le> unat (cm_generation (ch_model (snd s))) + 2"
  using assms
proof (induction rule: chip_step.induct)
  case (Quiet s s')
  then show ?case using quiet_step_past [OF Quiet.hyps] by simp
next
  case (Command now t later c opcode ps)
  show ?case
    using chip_execute_past [of lora t later opcode ps c "fst (chip_execute lora t later opcode ps c)"] Command.prems
    by simp
qed

text \<open>
  What happens to a chip on its bus: its steps, and the reset line, pulled while no timer
  of the time before is asleep (\<open>reset_revives_timer\<close> shows what the guard is for).
\<close>

inductive bus_step :: "Lora \<Rightarrow> instant \<times> Chip \<Rightarrow> instant \<times> Chip \<Rightarrow> bool" for lora where
  Step: "chip_step lora s s' \<Longrightarrow> bus_step lora s s'"
| Reset: "now \<le> t \<Longrightarrow> ch_timers c = [] \<Longrightarrow> bus_step lora (now, c) (t, chip_reset c)"

lemma bus_step_past:
  assumes "bus_step lora s s'" and "timers_past (snd s)" and "unat (cm_generation (ch_model (snd s))) + 2 < 2 ^ 64"
  shows "timers_past (snd s') \<and> unat (cm_generation (ch_model (snd s'))) \<le> unat (cm_generation (ch_model (snd s))) + 2"
  using assms by (induction rule: bus_step.induct) (use chip_step_past in \<open>auto simp: timers_past_def chip_reset_def model_fresh_def\<close>)

lemma bus_run_past:
  assumes "(bus_step lora ^^ n) (start, chip_new scale lock) s" and "n < 2 ^ 62"
  shows "timers_past (snd s) \<and> unat (cm_generation (ch_model (snd s))) \<le> 2 * n"
  using assms
proof (induction n arbitrary: s)
  case 0
  then show ?case by (auto simp: timers_past_def chip_new_def model_fresh_def)
next
  case (Suc n)
  then obtain m where m: "(bus_step lora ^^ n) (start, chip_new scale lock) m" "bus_step lora m s"
    by auto
  with Suc have "timers_past (snd m) \<and> unat (cm_generation (ch_model (snd m))) \<le> 2 * n" by simp
  with bus_step_past [OF m(2)] Suc.prems(2) show ?case by fastforce
qed

text \<open>
  Between a transmit command and its end: quiet steps, and commands that set no mode.
\<close>

inductive calm_step :: "Lora \<Rightarrow> instant \<times> Chip \<Rightarrow> instant \<times> Chip \<Rightarrow> bool" for lora where
  CalmQuiet: "quiet_step lora s s' \<Longrightarrow> calm_step lora s s'"
| CalmCommand: "now \<le> t \<Longrightarrow> t \<le> later \<Longrightarrow> opcode \<notin> mode_commands
    \<Longrightarrow> calm_step lora (now, c) (later, snd (chip_execute lora t later opcode ps c))"

definition transmitting :: "instant \<Rightarrow> u64 \<Rightarrow> Chip \<Rightarrow> bool" where
  "transmitting due g c =
     (cm_mode (ch_model c) = Transmit \<and> cm_generation (ch_model c) = g
      \<and> (\<forall>e \<in> set (ch_timers c). timer_gen (snd e) = g \<longrightarrow> fst e = due))"

lemma quiet_step_transmitting:
  assumes "quiet_step lora s s'" and "transmitting due g (snd s)" and "fst s' < due"
  shows "transmitting due g (snd s')"
  using assms
proof (induction rule: quiet_step.induct)
  case (Deliver now t c d)
  then show ?case by (simp add: transmitting_def chip_deliver_out)
next
  case (Fire now t armed timer c)
  have "timer_gen timer \<noteq> cm_generation (ch_model c)"
    using Fire by (force simp: transmitting_def)
  then have "timer_fires timer (ch_model c) = ch_model c" by (rule timer_fires_mode(2))
  with Fire.prems show ?case
    by (auto simp: transmitting_def dest: notin_set_remove1 set_mp [OF set_remove1_subset])
qed (simp_all add: transmitting_def)

lemma calm_step_transmitting:
  assumes "calm_step lora s s'" and "transmitting due g (snd s)" and "fst s' < due"
  shows "transmitting due g (snd s')"
  using assms
proof (induction rule: calm_step.induct)
  case (CalmQuiet s s')
  then show ?case by (blast intro: quiet_step_transmitting)
next
  case (CalmCommand now t later opcode c ps)
  obtain r c' where e: "chip_execute lora t later opcode ps c = (r, c')" by fastforce
  have "wake_up c = c" using CalmCommand.prems by (simp add: wake_up_def transmitting_def)
  from e show ?case
  proof (rule chip_execute_cases)
    fix u d
    assume cmd: "chip_command lora t opcode ps (wake_up c) = (r, u, d)"
      and rest: "ch_timers c' = ch_timers d @ (case u of None \<Rightarrow> [] | Some u \<Rightarrow> [(later + timer_after u, u)])"
        "cm_mode (ch_model c') = cm_mode (ch_model d)"
        "cm_generation (ch_model c') = cm_generation (ch_model d)"
    from chip_command_calm [OF CalmCommand.hyps(3) cmd] rest CalmCommand.prems e \<open>wake_up c = c\<close>
    show ?thesis by (simp add: transmitting_def)
  qed
qed

lemma calm_step_time: "calm_step lora s s' \<Longrightarrow> fst s \<le> fst s'"
  by (induction rule: calm_step.induct) (auto dest: quiet_step_time)

lemma calm_steps_transmitting:
  assumes "(calm_step lora)\<^sup>*\<^sup>* s s'" and "transmitting due g (snd s)" and "fst s' < due"
  shows "transmitting due g (snd s')"
  using assms
proof (induction rule: rtranclp_induct)
  case base
  then show ?case by simp
next
  case (step y z)
  with calm_step_time [OF step.hyps(2)] show ?case
    by (blast intro: calm_step_transmitting order_le_less_trans)
qed

text \<open>
  Nothing but the host ends a continuous reception: no delivery, no notice, no timer of an
  earlier mode and no waiting takes a chip out of it.
\<close>

definition receiving :: "Chip \<Rightarrow> bool" where
  "receiving c = (cm_mode (ch_model c) = Receive \<and> cm_rx_continuous (ch_model c)
     \<and> (\<forall>e \<in> set (ch_timers c). timer_gen (snd e) \<noteq> cm_generation (ch_model c)))"

lemma continuous_stays:
  assumes "quiet_step lora s s'" and "receiving (snd s)"
  shows "receiving (snd s')"
  using assms
proof (induction rule: quiet_step.induct)
  case (Deliver now t c d)
  then show ?case
    by (auto simp: receiving_def chip_deliver_def chip_receive_def chip_header_error_def chip_missed_def Let_def
        split: ChipMode.split)
next
  case (Fire now t due timer c)
  then have "timer_gen timer \<noteq> cm_generation (ch_model c)" by (force simp: receiving_def)
  then have "timer_fires timer (ch_model c) = ch_model c" by (rule timer_fires_mode(2))
  with Fire.prems show ?case
    by (auto simp: receiving_def dest: notin_set_remove1 set_mp [OF set_remove1_subset])
next
  case (Notice now t p c)
  then show ?case by (simp add: receiving_def notice_preamble_def Let_def)
next
  case (Wake now t c)
  then show ?case by (simp add: receiving_def wake_host_def)
next
  case (Waited now t c)
  then show ?case by (simp add: receiving_def end_wait_def Let_def)
qed

text \<open>
  (C25) A transmission lasts its airtime. On a chip that since power-on has taken any steps, and
  resets at which no timer of an earlier mode was asleep (fewer than \<open>2 ^ 62\<close> of them all), a transmit command is followed by
  transmitting until the airtime of the buffer has passed: whatever the medium does meanwhile,
  whichever timers of earlier receptions, detections and transmissions run out, and whatever the host
  asks that sets no mode, as long as it does not pull the reset line again.
\<close>

theorem transmission_lasts:
  assumes "(bus_step lora ^^ n) (start, chip_new scale lock) (t0, c0)" and "n < 2 ^ 62"
    and "t0 \<le> t" and "t \<le> later" and "chip_execute lora t later OP_SET_TX ps c0 = (r, c1)"
    and "(calm_step lora)\<^sup>*\<^sup>* (later, c1) (t2, c2)"
    and "t2 < later + chip_airtime lora (wake_up c0)"
  shows "cm_mode (ch_model c2) = Transmit"
proof -
  from bus_run_past [OF assms(1,2)]
  have past: "timers_past c0" "unat (cm_generation (ch_model c0)) \<le> 2 * n" by simp_all
  let ?w = "wake_up c0" and ?g = "cm_generation (ch_model (wake_up c0)) + 1"
  obtain u d where tx: "begin_transmit lora ?w = (u, d)" by fastforce
  note out = begin_transmit_out [OF tx]
  have w: "unat (cm_generation (ch_model c0)) \<le> unat (cm_generation (ch_model ?w))"
      "unat (cm_generation (ch_model ?w)) + 1 < 2 ^ 64"
    using generation_next [OF wake_up_out(2) [of c0]] past(2) assms(2) by simp_all
  have old: "timer_gen (snd e) \<noteq> ?g" if "e \<in> set (ch_timers c0)" for e
    using past(1) w that unat_Suc [OF w(2)] by (fastforce simp: timers_past_def)
  have "chip_command lora t OP_SET_TX ps ?w = ([], Some u, d)"
    using tx by (simp add: chip_command_def only_answers_def opcodes)
  then have "transmitting (later + chip_airtime lora ?w) ?g (snd (later, c1))"
    using assms(5) out old
    by (auto simp: transmitting_def chip_execute_def Let_def chip_arm_def wake_up_out opcodes)
  from calm_steps_transmitting [OF assms(6) this] assms(7)
  show ?thesis by (simp add: transmitting_def)
qed

text \<open>A crate whose symbol lasts 8192 microseconds and whose frames last half a second.\<close>

definition sample_lora :: Lora where
  "sample_lora = \<lparr>symbol_duration_us = (\<lambda>_. 8192), time_on_air_us = (\<lambda>_ _ _ _. 500000)\<rparr>"

text \<open>
  A chip that is reset once, starts to listen at instant 1 with a timeout of one tick, and is
  told to transmit before the timeout runs out: the timer of the reception is still there
  when the transmission begins, and its firing does not end the transmission.
\<close>

definition listening_chip :: Chip where
  "listening_chip = snd (chip_execute sample_lora 1 2 OP_SET_RX [0, 0, 1] (chip_reset (chip_new 1 6)))"

definition sending_chip :: Chip where
  "sending_chip = snd (chip_execute sample_lora 3 4 OP_SET_TX [] listening_chip)"

theorem transmission_lasts_witness:
  "cm_mode (timer_fires (RxTimeout 15625 1) (ch_model sending_chip)) = Transmit"
proof -
  let ?c = "sending_chip\<lparr>ch_timers := remove1 (15627, RxTimeout 15625 1) (ch_timers sending_chip),
              ch_model := timer_fires (RxTimeout 15625 1) (ch_model sending_chip)\<rparr>"
  have "bus_step sample_lora (0, chip_new 1 6) (0, chip_reset (chip_new 1 6))"
    by (rule Reset) (simp_all add: chip_new_def)
  moreover have "bus_step sample_lora (0, chip_reset (chip_new 1 6)) (2, listening_chip)"
    unfolding listening_chip_def by (intro Step Command) simp_all
  ultimately have "(bus_step sample_lora ^^ 2) (0, chip_new 1 6) (2, listening_chip)"
    by (simp add: numeral_2_eq_2) (blast intro: relcomppI)
  moreover have "(15627, RxTimeout 15625 1) \<in> set (ch_timers sending_chip)" by code_simp
  then have "quiet_step sample_lora (4, sending_chip) (15627, ?c)" by (rule Fire [rotated 1]) simp_all
  then have "(calm_step sample_lora)\<^sup>*\<^sup>* (4, sending_chip) (15627, ?c)" by (blast intro: CalmQuiet)
  moreover have "chip_airtime sample_lora (wake_up listening_chip) = 1000000000" by code_simp
  ultimately have "cm_mode (ch_model ?c) = Transmit"
    using transmission_lasts [of 2 sample_lora 0 1 6 2 listening_chip 3 4 "[]"
        "fst (chip_execute sample_lora 3 4 OP_SET_TX [] listening_chip)" sending_chip 15627 ?c]
    by (simp add: sending_chip_def)
  then show ?thesis by simp
qed

text \<open>A frame of half a second, heard by that chip from a tenth of a second on.\<close>

theorem heard_only_while_listening_witness:
  "cm_mode (ch_model listening_chip) = Receive"
proof -
  let ?d = "\<lparr>dl_bytes = [7], dl_rssi_dbm = 0, dl_snr_db = 0, dl_airtime_ms = 500, dl_verdict = HubDecoded\<rparr>"
  have "ch_events (chip_deliver sample_lora 600000000 ?d listening_chip) = []" by code_simp
  moreover have "length (ch_events (chip_missed ?d listening_chip)) = 1" by code_simp
  ultimately have "chip_deliver sample_lora 600000000 ?d listening_chip \<noteq> chip_missed ?d listening_chip"
    by auto
  moreover have "late_tolerance sample_lora listening_chip = 16000000" by code_simp
  ultimately show ?thesis
    using heard_only_while_listening [of sample_lora 200000000 listening_chip 200000000 listening_chip 600000000 ?d]
    by simp
qed

text \<open>
  Not so across a reset. The reset line puts the generation back to zero, so that the
  timer of a transmission it cut short is taken for the timer of the next one: that one
  ends, and is announced as sent, while its frame is still on the air.
\<close>

definition reset_chip :: "Chip" where
  "reset_chip =
     snd (chip_execute sample_lora 900000000 900000001 OP_SET_TX []
       (snd (chip_execute sample_lora 800000000 800000001 OP_CFG_DIO_IRQ [0, 1, 0, 1]
         (chip_reset (snd (chip_execute sample_lora 0 0 OP_SET_TX [] (chip_new 1 6)))))))"

lemma reset_revives_timer:
  "(1000000000, TxDone 1000000000 1) \<in> set (ch_timers reset_chip)
   \<and> (1900000001, TxDone 1000000000 1) \<in> set (ch_timers reset_chip)
   \<and> cm_mode (ch_model reset_chip) = Transmit
   \<and> cm_mode (timer_fires (TxDone 1000000000 1) (ch_model reset_chip)) = StandbyRc
   \<and> irq_on_dio1 (timer_fires (TxDone 1000000000 1) (ch_model reset_chip))"
  by code_simp

section \<open>What the host reads of a frame\<close>

lemma put_bytes_flat:
  "base + length bs \<le> BUFFER_BYTES \<Longrightarrow> length buf = BUFFER_BYTES
   \<Longrightarrow> foldl (\<lambda>buf (offset, b). buf[(base + offset) mod BUFFER_BYTES := b]) buf (enumerate 0 bs)
     = take base buf @ bs @ drop (base + length bs) buf"
proof (induction bs rule: rev_induct)
  case Nil
  then show ?case by simp
next
  case (snoc b bs)
  let ?k = "base + length bs"
  have k: "?k < length buf" "?k mod BUFFER_BYTES = ?k" using snoc.prems by simp_all
  have "drop ?k buf = buf ! ?k # drop (Suc ?k) buf" using k by (simp add: Cons_nth_drop_Suc)
  then have "(take base buf @ bs @ drop ?k buf)[?k := b] = take base buf @ (bs @ [b]) @ drop (Suc ?k) buf"
    using k by (simp add: list_update_append)
  moreover have "enumerate 0 (bs @ [b]) = enumerate 0 bs @ [(length bs, b)]"
    by (simp add: enumerate_append_eq)
  ultimately show ?case using snoc k by simp
qed

lemma length_put_bytes [simp]: "length (cm_buffer (put_bytes base bs m)) = length (cm_buffer m)"
proof -
  have "length (foldl (\<lambda>buf (offset, b). buf[f offset := b]) buf es) = length buf"
    for f :: "nat \<Rightarrow> nat" and buf :: bytes and es
    by (induction es arbitrary: buf) auto
  then show ?thesis by (simp add: put_bytes_def)
qed

text \<open>
  What the host then asks of the chip, the length and place of the frame and the bytes
  from that place, is the frame.
\<close>

theorem received_frame_read_back:
  assumes "was_listening lora now d c" and "dl_verdict d = HubDecoded"
    and "unat (cm_rx_base (ch_model c)) + length (dl_bytes d) \<le> 256" and "length (dl_bytes d) \<le> 255"
    and "length (cm_buffer (ch_model c)) = 256"
    and "chip_execute lora t later OP_GET_RX_BUFFER_STATUS [] (chip_deliver lora now d c) = (status, c1)"
    and "chip_execute lora u after OP_READ_BUFFER [status ! 2] c1 = (reply, c2)"
  shows "take (unat (status ! 1)) reply = dl_bytes d"
proof -
  let ?m = "(ch_model c)\<lparr>cm_rssi_raw := rssi_raw (dl_rssi_dbm d), cm_snr_raw := snr_raw (dl_snr_db d)\<rparr>"
  let ?n = "ch_model (chip_deliver lora now d c)"
  have n: "?n = chip_receive d ?m" using assms(1,2) by (simp add: chip_deliver_def Let_def)
  have awake: "cm_mode (chip_receive d ?m) \<noteq> Sleep"
    using assms(1) by (simp add: chip_receive_mode was_listening_def Let_def)
  have buf: "cm_buffer (chip_receive d ?m)
      = take (unat (cm_rx_base (ch_model c))) (cm_buffer (ch_model c)) @ dl_bytes d
        @ drop (unat (cm_rx_base (ch_model c)) + length (dl_bytes d)) (cm_buffer (ch_model c))"
    using put_bytes_flat [of "unat (cm_rx_base (ch_model c))" "dl_bytes d" "cm_buffer (ch_model c)"] assms(3-5)
    by (simp add: chip_receive_def Let_def assms(2) BUFFER_BYTES_def put_bytes_def)
  have place: "cm_rx_len (chip_receive d ?m) = of_nat (length (dl_bytes d))"
      "cm_rx_offset (chip_receive d ?m) = cm_rx_base (ch_model c)"
    using assms(4) by (simp_all add: chip_receive_def Let_def)
  have st: "status = [status_bits (cm_mode ?n), of_nat (length (dl_bytes d)), cm_rx_base (ch_model c)]"
    and c1: "cm_buffer (ch_model c1) = cm_buffer ?n" "cm_mode (ch_model c1) = cm_mode ?n"
    using assms(6) awake place
    by (auto simp: chip_execute_def chip_command_def only_answers_def opcodes chip_answer_def Let_def
        wake_up_def n)
  have "reply = drop (unat (cm_rx_base (ch_model c))) (cm_buffer ?n)"
    using assms(7) awake c1
    by (auto simp: chip_execute_def chip_command_def only_answers_def opcodes chip_answer_def Let_def
        wake_up_def n param_def st)
  with buf assms(3,5) have "reply = dl_bytes d @ drop (unat (cm_rx_base (ch_model c)) + length (dl_bytes d)) (cm_buffer (ch_model c))"
    by (simp add: n)
  then show ?thesis using assms(4) by (simp add: st unat_of_nat)
qed

theorem received_frame_read_back_witness:
  "take 3 (fst (chip_execute sample_lora 700000000 700000001 OP_READ_BUFFER [0]
     (snd (chip_execute sample_lora 650000000 650000001 OP_GET_RX_BUFFER_STATUS []
       (chip_deliver sample_lora 600000000
         \<lparr>dl_bytes = [7, 8, 9], dl_rssi_dbm = 0, dl_snr_db = 0, dl_airtime_ms = 500, dl_verdict = HubDecoded\<rparr>
         listening_chip))))) = [7, 8, 9]"
proof -
  let ?d = "\<lparr>dl_bytes = [7, 8, 9], dl_rssi_dbm = 0, dl_snr_db = 0, dl_airtime_ms = 500, dl_verdict = HubDecoded\<rparr>"
  let ?c1 = "snd (chip_execute sample_lora 650000000 650000001 OP_GET_RX_BUFFER_STATUS []
       (chip_deliver sample_lora 600000000 ?d listening_chip))"
  have "was_listening sample_lora 600000000 ?d listening_chip" by code_simp
  moreover have "unat (cm_rx_base (ch_model listening_chip)) = 0" "length (cm_buffer (ch_model listening_chip)) = 256"
    by code_simp+
  moreover have "fst (chip_execute sample_lora 650000000 650000001 OP_GET_RX_BUFFER_STATUS []
       (chip_deliver sample_lora 600000000 ?d listening_chip)) = [0x20, 3, 0]"
    by code_simp
  ultimately show ?thesis
    using received_frame_read_back [of sample_lora 600000000 ?d listening_chip 650000000 650000001
        "[0x20, 3, 0]" ?c1 700000000 700000001 "fst (chip_execute sample_lora 700000000 700000001 OP_READ_BUFFER [0] ?c1)"
        "snd (chip_execute sample_lora 700000000 700000001 OP_READ_BUFFER [0] ?c1)"]
    by (simp add: prod_eq_iff)
qed

text \<open>
  A frame that wraps around the end of the buffer is written whole and read short: the
  read stops at the end.
\<close>

lemma wrapped_frame_read_short:
  assumes "length (cm_buffer m) = 256" and "256 < unat (param ps 0) + len"
  shows "length (chip_answer m OP_READ_BUFFER ps) < len"
proof -
  have "unat (param ps 0) < 256" using unsigned_less [of "param ps 0", where 'a = nat] by simp
  with assms show ?thesis by (simp add: chip_answer_def opcodes Let_def)
qed

end
