(* ===== verification/Lcq_Bridge_Correct.thy ===== *)
theory Lcq_Bridge_Correct
  imports Lcq_Bridge Lcq_Chip_Runs
begin

text \<open>
  The bridge as the bus it stands for. A transaction sent over the cable to the reference
  device leaves the same bytes in the driver's buffers and the same chip behind as the bus
  that is wired to the chip directly; every request is answered with one frame; and a link
  that has met another session says nothing more.
\<close>

section \<open>Operations survive the wire\<close>

text \<open>What the device makes of an operation, when it fits the sixteen bits of its length.\<close>

fun device_view :: "Operation \<Rightarrow> DeviceOp" where
  "device_view (OpWrite bs) = \<lparr>do_kind = OP_WRITE, do_length = length bs, do_bytes = bs\<rparr>"
| "device_view (OpRead buf) = \<lparr>do_kind = OP_READ, do_length = length buf, do_bytes = []\<rparr>"
| "device_view (OpTransfer r w) =
     \<lparr>do_kind = OP_TRANSFER, do_length = max (length r) (length w),
      do_bytes = w @ replicate (length r - length w) 0\<rparr>"
| "device_view (OpTransferInPlace buf) = \<lparr>do_kind = OP_TRANSFER, do_length = length buf, do_bytes = buf\<rparr>"
| "device_view (OpDelayNs ns) = \<lparr>do_kind = OP_DELAY, do_length = (unat ns + 999) div 1000, do_bytes = []\<rparr>"

fun wire_length :: "Operation \<Rightarrow> nat" where
  "wire_length (OpWrite bs) = length bs"
| "wire_length (OpRead buf) = length buf"
| "wire_length (OpTransfer r w) = max (length r) (length w)"
| "wire_length (OpTransferInPlace buf) = length buf"
| "wire_length (OpDelayNs ns) = (unat ns + 999) div 1000"

lemma le_16: "of_le_bytes (le_bytes 2 v) = (v :: u16)"
  by (rule of_le_bytes_of_le_bytes_full) simp_all

lemma le_16_listed: "le_bytes 2 (v :: u16) = [ucast v, ucast (drop_bit 8 v)]"
  "of_le_bytes [ucast v, ucast (drop_bit 8 v)] = (v :: u16)"
proof -
  show l: "le_bytes 2 v = [ucast v, ucast (drop_bit 8 v)]" by (simp add: numeral_2_eq_2)
  show "of_le_bytes [ucast v, ucast (drop_bit 8 v)] = v" using le_16 [of v] by (simp only: l)
qed

lemma decode_pushed:
  assumes "len < 2 ^ 16"
  shows "decode_operation (push_op kind len bs @ rest) =
    (if kind = OP_WRITE \<or> kind = OP_TRANSFER then
       (if length (bs @ rest) < len then None
        else Some (\<lparr>do_kind = kind, do_length = len, do_bytes = take len (bs @ rest)\<rparr>, drop len (bs @ rest)))
     else if kind = OP_READ \<or> kind = OP_DELAY then
       Some (\<lparr>do_kind = kind, do_length = len, do_bytes = []\<rparr>, bs @ rest)
     else None)"
  using assms
  by (simp add: decode_operation_def push_op_def le_16_listed unat_of_nat Let_def
      del: of_le_bytes.simps le_bytes.simps)

lemma decode_encoded:
  assumes "wire_length op < 2 ^ 16"
  shows "decode_operation (encode_operation op @ rest) = Some (device_view op, rest)"
  using assms
  by (cases op) (auto simp: decode_pushed Let_def op_kinds max_def)

lemma encode_nonempty: "encode_operation op \<noteq> []"
  by (cases op) (simp_all add: push_op_def Let_def)

theorem operations_round_trip:
  assumes "list_all (\<lambda>op. wire_length op < 2 ^ 16) ops"
  shows "decode_operations (encode_operations ops) = Some (map device_view ops)"
  using assms
proof (induction ops)
  case Nil
  then show ?case by (simp add: encode_operations_def decode_operations.simps)
next
  case (Cons op ops)
  then have "decode_operation (encode_operation op @ encode_operations ops)
      = Some (device_view op, encode_operations ops)" by (simp add: decode_encoded)
  then show ?case using Cons encode_nonempty [of op]
    by (subst decode_operations.simps) (simp add: encode_operations_def)
qed

section \<open>Buffers\<close>

text \<open>A transfer clocks as many bytes in as out, which is how the driver uses one.\<close>

fun even_transfer :: "Operation \<Rightarrow> bool" where
  "even_transfer (OpTransfer r w) = (length r = length w)"
| "even_transfer _ = True"

lemma length_next_bytes [simp]: "length (next_bytes n bs) = n"
  by (simp add: next_bytes_def)

lemma clocked_out_view: "even_transfer op \<Longrightarrow> do_bytes (device_view op) = clocked_out op"
  by (cases op) simp_all

lemma spread_reply:
  assumes "list_all even_transfer ops"
  shows "spi_spread ops (device_reply (map device_view ops) answer) = Some (bus_fill ops answer)"
  using assms
proof (induction ops arbitrary: answer)
  case Nil
  then show ?case by simp
next
  case (Cons op ops)
  then show ?case by (cases op) (simp_all add: returns_bytes_def op_kinds Let_def)
qed

section \<open>Frames through a port\<close>

text \<open>A port that stays open, and the bytes it delivers.\<close>

fun stays_open :: "PortRead \<Rightarrow> bool" where
  "stays_open (ReadBytes bs) = (bs \<noteq> [])"
| "stays_open ReadNothing = True"
| "stays_open ReadEnd = False"

fun port_bytes :: "PortRead list \<Rightarrow> bytes" where
  "port_bytes [] = []"
| "port_bytes (ReadBytes bs # rs) = bs @ port_bytes rs"
| "port_bytes (_ # rs) = port_bytes rs"

lemma read_frames_open:
  "list_all stays_open rs \<Longrightarrow> read_frames df rs = map PortFrame (snd (deframer_push df (port_bytes rs)))"
proof (induction rs arbitrary: df)
  case (Cons r rs)
  then show ?case by (cases r) (simp_all add: deframer_push_append split: prod.split)
qed simp

lemma device_frames_append:
  "device_frames lora clock k (xs @ ys) d
    = device_frames lora clock (k + length xs) ys (device_frames lora clock k xs d)"
  by (simp add: device_frames_def enumerate_append_eq)

lemma device_pump_open:
  "list_all stays_open rs
    \<Longrightarrow> device_pump lora clock k df rs d = device_frames lora clock k (snd (deframer_push df (port_bytes rs))) d"
proof (induction rs arbitrary: df k d)
  case Nil
  then show ?case by (simp add: device_frames_def)
next
  case (Cons r rs)
  then show ?case by (cases r) (simp_all add: deframer_push_append device_frames_append split: prod.split)
qed

text \<open>Nothing is left of an earlier frame, and the limit is the protocol's.\<close>

definition between_frames :: "Deframer \<Rightarrow> bool" where
  "between_frames df = (unfinished df = [] \<and> df_limit df = BRIDGE_FRAME_LIMIT)"

lemma one_frame:
  assumes "between_frames df" and "fits BRIDGE_FRAME_LIMIT (c, payload)"
  shows "snd (deframer_push df (kiss_encode c payload)) = [c # payload]"
  using assms push_encode [of df c payload] by (simp add: between_frames_def)

section \<open>A transaction over the bridge\<close>

text \<open>What may arrive before the reply: wakes, notices, and anything that is not about the command.\<close>

fun passed_over :: "u8 \<Rightarrow> Recv \<Rightarrow> bool" where
  "passed_over command (Got PortWake) = True"
| "passed_over command (Got (PortFrame frame)) =
     (frame = [] \<or> hd frame \<noteq> command OR REPLY \<and> hd frame \<noteq> EVENT_ERROR)"
| "passed_over command _ = False"

lemma await_reply_passes:
  assumes "list_all (passed_over command) noise"
  shows "\<exists>irq' woken'. await_reply command (noise @ rs) irq woken = await_reply command rs irq' woken'"
  using assms
proof (induction noise arbitrary: irq woken)
  case Nil
  then show ?case by auto
next
  case (Cons r noise)
  show ?case
  proof (cases "(command, r # noise @ rs, irq, woken)" rule: await_reply.cases)
    case (5 c frame rs' i w)
    with Cons show ?thesis by (cases frame) auto
  qed (use Cons in auto)
qed

definition can_write :: "Link \<Rightarrow> bool" where
  "can_write l = (\<not> lk_poisoned l \<and> (lk_write_ok l = [] \<or> hd (lk_write_ok l)))"

lemma link_call_answered:
  assumes "can_write l" and "list_all (passed_over command) noise"
    and "lk_recv l = noise @ Got (PortFrame ((command OR REPLY) # body)) # rest"
  shows "\<exists>l'. link_call command payload l = (Inr body, l')
    \<and> lk_written l' = lk_written l @ [kiss_encode command payload] \<and> lk_recv l' = rest
    \<and> lk_poisoned l' = lk_poisoned l \<and> lk_session l' = lk_session l"
proof -
  obtain irq woken where "await_reply command (lk_recv l) (lk_irq l) (lk_woken l)
      = (Inr body, rest, irq, woken)"
    using await_reply_passes [OF assms(2), of "Got (PortFrame ((command OR REPLY) # body)) # rest" "lk_irq l" "lk_woken l"]
      assms(3) by auto
  moreover obtain ws where "link_write (kiss_encode command payload) l
      = (True, l\<lparr>lk_write_ok := ws, lk_written := lk_written l @ [kiss_encode command payload]\<rparr>)"
    using assms(1) by (cases "lk_write_ok l") (auto simp: link_write_def can_write_def)
  ultimately show ?thesis
    using assms(1) by (simp add: link_call_def link_guard_def can_write_def)
qed

lemma device_spi_answer:
  assumes "list_all even_transfer ops" and "list_all (\<lambda>op. wire_length op < 2 ^ 16) ops"
    and "sum_list (map do_length (filter returns_bytes (map device_view ops))) + 2 \<le> BRIDGE_FRAME_LIMIT"
    and "execute_bytes lora t u (concat (map clocked_out ops)) (dv_chip d) = (answer, c)"
  shows "device_handle lora t u (SPI # encode_operations ops) d
    = device_send (SPI OR REPLY) (STATUS_OK # device_reply (map device_view ops) answer) (d\<lparr>dv_chip := c\<rparr>)"
proof -
  have "concat (map do_bytes (map device_view ops)) = concat (map clocked_out ops)"
    using assms(1) by (induction ops) (simp_all add: clocked_out_view)
  then show ?thesis
    using assms(3,4) by (simp add: device_handle_def device_spi_def operations_round_trip [OF assms(2)] bridge_bytes)
qed

lemma length_device_reply:
  "length (device_reply ops answer) = sum_list (map do_length (filter returns_bytes ops))"
  by (induction ops arbitrary: answer) simp_all

text \<open>
  (C23) One transaction over the cable is one transaction on the bus. The conditions: every
  transfer of the transaction is as long one way as the other and no operation is longer than
  sixteen bits can say; the request and the reply each fit a frame, the reply with its status byte
  and its command byte (\<open>longest_reply_lost\<close> is the case next to it); the link is not poisoned
  and its write succeeds; neither side is in the middle of a frame and neither end of the port
  closes; and what arrives before the answer is wakes, empty frames, and frames that neither
  reply to a transaction nor announce an error, so no late reply of a transaction that timed out is
  still on the way. Then the request, cut into bytes, read by the device in whatever pieces,
  executed by its chip, answered and read back in whatever pieces, ends with the buffers and the chip
  that the chip's own bus would have left, and one request was written.
\<close>

theorem bridged_transaction:
  assumes ops: "list_all even_transfer ops" "list_all (\<lambda>op. wire_length op < 2 ^ 16) ops"
    and request_fits: "length (encode_operations ops) < BRIDGE_FRAME_LIMIT"
    and reply_fits: "sum_list (map do_length (filter returns_bytes (map device_view ops))) + 2 \<le> BRIDGE_FRAME_LIMIT"
    and link: "can_write l" "list_all (passed_over SPI) noise"
    and request: "list_all stays_open rq" "between_frames df" "port_bytes rq = kiss_encode SPI (encode_operations ops)"
    and device: "device_pump lora clock k df rq d = d'"
    and answer: "list_all stays_open an" "between_frames df'" "port_bytes an = concat (drop (length (dv_sent d)) (dv_sent d'))"
    and inbox: "lk_recv l = noise @ map Got (read_frames df' an) @ rest"
  shows "\<exists>l'. bridge_transaction ops l
        = (Inr (fst (virtual_transaction lora (fst (clock k)) (snd (clock k)) ops (dv_chip d))), l')
      \<and> lk_written l' = lk_written l @ [kiss_encode SPI (encode_operations ops)]
      \<and> dv_chip d' = snd (virtual_transaction lora (fst (clock k)) (snd (clock k)) ops (dv_chip d))"
proof -
  obtain bs c where ex: "execute_bytes lora (fst (clock k)) (snd (clock k)) (concat (map clocked_out ops)) (dv_chip d) = (bs, c)"
    by fastforce
  let ?reply = "STATUS_OK # device_reply (map device_view ops) bs"
  have "snd (deframer_push df (port_bytes rq)) = [SPI # encode_operations ops]"
    using one_frame [OF request(2)] request(3) request_fits by (simp add: fits_def kiss_bytes bridge_bytes)
  then have "device_pump lora clock k df rq d
      = device_handle lora (fst (clock k)) (snd (clock k)) (SPI # encode_operations ops) d"
    by (simp add: device_pump_open [OF request(1)] device_frames_def)
  with device device_spi_answer [OF ops reply_fits ex]
  have d': "d' = device_send (SPI OR REPLY) ?reply (d\<lparr>dv_chip := c\<rparr>)" by simp
  then have "port_bytes an = kiss_encode (SPI OR REPLY) ?reply" using answer(3) by (simp add: device_send_def)
  moreover have "fits BRIDGE_FRAME_LIMIT (SPI OR REPLY, ?reply)"
    using reply_fits by (simp add: fits_def kiss_bytes bridge_bytes length_device_reply)
  ultimately have "read_frames df' an = [PortFrame ((SPI OR REPLY) # ?reply)]"
    using one_frame [OF answer(2)] by (simp add: read_frames_open [OF answer(1)])
  then obtain l' where "link_call SPI (encode_operations ops) l = (Inr ?reply, l')"
      and w: "lk_written l' = lk_written l @ [kiss_encode SPI (encode_operations ops)]"
    using link_call_answered [OF link, where body = ?reply and payload = "encode_operations ops" and rest = rest] inbox
    by auto
  then have "bridge_transaction ops l = (Inr (bus_fill ops bs), l')"
    by (simp add: bridge_transaction_def call_checked_def spread_reply [OF ops(1)])
  with w d' show ?thesis by (simp add: virtual_transaction_def ex device_send_def)
qed

text \<open>A fresh device, and a host that reads the chip's status through it.\<close>

definition sample_device :: Device where "sample_device = device_new 5 (chip_new 1 6)"

definition sample_link :: "Recv list \<Rightarrow> Link" where
  "sample_link rs = \<lparr>lk_recv = rs, lk_write_ok = [], lk_written = [], lk_irq = False, lk_woken = False,
     lk_session = 5, lk_poisoned = False\<rparr>"

definition status_ops :: "Operation list" where
  "status_ops = [OpWrite [OP_GET_STATUS], OpRead [9]]"

theorem bridged_transaction_witness:
  "fst (bridge_transaction status_ops
     (sample_link [Got (PortFrame [EVENT_DIO1, 0]), Got (PortFrame [SPI OR REPLY, STATUS_OK, 0x20])]))
   = Inr [OpWrite [OP_GET_STATUS], OpRead [0x20]]"
proof -
  let ?rq = "[ReadBytes (kiss_encode SPI (encode_operations status_ops))]"
  let ?d = "device_pump sample_lora (\<lambda>_. (1, 2)) 0 (deframer_new BRIDGE_FRAME_LIMIT) ?rq sample_device"
  let ?an = "[ReadNothing, ReadBytes [0xC0, 0x86, 0, 0x20], ReadBytes [0xC0]]"
  let ?l = "sample_link [Got (PortFrame [EVENT_DIO1, 0]), Got (PortFrame [SPI OR REPLY, STATUS_OK, 0x20])]"
  have enc: "encode_operations status_ops = [0, 1, 0, OP_GET_STATUS, 1, 1, 0]"
    by (simp add: status_ops_def encode_operations_def push_op_def op_kinds le_16_listed(1) del: le_bytes.simps)
  have ops: "list_all even_transfer status_ops" "list_all (\<lambda>op. wire_length op < 2 ^ 16) status_ops"
      "length (encode_operations status_ops) < BRIDGE_FRAME_LIMIT"
      "sum_list (map do_length (filter returns_bytes (map device_view status_ops))) + 2 \<le> BRIDGE_FRAME_LIMIT"
    by (simp_all add: enc BRIDGE_FRAME_LIMIT_def) (simp_all add: status_ops_def returns_bytes_def op_kinds)
  have link: "can_write ?l" "list_all (passed_over SPI) [Got (PortFrame [EVENT_DIO1, 0])]"
    by (simp_all add: can_write_def sample_link_def bridge_bytes)
  have fresh: "between_frames (deframer_new BRIDGE_FRAME_LIMIT)"
    by (simp add: between_frames_def unfinished_def deframer_new_def)
  have rq: "list_all stays_open ?rq" "port_bytes ?rq = kiss_encode SPI (encode_operations status_ops)"
    by (simp_all add: kiss_encode_def)
  have sent: "concat (drop (length (dv_sent sample_device)) (dv_sent ?d)) = [0xC0, 0x86, 0, 0x20, 0xC0]"
    unfolding enc by code_simp
  have frames: "read_frames (deframer_new BRIDGE_FRAME_LIMIT) ?an = [PortFrame [0x86, 0, 0x20]]" by code_simp
  have virtual: "fst (virtual_transaction sample_lora 1 2 status_ops (dv_chip sample_device))
      = [OpWrite [OP_GET_STATUS], OpRead [0x20]]" by code_simp
  have "lk_recv ?l = [Got (PortFrame [EVENT_DIO1, 0])]
      @ map Got (read_frames (deframer_new BRIDGE_FRAME_LIMIT) ?an) @ []"
    unfolding frames by (simp add: sample_link_def bridge_bytes STATUS_OK_def)
  note inbox = this
  have an: "list_all stays_open ?an" "port_bytes ?an = concat (drop (length (dv_sent sample_device)) (dv_sent ?d))"
    unfolding sent by simp_all
  obtain l' where "bridge_transaction status_ops ?l
      = (Inr (fst (virtual_transaction sample_lora (fst (1, 2 :: int)) (snd (1 :: int, 2)) status_ops (dv_chip sample_device))), l')"
    using bridged_transaction [OF ops(1-4) link rq(1) fresh rq(2) refl an(1) fresh an(2) inbox] by blast
  then show ?thesis by (simp only: virtual fst_conv snd_conv)
qed

text \<open>
  The longest reply the device lets through is one byte too long for the host: of 1099
  bytes read it says they fit, and sends a frame of 1101, which the host's deframer drops.
  Nor is a delay of more than 65535 microseconds the delay that was asked for.
\<close>

lemma longest_reply_lost:
  assumes "length answer = 1099" and "between_frames df"
  shows "snd (deframer_push df (kiss_encode (SPI OR REPLY) (STATUS_OK # answer))) = []"
proof -
  have start: "push_byte (df, []) FEND = (mid_frame 1100 [], [])"
    using assms(2) by (simp add: push_byte_def between_frames_def unfinished_def mid_frame_def BRIDGE_FRAME_LIMIT_def
        split: if_splits)
  obtain bs b where a: "STATUS_OK # answer = bs @ [b]" by (metis append_butlast_last_id list.distinct(1))
  then have n: "length bs = 1099" using assms(1) by (metis Suc_inject length_Cons length_append_singleton)
  have first: "push_byte (mid_frame 1100 [], []) (SPI OR REPLY) = (mid_frame 1100 [SPI OR REPLY], [])"
    by (simp add: push_byte_def mid_frame_def keep_byte_def kiss_bytes bridge_bytes)
  have body: "deframer_push (mid_frame 1100 [SPI OR REPLY]) (concat (map kiss_escape bs))
      = (mid_frame 1100 ((SPI OR REPLY) # bs), [])"
    using push_payload [of "[SPI OR REPLY]" bs 1100] n by simp
  have "snd (deframer_push (mid_frame 1100 ((SPI OR REPLY) # bs)) (kiss_escape b @ [FEND])) = []"
    using n by (auto simp: kiss_escape_def deframer_push_def push_byte_def mid_frame_def keep_byte_def unescape_def kiss_bytes)
  then have "snd (deframer_push df ([FEND, SPI OR REPLY] @ concat (map kiss_escape bs) @ kiss_escape b @ [FEND])) = []"
    by (simp only: deframer_push_append deframer_push_Cons append_Cons append_Nil start first body fst_conv snd_conv)
  then show ?thesis by (simp add: kiss_encode_def a)
qed

lemma long_delay_cut:
  "65535 * 1000 < unat ns \<Longrightarrow> encode_operation (OpDelayNs ns) = push_op OP_DELAY 65535 []"
proof -
  assume "65535 * 1000 < unat ns"
  then have "\<not> (unat ns + 999) div 1000 < 2 ^ 16" by simp
  moreover have "(- 1 :: u16) = 65535" by simp
  ultimately show ?thesis by (simp only: encode_operation.simps push_op_def if_False) simp
qed

section \<open>Every request is answered\<close>

text \<open>
  The device answers each frame with one frame, in its chip's mode whatever it is: a reply
  to the command if it knows it, an error that names it if not.
\<close>

theorem device_answers:
  "\<exists>head body. dv_sent (device_handle lora t u (command # payload) d) = dv_sent d @ [kiss_encode head body]
    \<and> (if command \<in> {HELLO, RESET, WAIT_BUSY, PINS, RF, SPI, EVENTS} then head = command OR REPLY
       else head = EVENT_ERROR \<and> body = [STATUS_UNKNOWN_COMMAND, command])"
proof -
  have sent: "dv_sent (device_send c p e) = dv_sent e @ [kiss_encode c p]" for c p e
    by (simp add: device_send_def)
  have spi: "\<exists>body. dv_sent (device_spi lora t u payload d) = dv_sent d @ [kiss_encode (SPI OR REPLY) body]"
    by (auto simp: device_spi_def device_status_def sent split: option.splits prod.splits)
  have events: "dv_sent (device_events on d) = dv_sent d" for on by (simp add: device_events_def)
  consider "command = HELLO" | "command = RESET" | "command = WAIT_BUSY" | "command = PINS" | "command = RF"
    | "command = SPI" | "command = EVENTS" | "command \<notin> {HELLO, RESET, WAIT_BUSY, PINS, RF, SPI, EVENTS}"
    by blast
  then show ?thesis
  proof cases
    case 6
    with spi show ?thesis by (auto simp: device_handle_def bridge_bytes)
  next
    case 7
    then show ?thesis
      by (auto simp: device_handle_def bridge_bytes device_status_def sent events split: list.splits)
  next
    case 8
    then show ?thesis by (simp add: device_handle_def sent)
  qed (auto simp: device_handle_def bridge_bytes device_status_def sent events)
qed

section \<open>A restarted device\<close>

lemma hello_round_trip: "hello_parse (hello_encode h) = Some h"
  using le_bytes_32 [of "he_session h"]
  by (simp add: hello_encode_def hello_parse_def flag_byte_def eval_nat_numeral)

inductive link_step :: "Link \<Rightarrow> Link \<Rightarrow> bool" where
  Call: "link_step l (snd (link_call command payload l))"
| Checked: "link_step l (snd (call_checked command payload l))"
| Verify: "link_step l (snd (verify_session l))"
| Greet: "link_step l (snd (link_hello n patience l))"
| Look: "link_step l (snd (dio1_level l))"
| Wait: "link_step l (snd (link_wait l))"
| Wake: "link_step l (link_wake n l)"
| Transact: "link_step l (snd (bridge_transaction ops l))"
| Ask: "link_step l (snd (expect_ok command payload l))"
| Irq: "link_step l (snd (bridge_await_irq n in_time wanted l))"

lemma poisoned_call: "lk_poisoned l \<Longrightarrow> link_call command payload l = (Inl (BridgeReset (lk_session l) (lk_session l)), l)"
  by (simp add: link_call_def link_guard_def)

lemma poisoned_checked:
  "lk_poisoned l \<Longrightarrow> call_checked command payload l = (Inl (BridgeReset (lk_session l) (lk_session l)), l)"
  by (simp add: call_checked_def poisoned_call)

lemma poisoned_level: "lk_poisoned l \<Longrightarrow> dio1_level l = (Inl (BridgeReset (lk_session l) (lk_session l)), l)"
  by (simp add: dio1_level_def poisoned_checked)

lemma link_wait_keeps:
  "lk_poisoned (snd (link_wait l)) = lk_poisoned l" "lk_written (snd (link_wait l)) = lk_written l"
  by (simp_all add: link_wait_def Let_def split: prod.split)

lemma poisoned_step:
  "link_step l l' \<Longrightarrow> lk_poisoned l \<Longrightarrow> lk_poisoned l' \<and> lk_written l' = lk_written l"
proof (induction rule: link_step.induct)
  case (Greet l n patience)
  then show ?case by (simp add: link_hello_def hello_loop.simps [of patience] poisoned_call link_drain_def)
next
  case (Irq l n in_time wanted)
  obtain a l1 where w: "link_wait l = (a, l1)" by fastforce
  with link_wait_keeps [of l] Irq have "lk_poisoned l1" "lk_written l1 = lk_written l" by simp_all
  then show ?case by (simp add: bridge_await_irq.simps [of n in_time] w poisoned_level Let_def)
qed (simp_all add: poisoned_call poisoned_checked poisoned_level verify_session_def link_guard_def
    link_wait_keeps link_wake_def bridge_transaction_def expect_ok_def)

lemma poisoned_steps:
  "link_step\<^sup>*\<^sup>* l l' \<Longrightarrow> lk_poisoned l \<Longrightarrow> lk_poisoned l' \<and> lk_written l' = lk_written l"
  by (induction rule: rtranclp_induct) (auto dest: poisoned_step)

lemma link_call_silent:
  assumes "can_write l" and "list_all (passed_over command) noise" and "lk_recv l = noise @ TimedOut # rest"
    and "lk_write_ok l = []"
  shows "\<exists>l'. link_call command payload l = (Inl (BridgeTimeout command), l') \<and> lk_recv l' = rest
    \<and> can_write l' \<and> lk_write_ok l' = [] \<and> lk_session l' = lk_session l"
proof -
  obtain irq woken where "await_reply command (lk_recv l) (lk_irq l) (lk_woken l)
      = (Inl (BridgeTimeout command), rest, irq, woken)"
    using await_reply_passes [OF assms(2), of "TimedOut # rest" "lk_irq l" "lk_woken l"] assms(3) by auto
  then show ?thesis
    using assms(1,4) by (simp add: link_call_def link_guard_def link_write_def can_write_def)
qed

text \<open>
  (C26) Silence is a question. A call that nothing answers makes the link ask who is there, and
  if another session answers, the call fails with both sessions and the link is closed for
  good: nothing the driver does afterwards writes to the port.
\<close>

theorem restart_silences:
  assumes "can_write l" and "lk_write_ok l = []"
    and "list_all (passed_over command) noise" and "list_all (passed_over HELLO) noise'"
    and "lk_recv l = noise @ TimedOut # noise' @ Got (PortFrame ((HELLO OR REPLY) # hello_encode h)) # rest"
    and "he_session h \<noteq> lk_session l"
  shows "\<exists>l'. call_checked command payload l = (Inl (BridgeReset (lk_session l) (he_session h)), l')
    \<and> (\<forall>l''. link_step\<^sup>*\<^sup>* l' l'' \<longrightarrow> lk_written l'' = lk_written l')"
proof -
  obtain l1 where l1: "link_call command payload l = (Inl (BridgeTimeout command), l1)"
    "lk_recv l1 = noise' @ Got (PortFrame ((HELLO OR REPLY) # hello_encode h)) # rest"
    "can_write l1" "lk_session l1 = lk_session l"
    using link_call_silent [OF assms(1,3,5,2)] by blast
  obtain l2 where l2: "link_call HELLO [] l1 = (Inr (hello_encode h), l2)"
    using link_call_answered [OF l1(3) assms(4) l1(2)] by blast
  have "verify_session l1 = (Inl (BridgeReset (lk_session l) (he_session h)), l2\<lparr>lk_poisoned := True\<rparr>)"
    using l1(3,4) l2 assms(6) by (simp add: verify_session_def link_guard_def can_write_def hello_round_trip)
  then have "call_checked command payload l
      = (Inl (BridgeReset (lk_session l) (he_session h)), l2\<lparr>lk_poisoned := True\<rparr>)"
    by (simp add: call_checked_def l1(1))
  then show ?thesis using poisoned_steps by fastforce
qed

theorem restart_silences_witness:
  "fst (call_checked PINS [] (sample_link [TimedOut, Got PortWake, Got (PortFrame [0x81, 2, 0, 2, 0xFE, 7, 0, 0, 0, 0, 0])]))
    = Inl (BridgeReset 5 7)"
proof -
  let ?h = "\<lparr>he_protocol = 2, he_firmware = (0, 2), he_board = 0xFE, he_session = 7, he_busy = False, he_dio1 = False\<rparr>"
  let ?rs = "[] @ TimedOut # [Got PortWake] @ Got (PortFrame ((HELLO OR REPLY) # hello_encode ?h)) # []"
  have h: "(HELLO OR REPLY) # hello_encode ?h = [0x81, 2, 0, 2, 0xFE, 7, 0, 0, 0, 0, 0]" by code_simp
  have "can_write (sample_link ?rs)" "lk_write_ok (sample_link ?rs) = []" "lk_recv (sample_link ?rs) = ?rs"
    "he_session ?h \<noteq> lk_session (sample_link ?rs)"
    by (simp_all add: sample_link_def can_write_def)
  from restart_silences [OF this(1,2) _ _ this(3,4), of PINS "[]"]
  show ?thesis by (auto simp: h sample_link_def simp del: append.simps) (simp_all add: h)
qed

end
