(* ===== verification/Lcq_Phy.thy ===== *)
theory Lcq_Phy
  imports Lcq_Channel
begin

text \<open>
  \<open>src/sim/rng.rs\<close> and \<open>src/sim/phy.rs\<close>: the seeded generator of the simulations, and how
  much of a signal survives its path. The doubles are rationals rounded by \<open>fl\<close> after
  every operation; a level that may be infinite is a \<open>dbm\<close>. The functions of the platform's
  mathematical library, whose last digit Rust does not fix, are the parameter \<open>Libm\<close>.
\<close>

section \<open>The generator\<close>

type_synonym rng = u64

definition rng_new :: "u64 \<Rightarrow> rng" where
  "rng_new seed = seed * 6364136223846793005 + 1"

text \<open>One xorshift of the state; the hub's \<open>next_f64\<close> has the same three lines.\<close>

definition xorshift :: "u64 \<Rightarrow> u64" where
  "xorshift s =
     (let s = s XOR drop_bit 12 s; s = s XOR push_bit 25 s in s XOR drop_bit 27 s)"

definition next_u64 :: "rng \<Rightarrow> u64 \<times> rng" where
  "next_u64 s = (xorshift s * 2685821657736338717, xorshift s)"

definition next_f64 :: "rng \<Rightarrow> rat \<times> rng" where
  "next_f64 s = (case next_u64 s of (v, s) \<Rightarrow> (of_int (uint (drop_bit 11 v)) / 2 ^ 53, s))"

definition rng_below :: "u64 \<Rightarrow> rng \<Rightarrow> u64 \<times> rng" where
  "rng_below bound s =
     (if bound = 0 then (0, s) else case next_u64 s of (v, s) \<Rightarrow> (v mod bound, s))"

lemma rng_below_bound: "bound \<noteq> 0 \<Longrightarrow> fst (rng_below bound s) < bound"
  by (simp add: rng_below_def next_u64_def word_mod_less_divisor word_gt_0)

lemma next_f64_unit: "0 \<le> fst (next_f64 s)" "fst (next_f64 s) < 1"
proof -
  have "uint (drop_bit 11 v) < 2 ^ 53" for v :: u64
  proof -
    have "uint v < 2 ^ 64" using uint_lt2p [of v] by simp
    moreover have "uint (drop_bit 11 v) = uint v div 2048"
      by (simp add: drop_bit_eq_div uint_div_distrib)
    ultimately show ?thesis by (simp add: div_less_iff_less_mult)
  qed
  then have "(of_int (uint (drop_bit 11 (fst (next_u64 s)))) :: rat) < of_int (2 ^ 53)"
    by (simp only: of_int_less_iff)
  moreover have "0 \<le> (unsigned w :: rat)" for w :: u64
    by (metis of_nat_0_le_iff of_nat_unat)
  ultimately show "0 \<le> fst (next_f64 s)" "fst (next_f64 s) < 1"
    by (simp_all add: next_f64_def next_u64_def)
qed

text \<open>
  Not every seed gives a generator: one of them gives the state zero, which never changes
  and of which every draw is zero.
\<close>

lemma seed_without_randomness:
  "rng_new 4568919932995229531 = 0" "next_u64 0 = (0, 0)"
  by (simp_all add: rng_new_def next_u64_def xorshift_def Let_def)

section \<open>Levels\<close>

text \<open>A received power: finite, or positive or negative infinity.\<close>

datatype dbm = Dbm rat | Loudest | Silent

fun at_least :: "dbm \<Rightarrow> rat \<Rightarrow> bool" where
  "at_least (Dbm x) y = (y \<le> x)"
| "at_least Loudest y = True"
| "at_least Silent y = False"

text \<open>\<open>a - b >= threshold\<close>: a difference of equal infinities is not a number, and no bound holds of it.\<close>

fun leads_by :: "dbm \<Rightarrow> dbm \<Rightarrow> rat \<Rightarrow> bool" where
  "leads_by (Dbm x) (Dbm y) threshold = (threshold \<le> fl (x - y))"
| "leads_by (Dbm x) Loudest threshold = False"
| "leads_by (Dbm x) Silent threshold = True"
| "leads_by Loudest Loudest threshold = False"
| "leads_by Loudest _ threshold = True"
| "leads_by Silent _ threshold = False"

definition CARRIER_HZ :: rat where "CARRIER_HZ = 868100000"
definition MAST_HEIGHT_M :: rat where "MAST_HEIGHT_M = 12"
definition ANTENNA_GAIN_DBI :: rat where "ANTENNA_GAIN_DBI = 2"
definition TX_POWER_DBM :: rat where "TX_POWER_DBM = 14"
definition NOISE_FLOOR_DBM :: rat where "NOISE_FLOOR_DBM = - 117"
definition SPEED_OF_LIGHT_MS :: rat where "SPEED_OF_LIGHT_MS = 299792458"
definition MIN_FADE_DB :: rat where "MIN_FADE_DB = - 30"
definition MAX_FADE_DB :: rat where "MAX_FADE_DB = 10"

text \<open>The doubles \<open>PI\<close> and \<open>TAU\<close>, and the least positive normal double.\<close>

definition F64_PI :: rat where "F64_PI = 884279719003555 / 281474976710656"
definition F64_TAU :: rat where "F64_TAU = 884279719003555 / 140737488355328"
definition F64_MIN_POSITIVE :: rat where "F64_MIN_POSITIVE = 1 / 2 ^ 1022"

definition clamp_f :: "rat \<Rightarrow> rat \<Rightarrow> rat \<Rightarrow> rat" where
  "clamp_f lo hi x = (if x < lo then lo else if hi < x then hi else x)"

fun snr_db :: "dbm \<Rightarrow> rat" where
  "snr_db (Dbm x) = clamp_f (- 30) 12 (fl (x - NOISE_FLOOR_DBM))"
| "snr_db Loudest = 12"
| "snr_db Silent = - 30"

definition sensitivity_dbm_at :: "u8 \<Rightarrow> rat" where
  "sensitivity_dbm_at sf =
     (if sf \<le> 7 then - 123 else if sf = 8 then - 126 else if sf = 9 then - 129
      else if sf = 10 then - 132 else if sf = 11 then - 269 / 2 else - 137)"

definition SENSITIVITY_DBM :: rat where
  "SENSITIVITY_DBM = sensitivity_dbm_at DEFAULT_SPREADING_FACTOR"

lemma sensitivity_default: "SENSITIVITY_DBM = - 132"
  by (simp add: SENSITIVITY_DBM_def sensitivity_dbm_at_def DEFAULT_SPREADING_FACTOR_def eu868_sf10_def)

section \<open>Propagation\<close>

record Libm =
  lm_sqrt :: "rat \<Rightarrow> rat"
  lm_log10 :: "rat \<Rightarrow> rat"
  lm_ln :: "rat \<Rightarrow> rat"
  lm_cos :: "rat \<Rightarrow> rat"
  lm_sin :: "rat \<Rightarrow> rat"
  lm_powf :: "rat \<Rightarrow> rat \<Rightarrow> rat"

definition radio_horizon_m :: "Libm \<Rightarrow> rat" where
  "radio_horizon_m lm = fl (4120 * fl (lm_sqrt lm MAST_HEIGHT_M + lm_sqrt lm MAST_HEIGHT_M))"

definition wavelength_m :: rat where
  "wavelength_m = fl (SPEED_OF_LIGHT_MS / CARRIER_HZ)"

definition breakpoint_m :: rat where
  "breakpoint_m = fl (fl (fl (4 * MAST_HEIGHT_M) * MAST_HEIGHT_M) / wavelength_m)"

definition free_space_db :: "Libm \<Rightarrow> rat \<Rightarrow> rat" where
  "free_space_db lm d = fl (20 * lm_log10 lm (fl (fl (fl (4 * F64_PI) * d) / wavelength_m)))"

text \<open>The path loss; \<open>None\<close> is infinity, past the horizon.\<close>

definition path_loss_db :: "Libm \<Rightarrow> rat \<Rightarrow> rat option" where
  "path_loss_db lm d =
     (if d \<le> 1 then Some 0
      else if d > radio_horizon_m lm then None
      else if d \<le> breakpoint_m then Some (free_space_db lm d)
      else Some (fl (free_space_db lm breakpoint_m + fl (40 * lm_log10 lm (fl (d / breakpoint_m))))))"

definition rssi_dbm :: "Libm \<Rightarrow> rat \<Rightarrow> rat \<Rightarrow> dbm" where
  "rssi_dbm lm d tx_power =
     (case path_loss_db lm d of
        None \<Rightarrow> Silent
      | Some loss \<Rightarrow> Dbm (fl (fl (tx_power + fl (2 * ANTENNA_GAIN_DBI)) - loss)))"

text \<open>The bisection for the furthest link that still decodes: sixty halvings.\<close>

fun bisect :: "(rat \<Rightarrow> bool) \<Rightarrow> nat \<Rightarrow> rat \<Rightarrow> rat \<Rightarrow> rat" where
  "bisect audible 0 near far = near"
| "bisect audible (Suc n) near far =
     (let middle = fl (near + far) / 2
      in if audible middle then bisect audible n middle far else bisect audible n near middle)"

definition max_range_m :: "Libm \<Rightarrow> rat \<Rightarrow> rat" where
  "max_range_m lm tx_power =
     (let horizon = radio_horizon_m lm; audible = (\<lambda>d. at_least (rssi_dbm lm d tx_power) SENSITIVITY_DBM)
      in if audible (fl (horizon - 1)) then horizon else bisect audible 60 1 horizon)"

lemma bisect_audible: "audible near \<Longrightarrow> audible (bisect audible n near far)"
  by (induction n arbitrary: near far) (simp_all add: Let_def)

text \<open>A link of the length found decodes, if one of a metre does and the horizon was not the bound.\<close>

lemma max_range_decodes:
  assumes "at_least (rssi_dbm lm 1 tx_power) SENSITIVITY_DBM"
    and "max_range_m lm tx_power \<noteq> radio_horizon_m lm"
  shows "at_least (rssi_dbm lm (max_range_m lm tx_power) tx_power) SENSITIVITY_DBM"
  using assms bisect_audible [of "\<lambda>d. at_least (rssi_dbm lm d tx_power) SENSITIVITY_DBM"]
  by (auto simp: max_range_m_def Let_def split: if_splits)

lemma past_horizon_silent: "radio_horizon_m lm < d \<Longrightarrow> 1 < d \<Longrightarrow> rssi_dbm lm d p = Silent"
  by (simp add: rssi_dbm_def path_loss_db_def)

section \<open>Fading\<close>

definition normal_pair :: "Libm \<Rightarrow> rng \<Rightarrow> (rat \<times> rat) \<times> rng" where
  "normal_pair lm s =
     (case next_f64 s of (u, s) \<Rightarrow> case next_f64 s of (a, s) \<Rightarrow>
        let uniform = max u F64_MIN_POSITIVE; angle = fl (F64_TAU * a);
            radius = lm_sqrt lm (fl (- 2 * lm_ln lm uniform))
        in ((fl (radius * lm_cos lm angle), fl (radius * lm_sin lm angle)), s))"

record RicianFading =
  rf_rng :: rng
  rf_line_of_sight :: rat
  rf_scatter :: rat

definition fading_new :: "Libm \<Rightarrow> u64 \<Rightarrow> rat \<Rightarrow> RicianFading" where
  "fading_new lm seed k_factor_db =
     (let k = lm_powf lm 10 (fl (k_factor_db / 10))
      in \<lparr>rf_rng = rng_new seed, rf_line_of_sight = lm_sqrt lm (fl (k / fl (k + 1))),
          rf_scatter = lm_sqrt lm (fl (1 / fl (2 * fl (k + 1))))\<rparr>)"

definition fade_level :: "Libm \<Rightarrow> rat \<Rightarrow> rat" where
  "fade_level lm amplitude =
     (if amplitude = 0 then MIN_FADE_DB
      else clamp_f MIN_FADE_DB MAX_FADE_DB (fl (20 * lm_log10 lm amplitude)))"

definition sample_db :: "Libm \<Rightarrow> RicianFading \<Rightarrow> rat \<times> RicianFading" where
  "sample_db lm f =
     (case normal_pair lm (rf_rng f) of ((real_part, imaginary), s) \<Rightarrow>
        let in_phase = fl (rf_line_of_sight f + fl (rf_scatter f * real_part));
            quadrature = fl (rf_scatter f * imaginary);
            amplitude = lm_sqrt lm (fl (in_phase * in_phase + fl (quadrature * quadrature)))
        in (fade_level lm amplitude, f\<lparr>rf_rng := s\<rparr>))"

lemma fade_bounded: "- 30 \<le> fst (sample_db lm f)" "fst (sample_db lm f) \<le> 10"
  by (simp_all add: sample_db_def fade_level_def clamp_f_def MIN_FADE_DB_def MAX_FADE_DB_def Let_def
      split: prod.split)

end
