(* ===== verification/Lcq_Medium.thy ===== *)
theory Lcq_Medium
  imports Lcq_Phy
begin

text \<open>
  \<open>src/sim/medium.rs\<close>: the shared channel. A receiver locks onto a frame during the last
  symbols of its preamble; \<open>judge\<close> decides what becomes of a frame at one receiver from
  everything else on the air there. Here the loop is shown to find the worst thing any
  other frame does, so that neither the order nor the number of the others matters
  beyond that.
\<close>

section \<open>Timing\<close>

definition CAPTURE_THRESHOLD_DB :: rat where
  "CAPTURE_THRESHOLD_DB = of_int (uint (capture_threshold_db eu868_sf10))"

definition HEADER_SYMBOLS :: rat where "HEADER_SYMBOLS = 8"
definition SYNC_SYMBOLS :: rat where "SYNC_SYMBOLS = 17 / 4"

definition capture_wins :: "dbm \<Rightarrow> dbm \<Rightarrow> bool" where
  "capture_wins stronger other = leads_by stronger other CAPTURE_THRESHOLD_DB"

record Acquisition =
  aq_symbol_ms :: rat
  aq_lead_symbols :: rat
  aq_locked_symbols :: rat
  aq_header_end_symbols :: rat
  aq_capture_threshold_db :: rat

text \<open>\<open>f64::from\<close> of an integer that a double holds, and the cast of a 64-bit one.\<close>

definition f64_of :: "'a::len word \<Rightarrow> rat" where
  "f64_of w = fl (of_int (uint w))"

definition acquisition_from_profile :: "PhyProfile \<Rightarrow> Acquisition" where
  "acquisition_from_profile p =
     (let locked = fl (f64_of (preamble_symbols p) + SYNC_SYMBOLS)
      in \<lparr>aq_symbol_ms = fl (fl (2 ^ min (unat (spreading_factor p)) 12 / f64_of (bandwidth_hz p)) * 1000),
          aq_lead_symbols = f64_of (sat_sub (preamble_symbols p) (preamble_symbols_to_lock p)),
          aq_locked_symbols = locked, aq_header_end_symbols = fl (locked + HEADER_SYMBOLS),
          aq_capture_threshold_db = f64_of (capture_threshold_db p)\<rparr>)"

definition acquisition_default :: Acquisition where
  "acquisition_default = acquisition_from_profile eu868_sf10"

definition acquisition_scaled :: "u32 \<Rightarrow> Acquisition \<Rightarrow> Acquisition" where
  "acquisition_scaled scale aq = aq\<lparr>aq_symbol_ms := fl (aq_symbol_ms aq / f64_of (max scale 1))\<rparr>"

section \<open>Frames on the air\<close>

record Transmission =
  tx_start_ms :: u64
  tx_airtime_ms :: u64
  tx_rssi_dbm :: dbm

definition own_transmission :: "u64 \<Rightarrow> u64 \<Rightarrow> Transmission" where
  "own_transmission start airtime = \<lparr>tx_start_ms = start, tx_airtime_ms = airtime, tx_rssi_dbm = Loudest\<rparr>"

definition tx_end_ms :: "Transmission \<Rightarrow> u64" where
  "tx_end_ms t = sat_add (tx_start_ms t) (tx_airtime_ms t)"

definition tx_overlaps :: "Transmission \<Rightarrow> Transmission \<Rightarrow> bool" where
  "tx_overlaps a b = (tx_start_ms a < tx_end_ms b \<and> tx_start_ms b < tx_end_ms a)"

definition lock_window :: "Acquisition \<Rightarrow> Transmission \<Rightarrow> rat \<times> rat" where
  "lock_window aq t =
     (let start = f64_of (tx_start_ms t)
      in (fl (start + fl (aq_lead_symbols aq * aq_symbol_ms aq)),
          fl (start + fl (aq_locked_symbols aq * aq_symbol_ms aq))))"

definition header_end :: "Acquisition \<Rightarrow> Transmission \<Rightarrow> rat" where
  "header_end aq t = fl (f64_of (tx_start_ms t) + fl (aq_header_end_symbols aq * aq_symbol_ms aq))"

datatype Reception = Decoded | CrcError | HeaderError | NoLock | TooWeak

fun reception_rank :: "Reception \<Rightarrow> nat" where
  "reception_rank Decoded = 0"
| "reception_rank CrcError = 1"
| "reception_rank HeaderError = 2"
| "reception_rank NoLock = 3"
| "reception_rank TooWeak = 4"

text \<open>The derived order of the source: the worse, the greater.\<close>

instantiation Reception :: linorder
begin

definition less_eq_Reception :: "Reception \<Rightarrow> Reception \<Rightarrow> bool" where
  "less_eq_Reception a b = (reception_rank a \<le> reception_rank b)"

definition less_Reception :: "Reception \<Rightarrow> Reception \<Rightarrow> bool" where
  "less_Reception a b = (reception_rank a < reception_rank b)"

instance
proof
  fix a b :: Reception
  show "a \<le> b \<Longrightarrow> b \<le> a \<Longrightarrow> a = b"
    by (cases a; cases b) (simp_all add: less_eq_Reception_def)
qed (auto simp: less_eq_Reception_def less_Reception_def)

end

definition reception_decoded :: "Reception \<Rightarrow> bool" where
  "reception_decoded r = (r = Decoded)"

definition reception_locked :: "Reception \<Rightarrow> bool" where
  "reception_locked r = (r \<in> {Decoded, CrcError, HeaderError})"

section \<open>The verdict\<close>

text \<open>One other frame: no harm, the end of it, or something to be weighed against the rest.\<close>

definition harmless :: "Acquisition \<Rightarrow> Transmission \<Rightarrow> Transmission \<Rightarrow> bool" where
  "harmless aq t o' =
     (\<not> tx_overlaps t o' \<or> leads_by (tx_rssi_dbm t) (tx_rssi_dbm o') (aq_capture_threshold_db aq))"

fun judge_others :: "Acquisition \<Rightarrow> Transmission \<Rightarrow> Transmission list \<Rightarrow> Reception \<Rightarrow> Reception" where
  "judge_others aq t [] worst = worst"
| "judge_others aq t (o' # os) worst =
     (if harmless aq t o' then judge_others aq t os worst
      else let (lock_start, lock_end) = lock_window aq t;
               other_start = f64_of (tx_start_ms o'); other_end = f64_of (tx_end_ms o')
        in if other_start < lock_end \<and> other_end > lock_start then NoLock
           else if other_start \<ge> lock_end then
             judge_others aq t os (max worst (if other_start < header_end aq t then HeaderError else CrcError))
           else judge_others aq t os worst)"

definition judge :: "Transmission \<Rightarrow> Transmission list \<Rightarrow> Acquisition \<Rightarrow> Reception" where
  "judge t os aq =
     (if \<not> at_least (tx_rssi_dbm t) SENSITIVITY_DBM then TooWeak else judge_others aq t os Decoded)"

definition medium_receive :: "Transmission \<Rightarrow> Transmission list \<Rightarrow> Reception" where
  "medium_receive t os = judge t os acquisition_default"

section \<open>The worst of what the others do\<close>

definition damage :: "Acquisition \<Rightarrow> Transmission \<Rightarrow> Transmission \<Rightarrow> Reception" where
  "damage aq t o' =
     (let (lock_start, lock_end) = lock_window aq t;
          other_start = f64_of (tx_start_ms o'); other_end = f64_of (tx_end_ms o')
      in if harmless aq t o' then Decoded
         else if other_start < lock_end then (if other_end > lock_start then NoLock else Decoded)
         else if other_start < header_end aq t then HeaderError else CrcError)"

lemma Decoded_least [simp]: "Decoded \<le> r" "max r Decoded = r" "max Decoded r = r"
  by (cases r; simp add: less_eq_Reception_def max_def)+

lemma damage_le: "damage aq t o' \<le> NoLock"
  by (simp add: damage_def Let_def less_eq_Reception_def split: prod.split)

lemma judge_others_fold:
  "worst \<le> NoLock \<Longrightarrow> judge_others aq t os worst = foldl max worst (map (damage aq t) os)"
proof (induction os arbitrary: worst)
  case Nil
  then show ?case by simp
next
  case (Cons o' os)
  obtain a b where w: "lock_window aq t = (a, b)" by fastforce
  have top: "foldl max NoLock (map (damage aq t) os) = NoLock"
    by (induction os) (simp_all add: max_absorb1 damage_le)
  have le: "HeaderError \<le> NoLock" "CrcError \<le> NoLock" by (simp_all add: less_eq_Reception_def)
  have nolock: "max worst NoLock = NoLock" using Cons.prems by (simp add: max_absorb2)
  have d: "damage aq t o' = (if harmless aq t o' then Decoded
      else if f64_of (tx_start_ms o') < b then (if f64_of (tx_end_ms o') > a then NoLock else Decoded)
      else if f64_of (tx_start_ms o') < header_end aq t then HeaderError else CrcError)"
    by (simp add: damage_def w)
  show ?case
    using Cons.IH [OF Cons.prems] Cons.IH [of "max worst HeaderError"] Cons.IH [of "max worst CrcError"]
      Cons.prems le
    by (simp add: w d nolock top)
qed

lemma foldl_max_Max: "foldl max (x :: 'a::linorder) ys = Max (insert x (set ys))"
proof (induction ys arbitrary: x)
  case Nil
  then show ?case by simp
next
  case (Cons y ys)
  have "Max (insert (max x y) (set ys)) = Max (insert x (insert y (set ys)))"
    by (cases "ys = []") (auto simp: max.assoc max.commute max.left_commute)
  with Cons show ?case by simp
qed

lemma judge_max:
  "judge t os aq =
     (if \<not> at_least (tx_rssi_dbm t) SENSITIVITY_DBM then TooWeak
      else Max (insert Decoded (damage aq t ` set os)))"
  using judge_others_fold [of Decoded aq t os]
  by (simp add: judge_def foldl_max_Max less_eq_Reception_def)

lemma judge_decoded:
  "judge t os aq = Decoded \<longleftrightarrow> at_least (tx_rssi_dbm t) SENSITIVITY_DBM \<and> (\<forall>o' \<in> set os. damage aq t o' = Decoded)"
proof -
  have "Max (insert Decoded A) = Decoded \<longleftrightarrow> (\<forall>r \<in> A. r = Decoded)" if "finite A" for A
    using that Max_ge [of "insert Decoded A"] Decoded_least(1)
    by (metis (no_types, opaque_lifting) Max_in antisym finite_insert insertE insertI1 insertI2 insert_not_empty)
  then show ?thesis by (auto simp: judge_max)
qed

text \<open>
  (C34) What becomes of a frame is the worst that any other frame does to it, and nothing at all
  is worse than being too weak. The early return of the loop changes nothing, neither does
  the order of the others or hearing of one of them twice, and one more frame on the air
  never makes a reception better.
\<close>

theorem judge_is_worst:
  "judge t os aq =
     (if \<not> at_least (tx_rssi_dbm t) SENSITIVITY_DBM then TooWeak
      else Max (insert Decoded (damage aq t ` set os)))
   \<and> judge t os aq \<le> judge t (o' # os) aq"
proof -
  have "Max (insert Decoded (damage aq t ` set os)) \<le> Max (insert Decoded (damage aq t ` set (o' # os)))"
    by (rule Max_mono) auto
  then show ?thesis by (simp add: judge_max)
qed

text \<open>
  A frame of equal strength at the same moment: neither is received. Half-duplex: what a
  receiver sends itself while a frame is being locked onto, or after that, costs it the
  frame, however strong it is.
\<close>

lemma damage_late:
  "\<not> harmless aq t o' \<Longrightarrow> fst (lock_window aq t) < f64_of (tx_end_ms o') \<Longrightarrow> damage aq t o' \<noteq> Decoded"
  by (cases "lock_window aq t") (simp add: damage_def Let_def)

lemma equal_frames_lost:
  assumes "tx_rssi_dbm a = tx_rssi_dbm b" and "0 < aq_capture_threshold_db aq" and "tx_overlaps a b"
    and "fst (lock_window aq a) < f64_of (tx_end_ms b)"
  shows "judge a (b # os) aq \<noteq> Decoded"
proof -
  have "\<not> leads_by (tx_rssi_dbm a) (tx_rssi_dbm b) (aq_capture_threshold_db aq)"
    using assms(1,2) by (cases "tx_rssi_dbm b") (simp_all add: fl_def)
  then have "\<not> harmless aq a b" using assms(3) by (simp add: harmless_def)
  from damage_late [OF this assms(4)] show ?thesis by (auto simp: judge_decoded)
qed

lemma own_frame_deafens:
  assumes "tx_rssi_dbm own = Loudest" and "tx_overlaps t own"
    and "fst (lock_window aq t) < f64_of (tx_end_ms own)" and "own \<in> set os"
  shows "judge t os aq \<noteq> Decoded"
proof -
  have "\<not> harmless aq t own" using assms(1,2) by (cases "tx_rssi_dbm t") (simp_all add: harmless_def)
  from damage_late [OF this assms(3)] show ?thesis using assms(4) by (auto simp: judge_decoded)
qed

end
