(* ===== verification/Lcq_Relay.thy ===== *)
theory Lcq_Relay
  imports Lcq_Hub Lcq_Medium Lcq_Clock
begin

text \<open>
  \<open>src/bin/lcq-hub.rs\<close>: the channel emulator between the nodes. Frames it receives are in
  flight for their airtime; when one ends, its fate at every connected member is decided
  against everything that overlapped it, and the members are told. One turn of \<open>relay\<close> is
  a function of what arrived, of the clock, and of the members connected, in the order the
  map of writers happens to list them; one reading of the clock stands for all that a pass
  over the members makes. The sockets and the command line are
  in \<open>Lcq_Attach\<close>; log lines are not modelled.
\<close>

record Incoming =
  ic_from :: nat
  ic_bytes :: bytes
  ic_at :: instant

record InFlight =
  if_from :: nat
  if_bytes :: bytes
  if_starts_at :: instant
  if_ends_at :: instant
  if_done :: bool

definition GARBLE :: u8 where "GARBLE = 0xA5"
definition NOMINAL_RSSI_DBM :: rat where "NOMINAL_RSSI_DBM = - 80"

record HubOptions =
  ho_fleet :: nat
  ho_scale :: u32
  ho_loss :: rat
  ho_partition :: bool
  ho_isolate_ms :: u64
  ho_spacing_m :: "rat option"

section \<open>What a receiver gets\<close>

definition round_rssi :: "dbm \<Rightarrow> i16" where
  "round_rssi level =
     (case level of
        Dbm x \<Rightarrow> word_of_int (min 100 (max (- 300) (round_away x)))
      | Loudest \<Rightarrow> 100
      | Silent \<Rightarrow> - 300)"

definition round_snr :: "dbm \<Rightarrow> i8" where
  "round_snr level = word_of_int (round_away (snr_db level))"

definition saturate32 :: "u64 \<Rightarrow> u32" where
  "saturate32 w = (if w < 2 ^ 32 then ucast w else - 1)"

definition hub_delivery :: "InFlight \<Rightarrow> dbm \<Rightarrow> HubVerdict \<Rightarrow> Delivery" where
  "hub_delivery f level v =
     \<lparr>dl_bytes = (case v of
         HubDecoded \<Rightarrow> if_bytes f
       | HubCrcError \<Rightarrow> map (\<lambda>b. b XOR GARBLE) (if_bytes f)
       | HubHeaderError \<Rightarrow> []),
      dl_rssi_dbm = round_rssi level, dl_snr_db = round_snr level,
      dl_airtime_ms = saturate32 (as_millis (since (if_ends_at f) (if_starts_at f))),
      dl_verdict = v\<rparr>"

definition hub_rssi :: "Libm \<Rightarrow> HubOptions \<Rightarrow> nat \<Rightarrow> nat \<Rightarrow> dbm" where
  "hub_rssi lm opts a b =
     (case ho_spacing_m opts of
        None \<Rightarrow> Dbm NOMINAL_RSSI_DBM
      | Some spacing \<Rightarrow> rssi_dbm lm (fl (spacing * fl (of_nat (if a < b then b - a else a - b)))) TX_POWER_DBM)"

text \<open>\<open>first_frame_at\<close>, which the first question about reach sets.\<close>

definition first_at :: "instant option \<Rightarrow> instant \<Rightarrow> instant" where
  "first_at first now = (case first of None \<Rightarrow> now | Some t \<Rightarrow> t)"

definition hub_reaches :: "HubOptions \<Rightarrow> instant option \<Rightarrow> instant \<Rightarrow> nat \<Rightarrow> nat \<Rightarrow> bool" where
  "hub_reaches opts first now a b =
     (let same_half = ((a < ho_fleet opts div 2) = (b < ho_fleet opts div 2));
          isolated = since now (first_at first now) < from_millis (ho_isolate_ms opts)
      in (\<not> ho_partition opts \<and> \<not> isolated) \<or> same_half)"

section \<open>A frame starts\<close>

type_synonym outbox = "(nat \<times> Inbound) list"

definition announce_start ::
  "Libm \<Rightarrow> HubOptions \<Rightarrow> instant option \<Rightarrow> instant \<Rightarrow> nat list \<Rightarrow> Incoming \<Rightarrow> duration \<Rightarrow> outbox" where
  "announce_start lm opts first now targets inc air =
     concat (map (\<lambda>target.
       if target = ic_from inc \<or> \<not> hub_reaches opts first now (ic_from inc) target then []
       else let level = hub_rssi lm opts (ic_from inc) target
         in if \<not> at_least level SENSITIVITY_DBM then []
            else [(target, InPreamble \<lparr>pr_rssi_dbm = round_rssi level,
                     pr_airtime_ms = saturate32 (as_millis air)\<rparr>)]) targets)"

definition frame_airtime :: "HubOptions \<Rightarrow> bytes \<Rightarrow> duration" where
  "frame_airtime opts bs = from_millis (airtime_ms (length bs) div max (ucast (ho_scale opts)) 1)"

definition in_flight :: "HubOptions \<Rightarrow> Incoming \<Rightarrow> InFlight" where
  "in_flight opts inc =
     \<lparr>if_from = ic_from inc, if_bytes = ic_bytes inc, if_starts_at = ic_at inc,
      if_ends_at = ic_at inc + frame_airtime opts (ic_bytes inc), if_done = False\<rparr>"

section \<open>A frame ends\<close>

definition overlap :: "InFlight \<Rightarrow> InFlight \<Rightarrow> bool" where
  "overlap f o' = (if_starts_at o' < if_ends_at f \<and> if_starts_at f < if_ends_at o')"

definition overlappers :: "nat \<Rightarrow> InFlight list \<Rightarrow> InFlight list" where
  "overlappers index frames =
     map snd (filter (\<lambda>(i, o'). i \<noteq> index \<and> overlap (frames ! index) o') (enumerate 0 frames))"

text \<open>Milliseconds since the earliest frame still remembered.\<close>

definition origin_of :: "InFlight list \<Rightarrow> instant" where
  "origin_of frames = Min (if_starts_at ` set frames)"

definition ms_since :: "instant \<Rightarrow> instant \<Rightarrow> u64" where
  "ms_since origin t = as_millis (since t origin)"

definition heard_at :: "Libm \<Rightarrow> HubOptions \<Rightarrow> instant \<Rightarrow> nat \<Rightarrow> InFlight \<Rightarrow> Transmission" where
  "heard_at lm opts origin target f =
     (let start = ms_since origin (if_starts_at f); air = sat_sub (ms_since origin (if_ends_at f)) start
      in if if_from f = target then own_transmission start air
         else \<lparr>tx_start_ms = start, tx_airtime_ms = air, tx_rssi_dbm = hub_rssi lm opts (if_from f) target\<rparr>)"

definition verdict_at ::
  "Libm \<Rightarrow> HubOptions \<Rightarrow> instant option \<Rightarrow> instant \<Rightarrow> nat \<Rightarrow> InFlight list \<Rightarrow> nat \<Rightarrow> Reception" where
  "verdict_at lm opts first now index frames target =
     judge (heard_at lm opts (origin_of frames) target (frames ! index))
       (map (heard_at lm opts (origin_of frames) target)
         (filter (\<lambda>o'. hub_reaches opts first now (if_from o') target) (overlappers index frames)))
       (acquisition_scaled (ho_scale opts) acquisition_default)"

text \<open>The fate of one frame at one member, with the seed the residual loss draws from.\<close>

definition settle_at ::
  "Libm \<Rightarrow> HubOptions \<Rightarrow> instant option \<Rightarrow> instant \<Rightarrow> nat \<Rightarrow> InFlight list \<Rightarrow> nat \<Rightarrow> u64 \<Rightarrow> outbox \<times> u64" where
  "settle_at lm opts first now index frames target seed =
     (let frame = frames ! index
      in if target = if_from frame \<or> \<not> hub_reaches opts first now (if_from frame) target then ([], seed)
         else let level = hub_rssi lm opts (if_from frame) target;
                  deliver = (\<lambda>v. [(target, InDelivery (hub_delivery frame level v))])
           in case verdict_at lm opts first now index frames target of
                TooWeak \<Rightarrow> ([], seed)
              | NoLock \<Rightarrow> ([], seed)
              | HeaderError \<Rightarrow> (deliver HubHeaderError, seed)
              | CrcError \<Rightarrow> (deliver HubCrcError, seed)
              | Decoded \<Rightarrow>
                  if ho_loss opts > 0 then
                    (case next_f64 seed of (draw, seed) \<Rightarrow>
                       if draw < ho_loss opts then ([], seed) else (deliver HubDecoded, seed))
                  else (deliver HubDecoded, seed))"

fun settle ::
  "Libm \<Rightarrow> HubOptions \<Rightarrow> instant option \<Rightarrow> instant \<Rightarrow> nat \<Rightarrow> InFlight list \<Rightarrow> nat list \<Rightarrow> u64 \<Rightarrow> outbox \<times> u64" where
  "settle lm opts first now index frames [] seed = ([], seed)"
| "settle lm opts first now index frames (target # targets) seed =
     (case settle_at lm opts first now index frames target seed of (out, seed) \<Rightarrow>
        case settle lm opts first now index frames targets seed of (out', seed) \<Rightarrow> (out @ out', seed))"

section \<open>The relay\<close>

record Relay =
  re_frames :: "InFlight list"
  re_seed :: u64
  re_first :: "instant option"

definition relay_start :: Relay where
  "relay_start = \<lparr>re_frames = [], re_seed = 0x2545F4914F6CDD1D, re_first = None\<rparr>"

text \<open>Whether a pass over the members asks about reach at all.\<close>

definition asks_reach :: "nat list \<Rightarrow> nat \<Rightarrow> bool" where
  "asks_reach targets sender = (\<exists>t \<in> set targets. t \<noteq> sender)"

definition note_first :: "nat list \<Rightarrow> nat \<Rightarrow> instant \<Rightarrow> Relay \<Rightarrow> Relay" where
  "note_first targets sender now r =
     (if asks_reach targets sender then r\<lparr>re_first := Some (first_at (re_first r) now)\<rparr> else r)"

definition relay_arrival ::
  "Libm \<Rightarrow> HubOptions \<Rightarrow> instant \<Rightarrow> nat list \<Rightarrow> Incoming option \<Rightarrow> Relay \<Rightarrow> outbox \<times> Relay" where
  "relay_arrival lm opts now targets arrived r =
     (case arrived of
        None \<Rightarrow> ([], r)
      | Some inc \<Rightarrow>
          (announce_start lm opts (re_first r) now targets inc (frame_airtime opts (ic_bytes inc)),
           (note_first targets (ic_from inc) now r)\<lparr>re_frames := re_frames r @ [in_flight opts inc]\<rparr>))"

definition settle_one ::
  "Libm \<Rightarrow> HubOptions \<Rightarrow> instant \<Rightarrow> nat list \<Rightarrow> outbox \<times> Relay \<Rightarrow> nat \<Rightarrow> outbox \<times> Relay" where
  "settle_one lm opts now targets s index =
     (case s of (out, r) \<Rightarrow>
        case settle lm opts (re_first r) now index (re_frames r) targets (re_seed r) of (out', seed) \<Rightarrow>
          (out @ out',
           (note_first targets (if_from (re_frames r ! index)) now r)
             \<lparr>re_seed := seed, re_frames := (re_frames r)[index := (re_frames r ! index)\<lparr>if_done := True\<rparr>]\<rparr>))"

definition ended :: "instant \<Rightarrow> InFlight list \<Rightarrow> nat list" where
  "ended now frames = filter (\<lambda>i. \<not> if_done (frames ! i) \<and> if_ends_at (frames ! i) \<le> now) [0..<length frames]"

definition KEEP :: duration where "KEEP = 5000000000"

definition relay_turn ::
  "Libm \<Rightarrow> HubOptions \<Rightarrow> instant \<Rightarrow> instant \<Rightarrow> nat list \<Rightarrow> Incoming option \<Rightarrow> Relay \<Rightarrow> outbox \<times> Relay" where
  "relay_turn lm opts earlier now targets arrived r =
     (case relay_arrival lm opts earlier targets arrived r of (out, r) \<Rightarrow>
        case foldl (settle_one lm opts now targets) (out, r) (ended now (re_frames r)) of (out, r) \<Rightarrow>
          (out, r\<lparr>re_frames := filter (\<lambda>f. \<not> if_done f \<or> if_ends_at f + KEEP > now) (re_frames r)\<rparr>))"

text \<open>How long the relay waits for the next frame: until the first one in flight ends.\<close>

definition relay_wait :: "instant \<Rightarrow> Relay \<Rightarrow> duration" where
  "relay_wait now r =
     (case filter (\<lambda>f. \<not> if_done f) (re_frames r) of
        [] \<Rightarrow> 250000000
      | fs \<Rightarrow> Min (set (map (\<lambda>f. since (if_ends_at f) now) fs)))"

text \<open>A run: the turns one after another, and everything written to the members.\<close>

type_synonym turn = "instant \<times> instant \<times> nat list \<times> Incoming option"

fun relay_run :: "Libm \<Rightarrow> HubOptions \<Rightarrow> turn list \<Rightarrow> Relay \<Rightarrow> outbox \<times> Relay" where
  "relay_run lm opts [] r = ([], r)"
| "relay_run lm opts ((earlier, now, targets, arrived) # ts) r =
     (case relay_turn lm opts earlier now targets arrived r of (out, r) \<Rightarrow>
        case relay_run lm opts ts r of (out', r) \<Rightarrow> (out @ out', r))"

end
