(* ===== verification/Lcq_Relay_Correct.thy ===== *)
theory Lcq_Relay_Correct
  imports Lcq_Relay
begin

text \<open>
  The emulator from sender to receiver: what a member's radio reports as received was sent
  by another member, byte for byte; a frame nobody talks over reaches everyone in reach;
  and no frame that could still matter is forgotten before the frames it overlaps are
  decided.
\<close>

section \<open>What is written to the members\<close>

lemma settle_at_out:
  assumes "(m, msg) \<in> set (fst (settle_at lm opts first now index frames target seed))"
  shows "m = target \<and> m \<noteq> if_from (frames ! index)
    \<and> (\<exists>level v. msg = InDelivery (hub_delivery (frames ! index) level v))"
  using assms
  by (auto simp: settle_at_def Let_def split: if_splits Reception.splits prod.splits)

lemma settle_out:
  "(m, msg) \<in> set (fst (settle lm opts first now index frames targets seed))
    \<Longrightarrow> m \<in> set targets \<and> m \<noteq> if_from (frames ! index)
      \<and> (\<exists>level v. msg = InDelivery (hub_delivery (frames ! index) level v))"
proof (induction targets arbitrary: seed)
  case Nil
  then show ?case by simp
next
  case (Cons t ts)
  then show ?case by (auto split: prod.splits dest!: settle_at_out [of m msg] dest: settle_at_out)
      (metis fst_conv settle_at_out)+
qed

text \<open>Two states of one flight differ in whether it has been decided.\<close>

definition same_flight :: "InFlight \<Rightarrow> InFlight \<Rightarrow> bool" where
  "same_flight f g = (f\<lparr>if_done := True\<rparr> = g\<lparr>if_done := True\<rparr>)"

lemma same_flight_simps:
  assumes "same_flight f g"
  shows "if_from f = if_from g" "if_bytes f = if_bytes g" "if_starts_at f = if_starts_at g" "if_ends_at f = if_ends_at g"
  using assms by (cases f; cases g; simp add: same_flight_def)+

lemma same_flight_refl [simp]: "same_flight f f"
  by (simp add: same_flight_def)

lemma same_flight_done: "same_flight f (g\<lparr>if_done := d\<rparr>) = same_flight f g"
  by (simp add: same_flight_def)

text \<open>\<open>flights_of A f\<close>: the frame is one of the arrivals \<open>A\<close>.\<close>

definition flight_of :: "HubOptions \<Rightarrow> Incoming set \<Rightarrow> InFlight \<Rightarrow> bool" where
  "flight_of opts A f = (\<exists>inc \<in> A. same_flight f (in_flight opts inc))"

lemma flight_of_arrival: "inc \<in> A \<Longrightarrow> flight_of opts A (in_flight opts inc)"
  unfolding flight_of_def by (rule bexI [of _ inc]) simp_all

definition honest_out :: "HubOptions \<Rightarrow> Incoming set \<Rightarrow> outbox \<Rightarrow> bool" where
  "honest_out opts A out =
     (\<forall>(m, msg) \<in> set out. case msg of
        InPreamble _ \<Rightarrow> True
      | InDelivery d \<Rightarrow> \<exists>f level v. flight_of opts A f \<and> if_from f \<noteq> m \<and> d = hub_delivery f level v)"

lemma honest_append: "honest_out opts A (xs @ ys) = (honest_out opts A xs \<and> honest_out opts A ys)"
  by (auto simp: honest_out_def)

lemma honest_settle:
  assumes "flight_of opts A (frames ! index)"
  shows "honest_out opts A (fst (settle lm opts first now index frames targets seed))"
  using assms by (fastforce simp: honest_out_def dest: settle_out split: Inbound.splits)

text \<open>The settling of a list of frames: the list keeps its flights, and done ones are the settled.\<close>

lemma settle_fold:
  assumes "\<forall>i \<in> set is. i < length (re_frames r)" and "list_all (flight_of opts A) (re_frames r)" and "honest_out opts A out"
    and "foldl (settle_one lm opts now targets) (out, r) is = (out', r')"
  shows "honest_out opts A out' \<and> list_all (flight_of opts A) (re_frames r')
    \<and> re_frames r' = map (\<lambda>(i, f). if i \<in> set is then f\<lparr>if_done := True\<rparr> else f) (enumerate 0 (re_frames r))"
  using assms
proof (induction "is" arbitrary: out r)
  case Nil
  have "map (\<lambda>(i, f). if i \<in> set [] then f\<lparr>if_done := True\<rparr> else f) (enumerate 0 fs) = fs" for fs :: "InFlight list"
    by (intro nth_equalityI) (auto simp: nth_enumerate_eq)
  with Nil show ?case by simp
next
  case (Cons i "is")
  obtain s seed where s: "settle lm opts (re_first r) now i (re_frames r) targets (re_seed r) = (s, seed)" by fastforce
  define r1 where "r1 = (note_first targets (if_from (re_frames r ! i)) now r)
      \<lparr>re_seed := seed, re_frames := (re_frames r)[i := (re_frames r ! i)\<lparr>if_done := True\<rparr>]\<rparr>"
  have step: "settle_one lm opts now targets (out, r) i = (out @ s, r1)"
    by (simp add: settle_one_def s r1_def)
  have i: "i < length (re_frames r)" using Cons.prems(1) by simp
  then have fi: "flight_of opts A (re_frames r ! i)" using Cons.prems(2) by (simp add: list_all_length)
  have "honest_out opts A (out @ s)"
    using honest_settle [OF fi, of lm "re_first r" now targets "re_seed r"] Cons.prems(3) s by (simp add: honest_append)
  moreover have "list_all (flight_of opts A) (re_frames r1)"
    using Cons.prems(2) fi i by (auto simp: r1_def list_all_length nth_list_update flight_of_def same_flight_def)
  ultimately have IH: "honest_out opts A out' \<and> list_all (flight_of opts A) (re_frames r')
      \<and> re_frames r' = map (\<lambda>(i, f). if i \<in> set is then f\<lparr>if_done := True\<rparr> else f) (enumerate 0 (re_frames r1))"
    using Cons.IH [of r1 "out @ s"] Cons.prems(1,4) step by (auto simp: r1_def)
  moreover have "map (\<lambda>(i, f). if i \<in> set is then f\<lparr>if_done := True\<rparr> else f) (enumerate 0 (re_frames r1))
      = map (\<lambda>(k, f). if k \<in> set (i # is) then f\<lparr>if_done := True\<rparr> else f) (enumerate 0 (re_frames r))"
    using i by (intro nth_equalityI) (auto simp: r1_def nth_enumerate_eq nth_list_update)
  ultimately show ?case by metis
qed

lemma honest_announce: "honest_out opts A (announce_start lm opts first now targets inc air)"
  by (auto simp: honest_out_def announce_start_def Let_def split: if_splits)

lemma honest_arrival:
  assumes "relay_arrival lm opts now targets arrived r = (out, r')" and "list_all (flight_of opts A) (re_frames r)"
    and "set_option arrived \<subseteq> A"
  shows "honest_out opts A out \<and> list_all (flight_of opts A) (re_frames r')"
  using assms honest_announce
  by (auto simp: relay_arrival_def note_first_def honest_out_def [of opts A "[]"] flight_of_arrival
      split: option.splits if_splits)

definition arrivals :: "turn list \<Rightarrow> Incoming set" where
  "arrivals ts = (\<Union>(e, now, targets, arrived) \<in> set ts. set_option arrived)"

lemma arrivals_simps [simp]:
  "arrivals [] = {}"
  "arrivals ((e, now, targets, arrived) # ts) = set_option arrived \<union> arrivals ts"
  "arrivals (ts @ us) = arrivals ts \<union> arrivals us"
  by (auto simp: arrivals_def)

text \<open>A turn, taken apart: the arrival, the settling of what has ended, the forgetting.\<close>

lemma relay_turn_cases:
  assumes "relay_turn lm opts e now targets arrived r = (out, r')"
  obtains out1 r1 r2 where "relay_arrival lm opts e targets arrived r = (out1, r1)"
    and "foldl (settle_one lm opts now targets) (out1, r1) (ended now (re_frames r1)) = (out, r2)"
    and "r' = r2\<lparr>re_frames := filter (\<lambda>f. \<not> if_done f \<or> if_ends_at f + KEEP > now) (re_frames r2)\<rparr>"
  using assms by (auto simp: relay_turn_def split: prod.splits)

lemma honest_turn:
  assumes "relay_turn lm opts e now targets arrived r = (out, r')" and "list_all (flight_of opts A) (re_frames r)"
    and "set_option arrived \<subseteq> A"
  shows "honest_out opts A out \<and> list_all (flight_of opts A) (re_frames r')"
proof (rule relay_turn_cases [OF assms(1)])
  fix out1 r1 r2
  assume 1: "relay_arrival lm opts e targets arrived r = (out1, r1)"
    and 2: "foldl (settle_one lm opts now targets) (out1, r1) (ended now (re_frames r1)) = (out, r2)"
    and 3: "r' = r2\<lparr>re_frames := filter (\<lambda>f. \<not> if_done f \<or> if_ends_at f + KEEP > now) (re_frames r2)\<rparr>"
  have "\<forall>i \<in> set (ended now (re_frames r1)). i < length (re_frames r1)" by (simp add: ended_def)
  with settle_fold [OF this _ _ 2, of A] honest_arrival [OF 1 assms(2,3)]
  show ?thesis by (auto simp: 3 list_all_iff)
qed

lemma honest_run:
  "relay_run lm opts ts r = (out, r') \<Longrightarrow> list_all (flight_of opts A) (re_frames r) \<Longrightarrow> arrivals ts \<subseteq> A
    \<Longrightarrow> honest_out opts A out \<and> list_all (flight_of opts A) (re_frames r')"
proof (induction ts arbitrary: r out)
  case Nil
  then show ?case by (simp add: honest_out_def)
next
  case (Cons t ts)
  obtain e now targets arrived where t: "t = (e, now, targets, arrived)" by (cases t)
  obtain out1 r1 where turn: "relay_turn lm opts e now targets arrived r = (out1, r1)" by fastforce
  obtain out2 where run: "relay_run lm opts ts r1 = (out2, r')" "out = out1 @ out2"
    using Cons.prems(1) by (auto simp: t turn split: prod.splits)
  have "honest_out opts A out1 \<and> list_all (flight_of opts A) (re_frames r1)"
    using honest_turn [OF turn Cons.prems(2)] Cons.prems(3) by (simp add: t)
  with Cons.IH [OF run(1)] Cons.prems(3) show ?case by (simp add: t run(2) honest_append)
qed

section \<open>From sender to receiver\<close>

text \<open>What is written to one member, in order.\<close>

definition messages :: "nat \<Rightarrow> outbox \<Rightarrow> Inbound list" where
  "messages m out = map snd (filter (\<lambda>(k, _). k = m) out)"

lemma poll_all_subset: "set (poll_all n ms) \<subseteq> delivery_event ` set (deliveries ms)"
proof (induction n arbitrary: ms)
  case 0
  then show ?case by simp
next
  case (Suc n)
  have poll: "socket_poll ms = (Some d, rest) \<Longrightarrow> deliveries ms = d # deliveries rest" for d rest
    by (induction ms rule: socket_poll.induct) (auto simp: deliveries_def)
  show ?case
  proof (cases "socket_poll ms")
    case (Pair d rest)
    with poll [of _ rest] Suc [of rest] show ?thesis
      by (cases d) (auto simp: hub_poll_def)
  qed
qed

lemma deliveries_mem: "(d \<in> set (deliveries ms)) = (InDelivery d \<in> set ms)"
  by (auto simp: deliveries_def split: Inbound.splits)

lemma honest_delivery:
  assumes "honest_out opts A out" and "(m, InDelivery d) \<in> set out"
  shows "\<exists>f level v. flight_of opts A f \<and> if_from f \<noteq> m \<and> d = hub_delivery f level v"
  using bspec [OF assms(1) [unfolded honest_out_def] assms(2)] by simp

lemma honest_messages:
  assumes "honest_out opts A out" and "d \<in> set (deliveries (messages m out))"
  obtains f level v where "flight_of opts A f" and "if_from f \<noteq> m" and "d = hub_delivery f level v"
proof -
  have "(m, InDelivery d) \<in> set out" using assms(2) by (auto simp: deliveries_mem messages_def)
  from honest_delivery [OF assms(1) this] show ?thesis using that by blast
qed

lemma flight_of_E:
  assumes "flight_of opts A f"
  obtains inc where "inc \<in> A" and "if_from f = ic_from inc" and "if_bytes f = ic_bytes inc"
    and "if_starts_at f = ic_at inc" and "if_ends_at f = ic_at inc + frame_airtime opts (ic_bytes inc)"
proof -
  from assms obtain inc where "inc \<in> A" "same_flight f (in_flight opts inc)" by (auto simp: flight_of_def)
  then show ?thesis using same_flight_simps [of f "in_flight opts inc"] by (intro that [of inc]) (simp_all add: in_flight_def)
qed

lemma honest_fits:
  assumes "honest_out opts A out" and "\<forall>inc \<in> A. length (ic_bytes inc) \<le> 4087"
  shows "list_all fits_socket (messages m out)"
proof -
  have "fits_socket msg" if mem: "(m, msg) \<in> set out" for msg
  proof (cases msg)
    case (InPreamble p)
    then show ?thesis by (simp add: fits_socket_def length_inbound_encode hub_sizes)
  next
    case (InDelivery d)
    then obtain f level v where f: "flight_of opts A f" and d: "d = hub_delivery f level v"
      using honest_delivery [OF assms(1)] mem by blast
    from f have "length (if_bytes f) \<le> 4087" using assms(2) by (elim flight_of_E) simp
    then show ?thesis
      by (cases v) (simp_all add: InDelivery d fits_socket_def length_inbound_encode hub_sizes hub_delivery_def)
  qed
  then show ?thesis by (auto simp: messages_def list_all_iff)
qed

lemma delivery_event_received:
  "delivery_event (hub_delivery f level v) = EvReceived rc \<Longrightarrow> rc_bytes rc = if_bytes f"
  by (cases v) (auto simp: delivery_event_def hub_delivery_def)

text \<open>
  (C31) What a member's radio reports as received is, byte for byte, a frame another member sent:
  the channel damages frames, loses them and garbles them, but never alters one it reports
  as decoded, never makes one up, and never gives a member its own back. The frames are
  those the emulator was given over the whole run, each short enough that its delivery fits
  the socket.
\<close>

theorem hub_delivers_only_sent:
  assumes "relay_run lm opts ts relay_start = (out, r)"
    and "\<forall>inc \<in> arrivals ts. length (ic_bytes inc) \<le> 4087"
    and "EvReceived rc \<in> set (poll_all n (read_deliveries (concat (map (prefixed \<circ> inbound_encode) (messages m out)))))"
  shows "\<exists>inc \<in> arrivals ts. ic_from inc \<noteq> m \<and> rc_bytes rc = ic_bytes inc"
proof -
  have out: "honest_out opts (arrivals ts) out"
    using honest_run [OF assms(1), of "arrivals ts"] by (simp add: relay_start_def)
  have "read_deliveries (concat (map (prefixed \<circ> inbound_encode) (messages m out))) = messages m out"
    using read_deliveries_stream [OF honest_fits [OF out assms(2)], of m "[]"] by simp
  then obtain d where d: "d \<in> set (deliveries (messages m out))" "delivery_event d = EvReceived rc"
    using assms(3) poll_all_subset [of n "messages m out"] by auto
  obtain f level v where f: "flight_of opts (arrivals ts) f" "if_from f \<noteq> m" and d': "d = hub_delivery f level v"
    using honest_messages [OF out d(1)] .
  show ?thesis using f(1)
  proof (rule flight_of_E)
    fix inc assume "inc \<in> arrivals ts" "if_from f = ic_from inc" "if_bytes f = ic_bytes inc"
    with f(2) delivery_event_received [of f level v rc] d(2) d' show ?thesis by auto
  qed
qed

section \<open>Nothing is forgotten too early\<close>

lemma frame_airtime_longest: "0 \<le> frame_airtime opts bs" "frame_airtime opts bs < KEEP"
proof -
  have "airtime_ms (length bs) div w \<le> airtime_ms (length bs)" for w
    by (simp add: word_le_nat_alt unat_div_distrib)
  then have "uint (airtime_ms (length bs) div w) \<le> uint (airtime_ms (length bs))" for w
    by (simp add: word_le_def)
  moreover have "uint (airtime_ms (length bs)) \<le> 2296"
    using airtime_longest [of "length bs"] by (simp add: word_le_def)
  ultimately have "uint (airtime_ms (length bs) div max (ucast (ho_scale opts)) 1) \<le> 2296"
    using order_trans by blast
  then show "0 \<le> frame_airtime opts bs" "frame_airtime opts bs < KEEP"
    by (simp_all add: frame_airtime_def from_millis_def KEEP_def)
qed

text \<open>
  \<open>kept\<close>: at the moment \<open>t\<close> of the last turn, an arrival is either remembered or has been
  over for as long as the relay keeps frames, and a frame that is undecided is still on
  the air.
\<close>

definition kept :: "HubOptions \<Rightarrow> Incoming set \<Rightarrow> instant \<Rightarrow> Relay \<Rightarrow> bool" where
  "kept opts A t r =
     ((\<forall>inc \<in> A. (\<exists>g \<in> set (re_frames r). same_flight g (in_flight opts inc))
         \<or> if_ends_at (in_flight opts inc) + KEEP \<le> t)
      \<and> (\<forall>f \<in> set (re_frames r). \<not> if_done f \<longrightarrow> t < if_ends_at f))"

lemma arrival_frames:
  assumes "relay_arrival lm opts e targets arrived r = (out, r')"
  shows "set (re_frames r') = set (re_frames r) \<union> in_flight opts ` set_option arrived"
  using assms by (auto simp: relay_arrival_def note_first_def split: option.splits if_splits)

lemma settled_frames:
  assumes "re_frames r2 = map (\<lambda>(i, f). if i \<in> set (ended now (re_frames r1)) then f\<lparr>if_done := True\<rparr> else f)
      (enumerate 0 (re_frames r1))"
  shows "g \<in> set (re_frames r1) \<Longrightarrow> \<exists>h \<in> set (re_frames r2). same_flight h g"
    and "f \<in> set (re_frames r2) \<Longrightarrow> \<not> if_done f \<Longrightarrow> now < if_ends_at f"
proof -
  define settled where "settled i f = (if i \<in> set (ended now (re_frames r1)) then f\<lparr>if_done := True\<rparr> else f)" for i and f :: InFlight
  have nth: "length (re_frames r2) = length (re_frames r1)"
    "i < length (re_frames r1) \<Longrightarrow> re_frames r2 ! i = settled i (re_frames r1 ! i)" for i
    by (simp_all add: assms nth_enumerate_eq settled_def)
  have same: "same_flight (settled i g) g" for i g by (simp add: settled_def same_flight_def)
  show "g \<in> set (re_frames r1) \<Longrightarrow> \<exists>h \<in> set (re_frames r2). same_flight h g"
    using nth same by (metis in_set_conv_nth)
  show "f \<in> set (re_frames r2) \<Longrightarrow> \<not> if_done f \<Longrightarrow> now < if_ends_at f"
    by (auto simp: in_set_conv_nth nth settled_def ended_def not_le split: if_splits)
qed

lemma kept_turn:
  assumes "relay_turn lm opts e now targets arrived r = (out, r')" and "kept opts A t r" and "t \<le> now"
    and "list_all (flight_of opts (A \<union> set_option arrived)) (re_frames r)"
  shows "kept opts (A \<union> set_option arrived) now r'"
proof (rule relay_turn_cases [OF assms(1)])
  fix out1 r1 r2
  assume 1: "relay_arrival lm opts e targets arrived r = (out1, r1)"
    and 2: "foldl (settle_one lm opts now targets) (out1, r1) (ended now (re_frames r1)) = (out, r2)"
    and 3: "r' = r2\<lparr>re_frames := filter (\<lambda>f. \<not> if_done f \<or> if_ends_at f + KEEP > now) (re_frames r2)\<rparr>"
  have "\<forall>i \<in> set (ended now (re_frames r1)). i < length (re_frames r1)" by (simp add: ended_def)
  with settle_fold [OF this _ _ 2] honest_arrival [OF 1 assms(4)]
  have frames: "re_frames r2 = map (\<lambda>(i, f). if i \<in> set (ended now (re_frames r1)) then f\<lparr>if_done := True\<rparr> else f)
      (enumerate 0 (re_frames r1))" by blast
  have "(\<exists>h \<in> set (re_frames r2). same_flight h (in_flight opts inc)) \<or> if_ends_at (in_flight opts inc) + KEEP \<le> now"
    if inc: "inc \<in> A \<union> set_option arrived" for inc
  proof -
    have "(\<exists>g \<in> set (re_frames r1). same_flight g (in_flight opts inc)) \<or> if_ends_at (in_flight opts inc) + KEEP \<le> now"
      using inc assms(2,3) by (auto simp: kept_def arrival_frames [OF 1])
    then show ?thesis using settled_frames(1) [OF frames] by (metis same_flight_def)
  qed
  moreover have "if_ends_at h = if_ends_at (in_flight opts inc)" if "same_flight h (in_flight opts inc)" for h inc
    using same_flight_simps [OF that] by simp
  ultimately show ?thesis
    using settled_frames(2) [OF frames] by (fastforce simp: kept_def 3 not_less)
qed

text \<open>
  \<open>timely\<close>: no turn is earlier than the one before it, and a frame that is taken up came in
  less than five seconds before the turn before it, or since.
\<close>

fun timely :: "instant \<Rightarrow> turn list \<Rightarrow> bool" where
  "timely prev [] = True"
| "timely prev ((e, now, targets, arrived) # ts) =
     (prev \<le> now \<and> (\<forall>inc \<in> set_option arrived. prev < ic_at inc + KEEP) \<and> timely now ts)"

definition last_turn :: "instant \<Rightarrow> turn list \<Rightarrow> instant" where
  "last_turn prev ts = (if ts = [] then prev else fst (snd (last ts)))"

lemma kept_run:
  "relay_run lm opts ts r = (out, r') \<Longrightarrow> kept opts A t r \<Longrightarrow> timely t ts \<Longrightarrow> list_all (flight_of opts A) (re_frames r)
    \<Longrightarrow> kept opts (A \<union> arrivals ts) (last_turn t ts) r'"
proof (induction ts arbitrary: r out A t)
  case Nil
  then show ?case by (simp add: last_turn_def)
next
  case (Cons u ts)
  obtain e now targets arrived where u: "u = (e, now, targets, arrived)" by (cases u)
  obtain out1 r1 where turn: "relay_turn lm opts e now targets arrived r = (out1, r1)" by fastforce
  obtain out2 where run: "relay_run lm opts ts r1 = (out2, r')" "out = out1 @ out2"
    using Cons.prems(1) by (auto simp: u turn split: prod.splits)
  have fl: "list_all (flight_of opts (A \<union> set_option arrived)) (re_frames r)"
    using Cons.prems(4) by (auto simp: list_all_iff flight_of_def)
  have k: "kept opts (A \<union> set_option arrived) now r1"
    using kept_turn [OF turn Cons.prems(2) _ fl] Cons.prems(3) by (simp add: u)
  have "list_all (flight_of opts (A \<union> set_option arrived)) (re_frames r1)"
    using honest_turn [OF turn fl] by simp
  from Cons.IH [OF run(1) k _ this] Cons.prems(3) show ?case
    by (cases ts) (simp_all add: u last_turn_def Un_assoc)
qed

text \<open>
  (C32) As long as the relay keeps up, it forgets nothing it still needs. Keeping up is \<open>timely\<close>:
  its turns never run backwards, and no frame it takes up had been waiting for five seconds or more
  at the turn before. Then, while a frame is undecided,
  everything given to the relay that overlaps it is remembered, so that when its fate is
  settled it is judged against all of them. The five seconds for which a settled frame is kept
  are enough because no frame lasts that long, whatever its length and the scale. A relay
  that is held up for longer, by a receiver's socket that does not take what is written, say, may
  have forgotten what a frame it then takes up collided with: that is outside the statement.
\<close>

theorem nothing_forgotten:
  assumes "relay_run lm opts ts relay_start = (out, r)" and "timely t (ts @ [(e, now, targets, arrived)])"
    and "relay_arrival lm opts e targets arrived r = (out', r')"
    and "f \<in> set (re_frames r')" and "\<not> if_done f"
    and "inc \<in> arrivals ts \<union> set_option arrived" and "overlap f (in_flight opts inc)"
  shows "\<exists>g \<in> set (re_frames r'). same_flight g (in_flight opts inc)"
proof (rule ccontr)
  let ?g = "in_flight opts inc" and ?t = "last_turn t ts"
  have timely: "timely prev (xs @ [(e, now, targets, arrived)])
      \<Longrightarrow> timely prev xs \<and> (\<forall>i \<in> set_option arrived. last_turn prev xs < ic_at i + KEEP)" for prev xs
    by (induction prev xs rule: timely.induct)
      (auto simp: last_turn_def split: if_splits)
  assume forgotten: "\<not> (\<exists>g \<in> set (re_frames r'). same_flight g ?g)"
  have "list_all (flight_of opts (arrivals ts)) (re_frames r)"
    using honest_run [OF assms(1), of "arrivals ts"] by (simp add: relay_start_def)
  then have fl: "list_all (flight_of opts (arrivals ts \<union> set_option arrived)) (re_frames r')"
    using honest_arrival [OF assms(3), of "arrivals ts \<union> set_option arrived"]
    by (auto simp: list_all_iff flight_of_def)
  have k: "kept opts (arrivals ts) ?t r"
    using kept_run [OF assms(1), of "{}" t] timely [OF assms(2)] by (simp add: kept_def relay_start_def)
  have frames: "set (re_frames r') = set (re_frames r) \<union> in_flight opts ` set_option arrived"
    by (rule arrival_frames [OF assms(3)])
  have past: "if_ends_at ?g + KEEP \<le> ?t"
    using forgotten assms(6) k by (auto simp: kept_def frames)
  have "?t < if_starts_at f + KEEP"
  proof (cases "f \<in> set (re_frames r)")
    case True
    then have "?t < if_ends_at f" using k assms(5) by (simp add: kept_def)
    moreover have "flight_of opts (arrivals ts \<union> set_option arrived) f" using fl assms(4) by (simp add: list_all_iff)
    then have "if_ends_at f < if_starts_at f + KEEP"
      by (elim flight_of_E) (simp add: frame_airtime_longest)
    ultimately show ?thesis by simp
  next
    case False
    then show ?thesis using assms(4) timely [OF assms(2)] by (auto simp: frames in_flight_def)
  qed
  with past assms(7) show False by (simp add: overlap_def)
qed

section \<open>A small run\<close>

text \<open>Four members in reach of each other; one of them sends, and the relay turns twice.\<close>

definition sample_hub :: HubOptions where
  "sample_hub = \<lparr>ho_fleet = 4, ho_scale = 100, ho_loss = 0, ho_partition = False, ho_isolate_ms = 0, ho_spacing_m = None\<rparr>"

definition sample_incoming :: Incoming where
  "sample_incoming = \<lparr>ic_from = 0, ic_bytes = [7, 8], ic_at = 0\<rparr>"

lemma sample_airtime: "frame_airtime sample_hub [7, 8] = 2000000"
proof -
  have "airtime_ms 2 = 207"
    by (rule word_uint_eqI) (simp add: airtime_default airtime_formula_def air_sym_def air_num_def air_den_def clamp_sf_def)
  moreover have "max (100 :: u64) 1 = 100" by (simp add: max_def word_le_nat_alt)
  ultimately show ?thesis by (simp add: frame_airtime_def from_millis_def sample_hub_def numeral_2_eq_2 [symmetric])
qed

lemma sample_reach [simp]:
  "hub_reaches sample_hub first now a b" "hub_rssi lm sample_hub a b = Dbm (- 80)" "ho_loss sample_hub = 0"
  by (simp_all add: hub_reaches_def hub_rssi_def sample_hub_def NOMINAL_RSSI_DBM_def since_def from_millis_def)

lemma sample_rssi [simp]: "round_rssi (Dbm (- 80)) = - 80"
proof -
  have "\<lfloor>161 / 2 :: rat\<rfloor> = 80" by (simp add: floor_eq_iff)
  then show ?thesis by (simp add: round_rssi_def round_away_def)
qed

lemma sample_run:
  "relay_run lm sample_hub [(0, 0, [0, 1], Some sample_incoming), (1, 3000000, [0, 1], None)] relay_start
   = ([(1, InPreamble \<lparr>pr_rssi_dbm = - 80, pr_airtime_ms = 2\<rparr>),
       (1, InDelivery (hub_delivery (in_flight sample_hub sample_incoming) (Dbm (- 80)) HubDecoded))],
      \<lparr>re_frames = [(in_flight sample_hub sample_incoming)\<lparr>if_done := True\<rparr>], re_seed = re_seed relay_start, re_first = Some 0\<rparr>)"
  by (simp add: relay_start_def relay_turn_def relay_arrival_def sample_incoming_def sample_airtime
      announce_start_def in_flight_def ended_def settle_one_def settle_at_def verdict_at_def overlappers_def
      judge_def heard_at_def note_first_def asks_reach_def Let_def first_at_def KEEP_def sensitivity_default
      saturate32_def as_millis_def)

definition sample_turns :: "turn list" where
  "sample_turns = [(0, 0, [0, 1], Some sample_incoming), (1, 3000000, [0, 1], None)]"

definition sample_received :: Received where
  "sample_received = \<lparr>rc_bytes = [7, 8], rc_rssi_dbm = - 80, rc_snr_db = round_snr (Dbm (- 80))\<rparr>"

lemma sample_polled:
  "EvReceived sample_received \<in> set (poll_all 3 (read_deliveries (concat (map (prefixed \<circ> inbound_encode)
     (messages 1 (fst (relay_run lm sample_hub sample_turns relay_start)))))))"
proof -
  let ?ms = "messages 1 (fst (relay_run lm sample_hub sample_turns relay_start))"
  have ms: "?ms = [InPreamble \<lparr>pr_rssi_dbm = - 80, pr_airtime_ms = 2\<rparr>,
      InDelivery (hub_delivery (in_flight sample_hub sample_incoming) (Dbm (- 80)) HubDecoded)]"
    unfolding sample_turns_def sample_run messages_def by simp
  then have "list_all fits_socket ?ms"
    by (simp add: fits_socket_def length_inbound_encode hub_sizes hub_delivery_def in_flight_def sample_incoming_def)
  then have "read_deliveries (concat (map (prefixed \<circ> inbound_encode) ?ms)) = ?ms"
    using read_deliveries_stream [of ?ms "[]"] by simp
  moreover have "poll_all 3 ?ms = map delivery_event (deliveries ?ms)"
    unfolding ms by (rule poll_all_deliveries) simp
  ultimately show ?thesis
    unfolding ms by (simp add: deliveries_def delivery_event_def hub_delivery_def in_flight_def sample_incoming_def sample_received_def)
qed

theorem hub_delivers_only_sent_witness:
  "\<forall>lm. EvReceived sample_received \<in> set (poll_all 3 (read_deliveries (concat (map (prefixed \<circ> inbound_encode)
       (messages 1 (fst (relay_run lm sample_hub sample_turns relay_start)))))))
     \<and> (\<exists>inc \<in> arrivals sample_turns. ic_from inc \<noteq> 1 \<and> rc_bytes sample_received = ic_bytes inc)"
proof
  fix lm
  have "\<forall>inc \<in> arrivals sample_turns. length (ic_bytes inc) \<le> 4087"
    by (simp add: sample_turns_def sample_incoming_def)
  from hub_delivers_only_sent [OF _ this sample_polled [of lm]] sample_polled [of lm]
  show "EvReceived sample_received \<in> set (poll_all 3 (read_deliveries (concat (map (prefixed \<circ> inbound_encode)
       (messages 1 (fst (relay_run lm sample_hub sample_turns relay_start)))))))
     \<and> (\<exists>inc \<in> arrivals sample_turns. ic_from inc \<noteq> 1 \<and> rc_bytes sample_received = ic_bytes inc)"
    by (metis prod.collapse)
qed

text \<open>Another frame a millisecond later: the first is still there to be judged against it.\<close>

definition sample_second :: Incoming where
  "sample_second = \<lparr>ic_from = 1, ic_bytes = [7, 8], ic_at = 1000000\<rparr>"

lemma sample_first:
  "snd (relay_run lm sample_hub [(0, 0, [0, 1], Some sample_incoming)] relay_start) =
     \<lparr>re_frames = [in_flight sample_hub sample_incoming], re_seed = re_seed relay_start, re_first = Some 0\<rparr>"
  by (simp add: relay_start_def relay_turn_def relay_arrival_def sample_incoming_def sample_airtime
      announce_start_def in_flight_def ended_def note_first_def asks_reach_def Let_def first_at_def)

theorem nothing_forgotten_witness:
  "\<forall>lm. \<exists>g \<in> set (re_frames (snd (relay_arrival lm sample_hub 1000000 [0, 1] (Some sample_second)
       (snd (relay_run lm sample_hub [(0, 0, [0, 1], Some sample_incoming)] relay_start))))).
     same_flight g (in_flight sample_hub sample_second)"
proof
  fix lm
  let ?run = "relay_run lm sample_hub [(0, 0, [0, 1], Some sample_incoming)] relay_start"
  let ?arr = "relay_arrival lm sample_hub 1000000 [0, 1] (Some sample_second) (snd ?run)"
  have "in_flight sample_hub sample_incoming \<in> set (re_frames (snd ?arr))"
    using sample_first [of lm] by (simp add: relay_arrival_def note_first_def)
  moreover have "overlap (in_flight sample_hub sample_incoming) (in_flight sample_hub sample_second)"
    by (simp add: overlap_def in_flight_def sample_incoming_def sample_second_def sample_airtime)
  ultimately show "\<exists>g \<in> set (re_frames (snd ?arr)). same_flight g (in_flight sample_hub sample_second)"
    using nothing_forgotten [of lm sample_hub "[(0, 0, [0, 1], Some sample_incoming)]" "fst ?run" "snd ?run" 0
        1000000 1500000 "[0, 1]" "Some sample_second" "fst ?arr" "snd ?arr" "in_flight sample_hub sample_incoming" sample_second]
    by (simp add: sample_incoming_def sample_second_def KEEP_def in_flight_def del: relay_run.simps)
qed

end
