(* ===== verification/Lcq_Simulation.thy ===== *)
theory Lcq_Simulation
  imports Lcq_Medium Lcq_Codec Lcq_Evaluation Lcq_Budget
begin

text \<open>
  What \<open>src/sim/scenario.rs\<close> and \<open>src/sim/protocol.rs\<close> share: how members take turns, the
  names and keys of a simulated fleet, and the power at the observer's antenna. Both run
  a whole fleet in one process and judge it from the seat of one member, the observer.
\<close>

definition OBSERVER :: nat where "OBSERVER = 0"
definition FADING_STREAM :: u64 where "FADING_STREAM = 0x9E3779B97F4A7C15"
definition RICIAN_K_DB :: rat where "RICIAN_K_DB = 6"
definition MAX_RETRIES :: nat where "MAX_RETRIES = 5"
definition CONTENTION_WINDOW_MS :: u64 where "CONTENTION_WINDOW_MS = 30000"

datatype Access = Random | Slotted u64

text \<open>\<open>Scenario::window_ms\<close>, and the random window of a deliberation.\<close>

definition contention_ms :: "nat \<Rightarrow> u64" where
  "contention_ms attempt =
     push_bit (if attempt = 0 then 0 else if attempt = 1 then 1 else if attempt = 2 then 2 else 3) CONTENTION_WINDOW_MS"

text \<open>The name of a member: its index in decimal, written from the last digit.\<close>

definition digit_char :: "nat \<Rightarrow> char" where
  "digit_char d = char_of (48 + d)"

function digits_onto :: "nat \<Rightarrow> string \<Rightarrow> string" where
  "digits_onto v acc =
     (let acc = digit_char (v mod 10) # acc in if v div 10 = 0 then acc else digits_onto (v div 10) acc)"
  by pat_completeness auto
termination by (relation "measure fst") auto

declare digits_onto.simps [simp del]

definition sim_member :: "nat \<Rightarrow> string" where
  "sim_member index = ''n'' @ digits_onto index []"

definition sim_seed :: "nat \<Rightarrow> bytes" where
  "sim_seed index = be_bytes 8 (of_nat index + 1 :: u64) @ replicate 24 0"

text \<open>\<open>u16::try_from(sender).unwrap_or(u16::MAX)\<close>\<close>

definition sim_author :: "nat \<Rightarrow> u16" where
  "sim_author sender = (if sender < 2 ^ 16 then of_nat sender else - 1)"

definition sim_group_key :: GroupKey where
  "sim_group_key = gk_from_bytes (replicate 32 0x5a)"

definition sim_keys :: "nat \<Rightarrow> SigningKey list" where
  "sim_keys fleet = map (\<lambda>i. from_seed (sim_seed i)) [0..<fleet]"

definition sim_policy :: "nat \<Rightarrow> (PolicyError, Policy) result" where
  "sim_policy fleet = policy_new (map (\<lambda>i. (sim_member i, competence_value FULL)) [0..<fleet])"

text \<open>The power at the observer, which sits at one end of the line.\<close>

definition NOMINAL_LEVEL :: dbm where "NOMINAL_LEVEL = Dbm (- 80)"

fun dbm_plus :: "dbm \<Rightarrow> rat \<Rightarrow> dbm" where
  "dbm_plus (Dbm x) y = Dbm (fl (x + y))"
| "dbm_plus Loudest y = Loudest"
| "dbm_plus Silent y = Silent"

definition rssi_at_observer :: "Libm \<Rightarrow> rat option \<Rightarrow> nat \<Rightarrow> RicianFading \<Rightarrow> dbm \<times> RicianFading" where
  "rssi_at_observer lm spacing sender fading =
     (case spacing of
        None \<Rightarrow> (NOMINAL_LEVEL, fading)
      | Some m \<Rightarrow>
          (case sample_db lm fading of (fade, fading) \<Rightarrow>
             (dbm_plus (rssi_dbm lm (fl (m * fl (of_nat sender))) TX_POWER_DBM) fade, fading)))"

text \<open>All the frames of a round but one, and when the last of them ends.\<close>

definition without :: "nat \<Rightarrow> 'a list \<Rightarrow> 'a list" where
  "without index xs = map snd (filter (\<lambda>(i, x). i \<noteq> index) (enumerate 0 xs))"

definition round_end :: "u64 \<Rightarrow> u64 \<Rightarrow> Transmission list \<Rightarrow> u64" where
  "round_end elapsed window channel =
     max (if channel = [] then elapsed else Max (tx_end_ms ` set channel)) (elapsed + window)"

section \<open>Names\<close>

fun number_from :: "nat \<Rightarrow> string \<Rightarrow> nat" where
  "number_from a [] = a"
| "number_from a (c # cs) = number_from (10 * a + (of_char c - 48)) cs"

lemma digit_char_value: "d < 10 \<Longrightarrow> of_char (digit_char d) - 48 = d"
  by (simp add: digit_char_def)

lemma number_digits_onto: "number_from 0 (digits_onto v acc) = number_from v acc"
proof (induction v acc rule: digits_onto.induct)
  case (1 v acc)
  then show ?case
    by (subst digits_onto.simps) (auto simp: Let_def digit_char_value split: if_splits)
qed

lemma member_id_inj [simp]: "sim_member a = sim_member b \<longleftrightarrow> a = b"
proof
  assume "sim_member a = sim_member b"
  then have "number_from 0 (digits_onto a []) = number_from 0 (digits_onto b [])" by (simp add: sim_member_def)
  then show "a = b" by (simp add: number_digits_onto)
qed simp

lemma member_id_ne [simp]: "sim_member a \<noteq> []"
  by (simp add: sim_member_def)

lemma length_seed_for [simp]: "length (sim_seed i) = 32"
  by (simp add: sim_seed_def)

text \<open>Members' seeds differ, in every fleet that can exist.\<close>

lemma seed_for_inj: "i < 2 ^ 64 \<Longrightarrow> j < 2 ^ 64 \<Longrightarrow> sim_seed i = sim_seed j \<longleftrightarrow> i = j"
  by (auto simp: sim_seed_def word_unat_eq_iff [of "of_nat _"] unat_of_nat)

section \<open>The policy of a simulated fleet\<close>

lemma sim_policy_ok:
  assumes "1 \<le> fleet" and "fleet < 2 ^ 32"
  obtains pol where "sim_policy fleet = Inr pol" and "set (policy_members pol) = sim_member ` {..<fleet}"
    and "policy_size pol = fleet" and "fleet < 2 * min_signers pol" and "min_signers pol \<le> fleet"
    and "\<And>ss. set ss \<subseteq> sim_member ` {..<fleet} \<Longrightarrow> \<exists>r. evaluate pol ss = Inr r
        \<and> (approved r \<longrightarrow> min_signers pol \<le> card (set ss)) \<and> (set ss = sim_member ` {..<fleet} \<longrightarrow> approved r)"
proof -
  let ?ms = "map (\<lambda>i. (sim_member i, competence_value FULL)) [0..<fleet]"
  have "distinct (map fst ?ms)" by (simp add: comp_def distinct_map inj_on_def)
  then have "\<exists>pol. with_settings ?ms DEFAULT_BYZANTINE_BPS DEFAULT_MAX_COMPETENCE_RATIO = Inr pol"
    using assms(1) unfolding with_settings_accepts
    by (auto simp: DEFAULT_BYZANTINE_BPS_def DEFAULT_MAX_COMPETENCE_RATIO_def FULL_def)
  then obtain pol where pol: "with_settings ?ms DEFAULT_BYZANTINE_BPS DEFAULT_MAX_COMPETENCE_RATIO = Inr pol" by blast
  have sz: "length ?ms < 2 ^ 32" using assms(2) by simp
  have members: "set (policy_members pol) = sim_member ` {..<fleet}" "policy_size pol = fleet"
    using size_of [OF pol] by (auto simp: image_image)
  note whole = whole_fleet_approves [OF pol sz]
  have ev: "\<exists>r. evaluate pol ss = Inr r \<and> (approved r \<longrightarrow> min_signers pol \<le> card (set ss))
      \<and> (set ss = sim_member ` {..<fleet} \<longrightarrow> approved r)" if "set ss \<subseteq> sim_member ` {..<fleet}" for ss
    using that whole members evaluate_ok [OF wf_of [OF pol], of ss] evaluate_ok [OF wf_of [OF pol], of "policy_members pol"] assms(2)
    by (auto simp: approved_def)
  show thesis
    by (rule that [of pol]) (use pol members whole ev in \<open>simp_all add: sim_policy_def policy_new_def\<close>)
qed

section \<open>Keys and frames\<close>

text \<open>No member's signature verifies under the key of another.\<close>

definition keys_apart :: "primitives \<Rightarrow> nat \<Rightarrow> bool" where
  "keys_apart p n =
     (\<forall>i < n. \<forall>j < n. i \<noteq> j \<longrightarrow> (\<forall>m. \<not> ed_verify_strict p (ed_public p (sim_seed i)) m (ed_sign p (sim_seed j) m)))"

lemma sim_keys_simps [simp]:
  "length (sim_keys n) = n" "i < n \<Longrightarrow> sim_keys n ! i = from_seed (sim_seed i)"
  by (simp_all add: sim_keys_def)

lemma unat_author_of: "unat (sim_author i) = (if i < 2 ^ 16 then i else 2 ^ 16 - 1)"
  by (simp add: sim_author_def unat_of_nat unat_max_word)

text \<open>A serializer of fixed size, for the witnesses: the fields one after another.\<close>

definition sample_fixed :: "SignedCompactEnvelope serializer" where
  "sample_fixed =
     \<lparr>ser = (\<lambda>s. let e = sc_envelope s in
        if length (ce_case e) = 8 \<and> length (heard_bits (ce_heard e)) = 8
        then Some (be_bytes 2 (ce_mission_epoch e) @ be_bytes 4 (ce_event e) @ be_bytes 2 (ce_revision e)
          @ be_bytes 8 (ce_started_at e) @ be_bytes 2 (ce_author_index e) @ [ce_stage e, ce_verdict e]
          @ be_bytes 8 (ce_sequence e) @ be_bytes 2 (round_opener (ce_round e)) @ be_bytes 4 (round_sequence (ce_round e))
          @ ce_case e @ heard_bits (ce_heard e) @ sc_signature s) else None),
      deser = (\<lambda>bs. Some \<lparr>sc_envelope =
          \<lparr>ce_mission_epoch = of_be_bytes (take 2 bs), ce_event = of_be_bytes (take 4 (drop 2 bs)),
           ce_revision = of_be_bytes (take 2 (drop 6 bs)), ce_case = take 8 (drop 34 bs),
           ce_started_at = of_be_bytes (take 8 (drop 8 bs)), ce_author_index = of_be_bytes (take 2 (drop 16 bs)),
           ce_stage = bs ! 18, ce_verdict = bs ! 19, ce_sequence = of_be_bytes (take 8 (drop 20 bs)),
           ce_heard = \<lparr>heard_bits = take 8 (drop 42 bs)\<rparr>,
           ce_round = \<lparr>round_opener = of_be_bytes (take 2 (drop 28 bs)), round_sequence = of_be_bytes (take 4 (drop 30 bs))\<rparr>\<rparr>,
         sc_signature = drop 50 bs\<rparr>)\<rparr>"

lemma sample_fixed_ok: "serializer_ok sample_fixed"
  by (auto simp: serializer_ok_def sample_fixed_def Let_def nth_append split: if_splits)

lemma sample_keys_apart:
  assumes "n \<le> 2 ^ 64"
  shows "keys_apart sample_primitives n"
proof -
  have "i = j" if "i < n" "j < n" "take 64 (sim_seed j @ m @ replicate 64 0) = take 64 (sim_seed i @ m @ replicate 64 0)" for i j m
  proof -
    have "take 32 (take 64 (sim_seed j @ m @ replicate 64 0)) = take 32 (take 64 (sim_seed i @ m @ replicate 64 0))"
      using that(3) by simp
    then show ?thesis using that(1,2) assms seed_for_inj [of j i] by simp
  qed
  then show ?thesis by (auto simp: keys_apart_def sample_primitives_def)
qed

lemma sample_encoded:
  "\<exists>plain. encode_compact sample_fixed (compact_sign sample_primitives (compact_new sample_primitives e ev rv h t a st v q) key h) = Inr plain
    \<and> length plain = 114"
  using sample_primitives_ok
  by (auto simp: encode_compact_def sample_fixed_def Let_def compact_sign_def compact_new_def heard_none_def
      case_reference_def CASE_REFERENCE_BYTES_def primitives_ok_def sk_sign_def)

lemma sample_sealed:
  "\<exists>bs. seal_frame sample_primitives sim_group_key a q plain = Inr bs \<and> length bs = length plain + 26"
  by (simp add: seal_frame_def seal_def sim_group_key_def gk_from_bytes_def sample_primitives_def)

end
