(* ===== verification/Lcq_Deliberation.thy ===== *)
theory Lcq_Deliberation
  imports Lcq_Simulation Lcq_Case Lcq_Journal
begin

text \<open>
  \<open>src/sim/protocol.rs\<close>: a whole deliberation over the simulated radio, with the real
  state machine, journals, signatures and sealing. Every member speaks once in each of
  the three stages, with retries; the observer admits what it hears. \<open>deliberate\<close> gives
  the report and the final state of everything the run changed; it is \<open>None\<close> where the
  program panics.
\<close>

datatype SlotAnchor = Trigger | AnchorClock

record StageReport =
  sg_frames_sent :: nat
  sg_collided :: nat
  sg_lost :: nat
  sg_admitted :: nat
  sg_refused :: nat
  sg_airtime_ms :: u64
  sg_elapsed_ms :: u64

definition stage_report_zero :: StageReport where
  "stage_report_zero = \<lparr>sg_frames_sent = 0, sg_collided = 0, sg_lost = 0, sg_admitted = 0, sg_refused = 0,
     sg_airtime_ms = 0, sg_elapsed_ms = 0\<rparr>"

record DeliberationReport =
  de_endorsed :: bool
  de_binding_supporters :: nat
  de_min_signers :: nat
  de_stages :: "StageReport list"
  de_elapsed_s :: u64
  de_radio_ms :: u64
  de_airtime_ms :: u64
  de_frame_bytes :: nat
  de_refusals :: TransitionErrorCount

definition radio_share :: "DeliberationReport \<Rightarrow> rat" where
  "radio_share r =
     (if de_elapsed_s r = 0 then 0
      else fl (fl (of_int (uint (de_radio_ms r))) / fl (fl (of_int (uint (de_elapsed_s r))) * 1000)))"

section \<open>The scenario\<close>

record Deliberation =
  db_fleet :: nat
  db_loss :: rat
  db_seed :: u64
  db_topology :: Topology
  db_silent :: nat
  db_spacing_m :: "rat option"
  db_access :: Access
  db_anchor :: SlotAnchor
  db_clock_skew_s :: u64
  db_disputers :: nat
  db_forgers :: nat
  db_validity_s :: "u64 option"

definition deliberation_new :: "nat \<Rightarrow> Deliberation" where
  "deliberation_new fleet =
     \<lparr>db_fleet = max fleet 1, db_loss = 0, db_seed = 1, db_topology = FullyConnected, db_silent = 0,
      db_spacing_m = None, db_access = Random, db_anchor = Trigger, db_clock_skew_s = 0,
      db_disputers = 0, db_forgers = 0, db_validity_s = None\<rparr>"

definition db_with_loss :: "rat \<Rightarrow> Deliberation \<Rightarrow> Deliberation" where
  "db_with_loss loss d = d\<lparr>db_loss := clamp_f 0 1 loss\<rparr>"

definition db_with_seed :: "u64 \<Rightarrow> Deliberation \<Rightarrow> Deliberation" where
  "db_with_seed seed d = d\<lparr>db_seed := seed\<rparr>"

definition db_with_topology :: "Topology \<Rightarrow> Deliberation \<Rightarrow> Deliberation" where
  "db_with_topology t d = d\<lparr>db_topology := t\<rparr>"

definition db_with_silent :: "nat \<Rightarrow> Deliberation \<Rightarrow> Deliberation" where
  "db_with_silent n d = d\<lparr>db_silent := n\<rparr>"

definition db_with_spacing_m :: "rat \<Rightarrow> Deliberation \<Rightarrow> Deliberation" where
  "db_with_spacing_m m d = d\<lparr>db_spacing_m := Some (max m 0)\<rparr>"

definition db_with_slots :: "u64 \<Rightarrow> Deliberation \<Rightarrow> Deliberation" where
  "db_with_slots guard_ms d = d\<lparr>db_access := Slotted guard_ms\<rparr>"

definition db_with_anchor :: "SlotAnchor \<Rightarrow> Deliberation \<Rightarrow> Deliberation" where
  "db_with_anchor a d = d\<lparr>db_anchor := a\<rparr>"

definition db_with_clock_skew_s :: "u64 \<Rightarrow> Deliberation \<Rightarrow> Deliberation" where
  "db_with_clock_skew_s s d = d\<lparr>db_clock_skew_s := s\<rparr>"

definition db_with_disputers :: "nat \<Rightarrow> Deliberation \<Rightarrow> Deliberation" where
  "db_with_disputers n d = d\<lparr>db_disputers := n\<rparr>"

definition db_with_forgers :: "nat \<Rightarrow> Deliberation \<Rightarrow> Deliberation" where
  "db_with_forgers n d = d\<lparr>db_forgers := n\<rparr>"

definition db_with_validity_s :: "u64 \<Rightarrow> Deliberation \<Rightarrow> Deliberation" where
  "db_with_validity_s s d = d\<lparr>db_validity_s := Some s\<rparr>"

definition db_verdict_of :: "Deliberation \<Rightarrow> nat \<Rightarrow> Verdict" where
  "db_verdict_of d sender =
     (if sender \<ge> db_silent d \<and> sender < db_silent d + db_disputers d then Dispute else Support)"

definition db_is_forger :: "Deliberation \<Rightarrow> nat \<Rightarrow> bool" where
  "db_is_forger d sender =
     (let first = db_silent d + db_disputers d in sender \<ge> first \<and> sender < first + db_forgers d)"

text \<open>Each member's clock error; the extremes are pinned.\<close>

fun draw_offsets :: "nat \<Rightarrow> u64 \<Rightarrow> rng \<Rightarrow> int list" where
  "draw_offsets 0 width s = []"
| "draw_offsets (Suc n) width s =
     (case rng_below (width + 1) s of (draw, s) \<Rightarrow> (uint draw - uint width div 2) # draw_offsets n width s)"

text \<open>\<open>i64::try_from(skew * 1000).unwrap_or(i64::MAX)\<close>\<close>

definition skew_span :: "u64 \<Rightarrow> u64" where
  "skew_span skew_s = (let ms = skew_s * 1000 in if unat ms < 2 ^ 63 then ms else word_of_nat (2 ^ 63 - 1))"

definition clock_offsets_ms :: "Deliberation \<Rightarrow> int list" where
  "clock_offsets_ms d =
     (if db_clock_skew_s d = 0 \<or> db_fleet d < 2 then replicate (db_fleet d) 0
      else let width = skew_span (db_clock_skew_s d);
               offsets = draw_offsets (db_fleet d) width (rng_new (db_seed d XOR 0xC10CC10CC10CC10C))
           in offsets[0 := - (uint width div 2), db_fleet d - 1 := uint width div 2])"

section \<open>Frames\<close>

text \<open>What every stage is given and none of it changes.\<close>

record SimFleet =
  ft_subject :: Subject
  ft_keys :: "SigningKey list"
  ft_manifest :: "VerifyingKey list"
  ft_group :: GroupKey

definition sim_envelope :: "primitives \<Rightarrow> Subject \<Rightarrow> u16 \<Rightarrow> u8 \<Rightarrow> u8 \<Rightarrow> u64 \<Rightarrow> CompactEnvelope" where
  "sim_envelope p s author_index stg vd sequence =
     compact_new p 1 1 0 (content_hash s) (started_at s) author_index stg vd sequence"

definition sim_stage_of :: "u8 \<Rightarrow> Stage option" where
  "sim_stage_of code =
     (if code = 1 then Some Independent else if code = 2 then Some Consultation
      else if code = 3 then Some BindingSupport else None)"

definition sim_verdict_of :: "u8 \<Rightarrow> Verdict option" where
  "sim_verdict_of code =
     (if code = 1 then Some Support else if code = 2 then Some Dispute
      else if code = 3 then Some InsufficientData else None)"

definition frame_for ::
  "primitives \<Rightarrow> SignedCompactEnvelope serializer \<Rightarrow> SimFleet \<Rightarrow> nat \<Rightarrow> Stage \<Rightarrow> Verdict \<Rightarrow> bool \<Rightarrow> JState
    \<Rightarrow> bytes option \<times> JState" where
  "frame_for p sz f sender stg vd forger j =
     (case mem_reserve_sequence j of
        (Inl e, j) \<Rightarrow> (None, j)
      | (Inr sequence, j) \<Rightarrow>
          (let author_index = sim_author sender;
               envelope = sim_envelope p (ft_subject f) author_index (stage_code stg) (verdict_code vd) sequence;
               signing = (if forger then ft_keys f ! ((sender + 1) mod length (ft_keys f)) else ft_keys f ! sender)
           in case encode_compact sz (compact_sign p envelope signing (content_hash (ft_subject f))) of
                Inl e \<Rightarrow> (None, j)
              | Inr plain \<Rightarrow>
                  (case seal_frame p (ft_group f) author_index sequence plain of
                     Inl e \<Rightarrow> (None, j)
                   | Inr sealed \<Rightarrow>
                       if stg = BindingSupport then
                         (case mem_commit_vote j (ft_subject f) (sim_member sender) (frame_new sealed sequence) of
                            (Inl e, j) \<Rightarrow> (None, j)
                          | (Inr u, j) \<Rightarrow> (Some sealed, j))
                       else (Some sealed, j))))"

definition sim_admit ::
  "primitives \<Rightarrow> SignedCompactEnvelope serializer \<Rightarrow> SimFleet \<Rightarrow> timestamp \<Rightarrow> bytes \<Rightarrow> Case
    \<Rightarrow> (TransitionError, unit) result \<times> Case" where
  "sim_admit p sz f now sealed observer =
     (case open_frame p (ft_group f) sealed of
        Inl e \<Rightarrow> (Inl DifferentSubject, observer)
      | Inr (_, _, plain) \<Rightarrow>
          (case decode_compact sz plain of
             Inl e \<Rightarrow> (Inl DifferentSubject, observer)
           | Inr received \<Rightarrow>
               (let claimed = unat (ce_author_index (sc_envelope received))
                in if claimed \<ge> length (ft_manifest f)
                      \<or> compact_verify p received (ft_manifest f ! claimed) (content_hash (ft_subject f)) \<noteq> Inr ()
                   then (Inl DifferentSubject, observer)
                   else case (sim_stage_of (ce_stage (sc_envelope received)), sim_verdict_of (ce_verdict (sc_envelope received))) of
                       (Some stg, Some vd) \<Rightarrow>
                         accept observer \<lparr>author = sim_member claimed, opinion_subject = ft_subject f, stage = stg, verdict = vd\<rparr> now
                     | _ \<Rightarrow> (Inl DifferentSubject, observer))))"

text \<open>The size of a sealed frame; \<open>None\<close> where \<open>expect\<close> panics.\<close>

definition frame_size :: "primitives \<Rightarrow> SignedCompactEnvelope serializer \<Rightarrow> SimFleet \<Rightarrow> nat option" where
  "frame_size p sz f =
     (let envelope = sim_envelope p (ft_subject f) 0 (stage_code BindingSupport) (verdict_code Support) (ucast (- 1 :: u32))
      in case encode_compact sz (compact_sign p envelope (ft_keys f ! 0) (content_hash (ft_subject f))) of
           Inl e \<Rightarrow> None
         | Inr plain \<Rightarrow>
             (case seal_frame p (ft_group f) (- 1) (ucast (- 1 :: u32)) plain of
                Inl e \<Rightarrow> None
              | Inr sealed \<Rightarrow> Some (length sealed)))"

definition window_for ::
  "primitives \<Rightarrow> SignedCompactEnvelope serializer \<Rightarrow> Deliberation \<Rightarrow> SimFleet \<Rightarrow> nat \<Rightarrow> u64 option" where
  "window_for p sz d f attempt =
     (case db_access d of
        Random \<Rightarrow> Some (contention_ms attempt)
      | Slotted guard_ms \<Rightarrow>
          map_option (\<lambda>size. (airtime_ms size + guard_ms) * of_nat (db_fleet d)) (frame_size p sz f))"

section \<open>One stage\<close>

text \<open>Everything a run changes: first what lasts, then what belongs to a stage and to a round of it.\<close>

record Floor =
  fo_journals :: "JState list"
  fo_observer :: Case
  fo_rng :: rng
  fo_fading :: RicianFading
  fo_used :: "u64 list"
  fo_refusals :: TransitionErrorCount
  fo_report :: StageReport
  fo_outbox :: "bytes option list"
  fo_on_air :: "(nat \<times> Transmission \<times> bytes) list"
  fo_retry :: "nat list"

definition frame_kept ::
  "primitives \<Rightarrow> SignedCompactEnvelope serializer \<Rightarrow> Deliberation \<Rightarrow> SimFleet \<Rightarrow> Stage \<Rightarrow> nat \<Rightarrow> Floor \<Rightarrow> bytes option \<times> Floor" where
  "frame_kept p sz d f stg sender r =
     (case fo_outbox r ! sender of
        Some bs \<Rightarrow> (Some bs, r)
      | None \<Rightarrow>
          (case frame_for p sz f sender stg (db_verdict_of d sender) (db_is_forger d sender) (fo_journals r ! sender) of
             (None, j) \<Rightarrow> (None, r\<lparr>fo_journals := (fo_journals r)[sender := j]\<rparr>)
           | (Some bs, j) \<Rightarrow>
               (Some bs, r\<lparr>fo_journals := (fo_journals r)[sender := j], fo_outbox := (fo_outbox r)[sender := Some bs]\<rparr>)))"

definition start_of ::
  "Deliberation \<Rightarrow> int list \<Rightarrow> u64 \<Rightarrow> u64 \<Rightarrow> nat \<Rightarrow> u64 \<Rightarrow> rng \<Rightarrow> u64 \<times> rng" where
  "start_of d offsets elapsed window sender air s =
     (case db_access d of
        Random \<Rightarrow> (case rng_below window s of (offset, s) \<Rightarrow> (elapsed + offset, s))
      | Slotted guard_ms \<Rightarrow>
          (let slot = elapsed + of_nat sender * (air + guard_ms)
           in (case db_anchor d of
                 Trigger \<Rightarrow> slot
               | AnchorClock \<Rightarrow> word_of_int (min (max (uint slot + offsets ! sender) 0) (2 ^ 64 - 1)), s)))"

definition charge_airtime :: "nat \<Rightarrow> u64 \<Rightarrow> Floor \<Rightarrow> Floor" where
  "charge_airtime sender air r =
     r\<lparr>fo_used := (fo_used r)[sender := fo_used r ! sender + air],
       fo_report := (fo_report r)\<lparr>sg_frames_sent := sg_frames_sent (fo_report r) + 1,
                                  sg_airtime_ms := sg_airtime_ms (fo_report r) + air\<rparr>\<rparr>"

definition lose :: "nat \<Rightarrow> Floor \<Rightarrow> Floor" where
  "lose sender r =
     r\<lparr>fo_report := (fo_report r)\<lparr>sg_lost := sg_lost (fo_report r) + 1\<rparr>, fo_retry := fo_retry r @ [sender]\<rparr>"

definition collide :: "nat \<Rightarrow> Floor \<Rightarrow> Floor" where
  "collide sender r =
     r\<lparr>fo_report := (fo_report r)\<lparr>sg_collided := sg_collided (fo_report r) + 1\<rparr>, fo_retry := fo_retry r @ [sender]\<rparr>"

definition put_on_air :: "nat \<Rightarrow> Transmission \<Rightarrow> bytes \<Rightarrow> Floor \<Rightarrow> Floor" where
  "put_on_air sender t bs r = r\<lparr>fo_on_air := fo_on_air r @ [(sender, t, bs)]\<rparr>"

definition key_up ::
  "Libm \<Rightarrow> primitives \<Rightarrow> SignedCompactEnvelope serializer \<Rightarrow> Deliberation \<Rightarrow> SimFleet \<Rightarrow> Stage \<Rightarrow> int list \<Rightarrow> u64 \<Rightarrow> u64
    \<Rightarrow> Floor \<Rightarrow> nat \<Rightarrow> Floor" where
  "key_up lm p sz d f stg offsets elapsed window r sender =
     (case frame_kept p sz d f stg sender r of
        (None, r) \<Rightarrow> r
      | (Some bs, r) \<Rightarrow>
          (let air = airtime_ms (length bs)
           in if \<not> duty_cycle_ok (fo_used r ! sender) air then r
              else case start_of d offsets elapsed window sender air (fo_rng r) of (start, s) \<Rightarrow>
                (let r = (charge_airtime sender air r)\<lparr>fo_rng := s\<rparr>
                 in if sender = OBSERVER then put_on_air sender (own_transmission start air) bs r
                    else if topology_reaches (db_topology d) sender OBSERVER (db_fleet d) then
                      (case rssi_at_observer lm (db_spacing_m d) sender (fo_fading r) of (level, fading) \<Rightarrow>
                         put_on_air sender \<lparr>tx_start_ms = start, tx_airtime_ms = air, tx_rssi_dbm = level\<rparr> bs
                           (r\<lparr>fo_fading := fading\<rparr>))
                    else lose sender r)))"

definition offer_to_observer ::
  "primitives \<Rightarrow> SignedCompactEnvelope serializer \<Rightarrow> SimFleet \<Rightarrow> timestamp \<Rightarrow> bytes \<Rightarrow> Floor \<Rightarrow> Floor" where
  "offer_to_observer p sz f now bs r =
     (case sim_admit p sz f now bs (fo_observer r) of
        (Inr u, c) \<Rightarrow>
          r\<lparr>fo_observer := c, fo_report := (fo_report r)\<lparr>sg_admitted := sg_admitted (fo_report r) + 1\<rparr>\<rparr>
      | (Inl e, c) \<Rightarrow>
          r\<lparr>fo_observer := c, fo_report := (fo_report r)\<lparr>sg_refused := sg_refused (fo_report r) + 1\<rparr>,
            fo_refusals := record_error (fo_refusals r) e\<rparr>)"

definition hear ::
  "primitives \<Rightarrow> SignedCompactEnvelope serializer \<Rightarrow> Deliberation \<Rightarrow> SimFleet \<Rightarrow> timestamp
    \<Rightarrow> (nat \<times> Transmission \<times> bytes) list \<Rightarrow> Floor \<Rightarrow> nat \<Rightarrow> Floor" where
  "hear p sz d f now aired r index =
     (case aired ! index of (sender, frame, bs) \<Rightarrow>
        case (if sender = OBSERVER then Decoded
              else medium_receive frame (without index (map (\<lambda>(_, t, _). t) aired))) of
          TooWeak \<Rightarrow> lose sender r
        | Decoded \<Rightarrow>
            if sender \<noteq> OBSERVER then
              (case next_f64 (fo_rng r) of (draw, s) \<Rightarrow>
                 (let r = r\<lparr>fo_rng := s\<rparr>
                  in if draw < db_loss d then lose sender r else offer_to_observer p sz f now bs r))
            else offer_to_observer p sz f now bs r
        | _ \<Rightarrow> collide sender r)"

definition stage_round ::
  "Libm \<Rightarrow> primitives \<Rightarrow> SignedCompactEnvelope serializer \<Rightarrow> Deliberation \<Rightarrow> SimFleet \<Rightarrow> Stage \<Rightarrow> timestamp \<Rightarrow> int list
    \<Rightarrow> u64 \<Rightarrow> u64 \<Rightarrow> nat list \<Rightarrow> Floor \<Rightarrow> u64 \<times> Floor" where
  "stage_round lm p sz d f stg now offsets elapsed window pending r =
     (let r = foldl (key_up lm p sz d f stg offsets elapsed window) (r\<lparr>fo_on_air := [], fo_retry := []\<rparr>) pending;
          aired = fo_on_air r;
          r = foldl (hear p sz d f now aired) r [0..<length aired]
      in (round_end elapsed window (map (\<lambda>(_, t, _). t) aired), r))"

fun stage_rounds ::
  "Libm \<Rightarrow> primitives \<Rightarrow> SignedCompactEnvelope serializer \<Rightarrow> Deliberation \<Rightarrow> SimFleet \<Rightarrow> Stage \<Rightarrow> timestamp \<Rightarrow> int list
    \<Rightarrow> nat list \<Rightarrow> u64 \<Rightarrow> nat list \<Rightarrow> Floor \<Rightarrow> (u64 \<times> Floor) option" where
  "stage_rounds lm p sz d f stg now offsets [] elapsed pending r = Some (elapsed, r)"
| "stage_rounds lm p sz d f stg now offsets (attempt # attempts) elapsed pending r =
     (if pending = [] then Some (elapsed, r)
      else case window_for p sz d f attempt of
          None \<Rightarrow> None
        | Some window \<Rightarrow>
            (case stage_round lm p sz d f stg now offsets elapsed window pending r of (elapsed, r) \<Rightarrow>
               stage_rounds lm p sz d f stg now offsets attempts elapsed (fo_retry r) r))"

definition run_stage ::
  "Libm \<Rightarrow> primitives \<Rightarrow> SignedCompactEnvelope serializer \<Rightarrow> Deliberation \<Rightarrow> SimFleet \<Rightarrow> timestamp \<Rightarrow> Stage \<Rightarrow> Floor
    \<Rightarrow> Floor option" where
  "run_stage lm p sz d f now stg r =
     map_option (\<lambda>(elapsed, r). r\<lparr>fo_report := (fo_report r)\<lparr>sg_elapsed_ms := elapsed\<rparr>\<rparr>)
       (stage_rounds lm p sz d f stg now (clock_offsets_ms d) [0..<MAX_RETRIES] 0 [db_silent d..<db_fleet d]
          (r\<lparr>fo_report := stage_report_zero, fo_outbox := replicate (db_fleet d) None\<rparr>))"

section \<open>A deliberation\<close>

definition STARTED_AT :: timestamp where "STARTED_AT = 1000000"

definition sim_fleet :: "primitives \<Rightarrow> Deliberation \<Rightarrow> SimFleet" where
  "sim_fleet p d =
     \<lparr>ft_subject = \<lparr>mission = ''mission'', event = ''evt-1'', revision = 0, content_hash = replicate 32 0x22,
        started_at = STARTED_AT\<rparr>,
      ft_keys = sim_keys (db_fleet d), ft_manifest = map (verifying_key p) (sim_keys (db_fleet d)),
      ft_group = sim_group_key\<rparr>"

definition refusals_zero :: TransitionErrorCount where
  "refusals_zero = \<lparr>different_subject = 0, wrong_stage_for_phase = 0, consultation_closed = 0,
     cutoff_not_reached = 0, expired = 0, time_uncertain = 0, already_voted = 0\<rparr>"

definition first_case :: "Deliberation \<Rightarrow> Subject \<Rightarrow> Case" where
  "first_case d s =
     (case db_validity_s d of
        None \<Rightarrow> case_open s
      | Some seconds \<Rightarrow> open_until s (plus_secs STARTED_AT seconds))"

definition floor_start :: "Libm \<Rightarrow> primitives \<Rightarrow> Deliberation \<Rightarrow> Floor" where
  "floor_start lm p d =
     \<lparr>fo_journals = replicate (db_fleet d) default_state, fo_observer = first_case d (ft_subject (sim_fleet p d)),
      fo_rng = rng_new (db_seed d), fo_fading = fading_new lm (db_seed d XOR FADING_STREAM) RICIAN_K_DB,
      fo_used = replicate (db_fleet d) 0, fo_refusals = refusals_zero, fo_report = stage_report_zero,
      fo_outbox = [], fo_on_air = [], fo_retry = []\<rparr>"

definition CLOSE_AT :: u64 where
  "CLOSE_AT = CONSULTATION_CUTOFF_SECONDS + MAX_CLOCK_SKEW_SECONDS + 1"

definition freeze :: "Floor \<Rightarrow> Floor" where
  "freeze r =
     (case close_consultation (fo_observer r) (plus_secs STARTED_AT CLOSE_AT) of
        (Inr u, c) \<Rightarrow> r\<lparr>fo_observer := c\<rparr>
      | (Inl e, c) \<Rightarrow> r\<lparr>fo_observer := c, fo_refusals := record_error (fo_refusals r) e\<rparr>)"

definition deliberation_floors ::
  "Libm \<Rightarrow> primitives \<Rightarrow> SignedCompactEnvelope serializer \<Rightarrow> Deliberation \<Rightarrow> (Floor \<times> Floor \<times> Floor) option" where
  "deliberation_floors lm p sz d =
     (let f = sim_fleet p d; early = plus_secs STARTED_AT 1; late = plus_secs STARTED_AT CLOSE_AT
      in Option.bind (run_stage lm p sz d f early Independent (floor_start lm p d)) (\<lambda>r1.
         Option.bind (run_stage lm p sz d f early Consultation r1) (\<lambda>r2.
         Option.bind (run_stage lm p sz d f late BindingSupport (freeze r2)) (\<lambda>r3. Some (r1, r2, r3)))))"

definition deliberation_report ::
  "primitives \<Rightarrow> SignedCompactEnvelope serializer \<Rightarrow> Deliberation \<Rightarrow> Floor \<Rightarrow> Floor \<Rightarrow> Floor \<Rightarrow> DeliberationReport option" where
  "deliberation_report p sz d r1 r2 r3 =
     (let supporters = binding_supporters (fo_observer r3); stages = map fo_report [r1, r2, r3]
      in case sim_policy (db_fleet d) of
           Inl e \<Rightarrow> None
         | Inr pol \<Rightarrow>
             (case (evaluate pol supporters, frame_size p sz (sim_fleet p d)) of
                (Inr outcome, Some bytes_each) \<Rightarrow>
                  Some \<lparr>de_endorsed = approved outcome, de_binding_supporters = length supporters,
                    de_min_signers = min_signers pol, de_stages = stages,
                    de_elapsed_s = CLOSE_AT + sg_elapsed_ms (fo_report r3) div 1000,
                    de_radio_ms = sum_list (map sg_elapsed_ms stages), de_airtime_ms = sum_list (map sg_airtime_ms stages),
                    de_frame_bytes = bytes_each, de_refusals = fo_refusals r3\<rparr>
              | _ \<Rightarrow> None))"

definition deliberate ::
  "Libm \<Rightarrow> primitives \<Rightarrow> SignedCompactEnvelope serializer \<Rightarrow> Deliberation \<Rightarrow> (DeliberationReport \<times> Floor) option" where
  "deliberate lm p sz d =
     Option.bind (deliberation_floors lm p sz d) (\<lambda>(r1, r2, r3).
       map_option (\<lambda>report. (report, r3)) (deliberation_report p sz d r1 r2 r3))"

end
