(* ===== verification/Lcq_Deliberation_Correct.thy ===== *)
theory Lcq_Deliberation_Correct
  imports Lcq_Deliberation
begin

text \<open>
  What a deliberation can conclude: the observer's endorsement stands on binding votes of
  members that were there, in reach, signing with their own keys and supporting the claim,
  each of which is locked in its own journal.
\<close>

section \<open>One frame\<close>

abbreviation "sim_subject p d \<equiv> ft_subject (sim_fleet p d)"

definition signer_of :: "Deliberation \<Rightarrow> nat \<Rightarrow> nat" where
  "signer_of d i = (if db_is_forger d i then (i + 1) mod db_fleet d else i)"

text \<open>The frame is what the member made for the stage.\<close>

definition made_by :: "primitives \<Rightarrow> SignedCompactEnvelope serializer \<Rightarrow> Deliberation \<Rightarrow> Stage \<Rightarrow> nat \<Rightarrow> bytes \<Rightarrow> bool" where
  "made_by p sz d stg i bs =
     (\<exists>sequence plain.
        encode_compact sz (compact_sign p
          (sim_envelope p (sim_subject p d) (sim_author i) (stage_code stg) (verdict_code (db_verdict_of d i)) sequence)
          (from_seed (sim_seed (signer_of d i))) (content_hash (sim_subject p d))) = Inr plain
        \<and> seal_frame p sim_group_key (sim_author i) sequence plain = Inr bs)"

definition opinion_of :: "primitives \<Rightarrow> Deliberation \<Rightarrow> Stage \<Rightarrow> nat \<Rightarrow> Opinion" where
  "opinion_of p d stg i =
     \<lparr>author = sim_member i, opinion_subject = sim_subject p d, stage = stg, verdict = db_verdict_of d i\<rparr>"

text \<open>The member signs with its own key, under an index that fits the frame.\<close>

definition honest :: "Deliberation \<Rightarrow> nat \<Rightarrow> bool" where
  "honest d i = (signer_of d i = i \<and> i < 2 ^ 16)"

lemma sim_fleet_simps [simp]:
  "ft_keys (sim_fleet p d) = sim_keys (db_fleet d)" "ft_group (sim_fleet p d) = sim_group_key"
  "ft_manifest (sim_fleet p d) = map (verifying_key p) (sim_keys (db_fleet d))"
  by (simp_all add: sim_fleet_def)

lemma codes_back [simp]: "sim_stage_of (stage_code stg) = Some stg" "sim_verdict_of (verdict_code v) = Some v"
  by (cases stg; simp add: sim_stage_of_def stage_code_def) (cases v; simp add: sim_verdict_of_def verdict_code_def)

lemma signer_less: "i < db_fleet d \<Longrightarrow> signer_of d i < db_fleet d"
  by (auto simp: signer_of_def)

text \<open>What the observer makes of a member's frame: its opinion when it is honest, and nothing otherwise.\<close>

lemma sim_admit_made:
  assumes "primitives_ok p" and "serializer_ok sz" and "keys_apart p (db_fleet d) \<or> honest d i"
    and "made_by p sz d stg i bs" and "i < db_fleet d"
  shows "sim_admit p sz (sim_fleet p d) now bs c =
    (if honest d i then accept c (opinion_of p d stg i) now else (Inl DifferentSubject, c))"
proof -
  let ?claimed = "if i < 2 ^ 16 then i else 2 ^ 16 - 1"
  from assms(4) obtain sequence plain where
    enc: "encode_compact sz (compact_sign p
          (sim_envelope p (sim_subject p d) (sim_author i) (stage_code stg) (verdict_code (db_verdict_of d i)) sequence)
          (from_seed (sim_seed (signer_of d i))) (content_hash (sim_subject p d))) = Inr plain"
    and seal: "seal_frame p sim_group_key (sim_author i) sequence plain = Inr bs"
    by (auto simp: made_by_def)
  have "open_frame p sim_group_key bs = Inr (sim_author i, sequence, plain)"
    using seal open_frame_seal [OF assms(1)] by simp
  moreover have "decode_compact sz plain = Inr (compact_sign p
          (sim_envelope p (sim_subject p d) (sim_author i) (stage_code stg) (verdict_code (db_verdict_of d i)) sequence)
          (from_seed (sim_seed (signer_of d i))) (content_hash (sim_subject p d)))"
    using enc assms(2) by (auto simp: encode_compact_def decode_compact_def serializer_ok_def split: option.splits)
  moreover have "?claimed < db_fleet d" using assms(5) by auto
  moreover have "ed_verify_strict p (ed_public p (sim_seed ?claimed)) m (ed_sign p (sim_seed (signer_of d i)) m) \<longleftrightarrow> honest d i" for m
  proof -
    have "signer_of d i = ?claimed \<longleftrightarrow> honest d i"
      using assms(5) by (auto simp: honest_def signer_of_def mod_Suc split: if_splits)
    then show ?thesis
      using assms(1,3) signer_less [OF assms(5)] \<open>?claimed < db_fleet d\<close>
      by (auto simp: keys_apart_def primitives_ok_def honest_def)
  qed
  ultimately show ?thesis
    by (auto simp: sim_admit_def Let_def compact_sign_def sim_envelope_def compact_new_def unat_author_of
        compact_verify_def vk_verify_def sk_sign_def verifying_key_def from_seed_def opinion_of_def honest_def)
qed

lemma bt_contains_insert_any: "bt_contains (bt_insert k v m) a \<longleftrightarrow> a = k \<or> bt_contains m a"
  by (simp add: bt_contains_def set_keys_bt_insert [unfolded set_map])

lemma frame_for_made:
  assumes "frame_for p sz (sim_fleet p d) i stg (db_verdict_of d i) (db_is_forger d i) j = (b, j')" and "i < db_fleet d"
  shows "(bt_contains (j_locks j) k \<longrightarrow> bt_contains (j_locks j') k)
    \<and> (b = Some bs \<longrightarrow> made_by p sz d stg i bs
        \<and> (stg = BindingSupport \<longrightarrow> mem_has_voted j' (sim_subject p d) (sim_member i)))"
proof -
  have "(if db_is_forger d i then sim_keys (db_fleet d) ! ((i + 1) mod db_fleet d) else sim_keys (db_fleet d) ! i)
      = from_seed (sim_seed (signer_of d i))"
    using assms(2) by (auto simp: signer_of_def)
  then show ?thesis
    using assms(1)
    by (auto simp: frame_for_def made_by_def mem_reserve_sequence_def mem_commit_vote_def mem_has_voted_def Let_def
        bt_contains_insert_any split: if_splits sum.splits prod.splits)
qed

section \<open>What holds throughout a stage\<close>

definition present :: "Deliberation \<Rightarrow> nat \<Rightarrow> bool" where
  "present d i = (i < db_fleet d \<and> db_silent d \<le> i)"

definition in_reach :: "Deliberation \<Rightarrow> nat \<Rightarrow> bool" where
  "in_reach d i = (i = OBSERVER \<or> topology_reaches (db_topology d) i OBSERVER (db_fleet d))"

definition locked :: "primitives \<Rightarrow> Deliberation \<Rightarrow> Floor \<Rightarrow> nat \<Rightarrow> bool" where
  "locked p d r i = mem_has_voted (fo_journals r ! i) (sim_subject p d) (sim_member i)"

text \<open>A member's frame in the binding stage is made, and exposed, after its lock is taken.\<close>

definition frame_ok :: "primitives \<Rightarrow> SignedCompactEnvelope serializer \<Rightarrow> Deliberation \<Rightarrow> Stage \<Rightarrow> Floor \<Rightarrow> nat \<Rightarrow> bytes \<Rightarrow> bool" where
  "frame_ok p sz d stg r i bs = (made_by p sz d stg i bs \<and> (stg = BindingSupport \<longrightarrow> locked p d r i))"

definition vote_ok :: "primitives \<Rightarrow> Deliberation \<Rightarrow> Floor \<Rightarrow> Opinion \<Rightarrow> bool" where
  "vote_ok p d r v = (\<exists>i. present d i \<and> in_reach d i \<and> honest d i \<and> locked p d r i \<and> v = opinion_of p d BindingSupport i)"

definition lasting_ok :: "primitives \<Rightarrow> Deliberation \<Rightarrow> Floor \<Rightarrow> bool" where
  "lasting_ok p d r = (length (fo_journals r) = db_fleet d \<and> case_inv (fo_observer r)
     \<and> case_subject (fo_observer r) = sim_subject p d \<and> (\<forall>v \<in> set (binding (fo_observer r)). vote_ok p d r v))"

definition stage_ok :: "primitives \<Rightarrow> SignedCompactEnvelope serializer \<Rightarrow> Deliberation \<Rightarrow> Stage \<Rightarrow> Floor \<Rightarrow> bool" where
  "stage_ok p sz d stg r = (lasting_ok p d r
     \<and> length (fo_outbox r) = db_fleet d \<and> (\<forall>i bs. i < db_fleet d \<longrightarrow> fo_outbox r ! i = Some bs \<longrightarrow> frame_ok p sz d stg r i bs)
     \<and> (\<forall>(i, t, bs) \<in> set (fo_on_air r). present d i \<and> in_reach d i \<and> frame_ok p sz d stg r i bs)
     \<and> (\<forall>i \<in> set (fo_retry r). present d i))"

text \<open>Locks are only ever taken.\<close>

definition locks_grow :: "primitives \<Rightarrow> Deliberation \<Rightarrow> Floor \<Rightarrow> Floor \<Rightarrow> bool" where
  "locks_grow p d r r' = (\<forall>i. locked p d r i \<longrightarrow> locked p d r' i)"

lemma locks_grow_same: "fo_journals r' = fo_journals r \<Longrightarrow> locks_grow p d r r'"
  by (simp add: locks_grow_def locked_def)

lemma frame_ok_grow: "frame_ok p sz d stg r i bs \<Longrightarrow> locks_grow p d r r' \<Longrightarrow> frame_ok p sz d stg r' i bs"
  by (auto simp: frame_ok_def locks_grow_def)

lemma vote_ok_grow: "vote_ok p d r v \<Longrightarrow> locks_grow p d r r' \<Longrightarrow> vote_ok p d r' v"
  by (auto simp: vote_ok_def locks_grow_def)

lemma stage_ok_grow:
  assumes "stage_ok p sz d stg r" and "locks_grow p d r r'"
    and "length (fo_journals r') = length (fo_journals r)" and "fo_observer r' = fo_observer r"
    and "length (fo_outbox r') = length (fo_outbox r)"
    and "\<And>i bs. i < db_fleet d \<Longrightarrow> fo_outbox r' ! i = Some bs \<Longrightarrow> fo_outbox r ! i = Some bs \<or> frame_ok p sz d stg r' i bs"
    and "\<And>i t bs. (i, t, bs) \<in> set (fo_on_air r') \<Longrightarrow> (i, t, bs) \<in> set (fo_on_air r)
      \<or> present d i \<and> in_reach d i \<and> frame_ok p sz d stg r' i bs"
    and "\<And>i. i \<in> set (fo_retry r') \<Longrightarrow> i \<in> set (fo_retry r) \<or> present d i"
  shows "stage_ok p sz d stg r'"
  using assms frame_ok_grow [OF _ assms(2)] vote_ok_grow [OF _ assms(2)]
  unfolding stage_ok_def lasting_ok_def by (auto; blast)

lemma frame_kept_ok:
  assumes "stage_ok p sz d stg r" and "present d i"
    and "frame_kept p sz d (sim_fleet p d) stg i r = (b, r')"
  shows "stage_ok p sz d stg r' \<and> locks_grow p d r r' \<and> (\<forall>bs. b = Some bs \<longrightarrow> frame_ok p sz d stg r' i bs)"
proof (cases "fo_outbox r ! i")
  case (Some bs)
  then show ?thesis
    using assms by (auto simp: frame_kept_def stage_ok_def present_def locks_grow_def)
next
  case None
  have i: "i < db_fleet d" using assms(2) by (simp add: present_def)
  have len: "i < length (fo_journals r)" "i < length (fo_outbox r)"
    using assms(1) i by (simp_all add: stage_ok_def lasting_ok_def)
  obtain b' j where ff: "frame_for p sz (sim_fleet p d) i stg (db_verdict_of d i) (db_is_forger d i) (fo_journals r ! i) = (b', j)"
    by fastforce
  note made = frame_for_made [OF ff i]
  have b: "b' = b" and r': "fo_journals r' = (fo_journals r)[i := j]" "fo_observer r' = fo_observer r"
    "fo_on_air r' = fo_on_air r" "fo_retry r' = fo_retry r"
    "fo_outbox r' = (case b of None \<Rightarrow> fo_outbox r | Some bs \<Rightarrow> (fo_outbox r)[i := Some bs])"
    using assms(3) None ff by (auto simp: frame_kept_def split: option.splits)
  have grow: "locks_grow p d r r'"
    using made len by (auto simp: locks_grow_def locked_def r' mem_has_voted_def nth_list_update)
  have fresh: "frame_ok p sz d stg r' i bs" if "b = Some bs" for bs
    using made [of _ bs] that len by (auto simp: frame_ok_def locked_def r' b)
  have "stage_ok p sz d stg r'"
    by (rule stage_ok_grow [OF assms(1) grow])
      (use len fresh in \<open>auto simp: r' nth_list_update split: option.splits if_splits\<close>)
  with grow fresh show ?thesis by blast
qed

lemmas floor_moves = charge_airtime_def lose_def collide_def put_on_air_def

lemma key_up_ok:
  assumes "stage_ok p sz d stg r" and "present d i"
  shows "stage_ok p sz d stg (key_up lm p sz d (sim_fleet p d) stg offsets elapsed window r i)"
proof -
  obtain b r1 where fk: "frame_kept p sz d (sim_fleet p d) stg i r = (b, r1)" by fastforce
  note ok = frame_kept_ok [OF assms fk]
  show ?thesis
  proof (cases b)
    case None
    with ok fk show ?thesis by (simp add: key_up_def)
  next
    case (Some bs)
    let ?r' = "key_up lm p sz d (sim_fleet p d) stg offsets elapsed window r i"
    have same: "fo_journals ?r' = fo_journals r1" "fo_observer ?r' = fo_observer r1" "fo_outbox ?r' = fo_outbox r1"
      by (auto simp: key_up_def fk Some floor_moves Let_def split: prod.splits)
    have aired: "fo_on_air ?r' = fo_on_air r1 \<or> (\<exists>t. in_reach d i \<and> fo_on_air ?r' = fo_on_air r1 @ [(i, t, bs)])"
      and retry: "set (fo_retry ?r') \<subseteq> insert i (set (fo_retry r1))"
      by (auto simp: key_up_def fk Some floor_moves Let_def in_reach_def split: prod.splits)
    have grow: "locks_grow p d r1 ?r'" using same(1) by (rule locks_grow_same)
    have "frame_ok p sz d stg ?r' i bs" using ok Some frame_ok_grow [OF _ grow] by blast
    with aired retry assms(2) same show ?thesis
      by (intro stage_ok_grow [OF ok [THEN conjunct1] grow]) auto
  qed
qed

lemma key_up_all_ok:
  "stage_ok p sz d stg r \<Longrightarrow> list_all (present d) is
    \<Longrightarrow> stage_ok p sz d stg (foldl (key_up lm p sz d (sim_fleet p d) stg offsets elapsed window) r is)"
  by (induction "is" arbitrary: r) (auto intro: key_up_ok)

text \<open>The assumptions under which a member's frame is worth what it says.\<close>

definition trusted :: "primitives \<Rightarrow> SignedCompactEnvelope serializer \<Rightarrow> Deliberation \<Rightarrow> bool" where
  "trusted p sz d = (primitives_ok p \<and> serializer_ok sz \<and> keys_apart p (db_fleet d))"

lemma offer_ok:
  assumes "trusted p sz d" and "stage_ok p sz d stg r" and "present d i" and "in_reach d i" and "frame_ok p sz d stg r i bs"
  shows "stage_ok p sz d stg (offer_to_observer p sz (sim_fleet p d) now bs r)"
proof -
  have i: "i < db_fleet d" using assms(3) by (simp add: present_def)
  note adm = sim_admit_made [of p sz d i stg bs now "fo_observer r"]
  obtain res c where sa: "sim_admit p sz (sim_fleet p d) now bs (fo_observer r) = (res, c)" by fastforce
  have ok: "case_inv (fo_observer r)" "case_subject (fo_observer r) = sim_subject p d"
    using assms(2) by (simp_all add: stage_ok_def lasting_ok_def)
  have "case_inv c \<and> case_subject c = sim_subject p d
    \<and> set (binding c) \<subseteq> set (binding (fo_observer r)) \<union> {v. vote_ok p d r v}"
  proof (cases "honest d i")
    case True
    then have acc: "accept (fo_observer r) (opinion_of p d stg i) now = (res, c)"
      using adm sa assms(1,5) i by (simp add: trusted_def frame_ok_def)
    have "vote_ok p d r (opinion_of p d stg i)" if "stg = BindingSupport"
      using that assms(3-5) True by (auto simp: vote_ok_def frame_ok_def)
    moreover have "stage (opinion_of p d stg i) = stg" by (simp add: opinion_of_def)
    ultimately show ?thesis
      using accept_inv [OF acc ok(1)] ok by (intro conjI) (use acc in \<open>auto elim!: accept_cases\<close>)
  next
    case False
    then show ?thesis using adm sa assms(1,5) i ok by (auto simp: trusted_def frame_ok_def)
  qed
  then show ?thesis
    using assms(2)
    by (auto simp: offer_to_observer_def sa stage_ok_def lasting_ok_def vote_ok_def frame_ok_def locked_def split: sum.splits)
qed

lemma hear_ok:
  assumes "trusted p sz d" and "stage_ok p sz d stg r" and "index < length aired" and "set aired \<subseteq> set (fo_on_air r)"
  shows "stage_ok p sz d stg (hear p sz d (sim_fleet p d) now aired r index)
    \<and> fo_on_air (hear p sz d (sim_fleet p d) now aired r index) = fo_on_air r"
proof -
  obtain i t bs where e: "aired ! index = (i, t, bs)" by (cases "aired ! index")
  have "(i, t, bs) \<in> set (fo_on_air r)" using nth_mem [OF assms(3)] assms(4) e by auto
  then have i: "present d i" "in_reach d i" "frame_ok p sz d stg r i bs"
    using assms(2) by (auto simp: stage_ok_def)
  have drawn: "stage_ok p sz d stg (r\<lparr>fo_rng := s\<rparr>)" "frame_ok p sz d stg (r\<lparr>fo_rng := s\<rparr>) i bs" for s
    using assms(2) i(3) by (auto simp: stage_ok_def lasting_ok_def vote_ok_def frame_ok_def locked_def)
  have lost: "stage_ok p sz d stg (lose i r')" "stage_ok p sz d stg (collide i r')" if "stage_ok p sz d stg r'" for r'
    using that i(1) by (auto simp: stage_ok_def lasting_ok_def vote_ok_def frame_ok_def locked_def floor_moves)
  have kept: "fo_on_air (offer_to_observer p sz f now bs r') = fo_on_air r'" "fo_on_air (lose i r') = fo_on_air r'"
    "fo_on_air (collide i r') = fo_on_air r'" for r' f
    by (auto simp: offer_to_observer_def floor_moves split: sum.splits prod.splits)
  show ?thesis
    using offer_ok [OF assms(1,2) i] offer_ok [OF assms(1) drawn(1) i(1,2) drawn(2)] lost [OF assms(2)] lost(1) [OF drawn(1)]
    by (auto simp: hear_def e Let_def kept split: Reception.splits prod.splits)
qed

lemma hear_all_ok:
  assumes "trusted p sz d" and "\<forall>k \<in> set ks. k < length aired"
  shows "stage_ok p sz d stg r \<Longrightarrow> set aired \<subseteq> set (fo_on_air r)
    \<Longrightarrow> stage_ok p sz d stg (foldl (hear p sz d (sim_fleet p d) now aired) r ks)"
  using assms(2) hear_ok [OF assms(1)] by (induction ks arbitrary: r) auto

text \<open>A round clears what the one before left on the air and to be retried.\<close>

definition cleared :: "Floor \<Rightarrow> Floor" where
  "cleared r = r\<lparr>fo_on_air := [], fo_retry := []\<rparr>"

lemma stage_ok_cleared: "stage_ok p sz d stg r \<Longrightarrow> stage_ok p sz d stg (cleared r)"
  by (auto simp: cleared_def stage_ok_def lasting_ok_def vote_ok_def frame_ok_def locked_def)

lemma lasting_ok_cleared [simp]: "lasting_ok p d (cleared r) = lasting_ok p d r"
  by (simp add: cleared_def lasting_ok_def vote_ok_def locked_def)

lemma stage_round_ok:
  assumes "trusted p sz d" and "stage_ok p sz d stg (cleared r)" and "list_all (present d) pending"
    and "stage_round lm p sz d (sim_fleet p d) stg now offsets elapsed window pending r = (elapsed', r')"
  shows "stage_ok p sz d stg r' \<and> list_all (present d) (fo_retry r')"
proof -
  let ?r = "foldl (key_up lm p sz d (sim_fleet p d) stg offsets elapsed window) (cleared r) pending"
  have "stage_ok p sz d stg ?r" by (rule key_up_all_ok [OF assms(2,3)])
  moreover have "r' = foldl (hear p sz d (sim_fleet p d) now (fo_on_air ?r)) ?r [0..<length (fo_on_air ?r)]"
    using assms(4) by (simp add: stage_round_def Let_def cleared_def)
  ultimately have "stage_ok p sz d stg r'" using hear_all_ok [OF assms(1)] by simp
  then show ?thesis by (auto simp: stage_ok_def list_all_iff)
qed

lemma stage_rounds_ok:
  assumes "trusted p sz d"
  shows "stage_ok p sz d stg (cleared r) \<Longrightarrow> list_all (present d) pending
    \<Longrightarrow> stage_rounds lm p sz d (sim_fleet p d) stg now offsets attempts elapsed pending r = Some (elapsed', r')
    \<Longrightarrow> lasting_ok p d r'"
proof (induction attempts arbitrary: elapsed pending r)
  case Nil
  then show ?case using lasting_ok_cleared by (simp add: stage_ok_def)
next
  case (Cons a attempts)
  show ?case
  proof (cases "pending = []")
    case True
    then show ?thesis using Cons.prems lasting_ok_cleared by (simp add: stage_ok_def)
  next
    case False
    with Cons.prems(3) obtain window e1 r1 where
      round: "stage_round lm p sz d (sim_fleet p d) stg now offsets elapsed window pending r = (e1, r1)"
      and rest: "stage_rounds lm p sz d (sim_fleet p d) stg now offsets attempts e1 (fo_retry r1) r1 = Some (elapsed', r')"
      by (auto split: option.splits prod.splits)
    from stage_round_ok [OF assms Cons.prems(1,2) round] show ?thesis
      using Cons.IH [OF stage_ok_cleared _ rest] by blast
  qed
qed

lemma run_stage_ok:
  assumes "trusted p sz d" and "lasting_ok p d r" and "run_stage lm p sz d (sim_fleet p d) now stg r = Some r'"
  shows "lasting_ok p d r'"
proof -
  let ?r = "r\<lparr>fo_report := stage_report_zero, fo_outbox := replicate (db_fleet d) None\<rparr>"
  obtain e r1 where rounds: "stage_rounds lm p sz d (sim_fleet p d) stg now (clock_offsets_ms d) [0..<MAX_RETRIES] 0
      [db_silent d..<db_fleet d] ?r = Some (e, r1)" and r': "r' = r1\<lparr>fo_report := (fo_report r1)\<lparr>sg_elapsed_ms := e\<rparr>\<rparr>"
    using assms(3) by (auto simp: run_stage_def)
  have "stage_ok p sz d stg (cleared ?r)"
    using assms(2) by (auto simp: stage_ok_def cleared_def lasting_ok_def vote_ok_def locked_def)
  moreover have "list_all (present d) [db_silent d..<db_fleet d]" by (auto simp: list_all_iff present_def)
  ultimately have "lasting_ok p d r1" using rounds by (rule stage_rounds_ok [OF assms(1)])
  then show ?thesis by (simp add: r' lasting_ok_def vote_ok_def locked_def)
qed

lemma freeze_ok: "lasting_ok p d r \<Longrightarrow> lasting_ok p d (freeze r)"
  using close_inv [of "fo_observer r" "plus_secs STARTED_AT CLOSE_AT"]
  by (auto simp: freeze_def lasting_ok_def vote_ok_def locked_def close_consultation_def split: if_splits)

lemma floor_start_ok: "lasting_ok p d (floor_start lm p d)"
  by (auto simp: floor_start_def lasting_ok_def first_case_def case_open_def case_inv_open open_until_def
      split: option.splits) (auto simp: case_inv_def)

section \<open>An endorsement\<close>

text \<open>The members whose binding support counts.\<close>

definition supporting :: "primitives \<Rightarrow> Deliberation \<Rightarrow> Floor \<Rightarrow> nat set" where
  "supporting p d r = {i. present d i \<and> in_reach d i \<and> honest d i \<and> db_verdict_of d i = Support \<and> locked p d r i}"

lemma finite_supporting [simp]: "finite (supporting p d r)"
  by (rule finite_subset [of _ "{..<db_fleet d}"]) (auto simp: supporting_def present_def)

lemma supporters_are:
  assumes "lasting_ok p d r"
  shows "\<exists>S. S \<subseteq> supporting p d r \<and> set (binding_supporters (fo_observer r)) = sim_member ` S
    \<and> length (binding_supporters (fo_observer r)) = card S"
proof -
  let ?bs = "binding_supporters (fo_observer r)" and ?S = "{i. sim_member i \<in> set (binding_supporters (fo_observer r))}"
  have sub: "\<exists>i \<in> supporting p d r. m = sim_member i" if "m \<in> set ?bs" for m
    using that assms by (fastforce simp: binding_supporters_def lasting_ok_def vote_ok_def opinion_of_def supporting_def)
  then have set: "set ?bs = sim_member ` ?S" and S: "?S \<subseteq> supporting p d r" by force+
  have "distinct ?bs" using assms by (auto simp: lasting_ok_def case_inv_def binding_supporters_def distinct_map_filter)
  then have "length ?bs = card (sim_member ` ?S)" using set by (simp add: distinct_card [symmetric])
  also have "\<dots> = card ?S" by (simp add: card_image inj_on_def)
  finally show ?thesis using set S by blast
qed

lemma late_enough: "331 \<le> unat (CLOSE_AT + ms div 1000)" for ms :: u64
proof -
  have "unat (ms div 1000) = unat ms div 1000" by (simp add: unat_div_distrib)
  moreover have "unat CLOSE_AT = 331"
    by (simp add: CLOSE_AT_def CONSULTATION_CUTOFF_SECONDS_def MAX_CLOCK_SKEW_SECONDS_def)
  ultimately show ?thesis using unat_lt_u64 [of ms] by (subst unat_add_lem [THEN iffD1]) simp_all
qed

text \<open>A stage panics only where a frame cannot be made to be measured.\<close>

lemma run_stage_returns:
  assumes "frame_size p sz f \<noteq> None"
  shows "\<exists>r'. run_stage lm p sz d f now stg r = Some r'"
proof -
  have window: "\<exists>w. window_for p sz d f a = Some w" for a using assms by (auto simp: window_for_def split: Access.splits)
  have "\<exists>s. stage_rounds lm p sz d f stg now offsets attempts elapsed pending r' = Some s" for offsets attempts elapsed pending r'
  proof (induction attempts arbitrary: elapsed pending r')
    case Nil
    then show ?case by simp
  next
    case (Cons a attempts)
    obtain w where "window_for p sz d f a = Some w" using window by blast
    then show ?case using Cons.IH by (auto split: prod.split)
  qed
  then have "\<exists>e r'. stage_rounds lm p sz d f stg now offsets attempts elapsed pending r0 = Some (e, r')" for offsets attempts elapsed pending r0
    by fastforce
  then show ?thesis by (auto simp: run_stage_def)
qed

text \<open>What every deliberation comes to.\<close>

lemma deliberation_comes_to:
  assumes "trusted p sz d" and "1 \<le> db_fleet d" and "db_fleet d < 2 ^ 32" and "frame_size p sz (sim_fleet p d) \<noteq> None"
  obtains rep r S where "deliberate lm p sz d = Some (rep, r)" and "S \<subseteq> supporting p d r"
    and "de_binding_supporters rep = card S" and "331 \<le> unat (de_elapsed_s rep)"
    and "de_endorsed rep \<Longrightarrow> de_min_signers rep \<le> card S \<and> db_fleet d < 2 * card S"
    and "S = {..<db_fleet d} \<Longrightarrow> de_endorsed rep"
    and "\<exists>r1 r2. deliberation_floors lm p sz d = Some (r1, r2, r) \<and> de_stages rep = map fo_report [r1, r2, r]"
    and "de_refusals rep = fo_refusals r"
    and "set (binding_supporters (fo_observer r)) = sim_member ` S"
proof -
  note runs = run_stage_returns [OF assms(4)]
  obtain r1 where s1: "run_stage lm p sz d (sim_fleet p d) (plus_secs STARTED_AT 1) Independent (floor_start lm p d) = Some r1"
    using runs by blast
  obtain r2 where s2: "run_stage lm p sz d (sim_fleet p d) (plus_secs STARTED_AT 1) Consultation r1 = Some r2"
    using runs by blast
  obtain r where s3: "run_stage lm p sz d (sim_fleet p d) (plus_secs STARTED_AT CLOSE_AT) BindingSupport (freeze r2) = Some r"
    using runs by blast
  have floors: "deliberation_floors lm p sz d = Some (r1, r2, r)"
    by (simp add: deliberation_floors_def Let_def s1 s2 s3)
  have ok: "lasting_ok p d r"
    by (intro run_stage_ok [OF assms(1) _ s3] freeze_ok run_stage_ok [OF assms(1) _ s2] run_stage_ok [OF assms(1) _ s1] floor_start_ok)
  obtain S where "S \<subseteq> supporting p d r \<and> set (binding_supporters (fo_observer r)) = sim_member ` S
    \<and> length (binding_supporters (fo_observer r)) = card S" using supporters_are [OF ok] ..
  note S = this [THEN conjunct1] this [THEN conjunct2, THEN conjunct1] this [THEN conjunct2, THEN conjunct2]
  have SU: "S \<subseteq> {..<db_fleet d}" using S(1) by (auto simp: supporting_def present_def)
  obtain pol where pol: "sim_policy (db_fleet d) = Inr pol" "db_fleet d < 2 * min_signers pol"
    and ev: "\<And>ss. set ss \<subseteq> sim_member ` {..<db_fleet d} \<Longrightarrow> \<exists>r. evaluate pol ss = Inr r
        \<and> (approved r \<longrightarrow> min_signers pol \<le> card (set ss)) \<and> (set ss = sim_member ` {..<db_fleet d} \<longrightarrow> approved r)"
    by (rule sim_policy_ok [OF assms(2,3)]) (rule that)
  obtain res where res: "evaluate pol (binding_supporters (fo_observer r)) = Inr res"
    "approved res \<longrightarrow> min_signers pol \<le> card S" "S = {..<db_fleet d} \<longrightarrow> approved res"
  proof -
    have card: "card (set (binding_supporters (fo_observer r))) = card S"
      unfolding S(2) by (rule card_image) (simp add: inj_on_def)
    have "set (binding_supporters (fo_observer r)) \<subseteq> sim_member ` {..<db_fleet d}"
      unfolding S(2) using SU by (rule image_mono)
    from ev [OF this] obtain res where res: "evaluate pol (binding_supporters (fo_observer r)) = Inr res"
      "approved res \<longrightarrow> min_signers pol \<le> card S"
      "set (binding_supporters (fo_observer r)) = sim_member ` {..<db_fleet d} \<longrightarrow> approved res"
      unfolding card by blast
    show thesis by (rule that [OF res(1,2)]) (use res(3) S(2) in simp)
  qed
  obtain size where size: "frame_size p sz (sim_fleet p d) = Some size" using assms(4) by blast
  define rep where "rep = the (deliberation_report p sz d r1 r2 r)"
  have rep: "deliberation_report p sz d r1 r2 r = Some rep" "de_endorsed rep = approved res"
    "de_binding_supporters rep = card S" "de_min_signers rep = min_signers pol" "de_stages rep = map fo_report [r1, r2, r]"
    "de_elapsed_s rep = CLOSE_AT + sg_elapsed_ms (fo_report r) div 1000" "de_refusals rep = fo_refusals r"
    by (simp_all add: rep_def deliberation_report_def Let_def pol(1) res(1) size S(3))
  have "deliberate lm p sz d = Some (rep, r)" by (simp add: deliberate_def floors rep(1))
  then show thesis
    using that [of rep r S] S floors rep res(2,3) pol(2) late_enough by (simp add: order_less_le_trans)
qed

lemma sample_trusted: "db_fleet d \<le> 2 ^ 64 \<Longrightarrow> trusted sample_primitives sample_fixed d"
  by (simp add: trusted_def sample_primitives_ok sample_fixed_ok sample_keys_apart)

lemma sample_frame_size: "frame_size sample_primitives sample_fixed (sim_fleet sample_primitives d) = Some 140"
proof -
  obtain plain where "encode_compact sample_fixed (compact_sign sample_primitives
      (sim_envelope sample_primitives (sim_subject sample_primitives d) 0 (stage_code BindingSupport) (verdict_code Support) (ucast (- 1 :: u32)))
      (sim_keys (db_fleet d) ! 0) (content_hash (sim_subject sample_primitives d))) = Inr plain" "length plain = 114"
    using sample_encoded unfolding sim_envelope_def by blast
  then show ?thesis
    using sample_sealed [of "- 1" "ucast (- 1 :: u32)" plain] by (auto simp: frame_size_def Let_def)
qed

text \<open>
  (C28) Every deliberation returns, and what it reports as binding support is that of distinct
  members, each in the fleet, not silent, in reach of the observer, signing with its own
  key, supporting the claim, and locked in its own journal. An endorsement needs more than
  half of the fleet among them and as many as the policy's threshold, and comes no earlier
  than 331 seconds after the claim. All this whatever the channel does, however members
  take turns, and whatever the rest of the fleet is.
\<close>

theorem endorsement_is_genuine:
  assumes "trusted p sz d" and "1 \<le> db_fleet d" and "db_fleet d < 2 ^ 32" and "frame_size p sz (sim_fleet p d) \<noteq> None"
  shows "\<exists>rep r S. deliberate lm p sz d = Some (rep, r) \<and> de_binding_supporters rep = card S
    \<and> S \<subseteq> {i. i < db_fleet d \<and> db_silent d \<le> i \<and> in_reach d i \<and> signer_of d i = i \<and> db_verdict_of d i = Support
         \<and> mem_has_voted (fo_journals r ! i) (ft_subject (sim_fleet p d)) (sim_member i)}
    \<and> 331 \<le> unat (de_elapsed_s rep)
    \<and> (de_endorsed rep \<longrightarrow> de_min_signers rep \<le> card S \<and> db_fleet d < 2 * card S)"
proof (rule deliberation_comes_to [OF assms, of lm])
  fix rep r S
  assume run: "deliberate lm p sz d = Some (rep, r)" and S: "S \<subseteq> supporting p d r"
    and rest: "de_binding_supporters rep = card S" "331 \<le> unat (de_elapsed_s rep)"
      "de_endorsed rep \<Longrightarrow> de_min_signers rep \<le> card S \<and> db_fleet d < 2 * card S"
  have "S \<subseteq> {i. i < db_fleet d \<and> db_silent d \<le> i \<and> in_reach d i \<and> signer_of d i = i \<and> db_verdict_of d i = Support
         \<and> mem_has_voted (fo_journals r ! i) (ft_subject (sim_fleet p d)) (sim_member i)}"
    using S by (auto simp: supporting_def present_def honest_def locked_def)
  with run rest show ?thesis by blast
qed

definition sample_five :: Deliberation where
  "sample_five = db_with_forgers 1 (db_with_silent 1 (deliberation_new 5))"

theorem endorsement_is_genuine_witness:
  "\<forall>lm. \<exists>rep r S. deliberate lm sample_primitives sample_fixed sample_five = Some (rep, r)
     \<and> de_binding_supporters rep = card S \<and> S \<subseteq> {2, 3, 4 :: nat} \<and> 331 \<le> unat (de_elapsed_s rep)"
proof
  fix lm
  let ?d = sample_five
  have f: "db_fleet ?d = 5" "db_silent ?d = 1" "db_forgers ?d = 1" "db_disputers ?d = 0"
    by (simp_all add: sample_five_def db_with_forgers_def db_with_silent_def deliberation_new_def)
  have counted: "i \<in> {2, 3, 4}" if "i < db_fleet ?d" "db_silent ?d \<le> i" "signer_of ?d i = i" for i
  proof -
    have "i = 1 \<or> i = 2 \<or> i = 3 \<or> i = 4" using that(1,2) f by auto
    moreover have "signer_of ?d 1 = 2" by (simp add: signer_of_def db_is_forger_def Let_def f)
    ultimately show ?thesis using that(3) by auto
  qed
  have "trusted sample_primitives sample_fixed ?d" "frame_size sample_primitives sample_fixed (sim_fleet sample_primitives ?d) \<noteq> None"
    by (simp_all add: sample_trusted sample_frame_size f)
  then obtain rep r S where run: "deliberate lm sample_primitives sample_fixed ?d = Some (rep, r)"
    "de_binding_supporters rep = card S" "331 \<le> unat (de_elapsed_s rep)"
    and S: "S \<subseteq> {i. i < db_fleet ?d \<and> db_silent ?d \<le> i \<and> in_reach ?d i \<and> signer_of ?d i = i \<and> db_verdict_of ?d i = Support
         \<and> mem_has_voted (fo_journals r ! i) (ft_subject (sim_fleet sample_primitives ?d)) (sim_member i)}"
    using endorsement_is_genuine [of sample_primitives sample_fixed ?d lm] f by auto
  have "S \<subseteq> {2, 3, 4}" using S counted by blast
  with run show "\<exists>rep r S. deliberate lm sample_primitives sample_fixed ?d = Some (rep, r)
     \<and> de_binding_supporters rep = card S \<and> S \<subseteq> {2, 3, 4 :: nat} \<and> 331 \<le> unat (de_elapsed_s rep)" by blast
qed

text \<open>
  A fleet split in halves never endorses: whatever the half around the observer does, its
  members are not more than half of the fleet, and nobody else is heard.
\<close>

theorem partition_never_endorses:
  assumes "trusted p sz d" and "2 \<le> db_fleet d" and "db_fleet d < 2 ^ 32" and "frame_size p sz (sim_fleet p d) \<noteq> None"
    and "db_topology d = Partitioned"
  shows "\<exists>rep r. deliberate lm p sz d = Some (rep, r) \<and> \<not> de_endorsed rep"
proof -
  have n: "1 \<le> db_fleet d" using assms(2) by simp
  show ?thesis
  proof (rule deliberation_comes_to [OF assms(1) n assms(3,4), of lm])
    fix rep r S
    assume run: "deliberate lm p sz d = Some (rep, r)" and S: "S \<subseteq> supporting p d r"
      and more_half: "de_endorsed rep \<Longrightarrow> de_min_signers rep \<le> card S \<and> db_fleet d < 2 * card S"
    have "supporting p d r \<subseteq> {..<db_fleet d div 2}"
      using assms(2,5) by (auto simp: supporting_def in_reach_def topology_reaches_def OBSERVER_def present_def)
    with S have "card S \<le> db_fleet d div 2" by (metis card_lessThan card_mono finite_lessThan order_trans)
    with run more_half show ?thesis by fastforce
  qed
qed

theorem partition_never_endorses_witness:
  "\<forall>lm. \<exists>rep r. deliberate lm sample_primitives sample_fixed (db_with_topology Partitioned (deliberation_new 9)) = Some (rep, r)
     \<and> \<not> de_endorsed rep"
proof
  fix lm
  let ?d = "db_with_topology Partitioned (deliberation_new 9)"
  have "db_fleet ?d = 9" "db_topology ?d = Partitioned" by (simp_all add: db_with_topology_def deliberation_new_def)
  then show "\<exists>rep r. deliberate lm sample_primitives sample_fixed ?d = Some (rep, r) \<and> \<not> de_endorsed rep"
    using partition_never_endorses [of sample_primitives sample_fixed ?d lm] sample_trusted [of ?d] sample_frame_size [of ?d] by simp
qed

section \<open>Clock errors\<close>

lemma length_draw_offsets [simp]: "length (draw_offsets n width s) = n"
  by (induction n arbitrary: s) (simp_all split: prod.split)

lemma draw_offsets_range:
  assumes "width < - 1"
  shows "o' \<in> set (draw_offsets n width s) \<Longrightarrow> - (uint width div 2) \<le> o' \<and> o' \<le> uint width - uint width div 2"
proof (induction n arbitrary: s)
  case 0
  then show ?case by simp
next
  case (Suc n)
  have "width + 1 \<noteq> 0" using assms by (metis add_eq_0_iff2 order_less_irrefl)
  then have "fst (rng_below (width + 1) s) < width + 1" by (rule rng_below_bound)
  moreover have "unat (width + 1) = unat width + 1"
    using assms by (subst unat_add_lem [THEN iffD1]) (simp_all add: word_less_nat_alt unat_max_word)
  ultimately have "fst (rng_below (width + 1) s) \<le> width" by (simp add: word_le_nat_alt word_less_nat_alt)
  then have le: "uint (fst (rng_below (width + 1) s)) \<le> uint width" by (simp add: word_le_def)
  obtain draw s' where "rng_below (width + 1) s = (draw, s')" by fastforce
  then show ?case using Suc le by auto
qed

text \<open>
  The members' clock errors stay within the configured budget of each other, whatever is
  drawn, and the first and the last member differ by all of it.
\<close>

theorem clock_errors_use_budget:
  assumes "2 \<le> db_fleet d" and "db_clock_skew_s d \<noteq> 0" and "unat (db_clock_skew_s d) * 1000 < 2 ^ 63"
    and "i < db_fleet d" and "j < db_fleet d"
  shows "clock_offsets_ms d ! i - clock_offsets_ms d ! j \<le> 1000 * uint (db_clock_skew_s d)
    \<and> clock_offsets_ms d ! (db_fleet d - 1) - clock_offsets_ms d ! 0 = 1000 * uint (db_clock_skew_s d)
    \<and> length (clock_offsets_ms d) = db_fleet d"
proof -
  let ?w = "db_clock_skew_s d * 1000" and ?ds = "draw_offsets (db_fleet d) (db_clock_skew_s d * 1000) (rng_new (db_seed d XOR 0xC10CC10CC10CC10C))"
  have n: "unat ?w = unat (db_clock_skew_s d) * 1000"
    using assms(3) by (subst unat_mult_lem [THEN iffD1]) simp_all
  then have "int (unat ?w) = int (unat (db_clock_skew_s d)) * 1000" by (simp only: of_nat_mult of_nat_numeral)
  then have u: "uint ?w = 1000 * uint (db_clock_skew_s d)" by simp
  have half: "uint ?w div 2 = 500 * uint (db_clock_skew_s d)" by (simp add: u)
  have width: "?w < - 1"
    using n assms(3) by (simp add: word_less_nat_alt unat_max_word)
  have offs: "clock_offsets_ms d = ?ds[0 := - (uint ?w div 2), db_fleet d - 1 := uint ?w div 2]"
    using assms(1-3) n by (simp add: clock_offsets_ms_def skew_span_def Let_def)
  have range: "\<bar>clock_offsets_ms d ! k\<bar> \<le> 500 * uint (db_clock_skew_s d)" if "k < db_fleet d" for k
  proof -
    have "?ds ! k \<in> set ?ds" using that by simp
    from draw_offsets_range [OF width this] have "\<bar>?ds ! k\<bar> \<le> 500 * uint (db_clock_skew_s d)" by (simp add: half u abs_le_iff)
    then show ?thesis using that by (simp add: offs half nth_list_update)
  qed
  have "clock_offsets_ms d ! (db_fleet d - 1) - clock_offsets_ms d ! 0 = 1000 * uint (db_clock_skew_s d)"
    using assms(1) by (simp add: offs half)
  then show ?thesis using range [OF assms(4)] range [OF assms(5)] by (simp add: offs abs_le_iff)
qed

theorem clock_errors_use_budget_witness:
  "clock_offsets_ms (db_with_clock_skew_s 30 (deliberation_new 4)) ! 3 - clock_offsets_ms (db_with_clock_skew_s 30 (deliberation_new 4)) ! 0 = 30000"
  using clock_errors_use_budget [of "db_with_clock_skew_s 30 (deliberation_new 4)" 0 0]
  by (simp add: db_with_clock_skew_s_def deliberation_new_def)

end
