(* ===== verification/Lcq_Deliberation_Live.thy ===== *)
theory Lcq_Deliberation_Live
  imports Lcq_Deliberation_Correct
begin

text \<open>
  That the protocol can succeed: a fleet whose members take the slots of their indices,
  over a channel that loses nothing, endorses in one round of each stage, without a
  collision, within the airtime the law allows.
\<close>

section \<open>Fair weather\<close>

definition fair_weather :: "Deliberation \<Rightarrow> u64 \<Rightarrow> bool" where
  "fair_weather d guard_ms =
     (1 \<le> db_fleet d \<and> db_fleet d \<le> 2 ^ 16 \<and> db_loss d \<le> 0 \<and> db_topology d = FullyConnected \<and> db_silent d = 0
      \<and> db_spacing_m d = None \<and> db_access d = Slotted guard_ms \<and> db_anchor d = Trigger
      \<and> db_disputers d = 0 \<and> db_forgers d = 0 \<and> (\<forall>v. db_validity_s d = Some v \<longrightarrow> 361 < unat v)
      \<and> db_fleet d * (2296 + unat guard_ms) < 2 ^ 64)"

text \<open>The frame of a member, under a sequence number.\<close>

definition frame_of ::
  "primitives \<Rightarrow> SignedCompactEnvelope serializer \<Rightarrow> Deliberation \<Rightarrow> Stage \<Rightarrow> u64 \<Rightarrow> nat \<Rightarrow> bytes option" where
  "frame_of p sz d stg sequence i =
     (case encode_compact sz (compact_sign p
          (sim_envelope p (sim_subject p d) (sim_author i) (stage_code stg) (verdict_code (db_verdict_of d i)) sequence)
          (from_seed (sim_seed (signer_of d i))) (content_hash (sim_subject p d))) of
        Inl e \<Rightarrow> None
      | Inr plain \<Rightarrow> (case seal_frame p sim_group_key (sim_author i) sequence plain of Inl e \<Rightarrow> None | Inr bs \<Rightarrow> Some bs))"

definition stage_sequence :: "Stage \<Rightarrow> u64" where
  "stage_sequence stg = (case stg of Independent \<Rightarrow> 0 | Consultation \<Rightarrow> 1 | BindingSupport \<Rightarrow> 2)"

abbreviation "frame_in p sz d stg i \<equiv> frame_of p sz d stg (stage_sequence stg) i"

text \<open>
  What is asked of the serializer: every frame of the run can be made, and the frame of a
  member with a higher index is no shorter, as with a serializer that writes small
  numbers in fewer bytes.
\<close>

definition frames_fit :: "primitives \<Rightarrow> SignedCompactEnvelope serializer \<Rightarrow> Deliberation \<Rightarrow> bool" where
  "frames_fit p sz d =
     (frame_size p sz (sim_fleet p d) \<noteq> None
      \<and> (\<forall>stg. \<forall>i < db_fleet d. frame_in p sz d stg i \<noteq> None)
      \<and> (\<forall>stg. \<forall>j < db_fleet d. \<forall>i \<le> j. length (the (frame_in p sz d stg i)) \<le> length (the (frame_in p sz d stg j))))"

definition air_of :: "primitives \<Rightarrow> SignedCompactEnvelope serializer \<Rightarrow> Deliberation \<Rightarrow> Stage \<Rightarrow> nat \<Rightarrow> u64" where
  "air_of p sz d stg i = airtime_ms (length (the (frame_in p sz d stg i)))"

definition slot_of :: "primitives \<Rightarrow> SignedCompactEnvelope serializer \<Rightarrow> Deliberation \<Rightarrow> Stage \<Rightarrow> u64 \<Rightarrow> nat \<Rightarrow> u64" where
  "slot_of p sz d stg guard_ms i = of_nat i * (air_of p sz d stg i + guard_ms)"

definition sent_by ::
  "primitives \<Rightarrow> SignedCompactEnvelope serializer \<Rightarrow> Deliberation \<Rightarrow> Stage \<Rightarrow> u64 \<Rightarrow> nat \<Rightarrow> nat \<times> Transmission \<times> bytes" where
  "sent_by p sz d stg guard_ms i =
     (i, \<lparr>tx_start_ms = slot_of p sz d stg guard_ms i, tx_airtime_ms = air_of p sz d stg i,
          tx_rssi_dbm = (if i = OBSERVER then Loudest else NOMINAL_LEVEL)\<rparr>, the (frame_in p sz d stg i))"

lemma fair_simps:
  assumes "fair_weather d guard_ms"
  shows "db_verdict_of d i = Support" "db_is_forger d i = False" "signer_of d i = i" "i < db_fleet d \<Longrightarrow> honest d i"
  using assms by (auto simp: fair_weather_def db_verdict_of_def db_is_forger_def signer_of_def honest_def)

lemma air_of_le: "unat (air_of p sz d stg i) \<le> 2296"
  using airtime_longest [of "length (the (frame_in p sz d stg i))"] by (simp add: air_of_def word_le_nat_alt)

lemma air_of_mono:
  assumes "frames_fit p sz d" and "i \<le> j" and "j < db_fleet d"
  shows "unat (air_of p sz d stg i) \<le> unat (air_of p sz d stg j)"
  using assms airtime_mono by (simp add: frames_fit_def air_of_def airtime_ms_def flip: word_le_nat_alt)

lemma slot_of_nat:
  assumes "fair_weather d g" and "i < db_fleet d"
  shows "unat (slot_of p sz d stg g i) = i * (unat (air_of p sz d stg i) + unat g)"
    and "unat (slot_of p sz d stg g i) + unat (air_of p sz d stg i) < 2 ^ 64"
proof -
  let ?a = "unat (air_of p sz d stg i)"
  have le: "(i + 1) * (?a + unat g) \<le> db_fleet d * (2296 + unat g)"
    using assms(2) air_of_le [of p sz d stg i] by (intro mult_le_mono) simp_all
  then have b: "(i + 1) * (?a + unat g) < 2 ^ 64" using assms(1) by (simp add: fair_weather_def)
  have "?a + unat g < 2 ^ 64" using b by (simp add: algebra_simps)
  then have sum: "unat (air_of p sz d stg i + g) = ?a + unat g" by (subst unat_add_lem [THEN iffD1]) simp_all
  have i: "unat (of_nat i :: u64) = i" using assms by (simp add: fair_weather_def unat_of_nat)
  have "i * (?a + unat g) < 2 ^ 64" using b by (simp add: algebra_simps)
  then show "unat (slot_of p sz d stg g i) = i * (?a + unat g)"
    unfolding slot_of_def by (subst unat_mult_lem [THEN iffD1]) (simp_all add: sum i)
  then show "unat (slot_of p sz d stg g i) + ?a < 2 ^ 64" using b by (simp add: algebra_simps)
qed

text \<open>No two slots overlap.\<close>

lemma slots_apart:
  assumes "fair_weather d g" and "frames_fit p sz d" and "i < j" and "j < db_fleet d"
  shows "unat (slot_of p sz d stg g i) + unat (air_of p sz d stg i) \<le> unat (slot_of p sz d stg g j)"
proof -
  let ?a = "\<lambda>i. unat (air_of p sz d stg i)"
  have "(i + 1) * (?a i + unat g) \<le> j * (?a j + unat g)"
    using assms(3) air_of_mono [OF assms(2) _ assms(4), of i stg] by (intro mult_le_mono) simp_all
  then show ?thesis using slot_of_nat(1) [OF assms(1)] assms(3,4) by (simp add: algebra_simps)
qed

lemma sent_apart:
  assumes "fair_weather d g" and "frames_fit p sz d" and "i \<noteq> j" and "i < db_fleet d" and "j < db_fleet d"
  shows "\<not> tx_overlaps (fst (snd (sent_by p sz d stg g i))) (fst (snd (sent_by p sz d stg g j)))"
proof -
  have e: "unat (tx_end_ms (fst (snd (sent_by p sz d stg g k)))) = unat (slot_of p sz d stg g k) + unat (air_of p sz d stg k)"
    if "k < db_fleet d" for k
    using slot_of_nat(2) [OF assms(1) that, of p sz stg] by (simp add: tx_end_ms_def sent_by_def sat_simps)
  show ?thesis
    using slots_apart [OF assms(1,2), of i j stg] slots_apart [OF assms(1,2), of j i stg] assms(3-5) e [OF assms(4)] e [OF assms(5)]
    by (cases i j rule: linorder_cases) (simp_all add: tx_overlaps_def word_less_nat_alt sent_by_def)
qed

section \<open>Keying up\<close>

lemma next_sequence:
  "sat_add (stage_sequence stg) 1 = stage_sequence stg + 1" "unat (stage_sequence stg) \<le> 2"
  by (cases stg; simp add: stage_sequence_def sat_add_code Let_def)+

lemma frame_for_fair:
  assumes "fair_weather d g" and "frames_fit p sz d" and "i < db_fleet d" and "j_next_sequence j = stage_sequence stg"
    and "\<not> mem_has_voted j (sim_subject p d) (sim_member i)"
  shows "\<exists>j'. frame_for p sz (sim_fleet p d) i stg (db_verdict_of d i) (db_is_forger d i) j = (Some (the (frame_in p sz d stg i)), j')
    \<and> j_next_sequence j' = stage_sequence stg + 1 \<and> (mem_has_voted j' (sim_subject p d) (sim_member i) \<longleftrightarrow> stg = BindingSupport)"
proof -
  have "frame_in p sz d stg i \<noteq> None" using assms(2,3) by (simp add: frames_fit_def)
  then obtain plain bs where enc: "encode_compact sz (compact_sign p
          (sim_envelope p (sim_subject p d) (sim_author i) (stage_code stg) (verdict_code Support) (stage_sequence stg))
          (from_seed (sim_seed i)) (content_hash (sim_subject p d))) = Inr plain"
    and seal: "seal_frame p sim_group_key (sim_author i) (stage_sequence stg) plain = Inr bs"
    and f: "frame_in p sz d stg i = Some bs"
    using fair_simps [OF assms(1)] by (auto simp: frame_of_def split: sum.splits)
  show ?thesis
    using assms(3-5) enc seal f fair_simps [OF assms(1)]
    by (auto simp: frame_for_def mem_reserve_sequence_def Let_def mem_commit_vote_def mem_has_voted_def bt_contains_insert_any
        next_sequence frame_new_def)
qed

definition keyed_up ::
  "primitives \<Rightarrow> SignedCompactEnvelope serializer \<Rightarrow> Deliberation \<Rightarrow> Stage \<Rightarrow> u64 \<Rightarrow> Case \<Rightarrow> nat \<Rightarrow> Floor \<Rightarrow> bool" where
  "keyed_up p sz d stg g c k r =
     (length (fo_journals r) = db_fleet d \<and> length (fo_outbox r) = db_fleet d \<and> length (fo_used r) = db_fleet d
      \<and> fo_observer r = c \<and> fo_on_air r = map (sent_by p sz d stg g) [0..<k] \<and> fo_retry r = [] \<and> fo_refusals r = refusals_zero
      \<and> (\<forall>i < db_fleet d. j_next_sequence (fo_journals r ! i) = stage_sequence stg + (if i < k then 1 else 0)
           \<and> (locked p d r i \<longleftrightarrow> stg = BindingSupport \<and> i < k) \<and> (k \<le> i \<longrightarrow> fo_outbox r ! i = None)
           \<and> unat (fo_used r ! i) \<le> 2296 * unat (stage_sequence stg) + (if i < k then 2296 else 0))
      \<and> sg_frames_sent (fo_report r) = k \<and> sg_collided (fo_report r) = 0 \<and> sg_lost (fo_report r) = 0
      \<and> sg_admitted (fo_report r) = 0 \<and> sg_refused (fo_report r) = 0)"

lemma key_up_keyed:
  assumes "fair_weather d g" and "frames_fit p sz d" and "keyed_up p sz d stg g c k r" and "k < db_fleet d"
  shows "keyed_up p sz d stg g c (Suc k) (key_up lm p sz d (sim_fleet p d) stg offsets 0 window r k)"
proof -
  let ?air = "air_of p sz d stg k" and ?bs = "the (frame_in p sz d stg k)"
  have k: "fo_outbox r ! k = None" "j_next_sequence (fo_journals r ! k) = stage_sequence stg"
      "\<not> mem_has_voted (fo_journals r ! k) (sim_subject p d) (sim_member k)"
      "unat (fo_used r ! k) \<le> 2296 * unat (stage_sequence stg)"
    and len: "k < length (fo_journals r)" "k < length (fo_outbox r)" "k < length (fo_used r)"
    using assms(3,4) by (auto simp: keyed_up_def locked_def)
  from frame_for_fair [OF assms(1,2,4) k(2,3)] obtain j where
    ff: "frame_for p sz (sim_fleet p d) k stg (db_verdict_of d k) (db_is_forger d k) (fo_journals r ! k) = (Some ?bs, j)"
    and j: "j_next_sequence j = stage_sequence stg + 1" "mem_has_voted j (sim_subject p d) (sim_member k) \<longleftrightarrow> stg = BindingSupport"
    by blast
  have small: "unat (fo_used r ! k) + unat ?air \<le> 2296 * unat (stage_sequence stg) + 2296"
    using k(4) air_of_le [of p sz d stg k] by simp
  then have legal: "duty_cycle_ok (fo_used r ! k) ?air" and sum: "unat (fo_used r ! k + ?air) \<le> 2296 * unat (stage_sequence stg) + 2296"
    using next_sequence(2) [of stg] by (simp add: duty_cycle_nat, subst unat_add_lem [THEN iffD1]) simp_all
  have up: "key_up lm p sz d (sim_fleet p d) stg offsets 0 window r k =
      put_on_air k (fst (snd (sent_by p sz d stg g k))) ?bs
        ((charge_airtime k ?air (r\<lparr>fo_journals := (fo_journals r)[k := j], fo_outbox := (fo_outbox r)[k := Some ?bs]\<rparr>))
          \<lparr>fo_rng := fo_rng r\<rparr>)"
    using assms(1) legal
    by (simp add: key_up_def frame_kept_def k(1) ff air_of_def [symmetric] start_of_def fair_weather_def slot_of_def sent_by_def
        own_transmission_def topology_reaches_def rssi_at_observer_def charge_airtime_def put_on_air_def Let_def)
  have before: "unat (fo_used r ! i) \<le> 2296 * unat (stage_sequence stg) + 2296" if "i < k" for i
  proof -
    have "i < db_fleet d" using that assms(4) by simp
    with assms(3) have "unat (fo_used r ! i) \<le> 2296 * unat (stage_sequence stg) + (if i < k then 2296 else 0)"
      unfolding keyed_up_def by blast
    with that show ?thesis by simp
  qed
  show ?thesis
    using assms(3) len j sum before
    by (auto simp: keyed_up_def up floor_moves locked_def nth_list_update sent_by_def less_Suc_eq)
qed

lemma key_up_all:
  assumes "fair_weather d g" and "frames_fit p sz d" and "keyed_up p sz d stg g c 0 r"
  shows "k \<le> db_fleet d \<Longrightarrow> keyed_up p sz d stg g c k (foldl (key_up lm p sz d (sim_fleet p d) stg offsets 0 window) r [0..<k])"
  using assms(3) by (induction k) (auto intro: key_up_keyed [OF assms(1,2)])

section \<open>Hearing\<close>

definition stage_clock :: "Stage \<Rightarrow> timestamp" where
  "stage_clock stg = plus_secs STARTED_AT (if stg = BindingSupport then CLOSE_AT else 1)"

lemma stage_clock_nat: "unat (stage_clock stg) = (if stg = BindingSupport then 1000331 else 1000001)"
  by (simp add: stage_clock_def plus_secs_def STARTED_AT_def CLOSE_AT_def CONSULTATION_CUTOFF_SECONDS_def
      MAX_CLOCK_SKEW_SECONDS_def sat_simps)

text \<open>The observer's case after the opinions or votes of the first \<open>k\<close> members.\<close>

definition observer_at :: "primitives \<Rightarrow> Deliberation \<Rightarrow> Stage \<Rightarrow> nat \<Rightarrow> Case \<Rightarrow> bool" where
  "observer_at p d stg k c =
     (case_inv c \<and> case_subject c = sim_subject p d \<and> 1000361 < unat (expires_at c)
      \<and> (if stg = BindingSupport then phase c = CollectingVotes \<and> binding c = map (opinion_of p d BindingSupport) [0..<k]
         else phase c = Consulting \<and> binding c = []))"

lemma opinion_of_simps [simp]:
  "author (opinion_of p d stg i) = sim_member i" "opinion_subject (opinion_of p d stg i) = sim_subject p d"
  "stage (opinion_of p d stg i) = stg" "verdict (opinion_of p d stg i) = db_verdict_of d i"
  by (simp_all add: opinion_of_def)

lemma listening_accept:
  assumes "observer_at p d stg k c"
  shows "\<exists>c'. accept c (opinion_of p d stg k) (stage_clock stg) = (Inr (), c') \<and> observer_at p d stg (Suc k) c'"
proof -
  obtain res c' where acc: "accept c (opinion_of p d stg k) (stage_clock stg) = (res, c')" by fastforce
  have inv: "case_inv c'" using accept_inv [OF acc] assms by (simp add: observer_at_def)
  have "set (bt_keys (voted c)) = author ` set (binding c)" using assms by (auto simp: observer_at_def case_inv_def bt_keys_def)
  then show ?thesis
    using acc inv assms unfolding accept_unfold observer_at_def stage_clock_nat
    by (cases "stg = BindingSupport") (auto split: if_splits)
qed

definition heard ::
  "primitives \<Rightarrow> SignedCompactEnvelope serializer \<Rightarrow> Deliberation \<Rightarrow> Stage \<Rightarrow> u64 \<Rightarrow> Floor \<Rightarrow> nat \<Rightarrow> Floor \<Rightarrow> bool" where
  "heard p sz d stg g r0 k r =
     (fo_on_air r = map (sent_by p sz d stg g) [0..<db_fleet d] \<and> fo_retry r = [] \<and> fo_refusals r = refusals_zero
      \<and> fo_journals r = fo_journals r0 \<and> fo_used r = fo_used r0 \<and> observer_at p d stg k (fo_observer r)
      \<and> sg_frames_sent (fo_report r) = db_fleet d \<and> sg_collided (fo_report r) = 0 \<and> sg_lost (fo_report r) = 0
      \<and> sg_admitted (fo_report r) = k \<and> sg_refused (fo_report r) = 0)"

lemma without_members: "x \<in> set (without k xs) \<Longrightarrow> \<exists>i < length xs. i \<noteq> k \<and> x = xs ! i"
  by (auto simp: without_def in_set_enumerate_eq)

lemma all_decoded:
  assumes "fair_weather d g" and "frames_fit p sz d" and "k < db_fleet d" and "k \<noteq> OBSERVER"
  shows "medium_receive (fst (snd (sent_by p sz d stg g k)))
    (without k (map (\<lambda>(_, t, _). t) (map (sent_by p sz d stg g) [0..<db_fleet d]))) = Decoded"
proof -
  let ?t = "\<lambda>i. fst (snd (sent_by p sz d stg g i))"
  have "damage aq (?t k) o' = Decoded" if o': "o' \<in> set (without k (map (\<lambda>(_, t, _). t) (map (sent_by p sz d stg g) [0..<db_fleet d])))" for o' aq
  proof -
    obtain i where "i < db_fleet d" "i \<noteq> k" "o' = ?t i"
      using without_members [OF o'] by (auto simp: case_prod_beta)
    then have "harmless aq (?t k) o'" using sent_apart [OF assms(1,2)] assms(3) by (simp add: harmless_def)
    then show ?thesis by (simp add: damage_def Let_def split: prod.split)
  qed
  moreover have "at_least (tx_rssi_dbm (?t k)) SENSITIVITY_DBM"
    using assms(4) by (simp add: sent_by_def NOMINAL_LEVEL_def sensitivity_default)
  ultimately show ?thesis by (simp add: medium_receive_def judge_decoded)
qed

lemma frame_in_made:
  assumes "frames_fit p sz d" and "i < db_fleet d"
  shows "made_by p sz d stg i (the (frame_in p sz d stg i))"
proof -
  have "frame_in p sz d stg i \<noteq> None" using assms by (simp add: frames_fit_def)
  then show ?thesis by (auto simp: frame_of_def made_by_def split: sum.splits)
qed

lemma hear_heard:
  assumes "primitives_ok p" and "serializer_ok sz" and "fair_weather d g" and "frames_fit p sz d"
    and "heard p sz d stg g r0 k r" and "k < db_fleet d"
  shows "heard p sz d stg g r0 (Suc k)
    (hear p sz d (sim_fleet p d) (stage_clock stg) (map (sent_by p sz d stg g) [0..<db_fleet d]) r k)"
proof -
  let ?bs = "the (frame_in p sz d stg k)"
  have obs: "observer_at p d stg k (fo_observer r)" using assms(5) by (simp add: heard_def)
  then obtain c where acc: "accept (fo_observer r) (opinion_of p d stg k) (stage_clock stg) = (Inr (), c)"
    and c: "observer_at p d stg (Suc k) c" using listening_accept by blast
  have adm: "sim_admit p sz (sim_fleet p d) (stage_clock stg) ?bs (fo_observer r) = (Inr (), c)"
    using sim_admit_made [OF assms(1,2) _ frame_in_made [OF assms(4,6)] assms(6)] fair_simps [OF assms(3)] assms(6) acc by simp
  obtain draw s where nf: "next_f64 (fo_rng r) = (draw, s)" by fastforce
  have "0 \<le> draw" using next_f64_unit(1) [of "fo_rng r"] nf by simp
  then have loss: "\<not> draw < db_loss d" using assms(3) by (simp add: fair_weather_def)
  have at: "map (sent_by p sz d stg g) [0..<db_fleet d] ! k = (k, fst (snd (sent_by p sz d stg g k)), ?bs)"
    using assms(6) by (simp add: sent_by_def)
  define r1 where "r1 = (if k = OBSERVER then r else r\<lparr>fo_rng := s\<rparr>)"
  have r1: "heard p sz d stg g r0 k r1" "fo_observer r1 = fo_observer r"
    using assms(5) by (auto simp: r1_def heard_def)
  have "hear p sz d (sim_fleet p d) (stage_clock stg) (map (sent_by p sz d stg g) [0..<db_fleet d]) r k
      = offer_to_observer p sz (sim_fleet p d) (stage_clock stg) ?bs r1"
    using all_decoded [OF assms(3,4,6), of stg] loss by (simp add: hear_def at nf Let_def r1_def)
  also have "\<dots> = r1\<lparr>fo_observer := c, fo_report := (fo_report r1)\<lparr>sg_admitted := sg_admitted (fo_report r1) + 1\<rparr>\<rparr>"
    by (simp add: offer_to_observer_def r1(2) adm)
  finally show ?thesis using r1(1) c by (simp add: heard_def)
qed

lemma hear_all:
  assumes "primitives_ok p" and "serializer_ok sz" and "fair_weather d g" and "frames_fit p sz d" and "heard p sz d stg g r0 0 r"
  shows "k \<le> db_fleet d \<Longrightarrow> heard p sz d stg g r0 k
    (foldl (hear p sz d (sim_fleet p d) (stage_clock stg) (map (sent_by p sz d stg g) [0..<db_fleet d])) r [0..<k])"
  using assms(5) by (induction k) (auto intro: hear_heard [OF assms(1-4)])

section \<open>The stages\<close>

text \<open>What a stage finds: journals with the next sequence, no vote cast, airtime left, and the observer observer_at.\<close>

definition ready :: "primitives \<Rightarrow> Deliberation \<Rightarrow> Stage \<Rightarrow> Floor \<Rightarrow> bool" where
  "ready p d stg r =
     (length (fo_journals r) = db_fleet d \<and> length (fo_used r) = db_fleet d \<and> fo_refusals r = refusals_zero
      \<and> (\<forall>i < db_fleet d. j_next_sequence (fo_journals r ! i) = stage_sequence stg \<and> \<not> locked p d r i
           \<and> unat (fo_used r ! i) \<le> 2296 * unat (stage_sequence stg))
      \<and> observer_at p d stg 0 (fo_observer r))"

definition clean_report :: "Deliberation \<Rightarrow> StageReport \<Rightarrow> bool" where
  "clean_report d sg =
     (sg_frames_sent sg = db_fleet d \<and> sg_admitted sg = db_fleet d \<and> sg_collided sg = 0 \<and> sg_lost sg = 0 \<and> sg_refused sg = 0)"

lemma run_stage_fair:
  assumes "primitives_ok p" and "serializer_ok sz" and "fair_weather d g" and "frames_fit p sz d" and "ready p d stg r"
  shows "\<exists>r'. run_stage lm p sz d (sim_fleet p d) (stage_clock stg) stg r = Some r' \<and> clean_report d (fo_report r')
    \<and> length (fo_journals r') = db_fleet d \<and> length (fo_used r') = db_fleet d \<and> fo_refusals r' = refusals_zero
    \<and> (\<forall>i < db_fleet d. j_next_sequence (fo_journals r' ! i) = stage_sequence stg + 1
         \<and> (locked p d r' i \<longleftrightarrow> stg = BindingSupport) \<and> unat (fo_used r' ! i) \<le> 2296 * unat (stage_sequence stg) + 2296)
    \<and> observer_at p d stg (db_fleet d) (fo_observer r')"
proof -
  let ?r0 = "r\<lparr>fo_report := stage_report_zero, fo_outbox := replicate (db_fleet d) None, fo_on_air := [], fo_retry := []\<rparr>"
  let ?n = "db_fleet d" and ?offsets = "clock_offsets_ms d"
  obtain width where w: "window_for p sz d (sim_fleet p d) 0 = Some width"
    using assms(3,4) by (auto simp: window_for_def fair_weather_def frames_fit_def)
  define r1 where "r1 = foldl (key_up lm p sz d (sim_fleet p d) stg ?offsets 0 width) ?r0 [0..<?n]"
  define r2 where "r2 = foldl (hear p sz d (sim_fleet p d) (stage_clock stg) (fo_on_air r1)) r1 [0..<length (fo_on_air r1)]"
  have "keyed_up p sz d stg g (fo_observer r) 0 ?r0"
    using assms(5) by (simp add: ready_def keyed_up_def stage_report_zero_def locked_def)
  then have k: "keyed_up p sz d stg g (fo_observer r) ?n r1"
    unfolding r1_def by (rule key_up_all [OF assms(3,4)]) simp
  then have "heard p sz d stg g r1 0 r1"
    using assms(5) by (simp add: keyed_up_def heard_def ready_def)
  then have "heard p sz d stg g r1 ?n
      (foldl (hear p sz d (sim_fleet p d) (stage_clock stg) (map (sent_by p sz d stg g) [0..<?n])) r1 [0..<?n])"
    by (rule hear_all [OF assms(1-4)]) simp
  moreover have "fo_on_air r1 = map (sent_by p sz d stg g) [0..<?n]" using k by (simp add: keyed_up_def)
  ultimately have h: "heard p sz d stg g r1 ?n r2" by (simp add: r2_def)
  obtain e where e: "stage_round lm p sz d (sim_fleet p d) stg (stage_clock stg) ?offsets 0 width [0..<?n]
      (r\<lparr>fo_report := stage_report_zero, fo_outbox := replicate ?n None\<rparr>) = (e, r2)"
    by (simp add: stage_round_def Let_def r2_def r1_def)
  have "[0..<MAX_RETRIES] = 0 # [1..<MAX_RETRIES]" by (simp add: MAX_RETRIES_def upt_rec)
  moreover have "?n \<noteq> 0" "db_silent d = 0" using assms(3) by (simp_all add: fair_weather_def)
  moreover have "stage_rounds lm p sz d (sim_fleet p d) stg now ?offsets as e [] r2 = Some (e, r2)" for now as
    by (cases as) simp_all
  moreover have "fo_retry r2 = []" using h by (simp add: heard_def)
  ultimately have "run_stage lm p sz d (sim_fleet p d) (stage_clock stg) stg r
      = Some (r2\<lparr>fo_report := (fo_report r2)\<lparr>sg_elapsed_ms := e\<rparr>\<rparr>)"
    by (simp add: run_stage_def w e)
  then show ?thesis
    using h k by (intro exI [of _ "r2\<lparr>fo_report := (fo_report r2)\<lparr>sg_elapsed_ms := e\<rparr>\<rparr>"])
      (auto simp: heard_def keyed_up_def clean_report_def locked_def)
qed

lemma freeze_fair:
  assumes "observer_at p d Consultation k (fo_observer r)" and "fo_refusals r = refusals_zero"
  shows "fo_journals (freeze r) = fo_journals r \<and> fo_used (freeze r) = fo_used r \<and> fo_refusals (freeze r) = refusals_zero
    \<and> observer_at p d BindingSupport 0 (fo_observer (freeze r))"
proof -
  have "started_at (sim_subject p d) = STARTED_AT" by (simp add: sim_fleet_def)
  then have "certainly_after (plus_secs STARTED_AT CLOSE_AT) (consultation_cutoff (case_subject (fo_observer r)))"
    using assms(1) stage_clock_nat [of BindingSupport] deadline_nat(1) [of "sim_subject p d"]
    by (simp add: observer_at_def certainly_after_nat stage_clock_def STARTED_AT_def)
  then show ?thesis
    using assms by (auto simp: freeze_def close_consultation_def observer_at_def case_inv_def)
qed

lemma start_fair:
  assumes "fair_weather d g"
  shows "ready p d Independent (floor_start lm p d)"
proof -
  have "1000361 < unat (expires_at (first_case d (sim_subject p d)))"
    using assms deadline_nat(3) [of "sim_subject p d"]
    by (auto simp: first_case_def case_open_def open_until_def fair_weather_def sim_fleet_def STARTED_AT_def
        plus_secs_def sat_simps min_def split: option.splits)
  then show ?thesis
    by (auto simp: ready_def floor_start_def stage_sequence_def default_state_def locked_def mem_has_voted_def bt_contains_def
        observer_at_def first_case_def case_open_def case_inv_open split: option.splits) (simp_all add: open_until_def)
qed

section \<open>The whole run\<close>

lemma stage_clocks:
  "stage_clock Independent = plus_secs STARTED_AT 1" "stage_clock Consultation = plus_secs STARTED_AT 1"
  "stage_clock BindingSupport = plus_secs STARTED_AT CLOSE_AT"
  by (simp_all add: stage_clock_def)

lemma listening_consulting: "observer_at p d Independent k c \<longleftrightarrow> observer_at p d Consultation 0 c"
  by (simp add: observer_at_def)

lemma fair_floors:
  assumes "primitives_ok p" and "serializer_ok sz" and "fair_weather d g" and "frames_fit p sz d"
  shows "\<exists>r1 r2 r. deliberation_floors lm p sz d = Some (r1, r2, r) \<and> list_all (clean_report d) (map fo_report [r1, r2, r])
    \<and> fo_refusals r = refusals_zero \<and> observer_at p d BindingSupport (db_fleet d) (fo_observer r)
    \<and> (\<forall>i < db_fleet d. unat (fo_used r ! i) \<le> 6888)"
proof -
  note fair = run_stage_fair [OF assms, of _ _ lm]
  obtain r1 where r1: "run_stage lm p sz d (sim_fleet p d) (stage_clock Independent) Independent (floor_start lm p d) = Some r1"
      "clean_report d (fo_report r1)" "ready p d Consultation r1"
    using fair [OF start_fair [OF assms(3), of p lm]]
    by (auto simp: ready_def stage_sequence_def listening_consulting)
  obtain r2 where r2: "run_stage lm p sz d (sim_fleet p d) (stage_clock Consultation) Consultation r1 = Some r2"
      "clean_report d (fo_report r2)" "ready p d BindingSupport (freeze r2)"
    using fair [OF r1(3)] freeze_fair [of p d "db_fleet d"]
    by (fastforce simp: ready_def stage_sequence_def locked_def)
  obtain r where r: "run_stage lm p sz d (sim_fleet p d) (stage_clock BindingSupport) BindingSupport (freeze r2) = Some r"
      "clean_report d (fo_report r)" "fo_refusals r = refusals_zero" "observer_at p d BindingSupport (db_fleet d) (fo_observer r)"
      "\<forall>i < db_fleet d. unat (fo_used r ! i) \<le> 6888"
    using fair [OF r2(3)] by (auto simp: stage_sequence_def)
  show ?thesis
    using r1 r2 r by (auto simp: deliberation_floors_def Let_def stage_clocks)
qed

lemma fair_deliberation:
  assumes "primitives_ok p" and "serializer_ok sz" and "keys_apart p (db_fleet d)" and "fair_weather d g" and "frames_fit p sz d"
  shows "\<exists>rep r. deliberate lm p sz d = Some (rep, r) \<and> de_endorsed rep \<and> de_binding_supporters rep = db_fleet d
    \<and> length (de_stages rep) = 3 \<and> list_all (clean_report d) (de_stages rep) \<and> de_refusals rep = refusals_zero
    \<and> (\<forall>i < db_fleet d. unat (fo_used r ! i) \<le> 6888)"
proof -
  have n: "1 \<le> db_fleet d" "db_fleet d < 2 ^ 32" and size: "frame_size p sz (sim_fleet p d) \<noteq> None"
    using assms(4,5) by (simp_all add: fair_weather_def frames_fit_def)
  have "trusted p sz d" using assms(1-3) by (simp add: trusted_def)
  then show ?thesis
  proof (rule deliberation_comes_to [OF _ n size, of lm])
    fix rep r S
    assume run: "deliberate lm p sz d = Some (rep, r)" "de_binding_supporters rep = card S"
      "S = {..<db_fleet d} \<Longrightarrow> de_endorsed rep" "de_refusals rep = fo_refusals r"
      and floors: "\<exists>r1 r2. deliberation_floors lm p sz d = Some (r1, r2, r) \<and> de_stages rep = map fo_report [r1, r2, r]"
      and S: "set (binding_supporters (fo_observer r)) = sim_member ` S"
    have fair: "list_all (clean_report d) (de_stages rep) \<and> length (de_stages rep) = 3 \<and> fo_refusals r = refusals_zero
        \<and> observer_at p d BindingSupport (db_fleet d) (fo_observer r) \<and> (\<forall>i < db_fleet d. unat (fo_used r ! i) \<le> 6888)"
      using fair_floors [OF assms(1,2,4,5), of lm] floors by auto
    then have "binding (fo_observer r) = map (opinion_of p d BindingSupport) [0..<db_fleet d]" by (simp add: observer_at_def)
    then have "set (binding_supporters (fo_observer r)) = sim_member ` {..<db_fleet d}"
      using fair_simps(1) [OF assms(4)] by (auto simp: binding_supporters_def image_image)
    then have "S = {..<db_fleet d}" using S by (metis inj_image_eq_iff injI member_id_inj)
    with run fair show ?thesis by auto
  qed
qed

text \<open>
  (C29) A fleet in its slots endorses. In fair weather, which is: one to 65536 members, fully
  connected and not spaced out, in slots with a guard of any length that keeps the last slot within
  64 bits of milliseconds; a channel that loses nothing; the trigger as anchor; nobody silent, nobody who
  disputes, nobody who forges; and a claim that never expires or is valid for more than 361
  seconds (the binding stage opens that late). And with keys that do not verify each other's signatures
  (\<open>keys_apart\<close>), a serializer that can write every frame of the run, and no frame of a
  member longer than that of a member with a higher index (\<open>frames_fit\<close>). Then every member's
  frame is received in the first round of every stage, without one collision or refusal; the claim is
  endorsed by the whole fleet; and nobody spends more than seven of the thirty-six seconds of airtime
  the law allows in an hour. The slots are as long as each member's own frame and the guard.
\<close>

theorem slotted_fleet_endorses:
  assumes "primitives_ok p" and "serializer_ok sz" and "keys_apart p (db_fleet d)" and "fair_weather d g" and "frames_fit p sz d"
  shows "\<exists>rep r. deliberate lm p sz d = Some (rep, r) \<and> de_endorsed rep \<and> de_binding_supporters rep = db_fleet d
    \<and> length (de_stages rep) = 3
    \<and> list_all (\<lambda>sg. sg_frames_sent sg = db_fleet d \<and> sg_admitted sg = db_fleet d \<and> sg_collided sg = 0
         \<and> sg_lost sg = 0 \<and> sg_refused sg = 0) (de_stages rep)
    \<and> (\<forall>i < db_fleet d. unat (fo_used r ! i) \<le> 6888)"
proof -
  have "clean_report d = (\<lambda>sg. sg_frames_sent sg = db_fleet d \<and> sg_admitted sg = db_fleet d \<and> sg_collided sg = 0
         \<and> sg_lost sg = 0 \<and> sg_refused sg = 0)" by (rule ext) (simp add: clean_report_def)
  then show ?thesis using fair_deliberation [OF assms, of lm] by auto
qed

lemma sample_frames_fit: "frames_fit sample_primitives sample_fixed d"
proof -
  have "\<exists>bs. frame_in sample_primitives sample_fixed d stg i = Some bs \<and> length bs = 140" for stg i
  proof -
    obtain plain where "encode_compact sample_fixed (compact_sign sample_primitives
        (sim_envelope sample_primitives (sim_subject sample_primitives d) (sim_author i) (stage_code stg)
          (verdict_code (db_verdict_of d i)) (stage_sequence stg))
        (from_seed (sim_seed (signer_of d i))) (content_hash (sim_subject sample_primitives d))) = Inr plain" "length plain = 114"
      using sample_encoded unfolding sim_envelope_def by blast
    then show ?thesis using sample_sealed [of "sim_author i" "stage_sequence stg" plain] by (auto simp: frame_of_def)
  qed
  then have f: "frame_in sample_primitives sample_fixed d stg i \<noteq> None"
    "length (the (frame_in sample_primitives sample_fixed d stg i)) = 140" for stg i
    by (metis option.distinct(1), metis option.sel)
  then show ?thesis by (simp add: frames_fit_def sample_frame_size)
qed

definition sample_ten :: Deliberation where
  "sample_ten = db_with_slots 50 (deliberation_new 10)"

lemma sample_ten_fair: "fair_weather sample_ten 50" "db_fleet sample_ten = 10"
  by (simp_all add: fair_weather_def sample_ten_def db_with_slots_def deliberation_new_def)

theorem slotted_fleet_endorses_witness:
  "\<forall>lm. \<exists>rep r. deliberate lm sample_primitives sample_fixed sample_ten = Some (rep, r) \<and> de_endorsed rep
     \<and> de_binding_supporters rep = 10"
proof
  fix lm
  have "keys_apart sample_primitives (db_fleet sample_ten)" by (simp add: sample_ten_fair sample_keys_apart)
  from slotted_fleet_endorses [OF sample_primitives_ok sample_fixed_ok this sample_ten_fair(1) sample_frames_fit, of lm]
  show "\<exists>rep r. deliberate lm sample_primitives sample_fixed sample_ten = Some (rep, r) \<and> de_endorsed rep
     \<and> de_binding_supporters rep = 10"
    unfolding sample_ten_fair(2) by blast
qed

end
