(* ===== verification/Lcq_Scenario.thy ===== *)
theory Lcq_Scenario
  imports Lcq_Simulation
begin

text \<open>
  \<open>src/sim/scenario.rs\<close>: one round of votes over the simulated channel, with retries, and a
  record of every transmission. \<open>scenario_run\<close> is \<open>None\<close> where the program panics.
\<close>

datatype Acknowledgement = Assumed | AckNone

datatype Outcome = OutDecoded | OwnTransmission | Rejected | Collided | OutTooWeak | Unreachable
  | LostToResidualNoise | DutyCycleBlocked

definition went_on_air :: "Outcome \<Rightarrow> bool" where
  "went_on_air o' = (o' \<noteq> DutyCycleBlocked)"

record TraceEntry =
  te_round :: nat
  te_sender :: nat
  te_start_ms :: u64
  te_airtime_ms :: u64
  te_rssi_dbm :: dbm
  te_outcome :: Outcome

record ScenarioReport =
  sp_endorsed :: bool
  sp_binding_supporters :: nat
  sp_min_signers :: nat
  sp_frames_sent :: nat
  sp_rejected_frames :: nat
  sp_collided_frames :: nat
  sp_too_weak_frames :: nat
  sp_duty_cycle_blocked :: nat
  sp_airtime_ms :: u64
  sp_timeline :: "TraceEntry list"

record Scenario =
  sn_fleet :: nat
  sn_loss :: rat
  sn_seed :: u64
  sn_topology :: Topology
  sn_silent :: nat
  sn_forgers :: nat
  sn_spacing_m :: "rat option"
  sn_prior_airtime_ms :: u64
  sn_access :: Access
  sn_acknowledgement :: Acknowledgement

definition scenario_new :: "nat \<Rightarrow> Scenario" where
  "scenario_new fleet =
     \<lparr>sn_fleet = max fleet 1, sn_loss = 0, sn_seed = 1, sn_topology = FullyConnected, sn_silent = 0, sn_forgers = 0,
      sn_spacing_m = None, sn_prior_airtime_ms = 0, sn_access = Random, sn_acknowledgement = Assumed\<rparr>"

definition sn_with_loss :: "rat \<Rightarrow> Scenario \<Rightarrow> Scenario" where
  "sn_with_loss loss s = s\<lparr>sn_loss := clamp_f 0 1 loss\<rparr>"

definition sn_with_seed :: "u64 \<Rightarrow> Scenario \<Rightarrow> Scenario" where "sn_with_seed seed s = s\<lparr>sn_seed := seed\<rparr>"

definition sn_with_topology :: "Topology \<Rightarrow> Scenario \<Rightarrow> Scenario" where "sn_with_topology t s = s\<lparr>sn_topology := t\<rparr>"

definition sn_with_silent :: "nat \<Rightarrow> Scenario \<Rightarrow> Scenario" where "sn_with_silent n s = s\<lparr>sn_silent := n\<rparr>"

definition sn_with_forgers :: "nat \<Rightarrow> Scenario \<Rightarrow> Scenario" where "sn_with_forgers n s = s\<lparr>sn_forgers := n\<rparr>"

definition sn_with_spacing_m :: "rat \<Rightarrow> Scenario \<Rightarrow> Scenario" where
  "sn_with_spacing_m m s = s\<lparr>sn_spacing_m := Some (max m 0)\<rparr>"

definition sn_with_prior_airtime_ms :: "u64 \<Rightarrow> Scenario \<Rightarrow> Scenario" where
  "sn_with_prior_airtime_ms ms s = s\<lparr>sn_prior_airtime_ms := ms\<rparr>"

definition sn_with_slots :: "u64 \<Rightarrow> Scenario \<Rightarrow> Scenario" where
  "sn_with_slots guard_ms s = s\<lparr>sn_access := Slotted guard_ms\<rparr>"

definition sn_without_acknowledgement :: "Scenario \<Rightarrow> Scenario" where
  "sn_without_acknowledgement s = s\<lparr>sn_acknowledgement := AckNone\<rparr>"

section \<open>Frames\<close>

definition scenario_subject :: Subject where
  "scenario_subject = \<lparr>mission = ''sim'', event = ''evt-1'', revision = 0, content_hash = replicate 32 0x11, started_at = 0\<rparr>"

definition sn_is_forger :: "Scenario \<Rightarrow> nat \<Rightarrow> bool" where
  "sn_is_forger s sender = (sender \<ge> sn_silent s \<and> sender < sn_silent s + sn_forgers s)"

definition sn_signer :: "Scenario \<Rightarrow> nat \<Rightarrow> nat" where
  "sn_signer s sender = (if sn_is_forger s sender then (sender + 1) mod sn_fleet s else sender)"

text \<open>The frame a member sends, under its index as the sequence; \<open>None\<close> where \<open>expect\<close> panics.\<close>

definition sn_frame_for :: "primitives \<Rightarrow> SignedCompactEnvelope serializer \<Rightarrow> Scenario \<Rightarrow> nat \<Rightarrow> bytes option" where
  "sn_frame_for p sz s sender =
     (let signing = sim_keys (sn_fleet s) ! sn_signer s sender;
          sequence = of_nat sender :: u64;
          envelope = compact_new p 1 1 0 (content_hash scenario_subject) (started_at scenario_subject) (sim_author sender) 3 1 sequence
      in case encode_compact sz (compact_sign p envelope signing (content_hash scenario_subject)) of
           Inl e \<Rightarrow> None
         | Inr plain \<Rightarrow> (case seal_frame p sim_group_key (sim_author sender) sequence plain of Inl e \<Rightarrow> None | Inr bs \<Rightarrow> Some bs))"

section \<open>A run\<close>

record Run =
  rn_rng :: rng
  rn_fading :: RicianFading
  rn_on_air :: "(nat \<times> Transmission) list"
  rn_timeline :: "TraceEntry list"
  rn_frames_sent :: nat
  rn_rejected :: nat
  rn_collided :: nat
  rn_too_weak :: nat
  rn_duty_cycle_blocked :: nat
  rn_airtime_ms :: u64
  rn_used :: "u64 list"
  rn_verified :: "string list"
  rn_elapsed_ms :: u64
  rn_retry :: "nat list"

definition run_new :: "Libm \<Rightarrow> Scenario \<Rightarrow> Run" where
  "run_new lm s =
     \<lparr>rn_rng = rng_new (sn_seed s), rn_fading = fading_new lm (sn_seed s XOR FADING_STREAM) RICIAN_K_DB,
      rn_on_air = [], rn_timeline = [], rn_frames_sent = 0, rn_rejected = 0, rn_collided = 0, rn_too_weak = 0,
      rn_duty_cycle_blocked = 0, rn_airtime_ms = 0, rn_used = replicate (sn_fleet s) (sn_prior_airtime_ms s),
      rn_verified = [], rn_elapsed_ms = 0, rn_retry = []\<rparr>"

definition tally_record :: "nat \<Rightarrow> nat \<Rightarrow> u64 \<Rightarrow> u64 \<Rightarrow> dbm \<Rightarrow> Outcome \<Rightarrow> Run \<Rightarrow> Run" where
  "tally_record attempt sender start air level outcome r =
     r\<lparr>rn_timeline := rn_timeline r @ [\<lparr>te_round = attempt, te_sender = sender, te_start_ms = start,
         te_airtime_ms = air, te_rssi_dbm = level, te_outcome = outcome\<rparr>]\<rparr>"

definition tally_charge :: "nat \<Rightarrow> u64 \<Rightarrow> nat \<Rightarrow> Run \<Rightarrow> bool \<times> Run" where
  "tally_charge node air attempt r =
     (if \<not> duty_cycle_ok (rn_used r ! node) air then
        (False, tally_record attempt node 0 0 Silent DutyCycleBlocked (r\<lparr>rn_duty_cycle_blocked := rn_duty_cycle_blocked r + 1\<rparr>))
      else (True, r\<lparr>rn_used := (rn_used r)[node := rn_used r ! node + air], rn_frames_sent := rn_frames_sent r + 1,
                    rn_airtime_ms := rn_airtime_ms r + air\<rparr>))"

definition sn_window_for :: "Scenario \<Rightarrow> bytes list \<Rightarrow> nat \<Rightarrow> u64" where
  "sn_window_for s frames attempt =
     (case sn_access s of
        Random \<Rightarrow> contention_ms attempt
      | Slotted guard_ms \<Rightarrow> (airtime_ms (length (frames ! OBSERVER)) + guard_ms) * of_nat (sn_fleet s))"

definition sn_start_for :: "Scenario \<Rightarrow> nat \<Rightarrow> u64 \<Rightarrow> u64 \<Rightarrow> Run \<Rightarrow> u64 \<times> Run" where
  "sn_start_for s sender air window r =
     (case sn_access s of
        Random \<Rightarrow> (case rng_below window (rn_rng r) of (offset, g) \<Rightarrow> (rn_elapsed_ms r + offset, r\<lparr>rn_rng := g\<rparr>))
      | Slotted guard_ms \<Rightarrow> (rn_elapsed_ms r + of_nat sender * (air + guard_ms), r))"

definition reject :: "Run \<Rightarrow> Outcome \<times> Run" where
  "reject r = (Rejected, r\<lparr>rn_rejected := rn_rejected r + 1\<rparr>)"

definition sn_accept ::
  "primitives \<Rightarrow> SignedCompactEnvelope serializer \<Rightarrow> VerifyingKey list \<Rightarrow> bytes list \<Rightarrow> nat \<Rightarrow> Run \<Rightarrow> Outcome \<times> Run" where
  "sn_accept p sz manifest frames sender r =
     (case open_frame p sim_group_key (frames ! sender) of
        Inl e \<Rightarrow> reject r
      | Inr (_, _, plain) \<Rightarrow>
          (case decode_compact sz plain of
             Inl e \<Rightarrow> reject r
           | Inr received \<Rightarrow>
               (let claimed = unat (ce_author_index (sc_envelope received))
                in if claimed \<ge> length manifest
                      \<or> compact_verify p received (manifest ! claimed) (content_hash scenario_subject) \<noteq> Inr ()
                   then reject r
                   else (OutDecoded, if sim_member claimed \<in> set (rn_verified r) then r
                           else r\<lparr>rn_verified := rn_verified r @ [sim_member claimed]\<rparr>))))"

definition observer_answers ::
  "primitives \<Rightarrow> SignedCompactEnvelope serializer \<Rightarrow> Scenario \<Rightarrow> VerifyingKey list \<Rightarrow> bytes list \<Rightarrow> u64 \<Rightarrow> Run \<Rightarrow> Run" where
  "observer_answers p sz s manifest frames window r =
     (if sn_silent s \<noteq> 0 then r
      else let air = airtime_ms (length (frames ! OBSERVER))
        in case tally_charge OBSERVER air 0 r of
             (False, r) \<Rightarrow> snd (sn_accept p sz manifest frames OBSERVER r)
           | (True, r) \<Rightarrow>
               (case sn_start_for s OBSERVER air window r of (start, r) \<Rightarrow>
                  case sn_accept p sz manifest frames OBSERVER
                         (r\<lparr>rn_on_air := rn_on_air r @ [(OBSERVER, own_transmission start air)]\<rparr>) of (vd, r) \<Rightarrow>
                    tally_record 0 OBSERVER start air Loudest (if vd = Rejected then Rejected else OwnTransmission) r))"

definition sn_retry :: "nat \<Rightarrow> Run \<Rightarrow> Run" where
  "sn_retry sender r = r\<lparr>rn_retry := rn_retry r @ [sender]\<rparr>"

definition schedule_one :: "Libm \<Rightarrow> Scenario \<Rightarrow> bytes list \<Rightarrow> nat \<Rightarrow> u64 \<Rightarrow> Run \<Rightarrow> nat \<Rightarrow> Run" where
  "schedule_one lm s frames attempt window r sender =
     (let air = airtime_ms (length (frames ! sender))
      in case tally_charge sender air attempt r of
           (False, r) \<Rightarrow> r
         | (True, r) \<Rightarrow>
             (case sn_start_for s sender air window r of (start, r) \<Rightarrow>
                if topology_reaches (sn_topology s) sender OBSERVER (sn_fleet s) then
                  (case rssi_at_observer lm (sn_spacing_m s) sender (rn_fading r) of (level, fading) \<Rightarrow>
                     r\<lparr>rn_fading := fading,
                       rn_on_air := rn_on_air r @ [(sender, \<lparr>tx_start_ms = start, tx_airtime_ms = air, tx_rssi_dbm = level\<rparr>)]\<rparr>)
                else sn_retry sender (tally_record attempt sender start air Silent Unreachable r)))"

definition deliver_one ::
  "primitives \<Rightarrow> SignedCompactEnvelope serializer \<Rightarrow> Scenario \<Rightarrow> VerifyingKey list \<Rightarrow> bytes list \<Rightarrow> nat
    \<Rightarrow> (nat \<times> Transmission) list \<Rightarrow> Run \<Rightarrow> nat \<Rightarrow> Run" where
  "deliver_one p sz s manifest frames attempt aired r index =
     (case aired ! index of (sender, t) \<Rightarrow>
        if sender = OBSERVER then r
        else let (outcome, r) =
               (case medium_receive t (without index (map snd aired)) of
                  TooWeak \<Rightarrow> (OutTooWeak, sn_retry sender (r\<lparr>rn_too_weak := rn_too_weak r + 1\<rparr>))
                | Decoded \<Rightarrow>
                    (case next_f64 (rn_rng r) of (draw, g) \<Rightarrow>
                       (let r = r\<lparr>rn_rng := g\<rparr>
                        in if draw < sn_loss s then (LostToResidualNoise, sn_retry sender r)
                           else case sn_accept p sz manifest frames sender r of (vd, r) \<Rightarrow>
                             (vd, if sn_acknowledgement s = AckNone then sn_retry sender r else r)))
                | _ \<Rightarrow> (Collided, sn_retry sender (r\<lparr>rn_collided := rn_collided r + 1\<rparr>)))
          in tally_record attempt sender (tx_start_ms t) (tx_airtime_ms t) (tx_rssi_dbm t) outcome r)"

definition scenario_round ::
  "Libm \<Rightarrow> primitives \<Rightarrow> SignedCompactEnvelope serializer \<Rightarrow> Scenario \<Rightarrow> VerifyingKey list \<Rightarrow> bytes list \<Rightarrow> nat \<Rightarrow> Run
    \<Rightarrow> nat list \<Rightarrow> Run" where
  "scenario_round lm p sz s manifest frames attempt r pending =
     (let window = sn_window_for s frames attempt;
          r = r\<lparr>rn_retry := []\<rparr>;
          r = (if attempt = 0 then observer_answers p sz s manifest frames window r else r);
          r = foldl (schedule_one lm s frames attempt window) r pending;
          aired = rn_on_air r;
          r = foldl (deliver_one p sz s manifest frames attempt aired) (r\<lparr>rn_on_air := []\<rparr>) [0..<length aired]
      in r\<lparr>rn_elapsed_ms := round_end (rn_elapsed_ms r) window (map snd aired)\<rparr>)"

fun scenario_rounds ::
  "Libm \<Rightarrow> primitives \<Rightarrow> SignedCompactEnvelope serializer \<Rightarrow> Scenario \<Rightarrow> VerifyingKey list \<Rightarrow> bytes list \<Rightarrow> nat list
    \<Rightarrow> nat list \<Rightarrow> Run \<Rightarrow> Run" where
  "scenario_rounds lm p sz s manifest frames [] pending r = r"
| "scenario_rounds lm p sz s manifest frames (attempt # attempts) pending r =
     (if pending = [] then r
      else let r = scenario_round lm p sz s manifest frames attempt r pending
        in scenario_rounds lm p sz s manifest frames attempts (rn_retry r) r)"

definition scenario_finish ::
  "Libm \<Rightarrow> primitives \<Rightarrow> SignedCompactEnvelope serializer \<Rightarrow> Scenario \<Rightarrow> bytes list \<Rightarrow> Run" where
  "scenario_finish lm p sz s frames =
     scenario_rounds lm p sz s (map (verifying_key p) (sim_keys (sn_fleet s))) frames [0..<MAX_RETRIES]
       (filter (\<lambda>i. i \<noteq> OBSERVER) [sn_silent s..<sn_fleet s]) (run_new lm s)"

definition scenario_frames :: "primitives \<Rightarrow> SignedCompactEnvelope serializer \<Rightarrow> Scenario \<Rightarrow> bytes list option" where
  "scenario_frames p sz s = those (map (sn_frame_for p sz s) [0..<sn_fleet s])"

definition scenario_run ::
  "Libm \<Rightarrow> primitives \<Rightarrow> SignedCompactEnvelope serializer \<Rightarrow> Scenario \<Rightarrow> (ScenarioReport \<times> Run) option" where
  "scenario_run lm p sz s =
     (case (sim_policy (sn_fleet s), scenario_frames p sz s) of
        (Inr pol, Some frames) \<Rightarrow>
          (let r = scenario_finish lm p sz s frames
           in case evaluate pol (rn_verified r) of
                Inl e \<Rightarrow> None
              | Inr outcome \<Rightarrow>
                  Some (\<lparr>sp_endorsed = approved outcome, sp_binding_supporters = length (rn_verified r),
                    sp_min_signers = min_signers pol, sp_frames_sent = rn_frames_sent r, sp_rejected_frames = rn_rejected r,
                    sp_collided_frames = rn_collided r, sp_too_weak_frames = rn_too_weak r,
                    sp_duty_cycle_blocked = rn_duty_cycle_blocked r, sp_airtime_ms = rn_airtime_ms r,
                    sp_timeline = rn_timeline r\<rparr>, r))
      | _ \<Rightarrow> None)"

end
