(* ===== verification/Lcq_Scenario_Correct.thy ===== *)
theory Lcq_Scenario_Correct
  imports Lcq_Scenario
begin

text \<open>
  What a scenario can conclude: its record accounts for everything its report counts, no
  member exceeds its hourly airtime, and what is counted as support was signed by members
  that were there and in reach.
\<close>

section \<open>The books\<close>

text \<open>Transmissions whose entry in the record is still to come; the observer's own is written at once.\<close>

definition owing :: "(nat \<times> Transmission) list \<Rightarrow> (nat \<times> Transmission) list" where
  "owing aired = filter (\<lambda>(i, t). i \<noteq> OBSERVER) aired"

definition seen :: "Outcome \<Rightarrow> TraceEntry list \<Rightarrow> nat" where
  "seen o' es = length (filter (\<lambda>e. te_outcome e = o') es)"

definition entries_on_air :: "TraceEntry list \<Rightarrow> nat" where
  "entries_on_air es = length (filter (\<lambda>e. went_on_air (te_outcome e)) es)"

definition spent :: "nat \<Rightarrow> TraceEntry list \<Rightarrow> nat" where
  "spent i es = sum_list (map (\<lambda>e. unat (te_airtime_ms e)) (filter (\<lambda>e. te_sender e = i) es))"

definition still_owed :: "nat \<Rightarrow> (nat \<times> Transmission) list \<Rightarrow> nat" where
  "still_owed i xs = sum_list (map (\<lambda>(j, t). unat (tx_airtime_ms t)) (filter (\<lambda>(j, t). j = i) xs))"

lemma books_simps [simp]:
  "owing [] = []" "owing (xs @ ys) = owing xs @ owing ys"
  "owing ((i, t) # xs) = (if i = OBSERVER then owing xs else (i, t) # owing xs)"
  "seen o' [] = 0" "seen o' (es @ [e]) = (if te_outcome e = o' then seen o' es + 1 else seen o' es)"
  "entries_on_air [] = 0" "entries_on_air (es @ [e]) = (if went_on_air (te_outcome e) then entries_on_air es + 1 else entries_on_air es)"
  "spent i [] = 0" "spent i (es @ [e]) = (if te_sender e = i then spent i es + unat (te_airtime_ms e) else spent i es)"
  "still_owed i [] = 0" "still_owed i (xs @ ys) = still_owed i xs + still_owed i ys"
  "still_owed i ((j, t) # xs) = (if j = i then unat (tx_airtime_ms t) + still_owed i xs else still_owed i xs)"
  by (simp_all add: owing_def seen_def entries_on_air_def spent_def still_owed_def)

text \<open>What one member has used is what it began with and what is recorded, or owed, against its name.\<close>

definition used_right :: "u64 \<Rightarrow> u64 list \<Rightarrow> TraceEntry list \<Rightarrow> (nat \<times> Transmission) list \<Rightarrow> nat \<Rightarrow> bool" where
  "used_right prior used es os i =
     (unat (used ! i) = unat prior + spent i es + still_owed i os \<and> (used ! i = prior \<or> unat (used ! i) \<le> 36000))"

definition books :: "Scenario \<Rightarrow> (nat \<times> Transmission) list \<Rightarrow> Run \<Rightarrow> bool" where
  "books s aired r =
     (rn_frames_sent r = entries_on_air (rn_timeline r) + length (owing aired)
      \<and> rn_airtime_ms r = sum_list (map te_airtime_ms (rn_timeline r)) + sum_list (map (\<lambda>(i, t). tx_airtime_ms t) (owing aired))
      \<and> rn_collided r = seen Collided (rn_timeline r) \<and> rn_too_weak r = seen OutTooWeak (rn_timeline r)
      \<and> rn_duty_cycle_blocked r = seen DutyCycleBlocked (rn_timeline r) \<and> seen Rejected (rn_timeline r) \<le> rn_rejected r
      \<and> length (rn_used r) = sn_fleet s
      \<and> (\<forall>i < sn_fleet s. used_right (sn_prior_airtime_ms s) (rn_used r) (rn_timeline r) (owing aired) i))"

lemmas run_moves = tally_charge_def tally_record_def sn_retry_def reject_def

lemma went_on_air_simps [simp]: "went_on_air o' \<longleftrightarrow> o' \<noteq> DutyCycleBlocked"
  by (simp add: went_on_air_def)

lemma sn_accept_does:
  assumes "sn_accept p sz m frames i r = (o', r')"
  shows "(o' = Rejected \<and> r' = r\<lparr>rn_rejected := rn_rejected r + 1\<rparr>)
    \<or> (o' = OutDecoded \<and> (\<exists>vs. r' = r\<lparr>rn_verified := vs\<rparr>))"
  using assms
  by (auto simp: sn_accept_def reject_def Let_def split: sum.splits prod.splits if_splits)
    (metis Run.surjective Run.update_convs(12))

lemma charge_sum:
  assumes "duty_cycle_ok u air"
  shows "unat (u + air) = unat u + unat air \<and> unat (u + air) \<le> 36000"
proof -
  have le: "unat u + unat air \<le> 36000" using assms by (simp add: duty_cycle_nat)
  then have "unat (u + air) = unat u + unat air" by (subst unat_add_lem [THEN iffD1]) simp_all
  with le show ?thesis by simp
qed

lemma sn_start_keeps:
  assumes "sn_start_for s i air w r = (start, r')"
  shows "\<exists>g. r' = r\<lparr>rn_rng := g\<rparr>"
  using assms by (auto simp: sn_start_for_def split: Access.splits prod.splits) (metis Run.surjective Run.update_convs(1))

text \<open>A member is charged: either nothing goes out and that is recorded, or its airtime is owed.\<close>

lemma charge_books:
  assumes "books s aired r" and "i < sn_fleet s" and "tally_charge i air n r = (ok, r')"
  shows "if ok then duty_cycle_ok (rn_used r ! i) air
      \<and> r' = r\<lparr>rn_used := (rn_used r)[i := rn_used r ! i + air], rn_frames_sent := rn_frames_sent r + 1,
               rn_airtime_ms := rn_airtime_ms r + air\<rparr>
    else books s aired r'"
  using assms by (auto simp: run_moves books_def used_right_def split: if_splits)

text \<open>The entry of a transmission that was charged: at once, or after its fate is known.\<close>

lemma put_books:
  assumes "books s aired r" and "i < sn_fleet s" and "duty_cycle_ok (rn_used r ! i) air"
    and "rn_used r' = (rn_used r)[i := rn_used r ! i + air]" and "rn_frames_sent r' = rn_frames_sent r + 1"
    and "rn_airtime_ms r' = rn_airtime_ms r + air"
    and "rn_collided r' = rn_collided r" "rn_too_weak r' = rn_too_weak r" "rn_duty_cycle_blocked r' = rn_duty_cycle_blocked r"
    and "rn_timeline r' = rn_timeline r \<and> rn_rejected r' = rn_rejected r \<and> i \<noteq> OBSERVER
           \<and> aired' = aired @ [(i, t)] \<and> tx_airtime_ms t = air
      \<or> owing aired' = owing aired \<and> (\<exists>e. rn_timeline r' = rn_timeline r @ [e] \<and> te_sender e = i \<and> te_airtime_ms e = air
           \<and> te_outcome e \<notin> {Collided, OutTooWeak, DutyCycleBlocked}
           \<and> (if te_outcome e = Rejected then rn_rejected r < rn_rejected r' else rn_rejected r \<le> rn_rejected r'))"
  shows "books s aired' r'"
proof -
  note sum = charge_sum [OF assms(3)]
  have "used_right (sn_prior_airtime_ms s) (rn_used r') (rn_timeline r') (owing aired') j" if "j < sn_fleet s" for j
  proof -
    have old: "used_right (sn_prior_airtime_ms s) (rn_used r) (rn_timeline r) (owing aired) j" and "length (rn_used r) = sn_fleet s"
      using assms(1) that by (simp_all add: books_def)
    then show ?thesis
      using sum assms(4,10) that assms(2)
      by (cases "j = i") (auto simp: used_right_def)
  qed
  then show ?thesis
    using assms by (auto simp: books_def split: if_splits)
qed

text \<open>The fate of a transmission is known: its entry is no longer owed.\<close>

lemma settle_books:
  assumes "books s ((i, t) # rest) r" and "i \<noteq> OBSERVER"
    and "rn_timeline r' = rn_timeline r @ [e]" and "te_sender e = i" and "te_airtime_ms e = tx_airtime_ms t"
    and "te_outcome e \<noteq> DutyCycleBlocked"
    and "rn_collided r' = rn_collided r + (if te_outcome e = Collided then 1 else 0)"
    and "rn_too_weak r' = rn_too_weak r + (if te_outcome e = OutTooWeak then 1 else 0)"
    and "rn_rejected r' = rn_rejected r + (if te_outcome e = Rejected then 1 else 0)"
    and "rn_duty_cycle_blocked r' = rn_duty_cycle_blocked r" and "rn_used r' = rn_used r"
    and "rn_frames_sent r' = rn_frames_sent r" and "rn_airtime_ms r' = rn_airtime_ms r"
  shows "books s rest r'"
  using assms by (auto simp: books_def used_right_def)

section \<open>A round\<close>

text \<open>Who may be heard: a member that is not silent, the observer itself or one in reach of it.\<close>

definition audible :: "Scenario \<Rightarrow> nat \<Rightarrow> bool" where
  "audible s i = (i < sn_fleet s \<and> sn_silent s \<le> i \<and> (i = OBSERVER \<or> topology_reaches (sn_topology s) i OBSERVER (sn_fleet s)))"

definition placed :: "Scenario \<Rightarrow> (nat \<times> Transmission) list \<Rightarrow> Run \<Rightarrow> bool" where
  "placed s aired r = ((\<forall>(i, t) \<in> set aired. audible s i)
     \<and> (\<forall>i \<in> set (rn_retry r). i \<noteq> OBSERVER \<and> sn_silent s \<le> i \<and> i < sn_fleet s))"

definition support_genuine :: "Scenario \<Rightarrow> Run \<Rightarrow> bool" where
  "support_genuine s r = (distinct (rn_verified r) \<and> set (rn_verified r) \<subseteq> sim_member ` {i. audible s i \<and> sn_signer s i = i})"

definition signatures_hold :: "primitives \<Rightarrow> SignedCompactEnvelope serializer \<Rightarrow> Scenario \<Rightarrow> bytes list \<Rightarrow> bool" where
  "signatures_hold p sz s frames =
     (primitives_ok p \<and> serializer_ok sz \<and> keys_apart p (sn_fleet s) \<and> sn_fleet s \<le> 2 ^ 16
      \<and> scenario_frames p sz s = Some frames)"

abbreviation "sn_manifest p s \<equiv> map (verifying_key p) (sim_keys (sn_fleet s))"

lemma those_nth: "those xs = Some ys \<Longrightarrow> i < length xs \<Longrightarrow> xs ! i = Some (ys ! i)"
  by (induction xs arbitrary: ys i) (auto simp: nth_Cons' split: option.splits)

lemma signer_in_fleet: "i < sn_fleet s \<Longrightarrow> sn_signer s i < sn_fleet s"
  by (simp add: sn_signer_def)

text \<open>A member's frame is accepted exactly when it signed with its own key.\<close>

lemma sn_accept_frame:
  assumes "signatures_hold p sz s frames" and "i < sn_fleet s"
  shows "sn_accept p sz (sn_manifest p s) frames i r =
    (if sn_signer s i = i
     then (OutDecoded, if sim_member i \<in> set (rn_verified r) then r else r\<lparr>rn_verified := rn_verified r @ [sim_member i]\<rparr>)
     else reject r)"
proof -
  have ok: "primitives_ok p" "serializer_ok sz" "keys_apart p (sn_fleet s)" "sn_fleet s \<le> 2 ^ 16"
    using assms(1) by (simp_all add: signatures_hold_def)
  have "map (sn_frame_for p sz s) [0..<sn_fleet s] ! i = Some (frames ! i)"
    by (rule those_nth) (use assms in \<open>simp_all add: signatures_hold_def scenario_frames_def\<close>)
  then have "sn_frame_for p sz s i = Some (frames ! i)" using assms(2) by simp
  then obtain plain where
    enc: "encode_compact sz (compact_sign p (compact_new p 1 1 0 (content_hash scenario_subject) (started_at scenario_subject)
        (sim_author i) 3 1 (of_nat i)) (from_seed (sim_seed (sn_signer s i))) (content_hash scenario_subject)) = Inr plain"
    and seal: "seal_frame p sim_group_key (sim_author i) (of_nat i) plain = Inr (frames ! i)"
    using signer_in_fleet [OF assms(2)] by (auto simp: sn_frame_for_def Let_def split: sum.splits)
  have "open_frame p sim_group_key (frames ! i) = Inr (sim_author i, of_nat i, plain)"
    using seal open_frame_seal [OF ok(1)] by simp
  moreover have "decode_compact sz plain = Inr (compact_sign p (compact_new p 1 1 0 (content_hash scenario_subject)
      (started_at scenario_subject) (sim_author i) 3 1 (of_nat i)) (from_seed (sim_seed (sn_signer s i))) (content_hash scenario_subject))"
    using enc ok(2) by (auto simp: encode_compact_def decode_compact_def serializer_ok_def split: option.splits)
  moreover have "ed_verify_strict p (ed_public p (sim_seed i)) m (ed_sign p (sim_seed (sn_signer s i)) m) \<longleftrightarrow> sn_signer s i = i" for m
    using ok(1,3) signer_in_fleet [OF assms(2)] assms(2)
    by (cases "sn_signer s i = i") (simp add: primitives_ok_def, metis keys_apart_def)
  moreover have "i < 2 ^ 16" using assms(2) ok(4) by simp
  ultimately show ?thesis
    using assms(2)
    by (auto simp: sn_accept_def Let_def compact_sign_def compact_new_def unat_author_of
        compact_verify_def vk_verify_def sk_sign_def verifying_key_def from_seed_def reject_def)
qed

definition run_ok ::
  "primitives \<Rightarrow> SignedCompactEnvelope serializer \<Rightarrow> Scenario \<Rightarrow> bytes list \<Rightarrow> (nat \<times> Transmission) list \<Rightarrow> Run \<Rightarrow> bool" where
  "run_ok p sz s frames aired r =
     (books s aired r \<and> placed s aired r \<and> (signatures_hold p sz s frames \<longrightarrow> support_genuine s r))"

lemma accept_genuine:
  assumes "signatures_hold p sz s frames" and "support_genuine s r" and "audible s i"
    and "sn_accept p sz (sn_manifest p s) frames i r = (o', r')"
  shows "support_genuine s r'"
  using assms sn_accept_frame [OF assms(1), of i r]
  by (auto simp: support_genuine_def audible_def reject_def split: if_splits)

lemma genuine_cong: "rn_verified r' = rn_verified r \<Longrightarrow> support_genuine s r' \<longleftrightarrow> support_genuine s r"
  by (simp add: support_genuine_def)

lemma schedule_one_ok:
  assumes "run_ok p sz s frames (rn_on_air r) r" and "i \<noteq> OBSERVER" and "sn_silent s \<le> i" and "i < sn_fleet s"
  shows "run_ok p sz s frames (rn_on_air (schedule_one lm s frames n window r i)) (schedule_one lm s frames n window r i)"
proof -
  let ?air = "airtime_ms (length (frames ! i))"
  obtain ok r1 where c: "tally_charge i ?air n r = (ok, r1)" by fastforce
  have b: "books s (rn_on_air r) r" and pl: "placed s (rn_on_air r) r"
    and g: "signatures_hold p sz s frames \<Longrightarrow> support_genuine s r"
    using assms(1) by (simp_all add: run_ok_def)
  note ch = charge_books [OF b assms(4) c]
  show ?thesis
  proof (cases ok)
    case False
    have "rn_on_air r1 = rn_on_air r" "rn_retry r1 = rn_retry r" "rn_verified r1 = rn_verified r"
      using c False by (auto simp: run_moves split: if_splits)
    with ch False pl g c show ?thesis
      by (simp add: schedule_one_def run_ok_def placed_def support_genuine_def)
  next
    case True
    obtain start r2 where st: "sn_start_for s i ?air window r1 = (start, r2)" by fastforce
    obtain gen where r2: "r2 = r1\<lparr>rn_rng := gen\<rparr>" using sn_start_keeps [OF st] ..
    have legal: "duty_cycle_ok (rn_used r ! i) ?air" and r1: "r1 = r\<lparr>rn_used := (rn_used r)[i := rn_used r ! i + ?air],
        rn_frames_sent := rn_frames_sent r + 1, rn_airtime_ms := rn_airtime_ms r + ?air\<rparr>"
      using ch True by simp_all
    show ?thesis
    proof (cases "topology_reaches (sn_topology s) i OBSERVER (sn_fleet s)")
      case True
      obtain level fading where lv: "rssi_at_observer lm (sn_spacing_m s) i (rn_fading r2) = (level, fading)" by fastforce
      let ?t = "\<lparr>tx_start_ms = start, tx_airtime_ms = ?air, tx_rssi_dbm = level\<rparr>"
      have run: "schedule_one lm s frames n window r i = r2\<lparr>rn_fading := fading, rn_on_air := rn_on_air r2 @ [(i, ?t)]\<rparr>"
        using c \<open>ok\<close> st lv True by (simp add: schedule_one_def Let_def)
      have "books s (rn_on_air r @ [(i, ?t)]) (schedule_one lm s frames n window r i)"
        by (rule put_books [where t = ?t, OF b assms(4) legal]) (use assms(2) in \<open>simp_all add: run r2 r1\<close>)
      with pl g assms(3,4) True show ?thesis
        by (auto simp: run_ok_def run r2 r1 placed_def audible_def support_genuine_def)
    next
      case False
      have run: "schedule_one lm s frames n window r i = sn_retry i (tally_record n i start ?air Silent Unreachable r2)"
        using c \<open>ok\<close> st False by (simp add: schedule_one_def Let_def)
      have "books s (rn_on_air r) (schedule_one lm s frames n window r i)"
        by (rule put_books [OF b assms(4) legal]) (simp_all add: run r2 r1 run_moves)
      with pl g assms(2-4) show ?thesis
        by (auto simp: run_ok_def run r2 r1 placed_def support_genuine_def run_moves)
    qed
  qed
qed

lemma schedule_all_ok:
  "run_ok p sz s frames (rn_on_air r) r \<Longrightarrow> \<forall>i \<in> set is. i \<noteq> OBSERVER \<and> sn_silent s \<le> i \<and> i < sn_fleet s
    \<Longrightarrow> run_ok p sz s frames (rn_on_air (foldl (schedule_one lm s frames n window) r is)) (foldl (schedule_one lm s frames n window) r is)"
  by (induction "is" arbitrary: r) (auto intro: schedule_one_ok)

text \<open>What the channel and the observer make of one transmission.\<close>

definition fate_of ::
  "primitives \<Rightarrow> SignedCompactEnvelope serializer \<Rightarrow> Scenario \<Rightarrow> VerifyingKey list \<Rightarrow> bytes list
    \<Rightarrow> (nat \<times> Transmission) list \<Rightarrow> nat \<Rightarrow> Run \<Rightarrow> Outcome \<times> Run" where
  "fate_of p sz s m frames aired index r =
     (case aired ! index of (sender, t) \<Rightarrow>
        case medium_receive t (without index (map snd aired)) of
          TooWeak \<Rightarrow> (OutTooWeak, sn_retry sender (r\<lparr>rn_too_weak := rn_too_weak r + 1\<rparr>))
        | Decoded \<Rightarrow>
            (case next_f64 (rn_rng r) of (draw, g) \<Rightarrow>
               (let r = r\<lparr>rn_rng := g\<rparr>
                in if draw < sn_loss s then (LostToResidualNoise, sn_retry sender r)
                   else case sn_accept p sz m frames sender r of (vd, r) \<Rightarrow>
                     (vd, if sn_acknowledgement s = AckNone then sn_retry sender r else r)))
        | _ \<Rightarrow> (Collided, sn_retry sender (r\<lparr>rn_collided := rn_collided r + 1\<rparr>)))"

lemma deliver_one_fate:
  "deliver_one p sz s m frames n aired r index =
     (case aired ! index of (sender, t) \<Rightarrow>
        if sender = OBSERVER then r
        else case fate_of p sz s m frames aired index r of (outcome, r) \<Rightarrow>
          tally_record n sender (tx_start_ms t) (tx_airtime_ms t) (tx_rssi_dbm t) outcome r)"
  by (simp add: deliver_one_def fate_of_def Let_def split: prod.split)

lemma fate_does:
  assumes "fate_of p sz s m frames aired index r = (o', r')" and "aired ! index = (i, t)"
  shows "o' \<noteq> DutyCycleBlocked \<and> rn_timeline r' = rn_timeline r \<and> rn_used r' = rn_used r
    \<and> rn_frames_sent r' = rn_frames_sent r \<and> rn_airtime_ms r' = rn_airtime_ms r \<and> rn_on_air r' = rn_on_air r
    \<and> rn_duty_cycle_blocked r' = rn_duty_cycle_blocked r
    \<and> rn_collided r' = rn_collided r + (if o' = Collided then 1 else 0)
    \<and> rn_too_weak r' = rn_too_weak r + (if o' = OutTooWeak then 1 else 0)
    \<and> rn_rejected r' = rn_rejected r + (if o' = Rejected then 1 else 0)
    \<and> set (rn_retry r') \<subseteq> insert i (set (rn_retry r))
    \<and> (rn_verified r' = rn_verified r \<or> (\<exists>g r1 o1. sn_accept p sz m frames i (r\<lparr>rn_rng := g\<rparr>) = (o1, r1) \<and> rn_verified r' = rn_verified r1))"
proof -
  have acc: "(o1 = Rejected \<or> o1 = OutDecoded) \<and> rn_timeline r1 = rn_timeline r \<and> rn_used r1 = rn_used r
    \<and> rn_frames_sent r1 = rn_frames_sent r \<and> rn_airtime_ms r1 = rn_airtime_ms r \<and> rn_on_air r1 = rn_on_air r
    \<and> rn_duty_cycle_blocked r1 = rn_duty_cycle_blocked r \<and> rn_collided r1 = rn_collided r \<and> rn_too_weak r1 = rn_too_weak r
    \<and> rn_rejected r1 = rn_rejected r + (if o1 = Rejected then 1 else 0) \<and> rn_retry r1 = rn_retry r"
    if "sn_accept p sz m frames i (r\<lparr>rn_rng := g\<rparr>) = (o1, r1)" for o1 r1 g
    using sn_accept_does [OF that] by auto
  obtain draw gen where draw: "next_f64 (rn_rng r) = (draw, gen)" by fastforce
  show ?thesis
  proof (cases "medium_receive t (without index (map snd aired)) = Decoded \<and> \<not> draw < sn_loss s")
    case True
    obtain o1 r1 where sa: "sn_accept p sz m frames i (r\<lparr>rn_rng := gen\<rparr>) = (o1, r1)" by fastforce
    have "o' = o1 \<and> r' = (if sn_acknowledgement s = AckNone then sn_retry i r1 else r1)"
      using assms True draw sa by (simp add: fate_of_def Let_def)
    moreover have "\<exists>g r2 o2. sn_accept p sz m frames i (r\<lparr>rn_rng := g\<rparr>) = (o2, r2) \<and> rn_verified r1 = rn_verified r2"
      using sa by blast
    ultimately show ?thesis using acc [OF sa] by (auto simp: sn_retry_def)
  next
    case False
    then show ?thesis
      using assms draw by (auto simp: fate_of_def Let_def sn_retry_def split: Reception.splits)
  qed
qed

lemma deliver_one_ok:
  assumes "run_ok p sz s frames (drop n aired) r" and "n < length aired"
  shows "run_ok p sz s frames (drop (Suc n) aired) (deliver_one p sz s (sn_manifest p s) frames k aired r n)"
proof -
  obtain i t where it: "aired ! n = (i, t)" by fastforce
  have dr: "drop n aired = (i, t) # drop (Suc n) aired" using assms(2) it by (metis Cons_nth_drop_Suc)
  have b: "books s ((i, t) # drop (Suc n) aired) r" and pl: "placed s ((i, t) # drop (Suc n) aired) r"
    and g: "signatures_hold p sz s frames \<Longrightarrow> support_genuine s r"
    using assms(1) unfolding dr by (simp_all add: run_ok_def)
  show ?thesis
  proof (cases "i = OBSERVER")
    case True
    then show ?thesis using b pl g by (simp add: deliver_one_fate it run_ok_def books_def placed_def)
  next
    case False
    obtain o' r1 where f: "fate_of p sz s (sn_manifest p s) frames aired n r = (o', r1)" by fastforce
    note does = fate_does [OF f it]
    let ?r' = "deliver_one p sz s (sn_manifest p s) frames k aired r n"
    have run: "?r' = tally_record k i (tx_start_ms t) (tx_airtime_ms t) (tx_rssi_dbm t) o' r1"
      using False by (simp add: deliver_one_fate it f)
    have "books s (drop (Suc n) aired) ?r'"
      by (rule settle_books [where e = "\<lparr>te_round = k, te_sender = i, te_start_ms = tx_start_ms t, te_airtime_ms = tx_airtime_ms t,
            te_rssi_dbm = tx_rssi_dbm t, te_outcome = o'\<rparr>", OF b False]) (use does in \<open>simp_all add: run tally_record_def\<close>)
    moreover have "audible s i" using pl by (simp add: placed_def)
    moreover have "support_genuine s ?r'" if h: "signatures_hold p sz s frames"
    proof -
      consider "rn_verified r1 = rn_verified r"
        | gen r2 o1 where "sn_accept p sz (sn_manifest p s) frames i (r\<lparr>rn_rng := gen\<rparr>) = (o1, r2)" "rn_verified r1 = rn_verified r2"
        using does by blast
      then show ?thesis
      proof cases
        case 1
        then show ?thesis using g [OF h] by (simp add: run support_genuine_def tally_record_def)
      next
        case (2 gen r2 o1)
        have "support_genuine s (r\<lparr>rn_rng := gen\<rparr>)" using g [OF h] by (simp add: support_genuine_def)
        from accept_genuine [OF h this \<open>audible s i\<close> 2(1)] show ?thesis
          using 2(2) by (simp add: run support_genuine_def tally_record_def)
      qed
    qed
    ultimately show ?thesis
      using pl does False by (auto simp: run_ok_def placed_def audible_def run tally_record_def)
  qed
qed

lemma deliver_all_ok:
  assumes "run_ok p sz s frames aired r" and "n \<le> length aired"
  shows "run_ok p sz s frames (drop n aired) (foldl (deliver_one p sz s (sn_manifest p s) frames k aired) r [0..<n])"
  using assms(2) by (induction n) (use assms(1) deliver_one_ok in auto)

lemma deliver_keeps_air:
  "rn_on_air (foldl (deliver_one p sz s m frames k aired) r is) = rn_on_air r"
proof (induction "is" arbitrary: r)
  case (Cons n "is")
  obtain i t where it: "aired ! n = (i, t)" by fastforce
  obtain o' r1 where f: "fate_of p sz s m frames aired n r = (o', r1)" by fastforce
  have "rn_on_air (deliver_one p sz s m frames k aired r n) = rn_on_air r"
    using fate_does [OF f it] by (simp add: deliver_one_fate it f tally_record_def)
  then show ?case using Cons by simp
qed simp

lemma observer_answers_ok:
  assumes "run_ok p sz s frames [] r" and "rn_on_air r = []" and "1 \<le> sn_fleet s"
  shows "run_ok p sz s frames (rn_on_air (observer_answers p sz s (sn_manifest p s) frames window r))
    (observer_answers p sz s (sn_manifest p s) frames window r)"
proof (cases "sn_silent s = 0")
  case False
  then show ?thesis using assms by (simp add: observer_answers_def)
next
  case quiet: True
  let ?air = "airtime_ms (length (frames ! OBSERVER))" and ?r' = "observer_answers p sz s (sn_manifest p s) frames window r"
  have i: "OBSERVER < sn_fleet s" "audible s OBSERVER" using assms(3) quiet by (simp_all add: OBSERVER_def audible_def)
  obtain ok r1 where c: "tally_charge OBSERVER ?air 0 r = (ok, r1)" by fastforce
  have b: "books s [] r" and pl: "placed s [] r" and g: "signatures_hold p sz s frames \<Longrightarrow> support_genuine s r"
    using assms(1) by (simp_all add: run_ok_def)
  note ch = charge_books [OF b i(1) c]
  show ?thesis
  proof (cases ok)
    case False
    obtain o1 r2 where acc: "sn_accept p sz (sn_manifest p s) frames OBSERVER r1 = (o1, r2)" by fastforce
    have run: "?r' = r2" using c acc False quiet by (simp add: observer_answers_def Let_def)
    have same: "rn_on_air r1 = []" "rn_retry r1 = rn_retry r" "rn_verified r1 = rn_verified r"
      using c False assms(2) by (auto simp: run_moves split: if_splits)
    have "support_genuine s r2" if "signatures_hold p sz s frames"
      by (rule accept_genuine [OF that _ i(2) acc]) (use g [OF that] same in \<open>simp add: support_genuine_def\<close>)
    moreover have "rn_on_air r2 = [] \<and> rn_retry r2 = rn_retry r \<and> books s [] r2"
      using sn_accept_does [OF acc] same ch False by (auto simp: books_def used_right_def)
    ultimately show ?thesis using pl by (simp add: run_ok_def run placed_def)
  next
    case True
    obtain start r2 where st: "sn_start_for s OBSERVER ?air window r1 = (start, r2)" by fastforce
    obtain gen where r2: "r2 = r1\<lparr>rn_rng := gen\<rparr>" using sn_start_keeps [OF st] ..
    have legal: "duty_cycle_ok (rn_used r ! OBSERVER) ?air" and r1: "r1 = r\<lparr>rn_used := (rn_used r)[OBSERVER := rn_used r ! OBSERVER + ?air],
        rn_frames_sent := rn_frames_sent r + 1, rn_airtime_ms := rn_airtime_ms r + ?air\<rparr>"
      using ch True by simp_all
    let ?r3 = "r2\<lparr>rn_on_air := rn_on_air r2 @ [(OBSERVER, own_transmission start ?air)]\<rparr>"
    obtain o1 r4 where acc: "sn_accept p sz (sn_manifest p s) frames OBSERVER ?r3 = (o1, r4)" by fastforce
    have run: "?r' = tally_record 0 OBSERVER start ?air Loudest (if o1 = Rejected then Rejected else OwnTransmission) r4"
      using c acc st True quiet by (simp add: observer_answers_def Let_def)
    have "support_genuine s r4" if "signatures_hold p sz s frames"
      by (rule accept_genuine [OF that _ i(2) acc]) (use g [OF that] in \<open>simp add: support_genuine_def r2 r1\<close>)
    moreover have r4: "rn_on_air r4 = [(OBSERVER, own_transmission start ?air)] \<and> rn_retry r4 = rn_retry r"
      using sn_accept_does [OF acc] assms(2) by (auto simp: r2 r1)
    moreover have "books s [(OBSERVER, own_transmission start ?air)] ?r'"
      by (rule put_books [OF b i(1) legal]) (use sn_accept_does [OF acc] in \<open>auto simp: run tally_record_def r2 r1\<close>)
    ultimately show ?thesis using pl i(2) by (auto simp: run_ok_def run placed_def tally_record_def support_genuine_def)
  qed
qed

section \<open>A whole run\<close>

definition will_key_up :: "Scenario \<Rightarrow> nat \<Rightarrow> bool" where
  "will_key_up s i = (i \<noteq> OBSERVER \<and> sn_silent s \<le> i \<and> i < sn_fleet s)"

definition between :: "primitives \<Rightarrow> SignedCompactEnvelope serializer \<Rightarrow> Scenario \<Rightarrow> bytes list \<Rightarrow> Run \<Rightarrow> bool" where
  "between p sz s frames r = (run_ok p sz s frames [] r \<and> rn_on_air r = [])"

lemma run_ok_cong:
  assumes "rn_frames_sent r' = rn_frames_sent r" and "rn_timeline r' = rn_timeline r" and "rn_airtime_ms r' = rn_airtime_ms r"
    and "rn_collided r' = rn_collided r" and "rn_too_weak r' = rn_too_weak r"
    and "rn_duty_cycle_blocked r' = rn_duty_cycle_blocked r" and "rn_rejected r' = rn_rejected r"
    and "rn_used r' = rn_used r" and "rn_verified r' = rn_verified r" and "set (rn_retry r') \<subseteq> set (rn_retry r)"
    and "run_ok p sz s frames aired r"
  shows "run_ok p sz s frames aired r'"
  using assms by (auto simp: run_ok_def books_def placed_def support_genuine_def)

lemma scenario_round_ok:
  assumes "between p sz s frames r" and "\<forall>i \<in> set pending. will_key_up s i" and "1 \<le> sn_fleet s"
  shows "between p sz s frames (scenario_round lm p sz s (sn_manifest p s) frames n r pending)"
proof -
  let ?w = "sn_window_for s frames n"
  define r1 where "r1 = r\<lparr>rn_retry := []\<rparr>"
  define r2 where "r2 = (if n = 0 then observer_answers p sz s (sn_manifest p s) frames ?w r1 else r1)"
  define r3 where "r3 = foldl (schedule_one lm s frames n ?w) r2 pending"
  define r4 where "r4 = foldl (deliver_one p sz s (sn_manifest p s) frames n (rn_on_air r3)) (r3\<lparr>rn_on_air := []\<rparr>) [0..<length (rn_on_air r3)]"
  have one: "run_ok p sz s frames [] r1" "rn_on_air r1 = []"
    using assms(1) run_ok_cong [of r1 r] by (simp_all add: between_def r1_def)
  have two: "run_ok p sz s frames (rn_on_air r2) r2"
    using observer_answers_ok [OF one assms(3)] one by (simp add: r2_def)
  have three: "run_ok p sz s frames (rn_on_air r3) r3"
    unfolding r3_def by (rule schedule_all_ok [OF two]) (use assms(2) in \<open>simp add: will_key_up_def\<close>)
  have "run_ok p sz s frames (rn_on_air r3) (r3\<lparr>rn_on_air := []\<rparr>)"
    by (rule run_ok_cong [OF _ _ _ _ _ _ _ _ _ _ three]) simp_all
  from deliver_all_ok [OF this order_refl] have four: "run_ok p sz s frames [] r4" by (simp add: r4_def)
  have air: "rn_on_air r4 = []" by (simp add: r4_def deliver_keeps_air)
  have run: "scenario_round lm p sz s (sn_manifest p s) frames n r pending
      = r4\<lparr>rn_elapsed_ms := round_end (rn_elapsed_ms r4) ?w (map snd (rn_on_air r3))\<rparr>"
    by (simp add: scenario_round_def Let_def r1_def r2_def r3_def r4_def)
  show ?thesis
    unfolding between_def run using air by (simp add: run_ok_cong [OF _ _ _ _ _ _ _ _ _ _ four])
qed

lemma scenario_rounds_ok:
  "between p sz s frames r \<Longrightarrow> \<forall>i \<in> set pending. will_key_up s i \<Longrightarrow> 1 \<le> sn_fleet s
    \<Longrightarrow> between p sz s frames (scenario_rounds lm p sz s (sn_manifest p s) frames ns pending r)"
proof (induction ns arbitrary: pending r)
  case (Cons n ns)
  let ?r = "scenario_round lm p sz s (sn_manifest p s) frames n r pending"
  note ok = scenario_round_ok [OF Cons.prems, of lm n]
  have "\<forall>i \<in> set (rn_retry ?r). will_key_up s i"
    using ok by (simp add: between_def run_ok_def placed_def will_key_up_def)
  then show ?case using Cons.IH [OF ok] Cons.prems by (simp add: Let_def)
qed simp

lemma finish_ok:
  assumes "1 \<le> sn_fleet s"
  shows "between p sz s frames (scenario_finish lm p sz s frames)"
proof -
  have "between p sz s frames (run_new lm s)"
    by (simp add: between_def run_ok_def books_def placed_def support_genuine_def run_new_def used_right_def)
  then show ?thesis
    unfolding scenario_finish_def
    by (rule scenario_rounds_ok) (use assms in \<open>auto simp: will_key_up_def\<close>)
qed

text \<open>
  (C30) The record accounts for the whole run: every frame counted as sent has one entry that
  went on the air and every refusal to key up has another, the collisions, the weak
  frames and the airtime are those of the entries, and no member's entries pass its
  hourly airtime, counting what it had used before.
\<close>

theorem scenario_accounts:
  assumes "1 \<le> sn_fleet s" and "scenario_run lm p sz s = Some (rep, r)"
  shows "sp_frames_sent rep = entries_on_air (sp_timeline rep)
    \<and> length (sp_timeline rep) = sp_frames_sent rep + sp_duty_cycle_blocked rep
    \<and> sp_collided_frames rep = seen Collided (sp_timeline rep) \<and> sp_too_weak_frames rep = seen OutTooWeak (sp_timeline rep)
    \<and> sp_airtime_ms rep = sum_list (map te_airtime_ms (sp_timeline rep))
    \<and> (\<forall>i < sn_fleet s. unat (sn_prior_airtime_ms s) + spent i (sp_timeline rep) \<le> max (unat (sn_prior_airtime_ms s)) 36000)"
proof -
  obtain frames where frames: "r = scenario_finish lm p sz s frames"
    and rep: "sp_timeline rep = rn_timeline r" "sp_frames_sent rep = rn_frames_sent r" "sp_collided_frames rep = rn_collided r"
      "sp_too_weak_frames rep = rn_too_weak r" "sp_duty_cycle_blocked rep = rn_duty_cycle_blocked r" "sp_airtime_ms rep = rn_airtime_ms r"
    using assms(2) by (auto simp: scenario_run_def Let_def split: sum.splits option.splits)
  have books: "books s [] r"
    using finish_ok [OF assms(1)] by (simp add: frames between_def run_ok_def)
  have "unat (sn_prior_airtime_ms s) + spent i (rn_timeline r) \<le> max (unat (sn_prior_airtime_ms s)) 36000" if "i < sn_fleet s" for i
    using books that by (auto simp: books_def used_right_def)
  moreover have "length es = entries_on_air es + seen DutyCycleBlocked es" for es
    by (induction es rule: rev_induct) auto
  ultimately show ?thesis using books by (auto simp: books_def rep)
qed

lemma scenario_returns:
  assumes "1 \<le> sn_fleet s" and "sn_fleet s < 2 ^ 32" and "scenario_frames p sz s = Some frames" and "signatures_hold p sz s frames"
  obtains rep r S where "scenario_run lm p sz s = Some (rep, r)" and "S \<subseteq> {i. audible s i \<and> sn_signer s i = i}"
    and "sp_binding_supporters rep = card S" and "sp_endorsed rep \<Longrightarrow> sp_min_signers rep \<le> card S \<and> sn_fleet s < 2 * card S"
    and "S = {..<sn_fleet s} \<Longrightarrow> sp_endorsed rep" and "set (rn_verified r) = sim_member ` S"
    and "r = scenario_finish lm p sz s frames"
proof -
  define r where "r = scenario_finish lm p sz s frames"
  define S where "S = {i. sim_member i \<in> set (rn_verified r)}"
  have "support_genuine s r" using finish_ok [OF assms(1)] assms(4) by (simp add: r_def between_def run_ok_def)
  then have S: "S \<subseteq> {i. audible s i \<and> sn_signer s i = i}" "set (rn_verified r) = sim_member ` S" "distinct (rn_verified r)"
    by (auto simp: support_genuine_def S_def)
  then have card: "length (rn_verified r) = card S"
    by (simp add: distinct_card [symmetric] card_image inj_on_def)
  obtain pol where pol: "sim_policy (sn_fleet s) = Inr pol" "sn_fleet s < 2 * min_signers pol"
    and ev: "\<And>ss. set ss \<subseteq> sim_member ` {..<sn_fleet s} \<Longrightarrow> \<exists>r. evaluate pol ss = Inr r
        \<and> (approved r \<longrightarrow> min_signers pol \<le> card (set ss)) \<and> (set ss = sim_member ` {..<sn_fleet s} \<longrightarrow> approved r)"
    by (rule sim_policy_ok [OF assms(1,2)]) (rule that)
  have "set (rn_verified r) \<subseteq> sim_member ` {..<sn_fleet s}"
    unfolding S(2) using S(1) by (auto simp: audible_def)
  from ev [OF this] obtain res where res: "evaluate pol (rn_verified r) = Inr res" "approved res \<longrightarrow> min_signers pol \<le> card S"
    "set (rn_verified r) = sim_member ` {..<sn_fleet s} \<longrightarrow> approved res"
    using S(3) card by (auto simp: distinct_card)
  show thesis
    by (rule that [of "fst (the (scenario_run lm p sz s))" r S])
      (use S card pol res in \<open>auto simp: scenario_run_def r_def [symmetric] assms(3) Let_def\<close>)
qed

text \<open>
  Every scenario returns, and what it counts as binding support is that of distinct
  members, each in the fleet, not silent, in reach of the observer and signing with its
  own key. An endorsement needs more than half of the fleet among them.
\<close>

theorem scenario_support_genuine:
  assumes "1 \<le> sn_fleet s" and "sn_fleet s \<le> 2 ^ 16" and "primitives_ok p" and "serializer_ok sz"
    and "keys_apart p (sn_fleet s)" and "scenario_frames p sz s \<noteq> None"
  shows "\<exists>rep r S. scenario_run lm p sz s = Some (rep, r) \<and> sp_binding_supporters rep = card S
    \<and> S \<subseteq> {i. i < sn_fleet s \<and> sn_silent s \<le> i \<and> sn_signer s i = i
         \<and> (i = OBSERVER \<or> topology_reaches (sn_topology s) i OBSERVER (sn_fleet s))}
    \<and> (sp_endorsed rep \<longrightarrow> sp_min_signers rep \<le> card S \<and> sn_fleet s < 2 * card S)"
proof -
  obtain frames where f: "scenario_frames p sz s = Some frames" using assms(6) by blast
  have hold: "signatures_hold p sz s frames" using assms f by (simp add: signatures_hold_def)
  have small: "sn_fleet s < 2 ^ 32" using assms(2) by simp
  show ?thesis
  proof (rule scenario_returns [OF assms(1) small f hold, of lm])
    fix rep r S
    assume run: "scenario_run lm p sz s = Some (rep, r)" "sp_binding_supporters rep = card S"
        "sp_endorsed rep \<Longrightarrow> sp_min_signers rep \<le> card S \<and> sn_fleet s < 2 * card S"
      and S: "S \<subseteq> {i. audible s i \<and> sn_signer s i = i}"
    from S have "S \<subseteq> {i. i < sn_fleet s \<and> sn_silent s \<le> i \<and> sn_signer s i = i
         \<and> (i = OBSERVER \<or> topology_reaches (sn_topology s) i OBSERVER (sn_fleet s))}"
      by (auto simp: audible_def)
    with run show ?thesis by blast
  qed
qed

lemma those_map_all: "(\<And>x. x \<in> set xs \<Longrightarrow> f x \<noteq> None) \<Longrightarrow> those (map f xs) \<noteq> None"
proof (induction xs)
  case (Cons x xs)
  have "f x \<noteq> None" "those (map f xs) \<noteq> None" using Cons by simp_all
  then show ?case by auto
qed simp

lemma sample_scenario_frames: "scenario_frames sample_primitives sample_fixed s \<noteq> None"
proof -
  have "sn_frame_for sample_primitives sample_fixed s i \<noteq> None" for i
  proof -
    obtain plain where plain: "encode_compact sample_fixed (compact_sign sample_primitives
        (compact_new sample_primitives 1 1 0 (content_hash scenario_subject) (started_at scenario_subject) (sim_author i) 3 1 (of_nat i))
        (sim_keys (sn_fleet s) ! sn_signer s i) (content_hash scenario_subject)) = Inr plain"
      using sample_encoded by blast
    then show ?thesis
      using sample_sealed [of "sim_author i" "of_nat i" plain] by (auto simp: sn_frame_for_def Let_def)
  qed
  then show ?thesis unfolding scenario_frames_def by (intro those_map_all) blast
qed

definition sample_four :: Scenario where
  "sample_four = sn_with_forgers 1 (sn_with_silent 1 (scenario_new 4))"

lemma sample_four_simps:
  "sn_fleet sample_four = 4" "sn_silent sample_four = 1" "sn_forgers sample_four = 1" "sn_prior_airtime_ms sample_four = 0"
  by (simp_all add: sample_four_def sn_with_forgers_def sn_with_silent_def scenario_new_def)

theorem scenario_support_genuine_witness:
  "\<forall>lm. \<exists>rep r S. scenario_run lm sample_primitives sample_fixed sample_four = Some (rep, r)
     \<and> sp_binding_supporters rep = card S \<and> S \<subseteq> {2, 3 :: nat} \<and> \<not> sp_endorsed rep"
proof
  fix lm
  let ?s = sample_four
  note f = sample_four_simps
  have "keys_apart sample_primitives (sn_fleet ?s)" by (simp add: sample_keys_apart f)
  then obtain rep r S where run: "scenario_run lm sample_primitives sample_fixed ?s = Some (rep, r)"
    "sp_binding_supporters rep = card S" "sp_endorsed rep \<longrightarrow> sp_min_signers rep \<le> card S \<and> sn_fleet ?s < 2 * card S"
    and S: "S \<subseteq> {i. i < sn_fleet ?s \<and> sn_silent ?s \<le> i \<and> sn_signer ?s i = i
         \<and> (i = OBSERVER \<or> topology_reaches (sn_topology ?s) i OBSERVER (sn_fleet ?s))}"
    using scenario_support_genuine [of ?s sample_primitives sample_fixed lm] f
      sample_primitives_ok sample_fixed_ok sample_scenario_frames by auto
  have counted: "i = 2 \<or> i = 3" if "i < 4" "1 \<le> i" "sn_signer ?s i = i" for i
  proof -
    have "i = 1 \<or> i = 2 \<or> i = 3" using that(1,2) by auto
    moreover have "sn_signer ?s 1 = 2" by (simp add: sn_signer_def sn_is_forger_def f)
    ultimately show ?thesis using that(3) by auto
  qed
  have sub: "S \<subseteq> {2, 3}" using S counted unfolding f by blast
  then have "card S \<le> card {2, 3 :: nat}" by (intro card_mono) simp_all
  then have "\<not> sp_endorsed rep" using run(3) f by auto
  with run sub show "\<exists>rep r S. scenario_run lm sample_primitives sample_fixed ?s = Some (rep, r)
     \<and> sp_binding_supporters rep = card S \<and> S \<subseteq> {2, 3 :: nat} \<and> \<not> sp_endorsed rep" by blast
qed

theorem scenario_accounts_witness:
  "\<forall>lm. \<exists>rep r. scenario_run lm sample_primitives sample_fixed sample_four = Some (rep, r)
     \<and> length (sp_timeline rep) = sp_frames_sent rep + sp_duty_cycle_blocked rep \<and> spent 3 (sp_timeline rep) \<le> 36000"
proof
  fix lm
  note f = sample_four_simps
  obtain frames where fr: "scenario_frames sample_primitives sample_fixed sample_four = Some frames"
    using sample_scenario_frames by blast
  have one: "1 \<le> sn_fleet sample_four" and small: "sn_fleet sample_four < 2 ^ 32" by (simp_all add: f)
  have hold: "signatures_hold sample_primitives sample_fixed sample_four frames"
    using sample_primitives_ok sample_fixed_ok fr by (simp add: signatures_hold_def sample_keys_apart f)
  obtain rep r where run: "scenario_run lm sample_primitives sample_fixed sample_four = Some (rep, r)"
    by (rule scenario_returns [OF one small fr hold]) (rule that)
  have "3 < sn_fleet sample_four" by (simp add: f)
  with scenario_accounts [OF one run] run f show "\<exists>rep r. scenario_run lm sample_primitives sample_fixed sample_four = Some (rep, r)
     \<and> length (sp_timeline rep) = sp_frames_sent rep + sp_duty_cycle_blocked rep \<and> spent 3 (sp_timeline rep) \<le> 36000"
    by fastforce
qed

lemma no_one_pending: "scenario_rounds lm p sz s m frames ns [] r = r"
  by (cases ns) simp_all

text \<open>
  The observer answers inside the first round, and with nobody else to wait for there is
  no round: a fleet of one is never endorsed here, although its one vote is enough.
\<close>

lemma lone_member_not_heard:
  assumes "scenario_run lm p sz (scenario_new 1) = Some (rep, r)"
  shows "\<not> sp_endorsed rep \<and> sp_frames_sent rep = 0 \<and> sp_min_signers rep = 1"
proof -
  have f: "sn_fleet (scenario_new 1) = 1" "sn_silent (scenario_new 1) = 0" by (simp_all add: scenario_new_def)
  obtain pol where pol: "sim_policy 1 = Inr pol" "1 < 2 * min_signers pol" "min_signers pol \<le> 1"
    and ev: "\<And>ss. set ss \<subseteq> sim_member ` {..<1} \<Longrightarrow> \<exists>r. evaluate pol ss = Inr r \<and> (approved r \<longrightarrow> min_signers pol \<le> card (set ss))"
    by (rule sim_policy_ok [of 1]) (simp_all, blast)
  obtain res where "evaluate pol [] = Inr res" "approved res \<longrightarrow> min_signers pol \<le> 0" using ev [of "[]"] by auto
  then show ?thesis
    using assms pol unfolding scenario_run_def scenario_finish_def f
    by (auto simp: OBSERVER_def run_new_def Let_def no_one_pending split: option.splits)
qed

end
