(* ===== verification/Lcq_Admin.thy ===== *)
theory Lcq_Admin
  imports Lcq_Provision
begin

text \<open>
  The administrator's tool, \<open>src/bin/lcq-manifest.rs\<close>: from a command line and the files of
  a desk to an exit and the desk afterwards. Texts and paths are lists of code points.
  What stops the tool with a message is an error value; a panic is one too, and what it
  writes to standard error is left out. At the end: a manifest signed with a key verifies
  with what the tool prints for that key, exactly in its window; and a key somebody else
  can read is never opened.
\<close>

type_synonym path = "code_point list"

datatype AdminError =
    WantsValue "code_point list"
  | NowNotSeconds "code_point list"
  | NotAnOption "code_point list"
  | Required string
  | FileUnreadable path
  | SecretShared path u32
  | SecretLength path
  | SecretNotHex path
  | CardMistyped path HandError
  | CardNotAKey path
  | TextRefused path ManifestError
  | OutputRefused path
  | StdoutClosed
  | NotACommand "code_point list"
  | Panicked

datatype Exit = Succeeded | Failed AdminError

text \<open>
  The files by path, with their mode and their text, \<open>None\<close> if it cannot be read as text;
  which paths refuse to be written, and the mode a new file gets; the seconds on the
  system's clock; standard output; and, to speak of it, every file that was opened.
\<close>

record Desk =
  dk_files :: "path \<Rightarrow> (u32 \<times> code_point list option) option"
  dk_unwritable :: "path \<Rightarrow> bool"
  dk_new_mode :: u32
  dk_clock :: u64
  dk_out_open :: bool
  dk_out :: "code_point list"
  dk_opened :: "path list"

section \<open>The command line\<close>

record AdminOptions =
  ao_key :: "path option"
  ao_admin_key :: "path option"
  ao_input :: "path option"
  ao_output :: "path option"
  ao_now :: "u64 option"

definition admin_options_default :: AdminOptions where
  "admin_options_default = \<lparr>ao_key = None, ao_admin_key = None, ao_input = None, ao_output = None, ao_now = None\<rparr>"

text \<open>\<open>str::parse::<u64>\<close>, which also takes a leading plus sign.\<close>

definition parse_u64 :: "code_point list \<Rightarrow> u64 option" where
  "parse_u64 raw =
     (let word = as_bytes raw
      in map_option of_nat (parse_unsigned 64 (if word \<noteq> [] \<and> hd word = CHR ''+'' then tl word else word)))"

definition admin_flags :: "string list" where
  "admin_flags = [''--key'', ''--admin-key'', ''--in'', ''--out'', ''--now'']"

definition set_flag :: "code_point list \<Rightarrow> code_point list \<Rightarrow> AdminOptions \<Rightarrow> (AdminError, AdminOptions) result" where
  "set_flag flag val opts =
     (if flag = text_of ''--key'' then Inr (opts\<lparr>ao_key := Some val\<rparr>)
      else if flag = text_of ''--admin-key'' then Inr (opts\<lparr>ao_admin_key := Some val\<rparr>)
      else if flag = text_of ''--in'' then Inr (opts\<lparr>ao_input := Some val\<rparr>)
      else if flag = text_of ''--out'' then Inr (opts\<lparr>ao_output := Some val\<rparr>)
      else if flag = text_of ''--now'' then
        (case parse_u64 val of None \<Rightarrow> Inl (NowNotSeconds val) | Some n \<Rightarrow> Inr (opts\<lparr>ao_now := Some n\<rparr>))
      else Inl (NotAnOption flag))"

fun options_read :: "code_point list list \<Rightarrow> AdminOptions \<Rightarrow> (AdminError, AdminOptions) result" where
  "options_read [] opts = Inr opts"
| "options_read [flag] opts =
     (if flag \<in> set (map text_of admin_flags) then Inl (WantsValue flag) else Inl (NotAnOption flag))"
| "options_read (flag # val # rest) opts =
     (case set_flag flag val opts of Inl e \<Rightarrow> Inl e | Inr opts \<Rightarrow> options_read rest opts)"

definition need :: "path option \<Rightarrow> string \<Rightarrow> (AdminError, path) result" where
  "need given flag = (case given of None \<Rightarrow> Inl (Required flag) | Some path \<Rightarrow> Inr path)"

section \<open>Files\<close>

definition read_text :: "path \<Rightarrow> Desk \<Rightarrow> (AdminError, code_point list) result \<times> Desk" where
  "read_text path d =
     (let d = d\<lparr>dk_opened := dk_opened d @ [path]\<rparr>
      in case dk_files d path of
           Some (_, Some t) \<Rightarrow> (Inr t, d)
         | _ \<Rightarrow> (Inl (FileUnreadable path), d))"

definition write_text :: "path \<Rightarrow> code_point list \<Rightarrow> Desk \<Rightarrow> (AdminError, unit) result \<times> Desk" where
  "write_text path t d =
     (if dk_unwritable d path then (Inl (OutputRefused path), d)
      else let md = (case dk_files d path of Some (md, _) \<Rightarrow> md | None \<Rightarrow> dk_new_mode d)
        in (Inr (), d\<lparr>dk_files := (dk_files d)(path := Some (md, Some t))\<rparr>))"

text \<open>\<open>println!\<close>, which panics when standard output is closed.\<close>

definition print_lines :: "code_point list list \<Rightarrow> Desk \<Rightarrow> Exit \<times> Desk" where
  "print_lines ls d =
     (if dk_out_open d then (Succeeded, d\<lparr>dk_out := dk_out d @ concat (map (\<lambda>l. l @ [10]) ls)\<rparr>) else (Failed Panicked, d))"

definition refuse_if_readable :: "path \<Rightarrow> Desk \<Rightarrow> (AdminError, unit) result" where
  "refuse_if_readable path d =
     (case dk_files d path of
        None \<Rightarrow> Inl (FileUnreadable path)
      | Some (md, _) \<Rightarrow> if md AND 63 \<noteq> 0 then Inl (SecretShared path (md AND 511)) else Inr ())"

text \<open>
  Thirty-two slices of two bytes each. A slice that would end inside a character panics;
  one that is a single character of two bytes is not hexadecimal.
\<close>

fun hex_slices :: "path \<Rightarrow> code_point list \<Rightarrow> (AdminError, bytes) result" where
  "hex_slices path [] = Inr []"
| "hex_slices path (c # rest) =
     (if length (utf8 c) = 2 then Inl (SecretNotHex path)
      else if length (utf8 c) \<noteq> 1 then Inl Panicked
      else case rest of
          [] \<Rightarrow> Inl Panicked
        | e # rest \<Rightarrow>
            if length (utf8 e) \<noteq> 1 then Inl Panicked
            else case radix_pair (char_of c) (char_of e) of
                None \<Rightarrow> Inl (SecretNotHex path)
              | Some b \<Rightarrow> map_sum id ((#) b) (hex_slices path rest))"

definition read_secret :: "path \<Rightarrow> Desk \<Rightarrow> (AdminError, SigningKey) result \<times> Desk" where
  "read_secret path d =
     (case refuse_if_readable path d of
        Inl e \<Rightarrow> (Inl e, d)
      | Inr _ \<Rightarrow>
          (case read_text path d of
             (Inl e, d) \<Rightarrow> (Inl e, d)
           | (Inr t, d) \<Rightarrow>
               (let trimmed = str_trim t
                in (if length (as_bytes trimmed) \<noteq> 64 then Inl (SecretLength path)
                    else map_sum id from_seed (hex_slices path trimmed), d))))"

definition read_public :: "primitives \<Rightarrow> path \<Rightarrow> Desk \<Rightarrow> (AdminError, VerifyingKey) result \<times> Desk" where
  "read_public p path d =
     (case read_text path d of
        (Inl e, d) \<Rightarrow> (Inl e, d)
      | (Inr t, d) \<Rightarrow>
          (case hand_decode (blake2s p) t of
             Inl e \<Rightarrow> (Inl (CardMistyped path e), d)
           | Inr bs \<Rightarrow>
               (case vk_from_bytes p bs of Inl _ \<Rightarrow> (Inl (CardNotAKey path), d) | Inr key \<Rightarrow> (Inr key, d))))"

section \<open>The commands\<close>

definition CARD_NOTE :: "code_point list" where
  "CARD_NOTE = text_of ''# Put this on the card. A vessel's crew types it in once.''"

definition START_NOTE :: "code_point list" where
  "START_NOTE = text_of ''# And this is what the node prints back at every start.''"

definition fingerprint_cmd :: "primitives \<Rightarrow> AdminOptions \<Rightarrow> Desk \<Rightarrow> Exit \<times> Desk" where
  "fingerprint_cmd p opts d =
     (case need (ao_key opts) ''--key'' of
        Inl e \<Rightarrow> (Failed e, d)
      | Inr path \<Rightarrow>
          (case read_secret path d of
             (Inl e, d) \<Rightarrow> (Failed e, d)
           | (Inr key, d) \<Rightarrow>
               (let public = vk_bytes (verifying_key p key)
                in print_lines [CARD_NOTE, hand_encode (blake2s p) public, [], START_NOTE, fingerprint (blake2s p) public] d)))"

definition sign_cmd :: "primitives \<Rightarrow> AdminOptions \<Rightarrow> Desk \<Rightarrow> Exit \<times> Desk" where
  "sign_cmd p opts d =
     (case (need (ao_key opts) ''--key'', need (ao_input opts) ''--in'') of
        (Inl e, _) \<Rightarrow> (Failed e, d)
      | (Inr _, Inl e) \<Rightarrow> (Failed e, d)
      | (Inr key_path, Inr input) \<Rightarrow>
          (case read_secret key_path d of
             (Inl e, d) \<Rightarrow> (Failed e, d)
           | (Inr key, d) \<Rightarrow>
               (case read_text input d of
                  (Inl e, d) \<Rightarrow> (Failed e, d)
                | (Inr t, d) \<Rightarrow>
                    (case sign_text p t key of
                       Inl e \<Rightarrow> (Failed (TextRefused input e), d)
                     | Inr signed_text \<Rightarrow>
                         (case ao_output opts of
                            Some path \<Rightarrow>
                              (case write_text path signed_text d of
                                 (Inl e, d) \<Rightarrow> (Failed e, d)
                               | (Inr _, d) \<Rightarrow> (Succeeded, d))
                          | None \<Rightarrow>
                              if dk_out_open d then (Succeeded, d\<lparr>dk_out := dk_out d @ signed_text\<rparr>)
                              else (Failed StdoutClosed, d))))))"

definition manifest_lines :: "primitives \<Rightarrow> Manifest \<Rightarrow> VerifyingKey \<Rightarrow> u64 \<Rightarrow> code_point list list" where
  "manifest_lines p mf admin now =
     [text_of (''epoch '' @ show_dec (unat (mf_epoch mf))),
      text_of (''valid '' @ show_dec (unat (mf_valid_from mf)) @ '' to '' @ show_dec (unat (mf_valid_until mf))
        @ '' (now '' @ show_dec (unat now) @ '')''),
      text_of ''verified-by '' @ fingerprint (blake2s p) (vk_bytes admin),
      text_of (''issuer-claims '' @ mf_issuer mf @ '' (unsigned)''),
      text_of (''members '' @ show_dec (length (mf_members mf)))]
     @ map (\<lambda>mb. text_of (''  '' @ show_dec (unat (mb_index mb)) @ '' '' @ show_dec (unat (mb_competence mb)) @ '' '' @ mb_id mb))
         (mf_members mf)
     @ [text_of (''manifest '' @ concat (map push_hex_lower (manifest_digest p mf)))]"

definition verify_cmd :: "primitives \<Rightarrow> AdminOptions \<Rightarrow> Desk \<Rightarrow> Exit \<times> Desk" where
  "verify_cmd p opts d =
     (case (need (ao_admin_key opts) ''--admin-key'', need (ao_input opts) ''--in'') of
        (Inl e, _) \<Rightarrow> (Failed e, d)
      | (Inr _, Inl e) \<Rightarrow> (Failed e, d)
      | (Inr key_path, Inr input) \<Rightarrow>
          (case read_public p key_path d of
             (Inl e, d) \<Rightarrow> (Failed e, d)
           | (Inr admin, d) \<Rightarrow>
               (case read_text input d of
                  (Inl e, d) \<Rightarrow> (Failed e, d)
                | (Inr t, d) \<Rightarrow>
                    (case manifest_parse p t of
                       Inl e \<Rightarrow> (Failed (TextRefused input e), d)
                     | Inr mf \<Rightarrow>
                         (let now = (case ao_now opts of Some n \<Rightarrow> n | None \<Rightarrow> dk_clock d)
                          in case manifest_verify p mf admin now of
                               Inl e \<Rightarrow> (Failed (TextRefused input e), d)
                             | Inr _ \<Rightarrow> print_lines (manifest_lines p mf admin now) d)))))"

text \<open>\<open>main\<close>, on the arguments after the program's name. The options are read before the command is looked at.\<close>

definition admin_main :: "primitives \<Rightarrow> code_point list list \<Rightarrow> Desk \<Rightarrow> Exit \<times> Desk" where
  "admin_main p args d =
     (let command = (case args of [] \<Rightarrow> [] | c # _ \<Rightarrow> c)
      in case options_read (tl args) admin_options_default of
           Inl e \<Rightarrow> (Failed e, d)
         | Inr opts \<Rightarrow>
             if command = text_of ''fingerprint'' then fingerprint_cmd p opts d
             else if command = text_of ''sign'' then sign_cmd p opts d
             else if command = text_of ''verify'' then verify_cmd p opts d
             else (Failed (NotACommand command), d))"

section \<open>From the key to the vessel\<close>

lemma text_of_eq [simp]: "text_of a = text_of b \<longleftrightarrow> a = b"
  by (auto simp: text_of_def inj_map_eq_map inj_on_def)

lemma utf8_ascii: "c < 128 \<Longrightarrow> length (utf8 c) = 1"
  by (simp add: utf8_def)

lemma hex_digit_ascii: "n < 16 \<Longrightarrow> (of_char (HEX ! n) :: nat) < 128"
proof -
  have "\<forall>n \<in> set [0..<16]. (of_char (HEX ! n) :: nat) < 128" by code_simp
  then show "n < 16 \<Longrightarrow> ?thesis" by simp
qed

lemma hex_slices_hex: "hex_slices path (text_of (concat (map push_hex_lower bs))) = Inr bs"
proof (induction bs)
  case Nil
  then show ?case by (simp add: text_of_def)
next
  case (Cons b bs)
  have "unat (drop_bit 4 b) < 16" "unat (b AND 0x0F) < 16" by (rule nibble_bounds)+
  then show ?case
    using Cons by (simp add: push_hex_lower_def text_of_def utf8_ascii hex_digit_ascii radix_hex)
qed

text \<open>A private seed file gives the key of its seed, and was opened.\<close>

lemma read_secret_file:
  assumes "dk_files d path = Some (md, Some (seed_file seed))" and "md AND 63 = 0" and "length seed = 32"
  shows "read_secret path d = (Inr (from_seed seed), d\<lparr>dk_opened := dk_opened d @ [path]\<rparr>)"
proof -
  have p: "plain (concat (map push_hex_lower seed))" using assms(3) by (intro hex_plain) auto
  show ?thesis
    using assms
    by (simp add: read_secret_def refuse_if_readable_def read_text_def Let_def seed_file_def plain_trims [OF p]
        as_bytes_plain [OF p] length_hex hex_slices_hex)
qed

definition sign_line :: "path \<Rightarrow> path \<Rightarrow> path \<Rightarrow> code_point list list" where
  "sign_line k i w = [text_of ''sign'', text_of ''--key'', k, text_of ''--in'', i, text_of ''--out'', w]"

definition card_line :: "path \<Rightarrow> code_point list list" where
  "card_line k = [text_of ''fingerprint'', text_of ''--key'', k]"

definition check_line :: "path \<Rightarrow> path \<Rightarrow> code_point list list" where
  "check_line c i = [text_of ''verify'', text_of ''--admin-key'', c, text_of ''--in'', i]"

lemma sign_runs:
  assumes "dk_files d k = Some (md, Some (seed_file seed))" and "md AND 63 = 0" and "length seed = 32"
    and "dk_files d i = Some (mi, Some t)" and "sign_text p t (from_seed seed) = Inr out" and "\<not> dk_unwritable d w"
  shows "\<exists>d'. admin_main p (sign_line k i w) d = (Succeeded, d') \<and> (\<exists>mw. dk_files d' = (dk_files d)(w \<mapsto> (mw, Some out)))
    \<and> dk_out d' = dk_out d \<and> dk_out_open d' = dk_out_open d \<and> dk_opened d' = dk_opened d @ [k, i]"
  using assms
  by (auto simp: admin_main_def sign_line_def set_flag_def admin_options_default_def sign_cmd_def need_def
      read_secret_file [OF assms(1-3)] read_text_def write_text_def Let_def)

lemma card_runs:
  assumes "dk_files d k = Some (md, Some (seed_file seed))" and "md AND 63 = 0" and "length seed = 32" and "dk_out_open d"
  shows "\<exists>d' after. admin_main p (card_line k) d = (Succeeded, d') \<and> dk_files d' = dk_files d
    \<and> dk_out d' = dk_out d @ CARD_NOTE @ [10] @ hand_encode (blake2s p) (vk_bytes (verifying_key p (from_seed seed))) @ [10] @ after"
  using assms(4)
  by (simp add: admin_main_def card_line_def set_flag_def admin_options_default_def fingerprint_cmd_def need_def
      read_secret_file [OF assms(1-3)] print_lines_def Let_def)

lemma check_runs:
  assumes "dk_files d c = Some (mc, Some (hand_encode (blake2s p) (vk_bytes key)))" and "length (vk_bytes key) = 32"
    and "vk_from_bytes p (vk_bytes key) = Inr key" and "dk_files d i = Some (mi, Some t)" and "manifest_parse p t = Inr mf"
    and "dk_out_open d"
  shows "fst (admin_main p (check_line c i) d) =
    (case manifest_verify p mf key (dk_clock d) of Inl e \<Rightarrow> Failed (TextRefused i e) | Inr _ \<Rightarrow> Succeeded)"
  using assms
  by (simp add: admin_main_def check_line_def set_flag_def admin_options_default_def verify_cmd_def need_def
      read_public_def read_text_def hand_decode_encode print_lines_def Let_def split: sum.split)

text \<open>
  (C22) The administrator's day. With a private key file, a text that can be signed and an output
  that can be written elsewhere, \<open>sign\<close> writes the signed manifest and nothing to standard
  output, \<open>fingerprint\<close> then prints a card, and on any vessel that holds that card, as
  printed, and that manifest, \<open>verify\<close> succeeds exactly while its clock reads an instant of
  the manifest's validity window.
\<close>

theorem administrator_workflow:
  assumes "primitives_ok p" and "dk_files d k = Some (md, Some (seed_file seed))" and "md AND 63 = 0" and "length seed = 32"
    and "dk_files d i = Some (mi, Some t)" and "sign_text p t (from_seed seed) = Inr out" and "\<not> dk_unwritable d w" and "w \<noteq> k"
    and "length (vk_bytes (verifying_key p (from_seed seed))) = 32" and "dk_out_open d"
  shows "\<exists>d1 d2 typed after mf. admin_main p (sign_line k i w) d = (Succeeded, d1)
    \<and> map_option snd (dk_files d1 w) = Some (Some out) \<and> dk_out d1 = dk_out d
    \<and> admin_main p (card_line k) d1 = (Succeeded, d2) \<and> dk_out d2 = dk_out d @ CARD_NOTE @ [10] @ typed @ [10] @ after
    \<and> manifest_parse p out = Inr mf
    \<and> (\<forall>v c mc m mm. dk_files v c = Some (mc, Some typed) \<and> dk_files v m = Some (mm, Some out) \<and> dk_out_open v
         \<longrightarrow> (fst (admin_main p (check_line c m) v) = Succeeded
              \<longleftrightarrow> mf_valid_from mf \<le> dk_clock v \<and> dk_clock v < mf_valid_until mf))"
proof -
  let ?key = "verifying_key p (from_seed seed)"
  let ?typed = "hand_encode (blake2s p) (vk_bytes ?key)"
  have len: "length (sk_seed (from_seed seed)) = 32" using assms(4) by (simp add: from_seed_def)
  obtain mf where mf: "manifest_parse p out = Inr mf"
    and v: "vk_verify p ?key (canonical_bytes mf) (mf_signature mf) = Inr ()"
    by (rule sign_parse_verify [OF assms(1) len assms(6)])
  have on: "vk_from_bytes p (vk_bytes ?key) = Inr ?key"
    using assms(1) len by (simp add: vk_from_bytes_def verifying_key_def primitives_ok_def)
  obtain d1 mw where d1: "admin_main p (sign_line k i w) d = (Succeeded, d1)" "dk_files d1 = (dk_files d)(w \<mapsto> (mw, Some out))"
    "dk_out d1 = dk_out d" "dk_out_open d1"
    using sign_runs [OF assms(2-7)] assms(10) by auto
  have "dk_files d1 k = Some (md, Some (seed_file seed))" using d1(2) assms(2,8) by simp
  from card_runs [OF this assms(3,4) d1(4), of p] obtain d2 after where
    d2: "admin_main p (card_line k) d1 = (Succeeded, d2)" "dk_out d2 = dk_out d @ CARD_NOTE @ [10] @ ?typed @ [10] @ after"
    unfolding d1(3) by blast
  have "fst (admin_main p (check_line c m) u) = Succeeded \<longleftrightarrow> mf_valid_from mf \<le> dk_clock u \<and> dk_clock u < mf_valid_until mf"
    if "dk_files u c = Some (mc, Some ?typed)" "dk_files u m = Some (mm, Some out)" "dk_out_open u" for u c m mc mm
    unfolding check_runs [OF that(1) assms(9) on that(2) mf that(3)] using v by (auto simp: manifest_verify_def)
  then show ?thesis using d1 d2 mf by (intro exI [of _ d1] exI [of _ d2] exI [of _ ?typed] exI [of _ after] exI [of _ mf]) auto
qed

text \<open>A desk with the key of the sample manifest, private to its owner.\<close>

definition sample_desk :: Desk where
  "sample_desk =
     \<lparr>dk_files = [text_of ''admin.key'' \<mapsto> (384, Some (seed_file (replicate 32 5))), text_of ''fleet'' \<mapsto> (420, Some sample_text)],
      dk_unwritable = (\<lambda>_. False), dk_new_mode = 420, dk_clock = 150, dk_out_open = True, dk_out = [], dk_opened = []\<rparr>"

theorem administrator_workflow_witness:
  "\<exists>d1 typed out. admin_main sample_primitives (sign_line (text_of ''admin.key'') (text_of ''fleet'') (text_of ''signed'')) sample_desk = (Succeeded, d1)
     \<and> (\<exists>after. dk_out (snd (admin_main sample_primitives (card_line (text_of ''admin.key'')) d1)) = CARD_NOTE @ [10] @ typed @ [10] @ after)
     \<and> fst (admin_main sample_primitives (check_line (text_of ''card'') (text_of ''signed''))
          (sample_desk\<lparr>dk_files := [text_of ''card'' \<mapsto> (420, Some typed), text_of ''signed'' \<mapsto> (420, Some out)]\<rparr>)) = Succeeded"
proof -
  obtain out mf where s: "sign_text sample_primitives sample_text (from_seed (replicate 32 5)) = Inr out"
    "manifest_parse sample_primitives out = Inr mf" "mf_valid_from mf = 100" "mf_valid_until mf = 200"
    by (rule sample_card)
  have files: "dk_files sample_desk (text_of ''admin.key'') = Some (384, Some (seed_file (replicate 32 5)))"
    "dk_files sample_desk (text_of ''fleet'') = Some (420, Some sample_text)" "\<not> dk_unwritable sample_desk (text_of ''signed'')"
    "dk_out_open sample_desk" "dk_out sample_desk = []"
    by (simp_all add: sample_desk_def)
  have md: "(384 :: u32) AND 63 = 0" and len: "length (replicate 32 (5 :: u8)) = 32" by simp_all
  have ne: "text_of ''signed'' \<noteq> text_of ''admin.key''" by simp
  have vk: "length (vk_bytes (verifying_key sample_primitives (from_seed (replicate 32 5)))) = 32"
    by (simp add: verifying_key_def from_seed_def sample_primitives_def)
  from administrator_workflow [OF sample_primitives_ok files(1) md len files(2) s(1) files(3) ne vk files(4)]
  obtain d1 d2 typed after where
    w: "admin_main sample_primitives (sign_line (text_of ''admin.key'') (text_of ''fleet'') (text_of ''signed'')) sample_desk = (Succeeded, d1)"
      "admin_main sample_primitives (card_line (text_of ''admin.key'')) d1 = (Succeeded, d2)"
      "dk_out d2 = CARD_NOTE @ [10] @ typed @ [10] @ after"
    and check: "\<And>v c mc m mm. dk_files v c = Some (mc, Some typed) \<Longrightarrow> dk_files v m = Some (mm, Some out) \<Longrightarrow> dk_out_open v
         \<Longrightarrow> fst (admin_main sample_primitives (check_line c m) v) = Succeeded \<longleftrightarrow> 100 \<le> dk_clock v \<and> dk_clock v < 200"
    unfolding s(2) files(5) using s(3,4) by auto
  let ?v = "sample_desk\<lparr>dk_files := [text_of ''card'' \<mapsto> (420, Some typed), text_of ''signed'' \<mapsto> (420, Some out)]\<rparr>"
  have "fst (admin_main sample_primitives (check_line (text_of ''card'') (text_of ''signed'')) ?v) = Succeeded"
    by (subst check [of ?v _ 420 _ 420]) (simp_all add: sample_desk_def)
  with w show ?thesis by (intro exI [of _ d1] exI [of _ typed] exI [of _ out]) simp
qed

text \<open>
  A key that anybody but its owner can read is not opened: whatever else the command line
  says, \<open>fingerprint\<close> and \<open>sign\<close> fail, and nothing is read, printed or written.
\<close>

theorem shared_secret_stays_closed:
  assumes "dk_files d k = Some (md, content)" and "md AND 63 \<noteq> 0" and "options_read args admin_options_default = Inr opts"
    and "ao_key opts = Some k" and "command = text_of ''fingerprint'' \<or> command = text_of ''sign''"
  shows "\<exists>e. admin_main p (command # args) d = (Failed e, d)"
  using assms
  by (auto simp: admin_main_def Let_def fingerprint_cmd_def sign_cmd_def need_def read_secret_def refuse_if_readable_def
      split: option.split)

theorem shared_secret_stays_closed_witness:
  "\<exists>e. admin_main sample_primitives (card_line (text_of ''fleet'')) sample_desk = (Failed e, sample_desk)"
  unfolding card_line_def
  by (rule shared_secret_stays_closed [where k = "text_of ''fleet''" and md = 420 and content = "Some sample_text"
        and opts = "admin_options_default\<lparr>ao_key := Some (text_of ''fleet'')\<rparr>"])
    (simp_all add: sample_desk_def set_flag_def)

text \<open>
  The tool slices the key's text at byte positions: one of sixty-four bytes in which a
  character of two bytes follows an odd number of others makes it panic.
\<close>

lemma accented_key_panics:
  assumes "dk_files d k = Some (384, Some (48 # 233 # replicate 30 233 @ [48]))"
  shows "fst (read_secret k d) = Inl Panicked"
proof -
  have "str_trim (48 # 233 # replicate 30 233 @ [48]) = 48 # 233 # replicate 30 233 @ [48]"
    by (simp add: str_trim_def is_whitespace_def)
  moreover have "length (as_bytes (48 # 233 # replicate 30 233 @ [48])) = 64"
    by (simp add: as_bytes_def utf8_def length_concat sum_list_replicate)
  ultimately show ?thesis
    using assms by (simp add: read_secret_def refuse_if_readable_def read_text_def Let_def utf8_def)
qed

end
