(* ===== verification/Lcq_Driver.thy ===== *)
theory Lcq_Driver
  imports Lcq_Chip
begin

text \<open>
  The driver thread of \<open>src/infrastructure/sx126x/radio.rs\<close>: bring the chip up, listen,
  service its interrupts, transmit on request. The driver crate it calls is the parameter
  \<open>LoraPhy\<close>, a function for every call, over a state that holds the crate's driver and the
  chip behind it; \<open>block_on\<close> runs each call to its end. What reaches the thread from
  outside is a list of turns: what it waited for, and the frames it was then asked to send.
  The threads between the hub, the chip and the node are not modelled. At the end: a frame
  that failed its check is never handed up, and the thread leaves a chip that receives
  continuously receiving.
\<close>

section \<open>The tables\<close>

definition spreading_factor_of :: "u8 \<Rightarrow> SpreadingFactor option" where
  "spreading_factor_of v =
     (if v = 5 then Some SF5 else if v = 6 then Some SF6 else if v = 7 then Some SF7
      else if v = 8 then Some SF8 else if v = 9 then Some SF9 else if v = 10 then Some SF10
      else if v = 11 then Some SF11 else if v = 12 then Some SF12 else None)"

definition bandwidth_of :: "u32 \<Rightarrow> Bandwidth option" where
  "bandwidth_of hz =
     (if hz = 7800 then Some BW7 else if hz = 10400 then Some BW10 else if hz = 15600 then Some BW15
      else if hz = 20800 then Some BW20 else if hz = 31250 then Some BW31 else if hz = 41700 then Some BW41
      else if hz = 62500 then Some BW62 else if hz = 125000 then Some BW125 else if hz = 250000 then Some BW250
      else if hz = 500000 then Some BW500 else None)"

definition coding_rate_of :: "u8 \<Rightarrow> CodingRate option" where
  "coding_rate_of d =
     (if d = 5 then Some CR5 else if d = 6 then Some CR6 else if d = 7 then Some CR7 else if d = 8 then Some CR8 else None)"

text \<open>\<open>irq_timeout\<close> of \<open>bridge.rs\<close>: how long \<open>TxDone\<close> may take over the cable.\<close>

definition BRIDGE_MARGIN :: duration where "BRIDGE_MARGIN = 1000000000"
definition FALLBACK_IRQ_TIMEOUT :: duration where "FALLBACK_IRQ_TIMEOUT = 12000000000"

definition irq_timeout :: "Lora \<Rightarrow> PhyProfile \<Rightarrow> duration" where
  "irq_timeout lora profile =
     (case (spreading_factor_of (spreading_factor profile), bandwidth_of (bandwidth_hz profile),
            coding_rate_of (coding_rate_denominator profile)) of
        (Some sf, Some bw, Some cr) \<Rightarrow>
          (let preamble = (if unat (preamble_symbols profile) < 256 then ucast (preamble_symbols profile) else - 1)
           in from_micros (time_on_air_us lora (sf, bw, cr) (Some preamble) (explicit_header profile) 255) + BRIDGE_MARGIN)
      | _ \<Rightarrow> FALLBACK_IRQ_TIMEOUT)"

section \<open>The driver crate\<close>

datatype RxMode = RxContinuous | RxSingleMs u32
datatype IrqState = IrqDone | IrqPreambleReceived

record PacketStatus =
  ps_rssi :: i16
  ps_snr :: i16

record ('l, 'm, 'k, 'e) LoraPhy =
  lp_init :: "u8 \<Rightarrow> 'l \<Rightarrow> ('e, unit) result \<times> 'l"
  lp_modulation :: "SpreadingFactor \<Rightarrow> Bandwidth \<Rightarrow> CodingRate \<Rightarrow> u32 \<Rightarrow> 'l \<Rightarrow> ('e, 'm) result \<times> 'l"
  lp_low_data_rate :: "'m \<Rightarrow> u8"
  lp_tx_packet :: "u16 \<Rightarrow> bool \<Rightarrow> bool \<Rightarrow> bool \<Rightarrow> 'm \<Rightarrow> 'l \<Rightarrow> ('e, 'k) result \<times> 'l"
  lp_rx_packet :: "u16 \<Rightarrow> bool \<Rightarrow> u8 \<Rightarrow> bool \<Rightarrow> bool \<Rightarrow> 'm \<Rightarrow> 'l \<Rightarrow> ('e, 'k) result \<times> 'l"
  lp_prepare_rx :: "RxMode \<Rightarrow> 'm \<Rightarrow> 'k \<Rightarrow> 'l \<Rightarrow> ('e, unit) result \<times> 'l"
  lp_start_rx :: "'l \<Rightarrow> ('e, unit) result \<times> 'l"
  lp_prepare_tx :: "'m \<Rightarrow> 'k \<Rightarrow> int \<Rightarrow> bytes \<Rightarrow> 'l \<Rightarrow> ('e, unit) result \<times> 'k \<times> 'l"
  lp_tx :: "'l \<Rightarrow> ('e, unit) result \<times> 'l"
  lp_irq_event :: "'l \<Rightarrow> ('e, IrqState option) result \<times> 'l"
  lp_rx_result :: "'k \<Rightarrow> bytes \<Rightarrow> 'l \<Rightarrow> ('e, u8 \<times> PacketStatus) result \<times> bytes \<times> 'l"
  lp_clear_irq :: "'l \<Rightarrow> ('e, unit) result \<times> 'l"
  lp_is_timeout :: "'e \<Rightarrow> bool"
  lp_debug :: "'e \<Rightarrow> string"
  lp_irq_flags :: "'l \<Rightarrow> u16 option"

section \<open>The node's end\<close>

definition MAX_PAYLOAD_BYTES :: nat where "MAX_PAYLOAD_BYTES = 255"

text \<open>Commands not yet taken, whether the thread still takes them, its events, and whether it was woken.\<close>

record DriverHandle =
  hd_commands :: "bytes list"
  hd_alive :: bool
  hd_events :: "RadioEvent list"
  hd_woken :: bool

definition handle_transmit :: "bytes \<Rightarrow> DriverHandle \<Rightarrow> (RadioError, unit) result \<times> DriverHandle" where
  "handle_transmit bs h =
     (if length bs > MAX_PAYLOAD_BYTES then (Inl (TooLong (length bs) MAX_PAYLOAD_BYTES), h)
      else if \<not> hd_alive h then (Inl Offline, h)
      else (Inr (), h\<lparr>hd_commands := hd_commands h @ [bs], hd_woken := True\<rparr>))"

definition handle_poll :: "DriverHandle \<Rightarrow> RadioEvent option \<times> DriverHandle" where
  "handle_poll h = (case hd_events h of [] \<Rightarrow> (None, h) | e # es \<Rightarrow> (Some e, h\<lparr>hd_events := es\<rparr>))"

section \<open>The thread\<close>

record ('l, 'm, 'k) Driver =
  dr_lora :: 'l
  dr_modulation :: 'm
  dr_tx_params :: 'k
  dr_rx_params :: 'k
  dr_power_dbm :: int
  dr_rx_continuous :: bool

definition LONGEST_TIMED_RX_MS :: u32 where "LONGEST_TIMED_RX_MS = 262000"

definition driver_listen ::
  "('l, 'm, 'k, 'e) LoraPhy \<Rightarrow> ('l, 'm, 'k) Driver \<Rightarrow> ('e, unit) result \<times> ('l, 'm, 'k) Driver" where
  "driver_listen lp d =
     (let mode = (if dr_rx_continuous d then RxContinuous else RxSingleMs LONGEST_TIMED_RX_MS)
      in case lp_prepare_rx lp mode (dr_modulation d) (dr_rx_params d) (dr_lora d) of
           (Inl e, l) \<Rightarrow> (Inl e, d\<lparr>dr_lora := l\<rparr>)
         | (Inr _, l) \<Rightarrow> (case lp_start_rx lp l of (res, l) \<Rightarrow> (res, d\<lparr>dr_lora := l\<rparr>)))"

definition driver_transmit ::
  "('l, 'm, 'k, 'e) LoraPhy \<Rightarrow> bytes \<Rightarrow> ('l, 'm, 'k) Driver \<Rightarrow> ('e, unit) result \<times> ('l, 'm, 'k) Driver" where
  "driver_transmit lp bs d =
     (case lp_prepare_tx lp (dr_modulation d) (dr_tx_params d) (dr_power_dbm d) bs (dr_lora d) of
        (Inl e, k, l) \<Rightarrow> (Inl e, d\<lparr>dr_lora := l, dr_tx_params := k\<rparr>)
      | (Inr _, k, l) \<Rightarrow> (case lp_tx lp l of (res, l) \<Rightarrow> (res, d\<lparr>dr_lora := l, dr_tx_params := k\<rparr>)))"

definition or_why :: "('e \<Rightarrow> string) \<Rightarrow> string \<Rightarrow> ('e, 'a) result \<times> 'l \<Rightarrow> ('a \<Rightarrow> 'l \<Rightarrow> (string, 'b) result) \<Rightarrow> (string, 'b) result" where
  "or_why debug what step f = (case step of (Inl e, l) \<Rightarrow> Inl (what @ '': '' @ debug e) | (Inr x, l) \<Rightarrow> f x l)"

definition bring_up_chip ::
  "('l, 'm, 'k, 'e) LoraPhy \<Rightarrow> PhyProfile \<Rightarrow> 'l \<Rightarrow> (string, ('l, 'm, 'k) Driver) result" where
  "bring_up_chip lp profile l =
     (case spreading_factor_of (spreading_factor profile) of
        None \<Rightarrow> Inl (''spreading factor '' @ show_dec (unat (spreading_factor profile)))
      | Some sf \<Rightarrow>
     (case bandwidth_of (bandwidth_hz profile) of
        None \<Rightarrow> Inl (''bandwidth '' @ show_dec (unat (bandwidth_hz profile)) @ '' Hz'')
      | Some bw \<Rightarrow>
     (case coding_rate_of (coding_rate_denominator profile) of
        None \<Rightarrow> Inl (''coding rate 4/'' @ show_dec (unat (coding_rate_denominator profile)))
      | Some cr \<Rightarrow>
        or_why (lp_debug lp) ''init'' (lp_init lp (sync_word profile) l) (\<lambda>_ l.
        or_why (lp_debug lp) ''modulation'' (lp_modulation lp sf bw cr (frequency_hz profile) l) (\<lambda>modulation l.
          if lp_low_data_rate lp modulation \<noteq> (if low_data_rate_optimize profile then 1 else 0) then
            Inl (''profile says low data rate optimisation ''
              @ (if low_data_rate_optimize profile then ''true'' else ''false'') @ '', the chip's rule says otherwise'')
          else
            or_why (lp_debug lp) ''tx packet params''
              (lp_tx_packet lp (preamble_symbols profile) (\<not> explicit_header profile) (crc_on profile) (iq_inverted profile) modulation l) (\<lambda>txp l.
            or_why (lp_debug lp) ''rx packet params''
              (lp_rx_packet lp (preamble_symbols profile) (\<not> explicit_header profile) (- 1) (crc_on profile) (iq_inverted profile) modulation l) (\<lambda>rxp l.
            or_why (lp_debug lp) ''listen''
              (driver_listen lp \<lparr>dr_lora = l, dr_modulation = modulation, dr_tx_params = txp, dr_rx_params = rxp,
                 dr_power_dbm = sint (tx_power_dbm profile), dr_rx_continuous = rx_continuous profile\<rparr>) (\<lambda>_ d.
              Inr d))))))))"

definition driver_note :: "string \<Rightarrow> string \<Rightarrow> RadioEvent" where
  "driver_note what why = EvNote (''\"event\":\"'' @ what @ ''\",\"why\":\"'' @ why @ ''\"'')"

definition note_failure :: "('e \<Rightarrow> string) \<Rightarrow> string \<Rightarrow> ('e, unit) result \<Rightarrow> RadioEvent list" where
  "note_failure debug what res = (case res of Inl why \<Rightarrow> [driver_note what (debug why)] | Inr _ \<Rightarrow> [])"

definition i8_of :: "i16 \<Rightarrow> i8" where
  "i8_of s = (if - 128 \<le> sint s \<and> sint s \<le> 127 then ucast s else if sint s < 0 then - 128 else 127)"

definition flagged :: "('l, 'm, 'k, 'e) LoraPhy \<Rightarrow> u16 \<Rightarrow> 'l \<Rightarrow> bool" where
  "flagged lp which l = (case lp_irq_flags lp l of None \<Rightarrow> False | Some flags \<Rightarrow> flags AND which \<noteq> 0)"

definition clear_irq :: "('l, 'm, 'k, 'e) LoraPhy \<Rightarrow> ('l, 'm, 'k) Driver \<Rightarrow> ('l, 'm, 'k) Driver" where
  "clear_irq lp d = d\<lparr>dr_lora := snd (lp_clear_irq lp (dr_lora d))\<rparr>"

text \<open>A reception: the event, and the thread's buffer afterwards.\<close>

definition service_done ::
  "('l, 'm, 'k, 'e) LoraPhy \<Rightarrow> bytes \<Rightarrow> ('l, 'm, 'k) Driver \<Rightarrow> RadioEvent list \<times> bytes \<times> ('l, 'm, 'k) Driver" where
  "service_done lp buffer d =
     (let corrupted = flagged lp IRQ_CRC_ERR (dr_lora d)
      in case lp_rx_result lp (dr_rx_params d) buffer (dr_lora d) of
           (Inr (len, status), buffer, l) \<Rightarrow>
             ([if corrupted then EvCrcError (ps_rssi status)
               else EvReceived \<lparr>rc_bytes = take (unat len) buffer, rc_rssi_dbm = ps_rssi status, rc_snr_db = i8_of (ps_snr status)\<rparr>],
              buffer, d\<lparr>dr_lora := l\<rparr>)
         | (Inl why, buffer, l) \<Rightarrow> ([driver_note ''chip_rx_failed'' (lp_debug lp why)], buffer, d\<lparr>dr_lora := l\<rparr>))"

definition service_preamble ::
  "('l, 'm, 'k, 'e) LoraPhy \<Rightarrow> bytes \<Rightarrow> ('l, 'm, 'k) Driver \<Rightarrow> RadioEvent list \<times> bytes \<times> ('l, 'm, 'k) Driver" where
  "service_preamble lp buffer d =
     (if flagged lp IRQ_HEADER_ERR (dr_lora d) then
        (case lp_rx_result lp (dr_rx_params d) buffer (dr_lora d) of
           (res, buffer, l) \<Rightarrow>
             ([EvHeaderError (case res of Inr (_, status) \<Rightarrow> ps_rssi status | Inl _ \<Rightarrow> 0)], buffer, d\<lparr>dr_lora := l\<rparr>))
      else ([], buffer, d))"

definition service_irq ::
  "('l, 'm, 'k, 'e) LoraPhy \<Rightarrow> bytes \<Rightarrow> ('l, 'm, 'k) Driver \<Rightarrow> RadioEvent list \<times> bytes \<times> ('l, 'm, 'k) Driver" where
  "service_irq lp buffer d =
     (case lp_irq_event lp (dr_lora d) of
        (Inr (Some IrqDone), l) \<Rightarrow>
          (case service_done lp buffer (d\<lparr>dr_lora := l\<rparr>) of (evs, buffer, d) \<Rightarrow> (evs, buffer, clear_irq lp d))
      | (Inr _, l) \<Rightarrow>
          (case service_preamble lp buffer (d\<lparr>dr_lora := l\<rparr>) of (evs, buffer, d) \<Rightarrow> (evs, buffer, clear_irq lp d))
      | (Inl why, l) \<Rightarrow>
          if lp_is_timeout lp why then
            (case driver_listen lp (clear_irq lp (d\<lparr>dr_lora := l\<rparr>)) of
               (res, d) \<Rightarrow> (note_failure (lp_debug lp) ''chip_rx_failed'' res, buffer, d))
          else ([driver_note ''chip_irq_failed'' (lp_debug lp why)], buffer, clear_irq lp (d\<lparr>dr_lora := l\<rparr>)))"

text \<open>One command: transmit, and listen again whatever came of it.\<close>

definition run_command ::
  "('l, 'm, 'k, 'e) LoraPhy \<Rightarrow> bytes \<Rightarrow> ('l, 'm, 'k) Driver \<Rightarrow> RadioEvent list \<times> ('l, 'm, 'k) Driver" where
  "run_command lp bs d =
     (case driver_transmit lp bs d of (sent, d) \<Rightarrow>
        case driver_listen lp d of (res, d) \<Rightarrow>
          (note_failure (lp_debug lp) ''chip_tx_failed'' sent @ note_failure (lp_debug lp) ''chip_rx_failed'' res, d))"

fun run_commands ::
  "('l, 'm, 'k, 'e) LoraPhy \<Rightarrow> bytes list \<Rightarrow> ('l, 'm, 'k) Driver \<Rightarrow> RadioEvent list \<times> ('l, 'm, 'k) Driver" where
  "run_commands lp [] d = ([], d)"
| "run_commands lp (bs # rest) d =
     (case run_command lp bs d of (evs, d) \<Rightarrow> case run_commands lp rest d of (more_evs, d) \<Rightarrow> (evs @ more_evs, d))"

text \<open>
  One turn: what the chip did by itself while the thread waited (a frame received, a timer run
  out), what the thread was woken for, the commands found, and whether the node has let go of
  the radio.
\<close>

record 'l DriveTurn =
  tn_chip :: "'l \<Rightarrow> 'l"
  tn_activity :: Activity
  tn_commands :: "bytes list"
  tn_gone :: bool

definition drive_turn ::
  "('l, 'm, 'k, 'e) LoraPhy \<Rightarrow> 'l DriveTurn \<Rightarrow> bytes \<Rightarrow> ('l, 'm, 'k) Driver \<Rightarrow> RadioEvent list \<times> bytes \<times> ('l, 'm, 'k) Driver" where
  "drive_turn lp t buffer d =
     (let d = d\<lparr>dr_lora := tn_chip t (dr_lora d)\<rparr>
      in case (if ac_irq (tn_activity t) then service_irq lp buffer d else ([], buffer, d)) of (evs, buffer, d) \<Rightarrow>
           case run_commands lp (tn_commands t) d of (more_evs, d) \<Rightarrow> (evs @ more_evs, buffer, d))"

fun drive_turns ::
  "('l, 'm, 'k, 'e) LoraPhy \<Rightarrow> 'l DriveTurn list \<Rightarrow> bytes \<Rightarrow> ('l, 'm, 'k) Driver \<Rightarrow> RadioEvent list \<times> ('l, 'm, 'k) Driver" where
  "drive_turns lp [] buffer d = ([], d)"
| "drive_turns lp (t # ts) buffer d =
     (case drive_turn lp t buffer d of (evs, buffer, d) \<Rightarrow>
        if tn_gone t then (evs, d) else case drive_turns lp ts buffer d of (more_evs, d) \<Rightarrow> (evs @ more_evs, d))"

definition chip_up_note :: "PhyProfile \<Rightarrow> RadioEvent" where
  "chip_up_note profile =
     EvNote (''\"event\":\"chip_up\",\"phy\":\"'' @ pp_name profile @ ''\",\"sf\":'' @ show_dec (unat (spreading_factor profile))
       @ '',\"bw_hz\":'' @ show_dec (unat (bandwidth_hz profile)) @ '',\"frequency_hz\":'' @ show_dec (unat (frequency_hz profile)))"

text \<open>\<open>drive\<close>: the events in order, and the driver if the chip came up.\<close>

definition drive ::
  "('l, 'm, 'k, 'e) LoraPhy \<Rightarrow> PhyProfile \<Rightarrow> 'l DriveTurn list \<Rightarrow> 'l \<Rightarrow> RadioEvent list \<times> ('l, 'm, 'k) Driver option" where
  "drive lp profile ts l =
     (case bring_up_chip lp profile l of
        Inl why \<Rightarrow> ([driver_note ''chip_failed'' why], None)
      | Inr d \<Rightarrow>
          (case drive_turns lp ts (replicate MAX_PAYLOAD_BYTES 0) d of (evs, d) \<Rightarrow> (chip_up_note profile # evs, Some d)))"

section \<open>What is handed up\<close>

definition clean_events :: "(bytes \<Rightarrow> bool) \<Rightarrow> RadioEvent list \<Rightarrow> bool" where
  "clean_events P evs = (\<forall>rc. EvReceived rc \<in> set evs \<longrightarrow> P (rc_bytes rc))"

lemma clean_events_simps [simp]:
  "clean_events P []" "clean_events P (xs @ ys) \<longleftrightarrow> clean_events P xs \<and> clean_events P ys"
  "clean_events P (EvReceived rc # evs) \<longleftrightarrow> P (rc_bytes rc) \<and> clean_events P evs"
  "clean_events P (EvCrcError r # evs) \<longleftrightarrow> clean_events P evs" "clean_events P (EvHeaderError r # evs) \<longleftrightarrow> clean_events P evs"
  "clean_events P (driver_note what why # evs) \<longleftrightarrow> clean_events P evs" "clean_events P (note_failure debug what res)"
  "clean_events P (chip_up_note profile # evs) \<longleftrightarrow> clean_events P evs"
  by (auto simp: clean_events_def driver_note_def note_failure_def chip_up_note_def split: sum.split)

definition flags_checked :: "('l, 'm, 'k, 'e) LoraPhy \<Rightarrow> (bytes \<Rightarrow> bool) \<Rightarrow> bool" where
  "flags_checked lp P =
     (\<forall>l. \<exists>flags. lp_irq_flags lp l = Some flags
        \<and> (flags AND IRQ_CRC_ERR = 0 \<longrightarrow> (\<forall>k buffer len status buffer' l'.
             lp_rx_result lp k buffer l = (Inr (len, status), buffer', l') \<longrightarrow> P (take (unat len) buffer'))))"

lemma service_irq_clean:
  assumes "flags_checked lp P"
  shows "clean_events P (fst (service_irq lp buffer d))"
proof -
  have "clean_events P (fst (service_done lp b c))" for b and c :: "('a, 'b, 'c) Driver"
  proof -
    obtain flags where "lp_irq_flags lp (dr_lora c) = Some flags"
      "flags AND IRQ_CRC_ERR = 0 \<longrightarrow> (\<forall>k buffer len status buffer' l'.
         lp_rx_result lp k buffer (dr_lora c) = (Inr (len, status), buffer', l') \<longrightarrow> P (take (unat len) buffer'))"
      using assms unfolding flags_checked_def by blast
    then show ?thesis by (auto simp: service_done_def flagged_def Let_def split: prod.split sum.split) blast
  qed
  moreover have "clean_events P (fst (service_preamble lp b c))" for b and c :: "('a, 'b, 'c) Driver"
    by (simp add: service_preamble_def split: prod.split)
  ultimately show ?thesis
    by (auto simp: service_irq_def split: prod.splits sum.splits option.splits IrqState.splits) (metis fst_conv)+
qed

lemma run_commands_clean: "clean_events P (fst (run_commands lp cs d))"
proof (induction cs arbitrary: d)
  case (Cons bs rest)
  have "clean_events P (fst (run_command lp bs d))" by (simp add: run_command_def split: prod.split)
  then show ?case using Cons by (simp split: prod.split) (metis fst_conv)
qed simp

lemma drive_turns_clean:
  assumes "flags_checked lp P"
  shows "clean_events P (fst (drive_turns lp ts buffer d))"
proof (induction ts arbitrary: buffer d)
  case (Cons t ts)
  obtain evs b c where t: "drive_turn lp t buffer d = (evs, b, c)" by (rule prod_cases3)
  have "clean_events P evs"
    using t service_irq_clean [OF assms, of buffer "d\<lparr>dr_lora := tn_chip t (dr_lora d)\<rparr>"] run_commands_clean [of P lp "tn_commands t"]
    by (auto simp: drive_turn_def Let_def split: prod.splits if_splits) (metis fst_conv)+
  then show ?case using t Cons [of b c] by (auto split: prod.split)
qed simp

text \<open>
  Whatever a good reception is (\<open>P\<close>): if the chip's status can be read and a frame it does
  not mark as failing its check is good, then every frame the thread hands to the node is
  good, over any turns, commands and driver errors.
\<close>

theorem driver_hands_up_clean:
  assumes "\<And>l. \<exists>flags. lp_irq_flags lp l = Some flags
      \<and> (flags AND IRQ_CRC_ERR = 0 \<longrightarrow> (\<forall>k buffer len status buffer' l'.
           lp_rx_result lp k buffer l = (Inr (len, status), buffer', l') \<longrightarrow> P (take (unat len) buffer')))"
    and "EvReceived rc \<in> set (fst (drive lp profile ts l))"
  shows "P (rc_bytes rc)"
proof -
  have "flags_checked lp P" using assms(1) by (simp add: flags_checked_def)
  then have "clean_events P (fst (drive lp profile ts l))"
    using drive_turns_clean [of lp P]
    by (simp add: drive_def split: sum.split prod.split) (metis fst_conv)
  then show ?thesis using assms(2) by (simp add: clean_events_def)
qed

section \<open>Listening\<close>

definition receptive :: "('l, 'm, 'k, 'e) LoraPhy \<Rightarrow> ('l \<Rightarrow> bool) \<Rightarrow> bool" where
  "receptive lp rx =
     ((\<forall>l m k l1 l2. lp_prepare_rx lp RxContinuous m k l = (Inr (), l1) \<longrightarrow> lp_start_rx lp l1 = (Inr (), l2) \<longrightarrow> rx l2)
      \<and> (\<forall>l l' st. rx l \<longrightarrow> lp_irq_event lp l = (Inr st, l') \<longrightarrow> rx l')
      \<and> (\<forall>l l' k buffer res buffer'. rx l \<longrightarrow> lp_rx_result lp k buffer l = (res, buffer', l') \<longrightarrow> rx l')
      \<and> (\<forall>l. rx l \<longrightarrow> rx (snd (lp_clear_irq lp l))))"

definition told_deaf :: "RadioEvent list \<Rightarrow> bool" where
  "told_deaf evs = (\<exists>why. driver_note ''chip_rx_failed'' why \<in> set evs \<or> driver_note ''chip_irq_failed'' why \<in> set evs)"

lemma told_deaf_append: "told_deaf (xs @ ys) \<longleftrightarrow> told_deaf xs \<or> told_deaf ys" "\<not> told_deaf []"
  by (auto simp: told_deaf_def)

text \<open>The thread never changes how the radio is to receive.\<close>

lemma same_mode [simp]:
  "dr_rx_continuous (snd (driver_listen lp d)) = dr_rx_continuous d"
  "dr_rx_continuous (snd (driver_transmit lp bs d)) = dr_rx_continuous d"
  "dr_rx_continuous (clear_irq lp d) = dr_rx_continuous d"
  "dr_rx_continuous (snd (snd (service_done lp buffer d))) = dr_rx_continuous d"
  "dr_rx_continuous (snd (snd (service_preamble lp buffer d))) = dr_rx_continuous d"
  by (auto simp: driver_listen_def driver_transmit_def clear_irq_def service_done_def service_preamble_def Let_def
      split: prod.split sum.split)

lemma service_irq_mode: "service_irq lp buffer d = (evs, b, d') \<Longrightarrow> dr_rx_continuous d' = dr_rx_continuous d"
proof -
  have "dr_rx_continuous (snd (snd (service_irq lp buffer d))) = dr_rx_continuous d"
  proof -
    obtain st l where ev: "lp_irq_event lp (dr_lora d) = (st, l)" by fastforce
    let ?d = "d\<lparr>dr_lora := l\<rparr>"
    obtain e1 b1 d1 e2 b2 d2 res d3 where x: "service_done lp buffer ?d = (e1, b1, d1)"
      "service_preamble lp buffer ?d = (e2, b2, d2)" "driver_listen lp (clear_irq lp ?d) = (res, d3)"
      by (metis prod_cases3 surj_pair)
    have "dr_rx_continuous d1 = dr_rx_continuous d" "dr_rx_continuous d2 = dr_rx_continuous d"
      "dr_rx_continuous d3 = dr_rx_continuous d"
      using same_mode(4) [of lp buffer ?d] same_mode(5) [of lp buffer ?d] same_mode(1) [of lp "clear_irq lp ?d"] x by simp_all
    then show ?thesis by (simp add: service_irq_def ev x split: sum.split option.split IrqState.split)
  qed
  then show "service_irq lp buffer d = (evs, b, d') \<Longrightarrow> dr_rx_continuous d' = dr_rx_continuous d" by simp
qed

lemma run_commands_mode: "run_commands lp cs d = (evs, d') \<Longrightarrow> dr_rx_continuous d \<Longrightarrow> dr_rx_continuous d'"
proof (induction cs arbitrary: d d' evs)
  case (Cons bs rest)
  obtain sent d1 where tx: "driver_transmit lp bs d = (sent, d1)" by fastforce
  obtain res d2 where ls: "driver_listen lp d1 = (res, d2)" by fastforce
  obtain more_evs d3 where rest: "run_commands lp rest d2 = (more_evs, d3)" by fastforce
  have "dr_rx_continuous d2"
    using same_mode(2) [of lp bs d] same_mode(1) [of lp d1] tx ls Cons.prems(2) by simp
  from Cons.IH [OF rest this] show ?case using Cons.prems(1) tx ls rest by (simp add: run_command_def)
qed simp

lemma listen_receptive:
  assumes "receptive lp rx" and "dr_rx_continuous d" and "driver_listen lp d = (Inr (), d')"
  shows "rx (dr_lora d')"
proof -
  obtain l1 where "lp_prepare_rx lp RxContinuous (dr_modulation d) (dr_rx_params d) (dr_lora d) = (Inr (), l1)"
      "lp_start_rx lp l1 = (Inr (), dr_lora d')"
    using assms(2,3) by (auto simp: driver_listen_def Let_def split: prod.splits sum.splits)
  then show ?thesis using assms(1) unfolding receptive_def by blast
qed

lemma listened:
  assumes "receptive lp rx" and "dr_rx_continuous d" and "driver_listen lp d = (res, d')"
    and "\<not> told_deaf (note_failure (lp_debug lp) ''chip_rx_failed'' res)"
  shows "rx (dr_lora d')"
  using assms listen_receptive [OF assms(1,2), of d']
  by (cases res) (auto simp: note_failure_def told_deaf_def)

lemma run_commands_receptive:
  assumes "receptive lp rx"
  shows "dr_rx_continuous d \<Longrightarrow> rx (dr_lora d) \<Longrightarrow> run_commands lp cs d = (evs, d')
    \<Longrightarrow> dr_rx_continuous d' \<and> (told_deaf evs \<or> rx (dr_lora d'))"
proof (induction cs arbitrary: d d' evs)
  case (Cons bs rest)
  obtain sent d1 where tx: "driver_transmit lp bs d = (sent, d1)" by fastforce
  obtain res d2 where ls: "driver_listen lp d1 = (res, d2)" by fastforce
  obtain more_evs d3 where rest: "run_commands lp rest d2 = (more_evs, d3)" by fastforce
  have mode: "dr_rx_continuous d1" "dr_rx_continuous d2"
    using same_mode(2) [of lp bs d] same_mode(1) [of lp d1] tx ls Cons.prems(1) by simp_all
  have start: "told_deaf (note_failure (lp_debug lp) ''chip_rx_failed'' res) \<or> rx (dr_lora d2)"
    using listened [OF assms mode(1) ls] by blast
  have evs: "evs = (note_failure (lp_debug lp) ''chip_tx_failed'' sent @ note_failure (lp_debug lp) ''chip_rx_failed'' res) @ more_evs"
      "d' = d3"
    using Cons.prems(3) tx ls rest by (simp_all add: run_command_def)
  show ?case
  proof (cases "rx (dr_lora d2)")
    case True
    then show ?thesis using Cons.IH [OF mode(2) True rest] by (auto simp: evs told_deaf_append)
  next
    case False
    have "dr_rx_continuous d3" by (rule run_commands_mode [OF rest mode(2)])
    then show ?thesis using start False by (auto simp: evs told_deaf_append)
  qed
qed simp

lemma service_irq_receptive:
  assumes "receptive lp rx" and "dr_rx_continuous d" and "rx (dr_lora d)" and "service_irq lp buffer d = (evs, b, d')"
  shows "told_deaf evs \<or> rx (dr_lora d')"
proof -
  note r = assms(1) [unfolded receptive_def, THEN conjunct2]
  have clear: "rx (dr_lora (clear_irq lp c))" if "rx (dr_lora c)" for c
    using r [THEN conjunct2, THEN conjunct2, rule_format, OF that] by (simp add: clear_irq_def)
  have result: "rx l'" if "rx l" "lp_rx_result lp k bf l = (res, bf', l')" for l l' k bf res bf'
    by (rule r [THEN conjunct2, THEN conjunct1, rule_format, OF that])
  have event: "rx l'" if "rx l" "lp_irq_event lp l = (Inr st, l')" for l l' st
    by (rule r [THEN conjunct1, rule_format, OF that])
  obtain st l where ev: "lp_irq_event lp (dr_lora d) = (st, l)" by fastforce
  show ?thesis
  proof (cases st)
    case (Inl why)
    show ?thesis
    proof (cases "lp_is_timeout lp why")
      case True
      obtain res d2 where ls: "driver_listen lp (clear_irq lp (d\<lparr>dr_lora := l\<rparr>)) = (res, d2)" by fastforce
      have m: "dr_rx_continuous (clear_irq lp (d\<lparr>dr_lora := l\<rparr>))" using assms(2) by simp
      show ?thesis using assms(4) ev Inl True ls listened [OF assms(1) m ls] by (auto simp: service_irq_def)
    next
      case False
      then show ?thesis using assms(4) ev Inl by (auto simp: service_irq_def told_deaf_def)
    qed
  next
    case (Inr what)
    let ?d = "d\<lparr>dr_lora := l\<rparr>"
    have "rx l" using event assms(3) ev Inr by blast
    then have "rx (dr_lora (snd (snd (service_done lp buffer ?d))))" "rx (dr_lora (snd (snd (service_preamble lp buffer ?d))))"
      using result by (auto simp: service_done_def service_preamble_def Let_def split: prod.split sum.split)
    then have "rx (dr_lora d')"
      using assms(4) ev Inr clear by (auto simp: service_irq_def split: prod.splits option.splits IrqState.splits)
    then show ?thesis ..
  qed
qed

lemma drive_turns_receptive:
  assumes "receptive lp rx"
  shows "dr_rx_continuous d \<Longrightarrow> rx (dr_lora d) \<Longrightarrow> \<forall>t \<in> set ts. \<forall>l. rx l \<longrightarrow> rx (tn_chip t l)
    \<Longrightarrow> drive_turns lp ts buffer d = (evs, d') \<Longrightarrow> told_deaf evs \<or> rx (dr_lora d')"
proof (induction ts arbitrary: buffer d d' evs)
  case (Cons t ts)
  let ?d = "d\<lparr>dr_lora := tn_chip t (dr_lora d)\<rparr>"
  have at: "dr_rx_continuous ?d" "rx (dr_lora ?d)" using Cons.prems(1-3) by simp_all
  obtain e1 b1 d1 where one: "(if ac_irq (tn_activity t) then service_irq lp buffer ?d else ([], buffer, ?d)) = (e1, b1, d1)"
    by (rule prod_cases3)
  obtain e2 d2 where two: "run_commands lp (tn_commands t) d1 = (e2, d2)" by fastforce
  obtain e3 d3 where three: "drive_turns lp ts b1 d2 = (e3, d3)" by fastforce
  have m1: "dr_rx_continuous d1" using one at(1) service_irq_mode [of lp buffer ?d] by (auto split: if_splits)
  have m2: "dr_rx_continuous d2" by (rule run_commands_mode [OF two m1])
  have "told_deaf e1 \<or> rx (dr_lora d1)"
    using one at service_irq_receptive [OF assms at, of buffer e1 b1 d1] by (auto split: if_splits)
  then have now: "told_deaf (e1 @ e2) \<or> rx (dr_lora d2)"
    using run_commands_receptive [OF assms m1 _ two] by (auto simp: told_deaf_append)
  have turn: "drive_turn lp t buffer d = (e1 @ e2, b1, d2)" by (simp add: drive_turn_def Let_def one two)
  show ?case
  proof (cases "tn_gone t")
    case True
    then show ?thesis using Cons.prems(4) turn now by simp
  next
    case False
    then have "evs = (e1 @ e2) @ e3" "d' = d3" using Cons.prems(4) turn three by simp_all
    then show ?thesis using now Cons.IH [OF m2 _ _ three] Cons.prems(3) by (auto simp: told_deaf_append)
  qed
qed simp

text \<open>
  (C35) A radio that receives continuously is deaf only while it transmits. What it asks of the
  driver crate and of the chip, for any set \<open>rx\<close> of states in which the chip receives: a
  continuous reception that is prepared and started successfully leaves the chip receiving; looking
  at an interrupt, fetching a frame and clearing the status leave a receiving chip receiving;
  and the chip does not stop receiving by itself while the thread waits, which is what continuous mode
  is (\<open>continuous_stays\<close> in \<open>Lcq_Chip_Runs\<close> shows it of the virtual chip). Then for every profile that
  asks for continuous reception, and after any turns (interrupts, transmissions, failures of either),
  the chip is receiving again, unless the node was told that a reception could not be started or an
  interrupt could not be read. A profile that asks for timed receptions is not covered: see
  \<open>timed_reception_goes_deaf\<close>.
\<close>

theorem driver_keeps_listening:
  assumes "rx_continuous profile"
    and "\<And>l m k l1 l2. lp_prepare_rx lp RxContinuous m k l = (Inr (), l1) \<Longrightarrow> lp_start_rx lp l1 = (Inr (), l2) \<Longrightarrow> rx l2"
    and "\<And>l l' st. rx l \<Longrightarrow> lp_irq_event lp l = (Inr st, l') \<Longrightarrow> rx l'"
    and "\<And>l l' k buffer res buffer'. rx l \<Longrightarrow> lp_rx_result lp k buffer l = (res, buffer', l') \<Longrightarrow> rx l'"
    and "\<And>l. rx l \<Longrightarrow> rx (snd (lp_clear_irq lp l))"
    and "\<And>t l. t \<in> set ts \<Longrightarrow> rx l \<Longrightarrow> rx (tn_chip t l)"
    and "drive lp profile ts l = (evs, Some d)"
  shows "rx (dr_lora d) \<or> (\<exists>why. driver_note ''chip_rx_failed'' why \<in> set evs \<or> driver_note ''chip_irq_failed'' why \<in> set evs)"
proof -
  have ok: "receptive lp rx" using assms(2-5) unfolding receptive_def by blast
  obtain d0 evs' where up: "bring_up_chip lp profile l = Inr d0"
    and run: "drive_turns lp ts (replicate MAX_PAYLOAD_BYTES 0) d0 = (evs', d)" and evs: "evs = chip_up_note profile # evs'"
    using assms(7) by (auto simp: drive_def split: sum.splits prod.splits)
  obtain d1 where d1: "driver_listen lp d1 = (Inr (), d0)" "dr_rx_continuous d1"
    using up assms(1) by (auto simp: bring_up_chip_def or_why_def split: option.splits sum.splits prod.splits if_splits)
  have "dr_rx_continuous d0" using same_mode(1) [of lp d1] d1 by simp
  moreover have "rx (dr_lora d0)" by (rule listen_receptive [OF ok d1(2,1)])
  ultimately have "told_deaf evs' \<or> rx (dr_lora d)" using drive_turns_receptive [OF ok _ _ _ run] assms(6) by blast
  then show ?thesis by (auto simp: told_deaf_def evs)
qed

section \<open>A crate in miniature\<close>

text \<open>
  Whether the chip receives, and the frames it still holds; one that does not begin with
  seven has failed its check.
\<close>

definition sample_phy :: "(bool \<times> bytes list, unit, unit, unit) LoraPhy" where
  "sample_phy =
     \<lparr>lp_init = (\<lambda>_ l. (Inr (), l)), lp_modulation = (\<lambda>_ _ _ _ l. (Inr (), l)), lp_low_data_rate = (\<lambda>_. 0),
      lp_tx_packet = (\<lambda>_ _ _ _ _ l. (Inr (), l)), lp_rx_packet = (\<lambda>_ _ _ _ _ _ l. (Inr (), l)),
      lp_prepare_rx = (\<lambda>_ _ _ l. (Inr (), l)), lp_start_rx = (\<lambda>l. (Inr (), True, snd l)),
      lp_prepare_tx = (\<lambda>_ k _ _ l. (Inr (), k, l)), lp_tx = (\<lambda>l. (Inr (), False, snd l)),
      lp_irq_event = (\<lambda>l. (Inr (if snd l = [] then None else Some IrqDone), l)),
      lp_rx_result = (\<lambda>_ buffer l. case snd l of
          [] \<Rightarrow> (Inl (), buffer, l)
        | frame # _ \<Rightarrow> (Inr (of_nat (length frame), \<lparr>ps_rssi = - 80, ps_snr = 9\<rparr>), frame @ drop (length frame) buffer, l)),
      lp_clear_irq = (\<lambda>l. (Inr (), fst l, tl (snd l))), lp_is_timeout = (\<lambda>_. False), lp_debug = (\<lambda>_. []),
      lp_irq_flags = (\<lambda>l. Some (case snd l of frame # _ \<Rightarrow> if take 1 frame = [7] then 0 else IRQ_CRC_ERR | [] \<Rightarrow> 0))\<rparr>"

definition sample_drive_turns :: "(bool \<times> bytes list) DriveTurn list" where
  "sample_drive_turns =
     [\<lparr>tn_chip = (\<lambda>l. (fst l, snd l @ [[7, 1], [9]])), tn_activity = \<lparr>ac_irq = True, ac_host = False\<rparr>, tn_commands = [], tn_gone = False\<rparr>,
      \<lparr>tn_chip = id, tn_activity = \<lparr>ac_irq = True, ac_host = True\<rparr>, tn_commands = [[1, 2, 3]], tn_gone = False\<rparr>]"

lemma sample_phy_clean:
  "\<exists>flags. lp_irq_flags sample_phy l = Some flags
    \<and> (flags AND IRQ_CRC_ERR = 0 \<longrightarrow> (\<forall>k buffer len status buffer' l'.
         lp_rx_result sample_phy k buffer l = (Inr (len, status), buffer', l') \<longrightarrow> take 1 (take (unat len) buffer') \<in> {[], [7]}))"
  by (cases "snd l") (auto simp: sample_phy_def IRQ_CRC_ERR_def take_Suc split: if_splits)

lemma sample_drive:
  "drive sample_phy eu868_sf10 sample_drive_turns (False, [])
     = ([chip_up_note eu868_sf10, EvReceived \<lparr>rc_bytes = [7, 1], rc_rssi_dbm = - 80, rc_snr_db = 9\<rparr>, EvCrcError (- 80)],
        Some \<lparr>dr_lora = (True, []), dr_modulation = (), dr_tx_params = (), dr_rx_params = (), dr_power_dbm = 14, dr_rx_continuous = True\<rparr>)"
  by (simp add: drive_def bring_up_chip_def eu868_sf10_def spreading_factor_of_def bandwidth_of_def coding_rate_of_def or_why_def
      driver_listen_def sample_phy_def sample_drive_turns_def drive_turn_def service_irq_def service_done_def flagged_def clear_irq_def
      run_command_def driver_transmit_def note_failure_def i8_of_def IRQ_CRC_ERR_def MAX_PAYLOAD_BYTES_def)

text \<open>
  A timed reception is another matter. The chip goes to standby by itself when the frame has
  come in, the thread fetches the frame, and does not listen again: the node hears nothing
  from then on until it transmits, and is told of nothing.
\<close>

lemma timed_reception_goes_deaf:
  "drive sample_phy (eu868_sf10\<lparr>rx_continuous := False\<rparr>)
       [\<lparr>tn_chip = (\<lambda>l. (False, snd l @ [[7, 1]])), tn_activity = \<lparr>ac_irq = True, ac_host = False\<rparr>, tn_commands = [], tn_gone = False\<rparr>]
       (False, [])
     = ([chip_up_note eu868_sf10, EvReceived \<lparr>rc_bytes = [7, 1], rc_rssi_dbm = - 80, rc_snr_db = 9\<rparr>],
        Some \<lparr>dr_lora = (False, []), dr_modulation = (), dr_tx_params = (), dr_rx_params = (), dr_power_dbm = 14, dr_rx_continuous = False\<rparr>)"
  by (simp add: drive_def bring_up_chip_def eu868_sf10_def spreading_factor_of_def bandwidth_of_def coding_rate_of_def or_why_def
      driver_listen_def sample_phy_def drive_turn_def service_irq_def service_done_def flagged_def clear_irq_def
      i8_of_def IRQ_CRC_ERR_def MAX_PAYLOAD_BYTES_def chip_up_note_def)

theorem driver_hands_up_clean_witness:
  "\<exists>rc. EvReceived rc \<in> set (fst (drive sample_phy eu868_sf10 sample_drive_turns (False, [])))
     \<and> take 1 (rc_bytes rc) \<in> {[], [7]}"
proof -
  have "EvReceived \<lparr>rc_bytes = [7, 1], rc_rssi_dbm = - 80, rc_snr_db = 9\<rparr>
      \<in> set (fst (drive sample_phy eu868_sf10 sample_drive_turns (False, [])))"
    by (simp add: sample_drive)
  from driver_hands_up_clean [of sample_phy "\<lambda>bs. take 1 bs \<in> {[], [7]}", OF sample_phy_clean this] this
  show ?thesis by blast
qed

theorem driver_keeps_listening_witness:
  "fst (dr_lora (the (snd (drive sample_phy eu868_sf10 sample_drive_turns (False, [])))))"
proof -
  obtain evs d where run: "drive sample_phy eu868_sf10 sample_drive_turns (False, []) = (evs, Some d)"
    and evs: "evs = [chip_up_note eu868_sf10, EvReceived \<lparr>rc_bytes = [7, 1], rc_rssi_dbm = - 80, rc_snr_db = 9\<rparr>, EvCrcError (- 80)]"
    using sample_drive by blast
  have "fst (dr_lora d) \<or> (\<exists>why. driver_note ''chip_rx_failed'' why \<in> set evs \<or> driver_note ''chip_irq_failed'' why \<in> set evs)"
    by (rule driver_keeps_listening [of eu868_sf10 sample_phy "\<lambda>l. fst l", OF _ _ _ _ _ _ run])
      (auto simp: sample_phy_def sample_drive_turns_def eu868_sf10_def split: list.splits)
  then show ?thesis using run by (auto simp: evs driver_note_def chip_up_note_def)
qed

end
