(* ===== verification/Lcq_Options.thy ===== *)
theory Lcq_Options
  imports Lcq_Schedule Lcq_Manifest Lcq_Float
begin

text \<open>
  The command line of \<open>src/bin/lcq-node.rs\<close>: \<open>Options::from_args\<close> and the radio it asks for
  (\<open>RadioChoice\<close>). Texts are byte strings; what panics is \<open>None\<close>. \<open>NodeArgs\<close> holds the
  \<open>Options\<close> of the other theories and what only start-up uses. At the end: what a radio
  specification says is what is chosen.
\<close>

section \<open>Numbers\<close>

text \<open>\<open>str::parse\<close> into unsigned and signed integers, with their optional signs.\<close>

definition parse_uint :: "nat \<Rightarrow> string \<Rightarrow> nat option" where
  "parse_uint bits s = parse_unsigned bits (if s \<noteq> [] \<and> hd s = CHR ''+'' then tl s else s)"

definition parse_i64 :: "string \<Rightarrow> i64 option" where
  "parse_i64 s =
     (if s \<noteq> [] \<and> hd s = CHR ''-'' then
        (case parse_unsigned 64 (tl s) of None \<Rightarrow> None | Some n \<Rightarrow> if n \<le> 2 ^ 63 then Some (- of_nat n) else None)
      else map_option of_nat (parse_uint 63 s))"

text \<open>\<open>str::parse\<close> into \<open>f64\<close>: a decimal number with an exponent, or a name.\<close>

datatype F64 = Finite rat | Infinite bool | NotNumber

definition ascii_lower :: "char \<Rightarrow> char" where
  "ascii_lower c = (let n = (of_char c :: nat) in if 65 \<le> n \<and> n \<le> 90 then char_of (n + 32) else c)"

definition digits_value :: "string \<Rightarrow> nat" where
  "digits_value s = foldl (\<lambda>n c. 10 * n + (of_char c - 48)) 0 s"

text \<open>The exponent after the mantissa: nothing, or \<open>e\<close>, a sign, and at least one digit.\<close>

definition exponent_of :: "string \<Rightarrow> int option" where
  "exponent_of s =
     (case s of
        [] \<Rightarrow> Some 0
      | c # rest \<Rightarrow>
          if ascii_lower c \<noteq> CHR ''e'' then None
          else let (neg, ds) = (case rest of
                    x # xs \<Rightarrow> if x = CHR ''-'' then (True, xs) else if x = CHR ''+'' then (False, xs) else (False, rest)
                  | [] \<Rightarrow> (False, []))
            in if ds = [] \<or> \<not> list_all is_digit ds then None
               else Some (if neg then - int (digits_value ds) else int (digits_value ds)))"

definition decimal_of :: "string \<Rightarrow> rat option" where
  "decimal_of s =
     (let whole = takeWhile is_digit s; rest = dropWhile is_digit s;
          frac = (case rest of c # cs \<Rightarrow> if c = CHR ''.'' then takeWhile is_digit cs else [] | [] \<Rightarrow> []);
          rest = (case rest of c # cs \<Rightarrow> if c = CHR ''.'' then dropWhile is_digit cs else rest | [] \<Rightarrow> [])
      in if whole @ frac = [] then None
         else map_option (\<lambda>e. of_nat (digits_value (whole @ frac)) * 10 powi (e - int (length frac))) (exponent_of rest))"

definition parse_f64 :: "string \<Rightarrow> F64 option" where
  "parse_f64 s =
     (let neg = (s \<noteq> [] \<and> hd s = CHR ''-''); body = (if s \<noteq> [] \<and> hd s \<in> {CHR ''-'', CHR ''+''} then tl s else s);
          lower = map ascii_lower body
      in if lower = ''inf'' \<or> lower = ''infinity'' then Some (Infinite neg)
         else if lower = ''nan'' then Some NotNumber
         else map_option (\<lambda>x. Finite (fl (if neg then - x else x))) (decimal_of body))"

section \<open>The radio\<close>

text \<open>\<open>millivolts\<close>: clamped, scaled, rounded, and cast.\<close>

definition millivolts :: "string \<Rightarrow> u32 option" where
  "millivolts volts =
     map_option (\<lambda>v. case v of
         Finite x \<Rightarrow> of_int (round_away (fl (min (max x 0) 5 * 1000)))
       | Infinite neg \<Rightarrow> (if neg then 0 else 5000)
       | NotNumber \<Rightarrow> 0) (parse_f64 volts)"

datatype TcxoCtrlVoltage = Ctrl1V6 | Ctrl1V8 | Ctrl2V2 | Ctrl2V7 | Ctrl3V0 | Ctrl3V3

definition tcxo_control :: "u32 \<Rightarrow> TcxoCtrlVoltage" where
  "tcxo_control mv =
     (if mv < 1700 then Ctrl1V6 else if mv < 1900 then Ctrl1V8 else if mv < 2500 then Ctrl2V2
      else if mv < 2900 then Ctrl2V7 else if mv < 3200 then Ctrl3V0 else Ctrl3V3)"

datatype RadioChoice =
    RadioHub
  | RadioSx1262
  | RadioRNode string
  | RadioBridge string "u32 option" bool
  | RadioSpi string string u32 u32 u32 "u32 option"

text \<open>\<open>str::split\<close> at a character, and \<open>split_once\<close>.\<close>

fun split_at :: "char \<Rightarrow> string \<Rightarrow> string list" where
  "split_at c [] = [[]]"
| "split_at c (x # xs) =
     (if x = c then [] # split_at c xs
      else case split_at c xs of [] \<Rightarrow> [[x]] | w # ws \<Rightarrow> (x # w) # ws)"

definition split_once :: "char \<Rightarrow> string \<Rightarrow> (string \<times> string) option" where
  "split_once c s =
     (case dropWhile (\<lambda>x. x \<noteq> c) s of [] \<Rightarrow> None | _ # rest \<Rightarrow> Some (takeWhile (\<lambda>x. x \<noteq> c) s, rest))"

definition bridge_option :: "string \<Rightarrow> u32 option \<times> bool \<Rightarrow> (u32 option \<times> bool) option" where
  "bridge_option part st =
     (case (split_once CHR ''='' part, st) of
        (Some (name, v), (tcxo, use_dcdc)) \<Rightarrow>
          if name = ''tcxo'' then
            (if v = ''none'' then Some (None, use_dcdc) else map_option (\<lambda>mv. (Some mv, use_dcdc)) (millivolts v))
          else None
      | (None, (tcxo, use_dcdc)) \<Rightarrow> if part = ''ldo'' then Some (tcxo, False) else None)"

fun bridge_options :: "string list \<Rightarrow> u32 option \<times> bool \<Rightarrow> (u32 option \<times> bool) option" where
  "bridge_options [] st = Some st"
| "bridge_options (part # parts) st = Option.bind (bridge_option part st) (bridge_options parts)"

definition parse_bridge :: "string \<Rightarrow> RadioChoice option" where
  "parse_bridge spec =
     (case split_at CHR '','' spec of
        [] \<Rightarrow> None
      | port # parts \<Rightarrow>
          if port = [] then None
          else map_option (\<lambda>(tcxo, use_dcdc). RadioBridge port tcxo use_dcdc) (bridge_options parts (Some 1800, True)))"

record SpiPins =
  sp_busy :: "u32 option"
  sp_dio1 :: "u32 option"
  sp_reset :: "u32 option"
  sp_tcxo :: "u32 option"

definition spi_option :: "string \<Rightarrow> SpiPins \<Rightarrow> SpiPins option" where
  "spi_option part pins =
     (case split_once CHR ''='' part of
        None \<Rightarrow> Some pins
      | Some (name, v) \<Rightarrow>
          if name = ''busy'' then Some (pins\<lparr>sp_busy := map_option of_nat (parse_uint 32 v)\<rparr>)
          else if name = ''dio1'' then Some (pins\<lparr>sp_dio1 := map_option of_nat (parse_uint 32 v)\<rparr>)
          else if name = ''reset'' then Some (pins\<lparr>sp_reset := map_option of_nat (parse_uint 32 v)\<rparr>)
          else if name = ''tcxo'' then map_option (\<lambda>mv. pins\<lparr>sp_tcxo := Some mv\<rparr>) (millivolts v)
          else Some pins)"

fun spi_options :: "string list \<Rightarrow> SpiPins \<Rightarrow> SpiPins option" where
  "spi_options [] pins = Some pins"
| "spi_options (part # parts) pins = Option.bind (spi_option part pins) (spi_options parts)"

definition parse_spi :: "string \<Rightarrow> RadioChoice option" where
  "parse_spi spec =
     (let words = split_at CHR '','' spec; device = hd words;
          gpiochip = (case tl words of [] \<Rightarrow> [] | g # _ \<Rightarrow> g)
      in case spi_options (drop 2 words) \<lparr>sp_busy = None, sp_dio1 = None, sp_reset = None, sp_tcxo = None\<rparr> of
           None \<Rightarrow> None
         | Some pins \<Rightarrow>
             (case (sp_busy pins, sp_dio1 pins, sp_reset pins) of
                (Some busy, Some dio1, Some reset) \<Rightarrow>
                  if device \<noteq> [] \<and> gpiochip \<noteq> [] then Some (RadioSpi device gpiochip busy dio1 reset (sp_tcxo pins)) else None
              | _ \<Rightarrow> None))"

definition starts_with :: "string \<Rightarrow> string \<Rightarrow> bool" where
  "starts_with prefix s = (take (length prefix) s = prefix)"

definition radio_parse :: "string option \<Rightarrow> RadioChoice option" where
  "radio_parse given =
     (case given of
        None \<Rightarrow> Some RadioHub
      | Some spec \<Rightarrow>
          if spec = ''sx1262'' then Some RadioSx1262
          else if starts_with ''rnode:'' spec then Some (RadioRNode (drop 6 spec))
          else if starts_with ''spi:'' spec then parse_spi (drop 4 spec)
          else if starts_with ''bridge:'' spec then parse_bridge (drop 7 spec)
          else Some RadioHub)"

definition radio_name :: "RadioChoice \<Rightarrow> string" where
  "radio_name r = (case r of RadioHub \<Rightarrow> ''hub'' | RadioSx1262 \<Rightarrow> ''sx1262'' | RadioRNode _ \<Rightarrow> ''rnode''
     | RadioBridge _ _ _ \<Rightarrow> ''bridge'' | RadioSpi _ _ _ _ _ _ \<Rightarrow> ''spi'')"

section \<open>The options\<close>

record NodeArgs =
  na_options :: Options
  na_hub :: string
  na_journal :: string
  na_manifest :: "string option"
  na_admin_key :: "string option"
  na_signing_key :: "string option"
  na_radio :: RadioChoice

text \<open>The word after the first one of this name.\<close>

fun arg_value :: "string list \<Rightarrow> string \<Rightarrow> string option" where
  "arg_value [] name = None"
| "arg_value (a # rest) name =
     (if a = name then (case rest of [] \<Rightarrow> None | v # _ \<Rightarrow> Some v) else arg_value rest name)"

definition number_arg :: "string list \<Rightarrow> string \<Rightarrow> nat \<Rightarrow> nat \<Rightarrow> nat" where
  "number_arg args name bits otherwise =
     (case Option.bind (arg_value args name) (parse_uint bits) of None \<Rightarrow> otherwise | Some n \<Rightarrow> n)"

definition from_args :: "bool \<Rightarrow> string list \<Rightarrow> NodeArgs option" where
  "from_args harness args =
     (case (adversary_parse harness (arg_value args ''--adversary''), radio_parse (arg_value args ''--radio'')) of
        (Some adversary, Some radio) \<Rightarrow>
          Some \<lparr>na_options =
              \<lparr>o_index = number_arg args ''--index'' 64 0, o_fleet = number_arg args ''--fleet'' 64 5,
               o_scale = of_nat (number_arg args ''--scale'' 32 100),
               o_offset = (case Option.bind (arg_value args ''--offset'') parse_i64 of None \<Rightarrow> 0 | Some n \<Rightarrow> n),
               o_clock_epoch = of_nat (number_arg args ''--clock-epoch'' 64 1000000),
               o_slots = (''--slots'' \<in> set args), o_guard_ms = of_nat (number_arg args ''--guard-ms'' 64 200),
               o_trigger = (''--trigger'' \<in> set args),
               o_trigger_delay_ms = of_nat (number_arg args ''--trigger-delay-ms'' 64 5000),
               o_attempts = number_arg args ''--attempts'' 64 1, o_ignore_acks = (''--ignore-acks'' \<in> set args),
               o_adversary = adversary, o_prior_airtime_ms = of_nat (number_arg args ''--prior-airtime-ms'' 64 0)\<rparr>,
            na_hub = (case arg_value args ''--hub'' of None \<Rightarrow> ''127.0.0.1:9000'' | Some v \<Rightarrow> v),
            na_journal = (case arg_value args ''--journal'' of None \<Rightarrow> ''node.log'' | Some v \<Rightarrow> v),
            na_manifest = arg_value args ''--manifest'', na_admin_key = arg_value args ''--admin-key'',
            na_signing_key = arg_value args ''--signing-key'', na_radio = radio\<rparr>
      | _ \<Rightarrow> None)"

section \<open>What a specification says is what is chosen\<close>

lemma digits_value_append: "digits_value (s @ [c]) = 10 * digits_value s + (of_char c - 48)"
  by (simp add: digits_value_def)

lemma show_dec_digits: "list_all is_digit (show_dec n)" "digits_value (show_dec n) = n" "show_dec n \<noteq> []"
proof (induction n rule: show_dec.induct)
  case (1 n)
  have d: "is_digit (char_of (48 + k))" "of_char (char_of (48 + k :: nat)) - 48 = k" if "k < 10" for k :: nat
    using that by (simp_all add: is_digit_def)
  show "list_all is_digit (show_dec n)" "digits_value (show_dec n) = n" "show_dec n \<noteq> []"
    using 1 d by (subst show_dec.simps; auto simp: digits_value_append; simp add: digits_value_def)+
qed

lemma parse_show: "n < 2 ^ bits \<Longrightarrow> parse_uint bits (show_dec n) = Some n"
proof -
  assume n: "n < 2 ^ bits"
  have "hd (show_dec n) \<noteq> CHR ''+''"
    using show_dec_digits(1,3) [of n] by (cases "show_dec n") (auto simp: is_digit_def)
  then show ?thesis
    using n show_dec_digits [of n] by (simp add: parse_uint_def parse_unsigned_def digits_value_def Let_def)
qed

lemma show_dec_no_comma: "c \<in> set (show_dec n) \<Longrightarrow> c \<noteq> CHR '',''"
  using show_dec_digits(1) [of n] by (auto simp: list_all_iff is_digit_def)

lemma split_at_append: "c \<notin> set w \<Longrightarrow> split_at c (w @ c # s) = w # split_at c s"
  by (induction w) auto

lemma split_at_alone: "c \<notin> set w \<Longrightarrow> split_at c w = [w]"
  by (induction w) auto

text \<open>
  A specification of a board's pins, in decimal and with paths free of commas, chooses
  exactly that board.
\<close>

theorem spi_spec_chosen:
  assumes "device \<noteq> []" and "gpiochip \<noteq> []" and "CHR '','' \<notin> set device" and "CHR '','' \<notin> set gpiochip"
  shows "radio_parse (Some (''spi:'' @ device @ '','' @ gpiochip @ '',busy='' @ show_dec (unat busy) @ '',dio1='' @ show_dec (unat dio1)
      @ '',reset='' @ show_dec (unat reset))) = Some (RadioSpi device gpiochip busy dio1 reset None)"
proof -
  let ?b = "''busy='' @ show_dec (unat busy)" and ?d = "''dio1='' @ show_dec (unat dio1)" and ?r = "''reset='' @ show_dec (unat reset)"
  have c: "CHR '','' \<notin> set ?b" "CHR '','' \<notin> set ?d" "CHR '','' \<notin> set ?r"
    using show_dec_no_comma by auto
  have "split_at CHR '','' (device @ CHR '','' # gpiochip @ CHR '','' # ?b @ CHR '','' # ?d @ CHR '','' # ?r) = [device, gpiochip, ?b, ?d, ?r]"
    by (simp only: split_at_append [OF assms(3)] split_at_append [OF assms(4)] split_at_append [OF c(1)] split_at_append [OF c(2)]
        split_at_alone [OF c(3)])
  moreover have "split_once CHR ''='' ?b = Some (''busy'', show_dec (unat busy))"
      "split_once CHR ''='' ?d = Some (''dio1'', show_dec (unat dio1))" "split_once CHR ''='' ?r = Some (''reset'', show_dec (unat reset))"
    by (simp_all add: split_once_def)
  moreover have "unat w < 2 ^ 32" for w :: u32 using unsigned_less [of w, where ?'a = nat] by simp
  ultimately show ?thesis
    using assms(1,2) by (simp add: radio_parse_def starts_with_def parse_spi_def Let_def spi_option_def parse_show)
qed

text \<open>The kit the bridge is meant for: 1.8 V and the DC-DC converter, unless told otherwise.\<close>

lemma bridge_spec_chosen:
  assumes "port \<noteq> []" and "CHR '','' \<notin> set port"
  shows "radio_parse (Some (''bridge:'' @ port)) = Some (RadioBridge port (Some 1800) True)"
    and "radio_parse (Some (''bridge:'' @ port @ '',tcxo=none,ldo'')) = Some (RadioBridge port None False)"
proof -
  have "split_at CHR '','' (port @ CHR '','' # ''tcxo=none,ldo'') = [port, ''tcxo=none'', ''ldo'']"
    using split_at_append [OF assms(2)] by simp
  then show "radio_parse (Some (''bridge:'' @ port)) = Some (RadioBridge port (Some 1800) True)"
      "radio_parse (Some (''bridge:'' @ port @ '',tcxo=none,ldo'')) = Some (RadioBridge port None False)"
    using assms split_at_alone [OF assms(2)]
    by (simp_all add: radio_parse_def starts_with_def parse_bridge_def bridge_option_def split_once_def)
qed

text \<open>The voltage chosen is not always the nearest: 1.95 V is nearer to 1.8 V than to 2.2 V.\<close>

lemma tcxo_not_nearest: "tcxo_control 1950 = Ctrl2V2"
  by (simp add: tcxo_control_def)

end
