(* ===== verification/Lcq_Preflight.thy ===== *)
theory Lcq_Preflight
  imports Lcq_Bridge_Correct
begin

text \<open>
  The pre-flight of \<open>src/infrastructure/sx126x/bridge.rs\<close> (\<open>mod diagnostic\<close>): nine questions
  to a board behind the bridge, each attempted whatever came of the ones before. An answer
  is the values the program prints, a failure the values of its message. How long a step
  took is read from the script \<open>took\<close>, the probes of the last step from \<open>probes\<close>. At the
  end: once the device restarts, every later step says so and nothing more is written.
\<close>

definition PROBE_ROUNDS :: nat where "PROBE_ROUNDS = 20"
definition DIAG_GET_STATUS :: u8 where "DIAG_GET_STATUS = 0xC0"
definition DIAG_GET_DEVICE_ERRORS :: u8 where "DIAG_GET_DEVICE_ERRORS = 0x17"
definition DIAG_GET_IRQ_STATUS :: u8 where "DIAG_GET_IRQ_STATUS = 0x12"

datatype StepAnswer =
    SaidHello Hello
  | ResetPulsed
  | BusyLow
  | ChipStatus u8 u8 u8
  | NoDeviceErrors
  | IrqStatus u16
  | NoInterrupt
  | SwitchAccepted
  | RoundTrips duration duration duration

datatype StepFault =
    FaultLink BridgeError
  | FaultRefused u8
  | FaultStatus u8
  | FaultEmpty
  | FaultBusyHigh
  | FaultChip u16
  | FaultShort
  | FaultDio1High
  | FaultSwitchLink string BridgeError
  | FaultSwitch string "u8 option"

record Step =
  st_name :: string
  st_outcome :: "(StepFault, StepAnswer) result"
  st_took :: duration

definition step_passed :: "Step \<Rightarrow> bool" where
  "step_passed s = (case st_outcome s of Inr _ \<Rightarrow> True | Inl _ \<Rightarrow> False)"

definition report_passed :: "Step list \<Rightarrow> bool" where
  "report_passed steps = list_all step_passed steps"

definition first_failure :: "Step list \<Rightarrow> Step option" where
  "first_failure steps = find (\<lambda>s. \<not> step_passed s) steps"

section \<open>One step\<close>

definition diag_spi :: "u8 \<Rightarrow> nat \<Rightarrow> Link \<Rightarrow> (StepFault, bytes) result \<times> Link" where
  "diag_spi opcode reads l =
     (case call_checked SPI (encode_operations [OpWrite [opcode], OpRead (replicate reads 0)]) l of
        (Inl e, l) \<Rightarrow> (Inl (FaultLink e), l)
      | (Inr reply, l) \<Rightarrow>
          (case reply of
             [] \<Rightarrow> (Inl FaultEmpty, l)
           | status # bs \<Rightarrow> if status = STATUS_OK then (Inr bs, l) else (Inl (FaultRefused status), l)))"

definition diag_hello :: "nat \<Rightarrow> bool list \<Rightarrow> Link \<Rightarrow> (StepFault, StepAnswer) result \<times> Link" where
  "diag_hello n patience l =
     (case link_hello n patience l of (Inl e, l) \<Rightarrow> (Inl (FaultLink e), l) | (Inr h, l) \<Rightarrow> (Inr (SaidHello h), l))"

definition diag_reset :: "Link \<Rightarrow> (StepFault, StepAnswer) result \<times> Link" where
  "diag_reset l =
     (case call_checked RESET [] l of
        (Inl e, l) \<Rightarrow> (Inl (FaultLink e), l)
      | (Inr body, l) \<Rightarrow>
          (case body of
             [] \<Rightarrow> (Inl FaultEmpty, l)
           | status # _ \<Rightarrow> if status = STATUS_OK then (Inr ResetPulsed, l) else (Inl (FaultStatus status), l)))"

definition diag_busy :: "Link \<Rightarrow> (StepFault, StepAnswer) result \<times> Link" where
  "diag_busy l =
     (case call_checked WAIT_BUSY (le_bytes 2 BUSY_LIMIT_MS) l of
        (Inl e, l) \<Rightarrow> (Inl (FaultLink e), l)
      | (Inr body, l) \<Rightarrow>
          (case body of
             [] \<Rightarrow> (Inl FaultEmpty, l)
           | status # _ \<Rightarrow>
               if status = STATUS_OK then (Inr BusyLow, l)
               else if status = STATUS_TIMEOUT then (Inl FaultBusyHigh, l)
               else (Inl (FaultStatus status), l)))"

definition diag_status :: "Link \<Rightarrow> (StepFault, StepAnswer) result \<times> Link" where
  "diag_status l =
     (case diag_spi DIAG_GET_STATUS 1 l of
        (Inl e, l) \<Rightarrow> (Inl e, l)
      | (Inr bs, l) \<Rightarrow>
          (let status = (case bs of [] \<Rightarrow> 0 | b # _ \<Rightarrow> b)
           in (Inr (ChipStatus status (drop_bit 4 status AND 0x7) (drop_bit 1 status AND 0x7)), l)))"

definition diag_errors :: "Link \<Rightarrow> (StepFault, StepAnswer) result \<times> Link" where
  "diag_errors l =
     (case diag_spi DIAG_GET_DEVICE_ERRORS 3 l of
        (Inl e, l) \<Rightarrow> (Inl e, l)
      | (Inr bs, l) \<Rightarrow>
          (case bs of
             [_, high, low] \<Rightarrow>
               (let errors = of_be_bytes [high, low]
                in if errors = 0 then (Inr NoDeviceErrors, l) else (Inl (FaultChip errors), l))
           | _ \<Rightarrow> (Inl FaultShort, l)))"

definition diag_irq :: "Link \<Rightarrow> (StepFault, StepAnswer) result \<times> Link" where
  "diag_irq l =
     (case diag_spi DIAG_GET_IRQ_STATUS 3 l of
        (Inl e, l) \<Rightarrow> (Inl e, l)
      | (Inr bs, l) \<Rightarrow>
          (case bs of [_, high, low] \<Rightarrow> (Inr (IrqStatus (of_be_bytes [high, low])), l) | _ \<Rightarrow> (Inl FaultShort, l)))"

definition diag_dio1 :: "Link \<Rightarrow> (StepFault, StepAnswer) result \<times> Link" where
  "diag_dio1 l =
     (case dio1_level l of
        (Inl e, l) \<Rightarrow> (Inl (FaultLink e), l)
      | (Inr high, l) \<Rightarrow> if high then (Inl FaultDio1High, l) else (Inr NoInterrupt, l))"

fun diag_switch :: "(string \<times> u8) list \<Rightarrow> Link \<Rightarrow> (StepFault, StepAnswer) result \<times> Link" where
  "diag_switch [] l = (Inr SwitchAccepted, l)"
| "diag_switch ((name, mode) # modes) l =
     (case call_checked RF [mode] l of
        (Inl e, l) \<Rightarrow> (Inl (FaultSwitchLink name e), l)
      | (Inr body, l) \<Rightarrow>
          (case body of
             [] \<Rightarrow> (Inl (FaultSwitch name None), l)
           | status # _ \<Rightarrow>
               if status \<noteq> STATUS_OK then (Inl (FaultSwitch name (Some status)), l) else diag_switch modes l))"

definition SWITCH_MODES :: "(string \<times> u8) list" where
  "SWITCH_MODES = [(''receive'', RF_RX), (''transmit'', RF_TX), (''off'', RF_OFF)]"

fun diag_probes :: "nat \<Rightarrow> Link \<Rightarrow> (StepFault, unit) result \<times> Link" where
  "diag_probes 0 l = (Inr (), l)"
| "diag_probes (Suc n) l =
     (case diag_spi DIAG_GET_STATUS 1 l of (Inl e, l) \<Rightarrow> (Inl e, l) | (Inr _, l) \<Rightarrow> diag_probes n l)"

text \<open>The median, the ninety-fifth percentile and the longest of what the probes took.\<close>

definition spread_of :: "duration list \<Rightarrow> StepAnswer" where
  "spread_of probes =
     (let took = sort probes; n = length took
      in RoundTrips (took ! min (n * 50 div 100) (n - 1)) (took ! min (n * 95 div 100) (n - 1)) (took ! (n - 1)))"

definition diag_round_trip :: "duration list \<Rightarrow> Link \<Rightarrow> (StepFault, StepAnswer) result \<times> Link" where
  "diag_round_trip probes l =
     (case diag_probes PROBE_ROUNDS l of (Inl e, l) \<Rightarrow> (Inl e, l) | (Inr _, l) \<Rightarrow> (Inr (spread_of probes), l))"

section \<open>The nine of them\<close>

type_synonym question = "string \<times> (Link \<Rightarrow> (StepFault, StepAnswer) result \<times> Link)"

fun ask_all :: "question list \<Rightarrow> duration list \<Rightarrow> Link \<Rightarrow> Step list \<times> Link" where
  "ask_all [] took l = ([], l)"
| "ask_all ((name, ask) # questions) took l =
     (case ask l of (outcome, l) \<Rightarrow>
        case ask_all questions (drop 1 took) l of (steps, l) \<Rightarrow>
          (\<lparr>st_name = name, st_outcome = outcome, st_took = (case took of [] \<Rightarrow> 0 | d # _ \<Rightarrow> d)\<rparr> # steps, l))"

definition speaks :: "nat \<Rightarrow> bool list \<Rightarrow> question list" where
  "speaks n patience = [(''hello'', diag_hello n patience), (''reset'', diag_reset), (''busy low'', diag_busy)]"

definition answers :: "question list" where
  "answers = [(''get status'', diag_status), (''get device errors'', diag_errors), (''get irq status'', diag_irq),
     (''dio1 reads low'', diag_dio1)]"

definition switches :: "duration list \<Rightarrow> question list" where
  "switches probes = [(''rf switch'', diag_switch SWITCH_MODES), (''round trip'', diag_round_trip probes)]"

definition preflight :: "nat \<Rightarrow> bool list \<Rightarrow> duration list \<Rightarrow> duration list \<Rightarrow> Link \<Rightarrow> Step list \<times> Link" where
  "preflight n patience probes took l = ask_all (speaks n patience @ answers @ switches probes) took l"

section \<open>After a restart\<close>

abbreviation "reset_fault l \<equiv> BridgeReset (lk_session l) (lk_session l)"

lemma poisoned_spi: "lk_poisoned l \<Longrightarrow> diag_spi opcode n l = (Inl (FaultLink (reset_fault l)), l)"
  by (simp add: diag_spi_def poisoned_checked)

text \<open>A question that a closed link fails, and that leaves it closed with nothing written.\<close>

definition fails_closed :: "question \<Rightarrow> bool" where
  "fails_closed q = (\<forall>l. lk_poisoned l \<longrightarrow> (\<exists>e l'. snd q l = (Inl e, l') \<and> lk_poisoned l' \<and> lk_written l' = lk_written l))"

lemma questions_fail_closed: "list_all fails_closed (speaks n patience @ answers @ switches probes)"
  by (simp add: speaks_def answers_def switches_def fails_closed_def diag_hello_def diag_reset_def diag_busy_def diag_status_def
      diag_errors_def diag_irq_def diag_dio1_def SWITCH_MODES_def diag_round_trip_def PROBE_ROUNDS_def numeral_eq_Suc
      poisoned_checked poisoned_spi poisoned_level link_hello_def link_drain_def hello_loop.simps [of patience] poisoned_call)

lemma closed_fails_all:
  "list_all fails_closed qs \<Longrightarrow> lk_poisoned l \<Longrightarrow> ask_all qs took l = (steps, l')
    \<Longrightarrow> list_all (\<lambda>s. \<not> step_passed s) steps \<and> lk_written l' = lk_written l"
proof (induction qs arbitrary: took l l' steps)
  case (Cons q qs)
  obtain name ask where q: "q = (name, ask)" by fastforce
  obtain e l1 where ask: "ask l = (Inl e, l1)" "lk_poisoned l1" "lk_written l1 = lk_written l"
    using Cons.prems(1,2) q by (auto simp: fails_closed_def)
  obtain rest l2 where rest: "ask_all qs (drop 1 took) l1 = (rest, l2)" by fastforce
  show ?case
    using Cons.IH [OF _ ask(2) rest] Cons.prems ask rest q by (auto simp: step_passed_def)
qed simp

lemma ask_all_append:
  "ask_all (qs @ rs) took l =
     (case ask_all qs took l of (s1, l1) \<Rightarrow> case ask_all rs (drop (length qs) took) l1 of (s2, l2) \<Rightarrow> (s1 @ s2, l2))"
  by (induction qs arbitrary: took l) (auto split: prod.split)

text \<open>
  A pre-flight that meets a restarted device does not go on with another session: from the
  first question after the link was closed every step fails, and nothing is written.
\<close>

theorem preflight_stops_at_restart:
  assumes "preflight n patience probes took l = (steps, l')" and "k \<le> 9"
    and "ask_all (take k (speaks n patience @ answers @ switches probes)) took l = (before, l1)" and "lk_poisoned l1"
  shows "take k steps = before \<and> list_all (\<lambda>s. \<not> step_passed s) (drop k steps) \<and> lk_written l' = lk_written l1
    \<and> (k < 9 \<longrightarrow> \<not> report_passed steps)"
proof -
  define qs where "qs = speaks n patience @ answers @ switches probes"
  have nine: "length qs = 9" by (simp add: qs_def speaks_def answers_def switches_def)
  note before = assms(3) [folded qs_def]
  obtain after l2 where two: "ask_all (drop k qs) (drop (length (take k qs)) took) l1 = (after, l2)" by fastforce
  have "ask_all (take k qs @ drop k qs) took l = (before @ after, l2)"
    by (simp only: ask_all_append before prod.case two)
  then have "ask_all qs took l = (before @ after, l2)" by (simp only: append_take_drop_id)
  then have all: "steps = before @ after" "l' = l2" using assms(1) by (simp_all add: preflight_def qs_def)
  have len: "length s = length qs" if "ask_all qs took l = (s, l')" for qs took l s l'
    using that by (induction qs arbitrary: took l s l') (auto split: prod.splits)
  have "length before = k" "length after = 9 - k"
    using len [OF before] len [OF two] assms(2) nine by simp_all
  moreover have "list_all fails_closed (take k qs @ drop k qs)"
    using questions_fail_closed by (simp only: append_take_drop_id qs_def)
  then have "list_all fails_closed (drop k qs)" by (simp only: list_all_append)
  then have "list_all (\<lambda>s. \<not> step_passed s) after \<and> lk_written l2 = lk_written l1"
    by (rule closed_fails_all [OF _ assms(4) two])
  ultimately show ?thesis
    by (cases after) (auto simp: all report_passed_def)
qed

text \<open>
  A device that comes back as another session while the second question waits: the first
  two steps fail with the restart, and so do all the others.
\<close>

definition restart_script :: "Recv list" where
  "restart_script =
     [Got (PortFrame ((HELLO OR REPLY) # hello_encode
        \<lparr>he_protocol = 2, he_firmware = (0, 2), he_board = 0xFE, he_session = 5, he_busy = False, he_dio1 = False\<rparr>)),
      TimedOut,
      Got (PortFrame ((HELLO OR REPLY) # hello_encode
        \<lparr>he_protocol = 2, he_firmware = (0, 2), he_board = 0xFE, he_session = 7, he_busy = False, he_dio1 = False\<rparr>))]"

theorem preflight_stops_at_restart_witness:
  "\<exists>steps l'. preflight 0 [] [] [] (sample_link restart_script) = (steps, l')
     \<and> map step_passed (take 2 steps) = [True, False] \<and> list_all (\<lambda>s. \<not> step_passed s) (drop 2 steps)"
proof -
  obtain steps l' where run: "preflight 0 [] [] [] (sample_link restart_script) = (steps, l')" by fastforce
  define first where "first = ask_all (take 2 (speaks 0 [] @ answers @ switches [])) [] (sample_link restart_script)"
  obtain before l1 where two: "first = (before, l1)" by fastforce
  have "lk_poisoned (snd (ask_all (take 2 (speaks 0 [] @ answers @ switches [])) [] (sample_link restart_script)))
      \<and> map step_passed (fst (ask_all (take 2 (speaks 0 [] @ answers @ switches [])) [] (sample_link restart_script))) = [True, False]"
    by code_simp
  then have l1: "lk_poisoned l1" "map step_passed before = [True, False]"
    by (simp_all only: first_def [symmetric] two fst_conv snd_conv)
  have k: "(2 :: nat) \<le> 9" by simp
  show ?thesis using preflight_stops_at_restart [OF run k two [unfolded first_def] l1(1)] run l1(2) by auto
qed

end
