(* ===== verification/Lcq_Attach.thy ===== *)
theory Lcq_Attach
  imports Lcq_Options Lcq_Relay
begin

text \<open>
  Joining the emulated channel: \<open>HubSocket::connect\<close> of \<open>src/infrastructure/hub.rs\<close> on a node's
  side, \<open>accept_nodes\<close> and the command line of \<open>src/bin/lcq-hub.rs\<close> on the other. Whether a
  connection succeeds is a script; a connection the hub accepts is what its peer ever sends
  on it and whether the peer closes it. At the end: what members send after joining reaches
  the relay under their index, and a member that comes back replaces its old connection.
\<close>

section \<open>A node connects\<close>

definition CONNECT_ATTEMPTS :: nat where "CONNECT_ATTEMPTS = 300"
definition CONNECT_PAUSE :: duration where "CONNECT_PAUSE = 100000000"

datatype HubError = Unreachable string | Handshake

text \<open>The attempts, and how long was slept between them; past its end the script refuses.\<close>

fun connect_tries :: "nat \<Rightarrow> bool list \<Rightarrow> bool \<times> duration" where
  "connect_tries 0 outcomes = (False, 0)"
| "connect_tries (Suc n) outcomes =
     (case outcomes of
        True # _ \<Rightarrow> (True, 0)
      | _ \<Rightarrow> case connect_tries n (drop 1 outcomes) of (ok, slept) \<Rightarrow> (ok, slept + CONNECT_PAUSE))"

definition index_bytes :: "nat \<Rightarrow> bytes" where
  "index_bytes index = le_bytes 2 (if index < 2 ^ 16 then of_nat index else 0 :: u16)"

text \<open>Why it failed, or what was written; \<open>shaken\<close> says whether the write and the clone succeed.\<close>

definition hub_connect :: "string \<Rightarrow> nat \<Rightarrow> bool list \<Rightarrow> bool \<Rightarrow> (HubError, bytes) result \<times> duration" where
  "hub_connect address index outcomes shaken =
     (case connect_tries CONNECT_ATTEMPTS outcomes of
        (False, slept) \<Rightarrow> (Inl (Unreachable address), slept)
      | (True, slept) \<Rightarrow> (if shaken then Inr (index_bytes index) else Inl Handshake, slept))"

section \<open>The hub accepts\<close>

record Connection =
  cn_sent :: bytes
  cn_closed :: bool

datatype Accept = Accepted Connection | AcceptFailed

text \<open>The writers: for each index, which of the accepted connections it is written to.\<close>

type_synonym writers = "nat \<rightharpoonup> nat"

text \<open>
  From the connection numbered \<open>n\<close> on: the writers, and what each reader passes on. A
  peer that keeps its connection open and does not say its index holds up the loop.
\<close>

fun accept_nodes :: "nat \<Rightarrow> Accept list \<Rightarrow> writers \<Rightarrow> writers \<times> (nat \<times> bytes list) list" where
  "accept_nodes n [] ws = (ws, [])"
| "accept_nodes n (AcceptFailed # rest) ws = (ws, [])"
| "accept_nodes n (Accepted c # rest) ws =
     (if length (cn_sent c) < 2 then
        (if cn_closed c then accept_nodes (Suc n) rest ws else (ws, []))
      else
        let index = unat (of_le_bytes (take 2 (cn_sent c)) :: u16)
        in case accept_nodes (Suc n) rest (ws(index \<mapsto> n)) of
             (ws, heard) \<Rightarrow> (ws, (index, read_uplink (drop 2 (cn_sent c))) # heard))"

section \<open>The command line of the hub\<close>

record HubArgs =
  ha_bind :: string
  ha_port :: u16
  ha_fleet :: nat
  ha_scale :: u32
  ha_loss :: F64
  ha_partition :: bool
  ha_quiet :: bool
  ha_isolate_ms :: u64
  ha_spacing_m :: "F64 option"

definition hub_from_args :: "string list \<Rightarrow> HubArgs" where
  "hub_from_args args =
     \<lparr>ha_bind = (case arg_value args ''--bind'' of None \<Rightarrow> ''127.0.0.1'' | Some v \<Rightarrow> v),
      ha_port = of_nat (number_arg args ''--port'' 16 0), ha_fleet = number_arg args ''--fleet'' 64 5,
      ha_scale = of_nat (number_arg args ''--scale'' 32 100),
      ha_loss = (case Option.bind (arg_value args ''--loss'') parse_f64 of None \<Rightarrow> Finite 0 | Some x \<Rightarrow> x),
      ha_partition = (''--partition'' \<in> set args), ha_quiet = (''--quiet'' \<in> set args),
      ha_isolate_ms = of_nat (number_arg args ''--isolate-for-ms'' 64 0),
      ha_spacing_m = Option.bind (arg_value args ''--spacing-m'') parse_f64\<rparr>"

section \<open>What a connection carries\<close>

lemma connect_tries_first:
  "k < n \<Longrightarrow> connect_tries n (replicate k False @ True # rest) = (True, int k * CONNECT_PAUSE)"
proof (induction k arbitrary: n)
  case 0
  then show ?case by (cases n) simp_all
next
  case (Suc k)
  then obtain m where "n = Suc m" "k < m" by (cases n) auto
  with Suc.IH [of m] show ?case by (simp add: algebra_simps)
qed

lemma connect_tries_never:
  "True \<notin> set (take n outcomes) \<Longrightarrow> connect_tries n outcomes = (False, int n * CONNECT_PAUSE)"
proof (induction n arbitrary: outcomes)
  case (Suc n)
  have "True \<notin> set (take n (drop 1 outcomes))" using Suc.prems by (cases outcomes) auto
  from Suc.IH [OF this] show ?case
    using Suc.prems by (cases outcomes) (auto simp: algebra_simps split: bool.splits)
qed simp

text \<open>
  A node keeps trying for thirty seconds, no less and no more: it joins at the first
  attempt among three hundred that succeeds, a tenth of a second apart.
\<close>

theorem connect_patience:
  shows "k < 300 \<Longrightarrow> hub_connect address index (replicate k False @ True # rest) True
      = (Inr (index_bytes index), int k * 100000000)"
    and "True \<notin> set (take 300 outcomes) \<Longrightarrow> hub_connect address index outcomes shaken
      = (Inl (Unreachable address), 30000000000)"
  using connect_tries_first [of k CONNECT_ATTEMPTS rest] connect_tries_never [of CONNECT_ATTEMPTS outcomes]
  by (simp_all add: hub_connect_def CONNECT_ATTEMPTS_def CONNECT_PAUSE_def)

lemma index_bytes_length [simp]: "length (index_bytes index) = 2"
  by (simp add: index_bytes_def)

lemma index_bytes_read:
  "unat (of_le_bytes (index_bytes index) :: u16) = (if index < 2 ^ 16 then index else 0)"
proof -
  have "of_le_bytes (le_bytes 2 v) = v" for v :: u16
    using of_le_bytes_of_le_bytes_full [of 2 v] by simp
  then show ?thesis by (simp add: index_bytes_def unat_of_nat take_bit_nat_eq_self)
qed

text \<open>A member as a connection: its index, then its frames.\<close>

definition joining :: "nat \<times> bytes list \<Rightarrow> Accept" where
  "joining m = Accepted \<lparr>cn_sent = index_bytes (fst m) @ concat (map hub_send (snd m)), cn_closed = False\<rparr>"

definition sendable :: "bytes \<Rightarrow> bool" where
  "sendable frame = (frame \<noteq> [] \<and> length frame \<le> MAX_SOCKET_FRAME_BYTES)"

lemma accept_joining:
  assumes "fst m < 2 ^ 16" and "list_all sendable (snd m)"
  shows "accept_nodes n (joining m # rest) ws
    = (case accept_nodes (Suc n) rest (ws(fst m \<mapsto> n)) of (ws, heard) \<Rightarrow> (ws, m # heard))"
proof -
  have "read_uplink (concat (map hub_send (snd m))) = snd m"
    using read_uplink_stream [of "snd m" "[]"] assms(2) by (simp add: sendable_def [abs_def])
  then show ?thesis
    using assms(1) index_bytes_read [of "fst m"] by (simp add: joining_def Let_def split: prod.split)
qed

text \<open>
  Whoever joins, and however often it comes back, the relay hears each member's frames
  whole, in order and under its own index, and writes to the newest connection of each.
\<close>

theorem members_heard:
  assumes "list_all (\<lambda>(index, frames). index < 2 ^ 16 \<and> list_all sendable frames) ms"
    and "accept_nodes 0 (map joining ms) (\<lambda>_. None) = (ws, heard)"
  shows "heard = ms \<and> (\<forall>index. ws index
    = (case filter (\<lambda>i. fst (ms ! i) = index) (rev [0..<length ms]) of [] \<Rightarrow> None | i # _ \<Rightarrow> Some i))"
proof -
  have run: "accept_nodes n (map joining ms) ws0
      = (foldl (\<lambda>ws (i, m). ws(fst m \<mapsto> i)) ws0 (enumerate n ms), ms)" for n ws0
    using assms(1)
  proof (induction ms arbitrary: n ws0)
    case (Cons m ms)
    then show ?case by (cases m) (simp add: accept_joining del: fun_upd_apply)
  qed simp
  have newest: "foldl (\<lambda>ws (i, m). ws(fst m \<mapsto> i)) (\<lambda>_. None) (enumerate 0 ms) index
      = (case filter (\<lambda>i. fst (ms ! i) = index) (rev [0..<length ms]) of [] \<Rightarrow> None | i # _ \<Rightarrow> Some i)" for index
  proof (induction ms rule: rev_induct)
    case (snoc m ms)
    have "filter (\<lambda>i. fst ((ms @ [m]) ! i) = index) (rev [0..<length ms]) = filter (\<lambda>i. fst (ms ! i) = index) (rev [0..<length ms])"
      by (rule filter_cong) (auto simp: nth_append)
    with snoc show ?case by (simp add: enumerate_append_eq)
  qed simp
  have "ws = foldl (\<lambda>ws (i, m). ws(fst m \<mapsto> i)) (\<lambda>_. None) (enumerate 0 ms)" "heard = ms"
    using assms(2) unfolding run by auto
  then show ?thesis by (simp only: newest simp_thms)
qed

text \<open>A member refloated: its second connection replaces the first, and both of its frames are heard.\<close>

theorem members_heard_witness:
  "\<exists>ws. accept_nodes 0 (map joining [(3, [[1, 2]]), (0, []), (3, [[7]])]) (\<lambda>_. None)
      = (ws, [(3, [[1, 2]]), (0, []), (3, [[7]])]) \<and> ws 3 = Some 2 \<and> ws 0 = Some 1"
proof -
  let ?ms = "[(3, [[1, 2]]), (0, []), (3, [[7]])] :: (nat \<times> bytes list) list"
  obtain ws heard where run: "accept_nodes 0 (map joining ?ms) (\<lambda>_. None) = (ws, heard)" by fastforce
  have ok: "list_all (\<lambda>(index, frames). index < 2 ^ 16 \<and> list_all sendable frames) ?ms"
    by (simp add: sendable_def hub_sizes)
  have "rev [0..<length ?ms] = [2, 1, 0]" by (simp add: numeral_eq_Suc)
  then show ?thesis using members_heard [OF ok run] run by (auto simp: numeral_eq_Suc)
qed

text \<open>
  An index over 65535 joins as member 0, and a peer that says nothing on a connection it
  keeps open shuts out everybody who connects after it.
\<close>

lemma large_index_joins_as_zero: "2 ^ 16 \<le> index \<Longrightarrow> index_bytes index = index_bytes 0"
  by (simp add: index_bytes_def)

lemma silent_peer_shuts_out:
  "accept_nodes n (Accepted \<lparr>cn_sent = [], cn_closed = False\<rparr> # rest) ws = (ws, [])"
  by simp

end
