(* ===== verification/Lcq_Rnode_Radio.thy ===== *)
theory Lcq_Rnode_Radio
  imports Lcq_Rnode Lcq_Clock "HOL-Library.Sublist"
begin

text \<open>
  \<open>RNodeRadio\<close> of \<open>src/infrastructure/rnode.rs\<close>: the link of \<open>Lcq_Rnode\<close> between two threads.
  The host starts it, transmits and polls; the port thread writes what the channel between
  them carries and reads the device. Each holds the link's lock for one step and goes on
  alone in the next, so a run is a sequence of such steps in any order (only \<open>open\<close> keeps the
  lock while it sends; leaving that out allows more orders, not fewer). What the port
  answers (a write cut short, what a read returns) is free. At the end: however the two
  threads interleave, the device reads the bring-up and then the packets that were taken.
\<close>

section \<open>The two threads\<close>

text \<open>Where each thread is: the bytes are those it took from the link and has not passed on.\<close>

datatype HostPhase = HostNew | HostIdle | HostSends bytes
datatype PumpPhase = PumpDrains | PumpReads | PumpWrites bytes | PumpGone

record RNodeRun =
  rn_link :: RNodeLink
  rn_host :: HostPhase
  rn_channel :: "bytes list"
  rn_pump :: PumpPhase
  rn_port :: bytes
  rn_taken :: "bytes list"

definition rnode_new :: "PhyProfile \<Rightarrow> RNodeRun" where
  "rnode_new profile =
     \<lparr>rn_link = link_new profile, rn_host = HostNew, rn_channel = [], rn_pump = PumpDrains, rn_port = [], rn_taken = []\<rparr>"

definition rnode_start :: "RNodeRun \<Rightarrow> RNodeRun" where
  "rnode_start r = (case take_outbound (link_start (rn_link r)) of (out, l) \<Rightarrow> r\<lparr>rn_link := l, rn_host := HostSends out\<rparr>)"

text \<open>\<open>transmit\<close>, up to where it lets go of the lock; \<open>rn_taken\<close> counts what the link took.\<close>

definition rnode_transmit :: "bytes \<Rightarrow> RNodeRun \<Rightarrow> (RadioError, unit) result \<times> RNodeRun" where
  "rnode_transmit bs r =
     (case link_transmit (rn_link r) bs of
        (Inl e, l) \<Rightarrow> (Inl e, r\<lparr>rn_link := l\<rparr>)
      | (Inr _, l) \<Rightarrow>
          (case take_outbound l of
             (out, l) \<Rightarrow> (Inr (), r\<lparr>rn_link := l, rn_host := HostSends out, rn_taken := rn_taken r @ [bs]\<rparr>)))"

text \<open>Its last line: the channel refuses once the port thread is gone.\<close>

definition rnode_send :: "bytes \<Rightarrow> RNodeRun \<Rightarrow> (RadioError, unit) result \<times> RNodeRun" where
  "rnode_send out r =
     (if rn_pump r = PumpGone then (Inl Offline, r\<lparr>rn_host := HostIdle\<rparr>)
      else (Inr (), r\<lparr>rn_host := HostIdle, rn_channel := rn_channel r @ [out]\<rparr>))"

definition rnode_poll :: "RNodeRun \<Rightarrow> RadioEvent option \<times> RNodeRun" where
  "rnode_poll r = (case link_poll (rn_link r) of (e, l) \<Rightarrow> (e, r\<lparr>rn_link := l\<rparr>))"

text \<open>A write to the port: all of it, or as much as went out before it failed.\<close>

definition port_write :: "bytes \<Rightarrow> nat option \<Rightarrow> RNodeRun \<Rightarrow> RNodeRun" where
  "port_write bs broke r =
     (case broke of
        None \<Rightarrow> r\<lparr>rn_port := rn_port r @ bs, rn_pump := PumpDrains\<rparr>
      | Some k \<Rightarrow> r\<lparr>rn_port := rn_port r @ take k bs, rn_pump := PumpGone\<rparr>)"

definition pump_drain :: "nat option \<Rightarrow> RNodeRun \<Rightarrow> RNodeRun" where
  "pump_drain broke r =
     (case rn_channel r of
        [] \<Rightarrow> r\<lparr>rn_pump := PumpReads\<rparr>
      | bs # rest \<Rightarrow> port_write bs broke (r\<lparr>rn_channel := rest\<rparr>))"

datatype SerialRead = GotBytes bytes | GotNothing | PortBroken

definition pump_read :: "SerialRead \<Rightarrow> RNodeRun \<Rightarrow> RNodeRun" where
  "pump_read answer r =
     (case answer of
        GotBytes bs \<Rightarrow>
          if bs = [] then r\<lparr>rn_pump := PumpDrains\<rparr>
          else (case take_outbound (on_serial (rn_link r) bs) of
                  (pending, l) \<Rightarrow> r\<lparr>rn_link := l, rn_pump := (if pending = [] then PumpDrains else PumpWrites pending)\<rparr>)
      | GotNothing \<Rightarrow> r\<lparr>rn_pump := PumpDrains\<rparr>
      | PortBroken \<Rightarrow> r\<lparr>rn_pump := PumpGone\<rparr>)"

inductive rnode_step :: "RNodeRun \<Rightarrow> RNodeRun \<Rightarrow> bool" where
  Start: "rn_host r = HostNew \<Longrightarrow> rnode_step r (rnode_start r)"
| Transmit: "rn_host r = HostIdle \<Longrightarrow> rnode_step r (snd (rnode_transmit bs r))"
| Send: "rn_host r = HostSends out \<Longrightarrow> rnode_step r (snd (rnode_send out r))"
| Poll: "rn_host r = HostIdle \<Longrightarrow> rnode_step r (snd (rnode_poll r))"
| Drain: "rn_pump r = PumpDrains \<Longrightarrow> rnode_step r (pump_drain broke r)"
| Read: "rn_pump r = PumpReads \<Longrightarrow> rnode_step r (pump_read answer r)"
| Write: "rn_pump r = PumpWrites bs \<Longrightarrow> rnode_step r (port_write bs broke r)"

inductive rnode_reach :: "PhyProfile \<Rightarrow> RNodeRun \<Rightarrow> bool" for profile where
  New: "rnode_reach profile (rnode_new profile)"
| Step: "rnode_reach profile r \<Longrightarrow> rnode_step r r' \<Longrightarrow> rnode_reach profile r'"

inductive_cases rnode_stepE: "rnode_step r r'"

section \<open>Waiting for the radio\<close>

datatype RNodeError = PortError | NotDetected | RadioOff

text \<open>
  The loop of \<open>open\<close> over what it finds each time it looks: the link, and the instant. Past
  the end of the script it is still waiting.
\<close>

definition BRING_UP_TIMEOUT :: duration where "BRING_UP_TIMEOUT = 5000000000"

fun bring_up_wait :: "instant \<Rightarrow> (RNodeLink \<times> instant) list \<Rightarrow> (RNodeError, unit) result option" where
  "bring_up_wait deadline [] = None"
| "bring_up_wait deadline ((l, now) # rest) =
     (if rl_online l then Some (Inr ())
      else if deadline \<le> now then Some (Inl (if rl_detected l then RadioOff else NotDetected))
      else bring_up_wait deadline rest)"

definition rnode_open :: "instant \<Rightarrow> (RNodeLink \<times> instant) list \<Rightarrow> (RNodeError, unit) result option" where
  "rnode_open started looks = bring_up_wait (started + BRING_UP_TIMEOUT) looks"

text \<open>
  Opening never waits past its five seconds, and never hands out a radio that has not said
  it is on.
\<close>

lemma open_decides:
  assumes "(l, now) \<in> set looks" and "started + 5000000000 \<le> now"
  shows "rnode_open started looks \<noteq> None"
proof -
  have "bring_up_wait deadline looks \<noteq> None" if "(l, now) \<in> set looks" "deadline \<le> now" for deadline
    using that by (induction deadline looks rule: bring_up_wait.induct) auto
  then show ?thesis using assms by (simp add: rnode_open_def BRING_UP_TIMEOUT_def)
qed

lemma open_means_on: "rnode_open started looks = Some (Inr ()) \<Longrightarrow> \<exists>(l, now) \<in> set looks. rl_online l"
proof -
  have "bring_up_wait deadline looks = Some (Inr ()) \<Longrightarrow> \<exists>(l, now) \<in> set looks. rl_online l" for deadline
    by (induction deadline looks rule: bring_up_wait.induct) (auto split: if_splits)
  then show "rnode_open started looks = Some (Inr ()) \<Longrightarrow> ?thesis" by (simp add: rnode_open_def)
qed

section \<open>What the device reads\<close>

text \<open>Everything the host means the device to read, and what of it is on its way.\<close>

definition meant :: "PhyProfile \<Rightarrow> RNodeRun \<Rightarrow> bytes" where
  "meant profile r = (if rn_host r = HostNew then [] else kiss_stream (bring_up profile @ map (Pair CMD_DATA) (rn_taken r)))"

definition on_its_way :: "RNodeRun \<Rightarrow> bytes" where
  "on_its_way r = rn_port r @ concat (rn_channel r) @ (case rn_host r of HostSends out \<Rightarrow> out | _ \<Rightarrow> [])"

definition rnode_inv :: "PhyProfile \<Rightarrow> RNodeRun \<Rightarrow> bool" where
  "rnode_inv profile r =
     (rl_outbound (rn_link r) = [] \<and> rl_profile (rn_link r) = profile \<and> (\<forall>bs. rn_pump r \<noteq> PumpWrites bs)
      \<and> (rn_host r = HostNew \<longrightarrow> rn_taken r = []) \<and> (\<forall>bs \<in> set (rn_taken r). length bs \<le> MAX_PACKET_BYTES)
      \<and> (if rn_pump r = PumpGone then prefix (rn_port r) (meant profile r) else on_its_way r = meant profile r))"

lemma kiss_stream_append: "kiss_stream (xs @ ys) = kiss_stream xs @ kiss_stream ys"
  by (simp add: kiss_stream_def)

lemma profile_frames [simp]: "rl_profile (foldl on_frame l fs) = rl_profile l"
proof (induction fs arbitrary: l)
  case (Cons f fs)
  then show ?case by (cases f rule: frame_cases; simp add: on_frame_simps split: option.split list.split)
qed simp

lemma rnode_inv_start:
  assumes "rnode_inv profile r" and "rn_host r = HostNew"
  shows "rnode_inv profile (rnode_start r)"
proof -
  have "rl_profile (link_start l) = rl_profile l" for l
    by (simp add: link_start_def bring_up_def link_queue_def)
  then show ?thesis
    using assms start_outbound [of "rn_link r"]
    by (auto simp: rnode_inv_def rnode_start_def take_outbound_def meant_def on_its_way_def split: if_splits)
qed

lemma rnode_inv_transmit:
  assumes "rnode_inv profile r" and "rn_host r = HostIdle"
  shows "rnode_inv profile (snd (rnode_transmit bs r))"
proof (cases "fst (link_transmit (rn_link r) bs)")
  case (Inl e)
  then show ?thesis
    using assms by (auto simp: rnode_inv_def rnode_transmit_def link_transmit_def meant_def on_its_way_def split: if_splits)
next
  case (Inr u)
  let ?r = "snd (rnode_transmit bs r)"
  have fits: "length bs \<le> MAX_PACKET_BYTES" and l: "link_transmit (rn_link r) bs = (Inr (), link_queue CMD_DATA bs (rn_link r))"
    using Inr by (auto simp: link_transmit_def split: if_splits)
  have r: "?r = r\<lparr>rn_link := (rn_link r)\<lparr>rl_outbound := []\<rparr>, rn_host := HostSends (kiss_encode CMD_DATA bs), rn_taken := rn_taken r @ [bs]\<rparr>"
    using assms(1) by (simp add: rnode_transmit_def l take_outbound_def link_queue_def rnode_inv_def)
  have "meant profile ?r = meant profile r @ kiss_encode CMD_DATA bs"
    using assms(2) by (simp add: meant_def r kiss_stream_def)
  moreover have "on_its_way ?r = on_its_way r @ kiss_encode CMD_DATA bs"
    using assms(2) by (simp add: on_its_way_def r)
  ultimately show ?thesis using assms(1) fits by (auto simp: rnode_inv_def r)
qed

lemma rnode_inv_send: "rnode_inv profile r \<Longrightarrow> rn_host r = HostSends out \<Longrightarrow> rnode_inv profile (snd (rnode_send out r))"
  by (auto simp: rnode_inv_def rnode_send_def meant_def on_its_way_def split: if_splits)

lemma rnode_inv_poll: "rnode_inv profile r \<Longrightarrow> rnode_inv profile (snd (rnode_poll r))"
  by (auto simp: rnode_inv_def rnode_poll_def link_poll_def meant_def on_its_way_def split: if_splits list.splits)

lemma rnode_inv_drain: "rnode_inv profile r \<Longrightarrow> rn_pump r = PumpDrains \<Longrightarrow> rnode_inv profile (pump_drain broke r)"
proof -
  assume inv: "rnode_inv profile r" and drains: "rn_pump r = PumpDrains"
  have cut_short: "prefix (rn_port r @ take k bs) (rn_port r @ bs @ rest)" for k bs rest
    by (simp add: prefix_def) (metis append.assoc append_take_drop_id)
  show ?thesis
  proof (cases "rn_channel r")
    case Nil
    then show ?thesis using inv drains by (simp add: rnode_inv_def pump_drain_def meant_def on_its_way_def)
  next
    case (Cons bs rest)
    then show ?thesis
      using inv drains cut_short [of _ bs "concat rest @ (case rn_host r of HostSends out \<Rightarrow> out | _ \<Rightarrow> [])"]
      by (cases broke) (auto simp: rnode_inv_def pump_drain_def port_write_def meant_def on_its_way_def)
  qed
qed

lemma port_meant: "rnode_inv profile r \<Longrightarrow> prefix (rn_port r) (meant profile r)"
  by (cases "rn_pump r = PumpGone") (auto simp: rnode_inv_def on_its_way_def intro: prefixI [OF sym])

lemma rnode_inv_read: "rnode_inv profile r \<Longrightarrow> rn_pump r = PumpReads \<Longrightarrow> rnode_inv profile (pump_read answer r)"
proof (cases answer)
  case PortBroken
  assume inv: "rnode_inv profile r"
  then show ?thesis
    using port_meant [OF inv] by (auto simp: PortBroken pump_read_def rnode_inv_def meant_def split: if_splits)
qed (simp_all add: rnode_inv_def pump_read_def on_serial_eq take_outbound_def meant_def on_its_way_def)

lemma rnode_inv_reach: "rnode_reach profile r \<Longrightarrow> rnode_inv profile r"
proof (induction rule: rnode_reach.induct)
  case New
  then show ?case by (simp add: rnode_inv_def rnode_new_def link_new_def meant_def on_its_way_def)
next
  case (Step r r')
  from Step.hyps(2) show ?case
  proof (cases rule: rnode_step.cases)
    case (Write bs broke)
    with Step.IH show ?thesis by (simp add: rnode_inv_def)
  qed (use Step.IH in \<open>simp_all add: rnode_inv_start rnode_inv_transmit rnode_inv_send rnode_inv_poll rnode_inv_drain rnode_inv_read\<close>)
qed

text \<open>
  (C27) Whatever the two threads do in whatever order, and wherever the port breaks, the device
  reads a beginning of this: the bring-up, then the packets that were taken, in order, each
  whole. When nothing is on its way any more, it has read all of it.
\<close>

theorem device_reads_taken:
  assumes "rnode_reach profile r" and "MAX_PACKET_BYTES < limit"
  shows "prefix (snd (deframer_push (deframer_new limit) (rn_port r)))
      (map (\<lambda>(c, payload). c # payload) (bring_up profile) @ map ((#) CMD_DATA) (rn_taken r))
    \<and> (rn_pump r \<noteq> PumpGone \<and> rn_host r = HostIdle \<and> rn_channel r = [] \<longrightarrow>
       snd (deframer_push (deframer_new limit) (rn_port r))
         = map (\<lambda>(c, payload). c # payload) (bring_up profile) @ map ((#) CMD_DATA) (rn_taken r))"
proof -
  let ?ms = "bring_up profile @ map (Pair CMD_DATA) (rn_taken r)"
  note inv = rnode_inv_reach [OF assms(1), unfolded rnode_inv_def]
  have "\<forall>m \<in> set ?ms. fits limit m"
    using inv assms(2) by (auto simp: bring_up_def fits_def kiss_bytes command_bytes MAX_PACKET_BYTES_def)
  then have read: "snd (deframer_push (deframer_new limit) (kiss_stream ?ms))
      = map (\<lambda>(c, payload). c # payload) (bring_up profile) @ map ((#) CMD_DATA) (rn_taken r)"
    using push_encode [of "deframer_new limit" CMD_DETECT "[DETECT_REQUEST]"] push_stream [of "tl ?ms" limit]
    by (simp add: bring_up_def kiss_stream_def deframer_push_append deframer_new_def unfinished_def split_beta comp_def)
  have grow: "prefix (snd (deframer_push d xs)) (snd (deframer_push d ys))" if "prefix xs ys" for d xs ys
    using that by (auto simp: prefix_def deframer_push_append)
  have "prefix (meant profile r) (kiss_stream ?ms)" by (simp add: meant_def)
  then have all: "prefix (rn_port r) (kiss_stream ?ms)"
    using port_meant [OF rnode_inv_reach [OF assms(1)]] by (rule prefix_order.trans [rotated])
  show ?thesis
  proof (intro conjI impI)
    show "prefix (snd (deframer_push (deframer_new limit) (rn_port r)))
        (map (\<lambda>(c, payload). c # payload) (bring_up profile) @ map ((#) CMD_DATA) (rn_taken r))"
      by (rule grow [OF all, of "deframer_new limit", unfolded read])
  next
    assume "rn_pump r \<noteq> PumpGone \<and> rn_host r = HostIdle \<and> rn_channel r = []"
    then have "rn_port r = kiss_stream ?ms" using inv by (simp add: meant_def on_its_way_def)
    then show "snd (deframer_push (deframer_new limit) (rn_port r))
        = map (\<lambda>(c, payload). c # payload) (bring_up profile) @ map ((#) CMD_DATA) (rn_taken r)"
      by (simp only: read)
  qed
qed

text \<open>
  A run: the host starts, the device says its radio is on while the bring-up still waits in
  the channel, and a packet taken before the bring-up is written is written after it.
\<close>

theorem device_reads_taken_witness:
  "\<exists>r. rnode_reach eu868_sf10 r \<and> rn_taken r = [[7, 0xC0]]
     \<and> snd (deframer_push (deframer_new 600) (rn_port r))
       = map (\<lambda>(c, payload). c # payload) (bring_up eu868_sf10) @ [[CMD_DATA, 7, 0xC0]]"
proof -
  let ?r1 = "pump_drain None (rnode_new eu868_sf10)"
  let ?r2 = "rnode_start ?r1"
  let ?up = "kiss_stream (bring_up eu868_sf10)" and ?packet = "kiss_encode CMD_DATA [7, 0xC0]"
  let ?r3 = "pump_read (GotBytes [0xC0, 6, 1, 0xC0]) ?r2"
  let ?r4 = "snd (rnode_send ?up ?r3)"
  let ?r5 = "snd (rnode_transmit [7, 0xC0] ?r4)"
  let ?r6 = "pump_drain None ?r5"
  let ?r7 = "snd (rnode_send ?packet ?r6)"
  let ?r8 = "pump_drain None ?r7"
  have "rn_pump (rnode_new eu868_sf10) = PumpDrains" by code_simp
  from Step [OF New Drain [OF this]] have "rnode_reach eu868_sf10 ?r1" .
  moreover have "rn_host ?r1 = HostNew" by code_simp
  ultimately have "rnode_reach eu868_sf10 ?r2" by (rule Step [OF _ Start])
  moreover have "rn_pump ?r2 = PumpReads" by code_simp
  ultimately have "rnode_reach eu868_sf10 ?r3" by (rule Step [OF _ Read])
  moreover have "rn_host ?r3 = HostSends ?up" by code_simp
  ultimately have "rnode_reach eu868_sf10 ?r4" by (rule Step [OF _ Send])
  moreover have "rn_host ?r4 = HostIdle" by code_simp
  ultimately have "rnode_reach eu868_sf10 ?r5" by (rule Step [OF _ Transmit])
  moreover have "rn_pump ?r5 = PumpDrains" by code_simp
  ultimately have "rnode_reach eu868_sf10 ?r6" by (rule Step [OF _ Drain])
  moreover have "rn_host ?r6 = HostSends ?packet" by code_simp
  ultimately have "rnode_reach eu868_sf10 ?r7" by (rule Step [OF _ Send])
  moreover have "rn_pump ?r7 = PumpDrains" by code_simp
  ultimately have reach: "rnode_reach eu868_sf10 ?r8" by (rule Step [OF _ Drain])
  have quiet: "rn_pump ?r8 \<noteq> PumpGone \<and> rn_host ?r8 = HostIdle \<and> rn_channel ?r8 = []" by code_simp
  have taken: "rn_taken ?r8 = [[7, 0xC0]]" by code_simp
  have "MAX_PACKET_BYTES < 600" by (simp add: MAX_PACKET_BYTES_def)
  from device_reads_taken [OF reach this] quiet have "snd (deframer_push (deframer_new 600) (rn_port ?r8))
      = map (\<lambda>(c, payload). c # payload) (bring_up eu868_sf10) @ map ((#) CMD_DATA) (rn_taken ?r8)" by blast
  also have "map ((#) CMD_DATA) (rn_taken ?r8) = [[CMD_DATA, 7, 0xC0]]" unfolding taken by simp
  finally show ?thesis using reach taken by blast
qed

end
