(* ===== verification/Lcq_Node_Rule.thy ===== *)
theory Lcq_Node_Rule
  imports Lcq_Node
begin

text \<open>
  The rule by which an invariant of the running node is proved: what it has to be kept by
  (a reading of the clock, a transmission, a received frame, a built frame, the state
  machine, the queue) as the assumptions of a locale, and the whole loop keeping it as the
  conclusion. The fields outside \<open>core\<close> never matter to an invariant proved this way.
\<close>

definition core where
  "core w = (ev_now (nd_env w), ev_polls (nd_env w), ev_aired (nd_env w), nd_started w, nd_began w, nd_clock w, nd_journal w, nd_case w,
     nd_budget w, nd_heard w, nd_forwards w, nd_early w, nd_split w, nd_foreign w, nd_windows w)"

text \<open>
  \<open>K\<close> holds the frames the node reads or was left by an earlier life, \<open>B\<close> those it builds,
  \<open>V\<close> the members whose votes it may count, \<open>D\<close> those it may find disagreeing with it, and
  \<open>fits w bs\<close> says that \<open>bs\<close> may go on the air in \<open>w\<close>.
\<close>

locale node_running =
  fixes cx :: Ctx and I :: "Node \<Rightarrow> bool" and fits :: "Node \<Rightarrow> bytes \<Rightarrow> bool" 
    and K B :: "bytes set" and V D :: "nat set"
  assumes quiet: "core w' = core w \<Longrightarrow> I w \<Longrightarrow> I w'"
    and now: "keeps I instant_now"
    and transmit: "valid (\<lambda>w. I w \<and> fits w bs) (node_transmit cx bs) (\<lambda>_. I)"
    and receive: "valid I node_receive (\<lambda>r w. I w \<and> (\<forall>f. r = Some f \<longrightarrow> f \<in> K))"
    and seen: "keeps I (note_seen cx m q)"
    and stage: "valid I (with_journal (\<lambda>j. build cx stg j h rnd))
      (\<lambda>r w. I w \<and> (\<forall>bs. r = Inr bs \<longrightarrow> bs \<in> B \<and> fits w bs))"
    and nack: "valid I (with_journal (\<lambda>j. build_nack cx j h rnd)) (\<lambda>r w. I w \<and> (\<forall>bs. r = Inr bs \<longrightarrow> fits w bs))"
    and trigger: "valid I (with_journal (\<lambda>j. build_trigger cx j rnd)) (\<lambda>r w. I w \<and> (\<forall>bs. r = Inr bs \<longrightarrow> fits w bs))"
    and admit: "f \<in> K \<Longrightarrow> valid I (admit_frame cx f) (\<lambda>ad w. I w
      \<and> ((\<forall>m. ad_binding_from ad = Some m \<longrightarrow> m \<in> V) \<and> (\<forall>m q. ad_verified ad = Some (m, q) \<longrightarrow> m \<in> D)))"
    and admit_own: "f \<in> B \<Longrightarrow> valid I (admit_frame cx f) (\<lambda>ad w. I w \<and> (\<forall>m. ad_binding_from ad = Some m \<longrightarrow> m \<in> V))"
    and opened: "f \<in> K \<Longrightarrow> trigger_round cx mt f = (Some (rnd2, m, q), mt') \<Longrightarrow> m \<in> D"
    and count: "f \<in> K \<Longrightarrow> \<forall>m. ad_binding_from ad = Some m \<longrightarrow> m \<in> V \<Longrightarrow> keeps I (count_vote cx ad f)"
    and self: "m \<in> V \<Longrightarrow> I w \<Longrightarrow> I (nd_heard_update (\<lambda>h. heard_from h m) w)"
    and hold: "f \<in> K \<Longrightarrow> I w \<Longrightarrow> I (nd_early_update (bt_insert m f) w)"
    and held: "I w \<Longrightarrow> snd ` set (nd_early w) \<subseteq> K"
    and released: "I w \<Longrightarrow> I (nd_early_update (\<lambda>_. []) w)"
    and close: "I w \<Longrightarrow> close_consultation (nd_case w) stamp = (r, c) \<Longrightarrow> I (w\<lparr>nd_case := c\<rparr>)"
    and answer: "I w \<Longrightarrow> I (w\<lparr>nd_forwards := snd (queue_answer cx ad m (nd_journal w) (nd_forwards w))\<rparr>)"
    and carry: "I w \<Longrightarrow> take_next (nd_forwards w) = (x, rest) \<Longrightarrow>
      I (w\<lparr>nd_forwards := rest\<rparr>) \<and> (\<forall>f. x = Some f \<longrightarrow> fits (w\<lparr>nd_forwards := rest\<rparr>) (frame_bytes f))"
    and foreign: "m \<in> D \<Longrightarrow> I w \<Longrightarrow> I (nd_foreign_update (bt_insert m ()) w)"
    and split: "I w \<Longrightarrow> I (w\<lparr>nd_split := note_split (nd_split w) (nd_foreign w)\<rparr>)"
    and hostile: "o_adversary (cx_opts cx) = Jam \<or> o_adversary (cx_opts cx) = Replay \<Longrightarrow> I w \<Longrightarrow> fits w bs"
begin

lemma quiet_modify: "(\<And>w. core (f w) = core w) \<Longrightarrow> keeps I (modify f)"
  by (rule keeps_modify) (rule quiet)

lemma quiet_meter: "keeps I (with_meter f)"
  unfolding keeps_def with_meter_def
  by (rule validI) (auto simp: core_def split: prod.splits elim!: quiet [rotated])

lemma quiet_draw: "keeps I (entropy_below b)"
  unfolding keeps_def entropy_below_def with_env_def draw_below_def
  by (rule validI) (auto simp: core_def split: prod.splits if_splits list.splits elim!: quiet [rotated])

lemma reading: "keeps I clock_reading"
  unfolding clock_reading_def by (intro keeping now)

lemma fitting: "valid (\<lambda>w. I w \<and> (\<forall>bs. r = Inr bs \<longrightarrow> fits w bs)) (case r of Inl e \<Rightarrow> State_Monad.return a | Inr bs \<Rightarrow> 
    State_Monad.bind (node_transmit cx bs) (g bs)) (\<lambda>_. I)" if "\<And>bs b. keeps I (g bs b)"
  by (cases r) (auto intro!: vcg valid_then_keeps that intro: valid_pre [OF transmit])

lemma acknowledged: "keeps I (note_acknowledged cx ad)"
  unfolding note_acknowledged_def by (intro keeping quiet_modify) (simp add: core_def)

lemma holding: "f \<in> K \<Longrightarrow> keeps I (hold_early ad f)"
  unfolding hold_early_def by (intro keeping keeps_modify hold)

lemma jams: "o_adversary (cx_opts cx) = Jam \<or> o_adversary (cx_opts cx) = Replay \<Longrightarrow> keeps I (node_transmit cx bs)"
  using transmit unfolding keeps_def by (rule valid_pre) (simp add: hostile)

lemma sending:
  assumes "valid I m (\<lambda>r w. I w \<and> (\<forall>bs. r = Inr bs \<longrightarrow> fits w bs))" and "\<And>bs b. keeps I (g bs b)"
  shows "keeps I (State_Monad.bind m (\<lambda>r. case r of Inl e \<Rightarrow> State_Monad.return a
    | Inr bs \<Rightarrow> State_Monad.bind (node_transmit cx bs) (g bs)))"
  by (rule keeps_then [OF assms(1)]) (rule fitting [OF assms(2)])

lemma drains: "snd ` set es \<subseteq> K \<Longrightarrow> keeps I (drain_early cx es)"
proof (induction es)
  case (Cons e es)
  obtain m f where e: "e = (m, f)" by (cases e)
  then have f: "f \<in> K" and es: "snd ` set es \<subseteq> K" using Cons.prems by auto
  show ?case unfolding e drain_early.simps
    by (rule keeps_result [OF admit] f | assumption | erule conjunct1 | rule keeping count acknowledged Cons.IH es f)+
qed (simp add: keeping)

lemma drains_held: "valid I (State_Monad.bind (gets nd_early) (\<lambda>early.
    State_Monad.bind (modify (nd_early_update (\<lambda>_. []))) (\<lambda>_. drain_early cx early))) (\<lambda>_. I)"
proof (rule validI)
  fix w a w' assume w: "I w" and r: "run_state (State_Monad.bind (gets nd_early) (\<lambda>early.
    State_Monad.bind (modify (nd_early_update (\<lambda>_. []))) (\<lambda>_. drain_early cx early))) w = (a, w')"
  have "keeps I (drain_early cx (nd_early w))" by (rule drains [OF held [OF w]])
  from keepsD [OF this released [OF w]] show "I w'" using r by simp
qed

lemma closes: "keeps I (node_close cx)"
proof -
  have c: "valid (\<lambda>w. I w \<and> c = nd_case w) (case close_consultation c stamp of
         (Inr _, c) \<Rightarrow> do {
           modify (nd_case_update (\<lambda>_. c));
           modify (nd_closed_update (\<lambda>_. True));
           early \<leftarrow> gets nd_early;
           modify (nd_early_update (\<lambda>_. []));
           drain_early cx early }
       | (Inl _, c) \<Rightarrow> modify (nd_case_update (\<lambda>_. c))) (\<lambda>_. I)" for c stamp
  proof (cases "close_consultation c stamp")
    case (Pair r c2)
    have set_case: "valid (\<lambda>w. I w \<and> c = nd_case w) (modify (nd_case_update (\<lambda>_. c2))) (\<lambda>_. I)"
      using close [of _ stamp r c2] Pair by (auto intro: valid_modify)
    show ?thesis
    proof (cases r)
      case (Inl e)
      then show ?thesis using set_case Pair by simp
    next
      case (Inr u)
      have cl: "keeps I (modify (nd_closed_update (\<lambda>_. True)))" by (rule quiet_modify) (simp add: core_def)
      show ?thesis unfolding Pair Inr prod.case sum.case
        by (rule valid_then_keeps [OF set_case], rule keeps_bind, rule cl)
          (unfold keeps_def, rule drains_held)
    qed
  qed
  have whole: "keeps I (State_Monad.bind (gets nd_case) (\<lambda>c. case close_consultation c stamp of
         (Inr _, c) \<Rightarrow> do {
           modify (nd_case_update (\<lambda>_. c));
           modify (nd_closed_update (\<lambda>_. True));
           early \<leftarrow> gets nd_early;
           modify (nd_early_update (\<lambda>_. []));
           drain_early cx early }
       | (Inl _, c) \<Rightarrow> modify (nd_case_update (\<lambda>_. c))))" for stamp
    unfolding keeps_def by (rule valid_bind [OF _ c]) (simp add: valid_gets)
  show ?thesis unfolding node_close_def by (rule whole | rule keeping reading)+
qed

lemma misses: "keeps I (miss_slot cx anchor k)"
  unfolding miss_slot_def by (intro keeping quiet_modify) (simp_all add: core_def)

lemma gives_up: "keeps I (give_up k n)"
  unfolding give_up_def by (intro keeping quiet_modify) (simp_all add: core_def)

lemma admits_self: "f \<in> B \<Longrightarrow> keeps I (do {
       modify (nd_own_admitted_update (\<lambda>os. os[k := True]));
       learned \<leftarrow> admit_frame cx f;
       case ad_binding_from learned of
         None \<Rightarrow> State_Monad.return ()
       | Some from \<Rightarrow> modify (nd_heard_update (\<lambda>h. heard_from h from)) })"
  by (rule keeps_result [OF admit_own] | assumption | rule keeping quiet_modify keeps_modify self
      | simp add: core_def)+

lemma sends: "bs \<in> B \<Longrightarrow> valid (\<lambda>w. I w \<and> fits w bs) (send_stage cx anchor k n bs) (\<lambda>_. I)"
  unfolding send_stage_def
  by (rule valid_then_keeps [OF transmit])
    (intro keeping quiet_draw quiet_modify seen admits_self; simp add: core_def)

lemma builds: "keeps I (State_Monad.bind (with_journal (\<lambda>j. build cx stg j h rnd))
    (\<lambda>r. case r of Inl e \<Rightarrow> give_up k n | Inr bs \<Rightarrow> send_stage cx anchor k n bs))"
proof (rule keeps_then [OF stage])
  fix r
  show "valid (\<lambda>w. I w \<and> (\<forall>bs. r = Inr bs \<longrightarrow> bs \<in> B \<and> fits w bs))
    (case r of Inl e \<Rightarrow> give_up k n | Inr bs \<Rightarrow> send_stage cx anchor k n bs) (\<lambda>_. I)"
  proof (cases r)
    case (Inl e)
    then show ?thesis using gives_up by (auto intro: keeps_pre)
  next
    case (Inr bs)
    show ?thesis
    proof (cases "bs \<in> B")
      case True
      show ?thesis unfolding Inr sum.case by (rule valid_pre [OF sends [OF True]]) (simp add: Inr)
    next
      case False
      then show ?thesis by (simp add: valid_def Inr)
    qed
  qed
qed

lemma stages: "keeps I (stage_turn cx anchor k stg)"
  unfolding stage_turn_def Let_def
  by (rule builds | rule keeping now misses quiet_modify | simp add: core_def)+

lemma sends_due: "keeps I (node_send cx anchor)"
  unfolding node_send_def by (intro keeping stages)

lemma repairs: "keeps I (repair_round cx anchor)"
  unfolding repair_round_def by (intro keeping now)

lemma asks: "keeps I (node_ask cx anchor)"
  unfolding node_ask_def
  by (rule sending [OF nack] | rule keeping now repairs quiet_modify | simp add: core_def)+

lemma resends: "keeps I (node_resend cx)"
proof -
  have c: "keeps I (State_Monad.bind (gets nd_forwards) (\<lambda>q. case take_next q of
           (None, q) \<Rightarrow> modify (nd_forwards_update (\<lambda>_. q))
         | (Some carried, q) \<Rightarrow> do {
             modify (nd_forwards_update (\<lambda>_. q));
             node_transmit cx (frame_bytes carried);
             State_Monad.return () }))"
    unfolding keeps_def
  proof (rule valid_bind)
    show "valid I (gets nd_forwards) (\<lambda>q w. I w \<and> q = nd_forwards w)" by (simp add: valid_gets)
    fix q
    obtain x rest where t: "take_next q = (x, rest)" by fastforce
    have m: "valid (\<lambda>w. I w \<and> q = nd_forwards w) (modify (nd_forwards_update (\<lambda>_. rest)))
        (\<lambda>_ w. I w \<and> (\<forall>f. x = Some f \<longrightarrow> fits w (frame_bytes f)))"
      using carry t by (intro valid_modify) auto
    show "valid (\<lambda>w. I w \<and> q = nd_forwards w) (case take_next q of
           (None, q) \<Rightarrow> modify (nd_forwards_update (\<lambda>_. q))
         | (Some carried, q) \<Rightarrow> do {
             modify (nd_forwards_update (\<lambda>_. q));
             node_transmit cx (frame_bytes carried);
             State_Monad.return () }) (\<lambda>_. I)"
    proof (cases x)
      case None
      show ?thesis unfolding t None prod.case option.case using m by (rule valid_weaken) simp
    next
      case (Some f)
      show ?thesis unfolding t Some prod.case option.case
        by (rule valid_bind [OF m], rule valid_then_keeps, rule valid_pre [OF transmit])
          (simp_all add: Some keeping)
    qed
  qed
  show ?thesis unfolding node_resend_def
    by (rule c | rule keeping now quiet_modify | simp add: core_def)+
qed

lemma answers: "keeps I (answer_request cx anchor ad m)"
proof -
  have c: "keeps I (State_Monad.bind (gets (\<lambda>w. w)) (\<lambda>w. doif (nd_repaired_round w \<noteq> Some index)
             (case queue_answer cx ad m (nd_journal w) (nd_forwards w) of
                (queued, q) \<Rightarrow> do {
                  modify (nd_forwards_update (\<lambda>_. q));
                  doif (queued > 0) (do {
                    modify (nd_repaired_round_update (\<lambda>_. Some index));
                    modify (nd_repair_due_update (\<lambda>_. Some (repair_start cx w anchor
                      + window_wall (cx_opts cx) (nd_clock w) * (2 * uint index + 1)
                      + own_slot (cx_opts cx) (nd_clock w)))) }) })))" for index
    unfolding keeps_def
  proof (rule valid_bind)
    show "valid I (gets (\<lambda>w. w)) (\<lambda>x w. I w \<and> x = w)" by (simp add: valid_gets)
    fix x :: Node
    obtain n q where q: "queue_answer cx ad m (nd_journal x) (nd_forwards x) = (n, q)" by fastforce
    have m: "valid (\<lambda>w. I w \<and> x = w) (modify (nd_forwards_update (\<lambda>_. q))) (\<lambda>_. I)"
      using answer [of _ ad m] q by (intro valid_modify) (metis snd_conv)
    have n: "keeps I (modify (nd_repaired_round_update f))" "keeps I (modify (nd_repair_due_update g))" for f g
      by (rule quiet_modify, simp add: core_def)+
    show "valid (\<lambda>w. I w \<and> x = w) (doif (nd_repaired_round x \<noteq> Some index)
             (case queue_answer cx ad m (nd_journal x) (nd_forwards x) of
                (queued, q) \<Rightarrow> do {
                  modify (nd_forwards_update (\<lambda>_. q));
                  doif (queued > 0) (do {
                    modify (nd_repaired_round_update (\<lambda>_. Some index));
                    modify (nd_repair_due_update (\<lambda>_. Some (repair_start cx x anchor
                      + window_wall (cx_opts cx) (nd_clock x) * (2 * uint index + 1)
                      + own_slot (cx_opts cx) (nd_clock x)))) }) })) (\<lambda>_. I)"
      unfolding q prod.case
      by (intro valid_doif valid_then_keeps [OF m] keeping n) simp
  qed
  show ?thesis unfolding answer_request_def by (rule c | rule keeping repairs)+
qed

lemma disagreements: "keeps I (disagrees cx anchor ad m n)"
  unfolding disagrees_def Let_def by (intro keeping now repairs)

lemma learns: "f \<in> K \<Longrightarrow> \<forall>m q. ad_verified ad = Some (m, q) \<longrightarrow> m \<in> D \<Longrightarrow> keeps I (learn_sender cx anchor ad f)"
  unfolding learn_sender_def
  by (intro keeping seen holding answers disagreements keeps_modify foreign split) auto

lemma hears_opening: "m \<in> D \<Longrightarrow> keeps I (hear_opening cx f (r, m, q))"
  unfolding hear_opening_def prod.case
  by (rule keeping seen | rule keeps_modify, erule foreign, assumption | rule keeps_modify, erule split
      | rule quiet_modify, simp add: core_def)+

lemma hears_round: "f \<in> K \<Longrightarrow> valid I (with_meter (\<lambda>mt. trigger_round cx mt f))
    (\<lambda>x w. I w \<and> (\<forall>r m q. x = Some (r, m, q) \<longrightarrow> m \<in> D))"
proof (rule validI)
  fix w a w' assume "f \<in> K" "I w" and r: "run_state (with_meter (\<lambda>mt. trigger_round cx mt f)) w = (a, w')"
  then show "I w' \<and> (\<forall>r m q. a = Some (r, m, q) \<longrightarrow> m \<in> D)"
    using keepsD [OF quiet_meter [of "\<lambda>mt. trigger_round cx mt f"] \<open>I w\<close>] opened
    by (auto simp: with_meter_def split: prod.splits)
qed

lemma hears_frame: "f \<in> K \<Longrightarrow> keeps I (hear_frame cx anchor f)"
  unfolding hear_frame_def
  by (rule keeps_result [OF admit] keeps_result [OF hears_round] | assumption | erule conjunct1 conjunct2
      | rule keeping quiet_meter quiet_modify learns count acknowledged hears_opening
      | simp add: core_def split_paired_all)+

lemma hears: "keeps I (node_hear cx anchor)"
  unfolding node_hear_def
  by (rule keeps_result [OF receive]) (intro keeping hears_frame; simp)

lemma junk: "keeps I (draw_junk i n)"
  by (induction i n rule: draw_junk.induct) (simp_all, (intro keeping quiet_draw; simp)+)

lemma equivocates: "keeps I (node_equivocate cx)"
  unfolding node_equivocate_def
  by (rule sending [OF trigger] | rule keeping now quiet_modify | simp add: core_def)+

lemma jammed: "keeps I (node_jam cx anchor)"
  unfolding node_jam_def Let_def
  by (intro keeping now quiet_modify junk jams; simp add: core_def)

lemma replays: "keeps I (node_replay cx anchor)"
  unfolding node_replay_def Let_def
  by (intro keeping now quiet_modify jams; simp add: core_def)

lemma ends: "keeps I (node_over cx anchor)"
  unfolding node_over_def Let_def by (intro keeping now)

lemma rounds: "keeps I (node_round cx anchor)"
  unfolding node_round_def
  by (intro keeping equivocates jammed replays closes sends_due asks resends hears ends)

end

text \<open>With the steps by which a round begins for this node, the rule covers every turn.\<close>

locale node_rule = node_running +
  assumes begun: "I w \<Longrightarrow> I (nd_began_update f w)"
    and reset: "I w \<Longrightarrow> I (nd_clock_update g w)"
begin

lemma clocked: "keeps I (new_clock cx)"
  unfolding new_clock_def by (intro keeping now keeps_modify reset)

lemma opens: "keeps I (open_round cx)"
  unfolding open_round_def Let_def
  by (rule sending [OF trigger] | rule keeping now clocked | rule keeps_modify, erule begun
      | rule quiet_modify | simp add: core_def)+

lemma joins: "keeps I (join_opened cx x)"
  unfolding join_opened_def
  by (rule keeping now clocked seen | rule keeps_modify, erule begun | rule quiet_modify | simp add: core_def)+

lemma joins_late: "f \<in> K \<Longrightarrow> keeps I (join_late cx f late)"
  unfolding join_late_def
  by (rule keeps_result [OF admit] | assumption | erule conjunct1 | rule keeping seen holding count acknowledged
      | rule keeps_modify, erule begun | rule keeps_modify, erule reset | rule quiet_modify | simp add: core_def)+

lemma listens: "keeps I (node_listen cx)"
  unfolding node_listen_def
proof (rule keeps_result [OF receive])
  fix r assume "\<forall>f. r = Some f \<longrightarrow> f \<in> K"
  then show "keeps I (case r of None \<Rightarrow> State_Monad.return () | Some frame \<Rightarrow> do {
         windows \<leftarrow> gets nd_windows;
         if is_replay frame windows then State_Monad.return ()
         else do {
           outside \<leftarrow> with_meter (\<lambda>mt. from_outside_the_fleet (o_fleet (cx_opts cx)) mt frame);
           if outside then State_Monad.return ()
           else do {
             opening \<leftarrow> with_meter (\<lambda>mt. trigger_round cx mt frame);
             case opening of
               Some opened \<Rightarrow> join_opened cx opened
             | None \<Rightarrow> do {
                 t \<leftarrow> instant_now;
                 clock \<leftarrow> gets nd_clock;
                 late \<leftarrow> with_meter (\<lambda>mt. late_anchor cx mt (starts (cx_opts cx)) clock t frame);
                 case late of None \<Rightarrow> State_Monad.return () | Some l \<Rightarrow> join_late cx frame l } } } })"
    by (intro keeping now quiet_meter joins joins_late) simp_all
qed

lemma turn: "keeps I (node_turn cx)"
  unfolding node_turn_def by (intro keeping opens listens rounds)

lemma run: "keeps I (node_run cx fuel)"
  by (induction fuel) (simp_all add: keeping turn)

end

end
