(* ===== verification/Lcq_Node_Airtime.thy ===== *)
theory Lcq_Node_Airtime
  imports Lcq_Node_Rule Lcq_Boot
begin

text \<open>
  The running node within the law: whatever it hears, whenever its clock is read and
  whatever its adversary mode, what it hands to the radio never exceeds 36 s of airtime in
  any hour of protocol time. The duty-cycle meter's own theorem is carried through the
  whole loop by the rule of \<open>Lcq_Node_Rule\<close>.
\<close>

text \<open>The meter's time, and what went on the air, with its airtime.\<close>

definition budget_time :: "Ctx \<Rightarrow> Node \<Rightarrow> u64" where
  "budget_time cx w = sat_mul (as_millis (since (ev_now (nd_env w)) (nd_started w))) (ucast (o_scale (cx_opts cx)))"

definition air_log :: "Node \<Rightarrow> (u64 \<times> u64) list" where
  "air_log w = map (\<lambda>(t, bs). (t, airtime_ms (length bs))) (ev_aired (nd_env w))"

definition lawful :: "(u64 \<times> u64) list \<Rightarrow> Ctx \<Rightarrow> Node \<Rightarrow> bool" where
  "lawful prior cx w \<longleftrightarrow> metered (nd_budget w) (prior @ air_log w) (unat (budget_time cx w))
     \<and> within_law (prior @ air_log w)"

lemma metered_later: "metered b past n \<Longrightarrow> n \<le> n' \<Longrightarrow> metered b past n'"
  unfolding metered_def by (fastforce intro: less_le_trans order_trans)

lemma transmit_lawful:
  assumes "metered b past n" and "n \<le> unat t" and "within_law past" and "transmit b t air = (ok, b')"
  shows "if ok then within_law (past @ [(t, air)]) \<and> metered b' (past @ [(t, air)]) (unat t) else metered b' past (unat t)"
  using metered_evict [OF assms(1,2)] assms(3,4) charge_lawful [of "evict b t" past t air]
  by (auto simp: transmit_def allows_def Let_def split: if_splits bool.splits prod.splits)

lemma budget_time_mono:
  assumes "ev_now (nd_env w) \<le> ev_now (nd_env w')" and "nd_started w' = nd_started w"
  shows "unat (budget_time cx w) \<le> unat (budget_time cx w')"
proof -
  have "as_millis (since (ev_now (nd_env w)) (nd_started w)) \<le> as_millis (since (ev_now (nd_env w')) (nd_started w))"
    using assms(1) by (intro as_millis_mono) (auto simp: since_def)
  then show ?thesis
    using assms(2) by (simp add: budget_time_def sat_simps unat_mono_le min.coboundedI1 mult_le_mono1)
qed

lemma lawful_later:
  assumes "lawful prior cx w" and "ev_now (nd_env w) \<le> ev_now (nd_env w')" and "nd_started w' = nd_started w"
    and "nd_budget w' = nd_budget w" and "ev_aired (nd_env w') = ev_aired (nd_env w)"
  shows "lawful prior cx w'"
  using assms metered_later [OF _ budget_time_mono [OF assms(2,3)]] by (simp add: lawful_def air_log_def)

lemma lawful_same:
  "lawful prior cx w \<Longrightarrow> ev_now (nd_env w) = ev_now (nd_env w') \<Longrightarrow> nd_started w' = nd_started w \<Longrightarrow>
     nd_budget w' = nd_budget w \<Longrightarrow> ev_aired (nd_env w') = ev_aired (nd_env w) \<Longrightarrow> lawful prior cx w'"
  by (erule lawful_later) simp_all

lemma read_instant_later:
  "read_instant v = (t, v') \<Longrightarrow> t = ev_now v' \<and> ev_now v \<le> ev_now v' \<and> ev_aired v' = ev_aired v
     \<and> ev_polls v' = ev_polls v"
  by (auto simp: read_instant_def Let_def split: list.splits)

lemma run_instant_now:
  "run_state instant_now w = (t, w') \<Longrightarrow>
     \<exists>v. read_instant (nd_env w) = (t, v) \<and> w' = w\<lparr>nd_env := v\<rparr>"
  by (auto simp: instant_now_def with_env_def split: prod.splits)

lemma lawful_now: "keeps (lawful prior cx) instant_now"
  unfolding keeps_def
  by (rule validI) (auto dest!: run_instant_now read_instant_later elim!: lawful_later)

lemma lawful_transmit: "keeps (lawful prior cx) (node_transmit cx bs)"
  unfolding keeps_def
proof (rule validI)
  fix w a w' assume I: "lawful prior cx w" and r: "run_state (node_transmit cx bs) w = (a, w')"
  obtain t v where v: "read_instant (nd_env w) = (t, v)" by fastforce
  note later = read_instant_later [OF v]
  define w1 where "w1 = w\<lparr>nd_env := v\<rparr>"
  have I1: "lawful prior cx w1" using I later by (auto simp: w1_def elim!: lawful_later)
  let ?now = "sat_mul (as_millis (since t (nd_started w))) (ucast (o_scale (cx_opts cx)))"
  have t: "?now = budget_time cx w1" using later by (simp add: budget_time_def w1_def)
  obtain ok b where b: "transmit (nd_budget w) ?now (airtime_ms (length bs)) = (ok, b)" by fastforce
  have m: "metered (nd_budget w) (prior @ air_log w1) (unat ?now)" "within_law (prior @ air_log w1)"
    using I1 by (simp_all add: lawful_def t w1_def)
  note law = transmit_lawful [OF m(1) order_refl m(2) b]
  show "lawful prior cx w'"
  proof (cases ok)
    case True
    obtain x u where u: "radio_transmit ?now bs v = (x, u)" by fastforce
    have w': "w' = w\<lparr>nd_env := u, nd_budget := b\<rparr>"
      using r v b True u
      by (auto simp: node_transmit_def instant_now_def with_env_def Let_def split: prod.splits)
    have e: "ev_now u = ev_now v" "ev_aired u = ev_aired v @ [(?now, bs)]"
      using u by (auto simp: radio_transmit_def Let_def split: list.splits)
    have "air_log w' = air_log w1 @ [(?now, airtime_ms (length bs))]" by (simp add: air_log_def w' w1_def e)
    moreover have "budget_time cx w' = ?now" using later by (simp add: budget_time_def w' e)
    ultimately show ?thesis using law True by (simp add: lawful_def w')
  next
    case False
    have w': "w' = w\<lparr>nd_env := v, nd_budget := evict b ?now\<rparr>"
      using r v b False
      by (auto simp: node_transmit_def instant_now_def with_env_def Let_def used_ms_def split: prod.splits)
    have "metered (evict b ?now) (prior @ air_log w1) (unat ?now)"
      using law False by (intro metered_evict [OF _ order_refl]) simp_all
    moreover have "air_log w' = air_log w1" "budget_time cx w' = ?now"
      using later by (simp_all add: air_log_def budget_time_def w' w1_def)
    ultimately show ?thesis using m(2) by (simp add: lawful_def w')
  qed
qed

lemma lawful_journal: "valid (lawful prior cx) (with_journal f) (\<lambda>r w. lawful prior cx w \<and> (\<forall>bs. r = Inr bs \<longrightarrow> bs \<in> UNIV \<and> True))"
  by (rule validI) (auto simp: with_journal_def split: prod.splits elim!: lawful_same)

lemma lawful_modify:
  "(\<And>w. nd_env (f w) = nd_env w \<and> nd_started (f w) = nd_started w \<and> nd_budget (f w) = nd_budget w) \<Longrightarrow>
     keeps (lawful prior cx) (modify f)"
  by (rule keeps_modify) (auto elim!: lawful_same)

lemma lawful_meter: "keeps (lawful prior cx) (with_meter f)"
  unfolding keeps_def by (rule validI) (auto simp: with_meter_def split: prod.splits elim!: lawful_same)

lemma lawful_receive: "keeps (lawful prior cx) node_receive"
proof -
  have "keeps (lawful prior cx) (modify (nd_env_update (ev_polls_update (\<lambda>_. later))))" for later
    by (rule keeps_modify) (auto elim!: lawful_same)
  then show ?thesis unfolding node_receive_def by (intro keeping lawful_meter)
qed

lemma keeps_univ: "keeps I m \<Longrightarrow> valid I m (\<lambda>r w. I w \<and> (\<forall>f. r = Some f \<longrightarrow> f \<in> UNIV))"
  by (simp add: keeps_def)

lemma lawful_admit: "keeps (lawful prior cx) (admit_frame cx f)"
  unfolding admit_frame_def clock_reading_def by (intro keeping lawful_now lawful_meter lawful_modify; simp)

interpretation lawful: node_rule cx "lawful prior cx" "\<lambda>_ _. True" UNIV UNIV UNIV UNIV for cx prior
proof (unfold_locales, goal_cases)
  case (1 w' w)
  then show ?case by (auto simp: core_def elim!: lawful_same)
next
  case 2
  show ?case by (rule lawful_now)
next
  case (3 bs)
  show ?case using lawful_transmit by (simp add: keeps_def)
next
  case 4
  show ?case by (rule keeps_univ [OF lawful_receive])
next
  case (5 m q)
  show ?case unfolding note_seen_def by (intro keeping lawful_modify; simp)
next
  case (9 f)
  show ?case using lawful_admit by (simp add: keeps_def)
next
  case (10 f)
  show ?case using lawful_admit by (simp add: keeps_def)
next
  case (12 f ad)
  show ?case unfolding count_vote_def by (intro keeping lawful_modify; simp)
qed (use lawful_journal in \<open>auto elim!: lawful_same\<close>)

section \<open>From the start of the process\<close>

definition prior_log :: "Ctx \<Rightarrow> (u64 \<times> u64) list" where
  "prior_log cx = (if o_prior_airtime_ms (cx_opts cx) > 0 then [(0, o_prior_airtime_ms (cx_opts cx))] else [])"

lemma boot_is: 
  assumes "node_boot cx bs ok entropy ws cs v = Inr w"
  obtains j where "boot_journal cx bs ok entropy ws cs = Inr j" "w = boot_node cx j v" "schedule_fits (cx_opts cx)"
    "o_index (cx_opts cx) < fleet_size (cx_fleet cx)" "1 \<le> o_scale (cx_opts cx)"
    "1 \<le> o_fleet (cx_opts cx)" "o_fleet (cx_opts cx) \<le> HEARD_CAPACITY"
  using assms by (auto simp: node_boot_def Let_def split: if_splits sum.splits)

lemma boot_env:
  "nd_budget (boot_node cx j v) = with_prior (o_prior_airtime_ms (cx_opts cx))"
  "ev_aired (nd_env (boot_node cx j v)) = ev_aired v" "ev_polls (nd_env (boot_node cx j v)) = ev_polls v"
  by (auto simp: boot_node_def Let_def read_instant_def split: prod.splits list.splits)

lemma lawful_boot:
  assumes "unat (o_prior_airtime_ms (cx_opts cx)) \<le> 36000" and "ev_aired v = []"
  shows "lawful (prior_log cx) cx (boot_node cx j v)"
proof -
  let ?p = "o_prior_airtime_ms (cx_opts cx)"
  have "sat_add 0 ?p = ?p" using unat_max_word [where 'a = 64] word_order.extremum [of ?p]
    by (simp add: sat_add_def word_le_nat_alt)
  then have "metered (with_prior ?p) (prior_log cx) n" for n
    by (auto simp: metered_def with_prior_def charge_def budget_new_def prior_log_def)
  moreover have "airtime (in_hour x (prior_log cx)) \<le> unat ?p" for x
    by (simp add: in_hour_def prior_log_def)
  ultimately show ?thesis
    using assms by (auto simp: lawful_def within_law_def air_log_def boot_env intro: order_trans)
qed

text \<open>
  (C9) The law, for the whole process: from start to any turn of the loop, whatever frames
  arrive, however late the turns run and whatever this node's adversary mode, the airtime
  handed to the radio together with what the operator declared for the hour before stays
  within 36 s in every hour of protocol time.
\<close>

theorem node_within_law:
  assumes "node_boot cx bs ok entropy ws cs v = Inr w0" and "ev_aired v = []"
    and "unat (o_prior_airtime_ms (cx_opts cx)) \<le> 36000" and "run_state (node_run cx fuel) w0 = (flow, w)"
  shows "within_law (prior_log cx @ air_log w)"
proof -
  obtain j where w0: "w0 = boot_node cx j v" using assms(1) by (rule boot_is)
  have "lawful (prior_log cx) cx w"
    using keepsD [OF lawful.run lawful_boot [OF assms(3,2)], of fuel j] assms(4) by (simp add: w0)
  then show ?thesis by (simp add: lawful_def)
qed

theorem node_within_law_witness:
  "\<exists>w0. node_boot sample_ctx [] True 7 [] [] sample_env = Inr w0
     \<and> within_law (prior_log sample_ctx @ air_log (snd (run_state (node_run sample_ctx 3) w0)))"
proof -
  obtain w0 where w0: "node_boot sample_ctx [] True 7 [] [] sample_env = Inr w0" using sample_boots by blast
  have "within_law (prior_log sample_ctx @ air_log (snd (run_state (node_run sample_ctx 3) w0)))"
    by (rule node_within_law [OF w0, of 3 "fst (run_state (node_run sample_ctx 3) w0)"])
      (simp_all add: sample_env_def sample_ctx_fields sample_options_def)
  with w0 show ?thesis by blast
qed

end
