(* ===== verification/Lcq_Node_Votes.thy ===== *)
theory Lcq_Node_Votes
  imports Lcq_Node_Rule Lcq_Boot
begin

text \<open>
  What a running node counts: every vote in its tally, every member it acknowledges and
  every member it finds disagreeing with it rests on a frame that member signed, which the
  node heard, was left by an earlier life, or built itself. An endorsement is therefore
  backed by a lawful quorum of signed votes.
\<close>

section \<open>What the builders do to the journal\<close>

definition outbox :: "LogJournal \<Rightarrow> bytes set" where
  "outbox j = frame_bytes ` set (bt_values (j_pending (log_state j)))"

lemma reserve_parts:
  assumes "log_reserve_sequence pc j = (r, j')"
  shows "j_pending (log_state j') = j_pending (log_state j)" "j_locks (log_state j') = j_locks (log_state j)"
    "j_witnessed (log_state j') = j_witnessed (log_state j)"
  using assms append_state by (auto simp: log_reserve_sequence_def Let_def split: prod.splits sum.splits)

lemma seen_parts:
  "j_pending (log_state (remember_seen cx j m q)) = j_pending (log_state j)"
  "j_locks (log_state (remember_seen cx j m q)) = j_locks (log_state j)"
  "j_witnessed (log_state (remember_seen cx j m q)) = j_witnessed (log_state j)"
  using append_state
  by (auto simp: remember_seen_def log_mark_seen_def split: prod.splits sum.splits)

lemma set_values_insert: "set (bt_values (bt_insert k x m)) \<subseteq> insert x (set (bt_values m))"
  by (induction k x m rule: bt_insert.induct) (auto simp: bt_values_def)

lemma witness_parts:
  "j_pending (log_state (snd (log_witness pc j a bs))) = j_pending (log_state j)"
  "j_locks (log_state (snd (log_witness pc j a bs))) = j_locks (log_state j)"
  "snd ` set (j_witnessed (log_state (snd (log_witness pc j a bs)))) \<subseteq> insert bs (snd ` set (j_witnessed (log_state j)))"
proof -
  let ?st = "log_state (snd (log_witness pc j a bs))"
  have "?st = log_state j \<or> ?st = (log_state j)\<lparr>j_witnessed := bt_insert a bs (j_witnessed (log_state j))\<rparr>"
    using append_state by (auto simp: log_witness_def split: prod.splits sum.splits)
  then show "j_pending ?st = j_pending (log_state j)" "j_locks ?st = j_locks (log_state j)"
    "snd ` set (j_witnessed ?st) \<subseteq> insert bs (snd ` set (j_witnessed (log_state j)))"
    using set_values_insert [of a bs "j_witnessed (log_state j)"] unfolding bt_values_def set_map
    by (elim disjE; simp; blast)+
qed

lemma commit_parts:
  assumes "log_commit_vote pc j s v f = (r, j')"
  shows "r = Inr () \<and> \<not> log_has_voted j s v
      \<and> j_locks (log_state j') = bt_insert (lock_key s v) () (j_locks (log_state j))
      \<and> j_pending (log_state j') = bt_insert (frame_sequence f) f (j_pending (log_state j))
    \<or> r \<noteq> Inr () \<and> j_locks (log_state j') = j_locks (log_state j)
      \<and> j_pending (log_state j') = j_pending (log_state j)"
    and "j_witnessed (log_state j') = j_witnessed (log_state j)"
  using assms append_state
  by (auto simp: log_commit_vote_def log_has_voted_def Let_def split: prod.splits sum.splits if_splits)

lemma first_pending_outbox: "first_pending j = Some f \<Longrightarrow> frame_bytes f \<in> outbox j"
  by (auto simp: first_pending_def outbox_def split: list.splits)

definition built :: "Ctx \<Rightarrow> bytes set" where
  "built cx = {bs. \<exists>e. carries cx bs e}"

lemma build_parts:
  assumes "build cx stg j h rnd = (r, j')"
  shows "outbox j' \<subseteq> outbox j \<union> built cx \<and> (\<forall>bs. r = Inr bs \<longrightarrow> bs \<in> outbox j \<union> built cx)"
  using assms
proof (cases rule: build_cases)
  case again
  then show ?thesis using first_pending_outbox by blast
next
  case (refused x e)
  then show ?thesis using reserve_parts [OF refused(1)] by (simp add: outbox_def)
next
  case (sent q e bs)
  then show ?thesis using reserve_parts [OF sent(1)] by (auto simp: outbox_def built_def)
next
  case (voted q e bs j1 x)
  have "outbox j1 = outbox j" using reserve_parts [OF voted(1)] by (simp add: outbox_def)
  moreover have "outbox j' \<subseteq> insert bs (outbox j1)"
    using commit_parts(1) [OF voted(7)] set_values_insert [of "frame_sequence (frame_new bs q)" "frame_new bs q" "j_pending (log_state j1)"]
    by (auto simp: outbox_def frame_new_def)
  moreover have "bs \<in> built cx" using voted(2) by (auto simp: built_def)
  ultimately show ?thesis using voted(8) by (auto split: sum.splits)
qed

lemma nack_parts:
  assumes "build_nack cx j h rnd = (r, j')"
  shows "outbox j' = outbox j \<and> (\<forall>bs. r = Inr bs \<longrightarrow> bs \<in> built cx)"
  using assms
proof (cases rule: nack_cases)
  case (1 x)
  then show ?thesis using reserve_parts [OF 1(1)] by (auto simp: outbox_def built_def)
qed

lemma trigger_parts:
  assumes "build_trigger cx j rnd = (r, j')"
  shows "outbox j' = outbox j \<and> (\<forall>bs. r = Inr bs \<longrightarrow> bs \<in> built cx)"
  using assms
proof (cases rule: trigger_cases)
  case (1 x)
  then show ?thesis using reserve_parts [OF 1(1)] by (auto simp: outbox_def built_def)
qed

section \<open>Backed by signed frames\<close>

text \<open>Member \<open>m\<close> signed a frame, a binding vote, and the binding vote \<open>v\<close>, among the frames \<open>S\<close>.\<close>

definition spoke :: "Ctx \<Rightarrow> bytes set \<Rightarrow> nat \<Rightarrow> bool" where
  "spoke cx S m \<longleftrightarrow> (\<exists>f \<in> S. \<exists>q frame. genuine cx f m q frame)"

definition voted_in :: "Ctx \<Rightarrow> bytes set \<Rightarrow> nat \<Rightarrow> bool" where
  "voted_in cx S m \<longleftrightarrow> (\<exists>f \<in> S. \<exists>q frame. genuine cx f m q frame \<and> ce_stage (sc_envelope frame) = 3)"

definition backed :: "Ctx \<Rightarrow> bytes set \<Rightarrow> Opinion \<Rightarrow> bool" where
  "backed cx S v \<longleftrightarrow> (\<exists>m. author v = member_id cx m \<and> (\<exists>f \<in> S. \<exists>q frame. genuine cx f m q frame
     \<and> ce_stage (sc_envelope frame) = 3 \<and> verdict_of (ce_verdict (sc_envelope frame)) = Some (verdict v)))"

definition sound_case :: "Ctx \<Rightarrow> bytes set \<Rightarrow> Case \<Rightarrow> bool" where
  "sound_case cx S c \<longleftrightarrow> case_inv c \<and> (\<forall>v \<in> set (binding c). backed cx S v)"

lemma genuine_m: "genuine cx f m q frame \<Longrightarrow> unat (ce_author_index (sc_envelope frame)) = m \<and> ce_sequence (sc_envelope frame) = q"
  by (simp add: genuine_def)

lemma admit_sound:
  assumes "admit cx mt stamp f c = (ad, c', mt')" and "f \<in> S" and "sound_case cx S c"
  shows "sound_case cx S c' \<and> (\<forall>m. ad_binding_from ad = Some m \<longrightarrow> voted_in cx S m)
    \<and> (\<forall>m q. ad_verified ad = Some (m, q) \<longrightarrow> spoke cx S m)"
  using assms(1)
proof (cases rule: admit_cases)
  case silent
  then show ?thesis using assms(3) by simp
next
  case (heard m q frame)
  then show ?thesis using assms(2,3) genuine_m [OF heard(2)] by (auto simp: learned_from_def spoke_def)
next
  case (taken m q frame stg verd)
  let ?v = "\<lparr>author = member_id cx m, opinion_subject = cx_subject cx, stage = stg, verdict = verd\<rparr>"
  have inv: "case_inv c'" using accept_inv [OF taken(4)] assms(3) by (simp add: sound_case_def)
  have 3: "ce_stage (sc_envelope frame) = 3" if "stg = BindingSupport"
    using taken(2) that by (auto simp: stage_of_def split: if_splits)
  have sub: "set (binding c') \<subseteq> set (binding c) \<union> (if stg = BindingSupport then {?v} else {})"
    using taken(4) by (rule accept_cases) (auto split: if_splits)
  have v: "backed cx S ?v" if "stg = BindingSupport"
    using assms(2) taken(1,3) 3 [OF that] unfolding backed_def by (intro exI [of _ m]) auto
  have all: "\<forall>v \<in> set (binding c'). backed cx S v"
    using sub v assms(3) by (auto simp: sound_case_def split: if_splits)
  have "ad_verified ad = Some (m, q)" "\<And>k. ad_binding_from ad = Some k \<Longrightarrow> k = m \<and> stg = BindingSupport"
    using taken(5) genuine_m [OF taken(1)] by (auto simp: learned_from_def split: if_splits)
  then show ?thesis using inv all 3 taken(1) assms(2) by (auto simp: sound_case_def spoke_def voted_in_def)
next
  case (refused m q frame stg verd e)
  then show ?thesis using assms(2,3) genuine_m [OF refused(1)] by (auto simp: learned_from_def spoke_def)
qed

lemma sound_mono: "sound_case cx S c \<Longrightarrow> S \<subseteq> T \<Longrightarrow> sound_case cx T c"
  unfolding sound_case_def backed_def by blast

section \<open>The invariant\<close>

text \<open>What the radio has still to say, and what an earlier life left.\<close>

definition received :: "Env \<Rightarrow> bytes set" where
  "received v = {rc_bytes r | r. Some (EvReceived r) \<in> set (ev_polls v)}"

definition restored :: "LogJournal \<Rightarrow> bytes set" where
  "restored j = snd ` set (j_witnessed (log_state j)) \<union> outbox j"

definition tallied :: "Ctx \<Rightarrow> bytes set \<Rightarrow> bytes set \<Rightarrow> Node \<Rightarrow> bool" where
  "tallied cx K P w \<longleftrightarrow> sound_case cx (K \<union> P \<union> built cx) (nd_case w)
     \<and> length (heard_bits (nd_heard w)) = 8
     \<and> (\<forall>m. heard_contains (nd_heard w) m \<longrightarrow> voted_in cx (K \<union> P \<union> built cx) m)
     \<and> received (nd_env w) \<subseteq> K \<and> snd ` set (nd_early w) \<subseteq> K \<and> outbox (nd_journal w) \<subseteq> P \<union> built cx
     \<and> (nd_split w \<longrightarrow> 2 \<le> length (nd_foreign w)) \<and> bt_inv (nd_foreign w)
     \<and> (\<forall>m \<in> set (bt_keys (nd_foreign w)). spoke cx K m)"

lemma tallied_same:
  "tallied cx K P w \<Longrightarrow> nd_case w' = nd_case w \<Longrightarrow> nd_heard w' = nd_heard w \<Longrightarrow>
     ev_polls (nd_env w') = ev_polls (nd_env w) \<Longrightarrow> nd_early w' = nd_early w \<Longrightarrow>
     outbox (nd_journal w') \<subseteq> outbox (nd_journal w) \<union> built cx \<Longrightarrow> nd_split w' = nd_split w \<Longrightarrow> nd_foreign w' = nd_foreign w \<Longrightarrow>
     tallied cx K P w'"
  unfolding tallied_def received_def by auto

lemma tallied_now: "keeps (tallied cx K P) instant_now"
  unfolding keeps_def
  by (rule validI) (auto simp: instant_now_def with_env_def read_instant_def Let_def split: prod.splits list.splits
      elim!: tallied_same)

lemma tallied_modify:
  "(\<And>w. nd_case (f w) = nd_case w \<and> nd_heard (f w) = nd_heard w \<and> ev_polls (nd_env (f w)) = ev_polls (nd_env w)
      \<and> nd_early (f w) = nd_early w \<and> outbox (nd_journal (f w)) = outbox (nd_journal w) \<and> nd_split (f w) = nd_split w
      \<and> nd_foreign (f w) = nd_foreign w) \<Longrightarrow> keeps (tallied cx K P) (modify f)"
  by (rule keeps_modify) (erule tallied_same; simp)

lemma tallied_meter: "keeps (tallied cx K P) (with_meter f)"
  unfolding keeps_def by (rule validI) (auto simp: with_meter_def split: prod.splits elim!: tallied_same)

lemma tallied_transmit: "keeps (tallied cx K P) (node_transmit cx bs)"
proof -
  have "keeps (tallied cx K P) (with_env (radio_transmit t bs))" for t
    unfolding keeps_def
    by (rule validI) (auto simp: with_env_def radio_transmit_def Let_def split: prod.splits list.splits elim!: tallied_same)
  then show ?thesis unfolding node_transmit_def Let_def
    by (intro keeping tallied_now; auto intro!: keeping tallied_modify split: bool.split)
qed

lemma drain_received:
  "drain polls mt = ((r, later), mt') \<Longrightarrow>
     set later \<subseteq> set polls \<and> (\<forall>f. r = Some f \<longrightarrow> (\<exists>x. f = rc_bytes x \<and> Some (EvReceived x) \<in> set polls))"
  by (induction polls mt rule: drain.induct) auto

lemma tallied_receive: "valid (tallied cx K P) node_receive (\<lambda>r w. tallied cx K P w \<and> (\<forall>f. r = Some f \<longrightarrow> f \<in> K))"
proof (rule validI)
  fix w r w' assume I: "tallied cx K P w" and run: "run_state node_receive w = (r, w')"
  obtain later mt where d: "drain (ev_polls (nd_env w)) (nd_meter w) = ((r, later), mt)"
    and w': "w' = w\<lparr>nd_meter := mt, nd_env := (nd_env w)\<lparr>ev_polls := later\<rparr>\<rparr>"
    using run by (auto simp: node_receive_def with_meter_def split: prod.splits)
  have "received (nd_env w') \<subseteq> received (nd_env w)"
    using drain_received [OF d] by (auto simp: received_def w')
  moreover have "f \<in> received (nd_env w)" if "r = Some f" for f
    using drain_received [OF d] that by (auto simp: received_def)
  ultimately show "tallied cx K P w' \<and> (\<forall>f. r = Some f \<longrightarrow> f \<in> K)" using I by (auto simp: tallied_def w')
qed

lemma tallied_admit:
  assumes "f \<in> K \<union> P \<union> built cx"
  shows "valid (tallied cx K P) (admit_frame cx f) (\<lambda>ad w. tallied cx K P w
    \<and> (\<forall>m. ad_binding_from ad = Some m \<longrightarrow> voted_in cx (K \<union> P \<union> built cx) m)
    \<and> (\<forall>m q. ad_verified ad = Some (m, q) \<longrightarrow> spoke cx {f} m))"
proof (rule validI)
  fix w ad w' assume I: "tallied cx K P w" and run: "run_state (admit_frame cx f) w = (ad, w')"
  obtain t v where t: "read_instant (nd_env w) = (t, v)" by fastforce
  obtain c mt where a: "admit cx (nd_meter w) (clock_now (nd_clock w) t) f (nd_case w) = (ad, c, mt)"
    and w': "w' = w\<lparr>nd_env := v, nd_meter := mt, nd_case := c\<rparr>"
    using run t by (auto simp: admit_frame_def clock_reading_def instant_now_def with_env_def with_meter_def split: prod.splits)
  have p: "ev_polls v = ev_polls (nd_env w)"
    using t by (auto simp: read_instant_def Let_def split: list.splits)
  have c: "sound_case cx (K \<union> P \<union> built cx) (nd_case w)" using I by (simp add: tallied_def)
  have "spoke cx {f} m" if "ad_verified ad = Some (m, q)" for m q
    using a by (cases rule: admit_cases) (use that in \<open>auto simp: learned_from_def spoke_def genuine_def admitted_default_def split: if_splits\<close>)
  then show "tallied cx K P w' \<and> (\<forall>m. ad_binding_from ad = Some m \<longrightarrow> voted_in cx (K \<union> P \<union> built cx) m)
      \<and> (\<forall>m q. ad_verified ad = Some (m, q) \<longrightarrow> spoke cx {f} m)"
    using admit_sound [OF a assms c] I by (auto simp: tallied_def w' p received_def)
qed

lemma length_insert: "length m \<le> length (bt_insert k x m)"
  by (induction k x m rule: bt_insert.induct) auto

lemma set_insert_early: "snd ` set (bt_insert k x m) \<subseteq> insert x (snd ` set m)"
  by (induction k x m rule: bt_insert.induct) auto

lemma tallied_journal:
  assumes "\<And>j r j'. f j = (r, j') \<Longrightarrow> outbox j' \<subseteq> outbox j \<union> built cx \<and> (\<forall>bs. r = Inr bs \<longrightarrow> bs \<in> outbox j \<union> built cx)"
  shows "valid (tallied cx K P) (with_journal f) (\<lambda>r w. tallied cx K P w \<and> (\<forall>bs. r = Inr bs \<longrightarrow> bs \<in> P \<union> built cx))"
proof (rule validI)
  fix w r w' assume I: "tallied cx K P w" and run: "run_state (with_journal f) w = (r, w')"
  obtain j' where f: "f (nd_journal w) = (r, j')" and w': "w' = w\<lparr>nd_journal := j'\<rparr>"
    using run by (auto simp: with_journal_def split: prod.splits)
  then show "tallied cx K P w' \<and> (\<forall>bs. r = Inr bs \<longrightarrow> bs \<in> P \<union> built cx)"
    using assms [OF f] I by (auto simp: tallied_def)
qed

lemma tallied_seen: "keeps (tallied cx K P) (note_seen cx m q)"
  unfolding note_seen_def by (intro keeping tallied_modify) (simp_all add: outbox_def seen_parts)

lemma tallied_self:
  "voted_in cx (K \<union> P \<union> built cx) m \<Longrightarrow> tallied cx K P w \<Longrightarrow> tallied cx K P (nd_heard_update (\<lambda>h. heard_from h m) w)"
  by (auto simp: tallied_def heard_contains_from)

lemma tallied_count:
  assumes "\<forall>m. ad_binding_from ad = Some m \<longrightarrow> voted_in cx (K \<union> P \<union> built cx) m"
  shows "keeps (tallied cx K P) (count_vote cx ad f)"
  unfolding count_vote_def
  by (intro keeping keeps_modify [where f = "nd_heard_update _"] tallied_self tallied_modify)
    (use assms in \<open>simp_all add: outbox_def witness_parts\<close>)

lemma tallied_hold: "f \<in> K \<Longrightarrow> tallied cx K P w \<Longrightarrow> tallied cx K P (nd_early_update (bt_insert m f) w)"
  using order_trans [OF set_insert_early [of m f "nd_early w"], of K] by (simp add: tallied_def)

lemma tallied_close:
  "tallied cx K P w \<Longrightarrow> close_consultation (nd_case w) stamp = (r, c) \<Longrightarrow> tallied cx K P (w\<lparr>nd_case := c\<rparr>)"
  using close_inv [of "nd_case w" stamp r c]
  by (auto simp: tallied_def sound_case_def received_def close_consultation_def split: if_splits)

lemma tallied_foreign: "spoke cx K m \<Longrightarrow> tallied cx K P w \<Longrightarrow> tallied cx K P (nd_foreign_update (bt_insert m ()) w)"
  using length_insert [of "nd_foreign w" m "()"] set_keys_bt_insert [of m "()" "nd_foreign w"]
  by (auto simp: tallied_def bt_keys_def)

lemma tallied_split: "tallied cx K P w \<Longrightarrow> tallied cx K P (w\<lparr>nd_split := note_split (nd_split w) (nd_foreign w)\<rparr>)"
  by (auto simp: tallied_def note_split_def received_def)

interpretation tally: node_rule cx "tallied cx K P" "\<lambda>_ _. True" K "P \<union> built cx"
    "{m. voted_in cx (K \<union> P \<union> built cx) m}" "{m. spoke cx K m}"
  for cx K P
proof (unfold_locales, goal_cases)
  case (1 w' w)
  then show ?case by (auto simp: core_def elim!: tallied_same)
next
  case 2
  show ?case by (rule tallied_now)
next
  case (3 bs)
  show ?case using tallied_transmit by (simp add: keeps_def)
next
  case 4
  show ?case by (rule tallied_receive)
next
  case (5 m q)
  show ?case by (rule tallied_seen)
next
  case (6 stg h rnd)
  show ?case using tallied_journal [OF build_parts] by simp
next
  case (7 h rnd)
  show ?case by (rule valid_weaken [OF tallied_journal]) (use nack_parts in fastforce)+
next
  case (8 rnd)
  show ?case by (rule valid_weaken [OF tallied_journal]) (use trigger_parts in fastforce)+
next
  case (9 f)
  show ?case by (rule valid_weaken [OF tallied_admit [of f K P cx]]) (use 9 in \<open>auto simp: spoke_def\<close>)
next
  case (10 f)
  show ?case by (rule valid_weaken [OF tallied_admit [of f K P cx]]) (use 10 in auto)
next
  case (11 f mt rnd m q mt')
  from 11(2) show ?case
    by (rule trigger_round_Some) (use 11(1) in \<open>auto simp: spoke_def\<close>)
next
  case (12 f ad)
  then show ?case by (intro tallied_count) simp
next
  case (13 m w)
  then show ?case by (intro tallied_self) simp_all
next
  case (14 f w m)
  then show ?case by (rule tallied_hold)
next
  case (15 w)
  then show ?case by (simp add: tallied_def)
next
  case (16 w)
  then show ?case by (simp add: tallied_def)
next
  case (17 w stamp r c)
  then show ?case by (rule tallied_close)
next
  case (18 w ad m)
  then show ?case by (auto elim!: tallied_same)
next
  case (19 w x rest)
  then show ?case by (auto elim!: tallied_same)
next
  case (20 m w)
  then show ?case by (intro tallied_foreign) simp_all
next
  case (21 w)
  then show ?case by (rule tallied_split)
qed (auto elim!: tallied_same)

section \<open>From the start of the process\<close>

text \<open>Every frame the process could read: what the radio will say and what its journal held.\<close>

definition readable :: "LogJournal \<Rightarrow> Env \<Rightarrow> bytes set" where
  "readable j v = received v \<union> restored j"

lemma restored_early_known: "snd ` set (restored_early cx j) \<subseteq> restored j"
proof -
  define add :: "(nat, bytes) btree \<Rightarrow> string \<times> bytes \<Rightarrow> (nat, bytes) btree"
    where "add = (\<lambda>m (a, bs). case member_index cx a of None \<Rightarrow> m | Some i \<Rightarrow> bt_insert i bs m)"
  have "snd ` set (foldl add m es) \<subseteq> snd ` set m \<union> snd ` set es" for m :: "(nat, bytes) btree" and es
  proof (induction es arbitrary: m)
    case (Cons e es)
    have "snd ` set (add m e) \<subseteq> insert (snd e) (snd ` set m)"
      using set_insert_early [of _ "snd e" m] by (cases e) (simp add: add_def subset_insertI2 split: option.split)
    then have "snd ` set (add m e) \<union> snd ` set es \<subseteq> snd ` set m \<union> snd ` set (e # es)" by auto
    from order_trans [OF Cons [of "add m e"] this] show ?case by simp
  qed simp
  from this [of "[]" "j_witnessed (log_state j)"]
  have w: "snd ` set (foldl add [] (j_witnessed (log_state j))) \<subseteq> restored j" by (auto simp: restored_def)
  moreover have "snd ` set (bt_insert k (frame_bytes f) m) \<subseteq> restored j"
    if "first_pending j = Some f" "snd ` set m \<subseteq> restored j" for k f and m :: "(nat, bytes) btree"
  proof (rule order_trans [OF set_insert_early])
    show "insert (frame_bytes f) (snd ` set m) \<subseteq> restored j"
      using first_pending_outbox [OF that(1)] that(2) by (auto simp: restored_def)
  qed
  ultimately show ?thesis
    by (auto simp: restored_early_def Let_def add_def split: option.splits)
qed

lemma tallied_boot: "tallied cx (readable j v) (outbox j) (boot_node cx j v)"
proof -
  have "nd_case (boot_node cx j v) = case_open (cx_subject cx)" "nd_heard (boot_node cx j v) = heard_none"
    "nd_early (boot_node cx j v) = restored_early cx j" "nd_journal (boot_node cx j v) = j"
    "nd_split (boot_node cx j v) = False" "nd_foreign (boot_node cx j v) = []"
    "ev_polls (nd_env (boot_node cx j v)) = ev_polls v"
    by (auto simp: boot_node_def Let_def read_instant_def split: prod.splits list.splits)
  moreover have "sound_case cx S (case_open (cx_subject cx))" for S
    using case_inv_open by (simp add: sound_case_def case_open_def) (simp add: open_until_def)
  moreover have "\<not> heard_contains heard_none m" for m
    by (cases "m < 64") (simp_all add: heard_contains_bit heard_none_def)
  moreover have "length (heard_bits heard_none) = 8" by (simp add: heard_none_def)
  moreover have "snd ` set (restored_early cx j) \<subseteq> readable j v"
    using restored_early_known by (auto simp: readable_def)
  ultimately show ?thesis
    by (auto simp: tallied_def readable_def received_def bt_keys_def)
qed

lemma tallied_run:
  assumes "node_boot cx bs ok entropy ws cs v = Inr w0" and "boot_journal cx bs ok entropy ws cs = Inr j"
    and "run_state (node_run cx fuel) w0 = (flow, w)"
  shows "tallied cx (readable j v) (outbox j) w"
proof -
  have "w0 = boot_node cx j v" using assms(1,2) by (auto simp: node_boot_def Let_def split: if_splits)
  then show ?thesis using keepsD [OF tally.run tallied_boot] assms(3) by (metis snd_conv)
qed

lemma readable_outbox: "readable j v \<union> outbox j \<union> S = readable j v \<union> S"
  by (auto simp: readable_def restored_def)

text \<open>The members whose supporting binding vote is among the frames \<open>S\<close>.\<close>

definition supporters_in :: "Ctx \<Rightarrow> bytes set \<Rightarrow> nat set" where
  "supporters_in cx S = {m. \<exists>f \<in> S. \<exists>q frame. genuine cx f m q frame
     \<and> ce_stage (sc_envelope frame) = 3 \<and> ce_verdict (sc_envelope frame) = 1}"

lemma sound_supporters:
  assumes "sound_case cx S c"
  shows "set (binding_supporters c) \<subseteq> member_id cx ` supporters_in cx S" and "distinct (binding_supporters c)"
proof
  fix i assume "i \<in> set (binding_supporters c)"
  then obtain v where v: "v \<in> set (binding c)" "verdict v = Support" "author v = i"
    by (auto simp: binding_supporters_def)
  then have "backed cx S v" using assms by (simp add: sound_case_def)
  then obtain m f q frame where b: "author v = member_id cx m" "f \<in> S" "genuine cx f m q frame"
      "ce_stage (sc_envelope frame) = 3" "verdict_of (ce_verdict (sc_envelope frame)) = Some Support"
    unfolding backed_def v(2) by blast
  have "ce_verdict (sc_envelope frame) = 1" using b(5) by (auto simp: verdict_of_def split: if_splits)
  then have "m \<in> supporters_in cx S" using b(2-4) unfolding supporters_in_def by blast
  then show "i \<in> member_id cx ` supporters_in cx S" using b(1) v(3) by blast
next
  show "distinct (binding_supporters c)"
    using assms by (auto simp: sound_case_def case_inv_def binding_supporters_def distinct_map_filter)
qed

text \<open>
  (C2) An endorsement is a quorum of signatures. Each supporter a node counts is the id of a
  member for whom it has a frame (heard, recovered from its journal or built here) that
  opens under the group key, verifies under that member's key, is about this very subject
  and carries a supporting binding vote; no supporter is counted twice; and the node
  reports \<open>endorsed\<close> exactly when those ids are in the fleet and meet both thresholds.
\<close>

theorem endorsement_is_a_quorum:
  assumes "node_boot cx bs ok entropy ws cs v = Inr w0" and "boot_journal cx bs ok entropy ws cs = Inr j"
    and "with_settings ms bps ratio = Inr (fl_policy (cx_fleet cx))" and "length ms < 2 ^ 32"
    and "run_state (node_run cx fuel) w0 = (flow, w)"
  shows "set (binding_supporters (nd_case w)) \<subseteq> member_id cx ` supporters_in cx (readable j v \<union> built cx)
    \<and> fr_supporters (final_report cx w) = card (set (binding_supporters (nd_case w)))
    \<and> (fr_endorsed (final_report cx w) \<longleftrightarrow>
         set (binding_supporters (nd_case w)) \<subseteq> fst ` set ms
         \<and> min_signers (fl_policy (cx_fleet cx)) \<le> card (set (binding_supporters (nd_case w)))
         \<and> 2 * support_of (fl_policy (cx_fleet cx)) (fst ` set ms)
             < 3 * support_of (fl_policy (cx_fleet cx)) (set (binding_supporters (nd_case w))))"
proof -
  let ?p = "fl_policy (cx_fleet cx)" and ?ss = "binding_supporters (nd_case w)"
  have sound: "sound_case cx (readable j v \<union> built cx) (nd_case w)"
    using tallied_run [OF assms(1,2,5)] by (simp add: tallied_def readable_outbox)
  note s = sound_supporters [OF sound]
  have "fr_endorsed (final_report cx w) \<longleftrightarrow> (\<exists>r. evaluate ?p ?ss = Inr r \<and> approved r)"
    by (auto simp: final_report_def Let_def split: sum.splits)
  moreover have "\<dots> \<longleftrightarrow> set ?ss \<subseteq> fst ` set ms \<and> min_signers ?p \<le> card (set ?ss)
      \<and> 2 * support_of ?p (fst ` set ms) < 3 * support_of ?p (set ?ss)"
    using evaluate_approved [OF wf_of [OF assms(3)]] size_of [OF assms(3)] assms(4) by auto
  moreover have "fr_supporters (final_report cx w) = length ?ss"
    by (simp add: final_report_def Let_def)
  ultimately show ?thesis using s by (simp add: distinct_card)
qed

text \<open>
  What a node reports having heard, and what makes it declare a split, is signed: every
  member in its acknowledgement map signed a binding vote the node has, and a split is
  declared only on the word of two different members whose signed frames the node heard
  or recovered; no member alone, however faulty, can do it.
\<close>

theorem acknowledged_and_split_backed:
  assumes "node_boot cx bs ok entropy ws cs v = Inr w0" and "boot_journal cx bs ok entropy ws cs = Inr j"
    and "run_state (node_run cx fuel) w0 = (flow, w)"
  shows "{m. heard_contains (nd_heard w) m} \<subseteq> {m. voted_in cx (readable j v \<union> built cx) m}
    \<and> 2 * of_bool (nd_split w) \<le> card {m. spoke cx (readable j v) m}"
proof -
  note t = tallied_run [OF assms]
  have fin: "finite {m. spoke cx (readable j v) m}"
    by (rule finite_subset [of _ "{..<length (cx_keyring cx)}"]) (auto simp: spoke_def genuine_def)
  have "2 \<le> card {m. spoke cx (readable j v) m}" if "nd_split w"
  proof -
    have l: "2 \<le> length (nd_foreign w)" and d: "distinct (map fst (nd_foreign w))"
      and s: "fst ` set (nd_foreign w) \<subseteq> {m. spoke cx (readable j v) m}"
      using t that by (auto simp: tallied_def bt_inv_distinct bt_keys_def)
    have "card (fst ` set (nd_foreign w)) = length (nd_foreign w)"
      using distinct_card [OF d] by simp
    then show ?thesis using l card_mono [OF fin s] by simp
  qed
  then show ?thesis using t by (auto simp: tallied_def readable_outbox)
qed

lemma sample_journal: "\<exists>j w. boot_journal sample_ctx [] True 7 [] [] = Inr j \<and> node_boot sample_ctx [] True 7 [] [] sample_env = Inr w"
  using sample_boots by (auto simp: node_boot_def Let_def split: if_splits sum.splits)

theorem endorsement_is_a_quorum_witness:
  "\<exists>w0 j. node_boot sample_ctx [] True 7 [] [] sample_env = Inr w0 \<and>
     set (binding_supporters (nd_case (snd (run_state (node_run sample_ctx 2) w0))))
       \<subseteq> member_id sample_ctx ` supporters_in sample_ctx (readable j sample_env \<union> built sample_ctx)"
proof -
  obtain j w0 where b: "boot_journal sample_ctx [] True 7 [] [] = Inr j" "node_boot sample_ctx [] True 7 [] [] sample_env = Inr w0"
    using sample_journal by blast
  have "with_settings five 4000 3 = Inr (fl_policy (cx_fleet sample_ctx))"
    using five_ok by (simp add: sample_ctx_fields sample_fleet_def)
  from endorsement_is_a_quorum [OF b(2,1) this, of 2 "fst (run_state (node_run sample_ctx 2) w0)"]
  have "set (binding_supporters (nd_case (snd (run_state (node_run sample_ctx 2) w0))))
      \<subseteq> member_id sample_ctx ` supporters_in sample_ctx (readable j sample_env \<union> built sample_ctx)"
    by (simp add: five_def)
  with b show ?thesis by blast
qed

theorem acknowledged_and_split_backed_witness:
  "\<exists>w0 j. node_boot sample_ctx [] True 7 [] [] sample_env = Inr w0 \<and>
     2 * of_bool (nd_split (snd (run_state (node_run sample_ctx 2) w0))) \<le> card {m. spoke sample_ctx (readable j sample_env) m}"
proof -
  obtain j w0 where b: "boot_journal sample_ctx [] True 7 [] [] = Inr j" "node_boot sample_ctx [] True 7 [] [] sample_env = Inr w0"
    using sample_journal by blast
  from acknowledged_and_split_backed [OF b(2,1), of 2 "fst (run_state (node_run sample_ctx 2) w0)"] b show ?thesis
    by (metis prod.collapse)
qed

end
