(* ===== verification/Lcq_Node_Outbox.thy ===== *)
theory Lcq_Node_Outbox
  imports Lcq_Node_Votes Lcq_Node_Airtime Lcq_Log_Safety
begin

text \<open>
  What a running node may put on the air. Apart from frames it carries for others and
  frames that are no vote, it airs one vote only, and that vote and its lock are on disk
  first: whenever the process dies, the next one finds the vote it may already have sent,
  resends the same bytes and never decides again.
\<close>

section \<open>The queue of carried frames\<close>

definition queued :: "RadioQueue \<Rightarrow> bytes set" where
  "queued q = frame_bytes ` set (frames q)"

lemma queued_offer: "queued (snd (offer q f p)) \<subseteq> insert (frame_bytes f) (queued q)"
  by (cases rule: offer_cases [of q f p]) (auto simp: queued_def frames_def)

lemma queued_forget [simp]: "queued (forget q k) = queued q"
  by (simp add: queued_def frames_def forget_def)

lemma queued_take:
  "take_next q = (x, rest) \<Longrightarrow> queued rest \<subseteq> queued q \<and> (\<forall>f. x = Some f \<longrightarrow> frame_bytes f \<in> queued q)"
  by (cases rule: take_next_cases [of q]) (auto simp: queued_def frames_def)

lemma queued_offer_frame:
  "queued (snd (offer_frame held bs p (n, q))) \<subseteq> insert bs (queued q)"
proof (cases "peek_frame_header bs")
  case (Inr x)
  let ?k = "forward_key held (snd x)"
  obtain y q' where o: "offer (forget q ?k) (frame_new bs ?k) p = (y, q')" by fastforce
  have "queued q' \<subseteq> insert bs (queued q)"
    using queued_offer [of "forget q ?k" "frame_new bs ?k" p] by (simp add: o) (simp add: frame_new_def)
  then show ?thesis using o by (cases y) (simp_all add: offer_frame_def Inr Let_def split_beta)
qed (auto simp: offer_frame_def)

lemma queued_carry:
  "queued (snd (foldl (carry_witnessed cx ad m) (n, q) es)) \<subseteq> queued q \<union> snd ` set es"
proof (induction es arbitrary: n q)
  case (Cons e es)
  obtain n' q' where c: "carry_witnessed cx ad m (n, q) e = (n', q')" by fastforce
  have "queued q' \<subseteq> insert (snd e) (queued q)"
    using c queued_offer_frame [of "the (member_index cx (fst e))" "snd e" Routine n q]
    by (cases "member_index cx (fst e)") (auto simp: carry_witnessed_def split_beta split: if_splits)
  then show ?case using Cons.IH [of n' q'] c by auto
qed simp

lemma queued_answer:
  "queued (snd (queue_answer cx ad m j q)) \<subseteq> queued q \<union> snd ` set (j_witnessed (log_state j))
    \<union> (if log_has_voted j (cx_subject cx) (me cx) then outbox j else {})"
proof -
  define acc where "acc = (if heard_contains (ad_heard ad) (o_index (cx_opts cx))
    then foldl (carry_witnessed cx ad m) (0, q) (j_witnessed (log_state j)) else (0, q))"
  have a: "queued (snd acc) \<subseteq> queued q \<union> snd ` set (j_witnessed (log_state j))"
    using queued_carry by (auto simp: acc_def)
  have b: "queued (snd (offer_frame k (frame_bytes f) p acc)) \<subseteq> insert (frame_bytes f) (queued (snd acc))" for k f p
    using queued_offer_frame [of k "frame_bytes f" p "fst acc" "snd acc"] by simp
  have q: "queue_answer cx ad m j q = (if \<not> heard_contains (ad_heard ad) (o_index (cx_opts cx))
        \<and> log_has_voted j (cx_subject cx) (me cx)
      then (case first_pending j of None \<Rightarrow> acc
        | Some again \<Rightarrow> offer_frame (o_index (cx_opts cx)) (frame_bytes again) Distress acc) else acc)"
    unfolding queue_answer_def Let_def acc_def me_def by (rule refl)
  show ?thesis
  proof (cases "\<not> heard_contains (ad_heard ad) (o_index (cx_opts cx)) \<and> log_has_voted j (cx_subject cx) (me cx)")
    case True
    then show ?thesis
      using a b [of "o_index (cx_opts cx)" _ Distress] first_pending_outbox [of j]
      by (fastforce simp: q split: option.splits)
  next
    case False
    then show ?thesis using a by (auto simp: q)
  qed
qed

section \<open>The invariant\<close>

text \<open>A frame that carries no binding vote, and the vote in the journal.\<close>

definition no_vote :: "Ctx \<Rightarrow> bytes \<Rightarrow> bool" where
  "no_vote cx bs \<longleftrightarrow> (\<exists>e. carries cx bs e \<and> ce_stage e \<noteq> 3)"

definition kept_vote :: "Ctx \<Rightarrow> LogJournal \<Rightarrow> bytes \<Rightarrow> bool" where
  "kept_vote cx j bs \<longleftrightarrow> log_has_voted j (cx_subject cx) (me cx) \<and> bs \<in> outbox j"

definition may_air :: "Ctx \<Rightarrow> bytes set \<Rightarrow> LogJournal \<Rightarrow> bytes \<Rightarrow> bool" where
  "may_air cx R j bs \<longleftrightarrow> bs \<in> R \<or> no_vote cx bs \<or> kept_vote cx j bs"

text \<open>An outbox of at most one frame, and of none before the vote.\<close>

definition one_vote_kept :: "Ctx \<Rightarrow> LogJournal \<Rightarrow> bool" where
  "one_vote_kept cx j \<longleftrightarrow> (log_has_voted j (cx_subject cx) (me cx) \<or> outbox j = {}) \<and> (\<exists>b. outbox j \<subseteq> {b})"

text \<open>The adversary modes that put other frames on the air are left out.\<close>

definition keeps_votes :: "Ctx \<Rightarrow> bool" where
  "keeps_votes cx \<longleftrightarrow> postcard_ok (cx_pc cx) \<and> o_adversary (cx_opts cx) \<notin> {DoubleVote, Jam, Replay}"

definition disciplined :: "Ctx \<Rightarrow> bytes set \<Rightarrow> bytes set \<Rightarrow> Node \<Rightarrow> bool" where
  "disciplined cx R P w \<longleftrightarrow> keeps_votes cx \<and> log_ok (cx_pc cx) (nd_journal w) \<and> no_torn_writes (nd_journal w)
     \<and> one_vote_kept cx (nd_journal w) \<and> P \<subseteq> outbox (nd_journal w)
     \<and> snd ` set (ev_aired (nd_env w)) \<subseteq> {bs. may_air cx R (nd_journal w) bs}
     \<and> queued (nd_forwards w) \<subseteq> {bs. may_air cx R (nd_journal w) bs}
     \<and> snd ` set (j_witnessed (log_state (nd_journal w))) \<subseteq> {bs. may_air cx R (nd_journal w) bs}
     \<and> received (nd_env w) \<subseteq> R \<and> snd ` set (nd_early w) \<subseteq> R \<union> P"

text \<open>The journal moves on: nothing it has committed is taken back.\<close>

definition moves :: "Ctx \<Rightarrow> LogJournal \<Rightarrow> LogJournal \<Rightarrow> bool" where
  "moves cx j j' \<longleftrightarrow> log_step (cx_pc cx) j j' \<and> outbox j \<subseteq> outbox j'
     \<and> (log_has_voted j (cx_subject cx) (me cx) \<longrightarrow> log_has_voted j' (cx_subject cx) (me cx))
     \<and> (one_vote_kept cx j \<longrightarrow> one_vote_kept cx j')"

lemma moves_may_air: "moves cx j j' \<Longrightarrow> may_air cx R j bs \<Longrightarrow> may_air cx R j' bs"
  by (auto simp: moves_def may_air_def kept_vote_def)

lemma disciplined_moves:
  assumes "disciplined cx R P w" and "moves cx (nd_journal w) j'"
    and "snd ` set (j_witnessed (log_state j')) \<subseteq> snd ` set (j_witnessed (log_state (nd_journal w))) \<union> R \<union> P"
  shows "disciplined cx R P (w\<lparr>nd_journal := j'\<rparr>)"
proof -
  have j: "log_ok (cx_pc cx) j'" "no_torn_writes j'" "one_vote_kept cx j'" "outbox (nd_journal w) \<subseteq> outbox j'"
    using assms(1,2) by (auto simp: disciplined_def moves_def log_step_def keeps_votes_def)
  have p: "may_air cx R j' bs" if "bs \<in> P" for bs
  proof -
    have "log_has_voted (nd_journal w) (cx_subject cx) (me cx)" "bs \<in> outbox (nd_journal w)"
      using assms(1) that by (auto simp: disciplined_def one_vote_kept_def)
    then show ?thesis using assms(2) by (auto simp: moves_def may_air_def kept_vote_def)
  qed
  have "snd ` set (j_witnessed (log_state (nd_journal w))) \<subseteq> {bs. may_air cx R j' bs}"
    using assms(1) moves_may_air [OF assms(2)] by (auto simp: disciplined_def)
  moreover have "R \<union> P \<subseteq> {bs. may_air cx R j' bs}" using p by (auto simp: may_air_def)
  ultimately have "snd ` set (j_witnessed (log_state j')) \<subseteq> {bs. may_air cx R j' bs}"
    using assms(3) by blast
  then show ?thesis
    using assms(1) j moves_may_air [OF assms(2)] by (auto simp: disciplined_def received_def)
qed

lemma same_moves:
  assumes "log_step (cx_pc cx) j j'" and "j_pending (log_state j') = j_pending (log_state j)"
    and "j_locks (log_state j') = j_locks (log_state j)"
  shows "moves cx j j'"
  using assms by (simp add: moves_def outbox_def log_has_voted_def one_vote_kept_def)

lemma moves_seen: "moves cx j (remember_seen cx j m q)"
proof (rule same_moves)
  show "log_step (cx_pc cx) j (remember_seen cx j m q)"
    by (simp add: remember_seen_def step_mark_seen log_step_refl)
qed (simp_all add: seen_parts)

lemma moves_witness: "moves cx j (snd (log_witness (cx_pc cx) j a bs))"
  by (rule same_moves) (simp_all add: witness_parts step_witness)

lemma moves_reserve: "log_reserve_sequence (cx_pc cx) j = (r, j') \<Longrightarrow> moves cx j j'"
  using step_reserve [of "cx_pc cx" j] by (intro same_moves) (simp_all add: reserve_parts)

lemma moves_trans: "moves cx j j1 \<Longrightarrow> moves cx j1 j2 \<Longrightarrow> moves cx j j2"
  unfolding moves_def by (blast intro: log_step_trans)

lemma commit_moves:
  assumes "log_commit_vote (cx_pc cx) j (cx_subject cx) (me cx) (frame_new bs q) = (x, j')" and "one_vote_kept cx j"
    and "jwf (log_state j)"
  shows "moves cx j j' \<and> (x = Inr () \<longrightarrow> kept_vote cx j' bs)"
proof -
  have step: "log_step (cx_pc cx) j j'" using step_commit [of "cx_pc cx" j "cx_subject cx" "me cx" "frame_new bs q"] assms(1) by simp
  show ?thesis
  proof (cases "x = Inr ()")
    case True
    then have c: "\<not> log_has_voted j (cx_subject cx) (me cx)"
        "j_locks (log_state j') = bt_insert (lock_key (cx_subject cx) (me cx)) () (j_locks (log_state j))"
        "j_pending (log_state j') = bt_insert q (frame_new bs q) (j_pending (log_state j))"
      using commit_parts(1) [OF assms(1)] by (auto simp: frame_new_def)
    have e: "outbox j = {}" using c(1) assms(2) by (simp add: one_vote_kept_def)
    then have "j_pending (log_state j) = []" by (auto simp: outbox_def bt_values_def)
    then have o: "outbox j' = {bs}" by (simp add: outbox_def c(3) bt_values_def frame_new_def)
    have v: "log_has_voted j' (cx_subject cx) (me cx)"
      using assms(3) by (simp add: log_has_voted_def c(2) jwf_def bt_simps)
    show ?thesis using step e o v by (auto simp: moves_def one_vote_kept_def kept_vote_def)
  next
    case False
    then have "j_locks (log_state j') = j_locks (log_state j)" "j_pending (log_state j') = j_pending (log_state j)"
      using commit_parts(1) [OF assms(1)] by auto
    then show ?thesis using same_moves [OF step] False by simp
  qed
qed

section \<open>The loop keeps it\<close>

lemma disciplined_same:
  assumes I: "disciplined cx R P w" and j: "nd_journal w' = nd_journal w" and a: "ev_aired (nd_env w') = ev_aired (nd_env w)"
    and p: "ev_polls (nd_env w') = ev_polls (nd_env w)" and q: "queued (nd_forwards w') \<subseteq> queued (nd_forwards w)"
    and e: "snd ` set (nd_early w') \<subseteq> snd ` set (nd_early w) \<union> R \<union> P"
  shows "disciplined cx R P w'"
proof -
  have "queued (nd_forwards w') \<subseteq> {bs. may_air cx R (nd_journal w) bs}"
    using I order_trans [OF q] by (simp add: disciplined_def)
  moreover have "snd ` set (nd_early w) \<subseteq> R \<union> P" using I by (simp add: disciplined_def)
  with e have "snd ` set (nd_early w') \<subseteq> R \<union> P" by blast
  ultimately show ?thesis using I by (simp add: disciplined_def received_def j a p)
qed

lemma disciplined_quiet:
  "disciplined cx R P w \<Longrightarrow> nd_journal w' = nd_journal w \<Longrightarrow> ev_aired (nd_env w') = ev_aired (nd_env w) \<Longrightarrow>
     ev_polls (nd_env w') = ev_polls (nd_env w) \<Longrightarrow> nd_forwards w' = nd_forwards w \<Longrightarrow> nd_early w' = nd_early w \<Longrightarrow>
     disciplined cx R P w'"
  by (erule disciplined_same) auto

lemma disciplined_modify:
  "(\<And>w. nd_journal (f w) = nd_journal w \<and> nd_env (f w) = nd_env w
      \<and> nd_forwards (f w) = nd_forwards w \<and> nd_early (f w) = nd_early w) \<Longrightarrow> keeps (disciplined cx R P) (modify f)"
  by (rule keeps_modify) (erule disciplined_quiet; simp)

lemma disciplined_now: "keeps (disciplined cx R P) instant_now"
  unfolding keeps_def
  by (rule validI) (auto dest!: run_instant_now read_instant_later elim!: disciplined_quiet)

lemma disciplined_meter: "keeps (disciplined cx R P) (with_meter f)"
  unfolding keeps_def by (rule validI) (auto simp: with_meter_def split: prod.splits elim!: disciplined_quiet)

lemma disciplined_aired:
  assumes "disciplined cx R P w" and "may_air cx R (nd_journal w) bs" and "radio_transmit t bs (nd_env w) = (r, v)"
  shows "disciplined cx R P (w\<lparr>nd_env := v\<rparr>)"
proof -
  have "ev_aired v = ev_aired (nd_env w) @ [(t, bs)]" "ev_polls v = ev_polls (nd_env w)"
    using assms(3) by (auto simp: radio_transmit_def Let_def split: list.splits)
  then show ?thesis using assms(1,2) by (auto simp: disciplined_def received_def)
qed

lemma disciplined_transmit:
  "valid (\<lambda>w. disciplined cx R P w \<and> may_air cx R (nd_journal w) bs) (node_transmit cx bs) (\<lambda>_. disciplined cx R P)"
proof -
  let ?I = "\<lambda>w. disciplined cx R P w \<and> may_air cx R (nd_journal w) bs"
  have n: "keeps ?I instant_now"
    unfolding keeps_def
    by (rule validI) (auto dest!: run_instant_now read_instant_later elim!: disciplined_quiet)
  have m: "keeps ?I (modify (nd_budget_update f))" for f
    by (rule keeps_modify) (auto elim!: disciplined_quiet)
  have a: "valid ?I (with_env (radio_transmit t bs)) (\<lambda>_. disciplined cx R P)" for t
    by (rule validI) (auto simp: with_env_def split: prod.splits elim!: disciplined_aired)
  have g: "keeps ?I (gets f)" for f :: "Node \<Rightarrow> 'b" by (rule keeps_gets)
  have w: "valid ?I k (\<lambda>_. disciplined cx R P)" if "keeps ?I k" for k :: "bool node"
    using that unfolding keeps_def by (rule valid_weaken) simp
  have step: "valid ?I (State_Monad.bind k h) (\<lambda>_. disciplined cx R P)"
    if "keeps ?I k" "\<And>x. valid ?I (h x) (\<lambda>_. disciplined cx R P)" for k :: "'c node" and h :: "'c \<Rightarrow> bool node"
    using that unfolding keeps_def by (intro valid_bind)
  have out: "valid ?I (case x of (True, b) \<Rightarrow> do {
            modify (nd_budget_update (\<lambda>_. b));
            refusal \<leftarrow> with_env (radio_transmit t bs);
            State_Monad.return (refusal = None) }
        | (False, b) \<Rightarrow> do {
            modify (nd_budget_update (\<lambda>_. snd (used_ms b t)));
            State_Monad.return False }) (\<lambda>_. disciplined cx R P)" for x t
  proof (cases x)
    case (Pair ok b)
    show ?thesis
    proof (cases ok)
      case True
      have "valid ?I (do { modify (nd_budget_update (\<lambda>_. b)); refusal \<leftarrow> with_env (radio_transmit t bs);
          State_Monad.return (refusal = None) }) (\<lambda>_. disciplined cx R P)"
        by (rule valid_bind [OF m [unfolded keeps_def]], rule valid_bind [OF a], rule valid_return)
      then show ?thesis by (simp add: Pair True)
    next
      case False
      have "valid ?I (do { modify (nd_budget_update (\<lambda>_. snd (used_ms b t))); State_Monad.return False })
          (\<lambda>_. disciplined cx R P)"
        by (rule valid_bind [OF m [unfolded keeps_def]], rule valid_return) simp
      then show ?thesis by (simp add: Pair False)
    qed
  qed
  show ?thesis unfolding node_transmit_def Let_def
    by (rule valid_bind [OF n [unfolded keeps_def]], (rule valid_bind [OF g [unfolded keeps_def]])+, rule out)
qed

lemma disciplined_receive:
  "valid (disciplined cx R P) node_receive (\<lambda>r w. disciplined cx R P w \<and> (\<forall>f. r = Some f \<longrightarrow> f \<in> R \<union> P))"
proof (rule validI)
  fix w r w' assume I: "disciplined cx R P w" and run: "run_state node_receive w = (r, w')"
  obtain later mt where d: "drain (ev_polls (nd_env w)) (nd_meter w) = ((r, later), mt)"
    and w': "w' = w\<lparr>nd_meter := mt, nd_env := (nd_env w)\<lparr>ev_polls := later\<rparr>\<rparr>"
    using run by (auto simp: node_receive_def with_meter_def split: prod.splits)
  have "received (nd_env w') \<subseteq> received (nd_env w)"
    using drain_received [OF d] by (auto simp: received_def w')
  moreover have "f \<in> received (nd_env w)" if "r = Some f" for f
    using drain_received [OF d] that by (auto simp: received_def)
  ultimately show "disciplined cx R P w' \<and> (\<forall>f. r = Some f \<longrightarrow> f \<in> R \<union> P)" using I by (auto simp: disciplined_def w')
qed

lemma disciplined_admit: "keeps (disciplined cx R P) (admit_frame cx f)"
  unfolding admit_frame_def clock_reading_def
  by (intro keeping disciplined_now disciplined_meter disciplined_modify; simp)

text \<open>A journal call that moves on and returns a frame that may go on the air.\<close>

lemma disciplined_journal:
  assumes "\<And>j r j'. f j = (r, j') \<Longrightarrow> one_vote_kept cx j \<Longrightarrow> jwf (log_state j) \<Longrightarrow> keeps_votes cx \<Longrightarrow>
      moves cx j j' \<and> j_witnessed (log_state j') = j_witnessed (log_state j)
      \<and> (\<forall>bs. r = Inr bs \<longrightarrow> no_vote cx bs \<or> kept_vote cx j' bs)"
  shows "valid (disciplined cx R P) (with_journal f)
    (\<lambda>r w. disciplined cx R P w \<and> (\<forall>bs. r = Inr bs \<longrightarrow> may_air cx R (nd_journal w) bs))"
proof (rule validI)
  fix w r w' assume I: "disciplined cx R P w" and run: "run_state (with_journal f) w = (r, w')"
  obtain j' where f: "f (nd_journal w) = (r, j')" and w': "w' = w\<lparr>nd_journal := j'\<rparr>"
    using run by (auto simp: with_journal_def split: prod.splits)
  have j: "one_vote_kept cx (nd_journal w)" "jwf (log_state (nd_journal w))" "keeps_votes cx"
    using I by (simp_all add: disciplined_def log_ok_def)
  note a = assms [OF f j]
  show "disciplined cx R P w' \<and> (\<forall>bs. r = Inr bs \<longrightarrow> may_air cx R (nd_journal w') bs)"
    using disciplined_moves [OF I, of j'] a by (auto simp: w' may_air_def)
qed

lemma kept_by_reserve:
  assumes "log_reserve_sequence (cx_pc cx) j = (x, j')"
  shows "moves cx j j' \<and> j_witnessed (log_state j') = j_witnessed (log_state j)"
  using moves_reserve [OF assms] reserve_parts(3) [OF assms] by simp

lemma stage_code_3: "stage_code stg = 3 \<longleftrightarrow> stg = BindingSupport"
  by (cases stg) (simp_all add: stage_code_def)

lemma build_kept:
  assumes "build cx stg j h rnd = (r, j')" and "one_vote_kept cx j" and "jwf (log_state j)" and "keeps_votes cx"
  shows "moves cx j j' \<and> j_witnessed (log_state j') = j_witnessed (log_state j)
    \<and> (\<forall>bs. r = Inr bs \<longrightarrow> no_vote cx bs \<or> kept_vote cx j' bs)"
  using assms(1)
proof (cases rule: build_cases)
  case again
  then show ?thesis using first_pending_outbox by (auto simp: kept_vote_def moves_def log_step_refl)
next
  case (refused x e)
  then show ?thesis using kept_by_reserve [OF refused(1)] by simp
next
  case (sent q e bs)
  have "no_vote cx bs" using sent assms(4) by (auto simp: no_vote_def stage_code_3 keeps_votes_def)
  then show ?thesis using sent kept_by_reserve [OF sent(1)] by auto
next
  case (voted q e bs j1 x)
  note r = kept_by_reserve [OF voted(1)]
  have "one_vote_kept cx j1" using r assms(2) by (simp add: moves_def)
  moreover have "jwf (log_state j1)"
    using step_state [of "cx_pc cx" j j1] r assms(3) by (metis fold_jwf moves_def)
  ultimately have c: "moves cx j1 j'" "x = Inr () \<longrightarrow> kept_vote cx j' bs"
    using commit_moves [OF voted(7)] by simp_all
  have "\<forall>b. r = Inr b \<longrightarrow> b = bs \<and> x = Inr ()" using voted(8) by (auto split: sum.splits)
  then show ?thesis using c r commit_parts(2) [OF voted(7)] moves_trans [of cx j j1 j'] by auto
qed

lemma nack_kept:
  assumes "build_nack cx j h rnd = (r, j')"
  shows "moves cx j j' \<and> j_witnessed (log_state j') = j_witnessed (log_state j) \<and> (\<forall>bs. r = Inr bs \<longrightarrow> no_vote cx bs)"
  using assms
proof (cases rule: nack_cases)
  case (1 x)
  have "no_vote cx bs" if "r = Inr bs" for bs using 1(2) [OF that] by (auto simp: no_vote_def NACK_STAGE_def)
  then show ?thesis using kept_by_reserve [OF 1(1)] by simp
qed

lemma trigger_kept:
  assumes "build_trigger cx j rnd = (r, j')"
  shows "moves cx j j' \<and> j_witnessed (log_state j') = j_witnessed (log_state j) \<and> (\<forall>bs. r = Inr bs \<longrightarrow> no_vote cx bs)"
  using assms
proof (cases rule: trigger_cases)
  case (1 x)
  have "no_vote cx bs" if "r = Inr bs" for bs using 1(2) [OF that] by (auto simp: no_vote_def TRIGGER_STAGE_def)
  then show ?thesis using kept_by_reserve [OF 1(1)] by simp
qed

lemma journal_update: "nd_journal_update f w = w\<lparr>nd_journal := f (nd_journal w)\<rparr>"
  by (cases w) simp

lemma keeps_journal:
  assumes "\<And>w. I w \<Longrightarrow> I (w\<lparr>nd_journal := f (nd_journal w)\<rparr>)"
  shows "keeps I (modify (nd_journal_update f))"
  by (rule keeps_modify) (subst journal_update, erule assms)

lemma disciplined_seen: "keeps (disciplined cx R P) (note_seen cx m q)"
proof -
  have x: "keeps (disciplined cx R P) (modify (nd_journal_update (\<lambda>j. remember_seen cx j m q)))"
    by (rule keeps_journal, erule disciplined_moves [OF _ moves_seen]) (auto simp: seen_parts)
  show ?thesis unfolding note_seen_def by (rule x | rule keeping disciplined_modify | simp)+
qed

lemma disciplined_count: "f \<in> R \<union> P \<Longrightarrow> keeps (disciplined cx R P) (count_vote cx ad f)"
proof -
  assume f: "f \<in> R \<union> P"
  have x: "keeps (disciplined cx R P) (modify (nd_journal_update (\<lambda>j. snd (log_witness (cx_pc cx) j a f))))" for a
  proof (rule keeps_journal, erule disciplined_moves [OF _ moves_witness])
    fix w :: Node
    show "snd ` set (j_witnessed (log_state (snd (log_witness (cx_pc cx) (nd_journal w) a f))))
        \<subseteq> snd ` set (j_witnessed (log_state (nd_journal w))) \<union> R \<union> P"
      using witness_parts(3) [of "cx_pc cx" "nd_journal w" a f] f by blast
  qed
  show ?thesis unfolding count_vote_def by (rule x | rule keeping disciplined_modify | simp)+
qed

lemma disciplined_answer:
  assumes "disciplined cx R P w"
  shows "disciplined cx R P (w\<lparr>nd_forwards := snd (queue_answer cx ad m (nd_journal w) (nd_forwards w))\<rparr>)"
proof -
  let ?ok = "{bs. may_air cx R (nd_journal w) bs}"
  have "queued (nd_forwards w) \<subseteq> ?ok" "snd ` set (j_witnessed (log_state (nd_journal w))) \<subseteq> ?ok"
    using assms by (simp_all add: disciplined_def)
  moreover have "(if log_has_voted (nd_journal w) (cx_subject cx) (me cx) then outbox (nd_journal w) else {}) \<subseteq> ?ok"
    by (auto simp: may_air_def kept_vote_def)
  ultimately have "queued (snd (queue_answer cx ad m (nd_journal w) (nd_forwards w))) \<subseteq> ?ok"
    using queued_answer [of cx ad m "nd_journal w" "nd_forwards w"] by blast
  then show ?thesis using assms by (simp add: disciplined_def)
qed

interpretation discipline: node_rule cx "disciplined cx R P" "\<lambda>w bs. may_air cx R (nd_journal w) bs" "R \<union> P" UNIV UNIV UNIV
  for cx R P
proof (unfold_locales, goal_cases)
  case (1 w' w)
  then show ?case by (auto simp: core_def elim!: disciplined_quiet)
next
  case 2
  show ?case by (rule disciplined_now)
next
  case (3 bs)
  show ?case by (rule disciplined_transmit)
next
  case 4
  show ?case by (rule disciplined_receive)
next
  case (5 m q)
  show ?case by (rule disciplined_seen)
next
  case (6 stg h rnd)
  show ?case using disciplined_journal [OF build_kept] by simp
next
  case (7 h rnd)
  show ?case by (rule disciplined_journal) (use nack_kept in blast)
next
  case (8 rnd)
  show ?case by (rule disciplined_journal) (use trigger_kept in blast)
next
  case (9 f)
  show ?case using disciplined_admit by (simp add: keeps_def)
next
  case (10 f)
  show ?case using disciplined_admit by (simp add: keeps_def)
next
  case (12 f ad)
  show ?case by (rule disciplined_count [OF 12(1)])
next
  case (14 f w m)
  show ?case using 14(2)
    by (rule disciplined_same) (use set_insert_early [of m f "nd_early w"] 14(1) in auto)
next
  case (15 w)
  then show ?case by (simp add: disciplined_def)
next
  case (16 w)
  from 16 show ?case by (rule disciplined_same) auto
next
  case (18 w ad m)
  then show ?case by (rule disciplined_answer)
next
  case (19 w x rest)
  from 19(1) have "disciplined cx R P (w\<lparr>nd_forwards := rest\<rparr>)"
    by (rule disciplined_same) (use queued_take [OF 19(2)] in auto)
  then show ?case using 19(1) queued_take [OF 19(2)] by (auto simp: disciplined_def)
next
  case (22 w bs)
  then show ?case by (auto simp: disciplined_def keeps_votes_def)
qed (auto elim!: disciplined_quiet)

section \<open>From the start of the process\<close>

lemma open_with_entropy_ok:
  assumes "postcard_ok pc" and "open_with_entropy pc bs True e = Inr j"
  shows "log_ok pc j \<and> no_torn_writes j"
proof -
  obtain j0 where o: "log_open pc bs True = Inr j0" using open_total by blast
  note ok = open_ok [OF o]
  show ?thesis
  proof (cases "bytes_on_disk j0 = 0 \<and> j_next_sequence (log_state j0) = 0")
    case False
    then show ?thesis using assms(2) o ok by (auto simp: open_with_entropy_def)
  next
    case True
    then obtain j' where a: "try_append pc j0 (ESequence (random_start e)) = (True, j')"
      and j: "j = j'\<lparr>log_state := (log_state j')\<lparr>j_next_sequence := random_start e\<rparr>\<rparr>"
      using assms(2) o by (auto simp: open_with_entropy_def Let_def split: prod.splits bool.splits)
    have ap: "log_append pc j0 (ESequence (random_start e)) = (Inr (), j')" using a by (simp add: log_append_def)
    have "log_state j = apply_entry (log_state j0) (ESequence (random_start e))"
      using append_state [OF ap] True by (simp add: j max_absorb2 word_zero_le)
    from settle [OF assms(1) ap _ _ this] ok show ?thesis by (simp add: j)
  qed
qed

definition quiet_disk :: "io list \<Rightarrow> compact_io list \<Rightarrow> bool" where
  "quiet_disk ws cs \<longleftrightarrow> set ws \<subseteq> {IoOk, IoFail 0} \<and> CompactDetached \<notin> set cs"

lemma boot_journal_ok:
  assumes "postcard_ok (cx_pc cx)" and "quiet_disk ws cs" and "boot_journal cx bs True e ws cs = Inr j"
  shows "log_ok (cx_pc cx) j \<and> no_torn_writes j"
proof -
  obtain j0 where o: "open_with_entropy (cx_pc cx) bs True e = Inr j0"
    using assms(3) by (auto simp: boot_journal_def split: sum.splits)
  let ?j1 = "j0\<lparr>writes := ws, compactions := cs\<rparr>"
  have j1: "log_ok (cx_pc cx) ?j1" "no_torn_writes ?j1"
    using open_with_entropy_ok [OF assms(1) o] assms(2) by (simp_all add: quiet_disk_def no_torn_writes_def)
  have "log_enter_epoch (cx_pc cx) ?j1 (fl_mission_epoch (cx_fleet cx)) = (Inr (), j)"
    using assms(3) o by (auto simp: boot_journal_def Let_def split: option.splits if_splits sum.splits prod.splits)
  then have "log_step (cx_pc cx) ?j1 j"
    using step_enter_epoch [of "cx_pc cx" ?j1 "fl_mission_epoch (cx_fleet cx)"] by simp
  then show ?thesis using j1 assms(1) by (simp add: log_step_def)
qed

lemma disciplined_boot:
  assumes "keeps_votes cx" and "quiet_disk ws cs" and "boot_journal cx bs True e ws cs = Inr j"
    and "one_vote_kept cx j" and "ev_aired v = []"
  shows "disciplined cx (received v \<union> snd ` set (j_witnessed (log_state j))) (outbox j) (boot_node cx j v)"
proof -
  have "nd_journal (boot_node cx j v) = j" "nd_forwards (boot_node cx j v) = with_capacity 64 (64 * MAX_FRAME_BYTES)"
    "nd_early (boot_node cx j v) = restored_early cx j" "ev_polls (nd_env (boot_node cx j v)) = ev_polls v"
    "ev_aired (nd_env (boot_node cx j v)) = ev_aired v"
    by (auto simp: boot_node_def Let_def read_instant_def split: prod.splits list.splits)
  moreover have "queued (with_capacity n k) = {}" for n k by (simp add: queued_def frames_def with_capacity_def)
  moreover have "snd ` set (restored_early cx j) \<subseteq> received v \<union> snd ` set (j_witnessed (log_state j)) \<union> outbox j"
    using restored_early_known [of cx j] by (auto simp: restored_def)
  ultimately show ?thesis
    using boot_journal_ok [OF _ assms(2,3)] assms(1,4,5)
    by (auto simp: disciplined_def keeps_votes_def received_def may_air_def)
qed

text \<open>
  (C3) On disk before on the air, and only once. What it is about: a node that is not run as one
  of the adversaries that put frames of others or second votes on the air (\<open>DoubleVote\<close>, \<open>Jam\<close>,
  \<open>Replay\<close>: \<open>keeps_votes\<close>); a life that has aired nothing yet and starts with an outbox of at
  most one frame, and of none unless the vote is locked (\<open>one_vote_kept\<close>); and a disk that in this
  life may refuse any appends and compactions but leaves no part of a failed append behind and lets no
  compaction fail after its rename (\<open>quiet_disk\<close>; what happens without that is
  \<open>torn_append_loses_vote\<close>). Then at any moment of the life, whatever frames arrive and
  whichever appends fail, everything the node has handed to the radio is a frame somebody else made
  (heard, or witnessed in an earlier life), a frame that carries no binding vote, or the one
  vote in its journal; and opening the journal's file as it is at that moment gives back the very
  state of this life, with the lock held and that vote in the outbox. The next life starts with
  \<open>one_vote_kept\<close> again.
\<close>

theorem one_vote_on_disk_before_air:
  assumes "node_boot cx bs True entropy ws cs v = Inr w0" and "boot_journal cx bs True entropy ws cs = Inr j"
    and "keeps_votes cx" and "quiet_disk ws cs" and "ev_aired v = []" and "one_vote_kept cx j"
    and "run_state (node_run cx fuel) w0 = (flow, w)"
  shows "\<exists>j2. log_open (cx_pc cx) (log_file (nd_journal w)) True = Inr j2 \<and> log_state j2 = log_state (nd_journal w)
    \<and> one_vote_kept cx j2
    \<and> snd ` set (ev_aired (nd_env w)) \<subseteq> received v \<union> snd ` set (j_witnessed (log_state j))
        \<union> {bs. no_vote cx bs} \<union> {bs. kept_vote cx j2 bs}"
proof -
  let ?R = "received v \<union> snd ` set (j_witnessed (log_state j))"
  have "w0 = boot_node cx j v" using assms(1,2) by (auto simp: node_boot_def Let_def split: if_splits)
  then have d: "disciplined cx ?R (outbox j) w"
    using keepsD [OF discipline.run disciplined_boot [OF assms(3,4,2,6,5)]] assms(7) by (metis snd_conv)
  then have "log_ok (cx_pc cx) (nd_journal w)" by (simp add: disciplined_def)
  then obtain j2 where j2: "log_open (cx_pc cx) (log_file (nd_journal w)) True = Inr j2"
      "log_state j2 = log_state (nd_journal w)"
    by (simp add: log_ok_def file_holds_def log_open_def)
  have "outbox j2 = outbox (nd_journal w)" "log_has_voted j2 = log_has_voted (nd_journal w)"
    by (simp_all add: outbox_def log_has_voted_def j2(2) fun_eq_iff)
  then have "kept_vote cx j2 = kept_vote cx (nd_journal w)" "one_vote_kept cx j2 = one_vote_kept cx (nd_journal w)"
    by (simp_all add: kept_vote_def one_vote_kept_def fun_eq_iff)
  moreover have "snd ` set (ev_aired (nd_env w)) \<subseteq> ?R \<union> {bs. no_vote cx bs} \<union> {bs. kept_vote cx (nd_journal w) bs}"
    using d by (auto simp: disciplined_def may_air_def)
  ultimately show ?thesis using j2 d by (auto simp: disciplined_def)
qed

theorem one_vote_on_disk_before_air_witness:
  "\<exists>w0. node_boot sample_ctx [] True 7 [] [] sample_env = Inr w0
    \<and> (\<exists>j2. log_open node_pc (log_file (nd_journal (snd (run_state (node_run sample_ctx 2) w0)))) True = Inr j2
      \<and> log_state j2 = log_state (nd_journal (snd (run_state (node_run sample_ctx 2) w0))) \<and> one_vote_kept sample_ctx j2)"
proof -
  obtain w0 where w0: "node_boot sample_ctx [] True 7 [] [] sample_env = Inr w0" using sample_boots by blast
  obtain j where j: "boot_journal sample_ctx [] True 7 [] [] = Inr j" "j_pending (log_state j) = []"
    using sample_boot_journal by blast
  have k: "keeps_votes sample_ctx" "quiet_disk [] []" "ev_aired sample_env = []"
    by (simp_all add: keeps_votes_def quiet_disk_def sample_ctx_fields node_pc_ok sample_options_def sample_env_def)
  have one: "one_vote_kept sample_ctx j" by (simp add: one_vote_kept_def outbox_def j(2) bt_values_def)
  show ?thesis
    using w0 one_vote_on_disk_before_air [OF w0 j(1) k one prod.collapse [symmetric], of 2] by (auto simp: sample_ctx_fields)
qed

end
