(* ===== verification/Lcq_Node_Ends.thy ===== *)
theory Lcq_Node_Ends
  imports Lcq_Node_Airtime
begin

text \<open>
  The loop ends. Ten minutes of protocol time after its anchor, which is six hundred seconds
  divided by the scale of its clock, a node in a round stops as soon as it takes a turn that is
  not skipped, and a turn is skipped only by a frame it had to drop, so it stops within one
  turn of having read what was waiting.
\<close>

definition horizon_ns :: "ScaledClock \<Rightarrow> int" where
  "horizon_ns clock = from_millis (wall_ms clock (ENDORSEMENT_TARGET_SECONDS * 1000))"

lemma horizon_ns_scale: "horizon_ns clock = int (600000 div unat (ck_scale clock)) * 1000000"
  by (simp add: horizon_ns_def from_millis_nat wall_ms_def unat_div ENDORSEMENT_TARGET_SECONDS_def unat_ucast_up)

definition overdue :: "instant \<Rightarrow> nat \<Rightarrow> Node \<Rightarrow> bool" where
  "overdue anchor n w \<longleftrightarrow> nd_began w = Some anchor \<and> anchor + horizon_ns (nd_clock w) \<le> ev_now (nd_env w)
     \<and> length (ev_polls (nd_env w)) \<le> n"

lemma overdue_same:
  "overdue a n w \<Longrightarrow> nd_began w' = nd_began w \<Longrightarrow> nd_clock w' = nd_clock w \<Longrightarrow> ev_now (nd_env w) \<le> ev_now (nd_env w') \<Longrightarrow>
     ev_polls (nd_env w') = ev_polls (nd_env w) \<Longrightarrow> overdue a n w'"
  by (auto simp: overdue_def)

lemma overdue_now: "keeps (overdue a n) instant_now"
  unfolding keeps_def by (rule validI) (auto dest!: run_instant_now read_instant_later elim!: overdue_same)

lemma overdue_modify:
  "(\<And>w. nd_began (f w) = nd_began w \<and> nd_clock (f w) = nd_clock w \<and> nd_env (f w) = nd_env w) \<Longrightarrow> keeps (overdue a n) (modify f)"
  by (rule keeps_modify) (erule overdue_same; simp)

lemma overdue_meter: "keeps (overdue a n) (with_meter f)"
  unfolding keeps_def by (rule validI) (auto simp: with_meter_def split: prod.splits elim!: overdue_same)

lemma overdue_journal: "valid (overdue a n) (with_journal f) (\<lambda>r w. overdue a n w \<and> (\<forall>bs. r = Inr bs \<longrightarrow> bs \<in> UNIV \<and> True))"
  by (rule validI) (auto simp: with_journal_def split: prod.splits elim!: overdue_same)

lemma overdue_transmit: "keeps (overdue a n) (node_transmit cx bs)"
proof -
  have "keeps (overdue a n) (with_env (radio_transmit t bs))" for t
    unfolding keeps_def
    by (rule validI) (auto simp: with_env_def radio_transmit_def Let_def split: prod.splits list.splits elim!: overdue_same)
  then show ?thesis unfolding node_transmit_def Let_def
    by (intro keeping overdue_now; auto intro!: keeping overdue_modify split: bool.split)
qed

text \<open>A frame that is read was waiting.\<close>

lemma drain_shorter: "drain polls mt = ((r, later), mt') \<Longrightarrow> length later \<le> length polls \<and> (r \<noteq> None \<longrightarrow> length later < length polls)"
  by (induction polls mt rule: drain.induct) (fastforce simp: less_Suc_eq_le)+

lemma overdue_receive:
  "valid (overdue a n) node_receive (\<lambda>r w. overdue a n w \<and> (r \<noteq> None \<longrightarrow> 0 < n \<and> overdue a (n - 1) w))"
proof (rule validI)
  fix w r w' assume I: "overdue a n w" and run: "run_state node_receive w = (r, w')"
  obtain later mt where d: "drain (ev_polls (nd_env w)) (nd_meter w) = ((r, later), mt)"
    and w': "w' = w\<lparr>nd_meter := mt, nd_env := (nd_env w)\<lparr>ev_polls := later\<rparr>\<rparr>"
    using run by (auto simp: node_receive_def with_meter_def split: prod.splits)
  show "overdue a n w' \<and> (r \<noteq> None \<longrightarrow> 0 < n \<and> overdue a (n - 1) w')"
    using drain_shorter [OF d] I by (auto simp: overdue_def w')
qed

lemma overdue_admit: "keeps (overdue a n) (admit_frame cx f)"
  unfolding admit_frame_def clock_reading_def by (intro keeping overdue_now overdue_meter overdue_modify; simp)

interpretation overdue: node_running cx "overdue a n" "\<lambda>_ _. True" UNIV UNIV UNIV UNIV for cx a n
proof (unfold_locales, goal_cases)
  case (1 w' w)
  then show ?case by (auto simp: core_def overdue_def)
next
  case 2
  show ?case by (rule overdue_now)
next
  case (3 bs)
  show ?case using overdue_transmit by (simp add: keeps_def)
next
  case 4
  show ?case by (rule valid_weaken [OF overdue_receive]) simp
next
  case (5 m q)
  show ?case unfolding note_seen_def by (intro keeping overdue_modify; simp)
next
  case (9 f)
  show ?case using overdue_admit by (simp add: keeps_def)
next
  case (10 f)
  show ?case using overdue_admit by (simp add: keeps_def)
next
  case (12 f ad)
  show ?case unfolding count_vote_def by (intro keeping overdue_modify; simp)
qed (use overdue_journal in \<open>auto elim!: overdue_same\<close>)

lemma over_when_overdue: "valid (overdue a n) (node_over cx a) (\<lambda>over _. over)"
proof (rule validI)
  fix w r w' assume I: "overdue a n w" and run: "run_state (node_over cx a) w = (r, w')"
  obtain t v where t: "read_instant (nd_env w) = (t, v)" by fastforce
  obtain u x where u: "read_instant v = (u, x)" by fastforce
  have "ev_now (nd_env w) \<le> u" using read_instant_later [OF t] read_instant_later [OF u] by simp
  then have "a + from_millis (wall_ms (nd_clock w) (ENDORSEMENT_TARGET_SECONDS * 1000)) \<le> u"
    using I by (simp add: overdue_def horizon_ns_def)
  then show r using run t u by (auto simp: node_over_def instant_now_def with_env_def Let_def)
qed

lemma hear_consumes: "valid (overdue a n) (node_hear cx a)
    (\<lambda>skipped w. overdue a n w \<and> (skipped \<longrightarrow> 0 < n \<and> overdue a (n - 1) w))"
  unfolding node_hear_def
proof (rule valid_bind [OF overdue_receive])
  fix r
  show "valid (\<lambda>w. overdue a n w \<and> (r \<noteq> None \<longrightarrow> 0 < n \<and> overdue a (n - 1) w))
      (case r of None \<Rightarrow> State_Monad.return False | Some f \<Rightarrow> hear_frame cx a f)
      (\<lambda>skipped w. overdue a n w \<and> (skipped \<longrightarrow> 0 < n \<and> overdue a (n - 1) w))"
  proof (cases r)
    case None
    then show ?thesis by (auto intro: valid_return)
  next
    case (Some f)
    have "keeps (overdue a (n - 1)) (hear_frame cx a f)" "keeps (overdue a n) (hear_frame cx a f)"
      by (rule overdue.hears_frame, simp)+
    then show ?thesis unfolding Some keeps_def valid_def by (auto split: prod.splits)
  qed
qed

lemma round_ends: "valid (overdue a n) (node_round cx a)
    (\<lambda>flow w. flow = Stop \<or> flow = Again \<and> 0 < n \<and> overdue a (n - 1) w)"
proof -
  have last: "valid (overdue a n) (State_Monad.bind (node_hear cx a) (\<lambda>skipped. if skipped then State_Monad.return Again
       else State_Monad.bind (node_over cx a) (\<lambda>over. State_Monad.return (if over then Stop else Again))))
     (\<lambda>flow w. flow = Stop \<or> flow = Again \<and> 0 < n \<and> overdue a (n - 1) w)"
  proof (rule valid_bind [OF hear_consumes])
    fix skipped
    show "valid (\<lambda>w. overdue a n w \<and> (skipped \<longrightarrow> 0 < n \<and> overdue a (n - 1) w))
        (if skipped then State_Monad.return Again
         else State_Monad.bind (node_over cx a) (\<lambda>over. State_Monad.return (if over then Stop else Again)))
        (\<lambda>flow w. flow = Stop \<or> flow = Again \<and> 0 < n \<and> overdue a (n - 1) w)"
    proof (cases skipped)
      case False
      show ?thesis unfolding if_not_P [OF False]
        by (rule valid_bind [OF valid_pre [OF over_when_overdue [where n = n]]], simp, rule valid_return) simp
    qed (auto intro: valid_return)
  qed
  have skip: "valid (overdue a n) (State_Monad.bind m f) Q"
    if "keeps (overdue a n) m" "\<And>x. valid (overdue a n) (f x) Q" for m :: "'b node" and f :: "'b \<Rightarrow> 'c node" and Q
    using that unfolding keeps_def by (rule valid_bind)
  show ?thesis unfolding node_round_def
    by (rule last | rule skip overdue.equivocates overdue.jammed overdue.replays overdue.closes overdue.sends_due
        overdue.asks overdue.resends)+
qed

lemma turn_ends:
  assumes "overdue a n w" and "run_state (node_turn cx) w = (flow, w')"
  shows "flow = Stop \<or> flow = Again \<and> 0 < n \<and> overdue a (n - 1) w'"
proof -
  obtain t v where t: "read_instant (nd_env w) = (t, v)" by fastforce
  let ?w = "w\<lparr>nd_env := v\<rparr>"
  have b: "nd_began w = Some a" using assms(1) by (simp add: overdue_def)
  have "run_state (open_round cx) w = (Again, ?w)"
    using t b by (simp add: open_round_def instant_now_def with_env_def)
  then have "run_state (node_round cx a) ?w = (flow, w')"
    using assms(2) b by (simp add: node_turn_def)
  moreover have "overdue a n ?w" using assms(1) read_instant_later [OF t] by (auto elim!: overdue_same)
  ultimately show ?thesis using validD [OF round_ends] by blast
qed

text \<open>
  (C19) The node stops: once ten minutes of protocol time have passed since the anchor of its
  round, that is six hundred seconds of its own clock divided by the time scale (a node that runs at
  a hundred times the speed is due after six seconds), and whatever frames the radio still holds
  (replays, openings, junk and votes alike), the loop ends with \<open>Stop\<close> within one turn more than
  there are poll results waiting; it neither goes on for ever nor panics.
\<close>

theorem node_stops:
  assumes "nd_began w = Some anchor" and "anchor + horizon_ns (nd_clock w) \<le> ev_now (nd_env w)"
  shows "fst (run_state (node_run cx (Suc (length (ev_polls (nd_env w))))) w) = Stop"
proof -
  have "fst (run_state (node_run cx (Suc n)) w) = Stop" if "overdue anchor n w" for n w
    using that
  proof (induction n arbitrary: w)
    case 0
    obtain flow w' where r: "run_state (node_turn cx) w = (flow, w')" by fastforce
    then show ?case using turn_ends [OF 0 r] by auto
  next
    case (Suc n)
    obtain flow w' where r: "run_state (node_turn cx) w = (flow, w')" by fastforce
    then show ?case using turn_ends [OF Suc.prems r] Suc.IH [of w'] by auto
  qed
  then show ?thesis using assms by (simp add: overdue_def)
qed

theorem node_stops_witness:
  "fst (run_state (node_run sample_ctx 3)
     ((boot_node sample_ctx sample_log sample_env)\<lparr>nd_began := Some 0,
        nd_env := sample_env\<lparr>ev_now := 6000000000, ev_polls := [Some (EvCrcError 3), None]\<rparr>\<rparr>)) = Stop"
  (is "fst (run_state (node_run sample_ctx 3) ?w) = Stop")
proof -
  have scale: "ck_scale (nd_clock (boot_node sample_ctx sample_log sample_env)) = 100"
    by (simp add: boot_node_def sample_ctx_fields sample_options_def clock_new_def anchored_at_def Let_def split: prod.splits)
  have "fst (run_state (node_run sample_ctx (Suc (length (ev_polls (nd_env ?w))))) ?w) = Stop"
    by (rule node_stops [where anchor = 0]) (simp_all add: horizon_ns_scale scale)
  then show ?thesis by (simp add: numeral_3_eq_3)
qed

end
