(* ===== verification/Lcq_Node_Lives.thy ===== *)
theory Lcq_Node_Lives
  imports Lcq_Node_Outbox
begin

text \<open>
  From one life of a node to the next: what the journal carries over a crash, and the
  epochs it refuses.
\<close>

section \<open>The journal of a running node\<close>

text \<open>The epoch and the highest sequences seen are changed by \<open>remember_seen\<close> alone.\<close>

lemma reserve_seen:
  assumes "log_reserve_sequence pc j = (r, j')"
  shows "j_epoch (log_state j') = j_epoch (log_state j)" "j_seen (log_state j') = j_seen (log_state j)"
  using assms append_state by (auto simp: log_reserve_sequence_def Let_def split: prod.splits sum.splits)

lemma commit_seen:
  assumes "log_commit_vote pc j s v f = (r, j')"
  shows "j_epoch (log_state j') = j_epoch (log_state j)" "j_seen (log_state j') = j_seen (log_state j)"
  using assms append_state
  by (auto simp: log_commit_vote_def Let_def split: prod.splits sum.splits if_splits)

lemma witness_seen:
  "j_epoch (log_state (snd (log_witness pc j a bs))) = j_epoch (log_state j)"
  "j_seen (log_state (snd (log_witness pc j a bs))) = j_seen (log_state j)"
  using append_state by (auto simp: log_witness_def split: prod.splits sum.splits)

lemma mark_seen_parts:
  "j_epoch (log_state (snd (log_mark_seen pc j a q))) = j_epoch (log_state j)"
  "j_seen (log_state (snd (log_mark_seen pc j a q))) = j_seen (log_state j)
   \<or> j_seen (log_state (snd (log_mark_seen pc j a q))) = bt_insert a q (j_seen (log_state j))
     \<and> (\<forall>h. bt_get (j_seen (log_state j)) a = Some h \<longrightarrow> h < q)"
  using append_state by (auto simp: log_mark_seen_def not_le split: prod.splits sum.splits option.splits)

text \<open>Member \<open>m\<close>'s sequence \<open>q\<close> is refused by the window and recorded by the journal.\<close>

definition recalls :: "Node \<Rightarrow> nat \<Rightarrow> u64 \<Rightarrow> bool" where
  "recalls w m q \<longleftrightarrow> m < length (nd_windows w) \<and> m < 2 ^ 16 \<and> replay_seen (nd_windows w ! m) q
     \<and> (\<exists>h. mem_highest_seen (log_state (nd_journal w)) (of_nat m) = Some h \<and> q \<le> h)"

text \<open>
  The invariant: the disk holds the journal, the journal is of epoch \<open>e\<close>, and every pair
  of \<open>S\<close> is remembered.
\<close>

definition lasting :: "Ctx \<Rightarrow> u16 \<Rightarrow> (nat \<times> u64) set \<Rightarrow> Node \<Rightarrow> bool" where
  "lasting cx e S w \<longleftrightarrow> postcard_ok (cx_pc cx) \<and> log_ok (cx_pc cx) (nd_journal w) \<and> no_torn_writes (nd_journal w)
     \<and> j_epoch (log_state (nd_journal w)) = Some e \<and> (\<forall>(m, q) \<in> S. recalls w m q)"

lemma lasting_quiet:
  "lasting cx e S w \<Longrightarrow> nd_journal w' = nd_journal w \<Longrightarrow> nd_windows w' = nd_windows w \<Longrightarrow> lasting cx e S w'"
  by (simp add: lasting_def recalls_def)

lemma lasting_modify:
  "(\<And>w. nd_journal (f w) = nd_journal w \<and> nd_windows (f w) = nd_windows w) \<Longrightarrow> keeps (lasting cx e S) (modify f)"
  by (rule keeps_modify) (erule lasting_quiet; simp)

lemma lasting_env: "keeps (lasting cx e S) (with_env f)"
  unfolding keeps_def by (rule validI) (auto simp: with_env_def split: prod.splits elim!: lasting_quiet)

lemma lasting_meter: "keeps (lasting cx e S) (with_meter f)"
  unfolding keeps_def by (rule validI) (auto simp: with_meter_def split: prod.splits elim!: lasting_quiet)

lemma lasting_now: "keeps (lasting cx e S) instant_now"
  unfolding instant_now_def by (rule lasting_env)

lemma keeps_bool: "(b \<Longrightarrow> keeps I k) \<Longrightarrow> (\<not> b \<Longrightarrow> keeps I n) \<Longrightarrow> keeps I (case b of True \<Rightarrow> k | False \<Rightarrow> n)"
  by (cases b) simp_all

lemma lasting_transmit: "keeps (lasting cx e S) (node_transmit cx' bs)"
  unfolding node_transmit_def Let_def by (intro keeping keeps_bool lasting_now lasting_env lasting_modify) simp_all

lemma lasting_receive: "keeps (lasting cx e S) node_receive"
  unfolding keeps_def
  by (rule validI) (auto simp: node_receive_def with_meter_def split: prod.splits elim!: lasting_quiet)

lemma lasting_admit: "keeps (lasting cx e S) (admit_frame cx' f)"
  unfolding admit_frame_def clock_reading_def by (intro keeping lasting_now lasting_meter lasting_modify; simp)

lemma lasting_moves:
  assumes "lasting cx e S w" and "log_step (cx_pc cx) (nd_journal w) j'"
    and "j_epoch (log_state j') = j_epoch (log_state (nd_journal w))"
    and "j_seen (log_state j') = j_seen (log_state (nd_journal w))"
  shows "lasting cx e S (w\<lparr>nd_journal := j'\<rparr>)"
  using assms by (auto simp: lasting_def log_step_def recalls_def mem_highest_seen_def)

lemma lasting_journal:
  assumes "\<And>j r j'. f j = (r, j') \<Longrightarrow> log_step (cx_pc cx) j j' \<and> j_epoch (log_state j') = j_epoch (log_state j)
      \<and> j_seen (log_state j') = j_seen (log_state j)"
  shows "keeps (lasting cx e S) (with_journal f)"
  unfolding keeps_def
proof (rule validI)
  fix w r w' assume I: "lasting cx e S w" and run: "run_state (with_journal f) w = (r, w')"
  obtain j' where f: "f (nd_journal w) = (r, j')" and w': "w' = w\<lparr>nd_journal := j'\<rparr>"
    using run by (auto simp: with_journal_def split: prod.splits)
  show "lasting cx e S w'" using lasting_moves [OF I] assms [OF f] by (simp add: w')
qed

lemma build_lasting:
  assumes "build cx stg j h rnd = (r, j')"
  shows "log_step (cx_pc cx) j j' \<and> j_epoch (log_state j') = j_epoch (log_state j) \<and> j_seen (log_state j') = j_seen (log_state j)"
  using assms
proof (cases rule: build_cases)
  case again
  then show ?thesis by (simp add: log_step_refl)
next
  case (refused x e)
  then show ?thesis using step_reserve [of "cx_pc cx" j] reserve_seen [OF refused(1)] by simp
next
  case (sent q e bs)
  then show ?thesis using step_reserve [of "cx_pc cx" j] reserve_seen [OF sent(1)] by simp
next
  case (voted q e bs j1 x)
  have "log_step (cx_pc cx) j j1" using step_reserve [of "cx_pc cx" j] voted(1) by simp
  moreover have "log_step (cx_pc cx) j1 j'"
    using step_commit [of "cx_pc cx" j1] voted(7) by (metis snd_conv)
  ultimately show ?thesis
    using reserve_seen [OF voted(1)] commit_seen [OF voted(7)] log_step_trans by auto
qed

lemma nack_lasting:
  assumes "build_nack cx j h rnd = (r, j')"
  shows "log_step (cx_pc cx) j j' \<and> j_epoch (log_state j') = j_epoch (log_state j) \<and> j_seen (log_state j') = j_seen (log_state j)"
  using assms
proof (cases rule: nack_cases)
  case (1 x)
  then show ?thesis using step_reserve [of "cx_pc cx" j] reserve_seen [OF 1(1)] by simp
qed

lemma trigger_lasting:
  assumes "build_trigger cx j rnd = (r, j')"
  shows "log_step (cx_pc cx) j j' \<and> j_epoch (log_state j') = j_epoch (log_state j) \<and> j_seen (log_state j') = j_seen (log_state j)"
  using assms
proof (cases rule: trigger_cases)
  case (1 x)
  then show ?thesis using step_reserve [of "cx_pc cx" j] reserve_seen [OF 1(1)] by simp
qed

text \<open>Marking a sequence forgets none.\<close>

lemma mark_grows:
  assumes "replay_seen w q"
  shows "replay_seen (mark w r) q"
proof -
  obtain h where h: "rw_highest w = Some h" "unat q \<le> unat h"
    and b: "unat h - unat q < 64 \<Longrightarrow> bit (rw_seen w) (unat h - unat q)"
    using assms by (auto simp: replay_seen_nat)
  show ?thesis
  proof (cases "r > h")
    case True
    then have less: "unat h < unat r" by (simp add: word_less_nat_alt)
    then have "unat r - unat q - (unat r - unat h) = unat h - unat q" using h(2) by simp
    then show ?thesis using b h less True
      by (auto simp: replay_seen_nat mark_highest max_def mark_bits [OF h(1)])
  next
    case False
    then show ?thesis using b h by (auto simp: replay_seen_nat mark_highest max_def mark_bits [OF h(1)])
  qed
qed

lemma seen_grows:
  assumes "jwf (log_state j)" and "mem_highest_seen (log_state j) a = Some h"
  shows "\<exists>h' \<ge> h. mem_highest_seen (log_state (remember_seen cx j m q)) a = Some h'"
proof (cases "m < 2 ^ 16")
  case True
  have inv: "bt_inv (j_seen (log_state j))" using assms(1) by (simp add: jwf_def)
  show ?thesis
    using mark_seen_parts(2) [of "cx_pc cx" j "of_nat m" q] assms(2) True inv
    by (auto simp: remember_seen_def mem_highest_seen_def bt_simps)
qed (use assms in \<open>simp add: remember_seen_def\<close>)

lemma lasting_seen: "keeps (lasting cx e S) (note_seen cx m q)"
  unfolding keeps_def note_seen_def
proof (rule validI)
  fix w r w' assume I: "lasting cx e S w"
    and run: "run_state (do {
      modify (nd_windows_update (\<lambda>ws. ws[m := mark (ws ! m) q]));
      modify (nd_journal_update (\<lambda>j. remember_seen cx j m q)) }) w = (r, w')"
  define j' where "j' = remember_seen cx (nd_journal w) m q"
  have w': "nd_journal w' = j'" "nd_windows w' = (nd_windows w)[m := mark (nd_windows w ! m) q]"
    using run by (auto simp: j'_def)
  have ok: "jwf (log_state (nd_journal w))" using I by (simp add: lasting_def log_ok_def)
  have step: "log_step (cx_pc cx) (nd_journal w) j'"
    by (simp add: j'_def remember_seen_def step_mark_seen log_step_refl)
  have "j_epoch (log_state j') = j_epoch (log_state (nd_journal w))"
    by (simp add: j'_def remember_seen_def mark_seen_parts)
  moreover have "recalls w' n s" if "recalls w n s" for n s
  proof -
    have "replay_seen (nd_windows w' ! n) s"
      using that mark_grows [of "nd_windows w ! n" s q] by (cases "n = m") (simp_all add: recalls_def w')
    then show ?thesis
      using that seen_grows [OF ok, of "of_nat n" _ cx m q]
      by (auto simp: recalls_def w' j'_def intro: order_trans)
  qed
  ultimately show "lasting cx e S w'"
    using I step by (auto simp: lasting_def log_step_def w')
qed

lemma lasting_count: "keeps (lasting cx e S) (count_vote cx ad f)"
proof -
  have x: "keeps (lasting cx e S) (modify (nd_journal_update (\<lambda>j. snd (log_witness (cx_pc cx) j a f))))" for a
    by (rule keeps_journal, erule lasting_moves) (simp_all add: step_witness witness_seen)
  show ?thesis unfolding count_vote_def by (rule x | rule keeping lasting_modify | simp)+
qed

interpretation life: node_rule cx "lasting cx e S" "\<lambda>_ _. True" UNIV UNIV UNIV UNIV
  for cx e S
proof (unfold_locales, goal_cases)
  case (1 w' w)
  then show ?case by (auto simp: core_def elim!: lasting_quiet)
next
  case 2
  show ?case by (rule lasting_now)
next
  case (3 bs)
  show ?case using lasting_transmit by (simp add: keeps_def)
next
  case 4
  show ?case using lasting_receive by (simp add: keeps_def)
next
  case (5 m q)
  show ?case by (rule lasting_seen)
next
  case (6 stg h rnd)
  show ?case using lasting_journal [OF build_lasting] by (simp add: keeps_def)
next
  case (7 h rnd)
  show ?case using lasting_journal [OF nack_lasting] by (simp add: keeps_def)
next
  case (8 rnd)
  show ?case using lasting_journal [OF trigger_lasting] by (simp add: keeps_def)
next
  case (9 f)
  show ?case using lasting_admit by (simp add: keeps_def)
next
  case (10 f)
  show ?case using lasting_admit by (simp add: keeps_def)
next
  case (12 f ad)
  show ?case by (rule lasting_count)
qed (auto elim!: lasting_quiet)

section \<open>The next life\<close>

lemma boot_windows: "nd_journal (boot_node cx j v) = j" "nd_windows (boot_node cx j v) = restored_windows cx j"
  by (auto simp: boot_node_def Let_def read_instant_def split: prod.splits list.splits)

lemma epoch_state:
  "log_enter_epoch pc j e = (r, j') \<Longrightarrow> r = Inr () \<Longrightarrow> \<not> (\<exists>h. j_epoch (log_state j) = Some h \<and> h > e) \<Longrightarrow>
     j_epoch (log_state j') = Some e \<and> (j_epoch (log_state j) = Some e \<longrightarrow> j' = j)"
  using append_state by (auto simp: log_enter_epoch_def split: option.splits if_splits prod.splits sum.splits)

lemma boot_epoch:
  assumes "boot_journal cx bs io_ok ent ws cs = Inr j"
  shows "j_epoch (log_state j) = Some (fl_mission_epoch (cx_fleet cx))"
proof -
  obtain j0 where o: "open_with_entropy (cx_pc cx) bs io_ok ent = Inr j0"
    using assms by (auto simp: boot_journal_def split: sum.splits)
  have "log_enter_epoch (cx_pc cx) (j0\<lparr>writes := ws, compactions := cs\<rparr>) (fl_mission_epoch (cx_fleet cx)) = (Inr (), j)"
    "\<not> (\<exists>h. j_epoch (log_state j0) = Some h \<and> h > fl_mission_epoch (cx_fleet cx))"
    using assms o by (auto simp: boot_journal_def Let_def split: option.splits if_splits sum.splits prod.splits)
  then show ?thesis using epoch_state by fastforce
qed

text \<open>Opening the file of a live journal gives back its epoch and what it has seen.\<close>

lemma reopened:
  assumes "log_ok pc j" and "open_with_entropy pc (log_file j) True ent = Inr j2"
  shows "j_epoch (log_state j2) = j_epoch (log_state j) \<and> j_seen (log_state j2) = j_seen (log_state j)"
proof -
  obtain j0 where o: "log_open pc (log_file j) True = Inr j0" "log_state j0 = log_state j"
    using assms(1) by (simp add: log_ok_def file_holds_def log_open_def)
  moreover have "log_state j1 = log_state j0" if "try_append pc j0 (ESequence n) = (True, j1)" for n j1
    using append_state [of pc j0 "ESequence n" "Inr ()" j1] that by (simp add: log_append_def)
  ultimately show ?thesis using assms(2)
    by (auto simp: open_with_entropy_def Let_def split: if_splits prod.splits bool.splits)
qed

text \<open>
  (C10) The next life refuses what this one refused. In a life that booted on a disk that leaves no
  part of a failed append behind and lets no compaction fail after its rename (\<open>quiet_disk\<close>; appends
  and compactions may fail otherwise), whatever the node has recalled (a sequence both
  refused by the member's window and recorded in the journal) it goes on refusing; so does the
  next life of a fleet that member belongs to, if it boots at the same mission epoch from the file as it is at any moment of this
  life, whatever its own disk does; and a fleet of an earlier epoch is refused on that file, as
  long as it is shorter than \<open>2 ^ 64\<close> bytes, with the epoch it would roll back. A boot at a later
  epoch starts the windows anew and is not part of the statement.
\<close>

theorem recalled_across_lives:
  assumes "node_boot cx bs True ent ws cs v = Inr w0" and "postcard_ok (cx_pc cx)" and "quiet_disk ws cs"
    and "run_state (node_run cx fuel) w0 = (flow, w)" and "recalls w m q"
    and "run_state (node_run cx fuel2) w = (flow2, w2)"
    and "cx_pc cx' = cx_pc cx" and "m < o_fleet (cx_opts cx')"
  shows "recalls w2 m q
    \<and> (fl_mission_epoch (cx_fleet cx') = fl_mission_epoch (cx_fleet cx) \<longrightarrow>
        (\<forall>ent ws cs v w3. node_boot cx' (log_file (nd_journal w2)) True ent ws cs v = Inr w3 \<longrightarrow> recalls w3 m q))
    \<and> (fl_mission_epoch (cx_fleet cx') < fl_mission_epoch (cx_fleet cx) \<longrightarrow> length (log_file (nd_journal w2)) < 2 ^ 64 \<longrightarrow>
        (\<forall>ent ws cs. boot_journal cx' (log_file (nd_journal w2)) True ent ws cs
            = Inl (EpochRolledBack (fl_mission_epoch (cx_fleet cx)))))"
proof -
  let ?e = "fl_mission_epoch (cx_fleet cx)" and ?file = "log_file (nd_journal w2)"
  obtain j where j: "boot_journal cx bs True ent ws cs = Inr j" "w0 = boot_node cx j v"
    using assms(1) by (auto simp: node_boot_def Let_def split: if_splits sum.splits)
  have "lasting cx ?e {} w0"
    using boot_journal_ok [OF assms(2,3) j(1)] boot_epoch [OF j(1)] assms(2) by (simp add: lasting_def j(2) boot_windows)
  then have "lasting cx ?e {} w" using keepsD [OF life.run] assms(4) by (metis snd_conv)
  then have "lasting cx ?e {(m, q)} w" using assms(5) by (simp add: lasting_def)
  then have l: "lasting cx ?e {(m, q)} w2" using keepsD [OF life.run] assms(6) by (metis snd_conv)
  then have rec: "recalls w2 m q" and ok: "log_ok (cx_pc cx) (nd_journal w2)"
    and ep: "j_epoch (log_state (nd_journal w2)) = Some ?e"
    by (simp_all add: lasting_def)
  note again = reopened [OF ok]
  have same: "recalls w3 m q"
    if eq: "fl_mission_epoch (cx_fleet cx') = ?e" and boots: "node_boot cx' ?file True ent' ws' cs' v' = Inr w3" for ent' ws' cs' v' w3
  proof -
    obtain j3 where j3: "boot_journal cx' ?file True ent' ws' cs' = Inr j3" "w3 = boot_node cx' j3 v'"
      using boots by (auto simp: node_boot_def Let_def split: if_splits sum.splits)
    obtain j2 where o: "open_with_entropy (cx_pc cx) ?file True ent' = Inr j2"
      using j3(1) assms(7) by (auto simp: boot_journal_def split: sum.splits)
    have "log_enter_epoch (cx_pc cx) (j2\<lparr>writes := ws', compactions := cs'\<rparr>) ?e = (Inr (), j3)"
      using j3(1) o eq assms(7)
      by (auto simp: boot_journal_def Let_def split: option.splits if_splits sum.splits prod.splits)
    then have "log_state j3 = log_state j2" using again [OF o] ep by (auto simp: log_enter_epoch_def)
    then have "mem_highest_seen (log_state j3) a = mem_highest_seen (log_state (nd_journal w2)) a" for a
      using again [OF o] by (simp add: mem_highest_seen_def)
    then show ?thesis using rec assms(8)
      by (auto simp: recalls_def j3(2) boot_windows restored_windows_def resumed_def replay_seen_nat word_le_nat_alt)
  qed
  have old: "boot_journal cx' ?file True ent' ws' cs' = Inl (EpochRolledBack ?e)"
    if "fl_mission_epoch (cx_fleet cx') < ?e" "length ?file < 2 ^ 64" for ent' ws' cs'
  proof -
    obtain j0 where o: "log_open (cx_pc cx) ?file True = Inr j0" "log_state j0 = log_state (nd_journal w2)"
        "bytes_on_disk j0 = of_nat (length ?file)"
      using ok by (simp add: log_ok_def file_holds_def log_open_def)
    have "?file \<noteq> []"
    proof
      assume "?file = []"
      then have "log_state (nd_journal w2) = default_state"
        using ok by (simp add: log_ok_def file_holds_def replay_def replay_from.simps)
      then show False using ep by (simp add: default_state_def)
    qed
    then have "bytes_on_disk j0 \<noteq> 0" using that(2) o(3) by (simp add: word_of_nat_eq_0_iff nat_dvd_not_less)
    moreover have "\<not> ?e \<le> fl_mission_epoch (cx_fleet cx')" using that(1) by simp
    ultimately show ?thesis using ep o assms(7)
      by (simp add: boot_journal_def open_with_entropy_def Let_def)
  qed
  show ?thesis using rec same old by blast
qed

text \<open>A journal that has seen sequence 5 of member 1, and a node that boots from it.\<close>

lemma sample_seen:
  "\<exists>j w. log_ok node_pc j \<and> node_boot sample_ctx (log_file j) True 7 [] [] sample_env = Inr w \<and> recalls w 1 5"
proof -
  obtain j0 where j0: "boot_journal sample_ctx [] True 7 [] [] = Inr j0" and s0: "j_seen (log_state j0) = []"
    using sample_boot_journal by blast
  have ok0: "log_ok node_pc j0 \<and> no_torn_writes j0"
    using boot_journal_ok [of sample_ctx "[]" "[]" "[]" 7 j0] j0 by (simp add: sample_ctx_fields node_pc_ok quiet_disk_def)
  have e0: "j_epoch (log_state j0) = Some 1"
    using boot_epoch [OF j0] by (simp add: sample_ctx_fields sample_fleet_def)
  define jq where "jq = j0\<lparr>writes := [], compactions := []\<rparr>"
  have q: "log_ok node_pc jq" "no_torn_writes jq" "j_seen (log_state jq) = []" "j_epoch (log_state jq) = Some 1" "writes jq = []"
    using ok0 e0 s0 by (simp_all add: jq_def log_ok_def file_holds_def no_torn_writes_def)
  define j where "j = snd (log_mark_seen node_pc jq 1 5)"
  have ok: "log_ok node_pc j" using step_mark_seen [of node_pc jq 1 5] q(1,2) by (simp add: j_def log_step_def node_pc_ok)
  obtain r where r: "encode_record node_pc (ESeen 1 5) = Some r" using node_pc_encodes(3) by blast
  have seen: "mem_highest_seen (log_state j) 1 = Some 5"
    using q(3,5) by (simp add: j_def mem_highest_seen_def log_mark_seen_def log_append_def try_append_def r put_def bt_get_def)
  have ep: "j_epoch (log_state j) = Some 1" using q(4) by (simp add: j_def mark_seen_parts)
  obtain st len where "replay node_pc (log_file j) = (st, len)" by fastforce
  then obtain jo where o: "log_open node_pc (log_file j) True = Inr jo" "writes jo = []"
    by (simp add: log_open_def)
  obtain s where "encode_record node_pc (ESequence (random_start 7)) = Some s" using node_pc_encodes(1) by blast
  then obtain j1 where j1: "open_with_entropy node_pc (log_file j) True 7 = Inr j1"
    using o by (cases "bytes_on_disk jo = 0 \<and> j_next_sequence (log_state jo) = 0")
      (simp_all add: open_with_entropy_def Let_def try_append_def)
  note again = reopened [OF ok j1]
  have b: "boot_journal sample_ctx (log_file j) True 7 [] [] = Inr (j1\<lparr>writes := [], compactions := []\<rparr>)"
    using again ep by (simp add: boot_journal_def sample_ctx_fields sample_fleet_def j1 Let_def log_enter_epoch_def)
  have w: "node_boot sample_ctx (log_file j) True 7 [] [] sample_env = Inr (boot_node sample_ctx (j1\<lparr>writes := [], compactions := []\<rparr>) sample_env)"
    using sample_boots b by (auto simp: node_boot_def Let_def split: if_splits sum.splits)
  have "recalls (boot_node sample_ctx (j1\<lparr>writes := [], compactions := []\<rparr>) sample_env) 1 5"
    using again seen by (simp add: recalls_def boot_windows restored_windows_def mem_highest_seen_def sample_ctx_fields
        sample_options_def resumed_def replay_seen_nat)
  then show ?thesis using ok w by blast
qed

theorem recalled_across_lives_witness:
  "\<exists>(j :: LogJournal) w. node_boot sample_ctx (log_file j) True 7 [] [] sample_env = Inr w \<and> recalls w 1 5
    \<and> recalls (snd (run_state (node_run sample_ctx 3) w)) 1 5"
proof -
  obtain j :: LogJournal and w where w: "node_boot sample_ctx (log_file j) True 7 [] [] sample_env = Inr w" "recalls w 1 5"
    using sample_seen by blast
  have "run_state (node_run sample_ctx 0) w = (Again, w)" by simp
  from recalled_across_lives [OF w(1) _ _ this w(2) prod.collapse [symmetric], of sample_ctx 3] w show ?thesis
    by (auto simp: sample_ctx_fields node_pc_ok quiet_disk_def sample_options_def)
qed

end
