(* ===== verification/Spec2Isabelle.thy ===== *)
theory Spec2Isabelle
  imports Lcq_Evaluation Lcq_Case Lcq_Log_Safety Lcq_Replay Lcq_Budget Lcq_Queue
    Lcq_Codec Lcq_Hand Lcq_Manifest_Signing Lcq_Rnode Lcq_Schedule Lcq_Provision
    Lcq_Bridge_Correct Lcq_Relay_Correct Lcq_Deliberation_Live Lcq_Scenario_Correct
    Lcq_Admin Lcq_Driver Lcq_Options Lcq_Preflight Lcq_Attach Lcq_Rnode_Radio
    Lcq_Node_Airtime Lcq_Node_Votes Lcq_Node_Outbox Lcq_Node_Ends Lcq_Node_Lives
begin

text \<open>
  A verification library for LCQ, a protocol with which the members of a small fleet
  endorse a claim over a slow shared radio channel. File names below are relative to the
  crate's \<open>src/\<close> directory.

  \<^bold>\<open>The program.\<close> An operator signs a fleet manifest (\<open>application/manifest.rs\<close>): the
  members, their keys, their competences, the settings and a window of validity. From it
  a node builds a quorum policy (\<open>domain/quorum/policy.rs\<close>). A claim is a subject
  (\<open>domain/contracts/mod.rs\<close>); the case about it (\<open>domain/state/mod.rs\<close>) first collects
  opinions and then, after a cutoff, binding votes, under deadlines read with a skew
  budget (\<open>domain/time/mod.rs\<close>). The supporters of a case are evaluated against the
  policy (\<open>domain/quorum/evaluation.rs\<close>). A vote becomes an envelope
  (\<open>wire/codec.rs\<close>, \<open>wire/compact.rs\<close>), is signed and sealed (\<open>wire/crypto.rs\<close>), is
  committed to a journal (\<open>application/journal.rs\<close>; \<open>infrastructure/memory.rs\<close> in
  memory, \<open>infrastructure/log.rs\<close> on disk, with \<open>infrastructure/lock_key.rs\<close> and
  \<open>infrastructure/crc.rs\<close>) before it may leave, waits in the outgoing queue
  (\<open>application/queue.rs\<close>) and is transmitted within the duty cycle
  (\<open>application/budget.rs\<close>); the receiver drops repeats (\<open>application/replay.rs\<close>).
  Keys are read out and typed in by hand as base32 (\<open>wire/hand.rs\<close>). The process that
  does all this is \<open>bin/lcq-node.rs\<close>: it provisions itself from the manifest, recovers its
  journal, opens or joins a round, sends each of its frames in its own slot of a schedule
  every member computes alike, admits what it hears, repairs what was lost, and reports.
  It measures time with \<open>infrastructure/clock.rs\<close>, counts airtime with
  \<open>sim/channel.rs\<close> and reaches the air through a radio (\<open>application/radio.rs\<close>), for
  instance one on a serial port (\<open>infrastructure/rnode.rs\<close>).

  \<^bold>\<open>The theories.\<close>
  \<^item> \<open>Lcq_Prelude\<close>, \<open>Lcq_Btree\<close>: Rust's integer types as words, saturating arithmetic, byte
    strings in both orders, \<open>try_fold\<close>, and \<open>BTreeMap\<close>/\<open>BTreeSet\<close> as sorted association
    lists, with the locale \<open>ordered_map\<close> and its interpretation.
  \<^item> \<open>Lcq_Policy\<close>, \<open>Lcq_Evaluation\<close>: \<open>Competence\<close>, \<open>QuorumPolicy\<close> (\<open>with_settings\<close>,
    \<open>max_faulty\<close>, \<open>min_signers\<close>) and \<open>evaluate\<close>. A policy exists exactly for a lawful
    fleet; evaluation in full; any two approved sets overlap in more than the fault
    budget and more than a third of the competence; what silence can block.
  \<^item> \<open>Lcq_Time\<close>, \<open>Lcq_Contracts\<close>, \<open>Lcq_Case\<close>: instants, subjects, opinions and the stage
    machine. \<open>accept\<close>, \<open>close_consultation\<close> and the counting of refusals are functions on
    the case record; \<open>case_step\<close> and \<open>case_reachable\<close> are the machine they make. One
    binding vote for each author, on the case's own subject, in a frozen consultation.
  \<^item> \<open>Lcq_Lock_Key\<close>, \<open>Lcq_Crc\<close>: the key of a vote lock, and when two subjects share it; the
    table-driven checksum against the bitwise definition, and that it sees any change of
    one byte.
  \<^item> \<open>Lcq_Journal\<close>: the \<open>Journal\<close> trait as the locale \<open>journal\<close>, interpreted on
    \<open>MemoryJournal\<close>; \<open>Lcq_Log\<close>: \<open>LogJournal\<close> byte for byte; \<open>Lcq_Log_Correct\<close>: replay,
    torn tails and compaction; \<open>Lcq_Log_Safety\<close>: the same locale interpreted on
    \<open>LogJournal\<close>, its refinement of the in-memory journal, and what survives power cuts,
    over the step relation \<open>life_step\<close> of calls, cuts and changes of the disk: \<open>life\<close> admits
    any disk, \<open>whole_life\<close> one on which a failed append leaves nothing and no compaction
    fails after its rename.
  \<^item> \<open>Lcq_Replay\<close>, \<open>Lcq_Budget\<close>, \<open>Lcq_Queue\<close>: the replay window against the set of marked
    sequences; the duty cycle over every window of an hour; bounds, de-duplication,
    fairness and conservation of the outgoing queue.
  \<^item> \<open>Lcq_Crypto\<close>, \<open>Lcq_Codec\<close>, \<open>Lcq_Hand\<close>: header, nonce and associated data of a frame;
    both signing transcripts, the envelopes and the acknowledgement bitmap; base32 with
    its check symbols. Round trips, and that signed bytes determine what they sign.
  \<^item> \<open>Lcq_Manifest\<close>, \<open>Lcq_Manifest_Correct\<close>, \<open>Lcq_Manifest_Signing\<close>: the manifest's text
    format, its canonical bytes, \<open>parse\<close>, \<open>verify\<close> and \<open>sign_text\<close>. What a parsed manifest
    guarantees, and that a signed text parses and verifies exactly in its window.
  \<^item> \<open>Lcq_Radio\<close>, \<open>Lcq_Rnode\<close>: the radio profile, its events and errors; KISS framing and the
    RNode link, from serial bytes to radio events and back; \<open>Lcq_Rnode_Radio\<close>: the two threads
    around the link, in every interleaving. \<open>Lcq_Float\<close>, \<open>Lcq_Channel\<close>:
    double-precision rounding on rationals, and the airtime figure computed with it, equal
    to an integer formula. \<open>Lcq_Clock\<close>: the scaled clock.
  \<^item> \<open>Lcq_Phy\<close>, \<open>Lcq_Medium\<close>: the simulations' generator, propagation and shared medium
    (\<open>sim/rng.rs\<close>, \<open>phy.rs\<close>, \<open>medium.rs\<close>), and that the verdict on a frame is the worst that
    any other frame does to it. \<open>Lcq_Relay\<close>, \<open>Lcq_Relay_Correct\<close>: the channel emulator
    (\<open>bin/lcq-hub.rs\<close>) over them; what members receive was sent, and no frame is forgotten
    while it could still matter.
  \<^item> \<open>Lcq_Simulation\<close>: what the two whole-fleet simulations share. \<open>Lcq_Deliberation\<close>: a
    deliberation over the simulated radio (\<open>sim/protocol.rs\<close>), with the real state machine,
    journals, signatures and sealing, as functions on the record \<open>Floor\<close> of everything a run
    changes; \<open>Lcq_Deliberation_Correct\<close>: what an endorsement stands on whatever the channel
    does; \<open>Lcq_Deliberation_Live\<close>: that a fleet keeping its slots over a good channel does
    endorse, in one round of each stage. \<open>Lcq_Scenario\<close>, \<open>Lcq_Scenario_Correct\<close>: one round of
    votes with retries (\<open>sim/scenario.rs\<close>), its accounts and the support it counts. A run
    is \<open>None\<close> where the program panics; that it returns is part of the theorems.
  \<^item> \<open>Lcq_Hub\<close>: what the channel emulator and a node write to each other
    (\<open>infrastructure/hub.rs\<close>, \<open>hub_radio.rs\<close>); \<open>Lcq_Attach\<close>: how a node joins, and the hub's
    command line. \<open>Lcq_Chip\<close>, \<open>Lcq_Chip_Runs\<close>: the virtual SX1262
    (\<open>infrastructure/sx126x/chip.rs\<close>) as functions on its registers, and what holds of it
    over time: it hears only what it listened to all along, a transmission lasts its
    airtime as long as no reset before it found a timer asleep, a continuous reception is
    ended by the host alone, a frame is read back as it came. \<open>Lcq_Bridge\<close>, \<open>Lcq_Bridge_Correct\<close>: the chip's bus
    (\<open>bus.rs\<close>) and the same bus over a serial cable (\<open>bridge.rs\<close>), with the proof that a
    transaction over the cable does what it does on the bus. \<open>Lcq_Driver\<close>: the thread that
    drives the chip (\<open>sx126x/radio.rs\<close>), over the driver crate as a parameter; what the chip
    does by itself between two of its calls is a function in each turn.
    \<open>Lcq_Preflight\<close>: the bridge's questions to a board before any protocol runs on it, and
    that a device which restarts half-way fails every later one.
  \<^item> \<open>Lcq_Schedule\<close>: the slots, windows, attempts and repair rounds of \<open>bin/lcq-node.rs\<close>; no two
    turns of a fleet ever overlap on the air.
  \<^item> \<open>Lcq_Node_Frames\<close>: the functions that build, read and admit frames. \<open>Lcq_Monad\<close>: a state
    monad with triples. \<open>Lcq_Node\<close>: the main loop, one definition for each step of a turn,
    over the record \<open>Node\<close> of its variables. \<open>Lcq_Boot\<close>: provisioning and start-up.
    \<open>Lcq_Options\<close>: its command line and the radio that asks for.
  \<^item> \<open>Lcq_Node_Rule\<close>: the locales \<open>node_running\<close> and \<open>node_rule\<close>, which prove an invariant of the
    whole loop from what it has to be kept by. Their interpretations give the properties of
    a running node: \<open>Lcq_Node_Airtime\<close> (the hourly airtime), \<open>Lcq_Node_Votes\<close> (what its
    supporters, its acknowledgements and its split stand on), \<open>Lcq_Node_Outbox\<close> (what it may
    put on the air, and that it is on disk first), \<open>Lcq_Node_Lives\<close> (what it refuses in this
    life and the next), \<open>Lcq_Node_Ends\<close> (that it stops).
  \<^item> \<open>Lcq_Node_Reach\<close>: from one member to another, the vote built here and counted there,
    and joining late. \<open>Lcq_Provision\<close>: from a signed manifest to a well-formed node.
    \<open>Lcq_Admin\<close>: the administrator's tool (\<open>bin/lcq-manifest.rs\<close>), from the key file to the
    vessel that checks what was signed.
  \<^item> This theory: the properties that span components.

  \<^bold>\<open>Parameters.\<close> Code outside the crate is an argument of the definitions: the record \<open>Lora\<close>
  for the figures of the radio chip's modulation, \<open>LoraPhy\<close> for its driver crate, the record \<open>Libm\<close> for the functions of the
  mathematical library, and others that come with laws. The
  record \<open>primitives\<close> stands for Ed25519, ChaCha20-Poly1305 and BLAKE2s; \<open>primitives_ok\<close>
  says that a signature verifies under its key, has 64 bytes, that sealing is undone by
  opening and by nothing else, and that a digest has the requested length. \<open>postcard\<close>
  stands for the serializer of journal entries and \<open>postcard_ok\<close> says that decoding undoes
  encoding; \<open>serializer_ok\<close> says the same for envelopes. Concrete instances
  (\<open>sample_primitives\<close>, \<open>sample_pc\<close> and their like) satisfy these and carry the witnesses.
  The file system is a script of outcomes inside \<open>LogJournal\<close>: each write, flush, rename
  or reopen takes the next one, so that a failure or a partial write at every point
  is a case of the theorems.

  \<^bold>\<open>Integers and loops.\<close> Fixed-width integers are words of their width, with the
  source's saturating, checked or wrapping operation; \<open>usize\<close> quantities are natural
  numbers and are taken modulo \<open>2 ^ 64\<close> where a product could pass it. Instants and durations
  are integers that count nanoseconds. Every loop is a total function. The node's own
  loop never ends by itself: \<open>node_run\<close> takes the number of turns, what holds of it holds for
  every number, and \<open>node_stops\<close> says how many are enough once the ten minutes of protocol
  time after the anchor have passed on the node's scaled clock.

  \<^bold>\<open>The disk.\<close> A failed append may leave any part of its record in the file, and a compaction may
  fail after its rename, which leaves the journal writing to a file that is no longer there.
  Until either happens the file is whole (\<open>whole_life\<close>, or \<open>quiet_disk\<close> for the scripts a node is
  started with): it replays to the state in memory. A vote or a sequence the journal accepted with a
  whole file is kept whatever happens from then on (\<open>vote_survives_crash\<close>,
  \<open>nonces_never_repeat\<close>); that the whole state is on disk, and what a node may put on the air
  or refuses in its next life, is shown for a whole file only. \<open>torn_append_loses_vote\<close> shows what
  becomes of a vote accepted behind a torn record.

  \<^bold>\<open>The world of a node.\<close> What \<open>main\<close> reads is a script in the record \<open>Env\<close>: the instants it
  will read (never running backwards), the answers the radio will give to polls and
  transmissions, the entropy it will draw; what it sends is collected there. A sleep is a
  gap between two readings. The properties hold for every script, so for every channel,
  every other member and every scheduling of the process.

  \<^bold>\<open>Not modelled.\<close> Threads, sockets, serial ports, the SPI and GPIO devices of a Linux board
  and the operating system's clock; how the parts are put together around them
  (\<open>open_radio\<close>, \<open>bin/lcq-bridge.rs\<close>, \<open>examples\<close>), and the text of
  log lines. They move bytes between what is modelled. The manifest of the development
  lists every part of the crate.
\<close>

section \<open>Properties across components\<close>

lemma supporters_vote:
  "m \<in> set (binding_supporters c) \<Longrightarrow> \<exists>v \<in> set (binding c). author v = m \<and> verdict v = Support"
  by (auto simp: binding_supporters_def)

text \<open>
  (C1) A fleet whose manifest parses cannot endorse two claims without an honest member
  behind both: if two cases, however they were reached, are both approved under the
  policy of one manifest, then whichever members are compromised, as long as they are no
  more than the fault budget, some member outside them has cast a supporting binding vote
  in each case, on that case's own claim.
\<close>

theorem conflicting_approvals_share_honest_voter:
  assumes "manifest_parse pr t = Inr mf" and "manifest_policy mf = Inr p"
    and "case_reachable c" and "evaluate p (binding_supporters c) = Inr r" and "approved r"
    and "case_reachable d" and "evaluate p (binding_supporters d) = Inr s" and "approved s"
    and "finite faulty" and "card faulty \<le> max_faulty p"
  shows "\<exists>m. m \<notin> faulty
    \<and> (\<exists>v \<in> set (binding c). author v = m \<and> verdict v = Support \<and> opinion_subject v = case_subject c)
    \<and> (\<exists>v \<in> set (binding d). author v = m \<and> verdict v = Support \<and> opinion_subject v = case_subject d)"
proof -
  have "length (mf_members mf) \<le> 64" using parse_wf [OF assms(1)] by (simp add: manifest_wf_def)
  then have "max_faulty p < card (set (binding_supporters c) \<inter> set (binding_supporters d))"
    using approved_overlap [OF assms(2) [unfolded manifest_policy_def] _ assms(4,5,7,8)] by simp
  then have "card faulty < card (set (binding_supporters c) \<inter> set (binding_supporters d))"
    using assms(10) by simp
  then have "\<not> set (binding_supporters c) \<inter> set (binding_supporters d) \<subseteq> faulty"
    using card_mono [OF assms(9)] by (metis leD)
  then obtain m where m: "m \<notin> faulty" "m \<in> set (binding_supporters c)" "m \<in> set (binding_supporters d)" by blast
  have sub: "\<forall>v \<in> set (binding c). opinion_subject v = case_subject c"
      "\<forall>v \<in> set (binding d). opinion_subject v = case_subject d"
    using case_reachable_inv [OF assms(3)] case_reachable_inv [OF assms(6)] by (simp_all add: case_inv_def)
  show ?thesis using m sub supporters_vote [OF m(2)] supporters_vote [OF m(3)] by blast
qed

definition other_subject :: Subject where
  "other_subject = sample_subject\<lparr>revision := 9\<rparr>"

definition vote_on :: "Subject \<Rightarrow> string \<Rightarrow> Opinion" where
  "vote_on s a = \<lparr>author = a, opinion_subject = s, stage = BindingSupport, verdict = Support\<rparr>"

definition endorsed :: "Subject \<Rightarrow> Case" where
  "endorsed s = snd (accept (snd (accept (snd (close_consultation (case_open s) 1400)) (vote_on s ''alpha'') 1401))
     (vote_on s ''bravo'') 1402)"

lemma endorsed_reachable: "case_reachable (endorsed s)"
proof -
  have "case_reachable (snd (close_consultation (case_open s) 1400))"
    unfolding case_open_def by (rule reach_step [OF reach_open]) (rule step_close, rule prod.collapse [symmetric])
  then show ?thesis
    unfolding endorsed_def
    by (rule reach_step [OF reach_step]; intro step_accept) (rule prod.collapse [symmetric])+
qed

theorem conflicting_approvals_share_honest_voter_witness:
  "case_subject (endorsed sample_subject) \<noteq> case_subject (endorsed other_subject)
   \<and> (\<exists>m. (\<exists>v \<in> set (binding (endorsed sample_subject)). author v = m) \<and> (\<exists>v \<in> set (binding (endorsed other_subject)). author v = m))"
proof
  obtain out where o: "sign_text sample_primitives sample_text (from_seed (replicate 32 5)) = Inr out"
    by (rule sample_signs)
  have "length (sk_seed (from_seed (replicate 32 5))) = 32" by (simp add: from_seed_def)
  from sign_parse_verify [OF sample_primitives_ok this o] obtain mf parts where
    mf: "manifest_parse sample_primitives out = Inr mf" and parts: "parts_read sample_primitives sample_text False = Inr parts"
    and pol: "manifest_policy mf = with_settings (map (\<lambda>mb. (mb_id mb, mb_competence mb)) (sort_key mb_index (pt_members parts)))
      (or_default 0 (pt_byzantine_bps parts)) (or_default 0 (pt_max_competence_ratio parts))" .
  define p where "p = \<lparr>competences = [(''alpha'', Competence 100), (''bravo'', Competence 66)],
     byzantine_bps = 3333, max_competence_ratio = 3, total_competence = 166\<rparr>"
  have "with_settings [(''alpha'', 100), (''bravo'', 66)] 3333 3 = Inr p" unfolding p_def by code_simp
  moreover have "parts = sample_parts" using parts sample_reads by simp
  ultimately have "manifest_policy mf = Inr p" using pol by (simp add: sample_parts_def or_default_def)
  moreover have "evaluate p (binding_supporters (endorsed sample_subject))
      = Inr \<lparr>signer_count = 2, support_competence = 166, count_met = True, competence_met = True\<rparr>"
    unfolding p_def by code_simp
  moreover have "evaluate p (binding_supporters (endorsed other_subject))
      = Inr \<lparr>signer_count = 2, support_competence = 166, count_met = True, competence_met = True\<rparr>"
    unfolding p_def by code_simp
  ultimately show "\<exists>m. (\<exists>v \<in> set (binding (endorsed sample_subject)). author v = m)
      \<and> (\<exists>v \<in> set (binding (endorsed other_subject)). author v = m)"
    using conflicting_approvals_share_honest_voter [OF mf _ endorsed_reachable _ _ endorsed_reachable, of p sample_subject _ other_subject _ "{}"]
    by (fastforce simp: approved_def)
  show "case_subject (endorsed sample_subject) \<noteq> case_subject (endorsed other_subject)" by code_simp
qed

text \<open>
  (C15) No nonce is used twice: a frame sealed under a sequence that was reserved while the
  journal's file was whole, and a frame sealed under any sequence reserved later, after any
  calls, power cuts, torn appends and detached compactions, get different nonces, whichever
  author indices they are sealed under; and two members' frames never share one, whatever
  their sequences. The file is whole after an opening, and as long as since then no failed
  append left part of its record behind and no compaction failed after its rename. The
  counter's last value, at which it saturates, is left out.
\<close>

theorem nonces_never_repeat:
  assumes "postcard_ok pc" and "log_open pc bs True = Inr j0" and "whole_life pc j0 j"
    and "log_reserve_sequence pc (j\<lparr>writes := ws, compactions := cs\<rparr>) = (Inr q, j1)" and "life pc j1 j2"
    and "log_reserve_sequence pc j2 = (Inr q', j3)" and "q < - 1"
  shows "nonce_for i q \<noteq> nonce_for k q' \<and> (\<forall>a b. i \<noteq> k \<longrightarrow> nonce_for i a \<noteq> nonce_for k b)"
  using sequences_grow [OF assms] by (auto simp: nonce_inj)

theorem nonces_never_repeat_witness:
  "\<exists>j1 j2 q j3. log_reserve_sequence sample_pc sample_log = (Inr 0, j1) \<and> life sample_pc j1 j2
     \<and> log_reserve_sequence sample_pc j2 = (Inr q, j3) \<and> nonce_for 3 0 \<noteq> nonce_for 3 q"
proof -
  obtain j1 where j1: "log_reserve_sequence sample_pc sample_log = (Inr 0, j1)"
    using reserve_works [of sample_log] by (auto simp: sample_log_def default_state_def)
  obtain j2 where j2: "log_open sample_pc (log_file j1 @ take 3 (le_bytes 4 (1 :: u32) @ [0] @ le_bytes 4 (crc32 [0]))) True = Inr j2"
    using open_total by blast
  note l = cut_step [OF encode_sample j2]
  obtain q j3 where q: "log_reserve_sequence sample_pc j2 = (Inr q, j3)"
    using reserve_works [of j2] open_script [OF j2] by blast
  have "nonce_for 3 0 \<noteq> nonce_for 3 q"
    using nonces_never_repeat [OF sample_pc_ok sample_log_open whole_start sample_same [THEN trans, OF j1] l q, of 3 3]
    by (simp add: word_gt_0)
  with j1 l q show ?thesis by blast
qed

end
